(* ===== verification/Machine.thy ===== *)
theory Machine
  imports "HOL-Library.Word" "HOL-Library.Monad_Syntax" "HOL-Library.Signed_Division"
begin

text \<open>
  The machine the kernel runs on, as far as the C++ sources see it: 8, 16 and 32 bit integers as
  words, a flat little-endian byte memory indexed by 32 bit addresses (the kernel runs with an
  identity mapping, so one memory serves every pointer), the \<^verbatim>\<open>int\<close> arithmetic of the i386 C++
  ABI, and the constants of \<^verbatim>\<open>kernel/config.h\<close> and \<^verbatim>\<open>kernel/status.h\<close>.

  A call that may not return (an endless loop, \<^verbatim>\<open>panic\<close>, a processor fault) has a result of type
  \<^typ>\<open>'a option\<close>, and \<^term>\<open>None\<close> stands for "control does not come back to the caller".

  The lemmas of the second half are the arithmetic of loop counters, of address ranges and of
  little-endian loads and stores that the component theories share.
\<close>

unbundle bit_operations_syntax

section \<open>Integers and memory\<close>

type_synonym u8 = "8 word"
type_synonym u16 = "16 word"
type_synonym u32 = "32 word"

type_synonym mem = "u32 \<Rightarrow> u8"

text \<open>Collections: \<open>kernel_consts\<close> unfolds the numeric constants of the sources, \<open>mem_ops\<close> the
  loads and stores, \<open>frame\<close> holds the facts that an operation leaves other addresses alone.\<close>

named_theorems kernel_consts
named_theorems mem_ops
named_theorems frame

text \<open>The global state every component extends with its own globals: memory, and the port operations
  issued so far (\<^verbatim>\<open>io.asm\<close>), which is all that software can know of a device.\<close>

datatype io_event = OutB u16 u8 | OutW u16 u16 | InB u16 | InW u16

record mach =
  mem :: mem
  io_log :: "io_event list"

definition outb :: "u16 \<Rightarrow> u8 \<Rightarrow> 'a mach_scheme \<Rightarrow> 'a mach_scheme" where
  "outb port val s = s\<lparr>io_log := io_log s @ [OutB port val]\<rparr>"

subsection \<open>Address ranges\<close>

text \<open>The \<open>n\<close> addresses from \<open>p\<close> on, wrapping at the end of the address space like the hardware.\<close>

definition region :: "u32 \<Rightarrow> nat \<Rightarrow> u32 set" where
  "region p n = {a. unat (a - p) < n}"

definition same_outside :: "u32 set \<Rightarrow> mem \<Rightarrow> mem \<Rightarrow> bool" where
  "same_outside R m m' \<longleftrightarrow> (\<forall>a. a \<notin> R \<longrightarrow> m' a = m a)"

subsection \<open>Little-endian loads and stores\<close>

definition load16 :: "mem \<Rightarrow> u32 \<Rightarrow> u16" where
  "load16 m p = ucast (m p) OR push_bit 8 (ucast (m (p + 1)))"

definition load32 :: "mem \<Rightarrow> u32 \<Rightarrow> u32" where
  "load32 m p = ucast (m p) OR push_bit 8 (ucast (m (p + 1)))
     OR push_bit 16 (ucast (m (p + 2))) OR push_bit 24 (ucast (m (p + 3)))"

definition store8 :: "mem \<Rightarrow> u32 \<Rightarrow> u8 \<Rightarrow> mem" where
  "store8 m p v = m(p := v)"

definition store16 :: "mem \<Rightarrow> u32 \<Rightarrow> u16 \<Rightarrow> mem" where
  "store16 m p v = m(p := ucast v, p + 1 := ucast (drop_bit 8 v))"

definition store32 :: "mem \<Rightarrow> u32 \<Rightarrow> u32 \<Rightarrow> mem" where
  "store32 m p v = m(p := ucast v, p + 1 := ucast (drop_bit 8 v),
     p + 2 := ucast (drop_bit 16 v), p + 3 := ucast (drop_bit 24 v))"

definition load_bytes :: "mem \<Rightarrow> u32 \<Rightarrow> nat \<Rightarrow> u8 list" where
  "load_bytes m p n = map (\<lambda>i. m (p + of_nat i)) [0..<n]"

definition write_bytes :: "mem \<Rightarrow> u32 \<Rightarrow> u8 list \<Rightarrow> mem" where
  "write_bytes m p bs = (\<lambda>a. if unat (a - p) < length bs then bs ! unat (a - p) else m a)"

text \<open>A NUL-terminated C string with the characters \<open>cs\<close> at address \<open>p\<close>.\<close>

definition cstring :: "mem \<Rightarrow> u32 \<Rightarrow> u8 list \<Rightarrow> bool" where
  "cstring m p cs \<longleftrightarrow> length cs < 2 ^ 32 \<and> 0 \<notin> set cs \<and> load_bytes m p (length cs) = cs
     \<and> m (p + of_nat (length cs)) = 0"

subsection \<open>C integer arithmetic\<close>

text \<open>\<^verbatim>\<open>int\<close> is a 32 bit word read by \<^term>\<open>sint\<close>; \<^verbatim>\<open>/\<close> and \<^verbatim>\<open>%\<close> truncate towards zero.
  \<^verbatim>\<open>char\<close> is signed on i386, so a character promotes to \<^verbatim>\<open>int\<close> by sign extension.\<close>

definition int_div :: "u32 \<Rightarrow> u32 \<Rightarrow> u32" where
  "int_div a b = word_of_int (sint a sdiv sint b)"

definition int_mod :: "u32 \<Rightarrow> u32 \<Rightarrow> u32" where
  "int_mod a b = word_of_int (sint a smod sint b)"

definition char_to_int :: "u8 \<Rightarrow> u32" where
  "char_to_int c = scast c"

section \<open>Constants\<close>

text \<open>\<^verbatim>\<open>kernel/status.h\<close>: the error codes; callees return them negated.\<close>

definition EIO :: u32 where
  [kernel_consts]: "EIO = 5"

definition ENOMEM :: u32 where
  [kernel_consts]: "ENOMEM = 12"

definition EINVAL :: u32 where
  [kernel_consts]: "EINVAL = 22"

definition EROFS :: u32 where
  [kernel_consts]: "EROFS = 30"

definition ENAMETOOLONG :: u32 where
  [kernel_consts]: "ENAMETOOLONG = 36"

definition EFSNOTPRESENT :: u32 where
  [kernel_consts]: "EFSNOTPRESENT = 134"

text \<open>\<^verbatim>\<open>kernel/config.h\<close>.\<close>

datatype heap_algorithm = find_first | unknown

definition HEAP_ALGORITHM :: heap_algorithm where
  [kernel_consts]: "HEAP_ALGORITHM = find_first"

definition HEAP_SIZE_BYTES :: u32 where
  [kernel_consts]: "HEAP_SIZE_BYTES = 1024 * 1024 * 100"

definition HEAP_BLOCK_SIZE :: u32 where
  [kernel_consts]: "HEAP_BLOCK_SIZE = 1024 * 4"

definition HEAP_ADDRESS :: u32 where
  [kernel_consts]: "HEAP_ADDRESS = 0x01000000"

definition HEAP_TABLE_ADDRESS :: u32 where
  [kernel_consts]: "HEAP_TABLE_ADDRESS = 0x00007E00"

definition DISK_BLOCK_SIZE :: u32 where
  [kernel_consts]: "DISK_BLOCK_SIZE = 512"

definition FS_MAX_FILESYSTEMS :: u32 where
  [kernel_consts]: "FS_MAX_FILESYSTEMS = 512"

definition FS_MAX_FILE_DESCRIPTORS :: u32 where
  [kernel_consts]: "FS_MAX_FILE_DESCRIPTORS = 512"

definition FS_MAX_PATH_SIZE :: u32 where
  [kernel_consts]: "FS_MAX_PATH_SIZE = 255"

definition GDT_TOTAL_SEGMENTS :: u32 where
  [kernel_consts]: "GDT_TOTAL_SEGMENTS = 6"

definition GDT_KERNEL_CODE_SELECTOR :: u32 where
  [kernel_consts]: "GDT_KERNEL_CODE_SELECTOR = 0x08"

definition GDT_KERNEL_DATA_SELECTOR :: u32 where
  [kernel_consts]: "GDT_KERNEL_DATA_SELECTOR = 0x10"

definition PROGRAM_VIRTUAL_ADDRESS :: u32 where
  [kernel_consts]: "PROGRAM_VIRTUAL_ADDRESS = 0x400000"

definition PROGRAM_USER_PROGRAM_STACK_SIZE :: u32 where
  [kernel_consts]: "PROGRAM_USER_PROGRAM_STACK_SIZE = 1024 * 16"

definition PROGRAM_VIRTUAL_STACK_ADDRESS_START :: u32 where
  [kernel_consts]: "PROGRAM_VIRTUAL_STACK_ADDRESS_START = 0x3FF000"

definition PROGRAM_VIRTUAL_STACK_ADDRESS_END :: u32 where
  [kernel_consts]: "PROGRAM_VIRTUAL_STACK_ADDRESS_END = PROGRAM_VIRTUAL_STACK_ADDRESS_START - PROGRAM_USER_PROGRAM_STACK_SIZE"

definition PROGRAM_MAX_ALLOCATIONS :: u32 where
  [kernel_consts]: "PROGRAM_MAX_ALLOCATIONS = 1024"

definition MAX_PROCESSES :: u32 where
  [kernel_consts]: "MAX_PROCESSES = 512"

definition USER_DATA_SEGMENT :: u8 where
  [kernel_consts]: "USER_DATA_SEGMENT = 0x23"

definition USER_CODE_SEGMENT :: u8 where
  [kernel_consts]: "USER_CODE_SEGMENT = 0x1b"

section \<open>Loop counters\<close>

text \<open>A counter below a bound can be increased without wrapping: the step of every
  \<^verbatim>\<open>for (size_t idx = ...; idx < n; ++idx)\<close> loop.\<close>

lemma unat_bound: "unat (w :: 'a::len word) < 2 ^ LENGTH('a)"
  by (rule unsigned_less)

lemma unat_succ [simp]:
  assumes "(i :: 'a::len word) < n"
  shows "unat (i + 1) = Suc (unat i)"
proof -
  from assms have "Suc (unat i) \<le> unat n" by (simp add: word_less_nat_alt)
  then have "Suc (unat i) < 2 ^ LENGTH('a)" using unat_bound [of n] by (rule le_less_trans)
  then show ?thesis by (simp add: unat_word_ariths)
qed

lemma succ_le: "(i :: 'a::len word) < n \<Longrightarrow> i + 1 \<le> n"
  by (simp add: inc_le)

lemma less_succ_iff: "(i :: 'a::len word) < n \<Longrightarrow> j < i + 1 \<longleftrightarrow> j \<le> i"
  by (simp add: word_less_nat_alt word_le_nat_alt less_Suc_eq_le)

lemma loop_measure: "(i :: 'a::len word) < n \<Longrightarrow> unat n - Suc (unat i) < unat n - unat i"
  by (simp add: word_less_nat_alt diff_less_mono2)

lemma loop_measure_down: "(i :: 'a::len word) \<noteq> 0 \<Longrightarrow> unat i - Suc 0 < unat i"
  by (simp add: unat_gt_0)

lemma succ_le_iff: "(i :: 'a::len word) < n \<Longrightarrow> i + 1 \<le> j \<longleftrightarrow> i < j"
  by (metis less_succ_iff not_less)

lemma le_split_succ: "(i :: 'a::len word) < n \<Longrightarrow> i \<le> j \<longleftrightarrow> j = i \<or> i + 1 \<le> j"
  using succ_le_iff [of i n j] order.order_iff_strict [of i j] by auto

lemma unat_diff_succ:
  assumes "(i :: u32) < n"
  shows "unat (n - i) = Suc (unat (n - (i + 1)))"
proof -
  have "n - i \<noteq> 0" using assms by auto
  then show ?thesis using unat_minus_one [of "n - i"] by (simp add: diff_diff_eq unat_gt_0)
qed

lemma pred_less: "(0 :: u32) < i \<Longrightarrow> i - 1 < i"
  using unat_minus_one [of i] by (auto simp: word_less_nat_alt unat_gt_0)

lemma pred_less_iff:
  assumes "(0 :: u32) < i"
  shows "j < i - 1 \<longleftrightarrow> j < i \<and> j \<noteq> i - 1"
  using less_succ_iff [OF pred_less [OF assms], of j] by (auto simp: order.strict_iff_order)

lemma addr_offset: "(a :: u32) = p + i \<longleftrightarrow> a - p = i"
  by (auto simp: algebra_simps)

lemma unat_of_nat32: "n < 2 ^ 32 \<Longrightarrow> unat (of_nat n :: u32) = n"
  by (simp add: unat_of_nat take_bit_nat_eq_self)

lemma of_nat32_eq: "a < 2 ^ 32 \<Longrightarrow> b < 2 ^ 32 \<Longrightarrow> (of_nat a :: u32) = of_nat b \<longleftrightarrow> a = b"
  using unat_of_nat32 [of a] unat_of_nat32 [of b] by metis

lemma sint_of_nat32: "n < 2 ^ 31 \<Longrightarrow> sint (of_nat n :: u32) = int n"
  by (simp add: sint_uint uint_nat unat_of_nat32 signed_take_bit_int_eq_self)

lemma addr_of_nat: "n < 2 ^ 32 \<Longrightarrow> (a :: u32) = p + of_nat n \<longleftrightarrow> unat (a - p) = n"
  using word_unat_eq_iff [of "a - p" "of_nat n"] by (simp add: addr_offset unat_of_nat32)

text \<open>The same for the signed counters of \<^verbatim>\<open>for (int idx = ...; idx < n; ++idx)\<close>.\<close>

lemma sint_succ:
  assumes "(i :: u32) <s n"
  shows "sint (i + 1) = sint i + 1"
proof -
  have "sint i + 1 < 2 ^ 31" using assms sint_lt [of n] by (simp add: word_sless_alt)
  moreover have "- (2 ^ 31) \<le> sint i + 1" using sint_ge [of i] by simp
  ultimately show ?thesis
    by (simp add: sint_word_ariths signed_take_bit_int_eq_self)
qed

lemma sless_sint: "(i :: u32) <s n \<Longrightarrow> sint i < sint n"
  by (simp add: word_sless_alt)

lemmas loop_measure_signed = sint_succ sless_sint

text \<open>On non-negative values the signed operations are the unsigned ones.\<close>

definition nonneg :: "u32 \<Rightarrow> bool" where
  "nonneg a \<longleftrightarrow> uint a < 2 ^ 31"

lemma nonneg_unat: "nonneg a \<longleftrightarrow> unat a < 2 ^ 31"
  unfolding nonneg_def uint_nat by (metis of_nat_less_iff of_nat_numeral of_nat_power)

lemma nonneg_sint: "nonneg a \<Longrightarrow> sint a = uint a"
  unfolding sint_uint
  by (rule signed_take_bit_int_eq_self) (auto simp: nonneg_def intro: order_trans [OF _ uint_ge_0])

lemma nonneg_iff_sint: "nonneg a \<longleftrightarrow> 0 \<le> sint a"
proof
  assume ge: "0 \<le> sint a"
  have lt: "sint a < 2 ^ 31" using sint_lt [of a] by simp
  have "uint a = uint (word_of_int (sint a) :: u32)" by simp
  also have "\<dots> = sint a" using ge lt by (simp only: uint_word_of_int) simp
  finally show "nonneg a" using lt by (simp add: nonneg_def)
qed (simp add: nonneg_sint)

lemma nonneg_numeral [simp]: "nonneg 0" "nonneg 1" "nonneg 2" "nonneg 10"
  by (simp_all add: nonneg_def)

lemma sless_nonneg: "nonneg a \<Longrightarrow> nonneg b \<Longrightarrow> a <s b \<longleftrightarrow> a < b"
  by (simp add: word_sless_alt nonneg_sint word_less_def)

lemma sdiv_smod_nonneg:
  assumes "(0 :: int) \<le> a" and "0 \<le> b"
  shows "a sdiv b = a div b" and "a smod b = a mod b"
  using assms
  by (auto simp: signed_divide_int_def signed_modulo_int_def sgn_if minus_mult_div_eq_mod)

lemma int_div_nonneg: "nonneg a \<Longrightarrow> nonneg b \<Longrightarrow> int_div a b = a div b"
  by (simp add: int_div_def nonneg_sint word_div_def sdiv_smod_nonneg)

lemma int_mod_nonneg: "nonneg a \<Longrightarrow> nonneg b \<Longrightarrow> int_mod a b = a mod b"
  by (simp add: int_mod_def nonneg_sint word_mod_def sdiv_smod_nonneg)

section \<open>Address ranges\<close>

lemma mem_region: "a \<in> region p n \<longleftrightarrow> unat (a - p) < n"
  by (simp add: region_def)

lemma region_0 [simp]: "region p 0 = {}"
  by (auto simp: region_def)

lemma region_mono: "n \<le> k \<Longrightarrow> region p n \<subseteq> region p k"
  by (auto simp: region_def)

lemma unat_diff_addr:
  "unat (a - p :: u32) = (if p \<le> a then unat a - unat p else 2 ^ 32 + unat a - unat p)"
  unfolding unat_sub_if' word_le_nat_alt by (simp, arith)

text \<open>A range that does not pass the end of the address space is an interval.\<close>

lemma region_interval:
  assumes "unat p + n \<le> 2 ^ 32"
  shows "a \<in> region p n \<longleftrightarrow> unat p \<le> unat a \<and> unat a < unat p + n"
proof (cases "p \<le> a")
  case True
  then show ?thesis by (auto simp: mem_region unat_diff_addr word_le_nat_alt)
next
  case False
  then show ?thesis using assms unat_bound [of p]
    by (auto simp: mem_region unat_diff_addr word_le_nat_alt)
qed

lemma region_Suc: "region p (Suc n) = insert p (region (p + 1) n)"
proof -
  have "unat (a - (p + 1)) = unat (a - p) - 1" if "a \<noteq> p" for a
    using that unat_minus_one [of "a - p"] by (simp add: diff_diff_eq [symmetric])
  moreover have "0 < unat (a - p)" if "a \<noteq> p" for a using that by (simp add: unat_gt_0)
  ultimately have "a \<in> region p (Suc n) \<longleftrightarrow> a \<in> insert p (region (p + 1) n)" for a
    by (cases "a = p") (fastforce simp: mem_region)+
  then show ?thesis by blast
qed

lemma region_shift:
  assumes "i + n \<le> k"
  shows "region (p + of_nat i) n \<subseteq> region p k"
proof
  fix a assume "a \<in> region (p + of_nat i) n"
  then have x: "unat (a - (p + of_nat i)) < n" by (simp add: mem_region)
  have "a - p = (a - (p + of_nat i)) + of_nat i" by simp
  then have "unat (a - p) \<le> unat (a - (p + of_nat i)) + unat (of_nat i :: u32)"
    by (metis mod_less_eq_dividend unat_word_ariths(1))
  moreover have "unat (of_nat i :: u32) \<le> i" by (simp add: unat_of_nat)
  ultimately show "a \<in> region p k" using x assms by (simp add: mem_region)
qed

lemma region_disjoint:
  assumes "unat p + n \<le> unat q" and "unat q + k \<le> 2 ^ 32"
  shows "region p n \<inter> region q k = {}"
proof -
  have "unat p + n \<le> 2 ^ 32" using assms by simp
  then show ?thesis using assms by (auto simp: region_interval)
qed

lemma same_outside_refl [simp]: "same_outside R m m"
  by (simp add: same_outside_def)

lemma same_outside_trans:
  "same_outside R m m' \<Longrightarrow> same_outside R' m' m'' \<Longrightarrow> same_outside (R \<union> R') m m''"
  by (simp add: same_outside_def)

lemma same_outside_mono: "same_outside R m m' \<Longrightarrow> R \<subseteq> R' \<Longrightarrow> same_outside R' m m'"
  by (auto simp: same_outside_def)

lemma same_outsideD: "same_outside R m m' \<Longrightarrow> a \<notin> R \<Longrightarrow> m' a = m a"
  by (simp add: same_outside_def)

section \<open>Loads and stores\<close>

lemma load_bytes_length [simp]: "length (load_bytes m p n) = n"
  by (simp add: load_bytes_def)

lemma load_bytes_nth [simp]: "i < n \<Longrightarrow> load_bytes m p n ! i = m (p + of_nat i)"
  by (simp add: load_bytes_def)

lemma load_bytes_0 [simp]: "load_bytes m p 0 = []"
  by (simp add: load_bytes_def)

lemma load_bytes_Suc: "load_bytes m p (Suc n) = load_bytes m p n @ [m (p + of_nat n)]"
  by (simp add: load_bytes_def)

lemma load_bytes_cong:
  "(\<And>i. i < n \<Longrightarrow> m' (q + of_nat i) = m (p + of_nat i)) \<Longrightarrow> load_bytes m' q n = load_bytes m p n"
  by (simp add: load_bytes_def)

lemma of_nat_offset_mem [simp]: "i < n \<Longrightarrow> n \<le> 2 ^ 32 \<Longrightarrow> p + of_nat i \<in> region p n"
  by (simp add: mem_region unat_of_nat take_bit_nat_eq_self)

lemma load_bytes_Cons: "load_bytes m p (Suc n) = m p # load_bytes m (p + 1) n"
  by (simp add: load_bytes_def map_upt_Suc add.assoc del: upt_Suc)

lemma write_bytes_Nil [simp]: "write_bytes m p [] = m"
  by (simp add: write_bytes_def)

lemma write_bytes_Cons:
  assumes "length bs < 2 ^ 32"
  shows "write_bytes m p (b # bs) = write_bytes (m(p := b)) (p + 1) bs"
proof
  fix a
  show "write_bytes m p (b # bs) a = write_bytes (m(p := b)) (p + 1) bs a"
  proof (cases "a = p")
    case True
    have "unat (- 1 :: u32) = 2 ^ 32 - 1" by (simp add: unsigned_minus_1_eq_mask mask_eq_exp_minus_1)
    with True assms show ?thesis by (simp add: write_bytes_def)
  next
    case False
    then have "unat (a - p) = Suc (unat (a - (p + 1)))"
      using unat_minus_one [of "a - p"] by (simp add: diff_diff_eq [symmetric] unat_gt_0)
    with False show ?thesis by (simp add: write_bytes_def)
  qed
qed

lemma write_bytes_snoc:
  "length bs < 2 ^ 32
   \<Longrightarrow> (write_bytes m p bs)(p + of_nat (length bs) := b) = write_bytes m p (bs @ [b])"
  by (auto simp: write_bytes_def fun_eq_iff nth_append addr_of_nat less_Suc_eq)

lemma write_bytes_outside [frame]: "same_outside (region p (length bs)) m (write_bytes m p bs)"
  by (simp add: write_bytes_def same_outside_def mem_region)

lemma load_write_bytes: "length bs < 2 ^ 32 \<Longrightarrow> load_bytes (write_bytes m p bs) p (length bs) = bs"
  by (rule nth_equalityI) (simp_all add: write_bytes_def unat_of_nat take_bit_nat_eq_self)

lemma load_write_bytes_within:
  assumes "i + length bs \<le> n" and "n < 2 ^ 32"
  shows "load_bytes (write_bytes m (p + of_nat i) bs) p n =
    take i (load_bytes m p n) @ bs @ drop (i + length bs) (load_bytes m p n)"
proof (rule nth_equalityI)
  fix k assume "k < length (load_bytes (write_bytes m (p + of_nat i) bs) p n)"
  then have k: "k < n" by simp
  have off: "unat (of_nat k - of_nat i :: u32) = (if i \<le> k then k - i else 2 ^ 32 + k - i)"
    using k assms unat_diff_addr [of "of_nat k" "of_nat i"]
    by (simp add: word_le_nat_alt unat_of_nat32)
  consider "k < i" | "i \<le> k" "k < i + length bs" | "i + length bs \<le> k" by linarith
  then show "load_bytes (write_bytes m (p + of_nat i) bs) p n ! k =
      (take i (load_bytes m p n) @ bs @ drop (i + length bs) (load_bytes m p n)) ! k"
    using k assms by cases (auto simp: write_bytes_def off nth_append)
qed (use assms in simp)

lemma write_bytes_at:
  "i < length bs \<Longrightarrow> length bs < 2 ^ 32 \<Longrightarrow> write_bytes m p bs (p + of_nat i) = bs ! i"
  by (simp add: write_bytes_def unat_of_nat take_bit_nat_eq_self)

lemma load_bytes_frame:
  assumes "same_outside R m m'" and "region p n \<inter> R = {}" and "n \<le> 2 ^ 32"
  shows "load_bytes m' p n = load_bytes m p n"
proof (rule load_bytes_cong)
  fix i assume "i < n"
  then have "p + of_nat i \<in> region p n" using assms(3) by (rule of_nat_offset_mem)
  then show "m' (p + of_nat i) = m (p + of_nat i)" using assms(1,2) by (auto dest: same_outsideD)
qed

lemma base_mem_region [simp]: "p \<in> region p n \<longleftrightarrow> 0 < n"
  by (simp add: mem_region)

lemma offsets_mem_region [simp]:
  "1 < n \<Longrightarrow> p + 1 \<in> region p n" "2 < n \<Longrightarrow> p + 2 \<in> region p n" "3 < n \<Longrightarrow> p + 3 \<in> region p n"
  by (simp_all add: mem_region)

lemma offsets_distinct [simp]:
  "(p :: u32) + 1 \<noteq> p" "(p :: u32) + 2 \<noteq> p" "(p :: u32) + 3 \<noteq> p"
  "p \<noteq> (p :: u32) + 1" "p \<noteq> (p :: u32) + 2" "p \<noteq> (p :: u32) + 3"
  by simp_all

lemma load32_store32 [simp, mem_ops]: "load32 (store32 m p v) p = v"
proof (rule bit_word_eqI)
  fix n assume n: "n < LENGTH(32)"
  consider "n < 8" | "8 \<le> n" "n < 16" | "16 \<le> n" "n < 24" | "24 \<le> n" "n < 32"
    using n by fastforce
  then show "bit (load32 (store32 m p v) p) n = bit v n"
    by cases (auto simp: load32_def store32_def bit_simps)
qed

lemma load16_store16 [simp, mem_ops]: "load16 (store16 m p v) p = v"
  by (rule bit_word_eqI) (auto simp: load16_def store16_def bit_simps)

lemma store32_outside [frame]: "same_outside (region p 4) m (store32 m p v)"
  by (auto simp: same_outside_def store32_def)

lemma store16_outside [frame]: "same_outside (region p 2) m (store16 m p v)"
  by (auto simp: same_outside_def store16_def)

lemma load32_cong:
  "m' p = m p \<Longrightarrow> m' (p + 1) = m (p + 1) \<Longrightarrow> m' (p + 2) = m (p + 2) \<Longrightarrow> m' (p + 3) = m (p + 3)
   \<Longrightarrow> load32 m' p = load32 m p"
  by (simp add: load32_def)

lemma load32_frame:
  assumes "same_outside R m m'" and "region p 4 \<inter> R = {}"
  shows "load32 m' p = load32 m p"
proof -
  have "p \<notin> R" "p + 1 \<notin> R" "p + 2 \<notin> R" "p + 3 \<notin> R"
    using assms(2) base_mem_region [of p 4] offsets_mem_region [of 4 p]
    by (auto simp: disjoint_iff simp del: base_mem_region offsets_mem_region)
  then show ?thesis using assms(1) by (intro load32_cong) (auto dest: same_outsideD)
qed

lemma load16_frame:
  assumes "same_outside R m m'" and "region p 2 \<inter> R = {}"
  shows "load16 m' p = load16 m p"
proof -
  have "p \<notin> R" "p + 1 \<notin> R"
    using assms(2) base_mem_region [of p 2] offsets_mem_region [of 2 p]
    by (auto simp: disjoint_iff simp del: base_mem_region offsets_mem_region)
  then show ?thesis using assms(1) by (simp add: load16_def same_outsideD)
qed

section \<open>C strings\<close>

lemma cstring_nth: "cstring m p cs \<Longrightarrow> i < length cs \<Longrightarrow> m (p + of_nat i) = cs ! i"
  by (metis cstring_def load_bytes_nth)

lemma cstring_nonzero: "cstring m p cs \<Longrightarrow> i < length cs \<Longrightarrow> m (p + of_nat i) \<noteq> 0"
  by (metis cstring_def cstring_nth nth_mem)

lemma cstring_end: "cstring m p cs \<Longrightarrow> m (p + of_nat (length cs)) = 0"
  by (simp add: cstring_def)

lemma cstring_Nil: "cstring m p [] \<longleftrightarrow> m p = 0"
  by (simp add: cstring_def)

lemma cstring_Cons:
  "cstring m p (c # cs) \<longleftrightarrow> Suc (length cs) < 2 ^ 32 \<and> m p = c \<and> c \<noteq> 0 \<and> cstring m (p + 1) cs"
  by (auto simp: cstring_def load_bytes_Cons add.assoc)

lemma cstring_write:
  assumes "0 \<notin> set cs" and "Suc (length cs) < 2 ^ 32"
  shows "cstring (write_bytes m p (cs @ [0])) p cs"
proof -
  have "load_bytes (write_bytes m p (cs @ [0])) p (length cs) = cs"
    using assms by (intro nth_equalityI) (simp_all add: write_bytes_at nth_append)
  then show ?thesis using assms write_bytes_at [of "length cs" "cs @ [0]" m p]
    by (simp add: cstring_def)
qed

lemma cstring_frame:
  assumes "same_outside R m m'" and "region p (Suc (length cs)) \<inter> R = {}" and "cstring m p cs"
  shows "cstring m' p cs"
proof -
  have l: "Suc (length cs) \<le> 2 ^ 32" using assms(3) by (simp add: cstring_def)
  have "region p (length cs) \<inter> R = {}"
    using assms(2) region_mono [of "length cs" "Suc (length cs)" p] by auto
  then have "load_bytes m' p (length cs) = cs"
    using load_bytes_frame [OF assms(1), of p "length cs"] l assms(3) by (simp add: cstring_def)
  moreover have "p + of_nat (length cs) \<in> region p (Suc (length cs))" using l by simp
  then have "m' (p + of_nat (length cs)) = m (p + of_nat (length cs))"
    using assms(1,2) by (auto dest: same_outsideD)
  ultimately show ?thesis using assms(3) by (simp add: cstring_def)
qed

section \<open>Masks\<close>

lemma and_masks:
  "(w :: u32) AND 0xf = take_bit 4 w" "(w :: u32) AND 0xff = take_bit 8 w"
  "(w :: u32) AND 0xfff = take_bit 12 w" "(w :: u32) AND 0xffff = take_bit 16 w"
  "(b :: u8) AND 0xf = take_bit 4 b"
  by (simp_all add: take_bit_eq_mask mask_eq_exp_minus_1)

lemma take_bit_small: "(w :: u32) < 2 ^ n \<Longrightarrow> n < 32 \<Longrightarrow> take_bit n w = w"
  by (simp add: less_mask_eq take_bit_eq_mask)

section \<open>Fields of a structure\<close>

text \<open>Words at offsets at least four apart do not overlap.\<close>

lemma field_regions:
  assumes "d + 4 \<le> e" and "e < 0x80000000" and "d < 0x80000000"
  shows "region (x + d) 4 \<inter> region (x + e :: u32) 4 = {}"
proof -
  have "unat d + 4 \<le> unat e" "unat e < 2 ^ 31" "unat d < 2 ^ 31"
    using assms by (auto simp: word_le_nat_alt word_less_nat_alt unat_word_ariths)
  moreover have "a - (x + d) = (a - (x + e)) + (e - d)" for a by simp
  then have "unat (a - (x + d)) = (unat (a - (x + e)) + (unat e - unat d)) mod 2 ^ 32" for a
    using calculation(1) by (simp only: unat_word_ariths(1) unat_sub word_le_nat_alt) simp
  ultimately show ?thesis by (auto simp: mem_region)
qed

lemma field_other:
  assumes "d + 4 \<le> e \<or> e + 4 \<le> d" and "e < 0x80000000" and "d < 0x80000000"
  shows "load32 (store32 m (x + d) v) (x + e) = load32 m (x + e)"
  using assms field_regions [of d e x] field_regions [of e d x]
  by (intro load32_frame [OF store32_outside]) (auto simp: Int_commute)

lemma field_other_base:
  "4 \<le> e \<Longrightarrow> e < 0x80000000 \<Longrightarrow> load32 (store32 m x v) (x + e) = load32 m (x + e)"
  "4 \<le> d \<Longrightarrow> d < 0x80000000 \<Longrightarrow> load32 (store32 m (x + d) v) x = load32 m x"
  using field_other [of 0 e m x v] field_other [of d 0 m x v] by simp_all

end
