(* ===== verification/Libc_String.thy ===== *)
theory Libc_String
  imports Machine
begin

text \<open>
  \<^verbatim>\<open>kernel/libc/ctype.cpp\<close> and \<^verbatim>\<open>kernel/libc/string.cpp\<close> on the flat memory. Every function is
  the source's loop, with the loop counter at its width (\<^verbatim>\<open>size_t\<close> unsigned, \<^verbatim>\<open>int\<close> signed); the
  loops that stop at a NUL byte only are partial functions.

  The lemmas give the closed form of the block operations (which is also what evaluates them), the
  exact effect of the string operations on C strings, and the exact meaning of the two comparison
  functions, whose second test repeats the first.
\<close>

section \<open>Characters\<close>

definition isdigit :: "u32 \<Rightarrow> u32" where
  "isdigit ch = (let c = (ucast ch :: u8) in if c \<ge> 0x30 \<and> c \<le> 0x39 then 1 else 0)"

definition tolower :: "u32 \<Rightarrow> u32" where
  "tolower ch = (let u_ch = (ucast ch :: u8) in
     if u_ch > 0x40 \<and> u_ch < 0x5B then ucast u_ch + 0x20 else ch)"

section \<open>Block operations\<close>

function memcmp_loop :: "mem \<Rightarrow> u32 \<Rightarrow> u32 \<Rightarrow> u32 \<Rightarrow> u32 \<Rightarrow> u32" where
  "memcmp_loop m ptr1 ptr2 n idx =
     (if idx < n then
        (if m (ptr1 + idx) > m (ptr2 + idx) then 1
         else if m (ptr1 + idx) < m (ptr2 + idx) then - 1
         else memcmp_loop m ptr1 ptr2 n (idx + 1))
      else 0)"
  by pat_completeness auto
termination
  by (relation "measure (\<lambda>(m, p1, p2, n, idx). unat n - unat idx)") (auto simp: loop_measure)

definition memcmp :: "mem \<Rightarrow> u32 \<Rightarrow> u32 \<Rightarrow> u32 \<Rightarrow> u32" where
  "memcmp m mem1 mem2 n = memcmp_loop m mem1 mem2 n 0"

text \<open>The ascending copy loop of \<^verbatim>\<open>memcpy\<close>, which is also the \<^verbatim>\<open>else\<close> branch of \<^verbatim>\<open>memmove\<close>.\<close>

function copy_up_loop :: "mem \<Rightarrow> u32 \<Rightarrow> u32 \<Rightarrow> u32 \<Rightarrow> u32 \<Rightarrow> mem" where
  "copy_up_loop m dst src n idx =
     (if idx < n then copy_up_loop (m(dst + idx := m (src + idx))) dst src n (idx + 1) else m)"
  by pat_completeness auto
termination
  by (relation "measure (\<lambda>(m, dst, src, n, idx). unat n - unat idx)") (auto simp: loop_measure)

definition memcpy :: "mem \<Rightarrow> u32 \<Rightarrow> u32 \<Rightarrow> u32 \<Rightarrow> u32 \<times> mem" where
  "memcpy m dst src n = (dst, copy_up_loop m dst src n 0)"

function copy_down_loop :: "mem \<Rightarrow> u32 \<Rightarrow> u32 \<Rightarrow> u32 \<Rightarrow> mem" where
  "copy_down_loop m dst src idx =
     (if idx > 0
      then copy_down_loop (m(dst + (idx - 1) := m (src + (idx - 1)))) dst src (idx - 1)
      else m)"
  by pat_completeness auto
termination
  by (relation "measure (\<lambda>(m, dst, src, idx). unat idx)") (auto simp: unat_minus_one word_gt_0 loop_measure_down)

definition memmove :: "mem \<Rightarrow> u32 \<Rightarrow> u32 \<Rightarrow> u32 \<Rightarrow> u32 \<times> mem" where
  "memmove m dst src n =
     (if src < dst then (dst, copy_down_loop m dst src n) else (dst, copy_up_loop m dst src n 0))"

function memset_loop :: "mem \<Rightarrow> u32 \<Rightarrow> u8 \<Rightarrow> u32 \<Rightarrow> u32 \<Rightarrow> mem" where
  "memset_loop m ptr v n idx =
     (if idx < n then memset_loop (m(ptr + idx := v)) ptr v n (idx + 1) else m)"
  by pat_completeness auto
termination
  by (relation "measure (\<lambda>(m, ptr, v, n, idx). unat n - unat idx)") (auto simp: loop_measure)

definition memset :: "mem \<Rightarrow> u32 \<Rightarrow> u32 \<Rightarrow> u32 \<Rightarrow> mem" where
  "memset m p value n = memset_loop m p (ucast value) n 0"

section \<open>Strings\<close>

partial_function (option) strlen_loop :: "mem \<Rightarrow> u32 \<Rightarrow> u32 \<Rightarrow> u32 option" where
  "strlen_loop m str idx = (if m (str + idx) \<noteq> 0 then strlen_loop m str (idx + 1) else Some idx)"

definition strlen :: "mem \<Rightarrow> u32 \<Rightarrow> u32 option" where
  "strlen m str = strlen_loop m str 0"

partial_function (option) strcpy_loop :: "mem \<Rightarrow> u32 \<Rightarrow> u32 \<Rightarrow> mem option" where
  "strcpy_loop m dst src =
     (if m src \<noteq> 0 then strcpy_loop (m(dst := m src)) (dst + 1) (src + 1) else Some (m(dst := 0)))"

definition strcpy :: "mem \<Rightarrow> u32 \<Rightarrow> u32 \<Rightarrow> (u32 \<times> mem) option" where
  "strcpy m dst src = map_option (\<lambda>m'. (dst, m')) (strcpy_loop m dst src)"

text \<open>The two loops of \<^verbatim>\<open>strncpy\<close>; the second writes to \<^verbatim>\<open>*dst\<close> without advancing \<^verbatim>\<open>dst\<close>.\<close>

function strncpy_copy :: "mem \<Rightarrow> u32 \<Rightarrow> u32 \<Rightarrow> u32 \<Rightarrow> u32 \<Rightarrow> mem \<times> u32 \<times> u32" where
  "strncpy_copy m dst src n idx =
     (if idx < n \<and> m src \<noteq> 0
      then strncpy_copy (m(dst := m src)) (dst + 1) (src + 1) n (idx + 1)
      else (m, dst, idx))"
  by pat_completeness auto
termination
  by (relation "measure (\<lambda>(m, dst, src, n, idx). unat n - unat idx)") (auto simp: loop_measure)

function strncpy_pad :: "mem \<Rightarrow> u32 \<Rightarrow> u32 \<Rightarrow> u32 \<Rightarrow> mem" where
  "strncpy_pad m dst n idx = (if idx < n then strncpy_pad (m(dst := 0)) dst n (idx + 1) else m)"
  by pat_completeness auto
termination
  by (relation "measure (\<lambda>(m, dst, n, idx). unat n - unat idx)") (auto simp: loop_measure)

definition strncpy :: "mem \<Rightarrow> u32 \<Rightarrow> u32 \<Rightarrow> u32 \<Rightarrow> u32 \<times> mem" where
  "strncpy m dst src n =
     (let (m', dst', idx) = strncpy_copy m dst src n 0 in (dst, strncpy_pad m' dst' n idx))"

text \<open>Characters compare as signed values; both comparisons test \<^verbatim>\<open>str1[idx] < str2[idx]\<close> twice,
  the second time written the other way round.\<close>

function strncmp_loop :: "mem \<Rightarrow> u32 \<Rightarrow> u32 \<Rightarrow> u32 \<Rightarrow> u32 \<Rightarrow> u32" where
  "strncmp_loop m str1 str2 n idx =
     (if idx <s n then
        (let end_str1 = (m (str1 + idx) = 0); end_str2 = (m (str2 + idx) = 0) in
         if end_str1 \<and> end_str2 then 0
         else if end_str1 then - 1
         else if end_str2 then 1
         else if m (str1 + idx) <s m (str2 + idx) then - 1
         else if m (str1 + idx) <s m (str2 + idx) then 1
         else strncmp_loop m str1 str2 n (idx + 1))
      else 0)"
  by pat_completeness auto
termination
  by (relation "measure (\<lambda>(m, s1, s2, n, idx). nat (sint n - sint idx))")
    (auto simp: loop_measure_signed)

definition strncmp :: "mem \<Rightarrow> u32 \<Rightarrow> u32 \<Rightarrow> u32 \<Rightarrow> u32" where
  "strncmp m str1 str2 n = strncmp_loop m str1 str2 n 0"

partial_function (option) strcasecmp_loop :: "mem \<Rightarrow> u32 \<Rightarrow> u32 \<Rightarrow> u32 \<Rightarrow> u32 option" where
  "strcasecmp_loop m str1 str2 idx =
     (let end_str1 = (m (str1 + idx) = 0); end_str2 = (m (str2 + idx) = 0) in
      if end_str1 \<and> end_str2 then Some 0
      else if end_str1 then Some (- 1)
      else if end_str2 then Some 1
      else (let c1 = tolower (char_to_int (m (str1 + idx)));
                c2 = tolower (char_to_int (m (str2 + idx))) in
            if c1 <s c2 then Some (- 1)
            else if c1 <s c2 then Some 1
            else strcasecmp_loop m str1 str2 (idx + 1)))"

definition strcasecmp :: "mem \<Rightarrow> u32 \<Rightarrow> u32 \<Rightarrow> u32 option" where
  "strcasecmp m str1 str2 = strcasecmp_loop m str1 str2 0"

declare memcmp_loop.simps [simp del] copy_up_loop.simps [simp del] copy_down_loop.simps [simp del]
  memset_loop.simps [simp del] strncpy_copy.simps [simp del] strncpy_pad.simps [simp del]
  strncmp_loop.simps [simp del]

section \<open>Correctness of the block operations\<close>

text \<open>What a block copy is for: the reference definition that both copy routines are compared with.
  Every destination byte gets the byte its source had before the call.\<close>

definition block_copy :: "mem \<Rightarrow> u32 \<Rightarrow> u32 \<Rightarrow> u32 \<Rightarrow> mem" where
  "block_copy m dst src n = (\<lambda>a. if a - dst < n then m (src + (a - dst)) else m a)"

definition block_fill :: "mem \<Rightarrow> u32 \<Rightarrow> u8 \<Rightarrow> u32 \<Rightarrow> mem" where
  "block_fill m p v n = (\<lambda>a. if a - p < n then v else m a)"

lemma memset_loop_eq:
  "memset_loop m ptr v n idx = (\<lambda>a. if idx \<le> a - ptr \<and> a - ptr < n then v else m a)"
proof (induction m ptr v n idx rule: memset_loop.induct)
  case (1 m ptr v n idx)
  show ?case
  proof (cases "idx < n")
    case True
    then show ?thesis
      by (subst memset_loop.simps) (auto simp: "1.IH" succ_le_iff fun_eq_iff addr_offset)
  next
    case False
    then show ?thesis by (subst memset_loop.simps) (auto simp: fun_eq_iff)
  qed
qed

lemma memset_eq [code]: "memset m p value n = block_fill m p (ucast value) n"
  by (simp add: memset_def memset_loop_eq block_fill_def fun_eq_iff)

lemma memset_outside [frame]: "same_outside (region p (unat n)) m (memset m p v n)"
  by (simp add: memset_eq block_fill_def same_outside_def mem_region word_less_nat_alt)

lemma memset_inside: "a \<in> region p (unat n) \<Longrightarrow> memset m p v n a = ucast v"
  by (simp add: memset_eq block_fill_def mem_region word_less_nat_alt)

lemma copy_up_loop_eq:
  assumes "\<And>i j. idx \<le> i \<Longrightarrow> i < j \<Longrightarrow> j < n \<Longrightarrow> dst + i \<noteq> src + j"
  shows "copy_up_loop m dst src n idx =
    (\<lambda>a. if idx \<le> a - dst \<and> a - dst < n then m (src + (a - dst)) else m a)"
  using assms
proof (induction m dst src n idx rule: copy_up_loop.induct)
  case (1 m dst src n idx)
  show ?case
  proof (cases "idx < n")
    case True
    have IH: "copy_up_loop (m(dst + idx := m (src + idx))) dst src n (idx + 1) =
      (\<lambda>a. if idx + 1 \<le> a - dst \<and> a - dst < n
           then (m(dst + idx := m (src + idx))) (src + (a - dst))
           else (m(dst + idx := m (src + idx))) a)"
      using True "1.prems" by (intro "1.IH") (auto simp: succ_le_iff order.strict_implies_order)
    have "src + (a - dst) \<noteq> dst + idx" if "idx < a - dst" "a - dst < n" for a
      using "1.prems" [of idx "a - dst"] that by (metis order_refl)
    then show ?thesis using True
      by (subst copy_up_loop.simps) (auto simp: IH succ_le_iff fun_eq_iff addr_offset)
  next
    case False
    then show ?thesis by (subst copy_up_loop.simps) (auto simp: fun_eq_iff)
  qed
qed

lemma copy_down_loop_eq:
  assumes "\<And>i j. i < idx \<Longrightarrow> j < i \<Longrightarrow> dst + i \<noteq> src + j"
  shows "copy_down_loop m dst src idx = block_copy m dst src idx"
  using assms
proof (induction m dst src idx rule: copy_down_loop.induct)
  case (1 m dst src idx)
  show ?case
  proof (cases "idx > 0")
    case True
    note lt = pred_less_iff [OF True]
    have IH: "copy_down_loop (m(dst + (idx - 1) := m (src + (idx - 1)))) dst src (idx - 1) =
      block_copy (m(dst + (idx - 1) := m (src + (idx - 1)))) dst src (idx - 1)"
      using True "1.prems" by (intro "1.IH") (auto simp: lt)
    have "src + (a - dst) \<noteq> dst + (idx - 1)" if "a - dst < idx - 1" for a
      using "1.prems" [of "idx - 1" "a - dst"] that pred_less [OF True]
      by metis
    then show ?thesis using True
      by (subst copy_down_loop.simps) (auto simp: IH block_copy_def lt pred_less fun_eq_iff addr_offset)
  next
    case False
    then have "idx = 0" by (simp add: word_gt_0)
    then show ?thesis by (simp add: copy_down_loop.simps block_copy_def)
  qed
qed

lemma block_copy_bytes: "load_bytes (block_copy m dst src n) dst (unat n) = load_bytes m src (unat n)"
  by (auto simp: load_bytes_def block_copy_def word_less_nat_alt unat_of_nat take_bit_nat_eq_self
      intro!: less_imp_le)

lemma block_copy_outside [frame]: "same_outside (region dst (unat n)) m (block_copy m dst src n)"
  by (simp add: block_copy_def same_outside_def mem_region word_less_nat_alt)

text \<open>Two offsets cannot meet across a copy that goes towards the lower addresses, nor the other
  way round, as long as neither range passes the end of the address space.\<close>

lemma no_forward_clash:
  assumes "unat src + unat n \<le> 2 ^ 32" and "dst \<le> src" and "i < j" and "j < n"
  shows "(dst :: u32) + i \<noteq> src + j"
proof
  assume eq: "dst + i = src + j"
  have "unat (src + j) = unat src + unat j"
    using assms by (intro unat_plus_simple [THEN iffD1]) (auto simp: word_le_nat_alt
      word_less_nat_alt unat_word_ariths)
  moreover have "unat (dst + i) \<le> unat dst + unat i" by (simp add: unat_word_ariths)
  ultimately show False using eq assms by (simp add: word_less_nat_alt word_le_nat_alt)
qed

lemma no_backward_clash:
  assumes "unat dst + unat n \<le> 2 ^ 32" and "src < dst" and "j < i" and "i < n"
  shows "(dst :: u32) + i \<noteq> src + j"
  using no_forward_clash [of dst n src j i] assms by (metis order.strict_implies_order)

lemma memcpy_eq:
  assumes "region dst (unat n) \<inter> region src (unat n) = {}"
  shows "memcpy m dst src n = (dst, block_copy m dst src n)"
proof -
  have "dst + i \<noteq> src + j" if "i < n" "j < n" for i j
  proof -
    have "dst + i \<in> region dst (unat n)" "src + j \<in> region src (unat n)"
      using that by (simp_all add: mem_region word_less_nat_alt)
    then show ?thesis using assms by auto
  qed
  then have "copy_up_loop m dst src n 0 = block_copy m dst src n"
    by (subst copy_up_loop_eq) (auto simp: block_copy_def fun_eq_iff)
  then show ?thesis by (simp add: memcpy_def)
qed

lemma memmove_eq:
  assumes "unat dst + unat n \<le> 2 ^ 32" and "unat src + unat n \<le> 2 ^ 32"
  shows "memmove m dst src n = (dst, block_copy m dst src n)"
proof (cases "src < dst")
  case True
  then have "copy_down_loop m dst src n = block_copy m dst src n"
    using assms by (intro copy_down_loop_eq no_backward_clash) auto
  with True show ?thesis by (simp add: memmove_def)
next
  case False
  then have "copy_up_loop m dst src n 0 = block_copy m dst src n"
    using assms by (subst copy_up_loop_eq [OF no_forward_clash]) (auto simp: block_copy_def fun_eq_iff)
  with False show ?thesis by (simp add: memmove_def)
qed

fun memcmp_list :: "u8 list \<Rightarrow> u8 list \<Rightarrow> u32" where
  "memcmp_list (x # xs) (y # ys) = (if x > y then 1 else if x < y then - 1 else memcmp_list xs ys)"
| "memcmp_list xs ys = 0"

lemma memcmp_loop_eq:
  "idx \<le> n \<Longrightarrow> memcmp_loop m p q n idx =
     memcmp_list (load_bytes m (p + idx) (unat (n - idx))) (load_bytes m (q + idx) (unat (n - idx)))"
proof (induction m p q n idx rule: memcmp_loop.induct)
  case (1 m p q n idx)
  show ?case
  proof (cases "idx < n")
    case True
    then show ?thesis using "1.IH" succ_le [OF True] unat_diff_succ [OF True]
      by (subst memcmp_loop.simps) (auto simp: load_bytes_Cons add.assoc)
  next
    case False
    with "1.prems" have "idx = n" by simp
    then show ?thesis by (subst memcmp_loop.simps) simp
  qed
qed

lemma memcmp_eq: "memcmp m p q n = memcmp_list (load_bytes m p (unat n)) (load_bytes m q (unat n))"
  by (simp add: memcmp_def memcmp_loop_eq)

text \<open>The sign of the result is the order of the first bytes that differ.\<close>

lemma memcmp_list_zero: "length xs = length ys \<Longrightarrow> memcmp_list xs ys = 0 \<longleftrightarrow> xs = ys"
  by (induction xs ys rule: memcmp_list.induct) auto

lemma memcmp_list_neg:
  "length xs = length ys \<Longrightarrow> memcmp_list xs ys = - 1 \<longleftrightarrow> (xs, ys) \<in> lexord {(x, y). x < y}"
  by (induction xs ys rule: memcmp_list.induct) auto

section \<open>Correctness of the string operations\<close>

lemma strlen_loop_cstring:
  "cstring m p cs \<Longrightarrow> i \<le> length cs \<Longrightarrow> strlen_loop m p (of_nat i) = Some (of_nat (length cs))"
proof (induction "length cs - i" arbitrary: i)
  case 0
  then have "i = length cs" by simp
  with 0 show ?case by (subst strlen_loop.simps) (simp add: cstring_end)
next
  case (Suc k)
  then have "strlen_loop m p (of_nat (Suc i)) = Some (of_nat (length cs))"
    using Suc.hyps(1) [of "Suc i"] by simp
  moreover have "m (p + of_nat i) \<noteq> 0" using Suc by (simp add: cstring_nonzero)
  ultimately show ?case by (subst strlen_loop.simps) (simp add: add.commute)
qed

lemma strlen_cstring: "cstring m p cs \<Longrightarrow> strlen m p = Some (of_nat (length cs))"
  using strlen_loop_cstring [of m p cs 0] by (simp add: strlen_def)

text \<open>Copying a C string writes its characters and the terminator, and nothing else. The source must
  not overlap the destination: the loop reads behind its own writes otherwise.\<close>

lemma strcpy_loop_cstring:
  "cstring m src cs \<Longrightarrow> region dst (Suc (length cs)) \<inter> region src (Suc (length cs)) = {}
   \<Longrightarrow> strcpy_loop m dst src = Some (write_bytes m dst (cs @ [0]))"
proof (induction cs arbitrary: m dst src)
  case Nil
  then show ?case by (subst strcpy_loop.simps) (simp add: cstring_Nil write_bytes_Cons)
next
  case (Cons c cs)
  let ?m = "m(dst := c)"
  have d: "dst \<notin> region (src + 1) (Suc (length cs))"
    "region (dst + 1) (Suc (length cs)) \<inter> region (src + 1) (Suc (length cs)) = {}"
    using Cons.prems(2) by (auto simp: region_Suc)
  have "same_outside {dst} m ?m" by (simp add: same_outside_def)
  then have "cstring ?m (src + 1) cs"
    using Cons.prems(1) d(1) by (intro cstring_frame [of "{dst}" m ?m]) (auto simp: cstring_Cons)
  then have "strcpy_loop ?m (dst + 1) (src + 1) = Some (write_bytes ?m (dst + 1) (cs @ [0]))"
    using d(2) by (rule Cons.IH)
  with Cons.prems(1) show ?case
    by (subst strcpy_loop.simps) (simp add: cstring_Cons write_bytes_Cons)
qed

lemma strcpy_cstring:
  "cstring m src cs \<Longrightarrow> region dst (Suc (length cs)) \<inter> region src (Suc (length cs)) = {}
   \<Longrightarrow> strcpy m dst src = Some (dst, write_bytes m dst (cs @ [0]))"
  by (simp add: strcpy_def strcpy_loop_cstring)

text \<open>Instead of padding, the second loop of \<^verbatim>\<open>strncpy\<close> stores one NUL (if the source is shorter
  than \<^verbatim>\<open>n\<close>), and leaves the bytes after it as they were.\<close>

lemma strncpy_pad_eq: "strncpy_pad m dst n idx = (if idx < n then m(dst := 0) else m)"
proof (induction m dst n idx rule: strncpy_pad.induct)
  case (1 m dst n idx)
  then show ?case by (subst strncpy_pad.simps) (simp add: "1.IH")
qed

lemma strncpy_copy_eq:
  "cstring m src cs \<Longrightarrow> region dst (length cs) \<inter> region src (Suc (length cs)) = {} \<Longrightarrow> idx \<le> n
   \<Longrightarrow> strncpy_copy m dst src n idx =
     (let k = min (length cs) (unat (n - idx)) in
      (write_bytes m dst (take k cs), dst + of_nat k, idx + of_nat k))"
proof (induction cs arbitrary: m dst src idx)
  case Nil
  then show ?case by (subst strncpy_copy.simps) (simp add: cstring_Nil)
next
  case (Cons c cs)
  show ?case
  proof (cases "idx < n")
    case True
    let ?m = "m(dst := c)"
    have d: "dst \<notin> region (src + 1) (Suc (length cs))"
      "region (dst + 1) (length cs) \<inter> region (src + 1) (Suc (length cs)) = {}"
      using Cons.prems(2) by (auto simp: region_Suc)
    have "same_outside {dst} m ?m" by (simp add: same_outside_def)
    then have "cstring ?m (src + 1) cs"
      using Cons.prems(1) d(1) by (intro cstring_frame [of "{dst}" m ?m]) (auto simp: cstring_Cons)
    note IH = Cons.IH [OF this d(2) succ_le [OF True], unfolded Let_def]
    with Cons.prems(1) True unat_diff_succ [OF True] show ?thesis
      by (subst strncpy_copy.simps) (simp add: cstring_Cons Let_def write_bytes_Cons add.assoc IH
        min_less_iff_disj)
  next
    case False
    with Cons.prems(3) have "idx = n" by simp
    then show ?thesis by (subst strncpy_copy.simps) simp
  qed
qed

lemma strncpy_cstring:
  assumes "cstring m src cs" and "region dst (Suc (length cs)) \<inter> region src (Suc (length cs)) = {}"
  shows "strncpy m dst src n =
    (dst, write_bytes m dst (if length cs < unat n then cs @ [0] else take (unat n) cs))"
proof -
  have "region dst (length cs) \<subseteq> region dst (Suc (length cs))" by (rule region_mono) simp
  then have "region dst (length cs) \<inter> region src (Suc (length cs)) = {}" using assms(2) by auto
  note copy = strncpy_copy_eq [OF assms(1) this, of 0 n, unfolded Let_def]
  have l: "length cs < 2 ^ 32" using assms(1) by (simp add: cstring_def)
  show ?thesis
  proof (cases "length cs < unat n")
    case True
    then have "of_nat (length cs) < n"
      using l by (simp add: word_less_nat_alt unat_of_nat take_bit_nat_eq_self)
    then show ?thesis using True copy l
      by (simp add: strncpy_def strncpy_pad_eq write_bytes_snoc)
  next
    case False
    then show ?thesis using copy by (simp add: strncpy_def strncpy_pad_eq)
  qed
qed

section \<open>What the comparisons decide\<close>

text \<open>The comparison of two C strings, character list by character list. Both loops give up at the
  first position where the first string is smaller, and never because it is greater.\<close>

fun casecmp_list :: "u8 list \<Rightarrow> u8 list \<Rightarrow> u32" where
  "casecmp_list [] [] = 0"
| "casecmp_list [] (y # ys) = - 1"
| "casecmp_list (x # xs) [] = 1"
| "casecmp_list (x # xs) (y # ys) =
     (if tolower (char_to_int x) <s tolower (char_to_int y) then - 1 else casecmp_list xs ys)"

fun ncmp_list :: "nat \<Rightarrow> u8 list \<Rightarrow> u8 list \<Rightarrow> u32" where
  "ncmp_list 0 xs ys = 0"
| "ncmp_list (Suc n) [] [] = 0"
| "ncmp_list (Suc n) [] (y # ys) = - 1"
| "ncmp_list (Suc n) (x # xs) [] = 1"
| "ncmp_list (Suc n) (x # xs) (y # ys) = (if x <s y then - 1 else ncmp_list n xs ys)"

lemma strcasecmp_loop_cstring:
  "cstring m p xs \<Longrightarrow> cstring m q ys \<Longrightarrow> i \<le> length xs \<Longrightarrow> i \<le> length ys
   \<Longrightarrow> strcasecmp_loop m p q (of_nat i) = Some (casecmp_list (drop i xs) (drop i ys))"
proof (induction "length xs - i" arbitrary: i)
  case 0
  then have "drop i xs = []" "m (p + of_nat i) = 0" using cstring_end [of m p xs] by auto
  moreover have "m (q + of_nat i) = 0 \<longleftrightarrow> drop i ys = []"
    using 0 cstring_end [of m q ys] cstring_nonzero [of m q ys i] by (cases "i = length ys") auto
  ultimately show ?case
    by (subst strcasecmp_loop.simps) (cases "drop i ys", auto simp: Let_def)
next
  case (Suc k)
  then have i: "i < length xs" by simp
  then have x: "drop i xs = xs ! i # drop (Suc i) xs" "m (p + of_nat i) = xs ! i" "xs ! i \<noteq> 0"
    using Suc.prems cstring_nth [of m p xs i] cstring_nonzero [of m p xs i]
    by (auto simp: Cons_nth_drop_Suc)
  show ?case
  proof (cases "i < length ys")
    case True
    then have "drop i ys = ys ! i # drop (Suc i) ys" "m (q + of_nat i) = ys ! i" "ys ! i \<noteq> 0"
      using Suc.prems cstring_nth [of m q ys i] cstring_nonzero [of m q ys i]
      by (auto simp: Cons_nth_drop_Suc)
    with x Suc.hyps(1) [of "Suc i"] Suc.hyps(2) Suc.prems True i show ?thesis
      by (subst strcasecmp_loop.simps) (simp add: Let_def add.commute)
  next
    case False
    then have "drop i ys = []" "m (q + of_nat i) = 0"
      using Suc.prems cstring_end [of m q ys] by (auto simp: not_less)
    with x show ?thesis by (subst strcasecmp_loop.simps) simp
  qed
qed

lemma strcasecmp_cstring:
  "cstring m p xs \<Longrightarrow> cstring m q ys \<Longrightarrow> strcasecmp m p q = Some (casecmp_list xs ys)"
  using strcasecmp_loop_cstring [of m p xs q ys 0] by (simp add: strcasecmp_def)

lemma casecmp_list_zero:
  "casecmp_list xs ys = 0 \<longleftrightarrow>
     list_all2 (\<lambda>x y. tolower (char_to_int y) \<le>s tolower (char_to_int x)) xs ys"
  by (induction xs ys rule: casecmp_list.induct) (auto simp: word_sle_eq word_sless_alt not_less)

lemma strncmp_loop_cstring:
  "cstring m p xs \<Longrightarrow> cstring m q ys \<Longrightarrow> i \<le> length xs \<Longrightarrow> i \<le> length ys
   \<Longrightarrow> int i + int k = sint n
   \<Longrightarrow> strncmp_loop m p q n (of_nat i) = ncmp_list k (drop i xs) (drop i ys)"
proof (induction k arbitrary: i)
  case 0
  then have "sint (of_nat i :: u32) = sint n" using sint_lt [of n]
    by (subst sint_of_nat32) auto
  then show ?case by (subst strncmp_loop.simps) (simp add: word_sless_alt)
next
  case (Suc k)
  have lt: "(of_nat i :: u32) <s n" using Suc.prems(5) sint_lt [of n]
    unfolding word_sless_alt by (subst sint_of_nat32) auto
  have x: "(case drop i xs of [] \<Rightarrow> m (p + of_nat i) = 0 | c # cs \<Rightarrow> m (p + of_nat i) = c \<and> c \<noteq> 0 \<and> cs = drop (Suc i) xs)"
    using Suc.prems cstring_nth [of m p xs i] cstring_nonzero [of m p xs i] cstring_end [of m p xs]
    by (cases "i < length xs") (auto simp: Cons_nth_drop_Suc [symmetric] not_less)
  have y: "(case drop i ys of [] \<Rightarrow> m (q + of_nat i) = 0 | c # cs \<Rightarrow> m (q + of_nat i) = c \<and> c \<noteq> 0 \<and> cs = drop (Suc i) ys)"
    using Suc.prems cstring_nth [of m q ys i] cstring_nonzero [of m q ys i] cstring_end [of m q ys]
    by (cases "i < length ys") (auto simp: Cons_nth_drop_Suc [symmetric] not_less)
  have "strncmp_loop m p q n (of_nat (Suc i)) = ncmp_list k (drop (Suc i) xs) (drop (Suc i) ys)"
    if "i < length xs" "i < length ys" using that Suc.prems by (intro Suc.IH) auto
  then show ?case using lt x y
    by (subst strncmp_loop.simps)
      (cases "i < length xs"; cases "i < length ys"; auto simp: Let_def add.commute split: list.splits)
qed

lemma ncmp_list_zero:
  "ncmp_list k xs ys = 0 \<longleftrightarrow> list_all2 (\<lambda>x y. y \<le>s x) (take k xs) (take k ys)"
  by (induction k xs ys rule: ncmp_list.induct) (auto simp: word_sle_eq word_sless_alt not_less)

section \<open>Properties\<close>

text \<open>Two strings in memory: \<^verbatim>\<open>"w"\<close> at 0x100 and \<^verbatim>\<open>"r"\<close> at 0x200.\<close>

definition sample_strings :: mem where
  "sample_strings = (\<lambda>_. 0)(0x100 := 0x77, 0x200 := 0x72)"

lemma sample_strings: "cstring sample_strings 0x100 [0x77]" "cstring sample_strings 0x200 [0x72]"
  by (simp_all add: cstring_Cons cstring_Nil sample_strings_def)

lemma sample_apart: "region 0x300 2 \<inter> region 0x100 2 = {}"
  by (auto simp: region_interval)

lemma sample_apart_string: "region 0x300 (Suc (length [0x77 :: u8])) \<inter> region 0x100 (Suc (length [0x77 :: u8])) = {}"
  using sample_apart by (simp add: numeral_2_eq_2)

text \<open>\<^verbatim>\<open>memset\<close> fills exactly the addressed range with the low byte of its argument.\<close>

lemma memset_fills: "memset m p v n a = (if a - p < n then ucast v else m a)"
  by (simp add: memset_eq block_fill_def)

text \<open>C36: \<^verbatim>\<open>memmove\<close> copies correctly whatever the overlap of source and destination, as long as neither
  wraps around the address space: the destination ends up with the old contents of the source and
  nothing else changes.\<close>

theorem memmove_copies:
  assumes "unat dst + unat n \<le> 2 ^ 32" and "unat src + unat n \<le> 2 ^ 32"
  shows "\<exists>m'. memmove m dst src n = (dst, m') \<and> load_bytes m' dst (unat n) = load_bytes m src (unat n)
    \<and> same_outside (region dst (unat n)) m m'"
  using memmove_eq [OF assms] block_copy_bytes block_copy_outside by auto

theorem memmove_copies_witness:
  "load_bytes (snd (memmove sample_strings 0x101 0x100 0x101)) 0x101 0x101 = load_bytes sample_strings 0x100 0x101"
proof -
  have "unat (0x101 :: u32) = 0x101" by simp
  with memmove_copies [of "0x101" "0x101" "0x100" sample_strings] show ?thesis by auto
qed

text \<open>\<^verbatim>\<open>memcpy\<close> copies between ranges that do not overlap.\<close>

lemma memcpy_copies:
  assumes "region dst (unat n) \<inter> region src (unat n) = {}"
  shows "\<exists>m'. memcpy m dst src n = (dst, m') \<and> load_bytes m' dst (unat n) = load_bytes m src (unat n)
    \<and> same_outside (region dst (unat n)) m m'"
  using memcpy_eq [OF assms] block_copy_bytes block_copy_outside by auto

text \<open>\<^verbatim>\<open>memcmp\<close> is 0 exactly on equal ranges and -1 exactly when the first differing byte of the
  first range is smaller.\<close>

lemma memcmp_lexicographic:
  "(memcmp m p q n = 0 \<longleftrightarrow> load_bytes m p (unat n) = load_bytes m q (unat n))
   \<and> (memcmp m p q n = - 1 \<longleftrightarrow>
        (load_bytes m p (unat n), load_bytes m q (unat n)) \<in> lexord {(x, y). x < y})"
  by (simp add: memcmp_eq memcmp_list_zero memcmp_list_neg)

text \<open>\<^verbatim>\<open>strcpy\<close> to a place apart from the source makes a copy of the string there and changes nothing
  else.\<close>

lemma strcpy_copies:
  assumes "cstring m src cs" and "region dst (Suc (length cs)) \<inter> region src (Suc (length cs)) = {}"
    and "Suc (length cs) < 2 ^ 32"
  shows "\<exists>m'. strcpy m dst src = Some (dst, m') \<and> cstring m' dst cs
    \<and> same_outside (region dst (Suc (length cs))) m m'"
proof -
  have "0 \<notin> set cs" using assms(1) by (simp add: cstring_def)
  then show ?thesis
    using strcpy_cstring [OF assms(1,2)] cstring_write [of cs m dst] assms(3) write_bytes_outside [of dst "cs @ [0]" m]
    by auto
qed

text \<open>\<^verbatim>\<open>strncmp\<close> returns 0 exactly when, among the first \<open>n\<close> characters, each character of the second
  string is at most (as a signed byte) the one of the first and the strings end together: it never
  reports that the first string is greater by a character.\<close>

lemma strncmp_zero:
  assumes "cstring m p xs" and "cstring m q ys" and "0 \<le> sint n"
  shows "strncmp m p q n = 0 \<longleftrightarrow> list_all2 (\<lambda>x y. y \<le>s x) (take (nat (sint n)) xs) (take (nat (sint n)) ys)"
  using strncmp_loop_cstring [OF assms(1,2), of 0 "nat (sint n)" n] assms(3)
  by (simp add: strncmp_def ncmp_list_zero)

text \<open>\<^verbatim>\<open>strcasecmp\<close> returns, and its result is 0 exactly when the strings are equally long and each
  lowered character of the second is at most that of the first; so \<^verbatim>\<open>"w"\<close> compares equal to \<^verbatim>\<open>"r"\<close>.\<close>

lemma strcasecmp_zero:
  assumes "cstring m p xs" and "cstring m q ys"
  shows "\<exists>r. strcasecmp m p q = Some r
    \<and> (r = 0 \<longleftrightarrow> list_all2 (\<lambda>x y. tolower (char_to_int y) \<le>s tolower (char_to_int x)) xs ys)"
  using strcasecmp_cstring [OF assms] by (simp add: casecmp_list_zero)

end
