(* ===== verification/Heap.thy ===== *)
theory Heap
  imports Libc_String
begin

text \<open>
  The block heap of \<^verbatim>\<open>kernel/mm/heap\<close>: \<^verbatim>\<open>heap_utilities.cpp\<close>, \<^verbatim>\<open>heap.cpp\<close> and the find-first-fit
  strategy of \<^verbatim>\<open>find_first_fit_strategy.cpp\<close>. The block table lives in memory, one byte per 4 KB
  block, and is read and written there; a table pointer is modelled by the (constant) table it
  points to.

  Sizes and indices are 32 bit words, so the failing search (\<^verbatim>\<open>-ENOMEM\<close> used as a block index),
  the over-wide alignment and the block loop that runs past the last index behave as in the code.
\<close>

section \<open>Data\<close>

definition HEAP_BLOCK_TABLE_ENTRY_TAKEN :: u8 where
  [kernel_consts]: "HEAP_BLOCK_TABLE_ENTRY_TAKEN = 0x01"

definition HEAP_BLOCK_TABLE_ENTRY_FREE :: u8 where
  [kernel_consts]: "HEAP_BLOCK_TABLE_ENTRY_FREE = 0x00"

definition HEAP_BLOCK_HAS_NEXT :: u8 where
  [kernel_consts]: "HEAP_BLOCK_HAS_NEXT = 0b10000000"

definition HEAP_BLOCK_IS_FIRST :: u8 where
  [kernel_consts]: "HEAP_BLOCK_IS_FIRST = 0b01000000"

record heap_table =
  entries :: u32
  total_entries :: u32

record heap =
  table :: heap_table
  start_address :: u32

section \<open>heap\_utilities.cpp\<close>

definition validate_alignment :: "u32 \<Rightarrow> bool" where
  "validate_alignment addr \<longleftrightarrow> addr mod HEAP_BLOCK_SIZE = 0"

definition align_to_upper :: "u32 \<Rightarrow> u32" where
  "align_to_upper sz =
     (let remainder = sz mod HEAP_BLOCK_SIZE; leftover = HEAP_BLOCK_SIZE - remainder in sz + leftover)"

definition block_idx_2_block_address :: "heap \<Rightarrow> u32 \<Rightarrow> u32" where
  "block_idx_2_block_address h block_idx =
     (let data_offset = block_idx * HEAP_BLOCK_SIZE in start_address h + data_offset)"

definition block_address_2_block_idx :: "heap \<Rightarrow> u32 \<Rightarrow> u32" where
  "block_address_2_block_idx h addr =
     (let data_offset = addr - start_address h in data_offset div HEAP_BLOCK_SIZE)"

definition get_entry_type :: "u8 \<Rightarrow> u8" where
  "get_entry_type entry = entry AND 0x0f"

section \<open>heap.cpp\<close>

definition validate_heap_table :: "u32 \<Rightarrow> u32 \<Rightarrow> heap_table \<Rightarrow> bool" where
  "validate_heap_table start_ptr end_ptr tab =
     (let table_size = end_ptr - start_ptr; table_total_blocks = table_size div HEAP_BLOCK_SIZE in
      if table_total_blocks \<noteq> total_entries tab then False else True)"

text \<open>The \<^verbatim>\<open>memset\<close> of the heap structure clears its first word, which the next lines assign.\<close>

definition default_heap_create ::
  "heap \<Rightarrow> u32 \<Rightarrow> u32 \<Rightarrow> heap_table \<Rightarrow> mem \<Rightarrow> u32 \<times> heap \<times> mem" where
  "default_heap_create h start_ptr end_ptr tab m =
     (if \<not> validate_alignment start_ptr \<or> \<not> validate_alignment end_ptr then (- EINVAL, h, m)
      else
        (let h = \<lparr>table = tab, start_address = start_ptr\<rparr> in
         if \<not> validate_heap_table start_ptr end_ptr tab then (- EINVAL, h, m)
         else
           (let table_size = 1 * total_entries tab in
            (0, h, memset m (entries tab) (ucast HEAP_BLOCK_TABLE_ENTRY_FREE) table_size))))"

section \<open>find\_first\_fit\_strategy.cpp\<close>

text \<open>The inner loop: count free blocks from \<open>idx_range\<close> on.\<close>

function count_free_run :: "heap \<Rightarrow> mem \<Rightarrow> u32 \<Rightarrow> u32 \<Rightarrow> u32 \<times> u32" where
  "count_free_run h m idx_range contiguous_block_count =
     (if idx_range < total_entries (table h) then
        (if get_entry_type (m (entries (table h) + idx_range)) = HEAP_BLOCK_TABLE_ENTRY_FREE
         then count_free_run h m (idx_range + 1) (contiguous_block_count + 1)
         else (idx_range, contiguous_block_count))
      else (idx_range, contiguous_block_count))"
  by pat_completeness auto
termination
  by (relation "measure (\<lambda>(h, m, i, c). unat (total_entries (table h)) - unat i)")
    (auto simp: loop_measure)

partial_function (option) find_first_fit_loop :: "heap \<Rightarrow> mem \<Rightarrow> u32 \<Rightarrow> u32 \<Rightarrow> u32 option" where
  "find_first_fit_loop h m block_size idx =
     (if idx < total_entries (table h) then
        (let (idx_range, contiguous_block_count) = count_free_run h m idx 0 in
         if contiguous_block_count * HEAP_BLOCK_SIZE \<ge> block_size then Some idx
         else find_first_fit_loop h m block_size (idx_range + 1))
      else Some (- ENOMEM))"

definition find_first_fit_start_block :: "heap \<Rightarrow> mem \<Rightarrow> u32 \<Rightarrow> u32 option" where
  "find_first_fit_start_block h m block_size = find_first_fit_loop h m block_size 0"

partial_function (option) mark_blocks :: "heap \<Rightarrow> mem \<Rightarrow> u32 \<Rightarrow> u32 \<Rightarrow> mem option" where
  "mark_blocks h m final_block_idx idx =
     (if idx \<le> final_block_idx then
        (let entry = entries (table h) + idx;
             m = m(entry := HEAP_BLOCK_TABLE_ENTRY_TAKEN);
             m = (if idx \<noteq> final_block_idx then m(entry := m entry OR HEAP_BLOCK_HAS_NEXT) else m)
         in mark_blocks h m final_block_idx (idx + 1))
      else Some m)"

definition heap_malloc :: "heap \<Rightarrow> mem \<Rightarrow> u32 \<Rightarrow> (u32 \<times> mem) option" where
  "heap_malloc h m block_size = do {
     let aligned_size = align_to_upper block_size;
     first_block_idx \<leftarrow> find_first_fit_start_block h m aligned_size;
     let data_start = block_idx_2_block_address h first_block_idx;
     let m = memset m data_start 0x00 aligned_size;
     let num_blocks = aligned_size div HEAP_BLOCK_SIZE;
     let final_block_idx = first_block_idx + num_blocks - 1;
     let m = m(entries (table h) + first_block_idx := HEAP_BLOCK_IS_FIRST);
     m \<leftarrow> mark_blocks h m final_block_idx first_block_idx;
     Some (data_start, m)
   }"

function heap_free_loop :: "heap \<Rightarrow> mem \<Rightarrow> u32 \<Rightarrow> mem" where
  "heap_free_loop h m idx =
     (if idx < total_entries (table h) then
        (let block = m (entries (table h) + idx);
             m = m(entries (table h) + idx := HEAP_BLOCK_TABLE_ENTRY_FREE);
             has_next = (block AND HEAP_BLOCK_HAS_NEXT \<noteq> 0) in
         if \<not> has_next then m else heap_free_loop h m (idx + 1))
      else m)"
  by pat_completeness auto
termination
  by (relation "measure (\<lambda>(h, m, i). unat (total_entries (table h)) - unat i)")
    (auto simp: loop_measure)

definition heap_free :: "heap \<Rightarrow> mem \<Rightarrow> u32 \<Rightarrow> mem" where
  "heap_free h m addr = heap_free_loop h m (block_address_2_block_idx h addr)"

declare count_free_run.simps [simp del] heap_free_loop.simps [simp del]

end
