(* ===== verification/Heap_Table.thy ===== *)
theory Heap_Table
  imports Heap
begin

text \<open>
  The block table as a list of entries: what it means for \<open>n\<close> blocks to fit at an index, for a table
  to be well formed (every entry is free or belongs to a complete chain of taken entries linked by
  \<^verbatim>\<open>HEAP_BLOCK_HAS_NEXT\<close>), which allocations a table records, and how entering and clearing a chain
  changes them. This is the abstract allocator the memory-level code is compared with.
\<close>

section \<open>Specification\<close>

definition free_entry :: "u8 \<Rightarrow> bool" where
  "free_entry e \<longleftrightarrow> get_entry_type e = HEAP_BLOCK_TABLE_ENTRY_FREE"

definition fits :: "u8 list \<Rightarrow> nat \<Rightarrow> nat \<Rightarrow> bool" where
  "fits T i n \<longleftrightarrow> i + n \<le> length T \<and> (\<forall>e \<in> set (take n (drop i T)). free_entry e)"

definition first_fit :: "u8 list \<Rightarrow> nat \<Rightarrow> nat option" where
  "first_fit T n = List.find (\<lambda>i. fits T i n) [0..<length T]"

definition chain :: "nat \<Rightarrow> u8 list" where
  "chain n = replicate (n - 1) (HEAP_BLOCK_TABLE_ENTRY_TAKEN OR HEAP_BLOCK_HAS_NEXT)
     @ [HEAP_BLOCK_TABLE_ENTRY_TAKEN]"

definition enter_chain :: "u8 list \<Rightarrow> nat \<Rightarrow> nat \<Rightarrow> u8 list" where
  "enter_chain T i n = take i T @ chain n @ drop (i + n) T"

fun clear_chain :: "u8 list \<Rightarrow> u8 list" where
  "clear_chain [] = []"
| "clear_chain (e # es) =
     HEAP_BLOCK_TABLE_ENTRY_FREE # (if e AND HEAP_BLOCK_HAS_NEXT = 0 then es else clear_chain es)"

definition clear_chain_at :: "u8 list \<Rightarrow> nat \<Rightarrow> u8 list" where
  "clear_chain_at T i = take i T @ clear_chain (drop i T)"

text \<open>Reading a table from left to right: the state says whether the previous entry announced a
  successor; \<^term>\<open>None\<close> is a malformed table.\<close>

definition table_step :: "bool \<Rightarrow> u8 \<Rightarrow> bool option" where
  "table_step inside e =
     (if e = HEAP_BLOCK_TABLE_ENTRY_FREE then (if inside then None else Some False)
      else if e = HEAP_BLOCK_TABLE_ENTRY_TAKEN OR HEAP_BLOCK_HAS_NEXT then Some True
      else if e = HEAP_BLOCK_TABLE_ENTRY_TAKEN then Some False
      else None)"

fun table_run :: "bool \<Rightarrow> u8 list \<Rightarrow> bool option" where
  "table_run b [] = Some b"
| "table_run b (e # es) = do { b' \<leftarrow> table_step b e; table_run b' es }"

definition wf_table :: "u8 list \<Rightarrow> bool" where
  "wf_table T \<longleftrightarrow> table_run False T = Some False"

fun chain_len :: "u8 list \<Rightarrow> nat" where
  "chain_len [] = 0"
| "chain_len (e # es) = (if e AND HEAP_BLOCK_HAS_NEXT = 0 then 1 else Suc (chain_len es))"

text \<open>A chain starts at \<open>i\<close> if the entries before it are complete; \<open>live_blocks\<close> are the allocations,
  as pairs of first block and number of blocks.\<close>

definition boundary :: "u8 list \<Rightarrow> nat \<Rightarrow> bool" where
  "boundary T i \<longleftrightarrow> i < length T \<and> table_run False (take i T) = Some False"

definition live_blocks :: "u8 list \<Rightarrow> (nat \<times> nat) set" where
  "live_blocks T = (\<lambda>i. (i, chain_len (drop i T)))
     ` Set.filter (\<lambda>i. boundary T i \<and> T ! i \<noteq> HEAP_BLOCK_TABLE_ENTRY_FREE) {0..<length T}"

section \<open>Reading a table\<close>

lemma table_run_append: "table_run b (xs @ ys) = do { b' \<leftarrow> table_run b xs; table_run b' ys }"
  by (induction xs arbitrary: b) (auto split: option.splits)

lemma table_step_cases:
  assumes "table_step b e = Some b'"
  obtains "e = HEAP_BLOCK_TABLE_ENTRY_FREE" "\<not> b" "\<not> b'"
  | "e = HEAP_BLOCK_TABLE_ENTRY_TAKEN OR HEAP_BLOCK_HAS_NEXT" "b'"
  | "e = HEAP_BLOCK_TABLE_ENTRY_TAKEN" "\<not> b'"
  using assms by (auto simp: table_step_def split: if_splits)

lemma free_entry_consts [simp]:
  "free_entry HEAP_BLOCK_TABLE_ENTRY_FREE"
  "\<not> free_entry HEAP_BLOCK_TABLE_ENTRY_TAKEN"
  "\<not> free_entry (HEAP_BLOCK_TABLE_ENTRY_TAKEN OR HEAP_BLOCK_HAS_NEXT)"
  by (simp_all add: free_entry_def get_entry_type_def kernel_consts)

lemma has_next_consts [simp]:
  "HEAP_BLOCK_TABLE_ENTRY_FREE AND HEAP_BLOCK_HAS_NEXT = 0"
  "HEAP_BLOCK_TABLE_ENTRY_TAKEN AND HEAP_BLOCK_HAS_NEXT = 0"
  "HEAP_BLOCK_HAS_NEXT \<noteq> 0"
  "HEAP_BLOCK_TABLE_ENTRY_TAKEN \<noteq> HEAP_BLOCK_TABLE_ENTRY_FREE"
  "HEAP_BLOCK_TABLE_ENTRY_TAKEN OR HEAP_BLOCK_HAS_NEXT \<noteq> HEAP_BLOCK_TABLE_ENTRY_FREE"
  "HEAP_BLOCK_TABLE_ENTRY_TAKEN OR HEAP_BLOCK_HAS_NEXT \<noteq> HEAP_BLOCK_TABLE_ENTRY_TAKEN"
  "HEAP_BLOCK_TABLE_ENTRY_TAKEN \<noteq> HEAP_BLOCK_TABLE_ENTRY_TAKEN OR HEAP_BLOCK_HAS_NEXT"
  by (simp_all add: kernel_consts)

lemma table_step_consts [simp]:
  "table_step False HEAP_BLOCK_TABLE_ENTRY_FREE = Some False"
  "table_step b (HEAP_BLOCK_TABLE_ENTRY_TAKEN OR HEAP_BLOCK_HAS_NEXT) = Some True"
  "table_step b HEAP_BLOCK_TABLE_ENTRY_TAKEN = Some False"
  by (simp_all add: table_step_def)

lemma table_run_replicate_free: "table_run False (replicate n HEAP_BLOCK_TABLE_ENTRY_FREE) = Some False"
  by (induction n) auto

lemma table_run_chain: "table_run b (chain n) = Some False"
proof -
  have "table_run b (replicate k (HEAP_BLOCK_TABLE_ENTRY_TAKEN OR HEAP_BLOCK_HAS_NEXT)) \<noteq> None" for k b
    by (induction k arbitrary: b) auto
  from this [of b "n - 1"] show ?thesis by (auto simp: chain_def table_run_append)
qed

lemma length_chain [simp]: "0 < n \<Longrightarrow> length (chain n) = n"
  by (simp add: chain_def)

lemma chain_len_chain: "0 < n \<Longrightarrow> chain_len (chain n @ es) = n"
proof -
  have "chain_len (replicate k (HEAP_BLOCK_TABLE_ENTRY_TAKEN OR HEAP_BLOCK_HAS_NEXT)
    @ HEAP_BLOCK_TABLE_ENTRY_TAKEN # es) = Suc k" for k
    by (induction k) auto
  then show "0 < n \<Longrightarrow> chain_len (chain n @ es) = n" by (simp add: chain_def)
qed

lemma clear_chain_chain: "clear_chain (chain n @ es) = replicate (Suc (n - 1)) HEAP_BLOCK_TABLE_ENTRY_FREE @ es"
proof -
  have "clear_chain (replicate k (HEAP_BLOCK_TABLE_ENTRY_TAKEN OR HEAP_BLOCK_HAS_NEXT)
    @ HEAP_BLOCK_TABLE_ENTRY_TAKEN # es) = replicate (Suc k) HEAP_BLOCK_TABLE_ENTRY_FREE @ es" for k
    by (induction k) auto
  then show ?thesis by (simp add: chain_def)
qed

lemma length_clear_chain [simp]: "length (clear_chain T) = length T"
  by (induction T) auto

lemma chain_len_le: "chain_len T \<le> length T"
  by (induction T) auto

lemma clear_chain_eq:
  "clear_chain T = replicate (chain_len T) HEAP_BLOCK_TABLE_ENTRY_FREE @ drop (chain_len T) T"
  by (induction T) auto

text \<open>A well-formed rest begins with the chain that its length announces.\<close>

lemma chain_split:
  "table_run b T = Some False \<Longrightarrow> T \<noteq> [] \<Longrightarrow> b \<or> hd T \<noteq> HEAP_BLOCK_TABLE_ENTRY_FREE
   \<Longrightarrow> T = chain (chain_len T) @ drop (chain_len T) T
     \<and> table_run False (drop (chain_len T) T) = Some False"
proof (induction T arbitrary: b)
  case (Cons e es)
  from Cons.prems(1) obtain b' where b': "table_step b e = Some b'" "table_run b' es = Some False"
    by (auto simp: Option.bind_eq_Some_conv)
  from b'(1) show ?case
  proof (cases rule: table_step_cases)
    case 1
    with Cons.prems show ?thesis by simp
  next
    case 2
    then have "es \<noteq> []" using b'(2) by auto
    with 2 Cons.IH [OF b'(2)] have IH: "es = chain (chain_len es) @ drop (chain_len es) es"
      "table_run False (drop (chain_len es) es) = Some False" by auto
    have "0 < chain_len es" using \<open>es \<noteq> []\<close> by (cases es) auto
    then have "chain (Suc (chain_len es)) = e # chain (chain_len es)"
      using 2 by (cases "chain_len es") (auto simp: chain_def)
    with 2 IH show ?thesis by simp
  next
    case 3
    with b'(2) show ?thesis by (simp add: chain_def)
  qed
qed simp

section \<open>Entering and clearing a chain\<close>

lemma table_run_free_prefix:
  assumes "table_run b T = Some c" and "\<forall>e \<in> set (take n T). free_entry e" and "0 < n" and "n \<le> length T"
  shows "\<not> b" and "take n T = replicate n HEAP_BLOCK_TABLE_ENTRY_FREE"
    and "table_run False (drop n T) = Some c"
proof -
  have "\<not> b \<and> take n T = replicate n HEAP_BLOCK_TABLE_ENTRY_FREE \<and> table_run False (drop n T) = Some c"
    using assms
  proof (induction n arbitrary: b T)
    case (Suc n)
    from Suc.prems(4) obtain e es where T: "T = e # es" by (cases T) auto
    with Suc.prems(1) obtain b' where b': "table_step b e = Some b'" "table_run b' es = Some c"
      by (auto simp: Option.bind_eq_Some_conv)
    have "free_entry e" using Suc.prems(2) T by simp
    with b'(1) have e: "e = HEAP_BLOCK_TABLE_ENTRY_FREE" "\<not> b" "\<not> b'"
      by (auto elim!: table_step_cases)
    show ?case
    proof (cases "n = 0")
      case False
      with Suc.IH [OF b'(2)] Suc.prems(2,4) T e show ?thesis by simp
    qed (use T e b' in simp)
  qed simp
  then show "\<not> b" "take n T = replicate n HEAP_BLOCK_TABLE_ENTRY_FREE"
    "table_run False (drop n T) = Some c" by auto
qed

lemma wf_split:
  assumes "wf_table T"
  obtains b where "table_run False (take i T) = Some b" "table_run b (drop i T) = Some False"
  using assms table_run_append [of False "take i T" "drop i T"]
  by (cases "table_run False (take i T)") (auto simp: wf_table_def)

lemma fits_split:
  assumes "wf_table T" and "fits T i n" and "0 < n"
  shows "table_run False (take i T) = Some False"
    and "table_run False (drop (i + n) T) = Some False"
    and "T = take i T @ replicate n HEAP_BLOCK_TABLE_ENTRY_FREE @ drop (i + n) T"
proof -
  obtain b where b: "table_run False (take i T) = Some b" "table_run b (drop i T) = Some False"
    using assms(1) by (rule wf_split)
  have "\<forall>e \<in> set (take n (drop i T)). free_entry e" "n \<le> length (drop i T)"
    using assms(2) by (auto simp: fits_def)
  note r = table_run_free_prefix [OF b(2) this(1) assms(3) this(2)]
  show "table_run False (take i T) = Some False" using b(1) r(1) by simp
  show "table_run False (drop (i + n) T) = Some False" using r(3) by (simp add: add.commute)
  show "T = take i T @ replicate n HEAP_BLOCK_TABLE_ENTRY_FREE @ drop (i + n) T"
    using r(2) by (metis append_take_drop_id drop_drop add.commute)
qed

lemma wf_enter_chain:
  assumes "wf_table T" and "fits T i n" and "0 < n"
  shows "wf_table (enter_chain T i n)"
  using fits_split [OF assms] by (simp add: wf_table_def enter_chain_def table_run_append table_run_chain)

lemma wf_clear_chain: "table_run b T = Some False \<Longrightarrow> table_run False (clear_chain T) = Some False"
proof (induction T arbitrary: b)
  case (Cons e es)
  then obtain b' where b': "table_step b e = Some b'" "table_run b' es = Some False"
    by (auto simp: Option.bind_eq_Some_conv)
  from b'(1) show ?case by (cases rule: table_step_cases) (use b' Cons.IH in auto)
qed simp

lemma wf_clear_chain_at:
  assumes "wf_table T" and "boundary T i"
  shows "wf_table (clear_chain_at T i)"
proof -
  obtain b where "table_run False (take i T) = Some b" "table_run b (drop i T) = Some False"
    using assms(1) by (rule wf_split)
  with assms(2) show ?thesis
    by (auto simp: wf_table_def clear_chain_at_def table_run_append boundary_def wf_clear_chain)
qed

section \<open>The allocations a table records\<close>

definition shift_blocks :: "nat \<Rightarrow> (nat \<times> nat) set \<Rightarrow> (nat \<times> nat) set" where
  "shift_blocks k A = (\<lambda>(i, n). (k + i, n)) ` A"

lemma live_blocks_iff:
  "(i, n) \<in> live_blocks T \<longleftrightarrow>
     boundary T i \<and> T ! i \<noteq> HEAP_BLOCK_TABLE_ENTRY_FREE \<and> n = chain_len (drop i T)"
  by (auto simp: live_blocks_def boundary_def)

lemma shift_blocks_iff: "(i, n) \<in> shift_blocks k A \<longleftrightarrow> k \<le> i \<and> (i - k, n) \<in> A"
  by (force simp: shift_blocks_def)

lemma chain_len_append:
  assumes "table_run b xs = Some False" and "xs \<noteq> []" and "b \<or> hd xs \<noteq> HEAP_BLOCK_TABLE_ENTRY_FREE"
  shows "chain_len (xs @ ys) = chain_len xs"
proof -
  have "0 < chain_len xs" using assms(2) by (cases xs) auto
  moreover have "xs = chain (chain_len xs) @ drop (chain_len xs) xs"
    using chain_split [OF assms] by simp
  ultimately show ?thesis by (metis append_assoc chain_len_chain)
qed

lemma boundary_left: "i < length xs \<Longrightarrow> boundary (xs @ ys) i \<longleftrightarrow> boundary xs i"
  by (simp add: boundary_def)

lemma boundary_right:
  "table_run False xs = Some False \<Longrightarrow> length xs \<le> i
   \<Longrightarrow> boundary (xs @ ys) i \<longleftrightarrow> boundary ys (i - length xs)"
  by (auto simp: boundary_def table_run_append)

lemma run_from_boundary:
  assumes "table_run False T = Some c" and "boundary T i"
  shows "table_run False (drop i T) = Some c"
  using assms table_run_append [of False "take i T" "drop i T"] by (simp add: boundary_def)

lemma live_blocks_append:
  assumes "table_run False xs = Some False"
  shows "live_blocks (xs @ ys) = live_blocks xs \<union> shift_blocks (length xs) (live_blocks ys)"
proof -
  have "(i, n) \<in> live_blocks (xs @ ys)
    \<longleftrightarrow> (i, n) \<in> live_blocks xs \<union> shift_blocks (length xs) (live_blocks ys)" for i n
  proof (cases "i < length xs")
    case True
    have "chain_len (drop i xs @ ys) = chain_len (drop i xs)"
      if "boundary xs i" "xs ! i \<noteq> HEAP_BLOCK_TABLE_ENTRY_FREE"
      using True that assms run_from_boundary
      by (intro chain_len_append [of False]) (auto simp: hd_drop_conv_nth)
    with True show ?thesis
      by (auto simp: live_blocks_iff shift_blocks_iff boundary_left nth_append)
  next
    case False
    then have "\<not> boundary xs i" by (simp add: boundary_def)
    with False assms show ?thesis
      by (auto simp: live_blocks_iff shift_blocks_iff boundary_right nth_append)
  qed
  then show ?thesis by auto
qed

lemma live_blocks_free: "live_blocks (replicate n HEAP_BLOCK_TABLE_ENTRY_FREE) = {}"
  by (auto simp: live_blocks_def boundary_def)

lemma live_blocks_chain:
  assumes "0 < n"
  shows "live_blocks (chain n) = {(0, n)}"
proof -
  have run: "table_run b (replicate (Suc k) (HEAP_BLOCK_TABLE_ENTRY_TAKEN OR HEAP_BLOCK_HAS_NEXT)) = Some True"
    for b k by (induction k arbitrary: b) auto
  have "\<not> boundary (chain n) i" if "0 < i" for i
  proof
    assume b: "boundary (chain n) i"
    then have "take i (chain n) = replicate (Suc (i - 1)) (HEAP_BLOCK_TABLE_ENTRY_TAKEN OR HEAP_BLOCK_HAS_NEXT)"
      using that assms by (auto simp: chain_def boundary_def)
    with b run [of False "i - 1"] show False by (simp add: boundary_def)
  qed
  moreover have "boundary (chain n) 0" using assms by (simp add: boundary_def)
  moreover have "chain n ! 0 \<noteq> HEAP_BLOCK_TABLE_ENTRY_FREE" by (cases "n - 1") (auto simp: chain_def)
  moreover have "chain_len (chain n) = n" using chain_len_chain [OF assms, of "[]"] by simp
  ultimately have "(i, k) \<in> live_blocks (chain n) \<longleftrightarrow> (i, k) \<in> {(0, n)}" for i k
    by (cases "i = 0") (auto simp: live_blocks_iff)
  then show ?thesis by auto
qed

lemma live_blocks_enter:
  assumes "wf_table T" and "fits T i n" and "0 < n"
  shows "live_blocks (enter_chain T i n) = insert (i, n) (live_blocks T)"
proof -
  note f = fits_split [OF assms]
  have i: "length (take i T) = i" using assms(2) by (auto simp: fits_def)
  have "live_blocks (take i T @ replicate n HEAP_BLOCK_TABLE_ENTRY_FREE @ drop (i + n) T) =
      live_blocks (take i T) \<union> shift_blocks (i + n) (live_blocks (drop (i + n) T))"
    using f(1) i by (auto simp: live_blocks_append table_run_replicate_free live_blocks_free
        shift_blocks_iff add.commute)
  with f(3) have T: "live_blocks T =
      live_blocks (take i T) \<union> shift_blocks (i + n) (live_blocks (drop (i + n) T))" by simp
  have "live_blocks (enter_chain T i n) =
      live_blocks (take i T) \<union> {(i, n)} \<union> shift_blocks (i + n) (live_blocks (drop (i + n) T))"
    unfolding enter_chain_def using f(1) i assms(3)
    by (auto simp: live_blocks_append table_run_chain live_blocks_chain shift_blocks_iff add.commute)
  with T show ?thesis by auto
qed

lemma live_split:
  assumes "wf_table T" and "(i, n) \<in> live_blocks T"
  shows "T = take i T @ chain n @ drop (i + n) T" and "table_run False (take i T) = Some False"
    and "0 < n" and "i + n \<le> length T"
    and "live_blocks T = live_blocks (take i T) \<union> {(i, n)} \<union> shift_blocks (i + n) (live_blocks (drop (i + n) T))"
proof -
  have b: "boundary T i" "T ! i \<noteq> HEAP_BLOCK_TABLE_ENTRY_FREE" "n = chain_len (drop i T)"
    using assms(2) by (simp_all add: live_blocks_iff)
  then have ne: "drop i T \<noteq> []" "hd (drop i T) \<noteq> HEAP_BLOCK_TABLE_ENTRY_FREE"
    by (simp_all add: boundary_def hd_drop_conv_nth)
  have run: "table_run False (drop i T) = Some False"
    using assms(1) b(1) by (simp add: wf_table_def run_from_boundary)
  have c: "drop i T = chain n @ drop n (drop i T)"
    using chain_split [OF run ne(1)] ne(2) b(3) by simp
  then show T: "T = take i T @ chain n @ drop (i + n) T"
    by (metis append_take_drop_id drop_drop add.commute)
  show tr: "table_run False (take i T) = Some False" using b(1) by (simp add: boundary_def)
  show n: "0 < n" using b(3) ne(1) by (cases "drop i T") auto
  have "i < length T" using b(1) by (simp add: boundary_def)
  then show "i + n \<le> length T" using chain_len_le [of "drop i T"] b(3) by simp
  have i: "length (take i T) = i" using b(1) by (simp add: boundary_def)
  have "live_blocks (take i T @ chain n @ drop (i + n) T) =
    live_blocks (take i T) \<union> {(i, n)} \<union> shift_blocks (i + n) (live_blocks (drop (i + n) T))"
    using tr i n by (auto simp: live_blocks_append table_run_chain live_blocks_chain shift_blocks_iff
        add.commute)
  with T show "live_blocks T = live_blocks (take i T) \<union> {(i, n)}
    \<union> shift_blocks (i + n) (live_blocks (drop (i + n) T))" by simp
qed

lemma clear_chain_at_live:
  assumes "wf_table T" and "(i, n) \<in> live_blocks T"
  shows "clear_chain_at T i = take i T @ replicate n HEAP_BLOCK_TABLE_ENTRY_FREE @ drop (i + n) T"
proof -
  note l = live_split [OF assms]
  have "drop i T = chain n @ drop (i + n) T"
    using l(1) l(3,4) by (metis append_eq_conv_conj append_take_drop_id length_take)
  then show ?thesis using l(3) by (simp add: clear_chain_at_def clear_chain_chain)
qed

lemma live_blocks_clear:
  assumes "wf_table T" and "(i, n) \<in> live_blocks T"
  shows "live_blocks (clear_chain_at T i) = live_blocks T - {(i, n)}"
proof -
  note l = live_split [OF assms]
  have i: "length (take i T) = i" using l(4) by simp
  have "live_blocks (clear_chain_at T i) =
      live_blocks (take i T) \<union> shift_blocks (i + n) (live_blocks (drop (i + n) T))"
    unfolding clear_chain_at_live [OF assms] using l(2) i
    by (auto simp: live_blocks_append table_run_replicate_free live_blocks_free shift_blocks_iff
        add.commute)
  moreover have "(i, n) \<notin> live_blocks (take i T)" by (simp add: live_blocks_iff boundary_def)
  moreover have "(i, n) \<notin> shift_blocks (i + n) (live_blocks (drop (i + n) T))"
    using l(3) by (simp add: shift_blocks_iff)
  ultimately show ?thesis using l(5) by auto
qed

lemma live_boundary: "(i, n) \<in> live_blocks T \<Longrightarrow> boundary T i"
  by (simp add: live_blocks_iff)

lemma live_not_free:
  assumes "wf_table T" and "(i, n) \<in> live_blocks T" and "j < n"
  shows "\<not> free_entry (T ! (i + j))"
proof -
  note l = live_split [OF assms(1,2)]
  have "T ! (i + j) = chain n ! j"
    using l(1,3,4) assms(3) by (metis add_leD1 length_chain length_take min.absorb2 nth_append
        nth_append_length_plus)
  moreover have "chain n ! j \<in> set (chain n)" using assms(3) l(3) by simp
  ultimately show ?thesis by (auto simp: chain_def)
qed

lemma live_disjoint:
  assumes "wf_table T" and "(i, n) \<in> live_blocks T" and "(j, k) \<in> live_blocks T"
  shows "(i, n) = (j, k) \<or> i + n \<le> j \<or> j + k \<le> i"
proof -
  have "i + n \<le> j" if "(i, n) \<in> live_blocks T" "(j, k) \<in> live_blocks T" "i < j" for i n j k
    using live_split(5) [OF assms(1) that(1)] that
    by (auto simp: live_blocks_iff boundary_def shift_blocks_iff)
  then show ?thesis using assms(2,3) by (metis linorder_neqE_nat live_blocks_iff)
qed

lemma fits_iff: "fits T i n \<longleftrightarrow> i + n \<le> length T \<and> (\<forall>x < n. free_entry (T ! (i + x)))"
  by (auto simp: fits_def all_set_conv_all_nth)

lemma fits_free: "fits T i n \<Longrightarrow> x < n \<Longrightarrow> free_entry (T ! (i + x))"
  by (simp add: fits_iff)

lemma fits_disjoint_live:
  assumes "wf_table T" and "fits T i n" and "0 < n" and "(j, k) \<in> live_blocks T"
  shows "i + n \<le> j \<or> j + k \<le> i"
proof (rule ccontr)
  assume overlap: "\<not> (i + n \<le> j \<or> j + k \<le> i)"
  define x y where "x = max i j - i" and "y = max i j - j"
  have "0 < k" using live_split(3) [OF assms(1,4)] .
  then have "x < n" "y < k" "i + x = j + y" using overlap assms(3) by (auto simp: x_def y_def)
  then show False using fits_free [OF assms(2), of x] live_not_free [OF assms(1,4), of y] by simp
qed

text \<open>First fit: the least index with room.\<close>

lemma first_fit_Some:
  assumes "0 < n"
  shows "first_fit T n = Some i \<longleftrightarrow> fits T i n \<and> (\<forall>j < i. \<not> fits T j n)"
proof
  assume "first_fit T n = Some i"
  then show "fits T i n \<and> (\<forall>j < i. \<not> fits T j n)"
    by (auto simp: first_fit_def find_Some_iff)
next
  assume f: "fits T i n \<and> (\<forall>j < i. \<not> fits T j n)"
  then have "i < length T" using assms by (auto simp: fits_def)
  with f show "first_fit T n = Some i" by (auto simp: first_fit_def find_Some_iff)
qed

lemma first_fit_None:
  assumes "0 < n"
  shows "first_fit T n = None \<longleftrightarrow> (\<forall>i. \<not> fits T i n)"
  using assms by (auto simp: first_fit_def find_None_iff fits_def)

end
