(* ===== verification/Heap_Correct.thy ===== *)
theory Heap_Correct
  imports Heap_Table
begin

text \<open>
  The heap code on memory refines the block-table specification of \<^verbatim>\<open>Heap_Table\<close>: the search loop
  returns the first fit, \<^verbatim>\<open>heap_malloc\<close> enters a chain and zeroes the blocks it returns,
  \<^verbatim>\<open>heap_free\<close> clears a chain, and neither touches any other address. The laws are then packaged as
  the interface the clients of the heap rely on.
\<close>

section \<open>Geometry\<close>

definition heap_blocks :: "heap \<Rightarrow> nat" where
  "heap_blocks h = unat (total_entries (table h))"

definition heap_entries :: "heap \<Rightarrow> mem \<Rightarrow> u8 list" where
  "heap_entries h m = load_bytes m (entries (table h)) (heap_blocks h)"

definition table_region :: "heap \<Rightarrow> u32 set" where
  "table_region h = region (entries (table h)) (heap_blocks h)"

definition block_address :: "heap \<Rightarrow> nat \<Rightarrow> u32" where
  "block_address h i = start_address h + of_nat i * HEAP_BLOCK_SIZE"

definition data_region :: "heap \<Rightarrow> nat \<Rightarrow> nat \<Rightarrow> u32 set" where
  "data_region h i n = region (block_address h i) (n * 4096)"

text \<open>Table and data lie within the address space and apart from each other.\<close>

definition heap_ok :: "heap \<Rightarrow> bool" where
  "heap_ok h \<longleftrightarrow> heap_blocks h < 2 ^ 20
     \<and> unat (start_address h) + heap_blocks h * 4096 \<le> 2 ^ 32
     \<and> unat (entries (table h)) + heap_blocks h \<le> 2 ^ 32
     \<and> (unat (entries (table h)) + heap_blocks h \<le> unat (start_address h)
        \<or> unat (start_address h) + heap_blocks h * 4096 \<le> unat (entries (table h)))"

lemma block_size [simp]: "HEAP_BLOCK_SIZE = 4096"
  by (simp add: kernel_consts)

lemma length_heap_entries [simp]: "length (heap_entries h m) = heap_blocks h"
  by (simp add: heap_entries_def)

lemma heap_entries_nth:
  "i < heap_blocks h \<Longrightarrow> heap_entries h m ! i = m (entries (table h) + of_nat i)"
  by (simp add: heap_entries_def)

lemma idx_less: "i < 2 ^ 32 \<Longrightarrow> (of_nat i :: u32) < total_entries (table h) \<longleftrightarrow> i < heap_blocks h"
  by (simp add: word_less_nat_alt heap_blocks_def unat_of_nat32)

section \<open>The search\<close>

lemma count_free_run_eq:
  assumes "heap_blocks h < 2 ^ 20" and "i \<le> heap_blocks h"
  shows "count_free_run h m (of_nat i) (of_nat c) =
    (let r = length (takeWhile free_entry (drop i (heap_entries h m))) in (of_nat (i + r), of_nat (c + r)))"
  using assms(2)
proof (induction "heap_blocks h - i" arbitrary: i c)
  case 0
  then have "i = heap_blocks h" by simp
  with assms(1) show ?case by (subst count_free_run.simps) (simp add: idx_less)
next
  case (Suc k)
  then have i: "i < heap_blocks h" by simp
  have d: "drop i (heap_entries h m) = m (entries (table h) + of_nat i) # drop (Suc i) (heap_entries h m)"
    using i by (simp add: Cons_nth_drop_Suc [symmetric] heap_entries_nth)
  have "count_free_run h m (of_nat (Suc i)) (of_nat (Suc c)) =
    (let r = length (takeWhile free_entry (drop (Suc i) (heap_entries h m)))
     in (of_nat (Suc i + r), of_nat (Suc c + r)))"
    using Suc i by (intro Suc.hyps) auto
  with i assms(1) show ?case
    by (subst count_free_run.simps) (auto simp: idx_less d free_entry_def Let_def add.commute add.left_commute)
qed

lemma le_takeWhile_iff: "n \<le> length (takeWhile P xs) \<longleftrightarrow> n \<le> length xs \<and> (\<forall>x \<in> set (take n xs). P x)"
proof (induction xs arbitrary: n)
  case (Cons x xs)
  then show ?case by (cases n) auto
qed simp

lemma fits_at_run:
  assumes "i \<le> length T"
  shows "fits T i n \<longleftrightarrow> n \<le> length (takeWhile free_entry (drop i T))"
  using assms unfolding fits_def le_takeWhile_iff by auto

lemma no_fit_in_run:
  assumes "i \<le> length T" and "r = length (takeWhile free_entry (drop i T))" and "r < n"
    and "i \<le> k" and "k \<le> i + r"
  shows "\<not> fits T k n"
proof
  assume f: "fits T k n"
  have r: "r \<le> length T - i" using assms(2) length_takeWhile_le [of free_entry "drop i T"] by simp
  show False
  proof (cases "i + r < length T")
    case True
    then have "\<not> free_entry (drop i T ! r)" using assms(2) nth_length_takeWhile [of free_entry "drop i T"] by simp
    moreover have "free_entry (T ! (k + (i + r - k)))" using f assms by (intro fits_free) auto
    ultimately show False using assms True by simp
  next
    case False
    then have "length T = i + r" using r assms(1) by simp
    then show False using f assms by (simp add: fits_def)
  qed
qed

lemma find_upt_skip:
  "i \<le> j \<Longrightarrow> (\<And>k. i \<le> k \<Longrightarrow> k < j \<Longrightarrow> \<not> P k) \<Longrightarrow> List.find P [i..<N] = List.find P [j..<N]"
proof (induction rule: dec_induct)
  case (step k)
  have "List.find P [k..<N] = List.find P [Suc k..<N]"
    using step.prems [of k] step.hyps by (cases "k < N") (auto simp: upt_conv_Cons)
  with step show ?case by simp
qed simp

lemma block_count_le:
  assumes "r < 2 ^ 20" and "n * 4096 < 2 ^ 32"
  shows "(of_nat (n * 4096) :: u32) \<le> of_nat r * 4096 \<longleftrightarrow> n \<le> r"
proof -
  have "(of_nat r * 4096 :: u32) = of_nat (r * 4096)" by simp
  moreover have "r * 4096 < 2 ^ 32" using assms(1) by simp
  ultimately show ?thesis using assms(2)
    by (simp only: word_le_nat_alt unat_of_nat32) simp
qed

lemma find_first_fit_loop_eq:
  assumes "heap_blocks h < 2 ^ 20" and "0 < n" and "n * 4096 < 2 ^ 32" and "i \<le> Suc (heap_blocks h)"
  shows "find_first_fit_loop h m (of_nat (n * 4096)) (of_nat i) =
    Some (case List.find (\<lambda>k. fits (heap_entries h m) k n) [i..<heap_blocks h] of
            Some k \<Rightarrow> of_nat k | None \<Rightarrow> - ENOMEM)"
  using assms(4)
proof (induction "Suc (heap_blocks h) - i" arbitrary: i rule: less_induct)
  case less
  let ?T = "heap_entries h m"
  show ?case
  proof (cases "i < heap_blocks h")
    case False
    then show ?thesis using assms(1) less.prems
      by (subst find_first_fit_loop.simps) (simp add: idx_less)
  next
    case True
    define r where "r = length (takeWhile free_entry (drop i ?T))"
    have r: "r \<le> heap_blocks h - i"
      using length_takeWhile_le [of free_entry "drop i ?T"] by (simp add: r_def)
    then have r20: "r < 2 ^ 20" using assms(1) by simp
    have step: "find_first_fit_loop h m (of_nat (n * 4096)) (of_nat i) =
      (if n \<le> r then Some (of_nat i)
       else find_first_fit_loop h m (of_nat (n * 4096)) (of_nat (Suc (i + r))))"
      using True assms(1) count_free_run_eq [OF assms(1), of i m 0] block_count_le [OF r20 assms(3)]
      by (subst find_first_fit_loop.simps) (simp add: idx_less r_def [symmetric] add.commute del: of_nat_mult)
    show ?thesis
    proof (cases "n \<le> r")
      case fit: True
      then have "fits ?T i n" using True by (simp add: fits_at_run r_def)
      with fit True show ?thesis unfolding step by (simp add: upt_conv_Cons)
    next
      case False
      have "find_first_fit_loop h m (of_nat (n * 4096)) (of_nat (Suc (i + r))) =
        Some (case List.find (\<lambda>k. fits ?T k n) [Suc (i + r)..<heap_blocks h] of
            Some k \<Rightarrow> of_nat k | None \<Rightarrow> - ENOMEM)"
        using True r by (intro less.hyps) auto
      moreover have "List.find (\<lambda>k. fits ?T k n) [i..<heap_blocks h] =
          List.find (\<lambda>k. fits ?T k n) [Suc (i + r)..<heap_blocks h]"
        using False True no_fit_in_run [OF _ r_def] by (intro find_upt_skip) auto
      ultimately show ?thesis using False unfolding step by simp
    qed
  qed
qed

lemma find_first_fit_start_block_eq:
  assumes "heap_blocks h < 2 ^ 20" and "0 < n" and "n * 4096 < 2 ^ 32"
  shows "find_first_fit_start_block h m (of_nat (n * 4096)) =
    Some (case first_fit (heap_entries h m) n of Some i \<Rightarrow> of_nat i | None \<Rightarrow> - ENOMEM)"
  using find_first_fit_loop_eq [OF assms, of 0]
  by (simp add: find_first_fit_start_block_def first_fit_def)

section \<open>Allocation\<close>

text \<open>The number of blocks a request takes: one more than the whole blocks it fills.\<close>

definition blocks_for :: "u32 \<Rightarrow> nat" where
  "blocks_for sz = unat sz div 4096 + 1"

lemma align_to_upper_eq: "align_to_upper sz = of_nat (blocks_for sz * 4096)"
proof -
  have "sz - sz mod 4096 = sz div 4096 * 4096" by (rule minus_mod_eq_div_mult)
  then have "sz + (4096 - sz mod 4096) = sz div 4096 * 4096 + 4096" by (simp add: algebra_simps)
  also have "sz div 4096 = of_nat (unat sz div 4096)" by (simp add: word_arith_nat_div)
  finally show ?thesis by (simp add: align_to_upper_def blocks_for_def algebra_simps)
qed

lemma blocks_for_pos [simp]: "0 < blocks_for sz"
  by (simp add: blocks_for_def)

lemma blocks_for_bound: "unat sz < 2 ^ 32 - 4096 \<Longrightarrow> blocks_for sz * 4096 < 2 ^ 32"
  by (simp add: blocks_for_def)

lemma blocks_for_covers: "unat sz < blocks_for sz * 4096"
  by (simp add: blocks_for_def)

lemma chain_Suc: "0 < n \<Longrightarrow> chain (Suc n) = (HEAP_BLOCK_TABLE_ENTRY_TAKEN OR HEAP_BLOCK_HAS_NEXT) # chain n"
  by (cases n) (simp_all add: chain_def)

lemma mark_blocks_eq:
  assumes "i \<le> f" and "Suc f < 2 ^ 32"
  shows "mark_blocks h m (of_nat f) (of_nat i) =
    Some (write_bytes m (entries (table h) + of_nat i) (chain (Suc f - i)))"
  using assms(1)
proof (induction "f - i" arbitrary: i m)
  case 0
  then have i: "i = f" by simp
  have "\<not> of_nat (Suc f) \<le> (of_nat f :: u32)"
    using assms(2) by (simp add: word_le_nat_alt unat_of_nat32 del: of_nat_Suc)
  then have "mark_blocks h m' (of_nat f) (of_nat f + 1) = Some m'" for m'
    by (subst mark_blocks.simps) (simp add: add.commute)
  then show ?case using i
    by (subst mark_blocks.simps) (simp add: Let_def chain_def write_bytes_Cons)
next
  case (Suc k)
  then have i: "i < f" by simp
  have "of_nat i \<le> (of_nat f :: u32)" "(of_nat i :: u32) \<noteq> of_nat f"
    using i assms(2) by (simp_all add: word_le_nat_alt word_unat_eq_iff unat_of_nat32)
  moreover have "mark_blocks h m' (of_nat f) (of_nat (Suc i)) =
    Some (write_bytes m' (entries (table h) + of_nat (Suc i)) (chain (Suc f - Suc i)))" for m'
    using Suc i by (intro Suc.hyps) auto
  moreover have "chain (Suc f - i) = (HEAP_BLOCK_TABLE_ENTRY_TAKEN OR HEAP_BLOCK_HAS_NEXT) # chain (Suc f - Suc i)"
    using i chain_Suc [of "f - i"] by (simp add: Suc_diff_le)
  ultimately show ?case using i assms(2)
    by (subst mark_blocks.simps) (simp add: Let_def write_bytes_Cons add.commute add.left_commute)
qed

lemma heap_malloc_eq:
  assumes "heap_ok h" and "unat sz < 2 ^ 32 - 4096"
    and "first_fit (heap_entries h m) (blocks_for sz) = Some i"
  shows "heap_malloc h m sz = Some (block_address h i,
    write_bytes (memset m (block_address h i) 0 (of_nat (blocks_for sz * 4096)))
      (entries (table h) + of_nat i) (chain (blocks_for sz)))"
proof -
  let ?n = "blocks_for sz"
  have n: "?n * 4096 < 2 ^ 32" using assms(2) by (rule blocks_for_bound)
  have f: "i + ?n \<le> heap_blocks h" using assms(3) by (simp add: first_fit_Some fits_def)
  have find: "find_first_fit_start_block h m (of_nat (?n * 4096)) = Some (of_nat i)"
    using find_first_fit_start_block_eq [OF _ blocks_for_pos n, of h m] assms(1,3) by (simp add: heap_ok_def)
  have num: "(of_nat (?n * 4096) :: u32) div 4096 = of_nat ?n"
    using n by (simp add: word_arith_nat_div unat_of_nat32 del: of_nat_mult)
  have fin: "(of_nat i + of_nat ?n - 1 :: u32) = of_nat (i + ?n - 1)"
  proof -
    have "1 \<le> i + ?n" using blocks_for_pos [of sz] by linarith
    then show ?thesis by (simp del: One_nat_def)
  qed
  have "Suc (i + ?n - 1) < 2 ^ 32" using f assms(1) by (simp add: heap_ok_def)
  then have mark: "mark_blocks h m' (of_nat (i + ?n - 1)) (of_nat i) =
      Some (write_bytes m' (entries (table h) + of_nat i) (chain ?n))" for m'
  proof -
    have "i \<le> i + ?n - 1" "Suc (i + ?n - 1) - i = ?n" using blocks_for_pos [of sz] by linarith+
    then show ?thesis using mark_blocks_eq [of i "i + ?n - 1" h m'] \<open>Suc (i + ?n - 1) < 2 ^ 32\<close> by simp
  qed
  have "write_bytes (m'(entries (table h) + of_nat i := x)) (entries (table h) + of_nat i) (chain ?n) =
      write_bytes m' (entries (table h) + of_nat i) (chain ?n)" for m' x
    by (auto simp: write_bytes_def fun_eq_iff)
  then show ?thesis
    by (simp add: heap_malloc_def Let_def align_to_upper_eq find num fin mark
        block_idx_2_block_address_def block_address_def del: of_nat_mult of_nat_diff One_nat_def)
qed

lemma unat_block_address:
  assumes "heap_ok h" and "i < heap_blocks h"
  shows "unat (block_address h i) = unat (start_address h) + i * 4096"
proof -
  have lt: "i * 4096 + unat (start_address h) < 2 ^ 32" using assms by (simp add: heap_ok_def)
  then have "unat (of_nat (i * 4096) :: u32) = i * 4096" by (intro unat_of_nat32) simp
  then show ?thesis using lt by (simp add: block_address_def unat_word_ariths)
qed

lemma data_region_interval:
  assumes "heap_ok h" and "i + n \<le> heap_blocks h" and "0 < n"
  shows "a \<in> data_region h i n \<longleftrightarrow>
    unat (start_address h) + i * 4096 \<le> unat a \<and> unat a < unat (start_address h) + (i + n) * 4096"
proof -
  have "i < heap_blocks h" using assms(2,3) by simp
  note u = unat_block_address [OF assms(1) this]
  have "unat (start_address h) + (i + n) * 4096 \<le> unat (start_address h) + heap_blocks h * 4096"
    using assms(2) by simp
  also have "\<dots> \<le> 2 ^ 32" using assms(1) by (simp add: heap_ok_def)
  finally have "unat (block_address h i) + n * 4096 \<le> 2 ^ 32" using u by (simp add: add_mult_distrib)
  from region_interval [OF this, of a] u show ?thesis
    by (simp add: data_region_def add_mult_distrib add.assoc)
qed

lemma data_table_disjoint:
  assumes "heap_ok h" and "i + n \<le> heap_blocks h" and "0 < n"
  shows "data_region h i n \<inter> table_region h = {}"
proof -
  have t: "a \<in> table_region h \<longleftrightarrow> unat (entries (table h)) \<le> unat a
    \<and> unat a < unat (entries (table h)) + heap_blocks h" for a
    using assms(1) by (simp add: table_region_def region_interval heap_ok_def)
  have "(i + n) * 4096 \<le> heap_blocks h * 4096" using assms(2) by simp
  then show ?thesis using assms(1)
    by (auto simp: t data_region_interval [OF assms] heap_ok_def)
qed

lemma data_regions_disjoint:
  assumes "heap_ok h" and "i + n \<le> j" and "j + k \<le> heap_blocks h" and "0 < n" and "0 < k"
  shows "data_region h i n \<inter> data_region h j k = {}"
proof -
  have "(i + n) * 4096 \<le> j * 4096" using assms(2) by simp
  moreover have "i + n \<le> heap_blocks h" using assms(2,3) by simp
  ultimately show ?thesis using assms
    by (auto simp: data_region_interval)
qed

lemma heap_entries_frame:
  assumes "same_outside R m m'" and "table_region h \<inter> R = {}" and "heap_ok h"
  shows "heap_entries h m' = heap_entries h m"
  using assms unfolding heap_entries_def table_region_def
  by (intro load_bytes_frame) (auto simp: heap_ok_def)

lemma heap_malloc_ok:
  assumes "heap_ok h" and "unat sz < 2 ^ 32 - 4096"
    and "first_fit (heap_entries h m) (blocks_for sz) = Some i"
  obtains m' where "heap_malloc h m sz = Some (block_address h i, m')"
    and "heap_entries h m' = enter_chain (heap_entries h m) i (blocks_for sz)"
    and "\<And>a. a \<in> data_region h i (blocks_for sz) \<Longrightarrow> m' a = 0"
    and "same_outside (data_region h i (blocks_for sz) \<union> table_region h) m m'"
proof -
  let ?n = "blocks_for sz"
  let ?m1 = "memset m (block_address h i) 0 (of_nat (?n * 4096))"
  let ?m2 = "write_bytes ?m1 (entries (table h) + of_nat i) (chain ?n)"
  have f: "i + ?n \<le> heap_blocks h" using assms(3) by (simp add: first_fit_Some fits_def)
  have sz: "unat (of_nat (?n * 4096) :: u32) = ?n * 4096"
    using blocks_for_bound [OF assms(2)] by (rule unat_of_nat32)
  have o1: "same_outside (data_region h i ?n) m ?m1"
    using memset_outside [of "block_address h i" "of_nat (?n * 4096)" m 0] sz by (simp add: data_region_def)
  have sub: "region (entries (table h) + of_nat i) ?n \<subseteq> table_region h"
    using f by (simp add: table_region_def region_shift)
  then have o2: "same_outside (table_region h) ?m1 ?m2"
    using write_bytes_outside [of "entries (table h) + of_nat i" "chain ?n" ?m1]
    by (simp add: same_outside_mono)
  have disj: "data_region h i ?n \<inter> table_region h = {}"
    using assms(1) f by (intro data_table_disjoint) auto
  have "heap_entries h ?m1 = heap_entries h m"
    using o1 disj assms(1) by (intro heap_entries_frame) auto
  moreover have "heap_blocks h < 2 ^ 32" using assms(1) by (simp add: heap_ok_def)
  ultimately have tab: "heap_entries h ?m2 = enter_chain (heap_entries h m) i ?n"
    using load_write_bytes_within [of i "chain ?n" "heap_blocks h" ?m1 "entries (table h)"] f
    by (simp add: heap_entries_def enter_chain_def)
  have zero: "?m2 a = 0" if "a \<in> data_region h i ?n" for a
  proof -
    have "?m2 a = ?m1 a" using o2 that disj by (auto dest: same_outsideD)
    also have "\<dots> = 0" using that memset_inside [of a "block_address h i" "of_nat (?n * 4096)" m 0] sz
      by (simp add: data_region_def)
    finally show ?thesis .
  qed
  show ?thesis
    using that [OF heap_malloc_eq [OF assms] tab zero] same_outside_trans [OF o1 o2] by blast
qed

section \<open>Release\<close>

lemma heap_free_loop_eq:
  assumes "heap_blocks h < 2 ^ 20" and "i \<le> heap_blocks h"
  shows "heap_free_loop h m (of_nat i) = write_bytes m (entries (table h) + of_nat i)
    (replicate (chain_len (drop i (heap_entries h m))) HEAP_BLOCK_TABLE_ENTRY_FREE)"
  using assms(2)
proof (induction "heap_blocks h - i" arbitrary: i m)
  case 0
  then have "i = heap_blocks h" by simp
  with assms(1) show ?case by (subst heap_free_loop.simps) (simp add: idx_less)
next
  case (Suc k)
  then have i: "i < heap_blocks h" by simp
  let ?m = "m(entries (table h) + of_nat i := HEAP_BLOCK_TABLE_ENTRY_FREE)"
  have d: "drop i (heap_entries h m) = m (entries (table h) + of_nat i) # drop (Suc i) (heap_entries h m)"
    using i by (simp add: Cons_nth_drop_Suc [symmetric] heap_entries_nth)
  have "drop (Suc i) (heap_entries h ?m) = drop (Suc i) (heap_entries h m)"
    using i assms(1)
    by (intro nth_equalityI) (auto simp: heap_entries_nth of_nat32_eq simp flip: of_nat_Suc of_nat_add)
  moreover have "heap_free_loop h ?m (of_nat (Suc i)) = write_bytes ?m (entries (table h) + of_nat (Suc i))
    (replicate (chain_len (drop (Suc i) (heap_entries h ?m))) HEAP_BLOCK_TABLE_ENTRY_FREE)"
    using Suc i by (intro Suc.hyps) auto
  moreover have "chain_len (drop (Suc i) (heap_entries h m)) < 2 ^ 32"
    using chain_len_le [of "drop (Suc i) (heap_entries h m)"] assms(1) by simp
  ultimately show ?case using i assms(1)
    by (subst heap_free_loop.simps)
      (auto simp: idx_less d Let_def write_bytes_Cons add.commute add.left_commute)
qed

lemma block_address_idx:
  assumes "heap_ok h" and "i < heap_blocks h" and "a \<in> data_region h i 1"
  shows "block_address_2_block_idx h a = of_nat i"
proof -
  have "unat (start_address h) + i * 4096 \<le> unat a" "unat a < unat (start_address h) + (i + 1) * 4096"
    using data_region_interval [of h i 1 a] assms by auto
  then have "unat (a - start_address h) div 4096 = i"
    by (auto simp: unat_diff_addr word_le_nat_alt intro!: div_nat_eqI)
  then show ?thesis by (simp add: block_address_2_block_idx_def word_arith_nat_div)
qed

lemma block_address_mem: "block_address h i \<in> data_region h i 1"
  by (simp add: data_region_def)

text \<open>Clearing the chain that starts at the block an address lies in.\<close>

lemma heap_free_ok:
  assumes "heap_ok h" and "i < heap_blocks h" and "a \<in> data_region h i 1"
  shows "heap_entries h (heap_free h m a) = clear_chain_at (heap_entries h m) i"
    and "same_outside (table_region h) m (heap_free h m a)"
proof -
  let ?T = "heap_entries h m"
  let ?k = "chain_len (drop i ?T)"
  have k: "i + ?k \<le> heap_blocks h" using chain_len_le [of "drop i ?T"] assms(2) by simp
  have eq: "heap_free h m a = write_bytes m (entries (table h) + of_nat i)
      (replicate ?k HEAP_BLOCK_TABLE_ENTRY_FREE)"
    using heap_free_loop_eq [of h i m] assms block_address_idx [OF assms]
    by (simp add: heap_free_def heap_ok_def)
  have "heap_blocks h < 2 ^ 32" using assms(1) by (simp add: heap_ok_def)
  then show "heap_entries h (heap_free h m a) = clear_chain_at ?T i"
    using k load_write_bytes_within [of i "replicate ?k HEAP_BLOCK_TABLE_ENTRY_FREE" "heap_blocks h" m]
    by (simp add: eq heap_entries_def clear_chain_at_def clear_chain_eq add.commute [of i])
  have "region (entries (table h) + of_nat i) ?k \<subseteq> table_region h"
    using k by (simp add: table_region_def region_shift)
  then show "same_outside (table_region h) m (heap_free h m a)"
    using write_bytes_outside [of "entries (table h) + of_nat i" "replicate ?k HEAP_BLOCK_TABLE_ENTRY_FREE" m]
    by (simp add: eq same_outside_mono)
qed

text \<open>An address outside the heap, the null pointer of a heap above address 0 included, is ignored.\<close>

lemma heap_free_outside:
  assumes "heap_ok h" and "a \<notin> region (start_address h) (heap_blocks h * 4096)"
  shows "heap_free h m a = m"
proof -
  have "heap_blocks h \<le> unat (a - start_address h) div 4096"
    using assms(2) by (simp add: mem_region not_less less_eq_div_iff_mult_less_eq)
  then have "\<not> block_address_2_block_idx h a < total_entries (table h)"
    by (simp add: block_address_2_block_idx_def word_less_nat_alt unat_div heap_blocks_def)
  then show ?thesis by (simp add: heap_free_def heap_free_loop.simps)
qed

section \<open>Requests that cannot be met\<close>

text \<open>A block loop up to the last 32 bit index never ends: no index is above it.\<close>

lemma mark_blocks_endless: "mark_blocks h m (- 1) idx = None"
proof (rule ccontr)
  assume "mark_blocks h m (- 1) idx \<noteq> None"
  then obtain r where ret: "mark_blocks h m (- 1) idx = Some r" by auto
  have "(- 1 :: u32) \<noteq> - 1"
  proof (rule mark_blocks.raw_induct [where P = "\<lambda>h m f idx r. f \<noteq> - 1", OF _ ret])
    fix mb :: "heap \<Rightarrow> mem \<Rightarrow> u32 \<Rightarrow> u32 \<Rightarrow> mem option" and h m f idx r
    assume IH: "\<And>h m f idx r. mb h m f idx = Some r \<Longrightarrow> f \<noteq> - 1"
      and eq: "(if idx \<le> f then
        (let entry = entries (table h) + idx; m = m(entry := HEAP_BLOCK_TABLE_ENTRY_TAKEN);
             m = (if idx \<noteq> f then m(entry := m entry OR HEAP_BLOCK_HAS_NEXT) else m)
         in mb h m f (idx + 1)) else Some m) = Some (r :: mem)"
    show "f \<noteq> - 1"
      using eq IH by (cases "idx \<le> f") (auto simp: Let_def)
  qed
  then show False by simp
qed

text \<open>Sizes in the last 4 KB of the 32 bit range wrap to 0 in \<^verbatim>\<open>align_to_upper\<close>.\<close>

lemma align_to_upper_wrap:
  assumes "2 ^ 32 - 4096 \<le> unat sz"
  shows "align_to_upper sz = 0"
proof -
  have "unat sz < 2 ^ 32" using unat_bound [of sz] by simp
  then have "blocks_for sz = 2 ^ 20" using assms unfolding blocks_for_def by simp
  then show ?thesis by (simp add: align_to_upper_eq)
qed

lemma heap_malloc_huge:
  assumes "2 ^ 32 - 4096 \<le> unat sz" and "0 < heap_blocks h"
  shows "heap_malloc h m sz = None"
proof -
  have "0 < total_entries (table h)" using assms(2) by (simp add: heap_blocks_def word_less_nat_alt)
  then have "find_first_fit_start_block h m 0 = Some 0"
    by (simp add: find_first_fit_start_block_def find_first_fit_loop.simps split: prod.split)
  then show ?thesis
    by (simp add: heap_malloc_def align_to_upper_wrap [OF assms(1)] mark_blocks_endless)
qed

text \<open>When no run of free blocks is long enough, \<^verbatim>\<open>-ENOMEM\<close> is used as the index of the first block.\<close>

lemma exhausted_find:
  assumes "heap_blocks h < 2 ^ 20" and "unat sz < 2 ^ 32 - 4096"
    and "first_fit (heap_entries h m) (blocks_for sz) = None"
  shows "find_first_fit_start_block h m (align_to_upper sz) = Some (- 12)"
  using find_first_fit_start_block_eq [OF assms(1) blocks_for_pos blocks_for_bound [OF assms(2)]] assms(3)
  by (simp add: align_to_upper_eq kernel_consts)

lemma num_blocks_word:
  assumes "unat sz < 2 ^ 32 - 4096"
  shows "align_to_upper sz div HEAP_BLOCK_SIZE = of_nat (blocks_for sz)"
  using blocks_for_bound [OF assms]
  by (simp add: align_to_upper_eq word_arith_nat_div unat_of_nat32 del: of_nat_mult)

lemma heap_malloc_exhausted:
  assumes "heap_blocks h < 2 ^ 20" and "unat sz < 2 ^ 32 - 4096"
    and "first_fit (heap_entries h m) (blocks_for sz) = None" and "blocks_for sz \<noteq> 12"
  shows "\<exists>m'. heap_malloc h m sz = Some (start_address h - 12 * 4096, m')
    \<and> m' (entries (table h) - 12) \<noteq> HEAP_BLOCK_TABLE_ENTRY_FREE"
proof -
  let ?n = "blocks_for sz" and ?e = "entries (table h) - 12"
  let ?m = "(memset m (start_address h - 12 * 4096) 0 (align_to_upper sz))(?e := HEAP_BLOCK_IS_FIRST)"
  have n: "?n < 2 ^ 20" using blocks_for_bound [OF assms(2)] by simp
  have call: "heap_malloc h m sz =
    do { m' \<leftarrow> mark_blocks h ?m (- 12 + of_nat ?n - 1) (- 12); Some (start_address h - 12 * 4096, m') }"
    unfolding heap_malloc_def Let_def exhausted_find [OF assms(1-3)] num_blocks_word [OF assms(2)]
    by (simp add: block_idx_2_block_address_def)
  show ?thesis
  proof (cases "?n < 12")
    case True
    have i: "(- 12 :: u32) = of_nat (2 ^ 32 - 12)" by simp
    have e: "entries (table h) + of_nat (2 ^ 32 - 12) = ?e" unfolding i [symmetric] by simp
    have f: "(- 12 + of_nat ?n - 1 :: u32) = of_nat (2 ^ 32 - 13 + ?n)" by simp
    have "mark_blocks h ?m (- 12 + of_nat ?n - 1) (- 12) = Some (write_bytes ?m ?e (chain ?n))"
      unfolding f unfolding i
      using mark_blocks_eq [of "2 ^ 32 - 12" "2 ^ 32 - 13 + ?n" h ?m, unfolded e] True
        blocks_for_pos [of sz] by simp
    moreover have "write_bytes ?m ?e (chain ?n) ?e = chain ?n ! 0"
      using blocks_for_pos [of sz] by (simp add: write_bytes_def)
    moreover have "chain ?n ! 0 \<noteq> HEAP_BLOCK_TABLE_ENTRY_FREE" by (cases "?n - 1") (auto simp: chain_def)
    ultimately show ?thesis using call by simp
  next
    case False
    with assms(4) have "12 < ?n" by simp
    then have f: "(- 12 + of_nat ?n - 1 :: u32) = of_nat (?n - 13)" by simp
    have "\<not> (- 12 :: u32) \<le> of_nat (?n - 13)"
      using n by (simp add: word_le_nat_alt unat_of_nat32 del: of_nat_diff)
    then have "mark_blocks h ?m (- 12 + of_nat ?n - 1) (- 12) = Some ?m"
      unfolding f by (subst mark_blocks.simps) simp
    then show ?thesis using call by (simp add: kernel_consts)
  qed
qed

lemma heap_malloc_exhausted_hangs:
  assumes "heap_blocks h < 2 ^ 20" and "first_fit (heap_entries h m) 12 = None"
    and "blocks_for sz = 12"
  shows "heap_malloc h m sz = None"
proof -
  have sz: "unat sz < 2 ^ 32 - 4096" using blocks_for_covers [of sz] assms(3) by simp
  show ?thesis
    unfolding heap_malloc_def Let_def num_blocks_word [OF sz] assms(3)
    using exhausted_find [OF assms(1) sz] assms(2,3) by (simp add: mark_blocks_endless)
qed

section \<open>Properties\<close>

text \<open>A small heap: four blocks at 0x1000, table at 0x100.\<close>

definition small_heap :: heap where
  "small_heap = \<lparr>table = \<lparr>entries = 0x100, total_entries = 4\<rparr>, start_address = 0x1000\<rparr>"

lemma small_heap_simps [simp]:
  "heap_blocks small_heap = 4" "start_address small_heap = 0x1000" "entries (table small_heap) = 0x100"
  by (simp_all add: small_heap_def heap_blocks_def)

lemma small_heap_ok: "heap_ok small_heap"
  by (simp add: heap_ok_def)

lemma small_heap_entries: "heap_entries small_heap m = [m 0x100, m 0x101, m 0x102, m 0x103]"
  by (simp add: heap_entries_def load_bytes_def upt_rec)

text \<open>C7: where a first fit exists, \<^verbatim>\<open>heap_malloc\<close> on memory implements the abstract step on the block
  table: it enters a chain of the right length at the first fit, returns that block's address with all
  its bytes zero, and changes no other memory.\<close>

theorem heap_malloc_refines_first_fit:
  assumes "heap_ok h" and "unat sz < 2 ^ 32 - 4096"
    and "first_fit (heap_entries h m) (blocks_for sz) = Some i"
  shows "\<exists>m'. heap_malloc h m sz = Some (block_address h i, m')
    \<and> heap_entries h m' = enter_chain (heap_entries h m) i (blocks_for sz)
    \<and> (\<forall>a \<in> data_region h i (blocks_for sz). m' a = 0)
    \<and> same_outside (data_region h i (blocks_for sz) \<union> table_region h) m m'"
  by (rule heap_malloc_ok [OF assms]) blast

theorem heap_malloc_refines_first_fit_witness:
  "\<exists>m'. heap_malloc small_heap ((\<lambda>_. 0)(0x100 := 1)) 5000 = Some (0x2000, m')
    \<and> heap_entries small_heap m' = [1, 0x81, 1, 0]"
proof -
  have b: "blocks_for 5000 = 2" by (simp add: blocks_for_def)
  have "first_fit (heap_entries small_heap ((\<lambda>_. 0)(0x100 := 1))) (blocks_for 5000) = Some 1"
    by (simp add: b small_heap_entries first_fit_def fits_def free_entry_def get_entry_type_def kernel_consts upt_rec)
  from heap_malloc_refines_first_fit [OF small_heap_ok _ this] show ?thesis
    by (auto simp: b small_heap_entries enter_chain_def chain_def block_address_def kernel_consts)
qed

text \<open>\<^verbatim>\<open>heap_free\<close> of an address inside block \<open>i\<close> clears the rest of that block's chain in the table and
  changes nothing else; an address outside the heap is ignored.\<close>

lemma heap_free_clears_chain:
  assumes "heap_ok h"
  shows "(a \<notin> region (start_address h) (heap_blocks h * 4096) \<longrightarrow> heap_free h m a = m)
    \<and> (i < heap_blocks h \<and> a \<in> data_region h i 1 \<longrightarrow>
         heap_entries h (heap_free h m a) = clear_chain_at (heap_entries h m) i
         \<and> same_outside (table_region h) m (heap_free h m a))"
  using heap_free_outside [OF assms] heap_free_ok [OF assms] by blast

text \<open>C38: when no run of free blocks is long enough, \<^verbatim>\<open>heap_malloc\<close> does not fail: it takes the error
  code \<^verbatim>\<open>-ENOMEM\<close> for a block index, returns an address 48 KB below the heap and overwrites the byte
  twelve below the block table. A request that needs twelve blocks never returns.\<close>

theorem heap_malloc_out_of_memory:
  assumes "heap_blocks h < 2 ^ 20" and "unat sz < 2 ^ 32 - 4096"
    and "first_fit (heap_entries h m) (blocks_for sz) = None"
  shows "if blocks_for sz = 12 then heap_malloc h m sz = None
    else \<exists>m'. heap_malloc h m sz = Some (start_address h - 12 * 4096, m')
      \<and> m' (entries (table h) - 12) \<noteq> HEAP_BLOCK_TABLE_ENTRY_FREE"
proof (cases "blocks_for sz = 12")
  case True
  then show ?thesis using heap_malloc_exhausted_hangs [OF assms(1) _ True] assms(3) by simp
next
  case False
  then show ?thesis using heap_malloc_exhausted [OF assms False] by simp
qed

theorem heap_malloc_out_of_memory_witness:
  "\<exists>m'. heap_malloc small_heap (\<lambda>_. 1) 100 = Some (0xFFFF5000, m')"
proof -
  have b: "blocks_for 100 = 1" by (simp add: blocks_for_def)
  have "first_fit (heap_entries small_heap (\<lambda>_. 1)) (blocks_for 100) = None"
    by (simp add: b small_heap_entries first_fit_def fits_def free_entry_def get_entry_type_def kernel_consts upt_rec)
  with heap_malloc_out_of_memory [of small_heap 100 "\<lambda>_. 1"] show ?thesis by (auto simp: b)
qed

text \<open>C39: a request within a page of 4 GB is rounded up to size 0 and never returns: the loop that marks the
  blocks runs up to the largest index for ever.\<close>

theorem heap_malloc_huge_hangs:
  assumes "2 ^ 32 - 4096 \<le> unat sz" and "0 < heap_blocks h"
  shows "heap_malloc h m sz = None"
  using assms by (rule heap_malloc_huge)

theorem heap_malloc_huge_hangs_witness: "heap_malloc small_heap (\<lambda>_. 0) 0xFFFFF123 = None"
  using heap_malloc_huge_hangs [of "0xFFFFF123" small_heap] by simp

end
