(* ===== verification/Arrays.thy ===== *)
theory Arrays
  imports Machine
begin

text \<open>
  Arrays of fixed-size elements in memory and the loops that fill them. The kernel fills its
  descriptor tables, page tables and the screen the same way: for each index, write one element and
  nothing else. The locale \<open>array_writer\<close> states that once; the components interpret it on their
  own element writers.
\<close>

definition elem_addr :: "u32 \<Rightarrow> nat \<Rightarrow> nat \<Rightarrow> u32" where
  "elem_addr base esz i = base + of_nat (i * esz)"

definition elem_region :: "u32 \<Rightarrow> nat \<Rightarrow> nat \<Rightarrow> u32 set" where
  "elem_region base esz i = region (elem_addr base esz i) esz"

lemma elem_within: "i < n \<Longrightarrow> elem_region base esz i \<subseteq> region base (n * esz)"
proof -
  assume "i < n"
  then have "(i + 1) * esz \<le> n * esz" by (intro mult_le_mono) auto
  then show ?thesis unfolding elem_region_def elem_addr_def by (intro region_shift) simp
qed

lemma elem_offset:
  assumes "a \<in> elem_region base esz i" and "i < n" and "n * esz \<le> 2 ^ 32"
  shows "unat (a - base) div esz = i"
proof -
  define d where "d = unat (a - elem_addr base esz i)"
  have d: "d < esz" using assms(1) by (simp add: elem_region_def mem_region d_def)
  have "(i + 1) * esz \<le> n * esz" using assms(2) by (intro mult_le_mono) auto
  with assms(3) d have b: "i * esz + d < 2 ^ 32" by simp
  have "a - base = of_nat (i * esz + d)"
    by (simp add: d_def elem_addr_def)
  then have "unat (a - base) = i * esz + d" using unat_of_nat32 [OF b] by simp
  with d show ?thesis by simp
qed

lemma elems_apart:
  assumes "i < n" and "j < n" and "i \<noteq> j" and "n * esz \<le> 2 ^ 32"
  shows "elem_region base esz i \<inter> elem_region base esz j = {}"
  using elem_offset [OF _ assms(1,4)] elem_offset [OF _ assms(2,4)] assms(3) by blast

text \<open>Word loops over an index are loops over the natural numbers.\<close>

lemma fold_upt_Suc: "fold f [0..<Suc n] m = f n (fold f [0..<n] m)"
  by simp

locale array_writer =
  fixes base :: u32 and esz n :: nat and wr :: "nat \<Rightarrow> mem \<Rightarrow> mem" and ok :: "nat \<Rightarrow> mem \<Rightarrow> bool"
  assumes size: "n * esz \<le> 2 ^ 32"
    and wr_frame: "i < n \<Longrightarrow> same_outside (elem_region base esz i) m (wr i m)"
    and wr_ok: "i < n \<Longrightarrow> ok i (wr i m)"
    and ok_local: "i < n \<Longrightarrow> ok i m \<Longrightarrow> same_outside R m m' \<Longrightarrow> elem_region base esz i \<inter> R = {} \<Longrightarrow> ok i m'"
begin

lemma fill_frame: "k \<le> n \<Longrightarrow> same_outside (region base (k * esz)) m (fold wr [0..<k] m)"
proof (induction k)
  case (Suc k)
  have "same_outside (elem_region base esz k) (fold wr [0..<k] m) (wr k (fold wr [0..<k] m))"
    using Suc.prems by (intro wr_frame) simp
  with Suc have "same_outside (region base (k * esz) \<union> elem_region base esz k) m (wr k (fold wr [0..<k] m))"
    by (intro same_outside_trans) auto
  moreover have "region base (k * esz) \<union> elem_region base esz k \<subseteq> region base (Suc k * esz)"
    using elem_within [of k "Suc k" base esz] region_mono [of "k * esz" "Suc k * esz" base] by simp
  ultimately show ?case by (auto intro: same_outside_mono)
qed simp

lemma write_keeps: "i < n \<Longrightarrow> j < n \<Longrightarrow> i \<noteq> j \<Longrightarrow> ok i m \<Longrightarrow> ok i (wr j m)"
  using ok_local [OF _ _ wr_frame] elems_apart [OF _ _ _ size] by metis

lemma fill_ok: "i < k \<Longrightarrow> k \<le> n \<Longrightarrow> ok i (fold wr [0..<k] m)"
proof (induction k)
  case (Suc k)
  then show ?case using wr_ok [of k] write_keeps [of i k] by (cases "i = k") auto
qed simp

end

text \<open>An array of 32 bit words.\<close>

lemma word_array:
  assumes "n * 4 \<le> 2 ^ 32"
  shows "array_writer base 4 n (\<lambda>i m. store32 m (elem_addr base 4 i) (f i))
    (\<lambda>i m. load32 m (elem_addr base 4 i) = f i)"
proof
  fix i m m' R
  show "same_outside (elem_region base 4 i) m (store32 m (elem_addr base 4 i) (f i))"
    unfolding elem_region_def by (rule store32_outside)
  assume "load32 m (elem_addr base 4 i) = f i" "same_outside R m m'" "elem_region base 4 i \<inter> R = {}"
  then show "load32 m' (elem_addr base 4 i) = f i" by (simp add: load32_frame elem_region_def)
qed (use assms in simp_all)

text \<open>An array of 16 bit words.\<close>

lemma half_array:
  assumes "n * 2 \<le> 2 ^ 32"
  shows "array_writer base 2 n (\<lambda>i m. store16 m (elem_addr base 2 i) (f i))
    (\<lambda>i m. load16 m (elem_addr base 2 i) = f i)"
proof
  fix i m m' R
  show "same_outside (elem_region base 2 i) m (store16 m (elem_addr base 2 i) (f i))"
    unfolding elem_region_def by (rule store16_outside)
  assume "load16 m (elem_addr base 2 i) = f i" "same_outside R m m'" "elem_region base 2 i \<inter> R = {}"
  then show "load16 m' (elem_addr base 2 i) = f i" by (simp add: load16_frame elem_region_def)
qed (use assms in simp_all)

end
