(* ===== verification/Tty.thy ===== *)
theory Tty
  imports Arrays Libc_String
begin

text \<open>
  \<^verbatim>\<open>kernel/arch/i386/vga.h\<close> and \<^verbatim>\<open>kernel/arch/i386/tty.cpp\<close>: the text terminal, 25 rows of 80 two-byte
  cells at address 0xB8000, and \<^verbatim>\<open>panic\<close> of \<^verbatim>\<open>kernel.cpp\<close>, which writes its message there and never
  returns.

  The abstract terminal is a list of 2000 cells with a cursor. The code on memory refines it: every
  operation keeps the cursor on the screen, changes only screen memory, and does to the cells what the
  abstract operation does. Running off the last row clears the screen and resets the colour.
\<close>

section \<open>Definitions\<close>

datatype vga_colour =
  VGA_COLOUR_BLACK | VGA_COLOUR_BLUE | VGA_COLOUR_GREEN | VGA_COLOUR_CYAN | VGA_COLOUR_RED
  | VGA_COLOUR_MAGENTA | VGA_COLOUR_BROWN | VGA_COLOUR_LIGHT_GREY | VGA_COLOUR_DARK_GREY
  | VGA_COLOUR_LIGHT_BLUE | VGA_COLOUR_LIGHT_GREEN | VGA_COLOUR_LIGHT_CYAN | VGA_COLOUR_LIGHT_RED
  | VGA_COLOUR_LIGHT_MAGENTA | VGA_COLOUR_LIGHT_BROWN | VGA_COLOUR_WHITE

primrec vga_code :: "vga_colour \<Rightarrow> u32" where
  "vga_code VGA_COLOUR_BLACK = 0"
| "vga_code VGA_COLOUR_BLUE = 1"
| "vga_code VGA_COLOUR_GREEN = 2"
| "vga_code VGA_COLOUR_CYAN = 3"
| "vga_code VGA_COLOUR_RED = 4"
| "vga_code VGA_COLOUR_MAGENTA = 5"
| "vga_code VGA_COLOUR_BROWN = 6"
| "vga_code VGA_COLOUR_LIGHT_GREY = 7"
| "vga_code VGA_COLOUR_DARK_GREY = 8"
| "vga_code VGA_COLOUR_LIGHT_BLUE = 9"
| "vga_code VGA_COLOUR_LIGHT_GREEN = 10"
| "vga_code VGA_COLOUR_LIGHT_CYAN = 11"
| "vga_code VGA_COLOUR_LIGHT_RED = 12"
| "vga_code VGA_COLOUR_LIGHT_MAGENTA = 13"
| "vga_code VGA_COLOUR_LIGHT_BROWN = 14"
| "vga_code VGA_COLOUR_WHITE = 15"

definition vga_entry_colour :: "vga_colour \<Rightarrow> vga_colour \<Rightarrow> u8" where
  "vga_entry_colour fg bg = ucast (vga_code fg OR push_bit 4 (vga_code bg))"

text \<open>The colour argument is the value of the enumeration, which \<^verbatim>\<open>static_cast\<close> makes of any byte.\<close>

definition vga_entry :: "u8 \<Rightarrow> u32 \<Rightarrow> u16" where
  "vga_entry character colour = ucast character OR ucast (push_bit 8 colour)"

definition VGA_WIDTH :: u32 where
  [kernel_consts]: "VGA_WIDTH = 80"

definition VGA_HEIGHT :: u32 where
  [kernel_consts]: "VGA_HEIGHT = 25"

definition VGA_MEMORY_START :: u32 where
  [kernel_consts]: "VGA_MEMORY_START = 0xB8000"

record tty_state = mach +
  terminal_row :: u32
  terminal_column :: u32
  terminal_colour :: u8
  terminal_buffer :: u32

definition terminal_write_char_at :: "u8 \<Rightarrow> u32 \<Rightarrow> u32 \<Rightarrow> 'a tty_state_scheme \<Rightarrow> 'a tty_state_scheme" where
  "terminal_write_char_at character row column s =
     (let index = row * VGA_WIDTH + column in
      s\<lparr>mem := store16 (mem s) (terminal_buffer s + index * 2)
          (vga_entry character (ucast (terminal_colour s)))\<rparr>)"

function terminal_clear_row :: "u32 \<Rightarrow> u32 \<Rightarrow> 'a tty_state_scheme \<Rightarrow> 'a tty_state_scheme" where
  "terminal_clear_row y x s =
     (if x < VGA_WIDTH then terminal_clear_row y (x + 1) (terminal_write_char_at 0x20 y x s) else s)"
  by pat_completeness auto
termination
  by (relation "measure (\<lambda>(y, x, s). unat VGA_WIDTH - unat x)") (auto simp: loop_measure)

function terminal_clear :: "u32 \<Rightarrow> 'a tty_state_scheme \<Rightarrow> 'a tty_state_scheme" where
  "terminal_clear y s =
     (if y < VGA_HEIGHT then terminal_clear (y + 1) (terminal_clear_row y 0 s) else s)"
  by pat_completeness auto
termination
  by (relation "measure (\<lambda>(y, s). unat VGA_HEIGHT - unat y)") (auto simp: loop_measure)

declare terminal_clear_row.simps [simp del] terminal_clear.simps [simp del]

definition terminal_initialise :: "'a tty_state_scheme \<Rightarrow> 'a tty_state_scheme" where
  "terminal_initialise s =
     terminal_clear 0 (s\<lparr>terminal_row := 0, terminal_column := 0,
       terminal_colour := vga_entry_colour VGA_COLOUR_LIGHT_GREY VGA_COLOUR_BLACK,
       terminal_buffer := VGA_MEMORY_START\<rparr>)"

definition terminal_write_char :: "u8 \<Rightarrow> 'a tty_state_scheme \<Rightarrow> 'a tty_state_scheme" where
  "terminal_write_char character s =
     (if character = 0x0A then
        (let s = s\<lparr>terminal_column := 0\<rparr>;
             s = s\<lparr>terminal_row := terminal_row s + 1\<rparr> in
         if terminal_row s \<ge> VGA_HEIGHT then terminal_initialise s else s)
      else
        (let s = terminal_write_char_at character (terminal_row s) (terminal_column s) s;
             s = s\<lparr>terminal_column := terminal_column s + 1\<rparr>;
             s = (if terminal_column s \<ge> VGA_WIDTH
                  then s\<lparr>terminal_column := 0, terminal_row := terminal_row s + 1\<rparr> else s) in
         if terminal_row s \<ge> VGA_HEIGHT then terminal_initialise s else s))"

function terminal_write_loop :: "u32 \<Rightarrow> u32 \<Rightarrow> u32 \<Rightarrow> 'a tty_state_scheme \<Rightarrow> 'a tty_state_scheme" where
  "terminal_write_loop str len idx s =
     (if idx < len then terminal_write_loop str len (idx + 1) (terminal_write_char (mem s (str + idx)) s)
      else s)"
  by pat_completeness auto
termination
  by (relation "measure (\<lambda>(p, n, i, s). unat n - unat i)") (auto simp: loop_measure)

declare terminal_write_loop.simps [simp del]

definition terminal_write :: "u32 \<Rightarrow> 'a tty_state_scheme \<Rightarrow> 'a tty_state_scheme option" where
  "terminal_write str s = do {
     len \<leftarrow> strlen (mem s) str;
     Some (terminal_write_loop str len 0 s)
   }"

definition terminal_set_colour :: "u8 \<Rightarrow> 'a tty_state_scheme \<Rightarrow> 'a tty_state_scheme" where
  "terminal_set_colour colour s = s\<lparr>terminal_colour := colour\<rparr>"

text \<open>\<^verbatim>\<open>panic\<close> of \<^verbatim>\<open>kernel.cpp\<close>: after the message it loops for ever.\<close>

definition panic :: "u32 \<Rightarrow> 'a tty_state_scheme \<Rightarrow> 'b option" where
  "panic message s = do {
     s' \<leftarrow> terminal_write message (terminal_set_colour 4 s);
     None
   }"

section \<open>The abstract terminal\<close>

record screen =
  cells :: "u16 list"
  cursor_row :: nat
  cursor_col :: nat
  attr :: u8

definition cell :: "u8 \<Rightarrow> u8 \<Rightarrow> u16" where
  "cell character colour = ucast character OR push_bit 8 (ucast colour)"

definition blank_screen :: screen where
  "blank_screen = \<lparr>cells = replicate 2000 (cell 0x20 7), cursor_row = 0, cursor_col = 0, attr = 7\<rparr>"

definition next_line :: "screen \<Rightarrow> screen" where
  "next_line t = (if cursor_row t < 24 then t\<lparr>cursor_row := cursor_row t + 1, cursor_col := 0\<rparr>
     else blank_screen)"

definition put_char :: "u8 \<Rightarrow> screen \<Rightarrow> screen" where
  "put_char ch t =
     (if ch = 0x0A then next_line t
      else
        (let t = t\<lparr>cells := (cells t)[cursor_row t * 80 + cursor_col t := cell ch (attr t)]\<rparr> in
         if cursor_col t < 79 then t\<lparr>cursor_col := cursor_col t + 1\<rparr> else next_line t))"

definition screen_of :: "'a tty_state_scheme \<Rightarrow> screen" where
  "screen_of s = \<lparr>cells = map (\<lambda>i. load16 (mem s) (elem_addr (terminal_buffer s) 2 i)) [0..<2000],
     cursor_row = unat (terminal_row s), cursor_col = unat (terminal_column s), attr = terminal_colour s\<rparr>"

definition tty_ok :: "'a tty_state_scheme \<Rightarrow> bool" where
  "tty_ok s \<longleftrightarrow> terminal_row s < VGA_HEIGHT \<and> terminal_column s < VGA_WIDTH
     \<and> terminal_buffer s = VGA_MEMORY_START"

definition screen_region :: "u32 set" where
  "screen_region = region VGA_MEMORY_START 4000"

section \<open>Clearing the screen\<close>

definition write_cell :: "u32 \<Rightarrow> u16 \<Rightarrow> nat \<Rightarrow> mem \<Rightarrow> mem" where
  "write_cell buf v i m = store16 m (elem_addr buf 2 i) v"

interpretation tty_cells: array_writer buf 2 2000 "write_cell buf v"
  "\<lambda>i m. load16 m (elem_addr buf 2 i) = v" for buf v
  using half_array [of 2000 buf "\<lambda>_. v"] by (simp add: write_cell_def [abs_def])

lemma vga_entry_cell: "vga_entry ch (ucast colour) = cell ch colour"
  by (rule bit_word_eqI) (auto simp: vga_entry_def cell_def bit_simps)

lemma write_char_at_eq: "terminal_write_char_at ch (of_nat r) (of_nat c) s =
  s\<lparr>mem := write_cell (terminal_buffer s) (cell ch (terminal_colour s)) (r * 80 + c) (mem s)\<rparr>"
  by (simp add: terminal_write_char_at_def write_cell_def elem_addr_def vga_entry_cell kernel_consts
    algebra_simps)

lemma clear_row_eq:
  assumes "c \<le> 80"
  shows "terminal_clear_row (of_nat r) (of_nat c) s =
    s\<lparr>mem := fold (write_cell (terminal_buffer s) (cell 0x20 (terminal_colour s))) [r * 80 + c..<r * 80 + 80] (mem s)\<rparr>"
  using assms
proof (induction "80 - c" arbitrary: c s)
  case 0
  then show ?case by (subst terminal_clear_row.simps) (simp add: kernel_consts)
next
  case (Suc k)
  then have c: "c < 80" by simp
  have "(of_nat c :: u32) < VGA_WIDTH"
    using c by (simp add: kernel_consts word_less_nat_alt unat_of_nat32)
  then show ?case
    using c Suc.hyps(2) Suc.hyps(1) [of "Suc c" "terminal_write_char_at 0x20 (of_nat r) (of_nat c) s"]
    by (subst terminal_clear_row.simps) (simp add: write_char_at_eq add.commute upt_conv_Cons)
qed

lemma clear_eq:
  assumes "y \<le> 25"
  shows "terminal_clear (of_nat y) s =
    s\<lparr>mem := fold (write_cell (terminal_buffer s) (cell 0x20 (terminal_colour s))) [y * 80..<2000] (mem s)\<rparr>"
  using assms
proof (induction "25 - y" arbitrary: y s)
  case 0
  then show ?case by (subst terminal_clear.simps) (simp add: kernel_consts)
next
  case (Suc k)
  then have y: "y < 25" by simp
  have "(of_nat y :: u32) < VGA_HEIGHT"
    using y by (simp add: kernel_consts word_less_nat_alt unat_of_nat32)
  moreover have "[y * 80..<2000] = [y * 80..<y * 80 + 80] @ [Suc y * 80..<2000]"
    using y upt_add_eq_append [of "y * 80" "Suc y * 80" "2000 - Suc y * 80"]
      upt_add_eq_append [of "y * 80" "y * 80 + 80" "2000 - (y * 80 + 80)"] by (simp add: add.commute)
  ultimately show ?case
    using y Suc.hyps(2) Suc.hyps(1) [of "Suc y" "terminal_clear_row (of_nat y) 0 s"] clear_row_eq [of 0 y s]
    by (subst terminal_clear.simps) (simp add: add.commute)
qed

lemma initialise_eq: "terminal_initialise s = s\<lparr>mem := fold (write_cell VGA_MEMORY_START (cell 0x20 7)) [0..<2000] (mem s),
  terminal_row := 0, terminal_column := 0, terminal_colour := 7, terminal_buffer := VGA_MEMORY_START\<rparr>"
  by (simp add: terminal_initialise_def vga_entry_colour_def clear_eq [of 0, simplified])

lemma initialise_screen:
  shows "screen_of (terminal_initialise s) = blank_screen" and "tty_ok (terminal_initialise s)"
  and "same_outside screen_region (mem s) (mem (terminal_initialise s))"
proof -
  show "screen_of (terminal_initialise s) = blank_screen"
    by (simp add: initialise_eq screen_of_def blank_screen_def list_eq_iff_nth_eq tty_cells.fill_ok)
  show "tty_ok (terminal_initialise s)" by (simp add: initialise_eq tty_ok_def kernel_consts)
  show "same_outside screen_region (mem s) (mem (terminal_initialise s))"
    using tty_cells.fill_frame [of 2000 VGA_MEMORY_START "mem s" "cell 0x20 7"]
    by (simp add: initialise_eq screen_region_def)
qed

section \<open>Writing characters\<close>

lemma write_char_at_ok:
  assumes "tty_ok s" and s'_def: "s' = terminal_write_char_at ch (terminal_row s) (terminal_column s) s"
  shows "screen_of s' = (screen_of s)\<lparr>cells := (cells (screen_of s))
      [unat (terminal_row s) * 80 + unat (terminal_column s) := cell ch (terminal_colour s)]\<rparr>"
    and "same_outside screen_region (mem s) (mem s')"
proof -
  let ?b = "VGA_MEMORY_START" and ?i = "unat (terminal_row s) * 80 + unat (terminal_column s)"
  let ?v = "cell ch (terminal_colour s)"
  have b: "terminal_buffer s = ?b" using assms(1) by (simp add: tty_ok_def)
  have s': "s' = s\<lparr>mem := write_cell ?b ?v ?i (mem s)\<rparr>"
    using write_char_at_eq [of ch "unat (terminal_row s)" "unat (terminal_column s)" s]
    by (simp add: s'_def b)
  have i: "?i < 2000"
    using assms(1) by (simp add: tty_ok_def kernel_consts word_less_nat_alt)
  have f: "same_outside (elem_region ?b 2 ?i) (mem s) (write_cell ?b ?v ?i (mem s))"
    using i by (rule tty_cells.wr_frame)
  have "load16 (write_cell ?b ?v ?i (mem s)) (elem_addr ?b 2 j) = load16 (mem s) (elem_addr ?b 2 j)"
    if "j < 2000" "j \<noteq> ?i" for j
    using load16_frame [OF f] elems_apart [of j 2000 ?i 2 ?b] that i by (simp add: elem_region_def)
  then show "screen_of s' = (screen_of s)\<lparr>cells := (cells (screen_of s))[?i := ?v]\<rparr>"
    using i tty_cells.wr_ok [OF i]
    by (auto simp: s' screen_of_def b list_eq_iff_nth_eq nth_list_update)
  show "same_outside screen_region (mem s) (mem s')"
    using f elem_within [OF i, of ?b 2] by (auto simp: s' screen_region_def intro: same_outside_mono)
qed

lemma line_feed:
  assumes "terminal_row s < VGA_HEIGHT" and "terminal_buffer s = VGA_MEMORY_START"
  defines "t \<equiv> s\<lparr>terminal_column := 0, terminal_row := terminal_row s + 1\<rparr>"
  defines "s' \<equiv> (if VGA_HEIGHT \<le> terminal_row t then terminal_initialise t else t)"
  shows "screen_of s' = next_line (screen_of s)" and "tty_ok s'"
    and "same_outside screen_region (mem s) (mem s')"
proof -
  have r: "unat (terminal_row s) < 25" using assms(1) by (simp add: kernel_consts word_less_nat_alt)
  have u: "unat (terminal_row s + 1) = Suc (unat (terminal_row s))" using assms(1) by (rule unat_succ)
  have k: "VGA_HEIGHT \<le> terminal_row t \<longleftrightarrow> 24 \<le> unat (terminal_row s)"
    by (simp add: t_def word_le_nat_alt u) (simp add: kernel_consts)
  show "screen_of s' = next_line (screen_of s)"
    using r u by (simp add: s'_def k initialise_screen) (simp add: t_def next_line_def screen_of_def)
  show "tty_ok s'"
    using initialise_screen(2) [of t] assms(2) by (auto simp: s'_def) (auto simp: t_def tty_ok_def kernel_consts)
  show "same_outside screen_region (mem s) (mem s')"
    using initialise_screen(3) [of t] by (simp add: s'_def t_def)
qed

text \<open>One character: the memory code does what the abstract terminal does.\<close>

lemma write_char_ok:
  assumes "tty_ok s"
  shows "screen_of (terminal_write_char ch s) = put_char ch (screen_of s)
    \<and> tty_ok (terminal_write_char ch s)
    \<and> same_outside screen_region (mem s) (mem (terminal_write_char ch s))"
proof (cases "ch = 0x0A")
  case True
  then have e: "terminal_write_char ch s = (let t = s\<lparr>terminal_column := 0, terminal_row := terminal_row s + 1\<rparr>
      in if VGA_HEIGHT \<le> terminal_row t then terminal_initialise t else t)"
    by (simp add: terminal_write_char_def)
  have l: "terminal_row s < VGA_HEIGHT" "terminal_buffer s = VGA_MEMORY_START"
    using assms by (simp_all add: tty_ok_def)
  show ?thesis using line_feed [OF l] True unfolding e Let_def by (simp add: put_char_def)
next
  case False
  define s1 where "s1 = terminal_write_char_at ch (terminal_row s) (terminal_column s) s"
  note w = write_char_at_ok [OF assms s1_def]
  have f: "terminal_row s1 = terminal_row s" "terminal_column s1 = terminal_column s"
    "terminal_buffer s1 = terminal_buffer s" "terminal_colour s1 = terminal_colour s"
    by (simp_all add: s1_def terminal_write_char_at_def Let_def)
  have c: "unat (terminal_column s) < 80" using assms by (simp add: tty_ok_def kernel_consts word_less_nat_alt)
  have u: "unat (terminal_column s + 1) = Suc (unat (terminal_column s))"
    using assms unat_succ [of "terminal_column s" VGA_WIDTH] by (simp add: tty_ok_def)
  show ?thesis
  proof (cases "unat (terminal_column s) < 79")
    case True
    then have "\<not> VGA_WIDTH \<le> terminal_column s + 1"
      by (simp add: word_le_nat_alt u) (simp add: kernel_consts)
    then have e: "terminal_write_char ch s = s1\<lparr>terminal_column := terminal_column s + 1\<rparr>"
      using False assms by (auto simp: terminal_write_char_def s1_def [symmetric] f tty_ok_def Let_def)
    have "screen_of (terminal_write_char ch s) = put_char ch (screen_of s)"
      using w(1) True False u f by (simp add: e put_char_def screen_of_def)
    then show ?thesis using w(2) assms f \<open>\<not> VGA_WIDTH \<le> _\<close> by (simp add: e tty_ok_def)
  next
    case last: False
    then have "VGA_WIDTH \<le> terminal_column s + 1"
      by (simp add: word_le_nat_alt u) (simp add: kernel_consts)
    then have e: "terminal_write_char ch s = (let t = s1\<lparr>terminal_column := 0, terminal_row := terminal_row s1 + 1\<rparr>
        in if VGA_HEIGHT \<le> terminal_row t then terminal_initialise t else t)"
      using False by (simp add: terminal_write_char_def s1_def [symmetric] f)
    have l: "terminal_row s1 < VGA_HEIGHT" "terminal_buffer s1 = VGA_MEMORY_START"
      using assms f by (simp_all add: tty_ok_def)
    have "put_char ch (screen_of s) = next_line (screen_of s1)"
      using last False w(1) by (simp add: put_char_def) (simp add: screen_of_def)
    moreover have "same_outside screen_region (mem s) (mem (terminal_write_char ch s))"
      using same_outside_trans [OF w(2) line_feed(3) [OF l]] by (simp add: e Let_def)
    ultimately show ?thesis using line_feed(1,2) [OF l] by (simp add: e Let_def)
  qed
qed

lemmas write_char_screen = write_char_ok [THEN conjunct1]
lemmas write_char_tty_ok = write_char_ok [THEN conjunct2, THEN conjunct1]
lemmas write_char_frame = write_char_ok [THEN conjunct2, THEN conjunct2]

section \<open>Writing strings\<close>

lemma write_loop_ok:
  assumes "region str (Suc (length bs)) \<inter> screen_region = {}" and "length bs < 2 ^ 32"
    and "tty_ok s" and "cstring (mem s) str bs" and "i \<le> length bs"
    and "t = terminal_write_loop str (of_nat (length bs)) (of_nat i) s"
  shows "screen_of t = fold put_char (drop i bs) (screen_of s) \<and> tty_ok t
    \<and> same_outside screen_region (mem s) (mem t)"
  using assms(3-6)
proof (induction "length bs - i" arbitrary: i s)
  case 0
  then have "i = length bs" by simp
  then have "t = s" using 0(5) by (simp add: terminal_write_loop.simps [of str "of_nat (length bs)"])
  then show ?case using 0 by simp
next
  case (Suc k)
  then have i: "i < length bs" by simp
  then have lt: "(of_nat i :: u32) < of_nat (length bs)"
    using assms(2) by (simp add: word_less_nat_alt unat_of_nat32)
  have ch: "mem s (str + of_nat i) = bs ! i" using Suc.prems(2) i by (rule cstring_nth)
  let ?s = "terminal_write_char (bs ! i) s"
  note w = write_char_ok [OF Suc.prems(1), of "bs ! i"]
  have t: "t = terminal_write_loop str (of_nat (length bs)) (of_nat (Suc i)) ?s"
    using Suc.prems(4) lt ch
    by (simp add: terminal_write_loop.simps [of str "of_nat (length bs)" "of_nat i"] add.commute)
  have "cstring (mem ?s) str bs"
    using w assms(1) Suc.prems(2) by (blast intro: cstring_frame)
  with Suc.hyps(1) [of "Suc i" ?s] Suc.hyps(2) i t w
  have "screen_of t = fold put_char (drop (Suc i) bs) (screen_of ?s) \<and> tty_ok t
    \<and> same_outside screen_region (mem ?s) (mem t)" by simp
  then show ?case using w i same_outside_trans [of screen_region "mem s" "mem ?s" screen_region "mem t"]
    by (simp add: Cons_nth_drop_Suc [symmetric])
qed

text \<open>A C string that does not lie on the screen is written character by character.\<close>

lemma terminal_write_ok:
  assumes "tty_ok s" and "cstring (mem s) str bs" and "region str (Suc (length bs)) \<inter> screen_region = {}"
  obtains s' where "terminal_write str s = Some s'"
    and "screen_of s' = fold put_char bs (screen_of s)" and "tty_ok s'"
    and "same_outside screen_region (mem s) (mem s')"
proof -
  have "length bs < 2 ^ 32" using assms(2) by (simp add: cstring_def)
  from write_loop_ok [OF assms(3) this assms(1,2), of 0] show ?thesis
    using that strlen_cstring [OF assms(2)] by (auto simp: terminal_write_def)
qed

text \<open>Writing changes the terminal's own fields and memory, nothing else of the state.\<close>

lemma write_char_state:
  obtains m r c l b where "terminal_write_char ch s = s\<lparr>mem := m, terminal_row := r, terminal_column := c, terminal_colour := l, terminal_buffer := b\<rparr>"
proof
  show "terminal_write_char ch s = s\<lparr>mem := mem (terminal_write_char ch s), terminal_row := terminal_row (terminal_write_char ch s),
    terminal_column := terminal_column (terminal_write_char ch s), terminal_colour := terminal_colour (terminal_write_char ch s),
    terminal_buffer := terminal_buffer (terminal_write_char ch s)\<rparr>"
    by (simp add: terminal_write_char_def terminal_write_char_at_def initialise_eq Let_def)
qed

lemma write_loop_state:
  "\<exists>m r c l b. terminal_write_loop p n i s = s\<lparr>mem := m, terminal_row := r, terminal_column := c, terminal_colour := l, terminal_buffer := b\<rparr>"
proof (induction p n i s rule: terminal_write_loop.induct)
  case (1 p n i s)
  show ?case
  proof (cases "i < n")
    case True
    let ?s = "terminal_write_char (mem s (p + i)) s"
    obtain m r c l b where "?s = s\<lparr>mem := m, terminal_row := r, terminal_column := c, terminal_colour := l, terminal_buffer := b\<rparr>"
      by (rule write_char_state)
    moreover obtain m' r' c' l' b' where "terminal_write_loop p n (i + 1) ?s
        = ?s\<lparr>mem := m', terminal_row := r', terminal_column := c', terminal_colour := l', terminal_buffer := b'\<rparr>" using 1 [OF True] by blast
    ultimately have "terminal_write_loop p n i s
        = s\<lparr>mem := m', terminal_row := r', terminal_column := c', terminal_colour := l', terminal_buffer := b'\<rparr>"
      using True by (subst terminal_write_loop.simps) simp
    then show ?thesis by blast
  next
    case False
    then have "terminal_write_loop p n i s = s\<lparr>mem := mem s, terminal_row := terminal_row s, terminal_column := terminal_column s,
      terminal_colour := terminal_colour s, terminal_buffer := terminal_buffer s\<rparr>" by (subst terminal_write_loop.simps) simp
    then show ?thesis by blast
  qed
qed

lemma terminal_write_state:
  assumes "terminal_write str s = Some s'"
  obtains m r c l b where "s' = s\<lparr>mem := m, terminal_row := r, terminal_column := c, terminal_colour := l, terminal_buffer := b\<rparr>"
proof -
  obtain n where "s' = terminal_write_loop str n 0 s" using assms by (auto simp: terminal_write_def split: bind_splits)
  with write_loop_state [of str n 0 s] that show ?thesis by blast
qed

lemma panic_never_returns: "panic message s = None"
  by (simp add: panic_def bind_eq_None_conv)

section \<open>The abstract terminal keeps its shape\<close>

definition screen_ok :: "screen \<Rightarrow> bool" where
  "screen_ok t \<longleftrightarrow> length (cells t) = 2000 \<and> cursor_row t < 25 \<and> cursor_col t < 80"

lemma put_char_ok: "screen_ok t \<Longrightarrow> screen_ok (put_char ch t)"
  by (auto simp: screen_ok_def put_char_def next_line_def blank_screen_def Let_def)

lemma screen_of_ok: "tty_ok s \<Longrightarrow> screen_ok (screen_of s)"
  by (simp add: tty_ok_def screen_ok_def screen_of_def kernel_consts word_less_nat_alt)

section \<open>Properties\<close>

definition sample_tty :: "mem \<Rightarrow> tty_state" where
  "sample_tty m = \<lparr>mem = m, io_log = [], terminal_row = 0, terminal_column = 0, terminal_colour = 7,
     terminal_buffer = 0xB8000\<rparr>"

lemma sample_tty_ok: "tty_ok (sample_tty m)"
  by (simp add: sample_tty_def tty_ok_def kernel_consts)

definition sample_text :: mem where
  "sample_text = write_bytes (\<lambda>_. 0) 0x100 ([0x48, 0x69, 0x0A] @ [0])"

lemma sample_text_string: "cstring (mem (sample_tty sample_text)) 0x100 [0x48, 0x69, 0x0A]"
  unfolding sample_tty_def sample_text_def tty_state.simps mach.simps by (rule cstring_write) simp_all

lemma sample_text_off_screen: "region 0x100 (Suc (length [0x48, 0x69, 0x0A :: u8])) \<inter> screen_region = {}"
  by (auto simp: screen_region_def kernel_consts region_interval)

text \<open>\<^verbatim>\<open>terminal_initialise\<close> clears all 25 rows of 80 cells to light grey blanks, puts the cursor at
  the top left, whatever the state was, and writes only screen memory.\<close>

lemma terminal_initialise_blank:
  "screen_of (terminal_initialise s) = blank_screen \<and> tty_ok (terminal_initialise s)
   \<and> same_outside screen_region (mem s) (mem (terminal_initialise s))"
  by (simp add: initialise_screen)

text \<open>Writing one character refines the abstract terminal: the cell under the cursor is set, the
  cursor moves on and wraps, a full screen is cleared; the cursor stays on the screen and only screen
  memory is written.\<close>

lemma terminal_write_char_refines:
  assumes "tty_ok s"
  shows "screen_of (terminal_write_char ch s) = put_char ch (screen_of s) \<and> tty_ok (terminal_write_char ch s)
    \<and> same_outside screen_region (mem s) (mem (terminal_write_char ch s))"
  using assms by (rule write_char_ok)

text \<open>C20: \<^verbatim>\<open>terminal_write\<close> of a C string that does not lie on the screen returns and writes exactly its
  characters, one after the other.\<close>

theorem terminal_write_refines:
  assumes "tty_ok s" and "cstring (mem s) str bs" and "region str (Suc (length bs)) \<inter> screen_region = {}"
  shows "\<exists>s'. terminal_write str s = Some s' \<and> screen_of s' = fold put_char bs (screen_of s) \<and> tty_ok s'
    \<and> same_outside screen_region (mem s) (mem s')"
  using terminal_write_ok [OF assms] by metis

theorem terminal_write_refines_witness:
  "\<exists>s'. terminal_write 0x100 (sample_tty sample_text) = Some s'
    \<and> screen_of s' = fold put_char [0x48, 0x69, 0x0A] (screen_of (sample_tty sample_text))"
  using terminal_write_refines [OF sample_tty_ok sample_text_string sample_text_off_screen] by blast

end
