(* ===== verification/Idt.thy ===== *)
theory Idt
  imports Tty
begin

text \<open>
  \<^verbatim>\<open>kernel/arch/i386/idt/idt.cpp\<close>: the interrupt descriptor table, its initialisation, and the three
  handlers written in C++. The table \<^verbatim>\<open>idt_descs\<close> lies in memory at its link address, which is a field
  of the state; the entry points \<^verbatim>\<open>no_interrupt\<close> and \<^verbatim>\<open>int21h\<close> (assembly) and the address of
  \<^verbatim>\<open>idt_zero\<close> are parameters, as the linker chooses them. \<^verbatim>\<open>idt_load\<close> copies the descriptor into the
  processor's IDTR.

  The specification is the gate the processor finds for a vector: \<open>gate_target\<close> puts the two halves
  of the handler address together.
\<close>

section \<open>Definitions\<close>

definition KERNEL_CODE_SELECTOR :: u16 where
  [kernel_consts]: "KERNEL_CODE_SELECTOR = 0x08"

definition NOOBOS_TOTAL_INTERRUPTS :: u32 where
  [kernel_consts]: "NOOBOS_TOTAL_INTERRUPTS = 512"

definition MASTER_PIC_CONTROL_COMMAND_IO_PORT :: u16 where
  [kernel_consts]: "MASTER_PIC_CONTROL_COMMAND_IO_PORT = 0x20"

definition PIC_END_OF_INTERRUPT_COMMAND :: u8 where
  [kernel_consts]: "PIC_END_OF_INTERRUPT_COMMAND = 0x20"

record idtr_descriptor =
  idtr_limit :: u16
  idtr_base :: u32

record idt_state = tty_state +
  idt_descs :: u32
  idtr_desc :: idtr_descriptor
  cpu_idtr :: idtr_descriptor

text \<open>The handlers. Their string literals lie where the linker put them.\<close>

definition int21h_handler :: "u32 \<Rightarrow> 'a tty_state_scheme \<Rightarrow> 'a tty_state_scheme option" where
  "int21h_handler keyboard_pressed s = do {
     s \<leftarrow> terminal_write keyboard_pressed s;
     Some (outb MASTER_PIC_CONTROL_COMMAND_IO_PORT PIC_END_OF_INTERRUPT_COMMAND s)
   }"

definition no_interrupt_handler :: "'a mach_scheme \<Rightarrow> 'a mach_scheme" where
  "no_interrupt_handler s = outb MASTER_PIC_CONTROL_COMMAND_IO_PORT PIC_END_OF_INTERRUPT_COMMAND s"

definition idt_zero :: "u32 \<Rightarrow> 'a tty_state_scheme \<Rightarrow> 'a tty_state_scheme option" where
  "idt_zero divide_by_zero s = terminal_write divide_by_zero s"

text \<open>The fields of a descriptor are at offsets 0 (\<^verbatim>\<open>offset_1\<close>), 2 (\<^verbatim>\<open>selector\<close>), 4 (\<^verbatim>\<open>zero\<close>),
  5 (\<^verbatim>\<open>type_attributes\<close>) and 6 (\<^verbatim>\<open>offset_2\<close>); the structure is packed, 8 bytes.\<close>

definition idt_set :: "u32 \<Rightarrow> u32 \<Rightarrow> 'a idt_state_scheme \<Rightarrow> 'a idt_state_scheme" where
  "idt_set interrupt_number address s =
     (let desc = idt_descs s + interrupt_number * 8;
          m = mem s;
          m = store16 m desc (ucast (address AND 0x0000FFFF));
          m = store16 m (desc + 2) KERNEL_CODE_SELECTOR;
          m = store8 m (desc + 4) 0;
          m = store8 m (desc + 5) 0xEE;
          m = store16 m (desc + 6) (ucast (drop_bit 16 address))
      in s\<lparr>mem := m\<rparr>)"

function idt_init_loop :: "u32 \<Rightarrow> u32 \<Rightarrow> 'a idt_state_scheme \<Rightarrow> 'a idt_state_scheme" where
  "idt_init_loop no_interrupt i s =
     (if i < NOOBOS_TOTAL_INTERRUPTS then idt_init_loop no_interrupt (i + 1) (idt_set i no_interrupt s) else s)"
  by pat_completeness auto
termination
  by (relation "measure (\<lambda>(f, i, s). unat NOOBOS_TOTAL_INTERRUPTS - unat i)") (auto simp: loop_measure)

declare idt_init_loop.simps [simp del]

definition idt_load :: "idtr_descriptor \<Rightarrow> 'a idt_state_scheme \<Rightarrow> 'a idt_state_scheme" where
  "idt_load d s = s\<lparr>cpu_idtr := d\<rparr>"

definition idt_init :: "u32 \<Rightarrow> u32 \<Rightarrow> u32 \<Rightarrow> 'a idt_state_scheme \<Rightarrow> 'a idt_state_scheme" where
  "idt_init no_interrupt idt_zero_address int21h s =
     (let sizeof_idt_descs = NOOBOS_TOTAL_INTERRUPTS * 8;
          s = s\<lparr>mem := memset (mem s) (idt_descs s) 0 sizeof_idt_descs\<rparr>;
          s = s\<lparr>idtr_desc := \<lparr>idtr_limit = ucast (sizeof_idt_descs - 1), idtr_base = idt_descs s\<rparr>\<rparr>;
          s = idt_init_loop no_interrupt 0 s;
          s = idt_set 0 idt_zero_address s;
          s = idt_set 0x21 int21h s
      in idt_load (idtr_desc s) s)"

section \<open>What the processor reads\<close>

record gate =
  gate_target :: u32
  gate_selector :: u16
  gate_type :: u8

definition gate_at :: "mem \<Rightarrow> u32 \<Rightarrow> gate" where
  "gate_at m p = \<lparr>gate_target = ucast (load16 m p) OR push_bit 16 (ucast (load16 m (p + 6))),
     gate_selector = load16 m (p + 2), gate_type = m (p + 5)\<rparr>"

text \<open>A vector the table covers is served by its gate; beyond the limit the processor faults.\<close>

definition idt_lookup :: "'a idt_state_scheme \<Rightarrow> u8 \<Rightarrow> gate option" where
  "idt_lookup s vector =
     (if unat vector * 8 + 7 \<le> unat (idtr_limit (cpu_idtr s))
      then Some (gate_at (mem s) (elem_addr (idtr_base (cpu_idtr s)) 8 (unat vector))) else None)"

definition interrupt_gate :: "u32 \<Rightarrow> gate" where
  "interrupt_gate address = \<lparr>gate_target = address, gate_selector = KERNEL_CODE_SELECTOR, gate_type = 0xEE\<rparr>"

section \<open>Setting one gate\<close>

definition write_gate :: "u32 \<Rightarrow> u32 \<Rightarrow> nat \<Rightarrow> mem \<Rightarrow> mem" where
  "write_gate base address i m =
     (let desc = elem_addr base 8 i;
          m = store16 m desc (ucast (address AND 0x0000FFFF));
          m = store16 m (desc + 2) KERNEL_CODE_SELECTOR;
          m = store8 m (desc + 4) 0;
          m = store8 m (desc + 5) 0xEE
      in store16 m (desc + 6) (ucast (drop_bit 16 address)))"

lemma idt_set_eq: "idt_set (of_nat i) address s = s\<lparr>mem := write_gate (idt_descs s) address i (mem s)\<rparr>"
  by (simp add: idt_set_def write_gate_def elem_addr_def Let_def mult.commute)

lemma halves:
  fixes a :: u32
  shows "ucast (ucast (a AND 0xFFFF) :: u16) OR push_bit 16 (ucast (ucast (drop_bit 16 a) :: u16)) = a"
  by (rule bit_word_eqI) (auto simp: and_masks bit_simps)

lemma half_bytes:
  fixes v :: u16
  shows "ucast (ucast v :: u8) OR push_bit 8 (ucast (ucast (drop_bit 8 v) :: u8)) = v"
  by (rule bit_word_eqI) (auto simp: bit_simps)

lemma gate_at_write: "gate_at (write_gate base address i m) (elem_addr base 8 i) = interrupt_gate address"
  by (simp add: gate_at_def interrupt_gate_def write_gate_def Let_def load16_def store16_def store8_def
    half_bytes halves)

lemma gate_region_offsets:
  "p \<in> region p 8" "p + 1 \<in> region p 8" "p + 2 \<in> region p 8" "p + 3 \<in> region p 8"
  "p + 4 \<in> region p 8" "p + 5 \<in> region p 8" "p + 6 \<in> region p 8" "p + 7 \<in> region p 8"
  "3 + p \<in> region p 8" "7 + p \<in> region p 8"
  by (simp_all add: mem_region)

lemma write_gate_frame: "same_outside (elem_region base 8 i) m (write_gate base address i m)"
  using gate_region_offsets [of "elem_addr base 8 i"]
  by (auto simp: same_outside_def elem_region_def write_gate_def Let_def store16_def store8_def)

lemma gate_at_frame:
  assumes "same_outside R m m'" and "region p 8 \<inter> R = {}"
  shows "gate_at m' p = gate_at m p"
proof -
  have "m' a = m a" if "a \<in> region p 8" for a using that assms by (auto simp: same_outside_def)
  then show ?thesis using gate_region_offsets [of p] by (simp add: gate_at_def load16_def)
qed

section \<open>The whole table\<close>

interpretation idt_table: array_writer base 8 512 "write_gate base address"
  "\<lambda>i m. gate_at m (elem_addr base 8 i) = interrupt_gate address" for base address
  by unfold_locales (simp_all add: write_gate_frame [unfolded elem_region_def] gate_at_write gate_at_frame elem_region_def)

lemma idt_init_loop_eq:
  assumes "i \<le> 512"
  shows "idt_init_loop address (of_nat i) s = s\<lparr>mem := fold (write_gate (idt_descs s) address) [i..<512] (mem s)\<rparr>"
  using assms
proof (induction "512 - i" arbitrary: i s)
  case 0
  then show ?case by (subst idt_init_loop.simps) (simp add: kernel_consts)
next
  case (Suc k)
  then have i: "i < 512" by simp
  have "(of_nat i :: u32) < NOOBOS_TOTAL_INTERRUPTS"
    using i by (simp add: kernel_consts word_less_nat_alt unat_of_nat32)
  then show ?case using i Suc.hyps(2) Suc.hyps(1) [of "Suc i" "idt_set (of_nat i) address s"]
    by (subst idt_init_loop.simps) (simp add: idt_set_eq add.commute upt_conv_Cons)
qed

definition idt_vector :: "u32 \<Rightarrow> u32 \<Rightarrow> u32 \<Rightarrow> nat \<Rightarrow> u32" where
  "idt_vector no_int zero_div int21 i = (if i = 0x21 then int21 else if i = 0 then zero_div else no_int)"

definition idt_memory :: "u32 \<Rightarrow> u32 \<Rightarrow> u32 \<Rightarrow> u32 \<Rightarrow> mem \<Rightarrow> mem" where
  "idt_memory base no_int zero_div int21 m = write_gate base int21 0x21 (write_gate base zero_div 0
     (fold (write_gate base no_int) [0..<512] (memset m base 0 4096)))"

lemma idt_init_eq: "idt_init no_int zero_div int21 s =
  s\<lparr>mem := idt_memory (idt_descs s) no_int zero_div int21 (mem s),
    idtr_desc := \<lparr>idtr_limit = 4095, idtr_base = idt_descs s\<rparr>,
    cpu_idtr := \<lparr>idtr_limit = 4095, idtr_base = idt_descs s\<rparr>\<rparr>"
  using idt_init_loop_eq [of 0 no_int "s\<lparr>mem := memset (mem s) (idt_descs s) 0 4096,
      idtr_desc := \<lparr>idtr_limit = 4095, idtr_base = idt_descs s\<rparr>\<rparr>"]
  by (simp add: idt_init_def idt_load_def idt_memory_def kernel_consts Let_def
    idt_set_eq [of 0, simplified] idt_set_eq [of 33, simplified])

lemma gate_at_other:
  assumes "i < 512" and "j < 512" and "j \<noteq> i"
  shows "gate_at (write_gate base a j m) (elem_addr base 8 i) = gate_at m (elem_addr base 8 i)"
  using gate_at_frame [OF write_gate_frame [of base j m a]] elems_apart [of i 512 j 8 base] assms
  by (simp add: elem_region_def)

lemma idt_memory_gate:
  assumes "i < 512"
  shows "gate_at (idt_memory base no_int zero_div int21 m) (elem_addr base 8 i) =
    interrupt_gate (idt_vector no_int zero_div int21 i)"
proof -
  have "gate_at (fold (write_gate base no_int) [0..<512] m') (elem_addr base 8 i) = interrupt_gate no_int" for m'
    using assms by (rule idt_table.fill_ok) simp
  then show ?thesis using assms
    by (cases "i = 0x21"; cases "i = 0")
      (simp_all add: idt_memory_def idt_vector_def gate_at_write gate_at_other)
qed

lemma idt_memory_frame: "same_outside (region base 4096) m (idt_memory base no_int zero_div int21 m)"
proof -
  have w: "same_outside (region base 4096) m' (write_gate base a j m')" if "j < 512" for a j m'
    using same_outside_mono [OF write_gate_frame elem_within [of j 512 base 8]] that by simp
  have f: "same_outside (region base 4096) m' (fold (write_gate base no_int) [0..<512] m')" for m'
    using idt_table.fill_frame [of 512 base m' no_int] by simp
  have "same_outside (region base 4096) m (memset m base 0 4096)"
    using memset_outside [of base 4096 m 0] by simp
  from same_outside_trans [OF same_outside_trans [OF same_outside_trans [OF this f] w] w, of 0 "0x21"]
  show ?thesis by (simp add: idt_memory_def)
qed

text \<open>After initialisation every vector of the processor has its gate.\<close>

lemma idt_init_lookup: "idt_lookup (idt_init no_int zero_div int21 s) v =
  Some (interrupt_gate (idt_vector no_int zero_div int21 (unat v)))"
proof -
  have "unat v < 256" using unsigned_less [where 'a = nat, of v] by simp
  then show ?thesis by (simp add: idt_lookup_def idt_init_eq idt_memory_gate)
qed

text \<open>Every handler that returns has acknowledged the interrupt controller, exactly once.\<close>

lemma write_loop_io_log [simp]: "io_log (terminal_write_loop str len i s) = io_log s"
proof (induction str len i s rule: terminal_write_loop.induct)
  case (1 str len i s)
  have "io_log (terminal_clear_row y x t) = io_log t" for y x and t :: "'a tty_state_scheme"
    by (induction y x t rule: terminal_clear_row.induct)
      (subst terminal_clear_row.simps, simp add: terminal_write_char_at_def Let_def)
  then have "io_log (terminal_clear y t) = io_log t" for y and t :: "'a tty_state_scheme"
    by (induction y t rule: terminal_clear.induct) (subst terminal_clear.simps, simp)
  then have "io_log (terminal_write_char ch t) = io_log t" for ch and t :: "'a tty_state_scheme"
    by (simp add: terminal_write_char_def terminal_initialise_def terminal_write_char_at_def Let_def)
  with 1 show ?case by (subst terminal_write_loop.simps) simp
qed

lemma handlers_acknowledge:
  "io_log (no_interrupt_handler s) = io_log s @ [OutB 0x20 0x20]"
  "int21h_handler msg t = Some t' \<Longrightarrow> io_log t' = io_log t @ [OutB 0x20 0x20]"
  by (auto simp: no_interrupt_handler_def int21h_handler_def outb_def kernel_consts terminal_write_def
    split: bind_splits)

section \<open>Properties\<close>

text \<open>C16: after \<^verbatim>\<open>idt_init\<close> every one of the processor's 256 vectors has a present interrupt gate in the
  kernel code segment whose two offset halves form the address of its handler: the keyboard handler for
  0x21, the division handler for 0, the default handler for the rest. Only the table is written.\<close>

theorem idt_init_gates:
  "idt_lookup (idt_init no_interrupt zero_handler int21h s) v =
     Some \<lparr>gate_target = (if v = 0x21 then int21h else if v = 0 then zero_handler else no_interrupt),
       gate_selector = 0x08, gate_type = 0xEE\<rparr>
   \<and> same_outside (region (idt_descs s) 4096) (mem s) (mem (idt_init no_interrupt zero_handler int21h s))"
proof -
  have "unat v = 0x21 \<longleftrightarrow> v = 0x21" "unat v = 0 \<longleftrightarrow> v = 0"
    by (simp_all add: word_unat_eq_iff)
  then show ?thesis using idt_init_lookup [of no_interrupt zero_handler int21h s v] idt_memory_frame
    by (simp add: idt_init_eq interrupt_gate_def idt_vector_def KERNEL_CODE_SELECTOR_def)
qed

text \<open>The keyboard handler writes its message and then acknowledges the interrupt controller with
  exactly one end-of-interrupt command.\<close>

lemma int21h_handler_acknowledges:
  fixes s :: "'a tty_state_scheme"
  assumes "tty_ok s" and "cstring (mem s) str bs" and "region str (Suc (length bs)) \<inter> screen_region = {}"
  shows "\<exists>s'. int21h_handler str s = Some s' \<and> io_log s' = io_log s @ [OutB 0x20 0x20]
    \<and> screen_of s' = fold put_char bs (screen_of s) \<and> tty_ok s'"
proof -
  obtain s1 where s1: "terminal_write str s = Some s1" "screen_of s1 = fold put_char bs (screen_of s)" "tty_ok s1"
    using terminal_write_ok [OF assms] by metis
  have "int21h_handler str s = Some (outb 0x20 0x20 s1)" using s1(1) by (simp add: int21h_handler_def kernel_consts)
  moreover have "io_log (outb 0x20 0x20 s1) = io_log s @ [OutB 0x20 0x20]"
    using handlers_acknowledge(2) [OF calculation] .
  moreover have "screen_of (outb 0x20 0x20 s1) = screen_of s1" "tty_ok (outb 0x20 0x20 s1) = tty_ok s1"
    by (simp_all add: outb_def screen_of_def tty_ok_def)
  ultimately show ?thesis using s1 by auto
qed

end
