(* ===== verification/Kheap.thy ===== *)
theory Kheap
  imports Heap_Correct Idt
begin

text \<open>
  \<^verbatim>\<open>kernel/mm/heap/heap_strategy_factory.cpp\<close> and \<^verbatim>\<open>kernel/mm/heap/kheap.cpp\<close>: the kernel heap, its
  function-pointer table and \<^verbatim>\<open>kmalloc\<close>, \<^verbatim>\<open>kzalloc\<close> and \<^verbatim>\<open>kfree\<close>. A null function pointer is
  \<^term>\<open>None\<close>, and calling it does not return.

  The second half states what the rest of the kernel relies on as the locale \<open>allocator\<close>, proves the
  client patterns once from it (a scratch buffer leaves no trace, a new block never overlaps a live
  one, writing one's own block disturbs nobody) and interprets it on the kernel heap.
\<close>

section \<open>Definitions\<close>

record heap_strategy =
  strategy_create :: "(heap \<Rightarrow> u32 \<Rightarrow> u32 \<Rightarrow> heap_table \<Rightarrow> mem \<Rightarrow> u32 \<times> heap \<times> mem) option"
  strategy_malloc :: "(heap \<Rightarrow> mem \<Rightarrow> u32 \<Rightarrow> (u32 \<times> mem) option) option"
  strategy_free :: "(heap \<Rightarrow> mem \<Rightarrow> u32 \<Rightarrow> mem) option"

record kheap_state = idt_state +
  kernel_heap :: heap
  kernel_heap_table :: heap_table
  strategy :: heap_strategy

definition set_strategy :: "heap_strategy \<Rightarrow> heap_strategy" where
  "set_strategy st = st\<lparr>strategy_malloc := Some heap_malloc, strategy_free := Some heap_free\<rparr>"

definition make_strategy :: "heap_algorithm \<Rightarrow> heap_strategy \<Rightarrow> heap_strategy" where
  "make_strategy algorithm st =
     (let st = (case algorithm of find_first \<Rightarrow> set_strategy st | unknown \<Rightarrow> st)
      in st\<lparr>strategy_create := Some default_heap_create\<rparr>)"

text \<open>The result of \<^verbatim>\<open>create\<close> is looked at and ignored.\<close>

definition kheap_init :: "'a kheap_state_scheme \<Rightarrow> 'a kheap_state_scheme option" where
  "kheap_init s = do {
     let total_table_entries = HEAP_SIZE_BYTES div HEAP_BLOCK_SIZE;
     let tab = \<lparr>entries = HEAP_TABLE_ADDRESS, total_entries = total_table_entries\<rparr>;
     let end_ptr = HEAP_ADDRESS + HEAP_SIZE_BYTES;
     let st = make_strategy HEAP_ALGORITHM (strategy s);
     f \<leftarrow> strategy_create st;
     let (create_result, h, m) = f (kernel_heap s) HEAP_ADDRESS end_ptr tab (mem s);
     Some (s\<lparr>mem := m, kernel_heap := h, kernel_heap_table := tab, strategy := st\<rparr>)
   }"

definition kmalloc :: "u32 \<Rightarrow> 'a kheap_state_scheme \<Rightarrow> (u32 \<times> 'a kheap_state_scheme) option" where
  "kmalloc sz s = do {
     f \<leftarrow> strategy_malloc (strategy s);
     (p, m) \<leftarrow> f (kernel_heap s) (mem s) sz;
     Some (p, s\<lparr>mem := m\<rparr>)
   }"

definition kzalloc :: "u32 \<Rightarrow> 'a kheap_state_scheme \<Rightarrow> (u32 \<times> 'a kheap_state_scheme) option" where
  "kzalloc sz s = do {
     (allocated, s) \<leftarrow> kmalloc sz s;
     Some (allocated, s\<lparr>mem := memset (mem s) allocated 0x00 sz\<rparr>)
   }"

definition kfree :: "u32 \<Rightarrow> 'a kheap_state_scheme \<Rightarrow> 'a kheap_state_scheme option" where
  "kfree ptr s = do {
     f \<leftarrow> strategy_free (strategy s);
     Some (s\<lparr>mem := f (kernel_heap s) (mem s) ptr\<rparr>)
   }"

section \<open>The interface of the heap\<close>

text \<open>What a client may rely on. \<open>meta\<close> is the memory the allocator keeps its books in, \<open>live\<close> the
  blocks handed out (address and size in bytes), \<open>room\<close> says that a request can be met.\<close>

locale allocator =
  fixes mem_of :: "'s \<Rightarrow> mem"
    and put_mem :: "mem \<Rightarrow> 's \<Rightarrow> 's"
    and alloc :: "u32 \<Rightarrow> 's \<Rightarrow> (u32 \<times> 's) option"
    and release :: "u32 \<Rightarrow> 's \<Rightarrow> 's option"
    and inv :: "'s \<Rightarrow> bool"
    and meta :: "u32 set"
    and live :: "'s \<Rightarrow> (u32 \<times> nat) set"
    and room :: "'s \<Rightarrow> u32 \<Rightarrow> bool"
  assumes mem_put [simp]: "mem_of (put_mem m s) = m"
    and put_put [simp]: "put_mem m (put_mem m' s) = put_mem m s"
    and alloc_spec: "inv s \<Longrightarrow> room s sz \<Longrightarrow>
      \<exists>p k m'. alloc sz s = Some (p, put_mem m' s) \<and> inv (put_mem m' s)
        \<and> live (put_mem m' s) = insert (p, k) (live s) \<and> unat sz \<le> k \<and> k \<le> 2 ^ 32
        \<and> (\<forall>a \<in> region p k. m' a = 0)
        \<and> region p k \<inter> meta = {} \<and> (\<forall>(q, j) \<in> live s. region p k \<inter> region q j = {})
        \<and> same_outside (region p k \<union> meta) (mem_of s) m'"
    and release_spec: "inv s \<Longrightarrow> (p, k) \<in> live s \<Longrightarrow>
      \<exists>m'. release p s = Some (put_mem m' s) \<and> inv (put_mem m' s)
        \<and> live (put_mem m' s) = live s - {(p, k)} \<and> same_outside meta (mem_of s) m'"
    and client_write: "inv s \<Longrightarrow> same_outside R (mem_of s) m' \<Longrightarrow> R \<inter> meta = {}
      \<Longrightarrow> inv (put_mem m' s) \<and> live (put_mem m' s) = live s \<and> room (put_mem m' s) = room s"
    and live_apart: "inv s \<Longrightarrow> (p, k) \<in> live s \<Longrightarrow> (q, j) \<in> live s \<Longrightarrow> (p, k) \<noteq> (q, j)
      \<Longrightarrow> region p k \<inter> region q j = {}"
    and live_off_meta: "inv s \<Longrightarrow> (p, k) \<in> live s \<Longrightarrow> region p k \<inter> meta = {}"
    and live_small: "inv s \<Longrightarrow> (p, k) \<in> live s \<Longrightarrow> 0 < k \<and> k \<le> 2 ^ 32"
begin

text \<open>Allocation keeps the contents of every block that was live before.\<close>

lemma alloc_keeps_block:
  assumes "inv s" and "room s sz" and "(q, j) \<in> live s" and "alloc sz s = Some (p, s')"
  shows "load_bytes (mem_of s') q j = load_bytes (mem_of s) q j"
proof -
  obtain k m' where a: "alloc sz s = Some (p, put_mem m' s)"
    "\<forall>(q, j) \<in> live s. region p k \<inter> region q j = {}"
    "same_outside (region p k \<union> meta) (mem_of s) m'"
    using alloc_spec [OF assms(1,2)] assms(4) by auto
  have "region q j \<inter> (region p k \<union> meta) = {}"
    using a(2) assms(3) live_off_meta [OF assms(1,3)] by blast
  then show ?thesis using a(1,3) assms(4) live_small [OF assms(1,3)] by (auto intro: load_bytes_frame)
qed

text \<open>A client that writes only to its own block keeps the heap intact and the other blocks' contents.\<close>

lemma own_write:
  assumes "inv s" and "(p, k) \<in> live s" and "same_outside (region p k) (mem_of s) m'"
  shows "inv (put_mem m' s)" and "live (put_mem m' s) = live s"
    and "(q, j) \<in> live s \<Longrightarrow> (q, j) \<noteq> (p, k) \<Longrightarrow> load_bytes m' q j = load_bytes (mem_of s) q j"
proof -
  show "inv (put_mem m' s)" "live (put_mem m' s) = live s"
    using client_write [OF assms(1,3)] live_off_meta [OF assms(1,2)] by auto
  assume q: "(q, j) \<in> live s" "(q, j) \<noteq> (p, k)"
  then have "region q j \<inter> region p k = {}" using live_apart [OF assms(1)] assms(2) by blast
  then show "load_bytes m' q j = load_bytes (mem_of s) q j"
    using assms(3) live_small [OF assms(1) q(1)] by (intro load_bytes_frame) auto
qed

text \<open>The scratch buffer pattern: allocate, fill the block, release it. Afterwards the same blocks are
  live, and no byte outside the buffer and the allocator's books has changed.\<close>

lemma scratch_buffer:
  assumes "inv s" and "room s sz"
  obtains p k m1 where "alloc sz s = Some (p, put_mem m1 s)" and "unat sz \<le> k"
    and "(p, k) \<in> live (put_mem m1 s)" and "region p k \<inter> meta = {}"
    and "\<And>q j. (q, j) \<in> live s \<Longrightarrow> region p k \<inter> region q j = {}"
    and "same_outside (region p k \<union> meta) (mem_of s) m1"
    and "\<And>m2. same_outside (region p k) m1 m2 \<Longrightarrow> (p, k) \<notin> live s \<Longrightarrow>
      \<exists>m3. release p (put_mem m2 s) = Some (put_mem m3 s) \<and> inv (put_mem m3 s)
        \<and> live (put_mem m3 s) = live s \<and> same_outside (region p k \<union> meta) (mem_of s) m3"
proof -
  obtain p k m1 where a: "alloc sz s = Some (p, put_mem m1 s)" "inv (put_mem m1 s)"
    "live (put_mem m1 s) = insert (p, k) (live s)" "unat sz \<le> k"
    "region p k \<inter> meta = {}" "\<forall>(q, j) \<in> live s. region p k \<inter> region q j = {}"
    "same_outside (region p k \<union> meta) (mem_of s) m1"
    using alloc_spec [OF assms] by auto
  have rel: "\<exists>m3. release p (put_mem m2 s) = Some (put_mem m3 s) \<and> inv (put_mem m3 s)
      \<and> live (put_mem m3 s) = live s \<and> same_outside (region p k \<union> meta) (mem_of s) m3"
    if w: "same_outside (region p k) m1 m2" and new: "(p, k) \<notin> live s" for m2
  proof -
    have 2: "inv (put_mem m2 s)" "live (put_mem m2 s) = insert (p, k) (live s)"
      using own_write [OF a(2), of p k m2] a(3) w by simp_all
    obtain m3 where 3: "release p (put_mem m2 s) = Some (put_mem m3 s)" "inv (put_mem m3 s)"
      "live (put_mem m3 s) = live (put_mem m2 s) - {(p, k)}" "same_outside meta m2 m3"
      using release_spec [OF 2(1), of p k] 2(2) by auto
    have "same_outside (region p k \<union> meta) (mem_of s) m3"
      using same_outside_trans [OF same_outside_trans [OF a(7) w] 3(4)] by (rule same_outside_mono) auto
    with 3 2 new show ?thesis by auto
  qed
  have "(p, k) \<in> live (put_mem m1 s)" using a(3) by simp
  moreover have "region p k \<inter> region q j = {}" if "(q, j) \<in> live s" for q j using a(6) that by blast
  ultimately show ?thesis using that a rel by metis
qed

end

text \<open>An allocator of page-aligned blocks with a measure of the room left: while \<open>cap s n\<close> holds,
  requests that need \<open>n\<close> blocks together are met.\<close>

locale page_allocator = allocator +
  fixes cap :: "'a \<Rightarrow> nat \<Rightarrow> bool" and need :: "u32 \<Rightarrow> nat"
  assumes cap_room: "inv s \<Longrightarrow> cap s n \<Longrightarrow> need sz \<le> n \<Longrightarrow> room s sz"
    and cap_alloc: "inv s \<Longrightarrow> cap s n \<Longrightarrow> need sz \<le> n \<Longrightarrow> alloc sz s = Some (p, s') \<Longrightarrow> cap s' (n - need sz)"
    and cap_write: "inv s \<Longrightarrow> same_outside R (mem_of s) m' \<Longrightarrow> R \<inter> meta = {} \<Longrightarrow> cap (put_mem m' s) = cap s"
    and live_aligned: "inv s \<Longrightarrow> (p, k) \<in> live s \<Longrightarrow> p mod 4096 = 0"
begin

text \<open>Allocate a block and fill it: everything a client that builds a structure out of blocks needs.\<close>

lemma alloc_fill:
  assumes "inv s" and "cap s n" and "need sz \<le> n"
  obtains p k m1 where "alloc sz s = Some (p, put_mem m1 s)" and "unat sz \<le> k" and "k \<le> 2 ^ 32"
    and "p mod 4096 = 0" and "region p k \<inter> meta = {}"
    and "\<And>q j. (q, j) \<in> live s \<Longrightarrow> region p k \<inter> region q j = {}"
    and "\<And>m2. same_outside (region p k) m1 m2 \<Longrightarrow> inv (put_mem m2 s) \<and> live (put_mem m2 s) = insert (p, k) (live s)
      \<and> cap (put_mem m2 s) (n - need sz) \<and> same_outside (region p k \<union> meta) (mem_of s) m2"
proof -
  obtain p k m1 where a: "alloc sz s = Some (p, put_mem m1 s)" "inv (put_mem m1 s)"
    "live (put_mem m1 s) = insert (p, k) (live s)" "unat sz \<le> k" "k \<le> 2 ^ 32"
    "region p k \<inter> meta = {}" "\<forall>(q, j) \<in> live s. region p k \<inter> region q j = {}"
    "same_outside (region p k \<union> meta) (mem_of s) m1"
    using alloc_spec [OF assms(1) cap_room [OF assms]] by auto
  have al: "p mod 4096 = 0" using live_aligned [OF a(2)] a(3) by blast
  have w: "inv (put_mem m2 s) \<and> live (put_mem m2 s) = insert (p, k) (live s)
      \<and> cap (put_mem m2 s) (n - need sz) \<and> same_outside (region p k \<union> meta) (mem_of s) m2"
    if w: "same_outside (region p k) m1 m2" for m2
  proof -
    have "same_outside (region p k \<union> meta) (mem_of s) m2"
      using same_outside_trans [OF a(8) w] by (rule same_outside_mono) auto
    then show ?thesis
      using own_write(1,2) [OF a(2), of p k m2] cap_write [OF a(2), of "region p k" m2] w a(3,6)
        cap_alloc [OF assms a(1)] by simp
  qed
  show ?thesis by (rule that [OF a(1,4,5) al a(6) _ w]) (use a(7) in blast)+
qed

end

section \<open>The kernel heap provides the interface\<close>

definition the_kernel_heap :: heap where
  "the_kernel_heap = \<lparr>table = \<lparr>entries = HEAP_TABLE_ADDRESS,
     total_entries = HEAP_SIZE_BYTES div HEAP_BLOCK_SIZE\<rparr>, start_address = HEAP_ADDRESS\<rparr>"

abbreviation kheap_entries :: "'a kheap_state_scheme \<Rightarrow> u8 list" where
  "kheap_entries s \<equiv> heap_entries the_kernel_heap (mem s)"

definition kheap_inv :: "'a kheap_state_scheme \<Rightarrow> bool" where
  "kheap_inv s \<longleftrightarrow> kernel_heap s = the_kernel_heap \<and> strategy_malloc (strategy s) = Some heap_malloc
     \<and> strategy_free (strategy s) = Some heap_free \<and> wf_table (kheap_entries s)"

definition kheap_live :: "'a kheap_state_scheme \<Rightarrow> (u32 \<times> nat) set" where
  "kheap_live s = (\<lambda>(i, n). (block_address the_kernel_heap i, n * 4096)) ` live_blocks (kheap_entries s)"

definition kheap_room :: "'a kheap_state_scheme \<Rightarrow> u32 \<Rightarrow> bool" where
  "kheap_room s sz \<longleftrightarrow> unat sz < 2 ^ 32 - 4096 \<and> first_fit (kheap_entries s) (blocks_for sz) \<noteq> None"

definition kheap_meta :: "u32 set" where
  "kheap_meta = table_region the_kernel_heap"

lemma kernel_heap_fields [simp]:
  "heap_blocks the_kernel_heap = 25600" "start_address the_kernel_heap = 0x01000000"
  "entries (table the_kernel_heap) = 0x7E00" "total_entries (table the_kernel_heap) = 25600"
  by (simp_all add: the_kernel_heap_def heap_blocks_def kernel_consts)

lemma kernel_heap_ok [simp]: "heap_ok the_kernel_heap"
  by (simp add: heap_ok_def)

lemma kmalloc_eq: "kheap_inv s \<Longrightarrow>
  kmalloc sz s = map_option (\<lambda>(p, m). (p, s\<lparr>mem := m\<rparr>)) (heap_malloc the_kernel_heap (mem s) sz)"
  by (auto simp: kmalloc_def kheap_inv_def split: bind_splits option.splits)

lemma kfree_eq: "kheap_inv s \<Longrightarrow>
  kfree p s = Some (s\<lparr>mem := heap_free the_kernel_heap (mem s) p\<rparr>)"
  by (simp add: kfree_def kheap_inv_def)

lemma kheap_inv_put [simp]:
  "kheap_inv s \<Longrightarrow> kheap_inv (s\<lparr>mem := m\<rparr>) \<longleftrightarrow> wf_table (heap_entries the_kernel_heap m)"
  by (simp add: kheap_inv_def)

lemma live_block_address:
  assumes "(i, n) \<in> live_blocks T" and "wf_table T" and "length T = 25600"
  shows "i + n \<le> 25600" and "0 < n"
  using live_split [OF assms(2,1)] assms(3) by simp_all

text \<open>The live blocks of the table are pairwise apart and off the table.\<close>

lemma live_data_apart:
  assumes "kheap_inv s" and "(q, j) \<in> kheap_live s" and "0 < n" and "i + n \<le> 25600"
    and "\<And>x k. (x, k) \<in> live_blocks (kheap_entries s) \<Longrightarrow> (q, j) = (block_address the_kernel_heap x, k * 4096)
      \<Longrightarrow> i + n \<le> x \<or> x + k \<le> i"
  shows "data_region the_kernel_heap i n \<inter> region q j = {}"
proof -
  let ?h = the_kernel_heap
  obtain x k where x: "(x, k) \<in> live_blocks (kheap_entries s)" "q = block_address ?h x" "j = k * 4096"
    using assms(2) by (auto simp: kheap_live_def)
  have k: "x + k \<le> 25600" "0 < k"
    using live_block_address [OF x(1)] assms(1) by (simp_all add: kheap_inv_def)
  have "i + n \<le> x \<or> x + k \<le> i" using assms(5) x by simp
  then have "data_region ?h i n \<inter> data_region ?h x k = {}"
    using data_regions_disjoint [of ?h i n x k] data_regions_disjoint [of ?h x k i n] k assms(3,4) by auto
  then show ?thesis by (simp add: x data_region_def)
qed

lemma kmalloc_spec:
  assumes "kheap_inv s" and "kheap_room s sz"
  shows "\<exists>p k m'. kmalloc sz s = Some (p, s\<lparr>mem := m'\<rparr>) \<and> kheap_inv (s\<lparr>mem := m'\<rparr>)
    \<and> kheap_live (s\<lparr>mem := m'\<rparr>) = insert (p, k) (kheap_live s) \<and> unat sz \<le> k \<and> k \<le> 2 ^ 32
    \<and> (\<forall>a \<in> region p k. m' a = 0)
    \<and> region p k \<inter> kheap_meta = {} \<and> (\<forall>(q, j) \<in> kheap_live s. region p k \<inter> region q j = {})
    \<and> same_outside (region p k \<union> kheap_meta) (mem s) m'"
proof -
  let ?h = the_kernel_heap and ?T = "kheap_entries s" and ?n = "blocks_for sz"
  have wf: "wf_table ?T" using assms(1) by (simp add: kheap_inv_def)
  obtain i where i: "first_fit ?T ?n = Some i" and sz: "unat sz < 2 ^ 32 - 4096"
    using assms(2) by (auto simp: kheap_room_def)
  then have fits: "fits ?T i ?n" by (simp add: first_fit_Some)
  then have len: "i + ?n \<le> 25600" by (simp add: fits_iff)
  obtain m1 where m1: "heap_malloc ?h (mem s) sz = Some (block_address ?h i, m1)"
    "heap_entries ?h m1 = enter_chain ?T i ?n"
    "\<And>a. a \<in> data_region ?h i ?n \<Longrightarrow> m1 a = 0"
    "same_outside (data_region ?h i ?n \<union> table_region ?h) (mem s) m1"
    by (rule heap_malloc_ok [OF kernel_heap_ok sz i]) metis
  have off: "data_region ?h i ?n \<inter> table_region ?h = {}"
    using data_table_disjoint [of ?h i ?n] len by simp
  have "kheap_live (s\<lparr>mem := m1\<rparr>) = insert (block_address ?h i, ?n * 4096) (kheap_live s)"
    by (simp add: kheap_live_def m1(2) live_blocks_enter [OF wf fits])
  moreover have "\<forall>(q, j) \<in> kheap_live s. data_region ?h i ?n \<inter> region q j = {}"
    by (clarify, rule set_eqI, drule live_data_apart [OF assms(1), of _ _ ?n i])
      (use len fits_disjoint_live [OF wf fits] in auto)
  moreover have "kheap_inv (s\<lparr>mem := m1\<rparr>)" using assms(1) m1(2) wf_enter_chain [OF wf fits] by simp
  moreover have "kmalloc sz s = Some (block_address ?h i, s\<lparr>mem := m1\<rparr>)"
    using assms(1) m1(1) by (simp add: kmalloc_eq)
  moreover have "unat sz \<le> ?n * 4096" "?n * 4096 \<le> 2 ^ 32"
    using blocks_for_covers [of sz] blocks_for_bound [OF sz] by simp_all
  ultimately show ?thesis using m1(3,4) off unfolding data_region_def kheap_meta_def by blast
qed

text \<open>The block \<^verbatim>\<open>kmalloc\<close> returns is zero already, so \<^verbatim>\<open>kzalloc\<close> is the same function.\<close>

lemma kzalloc_kmalloc:
  assumes "kheap_inv s" and "kheap_room s sz"
  shows "kzalloc sz s = kmalloc sz s"
proof -
  obtain p k m' where a: "kmalloc sz s = Some (p, s\<lparr>mem := m'\<rparr>)" "unat sz \<le> k" "\<forall>a \<in> region p k. m' a = 0"
    using kmalloc_spec [OF assms] by blast
  have "memset m' p 0 sz = m'"
  proof
    fix x
    show "memset m' p 0 sz x = m' x"
      using a(3) region_mono [OF a(2), of p] memset_inside [of x p sz m' 0] memset_outside [of p sz m' 0]
      by (cases "x \<in> region p (unat sz)") (auto simp: same_outside_def)
  qed
  with a(1) show ?thesis by (simp add: kzalloc_def)
qed

lemma kfree_spec:
  assumes "kheap_inv s" and "(p, k) \<in> kheap_live s"
  shows "\<exists>m'. kfree p s = Some (s\<lparr>mem := m'\<rparr>) \<and> kheap_inv (s\<lparr>mem := m'\<rparr>)
    \<and> kheap_live (s\<lparr>mem := m'\<rparr>) = kheap_live s - {(p, k)} \<and> same_outside kheap_meta (mem s) m'"
proof -
  let ?h = the_kernel_heap and ?T = "kheap_entries s"
  have wf: "wf_table ?T" using assms(1) by (simp add: kheap_inv_def)
  obtain i n where i: "(i, n) \<in> live_blocks ?T" "p = block_address ?h i" "k = n * 4096"
    using assms(2) by (auto simp: kheap_live_def)
  have n: "i + n \<le> 25600" "0 < n" using live_block_address [OF i(1) wf] by simp_all
  let ?m = "heap_free ?h (mem s) p"
  have "i < heap_blocks ?h" "p \<in> data_region ?h i 1" using n i(2) block_address_mem by simp_all
  note f = heap_free_ok [OF kernel_heap_ok this, of "mem s"]
  have inj: "inj_on (\<lambda>(i, n). (block_address ?h i, n * 4096)) (live_blocks ?T)"
  proof (rule inj_onI, clarsimp)
    fix a b x assume *: "(a, b) \<in> live_blocks ?T" "(x, b) \<in> live_blocks ?T"
      and e: "block_address ?h a = block_address ?h x"
    have "a < heap_blocks ?h" "x < heap_blocks ?h"
      using live_block_address [OF *(1) wf] live_block_address [OF *(2) wf] by simp_all
    then show "a = x" using e unat_block_address [OF kernel_heap_ok] by (metis add_left_cancel
      mult_right_cancel zero_neq_numeral)
  qed
  have "kheap_live (s\<lparr>mem := ?m\<rparr>) = kheap_live s - {(p, k)}"
    using inj_on_image_set_diff [OF inj, of "live_blocks ?T" "{(i, n)}"] i
    by (simp add: kheap_live_def f(1) [unfolded i(2)] live_blocks_clear [OF wf i(1)])
  moreover have "kheap_inv (s\<lparr>mem := ?m\<rparr>)"
    using assms(1) f(1) wf_clear_chain_at [OF wf live_boundary [OF i(1)]] by simp
  ultimately show ?thesis using f(2) assms(1) by (auto simp: kfree_eq kheap_meta_def)
qed

lemma kheap_client_write:
  assumes "kheap_inv s" and "same_outside R (mem s) m'" and "R \<inter> kheap_meta = {}"
  shows "kheap_inv (s\<lparr>mem := m'\<rparr>) \<and> kheap_live (s\<lparr>mem := m'\<rparr>) = kheap_live s
    \<and> kheap_room (s\<lparr>mem := m'\<rparr>) = kheap_room s"
proof -
  have "heap_entries the_kernel_heap m' = kheap_entries s"
    using heap_entries_frame [OF assms(2)] assms(3) by (auto simp: kheap_meta_def Int_commute)
  then show ?thesis using assms(1) by (simp add: kheap_live_def kheap_room_def kheap_inv_def fun_eq_iff)
qed

lemma kheap_live_off_meta:
  assumes "kheap_inv s" and "(p, k) \<in> kheap_live s"
  shows "region p k \<inter> kheap_meta = {}" and "0 < k" and "k \<le> 2 ^ 32"
proof -
  obtain i n where i: "(i, n) \<in> live_blocks (kheap_entries s)" "p = block_address the_kernel_heap i" "k = n * 4096"
    using assms(2) by (auto simp: kheap_live_def)
  have n: "i + n \<le> 25600" "0 < n"
    using live_block_address [OF i(1)] assms(1) by (simp_all add: kheap_inv_def)
  show "region p k \<inter> kheap_meta = {}"
    using data_table_disjoint [of the_kernel_heap i n] n by (simp add: i data_region_def kheap_meta_def)
  show "0 < k" "k \<le> 2 ^ 32" using n i(3) by simp_all
qed

lemma kheap_live_apart:
  assumes "kheap_inv s" and "(p, k) \<in> kheap_live s" and "(q, j) \<in> kheap_live s" and "(p, k) \<noteq> (q, j)"
  shows "region p k \<inter> region q j = {}"
proof -
  let ?T = "kheap_entries s"
  have wf: "wf_table ?T" using assms(1) by (simp add: kheap_inv_def)
  obtain i n where i: "(i, n) \<in> live_blocks ?T" "p = block_address the_kernel_heap i" "k = n * 4096"
    using assms(2) by (auto simp: kheap_live_def)
  have "data_region the_kernel_heap i n \<inter> region q j = {}"
    using live_block_address [OF i(1) wf] live_disjoint [OF wf i(1)] i assms(4)
    by (intro live_data_apart [OF assms(1,3)]) auto
  then show ?thesis by (simp add: i data_region_def)
qed

interpretation km: allocator mem "\<lambda>m s. s\<lparr>mem := m\<rparr>" kmalloc kfree kheap_inv kheap_meta kheap_live kheap_room
  by unfold_locales (simp, simp, rule kmalloc_spec, assumption+, rule kfree_spec, assumption+,
    rule kheap_client_write, assumption+, rule kheap_live_apart, assumption+,
    rule kheap_live_off_meta(1), assumption+, simp add: kheap_live_off_meta [simplified])

interpretation kz: allocator mem "\<lambda>m s. s\<lparr>mem := m\<rparr>" kzalloc kfree kheap_inv kheap_meta kheap_live kheap_room
  by unfold_locales (simp, simp, simp only: kzalloc_kmalloc, rule kmalloc_spec, assumption+, rule kfree_spec, assumption+,
    rule kheap_client_write, assumption+, rule kheap_live_apart, assumption+,
    rule kheap_live_off_meta(1), assumption+, simp add: kheap_live_off_meta [simplified])

text \<open>First fit eats a free run from its lower end only: a run of \<open>n\<close> free blocks is still one of
  \<open>n - b\<close> after \<open>b\<close> blocks have been taken.\<close>

definition kheap_cap :: "'a kheap_state_scheme \<Rightarrow> nat \<Rightarrow> bool" where
  "kheap_cap s n \<longleftrightarrow> (\<exists>r. fits (kheap_entries s) r n)"

lemma free_run_shrinks:
  assumes "fits T r n" and "first_fit T b = Some i" and "0 < b" and "b \<le> n"
  shows "fits (enter_chain T i b) (max r (i + b)) (n - b)"
proof -
  have i: "fits T i b" "\<And>j. j < i \<Longrightarrow> \<not> fits T j b" using assms(2,3) by (auto simp: first_fit_Some)
  have "fits T r b" using assms(1,4) by (simp add: fits_iff)
  then have ir: "i \<le> r" using i(2) by (meson not_le)
  have "free_entry (T ! y)" if "r \<le> y" "y < r + n" for y
    using fits_free [OF assms(1), of "y - r"] that by simp
  then show ?thesis using ir i(1) assms(1,3,4)
    by (auto simp: fits_iff enter_chain_def nth_append add.assoc)
qed

lemma kmalloc_entries:
  assumes "kheap_inv s" and "kheap_room s sz" and "kmalloc sz s = Some (p, s')"
  obtains i where "first_fit (kheap_entries s) (blocks_for sz) = Some i"
    and "kheap_entries s' = enter_chain (kheap_entries s) i (blocks_for sz)"
proof -
  obtain i where i: "first_fit (kheap_entries s) (blocks_for sz) = Some i" and sz: "unat sz < 2 ^ 32 - 4096"
    using assms(2) by (auto simp: kheap_room_def)
  obtain m1 where "heap_malloc the_kernel_heap (mem s) sz = Some (block_address the_kernel_heap i, m1)"
    "heap_entries the_kernel_heap m1 = enter_chain (kheap_entries s) i (blocks_for sz)"
    by (rule heap_malloc_ok [OF kernel_heap_ok sz i]) metis
  then show ?thesis using that [OF i] assms(1,3) by (auto simp: kmalloc_eq)
qed

lemma kheap_cap_room:
  assumes "kheap_cap s n" and "blocks_for sz \<le> n"
  shows "kheap_room s sz"
proof -
  obtain r where "fits (kheap_entries s) r n" using assms(1) by (auto simp: kheap_cap_def)
  then have "fits (kheap_entries s) r (blocks_for sz)" "n \<le> 25600" using assms(2) by (auto simp: fits_iff)
  moreover from this have "first_fit (kheap_entries s) (blocks_for sz) \<noteq> None"
    using first_fit_None [OF blocks_for_pos] by blast
  ultimately show ?thesis using assms(2) by (simp add: kheap_room_def blocks_for_def)
qed

lemma kheap_cap_alloc:
  assumes "kheap_inv s" and "kheap_cap s n" and "blocks_for sz \<le> n" and "kmalloc sz s = Some (p, s')"
  shows "kheap_cap s' (n - blocks_for sz)"
proof -
  obtain r where r: "fits (kheap_entries s) r n" using assms(2) by (auto simp: kheap_cap_def)
  obtain i where "first_fit (kheap_entries s) (blocks_for sz) = Some i"
    "kheap_entries s' = enter_chain (kheap_entries s) i (blocks_for sz)"
    using kmalloc_entries [OF assms(1) kheap_cap_room [OF assms(2,3)] assms(4)] by metis
  then show ?thesis using free_run_shrinks [OF r _ blocks_for_pos assms(3)] by (auto simp: kheap_cap_def)
qed

lemma kheap_cap_write:
  assumes "kheap_inv s" and "same_outside R (mem s) m'" and "R \<inter> kheap_meta = {}"
  shows "kheap_cap (s\<lparr>mem := m'\<rparr>) = kheap_cap s"
  using heap_entries_frame [OF assms(2), of the_kernel_heap] assms(3)
  by (auto simp: kheap_cap_def kheap_meta_def Int_commute fun_eq_iff)

lemma kheap_live_aligned:
  assumes "(p, k) \<in> kheap_live s"
  shows "p mod 4096 = 0"
proof -
  obtain i where "p = 0x01000000 + of_nat i * 4096"
    using assms by (auto simp: kheap_live_def block_address_def)
  then have "p = push_bit 12 (of_nat (4096 + i))" by (simp add: push_bit_eq_mult algebra_simps)
  then have "take_bit 12 p = 0" by (simp add: take_bit_push_bit)
  then show ?thesis by (simp add: take_bit_eq_mod)
qed

interpretation km: page_allocator mem "\<lambda>m s. s\<lparr>mem := m\<rparr>" kmalloc kfree kheap_inv kheap_meta kheap_live kheap_room
  kheap_cap blocks_for
  by unfold_locales (rule kheap_cap_room, assumption+, rule kheap_cap_alloc, assumption+,
    rule kheap_cap_write, assumption+, erule kheap_live_aligned)

interpretation kz: page_allocator mem "\<lambda>m s. s\<lparr>mem := m\<rparr>" kzalloc kfree kheap_inv kheap_meta kheap_live kheap_room
  kheap_cap blocks_for
  by unfold_locales (rule kheap_cap_room, assumption+, rule kheap_cap_alloc, assumption+,
    simp only: kzalloc_kmalloc kheap_cap_room, rule kheap_cap_write, assumption+, erule kheap_live_aligned)

section \<open>Initialisation\<close>

lemma kheap_init_eq: "kheap_init s = Some (s\<lparr>mem := memset (mem s) HEAP_TABLE_ADDRESS 0 25600, kernel_heap := the_kernel_heap,
    kernel_heap_table := table the_kernel_heap, strategy := \<lparr>strategy_create = Some default_heap_create,
      strategy_malloc = Some heap_malloc, strategy_free = Some heap_free\<rparr>\<rparr>)"
  by (simp add: kheap_init_def make_strategy_def set_strategy_def default_heap_create_def
    validate_alignment_def validate_heap_table_def the_kernel_heap_def kernel_consts Let_def)

lemma kheap_init_ok:
  obtains s' where "kheap_init s = Some s'" and "kheap_inv s'" and "kheap_live s' = {}"
    and "same_outside kheap_meta (mem s) (mem s')"
    and "kheap_entries s' = replicate 25600 HEAP_BLOCK_TABLE_ENTRY_FREE"
proof -
  let ?m = "memset (mem s) HEAP_TABLE_ADDRESS 0 25600"
  have e: "heap_entries the_kernel_heap ?m = replicate 25600 HEAP_BLOCK_TABLE_ENTRY_FREE"
    by (intro nth_equalityI) (simp_all add: heap_entries_nth memset_eq block_fill_def word_less_nat_alt
      unat_of_nat32 kernel_consts)
  have "same_outside kheap_meta (mem s) ?m"
    using memset_outside [of HEAP_TABLE_ADDRESS 25600 "mem s" 0]
    by (simp add: kheap_meta_def table_region_def kernel_consts)
  then show ?thesis
    using that [OF kheap_init_eq] e by (simp add: kheap_inv_def kheap_live_def wf_table_def table_run_replicate_free live_blocks_free)
qed

text \<open>An empty heap has room for every request below its size.\<close>

lemma empty_room:
  assumes "kheap_entries s = replicate 25600 HEAP_BLOCK_TABLE_ENTRY_FREE" and "unat sz < 25600 * 4096"
  shows "kheap_room s sz"
proof -
  have "blocks_for sz \<le> 25600" using assms(2) by (simp add: blocks_for_def) 
  then have "fits (kheap_entries s) 0 (blocks_for sz)"
    by (simp add: assms(1) fits_iff free_entry_def get_entry_type_def kernel_consts)
  then have "first_fit (kheap_entries s) (blocks_for sz) \<noteq> None" by (metis blocks_for_pos first_fit_None)
  then show ?thesis using assms(2) by (simp add: kheap_room_def)
qed

lemma kfree_null: "kheap_inv s \<Longrightarrow> kfree 0 s = Some s"
  using heap_free_outside [OF kernel_heap_ok, of 0 "mem s"]
  by (simp add: kfree_eq region_interval)

lemma live_in_heap:
  assumes "kheap_inv s" and "(p, k) \<in> kheap_live s"
  shows "region p k \<subseteq> region 0x01000000 (25600 * 4096)"
proof -
  obtain i n where i: "(i, n) \<in> live_blocks (kheap_entries s)" "p = block_address the_kernel_heap i" "k = n * 4096"
    using assms(2) by (auto simp: kheap_live_def)
  have "i + n \<le> 25600" using live_block_address [OF i(1)] assms(1) by (simp add: kheap_inv_def)
  then show ?thesis using region_shift [of "i * 4096" "n * 4096" "25600 * 4096" "0x01000000"]
    by (simp add: i block_address_def)
qed

lemma kheap_inv_frame:
  fixes s t :: "'a kheap_state_scheme"
  assumes "kheap_inv s" and "same_outside R (mem s) (mem t)" and "R \<inter> kheap_meta = {}"
    and "kernel_heap t = kernel_heap s" and "strategy t = strategy s"
  shows "kheap_inv t" and "kheap_live t = kheap_live s"
proof -
  have "kheap_entries t = kheap_entries s"
    using heap_entries_frame [OF assms(2), of the_kernel_heap] assms(3) by (auto simp: kheap_meta_def Int_commute)
  then show "kheap_inv t" "kheap_live t = kheap_live s" using assms(1,4,5) by (simp_all add: kheap_inv_def kheap_live_def)
qed

lemma live_nonzero:
  assumes "kheap_inv s" and "(p, k) \<in> kheap_live s"
  shows "p \<noteq> 0"
proof -
  have "p \<in> region 0x01000000 (25600 * 4096)"
    using live_in_heap [OF assms] kheap_live_off_meta(2) [OF assms] base_mem_region [of p k] by blast
  then show ?thesis by (auto simp: region_interval)
qed

section \<open>Properties\<close>

text \<open>Two concrete heaps: the empty one, and one with its first block taken.\<close>

definition empty_kheap :: "mem \<Rightarrow> kheap_state" where
  "empty_kheap m = \<lparr>mem = m, io_log = [], terminal_row = 0, terminal_column = 0, terminal_colour = 7,
     terminal_buffer = 0xB8000, idt_descs = 0x200000, idtr_desc = \<lparr>idtr_limit = 0, idtr_base = 0\<rparr>,
     cpu_idtr = \<lparr>idtr_limit = 0, idtr_base = 0\<rparr>, kernel_heap = the_kernel_heap,
     kernel_heap_table = table the_kernel_heap, strategy = \<lparr>strategy_create = Some default_heap_create,
       strategy_malloc = Some heap_malloc, strategy_free = Some heap_free\<rparr>\<rparr>"

abbreviation zero_mem :: mem where
  "zero_mem \<equiv> \<lambda>_. 0"

lemma zero_heap_entries: "heap_entries the_kernel_heap zero_mem = replicate 25600 HEAP_BLOCK_TABLE_ENTRY_FREE"
  by (intro nth_equalityI) (simp_all add: heap_entries_nth kernel_consts)

lemma empty_kheap_inv: "kheap_inv (empty_kheap zero_mem)"
  by (simp add: kheap_inv_def empty_kheap_def zero_heap_entries wf_table_def table_run_replicate_free)

lemma empty_kheap_room: "unat sz < 25600 * 4096 \<Longrightarrow> kheap_room (empty_kheap zero_mem) sz"
  by (rule empty_room) (simp_all add: empty_kheap_def zero_heap_entries)

lemma one_block_entries: "heap_entries the_kernel_heap (zero_mem(0x7E00 := 1)) =
  enter_chain (replicate 25600 HEAP_BLOCK_TABLE_ENTRY_FREE) 0 1"
proof (rule nth_equalityI)
  show "length (heap_entries the_kernel_heap (zero_mem(0x7E00 := 1))) =
    length (enter_chain (replicate 25600 HEAP_BLOCK_TABLE_ENTRY_FREE) 0 1)" by (simp add: enter_chain_def)
  fix i assume "i < length (heap_entries the_kernel_heap (zero_mem(0x7E00 := 1)))"
  then have i: "i < 25600" by simp
  then have "(of_nat i :: u32) = 0 \<longleftrightarrow> i = 0" using of_nat32_eq [of i 0] by simp
  with i show "heap_entries the_kernel_heap (zero_mem(0x7E00 := 1)) ! i =
    enter_chain (replicate 25600 HEAP_BLOCK_TABLE_ENTRY_FREE) 0 1 ! i"
    by (cases i) (simp_all add: heap_entries_nth enter_chain_def chain_def kernel_consts)
qed

lemma one_block_kheap:
  shows "kheap_inv (empty_kheap (zero_mem(0x7E00 := 1)))"
    and "(0x01000000, 4096) \<in> kheap_live (empty_kheap (zero_mem(0x7E00 := 1)))"
proof -
  have w: "wf_table (replicate 25600 HEAP_BLOCK_TABLE_ENTRY_FREE)" by (simp add: wf_table_def table_run_replicate_free)
  have f: "fits (replicate 25600 HEAP_BLOCK_TABLE_ENTRY_FREE) 0 1"
    by (simp add: fits_iff free_entry_def get_entry_type_def kernel_consts)
  show "kheap_inv (empty_kheap (zero_mem(0x7E00 := 1)))"
    using wf_enter_chain [OF w f] by (simp add: kheap_inv_def empty_kheap_def one_block_entries)
  have "(0, 1) \<in> live_blocks (heap_entries the_kernel_heap (zero_mem(0x7E00 := 1)))"
    using live_blocks_enter [OF w f] by (simp add: one_block_entries)
  then show "(0x01000000, 4096) \<in> kheap_live (empty_kheap (zero_mem(0x7E00 := 1)))"
    by (force simp: kheap_live_def empty_kheap_def block_address_def)
qed

text \<open>A heap whose first \<open>n\<close> blocks are taken, one by one, over any contents.\<close>

definition taken_table :: "nat \<Rightarrow> u8 list" where
  "taken_table n = replicate n HEAP_BLOCK_TABLE_ENTRY_TAKEN @ replicate (25600 - n) HEAP_BLOCK_TABLE_ENTRY_FREE"

definition taken_mem :: "nat \<Rightarrow> mem \<Rightarrow> mem" where
  "taken_mem n m = write_bytes m 0x7E00 (taken_table n)"

lemma taken_fits: "n + k \<le> 25600 \<Longrightarrow> fits (taken_table n) n k"
  by (simp add: fits_iff taken_table_def nth_append free_entry_def get_entry_type_def kernel_consts)

lemma taken_Suc: "n < 25600 \<Longrightarrow> taken_table (Suc n) = enter_chain (taken_table n) n 1"
proof -
  have "replicate (Suc n) x = replicate n x @ [x]" for x :: u8 by (simp add: replicate_append_same)
  then show "n < 25600 \<Longrightarrow> taken_table (Suc n) = enter_chain (taken_table n) n 1" by (simp add: taken_table_def enter_chain_def chain_def del: replicate_Suc)
qed

lemma taken_table_ok: "n \<le> 25600 \<Longrightarrow> wf_table (taken_table n) \<and> live_blocks (taken_table n) = (\<lambda>i. (i, 1)) ` {..<n}"
proof (induction n)
  case 0
  then show ?case by (simp add: taken_table_def wf_table_def table_run_replicate_free live_blocks_free)
next
  case (Suc n)
  then have w: "wf_table (taken_table n)" "fits (taken_table n) n 1" by (simp_all add: taken_fits)
  show ?case using wf_enter_chain [OF w] live_blocks_enter [OF w] Suc by (simp add: taken_Suc lessThan_Suc)
qed

lemma taken_heap:
  fixes s :: "'a kheap_state_scheme"
  assumes "n \<le> 25600" and "kernel_heap s = the_kernel_heap" and "strategy_malloc (strategy s) = Some heap_malloc"
    and "strategy_free (strategy s) = Some heap_free" and "mem s = taken_mem n m"
  shows "kheap_inv s" and "i < n \<Longrightarrow> (0x01000000 + of_nat (i * 4096), 4096) \<in> kheap_live s"
    and "n + k \<le> 25600 \<Longrightarrow> kheap_cap s k"
proof -
  have e: "kheap_entries s = taken_table n"
  proof (rule nth_equalityI)
    show "length (kheap_entries s) = length (taken_table n)" using assms(1) by (simp add: taken_table_def)
    fix i assume "i < length (kheap_entries s)"
    then have "i < length (taken_table n)" "i < 25600" using assms(1) by (simp_all add: taken_table_def)
    then show "kheap_entries s ! i = taken_table n ! i"
      using assms(1) by (simp add: heap_entries_nth assms(5) taken_mem_def write_bytes_at taken_table_def)
  qed
  note t = taken_table_ok [OF assms(1)]
  show "kheap_inv s" using t by (simp add: kheap_inv_def assms(2-4) e)
  show "(0x01000000 + of_nat (i * 4096), 4096) \<in> kheap_live s" if "i < n"
  proof -
    have "(i, 1) \<in> live_blocks (kheap_entries s)" unfolding e using that t by simp
    then show ?thesis unfolding kheap_live_def by (rule image_eqI [rotated]) (simp add: block_address_def)
  qed
  show "kheap_cap s k" if "n + k \<le> 25600" using taken_fits [OF that] by (auto simp: kheap_cap_def e)
qed

lemma taken_mem_outside: "n \<le> 25600 \<Longrightarrow> a \<notin> region 0x7E00 25600 \<Longrightarrow> taken_mem n m a = m a"
  using same_outsideD [OF write_bytes_outside, of a "0x7E00" "taken_table n" m]
  by (simp add: taken_mem_def taken_table_def)

text \<open>C3: while the heap's invariant holds and a first fit exists, \<^verbatim>\<open>kmalloc\<close> returns a block of at
  least the size asked for, all zero, that overlaps neither the block table nor any live block; the
  block becomes live, the invariant is kept, and no byte outside the block and the table changes.\<close>

theorem kmalloc_fresh_block:
  fixes s :: "'a kheap_state_scheme"
  assumes "kheap_inv s" and "kheap_room s sz"
  shows "\<exists>p k m'. kmalloc sz s = Some (p, s\<lparr>mem := m'\<rparr>) \<and> kheap_inv (s\<lparr>mem := m'\<rparr>)
    \<and> kheap_live (s\<lparr>mem := m'\<rparr>) = insert (p, k) (kheap_live s) \<and> (p, k) \<notin> kheap_live s \<and> unat sz \<le> k
    \<and> load_bytes m' p (unat sz) = replicate (unat sz) 0
    \<and> region p k \<inter> kheap_meta = {} \<and> (\<forall>(q, j) \<in> kheap_live s. region p k \<inter> region q j = {})
    \<and> same_outside (region p k \<union> kheap_meta) (mem s) m'"
proof -
  obtain p k m' where a: "kmalloc sz s = Some (p, s\<lparr>mem := m'\<rparr>)" "kheap_inv (s\<lparr>mem := m'\<rparr>)"
    "kheap_live (s\<lparr>mem := m'\<rparr>) = insert (p, k) (kheap_live s)" "unat sz \<le> k" "k \<le> 2 ^ 32" "\<forall>a \<in> region p k. m' a = 0"
    "region p k \<inter> kheap_meta = {}" "\<forall>(q, j) \<in> kheap_live s. region p k \<inter> region q j = {}"
    "same_outside (region p k \<union> kheap_meta) (mem s) m'"
    using kmalloc_spec [OF assms] by blast
  have "0 < k" using kheap_live_off_meta(2) [OF a(2)] a(3) by blast
  then have "(p, k) \<notin> kheap_live s" using a(8) base_mem_region [of p k] by fastforce
  moreover have "p + of_nat i \<in> region p k" if "i < unat sz" for i
    using that a(4,5) by (intro of_nat_offset_mem) auto
  then have "load_bytes m' p (unat sz) = replicate (unat sz) 0"
    using a(6) by (intro nth_equalityI) simp_all
  ultimately show ?thesis using a by blast
qed

theorem kmalloc_fresh_block_witness:
  "\<exists>p k m'. kmalloc 100 (empty_kheap zero_mem) = Some (p, (empty_kheap zero_mem)\<lparr>mem := m'\<rparr>) \<and> (100 :: nat) \<le> k
    \<and> load_bytes m' p 100 = replicate 100 0"
proof -
  have r: "unat (100 :: u32) = 100" "kheap_room (empty_kheap zero_mem) 100" by (simp_all add: empty_kheap_room)
  from kmalloc_fresh_block [OF empty_kheap_inv r(2)] show ?thesis unfolding r by blast
qed

text \<open>C4: \<^verbatim>\<open>kfree\<close> of a live block removes that block and no other, keeps the invariant and changes
  nothing but the block table, so every remaining block keeps its contents.\<close>

theorem kfree_releases_block:
  fixes s :: "'a kheap_state_scheme"
  assumes "kheap_inv s" and "(p, k) \<in> kheap_live s"
  shows "\<exists>m'. kfree p s = Some (s\<lparr>mem := m'\<rparr>) \<and> kheap_inv (s\<lparr>mem := m'\<rparr>)
    \<and> kheap_live (s\<lparr>mem := m'\<rparr>) = kheap_live s - {(p, k)}
    \<and> (\<forall>(q, j) \<in> kheap_live s. load_bytes m' q j = load_bytes (mem s) q j)"
proof -
  obtain m' where m': "kfree p s = Some (s\<lparr>mem := m'\<rparr>)" "kheap_inv (s\<lparr>mem := m'\<rparr>)"
    "kheap_live (s\<lparr>mem := m'\<rparr>) = kheap_live s - {(p, k)}" "same_outside kheap_meta (mem s) m'"
    using kfree_spec [OF assms] by blast
  moreover have "load_bytes m' q j = load_bytes (mem s) q j" if "(q, j) \<in> kheap_live s" for q j
    using kheap_live_off_meta [OF assms(1) that] by (intro load_bytes_frame [OF m'(4)])
  ultimately show ?thesis by blast
qed

theorem kfree_releases_block_witness:
  "\<exists>s'. kfree 0x01000000 (empty_kheap (zero_mem(0x7E00 := 1))) = Some s' \<and> kheap_inv s'"
  using kfree_releases_block [OF one_block_kheap] by blast

text \<open>\<^verbatim>\<open>kheap_init\<close> succeeds from every state: it establishes the heap's invariant with no live block
  and room for every request below 100 MB, and writes nothing but the block table.\<close>

lemma kheap_init_establishes:
  fixes s :: "'a kheap_state_scheme"
  shows "\<exists>s'. kheap_init s = Some s' \<and> kheap_inv s' \<and> kheap_live s' = {}
    \<and> {sz. unat sz < 104857600} \<subseteq> {sz. kheap_room s' sz} \<and> same_outside kheap_meta (mem s) (mem s')"
proof -
  obtain s' where "kheap_init s = Some s'" "kheap_inv s'" "kheap_live s' = {}"
    "same_outside kheap_meta (mem s) (mem s')" "kheap_entries s' = replicate 25600 HEAP_BLOCK_TABLE_ENTRY_FREE"
    by (rule kheap_init_ok [of s])
  then show ?thesis using empty_room [of s'] by auto
qed

text \<open>A scratch buffer leaves no trace: allocate with \<^verbatim>\<open>kzalloc\<close>, write anything into the block, give it
  back with \<^verbatim>\<open>kfree\<close>; the same blocks are live as before and every one of them has its old contents.\<close>

lemma scratch_buffer_no_trace:
  fixes s :: "'a kheap_state_scheme"
  assumes "kheap_inv s" and "kheap_room s sz"
  shows "\<exists>p m1. kzalloc sz s = Some (p, s\<lparr>mem := m1\<rparr>)
    \<and> (\<forall>m2. same_outside (region p (unat sz)) m1 m2 \<longrightarrow>
        (\<exists>m3. kfree p (s\<lparr>mem := m2\<rparr>) = Some (s\<lparr>mem := m3\<rparr>) \<and> kheap_inv (s\<lparr>mem := m3\<rparr>)
          \<and> kheap_live (s\<lparr>mem := m3\<rparr>) = kheap_live s
          \<and> (\<forall>(q, j) \<in> kheap_live s. load_bytes m3 q j = load_bytes (mem s) q j)))"
proof -
  obtain p k m1 where a: "kzalloc sz s = Some (p, s\<lparr>mem := m1\<rparr>)" "unat sz \<le> k"
      "(p, k) \<in> kheap_live (s\<lparr>mem := m1\<rparr>)" "region p k \<inter> kheap_meta = {}"
    and apart: "\<And>q j. (q, j) \<in> kheap_live s \<Longrightarrow> region p k \<inter> region q j = {}"
    and rel: "\<And>m2. same_outside (region p k) m1 m2 \<Longrightarrow> (p, k) \<notin> kheap_live s \<Longrightarrow>
      \<exists>m3. kfree p (s\<lparr>mem := m2\<rparr>) = Some (s\<lparr>mem := m3\<rparr>) \<and> kheap_inv (s\<lparr>mem := m3\<rparr>)
        \<and> kheap_live (s\<lparr>mem := m3\<rparr>) = kheap_live s \<and> same_outside (region p k \<union> kheap_meta) (mem s) m3"
    by (rule kz.scratch_buffer [OF assms]) metis
  have "kheap_inv (s\<lparr>mem := m1\<rparr>)" using kz.alloc_spec [OF assms] a(1) by auto
  then have "0 < k" using kheap_live_off_meta(2) a(3) by blast
  then have new: "(p, k) \<notin> kheap_live s" using apart [of p k] base_mem_region [of p k] by fastforce
  have keep: "load_bytes m3 q j = load_bytes (mem s) q j"
    if "same_outside (region p k \<union> kheap_meta) (mem s) m3" "(q, j) \<in> kheap_live s" for m3 q j
    using that apart [OF that(2)] kheap_live_off_meta [OF assms(1) that(2)]
    by (intro load_bytes_frame [OF that(1)]) auto
  have "same_outside (region p k) m1 m2" if "same_outside (region p (unat sz)) m1 m2" for m2
    using that region_mono [OF a(2)] by (rule same_outside_mono)
  then show ?thesis using a(1) rel [OF _ new] keep by blast
qed

end
