(* ===== verification/Paging.thy ===== *)
theory Paging
  imports Kheap
begin

text \<open>
  \<^verbatim>\<open>kernel/arch/i386/paging/paging.cpp\<close>: two-level page tables in kernel heap memory. \<^verbatim>\<open>paging_new\<close>
  builds a directory of 1024 tables, \<^verbatim>\<open>paging_set\<close> and \<^verbatim>\<open>paging_map\<close> change entries,
  \<^verbatim>\<open>paging_free\<close> gives the blocks back, \<^verbatim>\<open>paging_switch\<close> loads CR3.

  The specification is the processor's walk: \<open>page_entry m dir va\<close> is the table entry found for a
  virtual address and \<open>translate m dir va\<close> the address and the rights both entries give. The lemmas
  say what each operation does to the walk of every address.
\<close>

section \<open>Definitions\<close>

definition PAGING_TOTAL_ENTRIES_PER_TABLE :: u32 where
  [kernel_consts]: "PAGING_TOTAL_ENTRIES_PER_TABLE = 1024"

definition PAGING_PAGE_SIZE :: u32 where
  [kernel_consts]: "PAGING_PAGE_SIZE = 4096"

definition PAGING_ACCESS_FROM_ALL :: u8 where
  [kernel_consts]: "PAGING_ACCESS_FROM_ALL = 0b00000100"

definition PAGING_IS_WRITABLE :: u8 where
  [kernel_consts]: "PAGING_IS_WRITABLE = 0b00000010"

definition PAGING_IS_PRESENT :: u8 where
  [kernel_consts]: "PAGING_IS_PRESENT = 0b00000001"

definition PAGING_ADDRESS_MASK :: u32 where
  [kernel_consts]: "PAGING_ADDRESS_MASK = 0xfffff000"

text \<open>\<^verbatim>\<open>cpu_cr3\<close> is what \<^verbatim>\<open>paging_load_directory\<close> sets. A \<^verbatim>\<open>paging_chunk\<close> is one word in memory, the
  address of its directory.\<close>

record paging_state = kheap_state +
  current_directory :: u32
  cpu_cr3 :: u32

definition paging_is_aligned :: "u32 \<Rightarrow> bool" where
  "paging_is_aligned address \<longleftrightarrow> address mod PAGING_PAGE_SIZE = 0"

definition paging_get_idxs :: "u32 \<Rightarrow> u32 \<Rightarrow> u32 \<Rightarrow> u32 \<times> u32 \<times> u32" where
  "paging_get_idxs virtual_address directory_idx table_idx =
     (if \<not> paging_is_aligned virtual_address then (- EINVAL, directory_idx, table_idx)
      else (0, virtual_address div (PAGING_TOTAL_ENTRIES_PER_TABLE * PAGING_PAGE_SIZE),
        virtual_address mod (PAGING_TOTAL_ENTRIES_PER_TABLE * PAGING_PAGE_SIZE) div PAGING_PAGE_SIZE))"

definition paging_set :: "u32 \<Rightarrow> u32 \<Rightarrow> u32 \<Rightarrow> mem \<Rightarrow> u32 \<times> mem" where
  "paging_set directory virtual_address val m =
     (let (result, directory_idx, table_idx) = paging_get_idxs virtual_address 0 0 in
      if result <s 0 then (result, m)
      else
        (let table_entry = load32 m (directory + 4 * directory_idx);
             tab = table_entry AND PAGING_ADDRESS_MASK
         in (0, store32 m (tab + 4 * table_idx) val)))"

text \<open>The file-local overload of \<^verbatim>\<open>paging_map\<close>.\<close>

function paging_map_pages :: "u32 \<Rightarrow> u32 \<Rightarrow> u32 \<Rightarrow> u32 \<Rightarrow> u32 \<Rightarrow> u32 \<Rightarrow> u32 \<Rightarrow> mem \<Rightarrow> u32 \<times> mem" where
  "paging_map_pages directory virtual_address physical_address total_pages flags result page_idx m =
     (if page_idx <s total_pages then
        (let entry = physical_address OR flags;
             (result, m) = paging_set directory virtual_address entry m in
         if result \<noteq> 0 then (result, m)
         else paging_map_pages directory (virtual_address + PAGING_PAGE_SIZE)
                (physical_address + PAGING_PAGE_SIZE) total_pages flags result (page_idx + 1) m)
      else (result, m))"
  by pat_completeness auto
termination
  by (relation "measure (\<lambda>(d, v, p, n, f, r, i, m). nat (sint n - sint i))")
    (auto simp: loop_measure_signed)

declare paging_map_pages.simps [simp del]

text \<open>The two pointers are pointers to four-byte entries when they are subtracted: their difference is
  the byte difference divided by four, as a signed number, which the division by the page size
  reads as unsigned.\<close>

definition paging_map :: "u32 \<Rightarrow> u32 \<Rightarrow> u32 \<Rightarrow> u32 \<Rightarrow> u32 \<Rightarrow> mem \<Rightarrow> u32 \<times> mem" where
  "paging_map directory virtual_address physical_address physical_address_end flags m =
     (if \<not> paging_is_aligned virtual_address then (- EINVAL, m)
      else if \<not> paging_is_aligned physical_address then (- EINVAL, m)
      else if \<not> paging_is_aligned physical_address_end then (- EINVAL, m)
      else if physical_address_end < physical_address then (- EINVAL, m)
      else
        (let total_bytes = int_div (physical_address_end - physical_address) 4;
             total_pages = total_bytes div PAGING_PAGE_SIZE
         in paging_map_pages directory virtual_address physical_address total_pages flags 0 0 m))"

function paging_fill_table :: "u32 \<Rightarrow> u32 \<Rightarrow> u8 \<Rightarrow> u32 \<Rightarrow> mem \<Rightarrow> mem" where
  "paging_fill_table tab offset flags table_idx m =
     (if table_idx < PAGING_TOTAL_ENTRIES_PER_TABLE then
        paging_fill_table tab offset flags (table_idx + 1)
          (store32 m (tab + 4 * table_idx) ((offset + table_idx * PAGING_PAGE_SIZE) OR ucast flags))
      else m)"
  by pat_completeness auto
termination
  by (relation "measure (\<lambda>(t, o', f, i, m). unat PAGING_TOTAL_ENTRIES_PER_TABLE - unat i)")
    (auto simp: loop_measure)

declare paging_fill_table.simps [simp del]

function paging_fill_directory ::
  "u32 \<Rightarrow> u8 \<Rightarrow> u32 \<Rightarrow> u32 \<Rightarrow> 'a kheap_state_scheme \<Rightarrow> 'a kheap_state_scheme option" where
  "paging_fill_directory directory flags offset dir_idx s =
     (if dir_idx < PAGING_TOTAL_ENTRIES_PER_TABLE then
        (case kzalloc (4 * PAGING_TOTAL_ENTRIES_PER_TABLE) s of
           None \<Rightarrow> None
         | Some (tab, s) \<Rightarrow>
             (let s = s\<lparr>mem := paging_fill_table tab offset flags 0 (mem s)\<rparr>;
                  offset = offset + PAGING_TOTAL_ENTRIES_PER_TABLE * PAGING_PAGE_SIZE;
                  s = s\<lparr>mem := store32 (mem s) (directory + 4 * dir_idx)
                        (tab OR ucast flags OR ucast PAGING_IS_WRITABLE)\<rparr>
              in paging_fill_directory directory flags offset (dir_idx + 1) s))
      else Some s)"
  by pat_completeness auto
termination
  by (relation "measure (\<lambda>(d, f, o', i, s). unat PAGING_TOTAL_ENTRIES_PER_TABLE - unat i)")
    (auto simp: loop_measure)

declare paging_fill_directory.simps [simp del]

definition paging_new :: "u8 \<Rightarrow> 'a kheap_state_scheme \<Rightarrow> (u32 \<times> 'a kheap_state_scheme) option" where
  "paging_new flags s = do {
     (directory, s) \<leftarrow> kzalloc (4 * PAGING_TOTAL_ENTRIES_PER_TABLE) s;
     s \<leftarrow> paging_fill_directory directory flags 0 0 s;
     (chunk, s) \<leftarrow> kzalloc 4 s;
     Some (chunk, s\<lparr>mem := store32 (mem s) chunk directory\<rparr>)
   }"

function paging_free_loop :: "u32 \<Rightarrow> u32 \<Rightarrow> 'a kheap_state_scheme \<Rightarrow> 'a kheap_state_scheme option" where
  "paging_free_loop paging idx s =
     (if idx < PAGING_TOTAL_ENTRIES_PER_TABLE then
        (let dir_entry = load32 (mem s) (load32 (mem s) paging + 4 * idx);
             tab = dir_entry AND PAGING_ADDRESS_MASK in
         case kfree tab s of None \<Rightarrow> None | Some s \<Rightarrow> paging_free_loop paging (idx + 1) s)
      else Some s)"
  by pat_completeness auto
termination
  by (relation "measure (\<lambda>(p, i, s). unat PAGING_TOTAL_ENTRIES_PER_TABLE - unat i)")
    (auto simp: loop_measure)

declare paging_free_loop.simps [simp del]

definition paging_free :: "u32 \<Rightarrow> 'a kheap_state_scheme \<Rightarrow> 'a kheap_state_scheme option" where
  "paging_free paging s = do {
     s \<leftarrow> paging_free_loop paging 0 s;
     s \<leftarrow> kfree (load32 (mem s) paging) s;
     kfree paging s
   }"

definition paging_load_directory :: "u32 \<Rightarrow> 'a paging_state_scheme \<Rightarrow> 'a paging_state_scheme" where
  "paging_load_directory directory s = s\<lparr>cpu_cr3 := directory\<rparr>"

definition paging_switch :: "u32 \<Rightarrow> 'a paging_state_scheme \<Rightarrow> 'a paging_state_scheme" where
  "paging_switch chunk s =
     (let s = paging_load_directory (load32 (mem s) chunk) s
      in s\<lparr>current_directory := load32 (mem s) chunk\<rparr>)"

definition paging_align :: "u32 \<Rightarrow> u32" where
  "paging_align address =
     (if address mod PAGING_PAGE_SIZE \<noteq> 0
      then address + (address - address mod PAGING_PAGE_SIZE + PAGING_PAGE_SIZE) else address)"

section \<open>The walk\<close>

text \<open>The entry the processor finds, and the number of the page an address lies in.\<close>

definition page_entry :: "mem \<Rightarrow> u32 \<Rightarrow> u32 \<Rightarrow> u32" where
  "page_entry m dir va =
     load32 m ((load32 m (dir + 4 * drop_bit 22 va) AND 0xfffff000) + 4 * (drop_bit 12 va AND 0x3ff))"

text \<open>The directory's entry on the way, and what the processor makes of the two: the access is
  possible when both entries are present, it goes to the frame of the table's entry, and writing and
  user access need both entries to allow it. (Four-megabyte pages are off: \<^verbatim>\<open>CR4\<close> is never
  written.)\<close>

definition page_directory_entry :: "mem \<Rightarrow> u32 \<Rightarrow> u32 \<Rightarrow> u32" where
  "page_directory_entry m dir va = load32 m (dir + 4 * drop_bit 22 va)"

definition translate :: "mem \<Rightarrow> u32 \<Rightarrow> u32 \<Rightarrow> (u32 \<times> bool \<times> bool) option" where
  "translate m dir va =
     (let entry = page_entry m dir va;
          allowed = page_directory_entry m dir va AND entry in
      if allowed AND 1 = 0 then None
      else Some ((entry AND 0xfffff000) OR (va AND 0xfff), allowed AND 2 \<noteq> 0, allowed AND 4 \<noteq> 0))"

abbreviation page_no :: "u32 \<Rightarrow> nat" where
  "page_no va \<equiv> unat va div 4096"

definition slot :: "u32 list \<Rightarrow> nat \<Rightarrow> u32" where
  "slot ts n = elem_addr (ts ! (n div 1024)) 4 (n mod 1024)"

text \<open>A well-formed address space: the directory names 1024 page-aligned tables, all apart from each
  other and from the directory.\<close>

definition page_space :: "mem \<Rightarrow> u32 \<Rightarrow> u32 list \<Rightarrow> bool" where
  "page_space m dir ts \<longleftrightarrow> length ts = 1024
     \<and> (\<forall>i < 1024. load32 m (elem_addr dir 4 i) AND PAGING_ADDRESS_MASK = ts ! i)
     \<and> (\<forall>i < 1024. region (ts ! i) 4096 \<inter> region dir 4096 = {})
     \<and> (\<forall>i < 1024. \<forall>j < 1024. i \<noteq> j \<longrightarrow> region (ts ! i) 4096 \<inter> region (ts ! j) 4096 = {})"

text \<open>The whole address space maps to itself: every table entry is the address of its own page with the
  flags, every directory entry has the flags and the writable bit.\<close>

definition identity_map :: "u8 \<Rightarrow> mem \<Rightarrow> u32 \<Rightarrow> bool" where
  "identity_map flags m dir \<longleftrightarrow>
     (\<forall>va. page_entry m dir va = (va AND 0xfffff000) OR ucast flags
       \<and> page_directory_entry m dir va AND 0xfff = ucast flags OR ucast PAGING_IS_WRITABLE)"

section \<open>Index arithmetic\<close>

lemma aligned_iff: "paging_is_aligned a \<longleftrightarrow> unat a mod 4096 = 0"
  by (simp add: paging_is_aligned_def kernel_consts word_unat_eq_iff unat_mod_distrib)

lemma page_no_bound: "page_no va < 1024 * 1024"
  using unat_bound [of va] by simp

lemma dir_index:
  "va div (PAGING_TOTAL_ENTRIES_PER_TABLE * PAGING_PAGE_SIZE) = of_nat (page_no va div 1024)"
  "drop_bit 22 va = (of_nat (page_no va div 1024) :: u32)"
proof -
  have "unat va div 4194304 < 2 ^ 32" using unat_bound [of va] by simp
  then show "va div (PAGING_TOTAL_ENTRIES_PER_TABLE * PAGING_PAGE_SIZE) = of_nat (page_no va div 1024)"
    "drop_bit 22 va = (of_nat (page_no va div 1024) :: u32)"
    by (simp_all add: word_unat_eq_iff unat_div_distrib unat_of_nat32 unat_drop_bit_eq drop_bit_eq_div
      kernel_consts div_mult2_eq [symmetric])
qed

lemma table_index:
  "va mod (PAGING_TOTAL_ENTRIES_PER_TABLE * PAGING_PAGE_SIZE) div PAGING_PAGE_SIZE = of_nat (page_no va mod 1024)"
  "drop_bit 12 va AND 0x3ff = (of_nat (page_no va mod 1024) :: u32)"
proof -
  have m: "(w :: u32) AND 0x3ff = take_bit 10 w" for w
    by (simp add: take_bit_eq_mask mask_eq_exp_minus_1)
  have "unat va mod 4194304 div 4096 = page_no va mod 1024"
    using mod_mult2_eq [of "unat va" 4096 1024] by simp
  then show "va mod (PAGING_TOTAL_ENTRIES_PER_TABLE * PAGING_PAGE_SIZE) div PAGING_PAGE_SIZE
      = of_nat (page_no va mod 1024)"
    by (simp add: word_unat_eq_iff unat_div_distrib unat_mod_distrib unat_of_nat32 kernel_consts
      order.strict_trans2 [OF mod_less_divisor])
  show "drop_bit 12 va AND 0x3ff = (of_nat (page_no va mod 1024) :: u32)"
    by (simp add: m word_unat_eq_iff unsigned_take_bit_eq unat_drop_bit_eq drop_bit_eq_div take_bit_eq_mod
      unat_of_nat32 order.strict_trans2 [OF mod_less_divisor] unat_div_distrib unat_mod_distrib)
qed

lemma elem_addr_word: "elem_addr b 4 i = b + 4 * of_nat i"
  by (simp add: elem_addr_def)

lemma paging_get_idxs_eq:
  "paging_is_aligned va \<Longrightarrow> paging_get_idxs va d t = (0, of_nat (page_no va div 1024), of_nat (page_no va mod 1024))"
  by (simp add: paging_get_idxs_def dir_index table_index)

section \<open>Walks in a well-formed space\<close>

lemma page_spaceD:
  assumes "page_space m dir ts"
  shows "length ts = 1024" and "i < 1024 \<Longrightarrow> load32 m (elem_addr dir 4 i) AND PAGING_ADDRESS_MASK = ts ! i"
    and "i < 1024 \<Longrightarrow> region (ts ! i) 4096 \<inter> region dir 4096 = {}"
    and "i < 1024 \<Longrightarrow> j < 1024 \<Longrightarrow> i \<noteq> j \<Longrightarrow> region (ts ! i) 4096 \<inter> region (ts ! j) 4096 = {}"
  using assms by (simp_all add: page_space_def)

lemma page_entry_slot:
  assumes "page_space m dir ts"
  shows "page_entry m dir va = load32 m (slot ts (page_no va))"
proof -
  have "page_no va div 1024 < 1024" using page_no_bound [of va] by (simp add: less_mult_imp_div_less)
  from page_spaceD(2) [OF assms this] show ?thesis
    by (simp add: page_entry_def slot_def elem_addr_word dir_index table_index kernel_consts)
qed

lemma slot_in_table: "region (slot ts n) 4 \<subseteq> region (ts ! (n div 1024)) 4096"
  using elem_within [of "n mod 1024" 1024 "ts ! (n div 1024)" 4] by (simp add: slot_def elem_region_def)

lemma slots_apart:
  assumes "page_space m dir ts" and "n < 1024 * 1024" and "k < 1024 * 1024" and "n \<noteq> k"
  shows "region (slot ts n) 4 \<inter> region (slot ts k) 4 = {}"
proof (cases "n div 1024 = k div 1024")
  case True
  then have "n mod 1024 \<noteq> k mod 1024" using assms(4) by (metis div_mult_mod_eq)
  then show ?thesis using True elems_apart [of "n mod 1024" 1024 "k mod 1024" 4]
    by (simp add: slot_def elem_region_def)
next
  case False
  have "n div 1024 < 1024" "k div 1024 < 1024" using assms(2,3) by (simp_all add: less_mult_imp_div_less)
  from page_spaceD(4) [OF assms(1) this False] show ?thesis using slot_in_table by blast
qed

lemma page_directory_entry_elem:
  "page_directory_entry m dir va = load32 m (elem_addr dir 4 (page_no va div 1024))"
  by (simp add: page_directory_entry_def elem_addr_word dir_index)

lemma page_mask: "(0xfffff000 :: u32) = NOT (mask 12)" "(0xfff :: u32) = mask 12"
  by (simp_all add: mask_eq_exp_minus_1)

lemma page_flag_bits: "(w :: u32) AND 1 = 0 \<longleftrightarrow> \<not> bit w 0" "w AND 2 = 0 \<longleftrightarrow> \<not> bit w 1" "w AND 4 = 0 \<longleftrightarrow> \<not> bit w 2"
    "(f :: u8) AND 1 = 0 \<longleftrightarrow> \<not> bit f 0" "f AND 2 = 0 \<longleftrightarrow> \<not> bit f 1" "f AND 4 = 0 \<longleftrightarrow> \<not> bit f 2"
  using and_exp_eq_0_iff_not_bit [of w 0] and_exp_eq_0_iff_not_bit [of w 1] and_exp_eq_0_iff_not_bit [of w 2]
    and_exp_eq_0_iff_not_bit [of f 0] and_exp_eq_0_iff_not_bit [of f 1] and_exp_eq_0_iff_not_bit [of f 2] by simp_all

text \<open>What the processor makes of an identity map.\<close>

lemma identity_map_translate:
  assumes "identity_map flags m dir"
  shows "translate m dir va
    = (if flags AND 1 = 0 then None else Some (va, flags AND 2 \<noteq> 0, flags AND 4 \<noteq> 0))"
proof -
  let ?f = "ucast flags :: u32"
  let ?d = "page_directory_entry m dir va"
  have te: "page_entry m dir va = (va AND NOT (mask 12)) OR ?f"
    and de: "?d AND mask 12 = ?f OR ucast PAGING_IS_WRITABLE"
    using assms by (simp_all add: identity_map_def page_mask)
  have "bit ?d n \<longleftrightarrow> bit (?d AND mask 12) n" if "n < 12" for n using that by (simp add: bit_simps)
  then have d: "bit ?d n \<longleftrightarrow> bit flags n \<or> n = 1" if "n < 8" for n
    using that unfolding de by (simp add: bit_simps kernel_consts)
  have a: "bit (?d AND page_entry m dir va) n \<longleftrightarrow> bit flags n" if "n < 8" for n
    using that d [OF that] by (auto simp: te bit_simps)
  have "((va AND NOT (mask 12)) OR ?f) AND NOT (mask 12) OR va AND mask 12 = va"
    by (rule bit_word_eqI) (auto simp: bit_simps dest: bit_imp_le_length)
  then show ?thesis
    using a [of 0] a [of 1] a [of 2] by (simp add: translate_def Let_def te page_mask page_flag_bits)
qed

lemma translate_cong:
  assumes "page_entry m' dir va = page_entry m dir va"
    and "page_directory_entry m' dir va = page_directory_entry m dir va"
  shows "translate m' dir va = translate m dir va"
  using assms by (simp add: translate_def)

text \<open>Memory changes off the directory keep the space.\<close>

lemma page_space_frame:
  assumes "page_space m dir ts" and "same_outside R m m'" and "R \<inter> region dir 4096 = {}"
  shows "page_space m' dir ts"
proof -
  have "load32 m' (elem_addr dir 4 i) = load32 m (elem_addr dir 4 i)" if "i < 1024" for i
    using assms(3) elem_within [OF that, of dir 4] by (intro load32_frame [OF assms(2)]) (auto simp: elem_region_def)
  then show ?thesis using assms(1) by (simp add: page_space_def)
qed

section \<open>Setting entries\<close>

lemma paging_set_error: "\<not> paging_is_aligned va \<Longrightarrow> paging_set dir va v m = (- EINVAL, m)"
  by (simp add: paging_set_def paging_get_idxs_def EINVAL_def word_sless_alt)

lemma paging_set_eq:
  assumes "page_space m dir ts" and "paging_is_aligned va"
  shows "paging_set dir va v m = (0, store32 m (slot ts (page_no va)) v)"
proof -
  have "page_no va div 1024 < 1024" using page_no_bound [of va] by (simp add: less_mult_imp_div_less)
  from page_spaceD(2) [OF assms(1) this] show ?thesis
    using assms(2) by (simp add: paging_set_def paging_get_idxs_eq slot_def elem_addr_word)
qed

lemma store_slot:
  assumes "page_space m dir ts" and "n < 1024 * 1024"
  shows "page_space (store32 m (slot ts n) v) dir ts"
    and "page_entry (store32 m (slot ts n) v) dir va = (if page_no va = n then v else page_entry m dir va)"
proof -
  have "n div 1024 < 1024" using assms(2) by (simp add: less_mult_imp_div_less)
  then have "region (slot ts n) 4 \<inter> region dir 4096 = {}"
    using slot_in_table page_spaceD(3) [OF assms(1)] by blast
  then show p: "page_space (store32 m (slot ts n) v) dir ts"
    by (rule page_space_frame [OF assms(1) store32_outside])
  show "page_entry (store32 m (slot ts n) v) dir va = (if page_no va = n then v else page_entry m dir va)"
    using slots_apart [OF assms(1) page_no_bound [of va] assms(2)]
    by (auto simp: page_entry_slot [OF p] page_entry_slot [OF assms(1)] intro: load32_frame [OF store32_outside])
qed

definition tables_region :: "u32 list \<Rightarrow> u32 set" where
  "tables_region ts = (\<Union>t \<in> set ts. region t 4096)"

lemma store_slot_frame:
  assumes "page_space m dir ts" and "n < 1024 * 1024"
  shows "same_outside (tables_region ts) m (store32 m (slot ts n) v)"
proof -
  have "n div 1024 < length ts" using assms by (simp add: page_spaceD(1) less_mult_imp_div_less)
  then have "region (slot ts n) 4 \<subseteq> tables_region ts"
    using slot_in_table [of ts n] nth_mem by (fastforce simp: tables_region_def)
  then show ?thesis using store32_outside same_outside_mono by blast
qed

lemma next_page:
  assumes "paging_is_aligned va"
  shows "paging_is_aligned (va + 4096)"
    and "page_no va + 1 < 1024 * 1024 \<Longrightarrow> page_no (va + 4096) = page_no va + 1"
proof -
  have "unat (va + 4096) = (unat va + 4096) mod 2 ^ 32" by (simp add: unat_word_ariths)
  moreover have "(unat va + 4096) mod 2 ^ 32 mod 4096 = (unat va + 4096) mod 4096"
    by (rule mod_mod_cancel) simp
  ultimately show "paging_is_aligned (va + 4096)" using assms by (simp add: aligned_iff)
  assume "page_no va + 1 < 1024 * 1024"
  then have "unat va + 4096 < 2 ^ 32" using assms unfolding aligned_iff by simp
  then show "page_no (va + 4096) = page_no va + 1"
    using \<open>unat (va + 4096) = _\<close> by simp
qed

definition mapped :: "u32 \<Rightarrow> u32 \<Rightarrow> u32 \<Rightarrow> nat \<Rightarrow> (u32 \<Rightarrow> u32) \<Rightarrow> u32 \<Rightarrow> u32" where
  "mapped va pa flags n old x =
     (if page_no va \<le> page_no x \<and> page_no x < page_no va + n
      then (pa + 4096 * of_nat (page_no x - page_no va)) OR flags else old x)"

lemma mapped_Suc:
  assumes "paging_is_aligned va" and "page_no va + Suc n \<le> 1024 * 1024"
  shows "mapped (va + 4096) (pa + 4096) flags n (\<lambda>x. if page_no x = page_no va then pa OR flags else old x)
    = mapped va pa flags (Suc n) old"
proof (cases n)
  case 0
  then show ?thesis by (auto simp: mapped_def fun_eq_iff)
next
  case (Suc k)
  then have p: "page_no (va + 4096) = page_no va + 1" using next_page [OF assms(1)] assms(2) by simp
  show ?thesis
  proof
    fix x
    show "mapped (va + 4096) (pa + 4096) flags n (\<lambda>x. if page_no x = page_no va then pa OR flags else old x) x
      = mapped va pa flags (Suc n) old x"
    proof (cases "page_no va < page_no x")
      case True
      then obtain d where "page_no x = page_no va + Suc d" by (metis less_imp_Suc_add add_Suc_right)
      then show ?thesis by (simp add: mapped_def p algebra_simps)
    qed (auto simp: mapped_def p)
  qed
qed

lemma paging_map_pages_ok:
  assumes "page_space m dir ts" and "paging_is_aligned va" and "page_no va + (n - i) \<le> 1024 * 1024"
    and "i \<le> n" and "n < 2 ^ 31"
  shows "\<exists>m'. paging_map_pages dir va pa (of_nat n) flags 0 (of_nat i) m = (0, m')
    \<and> page_space m' dir ts \<and> page_entry m' dir = mapped va pa flags (n - i) (page_entry m dir)
    \<and> same_outside (tables_region ts) m m'"
  using assms(1-4)
proof (induction "n - i" arbitrary: i va pa m)
  case 0
  then have "\<not> (of_nat i :: u32) <s of_nat n" using assms(5) by (simp add: word_sless_alt)
  then show ?case using 0
    by (subst paging_map_pages.simps) (auto simp: mapped_def fun_eq_iff)
next
  case (Suc k)
  then have i: "i < n" by simp
  have lt: "(of_nat i :: u32) <s of_nat n"
    using i assms(5) by (simp add: word_sless_alt sint_of_nat32)
  let ?m = "store32 m (slot ts (page_no va)) (pa OR flags)"
  note st = store_slot [OF Suc.prems(1) page_no_bound [of va], where v = "pa OR flags"]
  have pn: "page_no (va + 4096) + (n - Suc i) \<le> 1024 * 1024"
  proof (cases "n - Suc i")
    case 0
    then show ?thesis using page_no_bound [of "va + 4096"] by simp
  next
    case (Suc j)
    then have "page_no va + 1 < 1024 * 1024" using \<open>page_no va + (n - i) \<le> _\<close> by linarith
    then show ?thesis using next_page(2) [OF \<open>paging_is_aligned va\<close>] Suc \<open>page_no va + (n - i) \<le> _\<close> by linarith
  qed
  have k: "k = n - Suc i" "Suc i \<le> n" using Suc.hyps(2) i by simp_all
  obtain m' where m': "paging_map_pages dir (va + 4096) (pa + 4096) (of_nat n) flags 0 (of_nat (Suc i)) ?m = (0, m')"
    "page_space m' dir ts" "page_entry m' dir = mapped (va + 4096) (pa + 4096) flags (n - Suc i) (page_entry ?m dir)"
    "same_outside (tables_region ts) ?m m'"
    using Suc.hyps(1) [OF k(1) st(1) next_page(1) [OF Suc.prems(2)] pn k(2), of "pa + 4096"] by blast
  have "page_entry m' dir = mapped va pa flags (n - i) (page_entry m dir)"
    using mapped_Suc [OF Suc.prems(2), of "n - Suc i" pa flags "page_entry m dir"] Suc.prems(3) i
    by (simp add: m'(3) st(2) [abs_def] Suc_diff_Suc)
  moreover have "same_outside (tables_region ts) m m'"
    using same_outside_trans [OF store_slot_frame [OF Suc.prems(1) page_no_bound] m'(4)] by simp
  moreover have "paging_map_pages dir va pa (of_nat n) flags 0 (of_nat i) m = (0, m')"
    using m'(1) lt by (subst paging_map_pages.simps)
      (simp add: paging_set_eq [OF Suc.prems(1,2)] PAGING_PAGE_SIZE_def add.commute)
  ultimately show ?case using m'(2) by blast
qed

section \<open>\<open>paging_map\<close>\<close>

text \<open>Bad arguments are refused and change nothing.\<close>

lemma paging_map_error:
  assumes "\<not> paging_is_aligned va \<or> \<not> paging_is_aligned pa \<or> \<not> paging_is_aligned pe \<or> pe < pa"
  shows "paging_map dir va pa pe flags m = (- EINVAL, m)"
  using assms by (auto simp: paging_map_def)

text \<open>Good arguments below 2 GB map one page for every four of the range.\<close>

lemma paging_map_ok:
  assumes "page_space m dir ts" and "paging_is_aligned va" and "paging_is_aligned pa" and "paging_is_aligned pe"
    and "pa \<le> pe" and "unat pe - unat pa < 2 ^ 31"
    and "page_no va + (unat pe - unat pa) div 16384 \<le> 1024 * 1024"
  shows "\<exists>m'. paging_map dir va pa pe flags m = (0, m') \<and> page_space m' dir ts
    \<and> page_entry m' dir = mapped va pa flags ((unat pe - unat pa) div 16384) (page_entry m dir)
    \<and> same_outside (tables_region ts) m m'"
proof -
  let ?b = "unat pe - unat pa" and ?n = "(unat pe - unat pa) div 16384"
  have u: "unat (pe - pa) = ?b" using assms(5) by (simp add: unat_sub)
  then have "int_div (pe - pa) 4 = (pe - pa) div 4"
    using assms(6) by (intro int_div_nonneg) (simp_all add: nonneg_unat)
  then have t: "int_div (pe - pa) 4 div PAGING_PAGE_SIZE = of_nat ?n"
    using assms(6)
    by (simp add: word_unat_eq_iff unat_div_distrib u kernel_consts unat_of_nat32 div_mult2_eq [symmetric])
  have "?n < 2 ^ 31" using assms(6) by simp
  then show ?thesis
    using paging_map_pages_ok [OF assms(1,2), of ?n 0 pa flags] assms(3-5,7)
    by (simp add: paging_map_def assms(2) t leD [OF assms(5)])
qed

section \<open>Alignment\<close>

text \<open>An unaligned address is moved by its own page's end instead of to it, and stays unaligned.\<close>

lemma paging_align_aligned: "paging_is_aligned a \<Longrightarrow> paging_align a = a"
  by (simp add: paging_align_def paging_is_aligned_def)

lemma add_pages_mod: "unat (a + 4096 * x :: u32) mod 4096 = unat a mod 4096"
proof -
  have c: "y mod 4294967296 mod 4096 = y mod 4096" for y :: nat by (rule mod_mod_cancel) simp
  have "unat (a + 4096 * x) mod 4096 = (unat a + unat (4096 * x)) mod 4096"
    by (simp add: unat_word_ariths(1) c)
  also have "unat (4096 * x) mod 4096 = 0" by (simp add: unat_word_ariths(2) c)
  then have "(unat a + unat (4096 * x)) mod 4096 = unat a mod 4096" by (metis mod_add_right_eq add_0_right)
  finally show ?thesis .
qed

lemma paging_align_never: "paging_is_aligned (paging_align a) \<longleftrightarrow> paging_is_aligned a"
proof (cases "paging_is_aligned a")
  case False
  then have "paging_align a = a + 4096 * (a div 4096 + 1)"
    using minus_mod_eq_mult_div [of a 4096]
    by (simp add: paging_align_def paging_is_aligned_def kernel_consts algebra_simps)
  then show ?thesis by (simp only: aligned_iff add_pages_mod)
qed (simp add: paging_align_aligned)

section \<open>Building a table\<close>

definition write_pte :: "u32 \<Rightarrow> (nat \<Rightarrow> u32) \<Rightarrow> nat \<Rightarrow> mem \<Rightarrow> mem" where
  "write_pte tab f i m = store32 m (elem_addr tab 4 i) (f i)"

interpretation page_table: array_writer tab 4 1024 "write_pte tab f"
  "\<lambda>i m. load32 m (elem_addr tab 4 i) = f i" for tab f
  using word_array [of 1024 tab f] by (simp add: write_pte_def [abs_def])

definition identity_pte :: "u32 \<Rightarrow> u8 \<Rightarrow> nat \<Rightarrow> u32" where
  "identity_pte offset flags i = (offset + of_nat i * 4096) OR ucast flags"

lemma paging_fill_table_eq:
  assumes "i \<le> 1024"
  shows "paging_fill_table tab offset flags (of_nat i) m = fold (write_pte tab (identity_pte offset flags)) [i..<1024] m"
  using assms
proof (induction "1024 - i" arbitrary: i m)
  case 0
  then show ?case by (subst paging_fill_table.simps) (simp add: kernel_consts)
next
  case (Suc k)
  then have i: "i < 1024" by simp
  have "(of_nat i :: u32) < PAGING_TOTAL_ENTRIES_PER_TABLE"
    using i by (simp add: kernel_consts word_less_nat_alt unat_of_nat32)
  then show ?case using i Suc.hyps(2) Suc.hyps(1) [of "Suc i" "write_pte tab (identity_pte offset flags) i m"]
    by (subst paging_fill_table.simps)
      (simp add: write_pte_def identity_pte_def elem_addr_word PAGING_PAGE_SIZE_def add.commute upt_conv_Cons)
qed

lemma paging_fill_table_ok:
  shows "j < 1024 \<Longrightarrow> load32 (paging_fill_table tab offset flags 0 m) (elem_addr tab 4 j) = identity_pte offset flags j"
    and "same_outside (region tab 4096) m (paging_fill_table tab offset flags 0 m)"
  using page_table.fill_ok [of j 1024 tab "identity_pte offset flags" m]
    page_table.fill_frame [of 1024 tab m "identity_pte offset flags"]
    paging_fill_table_eq [of 0 tab offset flags m] by simp_all

section \<open>Building a directory\<close>

text \<open>The blocks of a half-built space: a directory and the tables so far, all live.\<close>

definition owned :: "'a kheap_state_scheme \<Rightarrow> u32 \<times> nat \<Rightarrow> (u32 \<times> nat) list \<Rightarrow> bool" where
  "owned s d ts \<longleftrightarrow> d \<in> kheap_live s \<and> 4096 \<le> snd d \<and> set ts \<subseteq> kheap_live s \<and> d \<notin> set ts \<and> distinct ts
     \<and> (\<forall>t \<in> set ts. 4096 \<le> snd t)"

definition dir_built :: "mem \<Rightarrow> u8 \<Rightarrow> u32 \<Rightarrow> (u32 \<times> nat) list \<Rightarrow> bool" where
  "dir_built m flags dir ts \<longleftrightarrow> (\<forall>i < length ts.
     load32 m (elem_addr dir 4 i) = fst (ts ! i) OR ucast flags OR ucast PAGING_IS_WRITABLE
     \<and> (\<forall>j < 1024. load32 m (elem_addr (fst (ts ! i)) 4 j) = identity_pte (of_nat (i * 4194304)) flags j))"

abbreviation blocks_region :: "(u32 \<times> nat) set \<Rightarrow> u32 set" where
  "blocks_region B \<equiv> (\<Union>(p, k) \<in> B. region p k)"

lemma block_elem: "4096 \<le> k \<Longrightarrow> j < 1024 \<Longrightarrow> region (elem_addr t 4 j) 4 \<subseteq> region t k"
  using elem_within [of j 1024 t 4] region_mono [of 4096 k t] by (auto simp: elem_region_def)

lemma index_less: "i < 1024 \<Longrightarrow> (of_nat i :: u32) < PAGING_TOTAL_ENTRIES_PER_TABLE"
  by (simp add: PAGING_TOTAL_ENTRIES_PER_TABLE_def word_less_nat_alt unat_of_nat32)

lemma owned_tables:
  assumes "kheap_inv s" and "owned s d ts" and "t \<in> set ts"
  shows "(fst t, snd t) \<in> kheap_live s" and "4096 \<le> snd t" and "region (fst t) (snd t) \<inter> kheap_meta = {}"
    and "region (fst t) (snd t) \<inter> region (fst d) (snd d) = {}"
proof -
  have t: "(fst t, snd t) \<in> kheap_live s" "4096 \<le> snd t" "(fst t, snd t) \<noteq> (fst d, snd d)"
    and d: "(fst d, snd d) \<in> kheap_live s"
    using assms(2,3) by (auto simp: owned_def)
  then show "(fst t, snd t) \<in> kheap_live s" "4096 \<le> snd t" "region (fst t) (snd t) \<inter> kheap_meta = {}"
    "region (fst t) (snd t) \<inter> region (fst d) (snd d) = {}"
    using kheap_live_off_meta(1) [OF assms(1) t(1)] kheap_live_apart [OF assms(1) t(1) d t(3)] by simp_all
qed

lemma blocks_for_table [simp]: "blocks_for 4096 = 2"
  by (simp add: blocks_for_def)

text \<open>One round of the loop on memory: a table is filled in a fresh block and entered.\<close>

lemma dir_built_step:
  assumes "dir_built m flags dir ts" and "length ts < 1024"
    and fill: "m2 = paging_fill_table p (of_nat (length ts * 4194304)) flags 0 m1"
    and enter: "m3 = store32 m2 (elem_addr dir 4 (length ts)) (p OR ucast flags OR ucast PAGING_IS_WRITABLE)"
    and R: "same_outside R m m2" "region dir 4096 \<inter> R = {}" "region p 4096 \<inter> region dir 4096 = {}"
    and tabs: "\<And>t. t \<in> set ts \<Longrightarrow> 4096 \<le> snd t \<and> region (fst t) (snd t) \<inter> (R \<union> region dir 4096) = {}"
  shows "dir_built m3 flags dir (ts @ [(p, n)])"
  unfolding dir_built_def
proof (intro allI impI)
  fix i assume i: "i < length (ts @ [(p, n)])"
  have s3: "same_outside (elem_region dir 4 (length ts)) m2 m3"
    unfolding enter elem_region_def by (rule store32_outside)
  have dk: "elem_region dir 4 (length ts) \<subseteq> region dir 4096" using elem_within [OF assms(2), of dir 4] by simp
  have s13: "same_outside (R \<union> elem_region dir 4 (length ts)) m m3" by (rule same_outside_trans [OF R(1) s3])
  show "load32 m3 (elem_addr dir 4 i) = fst ((ts @ [(p, n)]) ! i) OR ucast flags OR ucast PAGING_IS_WRITABLE
    \<and> (\<forall>j < 1024. load32 m3 (elem_addr (fst ((ts @ [(p, n)]) ! i)) 4 j) = identity_pte (of_nat (i * 4194304)) flags j)"
  proof (cases "i < length ts")
    case True
    have "elem_region dir 4 i \<inter> elem_region dir 4 (length ts) = {}" "elem_region dir 4 i \<subseteq> region dir 4096"
      using True assms(2) elems_apart [of i 1024 "length ts" 4 dir] elem_within [of i 1024 dir 4] by simp_all
    then have "load32 m3 (elem_addr dir 4 i) = load32 m (elem_addr dir 4 i)"
      using R(2) by (intro load32_frame [OF s13]) (auto simp: elem_region_def)
    moreover have "load32 m3 (elem_addr (fst (ts ! i)) 4 j) = load32 m (elem_addr (fst (ts ! i)) 4 j)" if "j < 1024" for j
      using tabs [of "ts ! i"] block_elem [of "snd (ts ! i)" j "fst (ts ! i)"] True that dk
      by (intro load32_frame [OF s13]) fastforce
    ultimately show ?thesis using assms(1) True by (simp add: dir_built_def nth_append)
  next
    case False
    then have [simp]: "i = length ts" using i by simp
    have "load32 m3 (elem_addr p 4 j) = load32 m2 (elem_addr p 4 j)" if "j < 1024" for j
      using block_elem [of 4096 j p] that dk R(3) by (intro load32_frame [OF s3]) fastforce
    then show ?thesis by (simp add: enter fill paging_fill_table_ok)
  qed
qed

lemma fill_directory_step:
  fixes s :: "'a kheap_state_scheme"
  assumes "kheap_inv s" and "kheap_cap s n" and "2 \<le> n" and "owned s d ts" and "dir_built (mem s) flags (fst d) ts"
    and "length ts < 1024"
  obtains p k m where "paging_fill_directory (fst d) flags (of_nat (length ts * 4194304)) (of_nat (length ts)) s =
      paging_fill_directory (fst d) flags (of_nat (Suc (length ts) * 4194304)) (of_nat (Suc (length ts))) (s\<lparr>mem := m\<rparr>)"
    and "kheap_inv (s\<lparr>mem := m\<rparr>)" and "kheap_cap (s\<lparr>mem := m\<rparr>) (n - 2)"
    and "kheap_live (s\<lparr>mem := m\<rparr>) = insert (p, k) (kheap_live s)" and "(p, k) \<notin> kheap_live s"
    and "owned (s\<lparr>mem := m\<rparr>) d (ts @ [(p, k)])" and "dir_built m flags (fst d) (ts @ [(p, k)])"
    and "p mod 4096 = 0"
    and "same_outside (region p k \<union> region (fst d) (snd d) \<union> kheap_meta) (mem s) m"
proof -
  let ?dir = "fst d"
  have d: "(?dir, snd d) \<in> kheap_live s" "4096 \<le> snd d" using assms(4) by (simp_all add: owned_def)
  have need: "blocks_for 4096 \<le> n" using assms(3) by simp
  obtain p k m1 where a: "kzalloc 4096 s = Some (p, s\<lparr>mem := m1\<rparr>)" "unat (4096 :: u32) \<le> k" "p mod 4096 = 0"
      "region p k \<inter> kheap_meta = {}"
    and apart: "\<And>q j. (q, j) \<in> kheap_live s \<Longrightarrow> region p k \<inter> region q j = {}"
    and w: "\<And>m2. same_outside (region p k) m1 m2 \<Longrightarrow> kheap_inv (s\<lparr>mem := m2\<rparr>)
      \<and> kheap_live (s\<lparr>mem := m2\<rparr>) = insert (p, k) (kheap_live s) \<and> kheap_cap (s\<lparr>mem := m2\<rparr>) (n - blocks_for 4096)
      \<and> same_outside (region p k \<union> kheap_meta) (mem s) m2"
    by (rule kz.alloc_fill [OF assms(1,2) need]) metis
  define m2 where "m2 = paging_fill_table p (of_nat (length ts * 4194304)) flags 0 m1"
  define m3 where "m3 = store32 m2 (elem_addr ?dir 4 (length ts)) (p OR ucast flags OR ucast PAGING_IS_WRITABLE)"
  have k: "4096 \<le> k" using a(2) by simp
  have "same_outside (region p k) m1 m2"
    unfolding m2_def using paging_fill_table_ok(2) region_mono [OF k] by (rule same_outside_mono)
  from w [OF this] have s2: "kheap_inv (s\<lparr>mem := m2\<rparr>)" "kheap_live (s\<lparr>mem := m2\<rparr>) = insert (p, k) (kheap_live s)"
    "kheap_cap (s\<lparr>mem := m2\<rparr>) (n - 2)" "same_outside (region p k \<union> kheap_meta) (mem s) m2" by simp_all
  have w3: "same_outside (region ?dir (snd d)) m2 m3"
    unfolding m3_def using store32_outside block_elem [OF d(2) assms(6), of ?dir] by (rule same_outside_mono)
  have doff: "region ?dir (snd d) \<inter> kheap_meta = {}" by (rule kheap_live_off_meta [OF assms(1) d(1)])
  have s3: "kheap_inv (s\<lparr>mem := m3\<rparr>)" "kheap_live (s\<lparr>mem := m3\<rparr>) = insert (p, k) (kheap_live s)"
    "kheap_cap (s\<lparr>mem := m3\<rparr>) (n - 2)"
    using kheap_client_write [OF s2(1), of "region ?dir (snd d)" m3] kheap_cap_write [OF s2(1), of "region ?dir (snd d)" m3]
      w3 doff s2 by simp_all
  have new: "(p, k) \<notin> kheap_live s"
    using apart [of p k] base_mem_region [of p k] k by fastforce
  have sub: "region ?dir 4096 \<subseteq> region ?dir (snd d)" "region p 4096 \<subseteq> region p k" using d(2) k by (simp_all add: region_mono)
  have tabs: "4096 \<le> snd t \<and> region (fst t) (snd t) \<inter> (region p k \<union> kheap_meta \<union> region ?dir 4096) = {}"
    if "t \<in> set ts" for t
    using owned_tables [OF assms(1,4) that] apart [of "fst t" "snd t"] sub by blast
  have built: "dir_built m3 flags ?dir (ts @ [(p, k)])"
    by (rule dir_built_step [OF assms(5,6) m2_def m3_def s2(4)]) (use apart [OF d(1)] doff sub tabs in blast)+
  have own: "owned (s\<lparr>mem := m3\<rparr>) d (ts @ [(p, k)])"
    using assms(4) s3(2) new k by (auto simp: owned_def)
  have step: "paging_fill_directory ?dir flags (of_nat (length ts * 4194304)) (of_nat (length ts)) s =
      paging_fill_directory ?dir flags (of_nat (Suc (length ts) * 4194304)) (of_nat (Suc (length ts))) (s\<lparr>mem := m3\<rparr>)"
  proof -
    have "(of_nat (Suc (length ts) * 4194304) :: u32) =
        of_nat (length ts * 4194304) + PAGING_TOTAL_ENTRIES_PER_TABLE * PAGING_PAGE_SIZE"
      by (simp add: kernel_consts algebra_simps)
    moreover have "(of_nat (Suc (length ts)) :: u32) = of_nat (length ts) + 1" by simp
    moreover have "4 * PAGING_TOTAL_ENTRIES_PER_TABLE = 4096" by (simp add: kernel_consts)
    ultimately show ?thesis
      by (subst paging_fill_directory.simps)
        (simp only: index_less [OF assms(6)] if_True a(1) option.case prod.case Let_def m2_def m3_def
          elem_addr_word mach.simps, simp)
  qed
  have "same_outside (region p k \<union> region ?dir (snd d) \<union> kheap_meta) (mem s) m3"
    using same_outside_trans [OF s2(4) w3] by (rule same_outside_mono) blast
  then show ?thesis by (rule that [OF step s3(1,3,2) new own built a(3)])
qed

text \<open>The loop from any point on.\<close>

lemma fill_directory_ok:
  fixes s :: "'a kheap_state_scheme"
  assumes "kheap_inv s" and "kheap_cap s (2 * (1024 - length ts) + c)" and "owned s d ts"
    and "dir_built (mem s) flags (fst d) ts" and "length ts \<le> 1024"
  shows "\<exists>us m. paging_fill_directory (fst d) flags (of_nat (length ts * 4194304)) (of_nat (length ts)) s = Some (s\<lparr>mem := m\<rparr>)
    \<and> length ts + length us = 1024 \<and> kheap_inv (s\<lparr>mem := m\<rparr>) \<and> kheap_cap (s\<lparr>mem := m\<rparr>) c
    \<and> kheap_live (s\<lparr>mem := m\<rparr>) = kheap_live s \<union> set us \<and> set us \<inter> kheap_live s = {}
    \<and> owned (s\<lparr>mem := m\<rparr>) d (ts @ us) \<and> dir_built m flags (fst d) (ts @ us)
    \<and> (\<forall>t \<in> set us. fst t mod 4096 = 0)
    \<and> same_outside (blocks_region (set us) \<union> region (fst d) (snd d) \<union> kheap_meta) (mem s) m"
  using assms
proof (induction "1024 - length ts" arbitrary: s ts)
  case 0
  then show ?case by (intro exI [of _ "[]"] exI [of _ "mem s"], subst paging_fill_directory.simps)
    (simp add: PAGING_TOTAL_ENTRIES_PER_TABLE_def)
next
  case (Suc x)
  then have l: "length ts < 1024" and c: "2 \<le> 2 * (1024 - length ts) + c" by simp_all
  obtain p k m where st: "paging_fill_directory (fst d) flags (of_nat (length ts * 4194304)) (of_nat (length ts)) s =
      paging_fill_directory (fst d) flags (of_nat (Suc (length ts) * 4194304)) (of_nat (Suc (length ts))) (s\<lparr>mem := m\<rparr>)"
    "kheap_inv (s\<lparr>mem := m\<rparr>)" "kheap_cap (s\<lparr>mem := m\<rparr>) (2 * (1024 - length ts) + c - 2)"
    "kheap_live (s\<lparr>mem := m\<rparr>) = insert (p, k) (kheap_live s)" "(p, k) \<notin> kheap_live s"
    "owned (s\<lparr>mem := m\<rparr>) d (ts @ [(p, k)])" "dir_built m flags (fst d) (ts @ [(p, k)])" "p mod 4096 = 0"
    "same_outside (region p k \<union> region (fst d) (snd d) \<union> kheap_meta) (mem s) m"
    by (rule fill_directory_step [OF Suc.prems(1,2) c Suc.prems(3,4) l])
  have c': "2 * (1024 - length ts) + c - 2 = 2 * (1024 - length (ts @ [(p, k)])) + c" using l by simp
  have x: "x = 1024 - length (ts @ [(p, k)])" "length (ts @ [(p, k)]) \<le> 1024" using Suc.hyps(2) by simp_all
  obtain us m' where r: "paging_fill_directory (fst d) flags (of_nat (Suc (length ts) * 4194304)) (of_nat (Suc (length ts)))
      (s\<lparr>mem := m\<rparr>) = Some (s\<lparr>mem := m'\<rparr>)" "length (ts @ [(p, k)]) + length us = 1024"
    "kheap_inv (s\<lparr>mem := m'\<rparr>)" "kheap_cap (s\<lparr>mem := m'\<rparr>) c"
    "kheap_live (s\<lparr>mem := m'\<rparr>) = insert (p, k) (kheap_live s) \<union> set us"
    "set us \<inter> insert (p, k) (kheap_live s) = {}"
    "owned (s\<lparr>mem := m'\<rparr>) d ((ts @ [(p, k)]) @ us)" "dir_built m' flags (fst d) ((ts @ [(p, k)]) @ us)"
    "\<forall>t \<in> set us. fst t mod 4096 = 0"
    "same_outside (blocks_region (set us) \<union> region (fst d) (snd d) \<union> kheap_meta) m m'"
    using Suc.hyps(1) [OF x(1) st(2) st(3) [unfolded c'] st(6) _ x(2)] st(4,7)
    by (auto simp del: of_nat_mult of_nat_Suc mult_Suc)
  have "same_outside (blocks_region (set ((p, k) # us)) \<union> region (fst d) (snd d) \<union> kheap_meta) (mem s) m'"
    using same_outside_trans [OF st(9) r(10)] by (rule same_outside_mono) auto
  then show ?case using st(1,5,8) r(1-9) by (intro exI [of _ "(p, k) # us"] exI [of _ m']) auto
qed

section \<open>A new address space\<close>

lemma page_frame_word: "of_nat (page_no va * 4096) = va AND (0xfffff000 :: u32)"
proof -
  have m: "(0xfffff000 :: u32) = NOT (mask 12)" by (simp add: mask_eq_exp_minus_1)
  have "va AND 0xfffff000 = push_bit 12 (drop_bit 12 va)"
    unfolding m by (rule bit_word_eqI) (auto simp: bit_simps)
  moreover have "drop_bit 12 va = of_nat (page_no va)"
    by (simp add: word_unat_eq_iff unat_drop_bit_eq drop_bit_eq_div unat_of_nat32 unat_div_distrib
      order.strict_trans1 [OF div_le_dividend unat_bound [of va, simplified]])
  ultimately show ?thesis by (simp add: push_bit_eq_mult mult.commute)
qed

lemma mask_table_entry:
  assumes "p mod 4096 = 0"
  shows "(p OR ucast (flags :: u8) OR ucast PAGING_IS_WRITABLE) AND PAGING_ADDRESS_MASK = p"
proof -
  have m: "PAGING_ADDRESS_MASK = NOT (mask 12)" by (simp add: kernel_consts mask_eq_exp_minus_1)
  have w: "(ucast PAGING_IS_WRITABLE :: u32) AND NOT (mask 12) = 0"
    by (simp add: kernel_consts mask_eq_exp_minus_1)
  have "take_bit 12 p = 0" using assms by (simp add: take_bit_eq_mod)
  then have "\<not> bit p n" if "n < 12" for n using that by (metis bit_0_eq bit_take_bit_iff bot_apply bot_bool_def)
  then have p: "p AND NOT (mask 12) = p" by (intro bit_word_eqI) (force simp: bit_simps simp flip: not_less)
  have f: "(ucast flags :: u32) AND NOT (mask 12) = 0"
    by (rule bit_word_eqI) (auto simp: bit_simps dest: bit_imp_le_length)
  show ?thesis by (simp only: m and.commute [of _ "NOT (mask 12)"] conj_disj_distribL bit.conj_disj_distrib)
      (simp only: and.commute [of "NOT (mask 12)"] p f w or.right_neutral)
qed

text \<open>A chunk with its directory and 1024 tables, each in a live block of its own.\<close>

definition chunk_ok :: "'a kheap_state_scheme \<Rightarrow> u32 \<times> nat \<Rightarrow> u32 \<times> nat \<Rightarrow> (u32 \<times> nat) list \<Rightarrow> bool" where
  "chunk_ok s cb d ts \<longleftrightarrow> cb \<in> kheap_live s \<and> 4 \<le> snd cb \<and> cb \<noteq> d \<and> cb \<notin> set ts \<and> load32 (mem s) (fst cb) = fst d
     \<and> owned s d ts \<and> length ts = 1024
     \<and> (\<forall>i < 1024. load32 (mem s) (elem_addr (fst d) 4 i) AND PAGING_ADDRESS_MASK = fst (ts ! i))"

lemma chunk_page_space:
  assumes "kheap_inv s" and "chunk_ok s cb d ts"
  shows "page_space (mem s) (fst d) (map fst ts)"
proof -
  have o: "owned s d ts" and l: "length ts = 1024" using assms(2) by (simp_all add: chunk_ok_def)
  have t: "region (fst (ts ! i)) 4096 \<subseteq> region (fst (ts ! i)) (snd (ts ! i))"
    "(fst (ts ! i), snd (ts ! i)) \<in> kheap_live s"
    "region (fst (ts ! i)) (snd (ts ! i)) \<inter> region (fst d) (snd d) = {}" if "i < 1024" for i
    using owned_tables [OF assms(1) o, of "ts ! i"] that l by (simp_all add: region_mono)
  have "region (fst d) 4096 \<subseteq> region (fst d) (snd d)" using o by (simp add: owned_def region_mono)
  then have "region (fst (ts ! i)) 4096 \<inter> region (fst d) 4096 = {}" if "i < 1024" for i
    using t(1,3) [OF that] by blast
  moreover have "region (fst (ts ! i)) 4096 \<inter> region (fst (ts ! j)) 4096 = {}" if "i < 1024" "j < 1024" "i \<noteq> j" for i j
  proof -
    have "ts ! i \<noteq> ts ! j" using o that l by (simp add: owned_def nth_eq_iff_index_eq)
    then have "(fst (ts ! i), snd (ts ! i)) \<noteq> (fst (ts ! j), snd (ts ! j))" by simp
    from kheap_live_apart [OF assms(1) t(2) [OF that(1)] t(2) [OF that(2)] this]
    show ?thesis using t(1) [OF that(1)] t(1) [OF that(2)] by blast
  qed
  ultimately show ?thesis using assms(2) l by (simp add: page_space_def chunk_ok_def)
qed

lemma built_identity:
  assumes "dir_built m flags dir ts" and "page_space m dir (map fst ts)"
  shows "page_entry m dir va = (va AND 0xfffff000) OR ucast flags"
proof -
  let ?i = "page_no va div 1024" and ?j = "page_no va mod 1024"
  have "?i < 1024" using page_no_bound [of va] by (simp add: less_mult_imp_div_less)
  moreover have l: "length ts = 1024" using page_spaceD(1) [OF assms(2)] by simp
  ultimately have "page_entry m dir va = identity_pte (of_nat (?i * 4194304)) flags ?j"
    using assms(1) by (simp add: page_entry_slot [OF assms(2)] slot_def dir_built_def)
  also have "\<dots> = of_nat (?i * 4194304 + ?j * 4096) OR ucast flags" by (simp add: identity_pte_def)
  also have "?i * 4194304 + ?j * 4096 = page_no va * 4096"
    using div_mult_mod_eq [of "page_no va" 1024] by linarith
  finally show ?thesis by (simp only: page_frame_word)
qed

lemma built_identity_map:
  assumes "dir_built m flags dir ts" and "page_space m dir (map fst ts)" and "\<forall>t \<in> set ts. fst t mod 4096 = 0"
  shows "identity_map flags m dir"
proof -
  have "page_directory_entry m dir va AND 0xfff = ucast flags OR ucast PAGING_IS_WRITABLE" for va
  proof -
    let ?i = "page_no va div 1024"
    have i: "?i < length ts"
      using page_no_bound [of va] page_spaceD(1) [OF assms(2)] by (simp add: less_mult_imp_div_less)
    then have "fst (ts ! ?i) mod 4096 = 0" using assms(3) by simp
    then have "take_bit 12 (fst (ts ! ?i)) = 0" by (simp add: take_bit_eq_mod)
    then have p: "fst (ts ! ?i) AND mask 12 = 0" by (simp add: take_bit_eq_mask)
    have f: "(ucast flags :: u32) AND mask 12 = ucast flags"
      by (rule bit_word_eqI) (auto simp: bit_simps dest: bit_imp_le_length)
    have w: "(ucast PAGING_IS_WRITABLE :: u32) AND mask 12 = ucast PAGING_IS_WRITABLE"
      by (simp add: kernel_consts mask_eq_exp_minus_1)
    have "page_directory_entry m dir va = fst (ts ! ?i) OR ucast flags OR ucast PAGING_IS_WRITABLE"
      using assms(1) i by (simp add: page_directory_entry_elem dir_built_def)
    then show ?thesis by (simp only: page_mask bit.conj_disj_distrib2 p f w or.left_neutral)
  qed
  then show ?thesis using built_identity [OF assms(1,2)] by (simp add: identity_map_def)
qed

lemma dir_built_frame:
  assumes "dir_built m flags dir ts" and "length ts \<le> 1024" and "same_outside R m m'" and "region dir 4096 \<inter> R = {}"
    and "\<And>t. t \<in> set ts \<Longrightarrow> region (fst t) 4096 \<inter> R = {}"
  shows "dir_built m' flags dir ts"
proof -
  have "load32 m' (elem_addr b 4 j) = load32 m (elem_addr b 4 j)" if "j < 1024" "region b 4096 \<inter> R = {}" for b j
    using that block_elem [of 4096 j b] by (intro load32_frame [OF assms(3)]) auto
  then show ?thesis using assms(1,2,4,5) by (simp add: dir_built_def)
qed

text \<open>Phase one and two of \<^verbatim>\<open>paging_new\<close>: the directory and its tables.\<close>

lemma directory_ok:
  fixes s :: "'a kheap_state_scheme"
  assumes "kheap_inv s" and "kheap_cap s (2050 + c)"
  shows "\<exists>d ts m1 m. kzalloc 4096 s = Some (fst d, s\<lparr>mem := m1\<rparr>)
    \<and> paging_fill_directory (fst d) flags 0 0 (s\<lparr>mem := m1\<rparr>) = Some (s\<lparr>mem := m\<rparr>)
    \<and> kheap_inv (s\<lparr>mem := m\<rparr>) \<and> kheap_cap (s\<lparr>mem := m\<rparr>) c
    \<and> kheap_live (s\<lparr>mem := m\<rparr>) = kheap_live s \<union> insert d (set ts) \<and> insert d (set ts) \<inter> kheap_live s = {}
    \<and> owned (s\<lparr>mem := m\<rparr>) d ts \<and> length ts = 1024 \<and> dir_built m flags (fst d) ts
    \<and> (\<forall>t \<in> set ts. fst t mod 4096 = 0)
    \<and> same_outside (blocks_region (insert d (set ts)) \<union> kheap_meta) (mem s) m"
proof -
  obtain p k m1 where a: "kzalloc 4096 s = Some (p, s\<lparr>mem := m1\<rparr>)" "unat (4096 :: u32) \<le> k"
    and apart: "\<And>q j. (q, j) \<in> kheap_live s \<Longrightarrow> region p k \<inter> region q j = {}"
    and w: "\<And>m2. same_outside (region p k) m1 m2 \<Longrightarrow> kheap_inv (s\<lparr>mem := m2\<rparr>)
      \<and> kheap_live (s\<lparr>mem := m2\<rparr>) = insert (p, k) (kheap_live s) \<and> kheap_cap (s\<lparr>mem := m2\<rparr>) (2050 + c - blocks_for 4096)
      \<and> same_outside (region p k \<union> kheap_meta) (mem s) m2"
    by (rule kz.alloc_fill [OF assms, of 4096]) (simp, metis)
  define s1 where "s1 = s\<lparr>mem := m1\<rparr>"
  have s1: "kheap_inv s1" "kheap_live s1 = insert (p, k) (kheap_live s)" "kheap_cap s1 (2048 + c)"
    and f1: "same_outside (region p k \<union> kheap_meta) (mem s) m1"
    using w [of m1] by (simp_all add: s1_def)
  have new: "(p, k) \<notin> kheap_live s" using apart [of p k] base_mem_region [of p k] a(2) by fastforce
  have "owned s1 (p, k) []" using s1(2) a(2) by (simp add: owned_def)
  from fill_directory_ok [OF s1(1) _ this, of c flags] s1(3)
  obtain us m where r: "paging_fill_directory p flags 0 0 s1 = Some (s1\<lparr>mem := m\<rparr>)"
    "length us = 1024" "kheap_inv (s1\<lparr>mem := m\<rparr>)" "kheap_cap (s1\<lparr>mem := m\<rparr>) c"
    "kheap_live (s1\<lparr>mem := m\<rparr>) = kheap_live s1 \<union> set us" "set us \<inter> kheap_live s1 = {}"
    "owned (s1\<lparr>mem := m\<rparr>) (p, k) us" "dir_built m flags p us" "\<forall>t \<in> set us. fst t mod 4096 = 0"
    "same_outside (blocks_region (set us) \<union> region p k \<union> kheap_meta) m1 m"
    by (auto simp: dir_built_def s1_def)
  have "same_outside (blocks_region (insert (p, k) (set us)) \<union> kheap_meta) (mem s) m"
    using same_outside_trans [OF f1 r(10)] by (rule same_outside_mono) auto
  then show ?thesis using a(1) r new s1(2)
    by (intro exI [of _ "(p, k)"] exI [of _ us] exI [of _ m1] exI [of _ m]) (auto simp: s1_def)
qed

lemma blocks_for_chunk [simp]: "blocks_for 4 = 1"
  by (simp add: blocks_for_def)

text \<open>\<^verbatim>\<open>paging_new\<close> returns an identity map of the whole address space, built in fresh blocks.\<close>

lemma paging_new_ok:
  fixes s :: "'a kheap_state_scheme"
  assumes "kheap_inv s" and "kheap_cap s (2051 + c)"
  shows "\<exists>cb d ts m. paging_new flags s = Some (fst cb, s\<lparr>mem := m\<rparr>) \<and> kheap_inv (s\<lparr>mem := m\<rparr>)
    \<and> kheap_cap (s\<lparr>mem := m\<rparr>) c \<and> chunk_ok (s\<lparr>mem := m\<rparr>) cb d ts
    \<and> kheap_live (s\<lparr>mem := m\<rparr>) = kheap_live s \<union> ({cb, d} \<union> set ts) \<and> ({cb, d} \<union> set ts) \<inter> kheap_live s = {}
    \<and> (\<forall>va. page_entry m (fst d) va = (va AND 0xfffff000) OR ucast flags)
    \<and> identity_map flags m (fst d)
    \<and> (\<forall>i < 1024. load32 m (elem_addr (fst d) 4 i) = fst (ts ! i) OR ucast flags OR ucast PAGING_IS_WRITABLE)
    \<and> same_outside (blocks_region ({cb, d} \<union> set ts) \<union> kheap_meta) (mem s) m"
proof -
  obtain d ts m1 m2 where r: "kzalloc 4096 s = Some (fst d, s\<lparr>mem := m1\<rparr>)"
    "paging_fill_directory (fst d) flags 0 0 (s\<lparr>mem := m1\<rparr>) = Some (s\<lparr>mem := m2\<rparr>)"
    "kheap_inv (s\<lparr>mem := m2\<rparr>)" "kheap_cap (s\<lparr>mem := m2\<rparr>) (1 + c)"
    "kheap_live (s\<lparr>mem := m2\<rparr>) = kheap_live s \<union> insert d (set ts)" "insert d (set ts) \<inter> kheap_live s = {}"
    "owned (s\<lparr>mem := m2\<rparr>) d ts" "length ts = 1024" "dir_built m2 flags (fst d) ts"
    "\<forall>t \<in> set ts. fst t mod 4096 = 0"
    "same_outside (blocks_region (insert d (set ts)) \<union> kheap_meta) (mem s) m2"
    using directory_ok [OF assms(1), of "1 + c" flags] assms(2) by auto
  obtain p k m3 where a: "kzalloc 4 (s\<lparr>mem := m2\<rparr>) = Some (p, s\<lparr>mem := m3\<rparr>)" "unat (4 :: u32) \<le> k"
    and apart: "\<And>q j. (q, j) \<in> kheap_live (s\<lparr>mem := m2\<rparr>) \<Longrightarrow> region p k \<inter> region q j = {}"
    and off: "region p k \<inter> kheap_meta = {}"
    and w: "\<And>m4. same_outside (region p k) m3 m4 \<Longrightarrow> kheap_inv (s\<lparr>mem := m4\<rparr>)
      \<and> kheap_live (s\<lparr>mem := m4\<rparr>) = insert (p, k) (kheap_live (s\<lparr>mem := m2\<rparr>)) \<and> kheap_cap (s\<lparr>mem := m4\<rparr>) c
      \<and> same_outside (region p k \<union> kheap_meta) m2 m4"
    by (rule kz.alloc_fill [OF r(3,4), of 4]) (simp, simp)
  define m where "m = store32 m3 p (fst d)"
  have k: "4 \<le> k" using a(2) by simp
  have "same_outside (region p k) m3 m"
    unfolding m_def using store32_outside region_mono [OF k] by (rule same_outside_mono)
  from w [OF this] have s4: "kheap_inv (s\<lparr>mem := m\<rparr>)" "kheap_cap (s\<lparr>mem := m\<rparr>) c"
    "kheap_live (s\<lparr>mem := m\<rparr>) = insert (p, k) (kheap_live (s\<lparr>mem := m2\<rparr>))"
    and f4: "same_outside (region p k \<union> kheap_meta) m2 m" by simp_all
  have new: "(p, k) \<notin> kheap_live (s\<lparr>mem := m2\<rparr>)"
    using apart [of p k] base_mem_region [of p k] k by fastforce
  have d: "(fst d, snd d) \<in> kheap_live (s\<lparr>mem := m2\<rparr>)" "region (fst d) 4096 \<subseteq> region (fst d) (snd d)"
    using r(7) by (simp_all add: owned_def region_mono)
  have b: "dir_built m flags (fst d) ts"
  proof (rule dir_built_frame [OF r(9) _ f4])
    show "region (fst d) 4096 \<inter> (region p k \<union> kheap_meta) = {}"
      using d apart [OF d(1)] kheap_live_off_meta(1) [OF r(3) d(1)] by blast
    fix t assume t: "t \<in> set ts"
    show "region (fst t) 4096 \<inter> (region p k \<union> kheap_meta) = {}"
      using owned_tables [OF r(3,7) t] apart [of "fst t" "snd t"] region_mono [of 4096 "snd t" "fst t"] by blast
  qed (simp add: r(8))
  have o: "owned (s\<lparr>mem := m\<rparr>) d ts" using r(7) s4(3) by (auto simp: owned_def)
  have ck: "chunk_ok (s\<lparr>mem := m\<rparr>) (p, k) d ts"
    using o s4(3) new k r(5,8,10) b by (auto simp: chunk_ok_def m_def dir_built_def mask_table_entry)
  have id: "identity_map flags m (fst d)"
    using built_identity_map [OF b] chunk_page_space [OF s4(1) ck] r(10) by simp
  then have "page_entry m (fst d) va = (va AND 0xfffff000) OR ucast flags" for va by (simp add: identity_map_def)
  moreover have "load32 m (elem_addr (fst d) 4 i) = fst (ts ! i) OR ucast flags OR ucast PAGING_IS_WRITABLE"
    if "i < 1024" for i using b r(8) that by (simp add: dir_built_def)
  moreover have "same_outside (blocks_region ({(p, k), d} \<union> set ts) \<union> kheap_meta) (mem s) m"
    using same_outside_trans [OF r(11) f4] by (rule same_outside_mono) auto
  moreover have "paging_new flags s = Some (p, s\<lparr>mem := m\<rparr>)"
    using r(1,2) a(1) by (simp add: paging_new_def m_def PAGING_TOTAL_ENTRIES_PER_TABLE_def)
  ultimately show ?thesis using s4 ck r(5,6) new id
    by (intro exI [of _ "(p, k)"] exI [of _ d] exI [of _ ts] exI [of _ m]) auto
qed

section \<open>Giving a space back\<close>

lemma paging_free_loop_ok:
  fixes s :: "'a kheap_state_scheme"
  assumes "kheap_inv s" and "length ts = 1024" and "i \<le> 1024" and "distinct ts"
    and "set (drop i ts) \<subseteq> kheap_live s" and "(c, kc) \<in> kheap_live s" and "4 \<le> kc"
    and "d \<in> kheap_live s" and "4096 \<le> snd d" and "load32 (mem s) c = fst d"
    and "\<forall>i < 1024. load32 (mem s) (elem_addr (fst d) 4 i) AND PAGING_ADDRESS_MASK = fst (ts ! i)"
    and "(c, kc) \<notin> set ts" and "d \<notin> set ts"
  shows "\<exists>m. paging_free_loop c (of_nat i) s = Some (s\<lparr>mem := m\<rparr>) \<and> kheap_inv (s\<lparr>mem := m\<rparr>)
    \<and> kheap_live (s\<lparr>mem := m\<rparr>) = kheap_live s - set (drop i ts) \<and> same_outside kheap_meta (mem s) m"
  using assms
proof (induction "1024 - i" arbitrary: i s)
  case 0
  then show ?case by (intro exI [of _ "mem s"], subst paging_free_loop.simps)
    (simp add: PAGING_TOTAL_ENTRIES_PER_TABLE_def)
next
  case (Suc x)
  then have i: "i < 1024" by simp
  let ?t = "ts ! i"
  have dr: "drop i ts = ?t # drop (Suc i) ts" using i Suc.prems(2) by (simp add: Cons_nth_drop_Suc)
  have tl: "(fst ?t, snd ?t) \<in> kheap_live s" using Suc.prems(5) dr by simp
  obtain m where m: "kfree (fst ?t) s = Some (s\<lparr>mem := m\<rparr>)" "kheap_inv (s\<lparr>mem := m\<rparr>)"
    "kheap_live (s\<lparr>mem := m\<rparr>) = kheap_live s - {?t}" "same_outside kheap_meta (mem s) m"
    using kfree_spec [OF Suc.prems(1) tl] by auto
  have keep: "load32 m q = load32 (mem s) q" if "region q 4 \<subseteq> region p k" "(p, k) \<in> kheap_live s" for p q k
    using that kheap_live_off_meta(1) [OF Suc.prems(1) that(2)] by (intro load32_frame [OF m(4)]) blast
  have c4: "load32 m c = fst d" using keep [OF region_mono [OF Suc.prems(7)] Suc.prems(6)] Suc.prems(10) by simp
  have "(fst d, snd d) \<in> kheap_live s" using Suc.prems(8) by simp
  then have d4: "load32 m (elem_addr (fst d) 4 j) = load32 (mem s) (elem_addr (fst d) 4 j)" if "j < 1024" for j
    using keep block_elem [OF Suc.prems(9) that] by blast
  have nt: "?t \<notin> set (drop (Suc i) ts)" using Suc.prems(4) dr by (metis distinct.simps(2) distinct_drop)
  have x: "x = 1024 - Suc i" "Suc i \<le> 1024" using Suc.hyps(2) i by simp_all
  have "?t \<in> set ts" using i Suc.prems(2) by simp
  then have ne: "(c, kc) \<noteq> ?t" "d \<noteq> ?t" using Suc.prems(12,13) by metis+
  have sub: "set (drop (Suc i) ts) \<subseteq> kheap_live (s\<lparr>mem := m\<rparr>)" using Suc.prems(5) dr nt m(3) by auto
  have cl: "(c, kc) \<in> kheap_live (s\<lparr>mem := m\<rparr>)" and dl: "d \<in> kheap_live (s\<lparr>mem := m\<rparr>)"
    using Suc.prems(6,8) m(3) ne by auto
  obtain m' where m': "paging_free_loop c (of_nat (Suc i)) (s\<lparr>mem := m\<rparr>) = Some (s\<lparr>mem := m'\<rparr>)"
    "kheap_inv (s\<lparr>mem := m'\<rparr>)" "kheap_live (s\<lparr>mem := m'\<rparr>) = kheap_live s - {?t} - set (drop (Suc i) ts)"
    "same_outside kheap_meta m m'"
    using Suc.hyps(1) [OF x(1) m(2) Suc.prems(2) x(2) Suc.prems(4) sub cl Suc.prems(7) dl Suc.prems(9) _ _ Suc.prems(12,13)]
      c4 d4 Suc.prems(11) m(3) by (auto simp del: of_nat_Suc kheap_inv_put)
  have "paging_free_loop c (of_nat i) s = paging_free_loop c (of_nat (Suc i)) (s\<lparr>mem := m\<rparr>)"
    using m(1) Suc.prems(10,11) i index_less [OF i]
    by (subst paging_free_loop.simps) (simp add: elem_addr_word add.commute)
  moreover have "same_outside kheap_meta (mem s) m'" using same_outside_trans [OF m(4) m'(4)] by simp
  ultimately show ?case using m' dr by (intro exI [of _ m']) auto
qed

text \<open>\<^verbatim>\<open>paging_free\<close> releases exactly the blocks of the space.\<close>

lemma paging_free_ok:
  fixes s :: "'a kheap_state_scheme"
  assumes "kheap_inv s" and "chunk_ok s cb d ts"
  shows "\<exists>m. paging_free (fst cb) s = Some (s\<lparr>mem := m\<rparr>) \<and> kheap_inv (s\<lparr>mem := m\<rparr>)
    \<and> kheap_live (s\<lparr>mem := m\<rparr>) = kheap_live s - ({cb, d} \<union> set ts) \<and> same_outside kheap_meta (mem s) m"
proof -
  have ck: "(fst cb, snd cb) \<in> kheap_live s" "4 \<le> snd cb" "d \<in> kheap_live s" "4096 \<le> snd d"
    "load32 (mem s) (fst cb) = fst d" "cb \<noteq> d" "(fst cb, snd cb) \<notin> set ts" "d \<notin> set ts" "distinct ts" "length ts = 1024"
    "set ts \<subseteq> kheap_live s"
    using assms(2) by (auto simp: chunk_ok_def owned_def)
  obtain m1 where m1: "paging_free_loop (fst cb) 0 s = Some (s\<lparr>mem := m1\<rparr>)" "kheap_inv (s\<lparr>mem := m1\<rparr>)"
    "kheap_live (s\<lparr>mem := m1\<rparr>) = kheap_live s - set ts" "same_outside kheap_meta (mem s) m1"
    using paging_free_loop_ok [OF assms(1) ck(10) _ ck(9), of 0 "fst cb" "snd cb" d] ck assms(2)
    by (auto simp: chunk_ok_def)
  have c1: "load32 m1 (fst cb) = fst d"
    using ck(2,5) kheap_live_off_meta(1) [OF assms(1) ck(1)] region_mono [OF ck(2)]
    by (subst load32_frame [OF m1(4)]) blast+
  have "(fst d, snd d) \<in> kheap_live (s\<lparr>mem := m1\<rparr>)" using m1(3) ck(3,8) by simp
  from kfree_spec [OF m1(2) this]
  obtain m2 where m2: "kfree (fst d) (s\<lparr>mem := m1\<rparr>) = Some (s\<lparr>mem := m2\<rparr>)" "kheap_inv (s\<lparr>mem := m2\<rparr>)"
    "kheap_live (s\<lparr>mem := m2\<rparr>) = kheap_live (s\<lparr>mem := m1\<rparr>) - {d}" "same_outside kheap_meta m1 m2" by auto
  have "(fst cb, snd cb) \<in> kheap_live (s\<lparr>mem := m2\<rparr>)" using m1(3) m2(3) ck(1,6,7) by simp
  from kfree_spec [OF m2(2) this]
  obtain m3 where m3: "kfree (fst cb) (s\<lparr>mem := m2\<rparr>) = Some (s\<lparr>mem := m3\<rparr>)" "kheap_inv (s\<lparr>mem := m3\<rparr>)"
    "kheap_live (s\<lparr>mem := m3\<rparr>) = kheap_live (s\<lparr>mem := m2\<rparr>) - {cb}" "same_outside kheap_meta m2 m3" by auto
  have "same_outside kheap_meta (mem s) m3"
    using same_outside_trans [OF same_outside_trans [OF m1(4) m2(4)] m3(4)] by simp
  moreover have "paging_free (fst cb) s = Some (s\<lparr>mem := m3\<rparr>)"
    using m1(1) m2(1) m3(1) c1 by (simp add: paging_free_def)
  ultimately show ?thesis using m1(3) m2(3) m3(2,3) by (intro exI [of _ m3]) auto
qed

text \<open>Building and releasing a space leaves the same blocks live.\<close>

lemma paging_new_free:
  fixes s :: "'a kheap_state_scheme"
  assumes "kheap_inv s" and "kheap_cap s (2051 + c)" and "paging_new flags s = Some (chunk, s1)"
  shows "\<exists>s2. paging_free chunk s1 = Some s2 \<and> kheap_inv s2 \<and> kheap_live s2 = kheap_live s"
proof -
  obtain cb d ts m where n: "paging_new flags s = Some (fst cb, s\<lparr>mem := m\<rparr>)" "kheap_inv (s\<lparr>mem := m\<rparr>)"
    "chunk_ok (s\<lparr>mem := m\<rparr>) cb d ts" "kheap_live (s\<lparr>mem := m\<rparr>) = kheap_live s \<union> ({cb, d} \<union> set ts)"
    "({cb, d} \<union> set ts) \<inter> kheap_live s = {}"
    using paging_new_ok [OF assms(1,2), of flags] by auto
  from paging_free_ok [OF n(2,3)] n(4,5) show ?thesis using n(1) assms(3) by auto
qed

text \<open>A write that touches neither the blocks of a space nor the heap's table leaves the space as it is.\<close>

lemma chunk_frame:
  fixes s :: "'a kheap_state_scheme"
  assumes "kheap_inv s" and "chunk_ok s cb d ts" and "same_outside R (mem s) m'" and "R \<inter> kheap_meta = {}"
    and "\<And>q j. (q, j) \<in> {cb, d} \<union> set ts \<Longrightarrow> region q j \<inter> R = {}"
  shows "chunk_ok (s\<lparr>mem := m'\<rparr>) cb d ts" and "page_entry m' (fst d) va = page_entry (mem s) (fst d) va"
    and "page_directory_entry m' (fst d) va = page_directory_entry (mem s) (fst d) va"
proof -
  have w: "kheap_live (s\<lparr>mem := m'\<rparr>) = kheap_live s" "kheap_inv (s\<lparr>mem := m'\<rparr>)"
    using kheap_client_write [OF assms(1,3,4)] by simp_all
  have b: "cb \<in> kheap_live s" "4 \<le> snd cb" "d \<in> kheap_live s" "4096 \<le> snd d" "set ts \<subseteq> kheap_live s" "length ts = 1024"
    and t4: "\<And>t. t \<in> set ts \<Longrightarrow> 4096 \<le> snd t"
    using assms(2) by (auto simp: chunk_ok_def owned_def)
  have keep: "load32 m' a = load32 (mem s) a" if "region a 4 \<subseteq> region (fst b) (snd b)" "b \<in> {cb, d} \<union> set ts" for a b
    using that assms(5) [of "fst b" "snd b"] by (intro load32_frame [OF assms(3)]) auto
  have "load32 m' (fst cb) = load32 (mem s) (fst cb)" using keep [of _ cb] region_mono [OF b(2)] by simp
  moreover have de: "load32 m' (elem_addr (fst d) 4 i) = load32 (mem s) (elem_addr (fst d) 4 i)" if "i < 1024" for i
    using keep [of _ d] block_elem [OF b(4) that] by simp
  ultimately show ck: "chunk_ok (s\<lparr>mem := m'\<rparr>) cb d ts"
    using assms(2) w(1) by (simp add: chunk_ok_def owned_def)
  have i: "page_no va div 1024 < 1024" "page_no va mod 1024 < 1024"
    using page_no_bound [of va] by (simp_all add: less_mult_imp_div_less)
  show "page_directory_entry m' (fst d) va = page_directory_entry (mem s) (fst d) va"
    using de [OF i(1)] by (simp add: page_directory_entry_elem)
  from i have "ts ! (page_no va div 1024) \<in> set ts" using b(6) by simp
  from keep [OF block_elem [OF t4 [OF this] i(2)]] this
  have "load32 m' (slot (map fst ts) (page_no va)) = load32 (mem s) (slot (map fst ts) (page_no va))"
    using i(1) b(6) by (simp add: slot_def)
  then show "page_entry m' (fst d) va = page_entry (mem s) (fst d) va"
    using page_entry_slot [OF chunk_page_space [OF w(2) ck]] page_entry_slot [OF chunk_page_space [OF assms(1,2)]] by simp
qed

lemma chunk_live: "chunk_ok s cb d ts \<Longrightarrow> b \<in> {cb, d} \<union> set ts \<Longrightarrow> b \<in> kheap_live s"
  by (auto simp: chunk_ok_def owned_def)

lemma chunk_other_block:
  fixes s :: "'a kheap_state_scheme"
  assumes "kheap_inv s" and "chunk_ok s cb d ts" and "(p, k) \<in> kheap_live s" and "(p, k) \<notin> {cb, d} \<union> set ts"
    and "same_outside (region p k) (mem s) m'"
  shows "chunk_ok (s\<lparr>mem := m'\<rparr>) cb d ts" and "page_entry m' (fst d) va = page_entry (mem s) (fst d) va"
    and "page_directory_entry m' (fst d) va = page_directory_entry (mem s) (fst d) va"
proof -
  have "region q j \<inter> region p k = {}" if "(q, j) \<in> {cb, d} \<union> set ts" for q j
    using kheap_live_apart [OF assms(1) chunk_live [OF assms(2) that] assms(3)] that assms(4) by blast
  then show "chunk_ok (s\<lparr>mem := m'\<rparr>) cb d ts" "page_entry m' (fst d) va = page_entry (mem s) (fst d) va"
    "page_directory_entry m' (fst d) va = page_directory_entry (mem s) (fst d) va"
    using chunk_frame [OF assms(1,2,5) kheap_live_off_meta(1) [OF assms(1,3)]] by blast+
qed

section \<open>Properties\<close>

text \<open>A concrete space: the directory at 0, table \<open>i\<close> in page \<open>i + 1\<close>.\<close>

definition sample_tables :: "u32 list" where
  "sample_tables = map (\<lambda>i. elem_addr 0 4096 (Suc i)) [0..<1024]"

definition sample_space :: mem where
  "sample_space = fold (write_pte 0 (\<lambda>i. elem_addr 0 4096 (Suc i))) [0..<1024] zero_mem"

lemma sample_page_space: "page_space sample_space 0 sample_tables"
proof -
  have nth: "sample_tables ! i = elem_addr 0 4096 (Suc i)" if "i < 1024" for i
    using that by (simp add: sample_tables_def)
  have msk: "elem_addr 0 4096 (Suc i) AND 0xfffff000 = elem_addr 0 4096 (Suc i)" if "i < 1024" for i
    unfolding elem_addr_def using page_frame_word [of "of_nat (Suc i * 4096)"] that unat_of_nat32 [of "Suc i * 4096"]
    by (simp del: of_nat_Suc of_nat_mult mult_Suc)
  have "load32 sample_space (elem_addr 0 4 i) = elem_addr 0 4096 (Suc i)" if "i < 1024" for i
    using page_table.fill_ok [OF that] by (simp add: sample_space_def)
  then have "load32 sample_space (elem_addr 0 4 i) AND PAGING_ADDRESS_MASK = sample_tables ! i" if "i < 1024" for i
    using that msk by (simp add: nth PAGING_ADDRESS_MASK_def)
  moreover have "region (elem_addr 0 4096 i) 4096 \<inter> region (elem_addr 0 4096 j) 4096 = {}"
    if "i < 1025" "j < 1025" "i \<noteq> j" for i j
    using elems_apart [OF that, of 4096 0] by (simp add: elem_region_def)
  from this [of _ 0] this have
    "region (elem_addr 0 4096 (Suc i)) 4096 \<inter> region 0 4096 = {}"
    "j < 1024 \<Longrightarrow> i \<noteq> j \<Longrightarrow> region (elem_addr 0 4096 (Suc i)) 4096 \<inter> region (elem_addr 0 4096 (Suc j)) 4096 = {}"
    if "i < 1024" for i j using that by (simp_all add: elem_addr_def [of _ _ 0])
  ultimately show ?thesis by (simp add: page_space_def nth) (simp add: sample_tables_def)
qed

text \<open>C5: with 2051 free blocks in a row, \<^verbatim>\<open>paging_new\<close> returns a chunk whose directory maps every
  virtual address to itself. The directory's entries are exactly the tables with the flags asked for and
  the writable bit, the tables' entries exactly the pages with the flags, so the processor's translation
  of any address is that address, present, writable and open to the user just as the flags say. Chunk,
  directory and the 1024 tables are fresh live blocks, the heap keeps its invariant, and no other byte
  outside the heap's table changes.\<close>

theorem paging_new_identity_map:
  fixes s :: "'a kheap_state_scheme"
  assumes "kheap_inv s" and "kheap_cap s 2051"
  shows "\<exists>cb d ts m. paging_new flags s = Some (fst cb, s\<lparr>mem := m\<rparr>)
    \<and> load32 m (fst cb) = fst d \<and> page_space m (fst d) (map fst ts)
    \<and> (\<forall>i < 1024. load32 m (elem_addr (fst d) 4 i) = fst (ts ! i) OR ucast flags OR ucast PAGING_IS_WRITABLE)
    \<and> (\<forall>va. page_entry m (fst d) va = (va AND 0xfffff000) OR ucast flags)
    \<and> (\<forall>va. translate m (fst d) va
        = (if flags AND 1 = 0 then None else Some (va, flags AND 2 \<noteq> 0, flags AND 4 \<noteq> 0)))
    \<and> kheap_inv (s\<lparr>mem := m\<rparr>) \<and> chunk_ok (s\<lparr>mem := m\<rparr>) cb d ts
    \<and> kheap_live (s\<lparr>mem := m\<rparr>) = kheap_live s \<union> ({cb, d} \<union> set ts) \<and> ({cb, d} \<union> set ts) \<inter> kheap_live s = {}
    \<and> same_outside (blocks_region ({cb, d} \<union> set ts) \<union> kheap_meta) (mem s) m"
proof -
  obtain cb d ts m where n: "paging_new flags s = Some (fst cb, s\<lparr>mem := m\<rparr>)" "kheap_inv (s\<lparr>mem := m\<rparr>)"
    "chunk_ok (s\<lparr>mem := m\<rparr>) cb d ts"
    "kheap_live (s\<lparr>mem := m\<rparr>) = kheap_live s \<union> ({cb, d} \<union> set ts)" "({cb, d} \<union> set ts) \<inter> kheap_live s = {}"
    "\<forall>va. page_entry m (fst d) va = (va AND 0xfffff000) OR ucast flags" "identity_map flags m (fst d)"
    "\<forall>i < 1024. load32 m (elem_addr (fst d) 4 i) = fst (ts ! i) OR ucast flags OR ucast PAGING_IS_WRITABLE"
    "same_outside (blocks_region ({cb, d} \<union> set ts) \<union> kheap_meta) (mem s) m"
    using paging_new_ok [OF assms(1), of 0 flags] assms(2) by auto
  moreover have "page_space m (fst d) (map fst ts)" using chunk_page_space [OF n(2,3)] by simp
  moreover have "load32 m (fst cb) = fst d" using n(3) by (simp add: chunk_ok_def)
  moreover note identity_map_translate [OF n(7)]
  ultimately show ?thesis by blast
qed

lemma empty_kheap_cap_2051: "kheap_cap (empty_kheap zero_mem) 2051"
  by (auto simp: kheap_cap_def empty_kheap_def zero_heap_entries fits_iff free_entry_def
    get_entry_type_def kernel_consts intro!: exI [of _ 0])

theorem paging_new_identity_map_witness:
  "\<exists>chunk m dir. paging_new 7 (empty_kheap zero_mem) = Some (chunk, (empty_kheap zero_mem)\<lparr>mem := m\<rparr>)
    \<and> page_entry m dir 0x12345678 = 0x12345007 \<and> translate m dir 0x12345678 = Some (0x12345678, True, True)"
proof -
  obtain cb d :: "u32 \<times> nat" and m
    where n: "paging_new 7 (empty_kheap zero_mem) = Some (fst cb, (empty_kheap zero_mem)\<lparr>mem := m\<rparr>)"
    and "\<forall>va. page_entry m (fst d) va = (va AND 0xfffff000) OR ucast (7 :: u8)"
    and "\<forall>va. translate m (fst d) va
      = (if (7 :: u8) AND 1 = 0 then None else Some (va, (7 :: u8) AND 2 \<noteq> 0, (7 :: u8) AND 4 \<noteq> 0))"
    using paging_new_identity_map [OF empty_kheap_inv empty_kheap_cap_2051, of 7] by metis
  then have "page_entry m (fst d) 0x12345678 = 0x12345007" "translate m (fst d) 0x12345678 = Some (0x12345678, True, True)"
    by simp_all
  with n show ?thesis by blast
qed

text \<open>C8: \<^verbatim>\<open>paging_free\<close> on a chunk that \<^verbatim>\<open>paging_new\<close> built gives back every block of it: afterwards the
  same blocks are live as before the chunk was made, and the heap's invariant holds.\<close>

theorem paging_free_after_new:
  fixes s :: "'a kheap_state_scheme"
  assumes "kheap_inv s" and "kheap_cap s 2051"
  shows "\<exists>chunk s1 s2. paging_new flags s = Some (chunk, s1) \<and> paging_free chunk s1 = Some s2
    \<and> kheap_inv s2 \<and> kheap_live s2 = kheap_live s"
proof -
  have c: "kheap_cap s (2051 + 0)" using assms(2) by simp
  obtain chunk s1 where "paging_new flags s = Some (chunk, s1)"
    using paging_new_ok [OF assms(1) c, of flags] by auto
  then show ?thesis using paging_new_free [OF assms(1) c] by blast
qed

theorem paging_free_after_new_witness:
  "\<exists>chunk s1 s2. paging_new 5 (empty_kheap zero_mem) = Some (chunk, s1) \<and> paging_free chunk s1 = Some s2"
  using paging_free_after_new [OF empty_kheap_inv empty_kheap_cap_2051, of 5] by blast

text \<open>C19: \<^verbatim>\<open>paging_set\<close> on a page-aligned address returns 0 and changes the walk of exactly the addresses
  of that page; the space stays well-formed and only table memory is written. On an unaligned
  address it returns \<^verbatim>\<open>-EINVAL\<close> and changes nothing.\<close>

theorem paging_set_one_page:
  assumes "page_space m dir ts"
  shows "case paging_set dir va v m of (result, m') \<Rightarrow>
    (if paging_is_aligned va
     then result = 0 \<and> page_space m' dir ts \<and> same_outside (tables_region ts) m m'
       \<and> page_entry m' dir = (\<lambda>x. if page_no x = page_no va then v else page_entry m dir x)
     else result = - EINVAL \<and> m' = m)"
  using paging_set_error [of va dir v m] paging_set_eq [OF assms] store_slot [OF assms page_no_bound]
    store_slot_frame [OF assms page_no_bound] by auto

theorem paging_set_one_page_witness:
  "fst (paging_set 0 0x5000 0xABC007 sample_space) = 0
    \<and> page_entry (snd (paging_set 0 0x5000 0xABC007 sample_space)) 0 0x5123 = 0xABC007"
  using paging_set_one_page [OF sample_page_space, of "0x5000" "0xABC007"]
  by (simp add: aligned_iff split: prod.splits)

text \<open>C18: \<^verbatim>\<open>paging_map\<close> of a physical range of less than 2 GB maps consecutive pages from the virtual
  address on to consecutive frames with the flags asked for and leaves every other page alone. It maps
  one page for every four of the range: the number of bytes is a difference of pointers to four-byte
  entries.\<close>

theorem paging_map_maps_quarter:
  assumes "page_space m dir ts" and "paging_is_aligned va" and "paging_is_aligned pa" and "paging_is_aligned pe"
    and "pa \<le> pe" and "unat pe - unat pa < 2 ^ 31"
    and "page_no va + (unat pe - unat pa) div 16384 \<le> 1024 * 1024"
  shows "\<exists>m'. paging_map dir va pa pe flags m = (0, m') \<and> page_space m' dir ts
    \<and> same_outside (tables_region ts) m m'
    \<and> (\<forall>x. page_entry m' dir x =
        (if page_no va \<le> page_no x \<and> page_no x < page_no va + (unat pe - unat pa) div 16384
         then (pa + 4096 * of_nat (page_no x - page_no va)) OR flags else page_entry m dir x))"
  using paging_map_ok [OF assms, of flags] by (auto simp: mapped_def)

theorem paging_map_maps_quarter_witness:
  "\<exists>m'. paging_map 0 0x400000 0x800000 0x808000 7 sample_space = (0, m')
    \<and> page_entry m' 0 0x401000 = 0x801007 \<and> page_entry m' 0 0x402000 = page_entry sample_space 0 0x402000"
proof -
  obtain m' where "paging_map 0 0x400000 0x800000 0x808000 7 sample_space = (0, m')"
    "\<forall>x. page_entry m' 0 x =
        (if page_no 0x400000 \<le> page_no x \<and> page_no x < page_no 0x400000 + 2
         then (0x800000 + 4096 * of_nat (page_no x - page_no 0x400000)) OR 7 else page_entry sample_space 0 x)"
    using paging_map_maps_quarter [OF sample_page_space, of "0x400000" "0x800000" "0x808000" 7]
    by (auto simp: aligned_iff)
  then show ?thesis by simp
qed

text \<open>\<^verbatim>\<open>paging_align\<close> leaves aligned addresses alone and never aligns an unaligned one, although it is
  documented to align an address up to a page boundary.\<close>

lemma paging_align_never_aligns:
  "paging_is_aligned (paging_align a) = paging_is_aligned a \<and> paging_align 0x5001 = 0xB001"
  using paging_align_never by (simp add: paging_align_def PAGING_PAGE_SIZE_def)

end
