(* ===== verification/Task.thy ===== *)
theory Task
  imports Paging
begin

text \<open>
  \<^verbatim>\<open>kernel/arch/i386/task/task.cpp\<close>: the tasks of the kernel, a doubly linked list of heap blocks with the
  globals \<^verbatim>\<open>head\<close>, \<^verbatim>\<open>tail\<close> and \<^verbatim>\<open>current\<close>. A \<^verbatim>\<open>task_t\<close> is 60 bytes in memory: the chunk of its
  address space, twelve registers, and the two links at offsets 52 and 56.

  The specification is a list of addresses: \<open>task_list m h t xs\<close> says that memory holds exactly that
  list in both directions. Creation appends to it, \<^verbatim>\<open>remove_task\<close> takes an element out, and
  \<^verbatim>\<open>get_next_task\<close> goes round it.
\<close>

section \<open>Layout\<close>

definition task_page_directory :: "u32 \<Rightarrow> u32" where
  "task_page_directory task = task"

definition task_reg_ip :: "u32 \<Rightarrow> u32" where
  "task_reg_ip task = task + 32"

definition task_reg_esp :: "u32 \<Rightarrow> u32" where
  "task_reg_esp task = task + 44"

definition task_reg_ss :: "u32 \<Rightarrow> u32" where
  "task_reg_ss task = task + 48"

definition task_next :: "u32 \<Rightarrow> u32" where
  "task_next task = task + 52"

definition task_prev :: "u32 \<Rightarrow> u32" where
  "task_prev task = task + 56"

definition sizeof_task :: u32 where
  [kernel_consts]: "sizeof_task = 60"

text \<open>\<^verbatim>\<open>task\<close> in a \<^verbatim>\<open>process\<close>: two bytes of pid, 255 of name, aligned to four.\<close>

definition process_task :: "u32 \<Rightarrow> u32" where
  "process_task proc = proc + 260"

lemmas task_fields = task_page_directory_def task_reg_ip_def task_reg_esp_def task_reg_ss_def
  task_next_def task_prev_def process_task_def

section \<open>Operations\<close>

record task_state = paging_state +
  current :: u32
  tail :: u32
  head :: u32

definition current_task :: "'a task_state_scheme \<Rightarrow> u32" where
  "current_task s = current s"

definition get_next_task :: "'a task_state_scheme \<Rightarrow> u32" where
  "get_next_task s =
     (if load32 (mem s) (task_next (current s)) = 0 then head s
      else load32 (mem s) (task_next (current s)))"

text \<open>The globals of this file are none of the heap's business.\<close>

lemma task_globals [simp]:
  fixes s :: "'a task_state_scheme"
  shows "kheap_live (s\<lparr>head := x\<rparr>) = kheap_live s" "kheap_inv (s\<lparr>head := x\<rparr>) = kheap_inv s"
    "chunk_ok (s\<lparr>head := x\<rparr>) cb d ts = chunk_ok s cb d ts"
    "kheap_live (s\<lparr>tail := x\<rparr>) = kheap_live s" "kheap_inv (s\<lparr>tail := x\<rparr>) = kheap_inv s"
    "chunk_ok (s\<lparr>tail := x\<rparr>) cb d ts = chunk_ok s cb d ts"
    "kheap_live (s\<lparr>current := x\<rparr>) = kheap_live s" "kheap_inv (s\<lparr>current := x\<rparr>) = kheap_inv s"
    "chunk_ok (s\<lparr>current := x\<rparr>) cb d ts = chunk_ok s cb d ts"
  by (simp_all add: kheap_live_def kheap_inv_def chunk_ok_def owned_def)

text \<open>Unlinking a task from its neighbours.\<close>

definition unlink :: "u32 \<Rightarrow> u32 \<Rightarrow> mem \<Rightarrow> mem" where
  "unlink prev nxt m =
     (let m = (if prev \<noteq> 0 then store32 m (task_next prev) nxt else m)
      in if nxt \<noteq> 0 then store32 m (task_prev nxt) prev else m)"

definition remove_task :: "u32 \<Rightarrow> 'a task_state_scheme \<Rightarrow> 'a task_state_scheme" where
  "remove_task task s =
     (let prev = load32 (mem s) (task_prev task);
          nxt = load32 (mem s) (task_next task);
          s = s\<lparr>mem := unlink prev nxt (mem s)\<rparr>;
          s = s\<lparr>head := (if task = head s then nxt else head s)\<rparr>;
          s = s\<lparr>tail := (if task = tail s then prev else tail s)\<rparr>;
          s = s\<lparr>current := (if task = current s then get_next_task s else current s)\<rparr>;
          s = s\<lparr>mem := store32 (mem s) (task_prev task) 0\<rparr>
      in s\<lparr>mem := store32 (mem s) (task_next task) 0\<rparr>)"

definition init_task :: "u32 \<Rightarrow> 'a task_state_scheme \<Rightarrow> (u32 \<times> 'a task_state_scheme) option" where
  "init_task task s = do {
     let s = s\<lparr>mem := memset (mem s) task 0x00 sizeof_task\<rparr>;
     (chunk, s) \<leftarrow> paging_new (PAGING_IS_PRESENT OR PAGING_ACCESS_FROM_ALL) s;
     let s = s\<lparr>mem := store32 (mem s) (task_page_directory task) chunk\<rparr>;
     if load32 (mem s) (task_page_directory task) = 0 then Some (- EIO, s)
     else
       (let s = s\<lparr>mem := store32 (mem s) (task_reg_ip task) PROGRAM_VIRTUAL_ADDRESS\<rparr>;
            s = s\<lparr>mem := store32 (mem s) (task_reg_ss task) (ucast USER_DATA_SEGMENT)\<rparr>;
            s = s\<lparr>mem := store32 (mem s) (task_reg_esp task) PROGRAM_VIRTUAL_STACK_ADDRESS_START\<rparr>
        in Some (0, s))
   }"

definition free_task :: "u32 \<Rightarrow> 'a task_state_scheme \<Rightarrow> 'a task_state_scheme option" where
  "free_task task s = do {
     s \<leftarrow> paging_free (load32 (mem s) (task_page_directory task)) s;
     kfree task (remove_task task s)
   }"

text \<open>An error is returned as a pointer (\<^verbatim>\<open>ERROR\<close>).\<close>

definition new_task :: "u32 \<Rightarrow> 'a task_state_scheme \<Rightarrow> (u32 \<times> 'a task_state_scheme) option" where
  "new_task proc s = do {
     (task, s) \<leftarrow> kzalloc sizeof_task s;
     if task = 0 then Some (- ENOMEM, s)
     else do {
       (result, s) \<leftarrow> init_task task s;
       if result \<noteq> 0 then do {
         s \<leftarrow> free_task task s;
         Some (result, s)
       }
       else if head s = 0 then Some (0, s\<lparr>head := task, tail := task\<rparr>)
       else
         (let s = s\<lparr>mem := store32 (mem s) (task_next (tail s)) task\<rparr>;
              s = s\<lparr>mem := store32 (mem s) (task_prev task) (tail s)\<rparr>;
              s = s\<lparr>tail := task\<rparr>;
              s = s\<lparr>mem := store32 (mem s) (process_task proc) task\<rparr>
          in Some (task, s))
     }
   }"

section \<open>Lists in memory\<close>

definition first_or :: "u32 list \<Rightarrow> u32 \<Rightarrow> u32" where
  "first_or xs n = (case xs of [] \<Rightarrow> n | x # _ \<Rightarrow> x)"

definition last_or :: "u32 \<Rightarrow> u32 list \<Rightarrow> u32" where
  "last_or p xs = (if xs = [] then p else last xs)"

text \<open>\<open>links m p xs n\<close>: the nodes \<open>xs\<close> are linked in both directions, with \<open>p\<close> before and \<open>n\<close> behind.\<close>

fun links :: "mem \<Rightarrow> u32 \<Rightarrow> u32 list \<Rightarrow> u32 \<Rightarrow> bool" where
  "links m p [] n = True"
| "links m p (x # xs) n \<longleftrightarrow> load32 m (task_prev x) = p \<and> load32 m (task_next x) = first_or xs n \<and> links m x xs n"

definition off_node :: "u32 \<Rightarrow> u32 \<Rightarrow> bool" where
  "off_node x y \<longleftrightarrow> region x 60 \<inter> region y 60 = {}"

definition nodes_apart :: "u32 list \<Rightarrow> bool" where
  "nodes_apart xs \<longleftrightarrow> distinct xs \<and> 0 \<notin> set xs
     \<and> (\<forall>x \<in> set xs. \<forall>y \<in> set xs. x \<noteq> y \<longrightarrow> off_node x y)"

definition task_list :: "mem \<Rightarrow> u32 \<Rightarrow> u32 \<Rightarrow> u32 list \<Rightarrow> bool" where
  "task_list m h t xs \<longleftrightarrow> nodes_apart xs \<and> h = first_or xs 0 \<and> t = last_or 0 xs \<and> links m 0 xs 0"

lemma link_fields: "region (task_next x) 4 \<subseteq> region x 60" "region (task_prev x) 4 \<subseteq> region x 60"
  "region (task_next x) 4 \<inter> region (task_prev x) 4 = {}"
proof -
  show "region (task_next x) 4 \<subseteq> region x 60" "region (task_prev x) 4 \<subseteq> region x 60"
    using region_shift [of 52 4 60 x] region_shift [of 56 4 60 x] by (simp_all add: task_fields)
  have "elem_region x 4 13 \<inter> elem_region x 4 14 = {}" by (rule elems_apart [of _ 15]) simp_all
  then show "region (task_next x) 4 \<inter> region (task_prev x) 4 = {}"
    by (simp add: elem_region_def elem_addr_def task_fields)
qed

lemma links_append: "links m p (xs @ ys) n \<longleftrightarrow> links m p xs (first_or ys n) \<and> links m (last_or p xs) ys n"
  by (induction xs arbitrary: p) (auto simp: first_or_def last_or_def split: list.splits)

lemma links_frame:
  assumes "links m p xs n" and "same_outside R m m'" and "\<And>x. x \<in> set xs \<Longrightarrow> region x 60 \<inter> R = {}"
  shows "links m' p xs n"
  using assms(1,3)
proof (induction xs arbitrary: p)
  case (Cons x xs)
  then have "region x 60 \<inter> R = {}" by simp
  then have "load32 m' (task_next x) = load32 m (task_next x)" "load32 m' (task_prev x) = load32 m (task_prev x)"
    using link_fields [of x] by (blast intro: load32_frame [OF assms(2)])+
  with Cons show ?case by simp
qed simp

lemma nodes_apartD:
  assumes "nodes_apart xs" and "x \<in> set xs" and "y \<in> set xs" and "x \<noteq> y"
  shows "region x 60 \<inter> region y 60 = {}"
  using assms by (simp add: nodes_apart_def off_node_def)

lemma store_next_frame: "same_outside (region x 60) m (store32 m (task_next x) v)"
  using store32_outside link_fields(1) by (rule same_outside_mono)

lemma store_prev_frame: "same_outside (region x 60) m (store32 m (task_prev x) v)"
  using store32_outside link_fields(2) by (rule same_outside_mono)

lemma load_link_other [simp]:
  "load32 (store32 m (task_next x) v) (task_prev x) = load32 m (task_prev x)"
  "load32 (store32 m (task_prev x) v) (task_next x) = load32 m (task_next x)"
  using link_fields(3) [of x] by (auto intro!: load32_frame [OF store32_outside])

lemma set_last_next:
  assumes "links m p (xs @ [x]) n" and "nodes_apart (xs @ [x])"
  shows "links (store32 m (task_next x) n') p (xs @ [x]) n'"
proof -
  have "\<forall>y \<in> set xs. region y 60 \<inter> region x 60 = {}"
    using nodes_apartD [OF assms(2)] assms(2) by (auto simp: nodes_apart_def)
  then have "links (store32 m (task_next x) n') p xs x"
    using assms(1) by (intro links_frame [OF _ store_next_frame]) (auto simp: links_append first_or_def)
  then show ?thesis using assms(1) by (simp add: links_append first_or_def)
qed

lemma set_first_prev:
  assumes "links m p (x # xs) n" and "nodes_apart (x # xs)"
  shows "links (store32 m (task_prev x) p') p' (x # xs) n"
proof -
  have "\<forall>y \<in> set xs. region y 60 \<inter> region x 60 = {}"
    using nodes_apartD [OF assms(2)] assms(2) by (auto simp: nodes_apart_def)
  then have "links (store32 m (task_prev x) p') x xs n"
    using assms(1) by (intro links_frame [OF _ store_prev_frame]) auto
  then show ?thesis using assms(1) by simp
qed

section \<open>Unlinking\<close>

definition nodes_region :: "u32 list \<Rightarrow> u32 set" where
  "nodes_region xs = (\<Union>x \<in> set xs. region x 60)"

lemma or_zero:
  assumes "nodes_apart xs"
  shows "first_or xs 0 = 0 \<longleftrightarrow> xs = []" and "last_or 0 xs = 0 \<longleftrightarrow> xs = []"
  using assms by (auto simp: first_or_def last_or_def nodes_apart_def split: list.splits) (metis last_in_set)

lemma middle_apart:
  assumes "nodes_apart (xs @ t # ys)"
  shows "nodes_apart xs" and "nodes_apart ys" and "t \<noteq> 0" and "nodes_apart (xs @ ys)"
    and "x \<in> set xs \<Longrightarrow> y \<in> set ys \<Longrightarrow> region x 60 \<inter> region y 60 = {}"
    and "y \<in> set (xs @ ys) \<Longrightarrow> region y 60 \<inter> region t 60 = {}"
proof -
  show "nodes_apart xs" "nodes_apart ys" "t \<noteq> 0" "nodes_apart (xs @ ys)" using assms by (auto simp: nodes_apart_def)
  show "region x 60 \<inter> region y 60 = {}" if "x \<in> set xs" "y \<in> set ys"
    using nodes_apartD [OF assms, of x y] assms that by (auto simp: nodes_apart_def)
  show "region y 60 \<inter> region t 60 = {}" if "y \<in> set (xs @ ys)"
    using nodes_apartD [OF assms, of y t] assms that by (auto simp: nodes_apart_def)
qed

lemma relink_left:
  assumes "links m 0 xs t" and "links m t ys 0" and "nodes_apart (xs @ t # ys)"
    and m': "m' = (if last_or 0 xs \<noteq> 0 then store32 m (task_next (last_or 0 xs)) n else m)"
  shows "links m' 0 xs n \<and> links m' t ys 0 \<and> load32 m' (task_next t) = load32 m (task_next t)
    \<and> same_outside (nodes_region xs) m m'"
proof (cases xs rule: rev_cases)
  case Nil
  then show ?thesis using assms by (simp add: last_or_def)
next
  case (snoc us u)
  note a = middle_apart [OF assms(3)]
  have u: "u \<noteq> 0" "u \<in> set xs" "last_or 0 xs = u" using a(1) snoc by (auto simp: nodes_apart_def last_or_def)
  have e: "m' = store32 m (task_next u) n" using u by (simp add: m')
  have "links m' 0 xs n" unfolding e using set_last_next assms(1) a(1) snoc by blast
  moreover have "links m' t ys 0"
    unfolding e by (rule links_frame [OF assms(2) store_next_frame]) (use a(5) [OF u(2)] in auto)
  moreover have "load32 m' (task_next t) = load32 m (task_next t)"
    unfolding e using a(6) [of u] u(2) link_fields(1) [of t]
    by (intro load32_frame [OF store_next_frame]) auto
  moreover have "same_outside (nodes_region xs) m m'"
    unfolding e by (rule same_outside_mono [OF store_next_frame]) (use u(2) in \<open>auto simp: nodes_region_def\<close>)
  ultimately show ?thesis by blast
qed

lemma relink_right:
  assumes "links m 0 xs (first_or ys 0)" and "links m t ys 0" and "nodes_apart (xs @ t # ys)"
    and m': "m' = (if first_or ys 0 \<noteq> 0 then store32 m (task_prev (first_or ys 0)) (last_or 0 xs) else m)"
  shows "links m' 0 (xs @ ys) 0 \<and> load32 m' (task_next t) = load32 m (task_next t)
    \<and> same_outside (nodes_region ys) m m'"
proof (cases ys)
  case Nil
  then show ?thesis using assms by (simp add: first_or_def)
next
  case (Cons v vs)
  note a = middle_apart [OF assms(3)]
  have v: "v \<noteq> 0" "v \<in> set ys" "first_or ys 0 = v" using a(2) Cons by (auto simp: nodes_apart_def first_or_def)
  have e: "m' = store32 m (task_prev v) (last_or 0 xs)" using v by (simp add: m')
  have "links m' (last_or 0 xs) ys 0" unfolding e using set_first_prev assms(2) a(2) Cons by blast
  moreover have "links m' 0 xs (first_or ys 0)"
    unfolding e by (rule links_frame [OF assms(1) store_prev_frame]) (use a(5) [OF _ v(2)] in auto)
  moreover have "load32 m' (task_next t) = load32 m (task_next t)"
    unfolding e using a(6) [of v] v(2) link_fields(1) [of t]
    by (intro load32_frame [OF store_prev_frame]) auto
  moreover have "same_outside (nodes_region ys) m m'"
    unfolding e by (rule same_outside_mono [OF store_prev_frame]) (use v(2) in \<open>auto simp: nodes_region_def\<close>)
  ultimately show ?thesis by (simp add: links_append)
qed

lemma unlink_links:
  assumes "links m 0 (xs @ t # ys) 0" and "nodes_apart (xs @ t # ys)"
    and m': "m' = unlink (last_or 0 xs) (first_or ys 0) m"
  shows "links m' 0 (xs @ ys) 0" and "load32 m' (task_next t) = first_or ys 0"
    and "same_outside (nodes_region (xs @ ys)) m m'"
proof -
  have l: "links m 0 xs t" "load32 m (task_next t) = first_or ys 0" "links m t ys 0"
    using assms(1) by (simp_all add: links_append first_or_def)
  define m1 where "m1 = (if last_or 0 xs \<noteq> 0 then store32 m (task_next (last_or 0 xs)) (first_or ys 0) else m)"
  have m1: "links m1 0 xs (first_or ys 0)" "links m1 t ys 0" "load32 m1 (task_next t) = first_or ys 0"
    "same_outside (nodes_region xs) m m1"
    using relink_left [OF l(1,3) assms(2) m1_def] l(2) by simp_all
  have "m' = (if first_or ys 0 \<noteq> 0 then store32 m1 (task_prev (first_or ys 0)) (last_or 0 xs) else m1)"
    by (simp add: m' unlink_def m1_def)
  note r = relink_right [OF m1(1,2) assms(2) this]
  show "links m' 0 (xs @ ys) 0" "load32 m' (task_next t) = first_or ys 0" using r m1(3) by simp_all
  show "same_outside (nodes_region (xs @ ys)) m m'"
    using same_outside_trans [OF m1(4) r [THEN conjunct2, THEN conjunct2]]
    by (rule same_outside_mono) (auto simp: nodes_region_def)
qed

lemma task_listD:
  assumes "task_list m h t (xs @ x # ys)"
  shows "links m 0 (xs @ x # ys) 0" and "nodes_apart (xs @ x # ys)"
    and "h = first_or (xs @ [x]) 0" and "t = last_or 0 (x # ys)"
proof -
  have "first_or (xs @ x # ys) 0 = first_or (xs @ [x]) 0" by (cases xs) (simp_all add: first_or_def)
  then show "links m 0 (xs @ x # ys) 0" "nodes_apart (xs @ x # ys)" "h = first_or (xs @ [x]) 0" "t = last_or 0 (x # ys)"
    using assms by (simp_all add: task_list_def last_or_def)
qed

lemma head_tail_iff:
  assumes "nodes_apart (xs @ t # ys)"
  shows "t = first_or (xs @ [t]) 0 \<longleftrightarrow> xs = []" and "t = last_or 0 (t # ys) \<longleftrightarrow> ys = []"
proof -
  have t: "t \<notin> set xs" "t \<notin> set ys" using assms by (auto simp: nodes_apart_def)
  then show "t = first_or (xs @ [t]) 0 \<longleftrightarrow> xs = []" by (cases xs) (auto simp: first_or_def)
  show "t = last_or 0 (t # ys) \<longleftrightarrow> ys = []" using t last_in_set [of ys] by (cases "ys = []") (auto simp: last_or_def)
qed

lemma remove_task_unfold:
  fixes s :: "'a task_state_scheme"
  assumes "load32 (mem s) (task_prev t) = P" and "load32 (mem s) (task_next t) = N"
    and "unlink P N (mem s) = m2" and "(if t = head s then N else head s) = H"
    and "(if t = tail s then P else tail s) = T" and "get_next_task (s\<lparr>mem := m2, head := H, tail := T\<rparr>) = C"
  shows "remove_task t s = s\<lparr>mem := store32 (store32 m2 (task_prev t) 0) (task_next t) 0, head := H, tail := T,
      current := (if t = current s then C else current s)\<rparr>"
  unfolding remove_task_def assms(1,2) Let_def [of P] Let_def [of N]
  by (simp add: assms(1-5) cong: if_cong split del: if_split)
    (cases "t = current s"; simp add: assms(4-6) [symmetric])

lemma remove_task_eq:
  fixes s :: "'a task_state_scheme"
  assumes "task_list (mem s) (head s) (tail s) (xs @ t # ys)"
  defines "m2 \<equiv> unlink (last_or 0 xs) (first_or ys 0) (mem s)"
  shows "remove_task t s = s\<lparr>mem := store32 (store32 m2 (task_prev t) 0) (task_next t) 0,
    head := first_or (xs @ ys) 0, tail := last_or 0 (xs @ ys),
    current := (if t = current s then first_or ys (first_or xs 0) else current s)\<rparr>"
proof -
  note l = task_listD [OF assms(1)]
  have pn: "load32 (mem s) (task_prev t) = last_or 0 xs" "load32 (mem s) (task_next t) = first_or ys 0"
    using l(1) by (simp_all add: links_append)
  note hd = head_tail_iff [OF l(2), folded l(3,4)]
  have n2: "load32 m2 (task_next t) = first_or ys 0" unfolding m2_def by (rule unlink_links(2) [OF l(1,2) refl])
  have z: "first_or ys 0 = 0 \<longleftrightarrow> ys = []" using or_zero(1) [OF middle_apart(2) [OF l(2)]] .
  have hd': "(if t = head s then first_or ys 0 else head s) = first_or (xs @ ys) 0"
    unfolding hd(1) by (cases xs) (simp_all add: l(3) first_or_def)
  have tl': "(if t = tail s then last_or 0 xs else tail s) = last_or 0 (xs @ ys)"
    unfolding hd(2) by (cases ys) (simp_all add: l(4) last_or_def)
  have g: "get_next_task (s\<lparr>mem := m2, head := first_or (xs @ ys) 0, tail := last_or 0 (xs @ ys)\<rparr>)
    = first_or ys (first_or xs 0)" if "t = current s"
    using n2 z that by (cases ys; cases xs) (simp_all add: get_next_task_def first_or_def)
  show ?thesis
    using remove_task_unfold [OF pn m2_def [symmetric, THEN meta_eq_to_obj_eq] hd' tl' refl] g by simp
qed

lemma remove_task_ok:
  fixes s :: "'a task_state_scheme"
  assumes "task_list (mem s) (head s) (tail s) (xs @ t # ys)" and "s' = remove_task t s"
  shows "task_list (mem s') (head s') (tail s') (xs @ ys)"
    and "current s' = (if current s = t then first_or ys (first_or xs 0) else current s)"
    and "same_outside (nodes_region (xs @ t # ys)) (mem s) (mem s')"
proof -
  have l: "links (mem s) 0 (xs @ t # ys) 0" "nodes_apart (xs @ t # ys)" using assms(1) by (simp_all add: task_list_def)
  note a = middle_apart [OF l(2)] and u = unlink_links [OF l refl]
  note e = remove_task_eq [OF assms(1)]
  let ?m2 = "unlink (last_or 0 xs) (first_or ys 0) (mem s)"
  have f: "same_outside (region t 60) ?m2 (mem s')"
    using same_outside_trans [OF store_prev_frame [of t ?m2 0] store_next_frame [of t _ 0]] by (simp add: assms(2) e)
  then have "links (mem s') 0 (xs @ ys) 0" by (rule links_frame [OF u(1)]) (use a(6) in auto)
  then show "task_list (mem s') (head s') (tail s') (xs @ ys)" using a(4) by (simp add: task_list_def assms(2) e)
  show "current s' = (if current s = t then first_or ys (first_or xs 0) else current s)" by (simp add: assms(2) e)
  show "same_outside (nodes_region (xs @ t # ys)) (mem s) (mem s')"
    using same_outside_trans [OF u(3) f] by (rule same_outside_mono) (auto simp: nodes_region_def)
qed

section \<open>Round robin\<close>

lemma get_next_task_ok:
  fixes s :: "'a task_state_scheme"
  assumes "task_list (mem s) (head s) (tail s) (xs @ current s # ys)"
  shows "get_next_task s = first_or ys (first_or (xs @ [current s]) 0)"
proof -
  note l = task_listD [OF assms]
  have "load32 (mem s) (task_next (current s)) = first_or ys 0" using l(1) by (simp add: links_append)
  moreover have "first_or ys 0 = 0 \<longleftrightarrow> ys = []" using or_zero(1) [OF middle_apart(2) [OF l(2)]] .
  ultimately show ?thesis by (cases ys) (simp_all add: get_next_task_def l(3) first_or_def)
qed

section \<open>Creation\<close>

definition init_fields :: "u32 \<Rightarrow> u32 \<Rightarrow> mem \<Rightarrow> mem" where
  "init_fields task chunk m =
     store32 (store32 (store32 (store32 m (task_page_directory task) chunk)
       (task_reg_ip task) 0x400000) (task_reg_ss task) 0x23) (task_reg_esp task) 0x3FF000"

lemma init_fields_load:
  "load32 (init_fields task chunk m) task = chunk"
  "load32 (init_fields task chunk m) (task_reg_ip task) = 0x400000"
  "load32 (init_fields task chunk m) (task_reg_ss task) = 0x23"
  "load32 (init_fields task chunk m) (task_reg_esp task) = 0x3FF000"
  "load32 (init_fields task chunk m) (task_next task) = load32 m (task_next task)"
  "load32 (init_fields task chunk m) (task_prev task) = load32 m (task_prev task)"
  by (simp_all add: init_fields_def task_fields field_other field_other_base)

lemma init_fields_frame: "same_outside (region task 60) m (init_fields task chunk m)"
proof -
  have f: "same_outside (region task 60) m (store32 m (task + of_nat d) v)" if "d + 4 \<le> 60" for d m v
    using region_shift [OF that, of task] by (rule same_outside_mono [OF store32_outside])
  show ?thesis
    using same_outside_trans [OF same_outside_trans [OF same_outside_trans [OF
      f [of 0 m chunk] f [of 32 _ "0x400000"]] f [of 48 _ "0x23"]] f [of 44 _ "0x3FF000"]]
    by (simp add: init_fields_def task_fields)
qed

text \<open>The null test of \<^verbatim>\<open>init_task\<close> never fires: \<^verbatim>\<open>paging_new\<close> returns a heap block.\<close>

lemma init_task_eq:
  fixes s :: "'a task_state_scheme"
  assumes "paging_new 5 (s\<lparr>mem := memset (mem s) task 0 60\<rparr>) = Some (chunk, s\<lparr>mem := m\<rparr>)" and "chunk \<noteq> 0"
  shows "init_task task s = Some (0, s\<lparr>mem := init_fields task chunk m\<rparr>)"
  using assms by (simp add: init_task_def kernel_consts init_fields_def task_page_directory_def)

lemma memset_zero_load:
  assumes "i + 4 \<le> unat n"
  shows "load32 (memset m p 0 n) (p + of_nat i) = 0"
proof -
  have z: "memset m p 0 n a = 0" if "a \<in> region (p + of_nat i) 4" for a
    using region_shift [OF assms, of p] that memset_inside [of a p n m 0] by auto
  show ?thesis
    by (simp add: load32_def z [of "p + of_nat i"] z [of "p + of_nat i + 1"] z [of "p + of_nat i + 2"]
      z [of "p + of_nat i + 3"])
qed

definition task_ready :: "mem \<Rightarrow> u32 \<Rightarrow> u32 \<Rightarrow> bool" where
  "task_ready m task chunk \<longleftrightarrow> load32 m task = chunk \<and> load32 m (task_reg_ip task) = 0x400000
     \<and> load32 m (task_reg_ss task) = 0x23 \<and> load32 m (task_reg_esp task) = 0x3FF000"

text \<open>The heap side of \<^verbatim>\<open>new_task\<close>: from \<open>s\<close> to \<open>s'\<close> a task block \<open>tb\<close> and an address space with chunk \<open>cb\<close>,
  directory \<open>d\<close> and tables \<open>ts\<close> have become live; the space maps every address to itself, open to
  the user and read-only, the registers are set up, and nothing but the new blocks, the heap's table and \<open>F\<close> was written.\<close>

definition task_built :: "u32 set \<Rightarrow> 'a kheap_state_scheme \<Rightarrow> 'a kheap_state_scheme \<Rightarrow>
    u32 \<times> nat \<Rightarrow> u32 \<times> nat \<Rightarrow> u32 \<times> nat \<Rightarrow> (u32 \<times> nat) list \<Rightarrow> bool" where
  "task_built F s s' tb cb d ts \<longleftrightarrow> kheap_inv s' \<and> chunk_ok s' cb d ts \<and> 60 \<le> snd tb \<and> tb \<notin> {cb, d} \<union> set ts
     \<and> kheap_live s' = kheap_live s \<union> ({tb, cb, d} \<union> set ts) \<and> ({tb, cb, d} \<union> set ts) \<inter> kheap_live s = {}
     \<and> task_ready (mem s') (fst tb) (fst cb) \<and> (\<forall>va. page_entry (mem s') (fst d) va = (va AND 0xfffff000) OR 5)
     \<and> (\<forall>va. translate (mem s') (fst d) va = Some (va, False, True))
     \<and> same_outside (blocks_region ({tb, cb, d} \<union> set ts) \<union> kheap_meta \<union> F) (mem s) (mem s')"

lemma task_created:
  fixes s :: "'a task_state_scheme"
  assumes "kheap_inv s" and "kheap_cap s (2052 + c)"
  shows "\<exists>tb cb d ts m1 m. kzalloc 60 s = Some (fst tb, s\<lparr>mem := m1\<rparr>)
    \<and> init_task (fst tb) (s\<lparr>mem := m1\<rparr>) = Some (0, s\<lparr>mem := m\<rparr>) \<and> task_built {} s (s\<lparr>mem := m\<rparr>) tb cb d ts
    \<and> load32 m (task_next (fst tb)) = 0 \<and> load32 m (task_prev (fst tb)) = 0"
proof -
  have need: "blocks_for 60 = 1" by (simp add: blocks_for_def)
  obtain p k m1 where a: "kzalloc 60 s = Some (p, s\<lparr>mem := m1\<rparr>)" "unat (60 :: u32) \<le> k"
    and apart: "\<And>q j. (q, j) \<in> kheap_live s \<Longrightarrow> region p k \<inter> region q j = {}"
    and w: "\<And>m2. same_outside (region p k) m1 m2 \<Longrightarrow> kheap_inv (s\<lparr>mem := m2\<rparr>)
      \<and> kheap_live (s\<lparr>mem := m2\<rparr>) = insert (p, k) (kheap_live s) \<and> kheap_cap (s\<lparr>mem := m2\<rparr>) (2052 + c - blocks_for 60)
      \<and> same_outside (region p k \<union> kheap_meta) (mem s) m2"
    by (rule kz.alloc_fill [OF assms, of 60]) (simp add: need, metis)
  have k: "60 \<le> k" using a(2) by simp
  define m2 where "m2 = memset m1 p 0 60"
  have "same_outside (region p 60) m1 m2" unfolding m2_def using memset_outside [of p 60 m1 0] by simp
  then have "same_outside (region p k) m1 m2" using region_mono [OF k] by (rule same_outside_mono)
  from w [OF this] have s2: "kheap_inv (s\<lparr>mem := m2\<rparr>)" "kheap_live (s\<lparr>mem := m2\<rparr>) = insert (p, k) (kheap_live s)"
    "kheap_cap (s\<lparr>mem := m2\<rparr>) (2051 + c)" "same_outside (region p k \<union> kheap_meta) (mem s) m2"
    by (simp_all add: need)
  have new: "(p, k) \<notin> kheap_live s" using apart [of p k] base_mem_region [of p k] k by fastforce
  from paging_new_ok [OF s2(1,3), of 5] obtain cb d ts m3 where
    n: "paging_new 5 (s\<lparr>mem := m2\<rparr>) = Some (fst cb, s\<lparr>mem := m3\<rparr>)" "kheap_inv (s\<lparr>mem := m3\<rparr>)"
    "chunk_ok (s\<lparr>mem := m3\<rparr>) cb d ts" "kheap_live (s\<lparr>mem := m3\<rparr>) = kheap_live (s\<lparr>mem := m2\<rparr>) \<union> ({cb, d} \<union> set ts)"
    "({cb, d} \<union> set ts) \<inter> kheap_live (s\<lparr>mem := m2\<rparr>) = {}"
    "\<forall>va. page_entry m3 (fst d) va = (va AND 0xfffff000) OR ucast (5 :: u8)" "identity_map 5 m3 (fst d)"
    "same_outside (blocks_region ({cb, d} \<union> set ts) \<union> kheap_meta) m2 m3" by auto
  define m where "m = init_fields p (fst cb) m3"
  have f: "same_outside (region p k) m3 m"
    unfolding m_def using init_fields_frame region_mono [OF k] by (rule same_outside_mono)
  have pl: "(p, k) \<in> kheap_live (s\<lparr>mem := m3\<rparr>)" "(p, k) \<notin> {cb, d} \<union> set ts" using n(4,5) s2(2) by auto
  have pm: "(p, k) \<in> kheap_live (s\<lparr>mem := m2\<rparr>)" using s2(2) by simp
  note ck = chunk_other_block [OF n(2,3) pl, of m]
  have zero: "load32 m3 a = load32 m2 a" if "region a 4 \<subseteq> region p 60" for a
  proof (rule load32_frame [OF n(8)])
    have "region p k \<inter> region q j = {}" if "(q, j) \<in> {cb, d} \<union> set ts" for q j
      using kheap_live_apart [OF n(2) pl(1), of q j] that pl(2) n(4) by auto
    then show "region a 4 \<inter> (blocks_region ({cb, d} \<union> set ts) \<union> kheap_meta) = {}"
      using that region_mono [OF k, of p] kheap_live_off_meta(1) [OF s2(1) pm] by fastforce
  qed
  have "load32 m2 (task_next p) = 0" "load32 m2 (task_prev p) = 0"
    using memset_zero_load [of 52 60 m1 p] memset_zero_load [of 56 60 m1 p] by (simp_all add: m2_def task_fields)
  then have links: "load32 m (task_next p) = 0" "load32 m (task_prev p) = 0"
    using zero [OF link_fields(1)] zero [OF link_fields(2)] by (simp_all add: m_def init_fields_load)
  have "(fst cb, snd cb) \<in> kheap_live (s\<lparr>mem := m3\<rparr>)" using n(4) by simp
  from live_nonzero [OF n(2) this] have i: "init_task p (s\<lparr>mem := m1\<rparr>) = Some (0, s\<lparr>mem := m\<rparr>)"
    using init_task_eq [of "s\<lparr>mem := m1\<rparr>" p "fst cb" m3] n(1) by (simp add: m_def m2_def)
  have o: "kheap_inv (s\<lparr>mem := m\<rparr>)" "kheap_live (s\<lparr>mem := m\<rparr>) = kheap_live (s\<lparr>mem := m3\<rparr>)"
    using km.own_write(1,2) [OF n(2) pl(1), of m] f by simp_all
  have sel: "mem (s\<lparr>mem := m\<rparr>) = m" by simp
  have "same_outside (blocks_region ({(p, k), cb, d} \<union> set ts) \<union> kheap_meta) (mem s) m"
    using same_outside_trans [OF same_outside_trans [OF s2(4) n(8)] f] by (rule same_outside_mono) auto
  moreover have "task_ready m p (fst cb)" by (simp add: task_ready_def m_def init_fields_load)
  moreover have "\<forall>va. page_entry m (fst d) va = (va AND 0xfffff000) OR 5" using ck(2) f n(6) by simp
  moreover have "\<forall>va. translate m (fst d) va = Some (va, False, True)"
    using translate_cong [OF ck(2,3)] f identity_map_translate [OF n(7)] by simp
  moreover have "chunk_ok (s\<lparr>mem := m\<rparr>) cb d ts" using ck(1) f by simp
  moreover have "({(p, k), cb, d} \<union> set ts) \<inter> kheap_live s = {}" using new n(5) s2(2) by auto
  moreover have "kheap_live (s\<lparr>mem := m\<rparr>) = kheap_live s \<union> ({(p, k), cb, d} \<union> set ts)" using o(2) n(4) s2(2) by auto
  ultimately have "task_built {} s (s\<lparr>mem := m\<rparr>) (p, k) cb d ts" using o(1) k pl(2)
    by (simp only: task_built_def fst_conv snd_conv simp_thms sel Un_empty_right)
  then show ?thesis using a(1) i links
    by (intro exI [of _ "(p, k)"] exI [of _ cb] exI [of _ d] exI [of _ ts] exI [of _ m1] exI [of _ m])
      (simp only: fst_conv simp_thms)
qed

definition tasks_live :: "'a kheap_state_scheme \<Rightarrow> u32 list \<Rightarrow> bool" where
  "tasks_live s xs \<longleftrightarrow> (\<forall>x \<in> set xs. \<exists>k. (x, k) \<in> kheap_live s \<and> 60 \<le> k)"

text \<open>Appending a fresh node to a list in memory.\<close>

lemma append_node:
  assumes "links m 0 xs 0" and "nodes_apart (xs @ [p])" and "xs \<noteq> []" and "load32 m (task_next p) = 0"
    and m': "m' = store32 (store32 m (task_next (last xs)) p) (task_prev p) (last xs)"
  shows "links m' 0 (xs @ [p]) 0" and "same_outside (region (last xs) 60 \<union> region p 60) m m'"
proof -
  obtain us u where xs: "xs = us @ [u]" using assms(3) by (cases xs rule: rev_cases) auto
  note a = middle_apart [of xs p "[]", OF assms(2)]
  let ?m = "store32 m (task_next u) p"
  have 1: "links ?m 0 xs p" using set_last_next [of m 0 us u 0 p] assms(1) a(1) xs by simp
  have off: "region p 60 \<inter> region u 60 = {}" using a(6) [of u] xs by (auto simp: Int_commute)
  have "links m' 0 xs p"
    unfolding m' by (rule links_frame [OF _ store_prev_frame]) (use 1 xs a(6) in auto)
  moreover have "load32 m' (task_next p) = 0"
    using assms(4) off link_fields(1) [of p] by (simp add: m' xs) (subst load32_frame [OF store_next_frame]; blast)
  ultimately show "links m' 0 (xs @ [p]) 0"
    by (simp add: links_append first_or_def last_or_def assms(3)) (simp add: m')
  show "same_outside (region (last xs) 60 \<union> region p 60) m m'"
    unfolding m' by (rule same_outside_trans [OF store_next_frame store_prev_frame])
qed

lemma tasks_off_blocks:
  fixes s :: "'a kheap_state_scheme"
  assumes "kheap_inv s" and "tasks_live s xs" and "x \<in> set xs" and "(p, k) \<in> kheap_live s" and "p \<notin> set xs"
  shows "region x 60 \<inter> region p k = {}" and "region x 60 \<inter> kheap_meta = {}"
proof -
  obtain j where j: "(x, j) \<in> kheap_live s" "60 \<le> j" using assms(2,3) by (auto simp: tasks_live_def)
  have "(x, j) \<noteq> (p, k)" using assms(3,5) by auto
  from kheap_live_apart [OF assms(1) j(1) assms(4) this] kheap_live_off_meta(1) [OF assms(1) j(1)]
  show "region x 60 \<inter> region p k = {}" "region x 60 \<inter> kheap_meta = {}" using region_mono [OF j(2), of x] by blast+
qed

lemma fresh_node:
  fixes s :: "'a kheap_state_scheme"
  assumes "kheap_inv s" and "nodes_apart xs" and "tasks_live s xs" and "(p, k) \<in> kheap_live s" and "60 \<le> k" and "p \<notin> set xs"
  shows "nodes_apart (xs @ [p])"
proof -
  have o: "off_node x p" "off_node p x" if "x \<in> set xs" for x
    using tasks_off_blocks(1) [OF assms(1,3) that assms(4,6)] region_mono [OF assms(5), of p]
    unfolding off_node_def by blast+
  have "p \<noteq> 0" by (rule live_nonzero [OF assms(1,4)])
  then show ?thesis using assms(2,6) o by (auto simp: nodes_apart_def)
qed

lemma live_size_unique:
  assumes "kheap_inv s" and "(p, k) \<in> kheap_live s" and "(p, j) \<in> kheap_live s"
  shows "k = j"
proof (rule ccontr)
  assume "k \<noteq> j"
  then have "(p, k) \<noteq> (p, j)" by simp
  from kheap_live_apart [OF assms this] have "p \<notin> region p k \<inter> region p j" by simp
  then show False using kheap_live_off_meta(2) [OF assms(1)] assms(2,3) by simp
qed

lemma new_block_node:
  fixes s :: "'a kheap_state_scheme"
  assumes "kheap_inv s'" and "tasks_live s xs" and "(p, k) \<notin> kheap_live s" and "kheap_live s \<subseteq> kheap_live s'"
    and "(p, k) \<in> kheap_live s'"
  shows "p \<notin> set xs"
  using assms live_size_unique [OF assms(1,5)] unfolding tasks_live_def by blast

text \<open>The invariant of the task table: the list in memory, each node in a live heap block of its own.\<close>

definition tasks_inv :: "u32 list \<Rightarrow> 'a task_state_scheme \<Rightarrow> bool" where
  "tasks_inv xs s \<longleftrightarrow> kheap_inv s \<and> task_list (mem s) (head s) (tail s) xs \<and> tasks_live s xs"

lemma nodes_off_meta:
  fixes s :: "'a kheap_state_scheme"
  assumes "kheap_inv s" and "tasks_live s xs"
  shows "nodes_region xs \<inter> kheap_meta = {}"
proof -
  have "region x 60 \<inter> kheap_meta = {}" if "x \<in> set xs" for x
  proof -
    from assms(2) that obtain j where "(x, j) \<in> kheap_live s" "60 \<le> j" unfolding tasks_live_def by blast
    then show ?thesis using kheap_live_off_meta(1) [OF assms(1)] region_mono [of 60 j x] by blast
  qed
  then show ?thesis by (auto simp: nodes_region_def)
qed

lemma nodes_off_block:
  fixes s :: "'a kheap_state_scheme"
  assumes "kheap_inv s" and "tasks_live s xs" and "(q, j) \<in> kheap_live s" and "q \<notin> set xs"
  shows "region q j \<inter> nodes_region xs = {}"
  using tasks_off_blocks(1) [OF assms(1,2) _ assms(3,4)] by (auto simp: nodes_region_def)

lemma tasks_live_mono: "tasks_live s xs \<Longrightarrow> kheap_live s \<subseteq> kheap_live s' \<Longrightarrow> tasks_live s' xs"
  unfolding tasks_live_def by blast

lemma tasks_live_snoc: "tasks_live s xs \<Longrightarrow> (p, k) \<in> kheap_live s \<Longrightarrow> 60 \<le> k \<Longrightarrow> tasks_live s (xs @ [p])"
  by (auto simp: tasks_live_def)

lemma new_task_first:
  fixes s :: "'a task_state_scheme"
  assumes "kzalloc 60 s = Some (p, s1)" and "init_task p s1 = Some (0, s2)" and "p \<noteq> 0" and "head s2 = 0"
  shows "new_task proc s = Some (0, s2\<lparr>head := p, tail := p\<rparr>)"
  using assms by (simp add: new_task_def sizeof_task_def)

lemma new_task_append:
  fixes s :: "'a task_state_scheme"
  assumes "kzalloc 60 s = Some (p, s1)" and "init_task p s1 = Some (0, s2)" and "p \<noteq> 0" and "head s2 \<noteq> 0"
  shows "new_task proc s = Some (p, s2\<lparr>mem := store32 (store32 (store32 (mem s2) (task_next (tail s2)) p)
    (task_prev p) (tail s2)) (process_task proc) p, tail := p\<rparr>)"
  using assms by (simp add: new_task_def sizeof_task_def Let_def)

lemma task_built_live:
  assumes "task_built F s s' tb cb d ts"
  shows "kheap_inv s'" and "(fst tb, snd tb) \<in> kheap_live s'" and "(fst tb, snd tb) \<notin> kheap_live s" and "60 \<le> snd tb"
    and "kheap_live s \<subseteq> kheap_live s'" and "chunk_ok s' cb d ts" and "(fst tb, snd tb) \<notin> {cb, d} \<union> set ts"
    and "({cb, d} \<union> set ts) \<inter> kheap_live s = {}"
  using assms by (auto simp: task_built_def)

text \<open>Creating the first task.\<close>

lemma new_task_first_ok:
  fixes s :: "'a task_state_scheme"
  assumes "tasks_inv [] s" and "kheap_cap s (2052 + c)"
  shows "\<exists>tb cb d ts m. new_task proc s = Some (0, s\<lparr>mem := m, head := fst tb, tail := fst tb\<rparr>)
    \<and> tasks_inv [fst tb] (s\<lparr>mem := m, head := fst tb, tail := fst tb\<rparr>)
    \<and> task_built {} s (s\<lparr>mem := m, head := fst tb, tail := fst tb\<rparr>) tb cb d ts"
proof -
  have i: "kheap_inv s" "head s = 0" using assms(1) by (simp_all add: tasks_inv_def task_list_def first_or_def)
  obtain tb cb d ts m1 m where n: "kzalloc 60 s = Some (fst tb, s\<lparr>mem := m1\<rparr>)"
    "init_task (fst tb) (s\<lparr>mem := m1\<rparr>) = Some (0, s\<lparr>mem := m\<rparr>)" "task_built {} s (s\<lparr>mem := m\<rparr>) tb cb d ts"
    "load32 m (task_next (fst tb)) = 0" "load32 m (task_prev (fst tb)) = 0"
    using task_created [OF i(1) assms(2)] by metis
  note b = task_built_live [OF n(3)]
  note nz = live_nonzero [OF b(1,2)]
  let ?s = "s\<lparr>mem := m, head := fst tb, tail := fst tb\<rparr>"
  have tl: "tasks_live ?s [fst tb]" unfolding tasks_live_def using b(2,4) by simp (intro exI [of _ "snd tb"], simp)
  have "task_list m (fst tb) (fst tb) [fst tb]"
    using n(4,5) nz by (simp add: task_list_def nodes_apart_def first_or_def last_or_def)
  with tl have "tasks_inv [fst tb] ?s" using b(1) by (simp add: tasks_inv_def)
  moreover have "task_built {} s ?s tb cb d ts"
    using n(3) by (simp only: task_built_def task_globals mach.simps task_state.simps) simp
  moreover have "new_task proc s = Some (0, ?s)" using new_task_first [OF n(1,2) nz] i(2) by simp
  ultimately show ?thesis by blast
qed

text \<open>Creating a further one: the writes that link it in stay within the tasks and the process.\<close>

lemma built_off_live:
  assumes "task_built F s s' tb cb d ts" and "(q, j) \<in> kheap_live s"
  shows "region q j \<inter> (blocks_region ({tb, cb, d} \<union> set ts) \<union> kheap_meta) = {}"
proof -
  note b = task_built_live [OF assms(1)]
  have q: "(q, j) \<in> kheap_live s'" using b(5) assms(2) by blast
  have "region q j \<inter> region p k = {}" if "(p, k) \<in> {tb, cb, d} \<union> set ts" for p k
  proof -
    have "(p, k) \<in> kheap_live s'" "(p, k) \<noteq> (q, j)" using assms that by (auto simp: task_built_def)
    then show ?thesis using kheap_live_apart [OF b(1) q] by blast
  qed
  then show ?thesis using kheap_live_off_meta(1) [OF b(1) q] by auto
qed

lemma built_other_block:
  assumes "task_built F s s' tb cb d ts" and "tasks_live s xs" and "(x, y) \<in> {cb, d} \<union> set ts"
  shows "x \<notin> set (xs @ [fst tb])"
proof -
  note b = task_built_live [OF assms(1)]
  have x: "(x, y) \<in> kheap_live s'" "(x, y) \<notin> kheap_live s" using chunk_live [OF b(6) assms(3)] b(8) assms(3) by blast+
  have "x \<noteq> fst tb" using live_size_unique [OF b(1,2)] x(1) b(7) assms(3) by metis
  then show ?thesis using new_block_node [OF b(1) assms(2) x(2) b(5) x(1)] by simp
qed

lemma ready_fields:
  assumes "d + 4 \<le> 56" and "x = p + of_nat d"
  shows "region x 4 \<subseteq> region p 60" and "region x 4 \<inter> region (task_prev p) 4 = {}"
proof -
  show "region x 4 \<subseteq> region p 60" unfolding assms(2) by (rule region_shift) (use assms(1) in simp)
  have d: "unat (of_nat d :: u32) = d" using assms(1) by (intro unat_of_nat32) simp
  have "(of_nat d :: u32) + 4 \<le> 56" "(of_nat d :: u32) < 0x80000000"
    using assms(1) by (simp_all add: word_le_nat_alt word_less_nat_alt unat_word_ariths d)
  from field_regions [OF this(1) _ this(2), of p] show "region x 4 \<inter> region (task_prev p) 4 = {}"
    by (simp add: assms(2) task_prev_def)
qed

lemma link_new_task:
  fixes s :: "'a task_state_scheme"
  assumes "tasks_inv xs s" and "xs \<noteq> []" and "task_built {} s (s\<lparr>mem := m\<rparr>) tb cb d ts"
    and "load32 m (task_next (fst tb)) = 0"
    and "(q, j) \<in> kheap_live s" and "q \<notin> set xs" and "region (process_task proc) 4 \<subseteq> region q j"
    and m': "m' = store32 (store32 (store32 m (task_next (tail s)) (fst tb)) (task_prev (fst tb)) (tail s)) (process_task proc) (fst tb)"
  shows "task_list m' (head s) (fst tb) (xs @ [fst tb])"
    and "same_outside (nodes_region (xs @ [fst tb]) \<union> region (process_task proc) 4) m m'"
    and "region a 4 \<subseteq> region (fst tb) 60 \<Longrightarrow> region a 4 \<inter> region (task_prev (fst tb)) 4 = {} \<Longrightarrow> load32 m' a = load32 m a"
proof -
  let ?p = "fst tb" and ?s = "s\<lparr>mem := m\<rparr>"
  note b = task_built_live [OF assms(3)]
  have i: "kheap_inv s" "links (mem s) 0 xs 0" "nodes_apart xs" "head s = first_or xs 0" "tail s = last xs" "tasks_live s xs"
    using assms(1,2) by (simp_all add: tasks_inv_def task_list_def last_or_def)
  note tl = tasks_live_mono [OF i(6) b(5)] and pn = new_block_node [OF b(1) i(6) b(3,5,2)]
  have na: "nodes_apart (xs @ [?p])" by (rule fresh_node [OF b(1) i(3) tl b(2,4) pn])
  have fr: "same_outside (blocks_region ({tb, cb, d} \<union> set ts) \<union> kheap_meta) (mem s) m"
    using assms(3) by (simp add: task_built_def)
  have off: "region x 60 \<inter> (blocks_region ({tb, cb, d} \<union> set ts) \<union> kheap_meta) = {}" if "x \<in> set xs" for x
  proof -
    from i(6) that obtain k where "(x, k) \<in> kheap_live s" "60 \<le> k" unfolding tasks_live_def by blast
    then show ?thesis using built_off_live [OF assms(3)] region_mono [of 60 k x] by blast
  qed
  have lm: "links m 0 xs 0" by (rule links_frame [OF i(2) fr off])
  note ap = append_node [OF lm na assms(2,4) refl]
  let ?m = "store32 (store32 m (task_next (last xs)) ?p) (task_prev ?p) (last xs)"
  have e: "m' = store32 ?m (process_task proc) ?p" by (simp add: m' i(5))
  have qs: "(q, j) \<in> kheap_live ?s" "?p \<noteq> q"
    using b(3,5) assms(5) live_size_unique [OF b(1,2)] by (metis subsetD)+
  have qx: "region x 60 \<inter> region (process_task proc) 4 = {}" if "x \<in> set (xs @ [?p])" for x
  proof -
    have "tasks_live ?s (xs @ [?p])" by (rule tasks_live_snoc [OF tl b(2,4)])
    from tasks_off_blocks(1) [OF b(1) this that qs(1)] show ?thesis using assms(6,7) qs(2) by auto
  qed
  have "links m' 0 (xs @ [?p]) 0" unfolding e by (rule links_frame [OF ap(1) store32_outside qx])
  then show "task_list m' (head s) ?p (xs @ [?p])"
    using na assms(2) by (cases xs) (simp_all add: task_list_def i(4) first_or_def last_or_def)
  have "last xs \<in> set xs" using assms(2) by simp
  then show "same_outside (nodes_region (xs @ [?p]) \<union> region (process_task proc) 4) m m'"
    using same_outside_trans [OF ap(2) store32_outside [of "process_task proc" ?m ?p]] unfolding e
    by (rule_tac same_outside_mono) (auto simp: nodes_region_def)
  assume a: "region a 4 \<subseteq> region ?p 60" "region a 4 \<inter> region (task_prev ?p) 4 = {}"
  have "region ?p 60 \<inter> region (last xs) 60 = {}"
    using middle_apart(6) [of xs ?p "[]" "last xs"] na assms(2) by auto
  then have "region a 4 \<inter> (region (last xs) 60 \<union> region (task_prev ?p) 4 \<union> region (process_task proc) 4) = {}"
    using a qx [of ?p] by auto
  then show "load32 m' a = load32 m a"
    unfolding e by (rule load32_frame [OF same_outside_trans [OF same_outside_trans [OF store_next_frame store32_outside] store32_outside]])
qed

lemma new_task_append_ok:
  fixes s :: "'a task_state_scheme"
  assumes "tasks_inv xs s" and "kheap_cap s (2052 + c)" and "xs \<noteq> []"
    and "(q, j) \<in> kheap_live s" and "q \<notin> set xs" and "region (process_task proc) 4 \<subseteq> region q j"
  shows "\<exists>tb cb d ts m. new_task proc s = Some (fst tb, s\<lparr>mem := m, tail := fst tb\<rparr>)
    \<and> tasks_inv (xs @ [fst tb]) (s\<lparr>mem := m, tail := fst tb\<rparr>) \<and> load32 m (process_task proc) = fst tb
    \<and> task_built (nodes_region xs \<union> region (process_task proc) 4) s (s\<lparr>mem := m, tail := fst tb\<rparr>) tb cb d ts"
proof -
  have i: "kheap_inv s" "tasks_live s xs" "head s \<noteq> 0"
    using assms(1,3) or_zero(1) [of xs] by (auto simp: tasks_inv_def task_list_def)
  obtain tb cb d ts m1 m where n: "kzalloc 60 s = Some (fst tb, s\<lparr>mem := m1\<rparr>)"
    "init_task (fst tb) (s\<lparr>mem := m1\<rparr>) = Some (0, s\<lparr>mem := m\<rparr>)" "task_built {} s (s\<lparr>mem := m\<rparr>) tb cb d ts"
    "load32 m (task_next (fst tb)) = 0"
    using task_created [OF i(1) assms(2)] by metis
  note b = task_built_live [OF n(3)]
  note nz = live_nonzero [OF b(1,2)]
  let ?p = "fst tb" and ?P = "region (process_task proc) 4"
  define m' where "m' = store32 (store32 (store32 m (task_next (tail s)) ?p) (task_prev ?p) (tail s)) (process_task proc) ?p"
  note k = link_new_task [OF assms(1,3) n(3,4) assms(4-6) m'_def]
  have tl: "tasks_live (s\<lparr>mem := m\<rparr>) (xs @ [?p])" by (rule tasks_live_snoc [OF tasks_live_mono [OF i(2) b(5)] b(2,4)])
  let ?R = "nodes_region (xs @ [?p]) \<union> ?P"
  have q: "region q j \<inter> (blocks_region ({tb, cb, d} \<union> set ts) \<union> kheap_meta) = {}"
    by (rule built_off_live [OF n(3) assms(4)])
  have meta: "?R \<inter> kheap_meta = {}" using nodes_off_meta [OF b(1) tl] q assms(6) by blast
  have w: "kheap_inv (s\<lparr>mem := m'\<rparr>)" "kheap_live (s\<lparr>mem := m'\<rparr>) = kheap_live (s\<lparr>mem := m\<rparr>)"
    using kheap_client_write [OF b(1) _ meta, of m'] k(2) by simp_all
  have "region x y \<inter> ?R = {}" if "(x, y) \<in> {cb, d} \<union> set ts" for x y
  proof -
    have "(x, y) \<in> kheap_live (s\<lparr>mem := m\<rparr>)" by (rule chunk_live [OF b(6) that])
    moreover have "x \<notin> set (xs @ [?p])" by (rule built_other_block [OF n(3) i(2) that])
    ultimately show ?thesis using nodes_off_block [OF b(1) tl] q assms(6) that by blast
  qed
  note ck = chunk_frame [OF b(1,6) _ meta this, of m']
  have f: "load32 m' x = load32 m x" if "d + 4 \<le> 56" "x = ?p + of_nat d" for d x
    using k(3) [OF ready_fields [OF that]] .
  have r: "task_ready m' ?p (fst cb)"
    using n(3) f [of 0 ?p] f [of 32 "task_reg_ip ?p"] f [of 48 "task_reg_ss ?p"] f [of 44 "task_reg_esp ?p"]
    by (simp add: task_built_def task_ready_def task_fields)
  have "region ?p 60 \<subseteq> blocks_region {tb}" using region_mono [OF b(4), of ?p] by (cases tb) simp
  moreover have "same_outside (blocks_region ({tb, cb, d} \<union> set ts) \<union> kheap_meta) (mem s) m"
    using n(3) by (simp add: task_built_def)
  ultimately have "same_outside (blocks_region ({tb, cb, d} \<union> set ts) \<union> kheap_meta \<union> (nodes_region xs \<union> ?P)) (mem s) m'"
    using same_outside_trans [OF _ k(2)] by (rule_tac same_outside_mono) (assumption, auto simp: nodes_region_def)
  with n(3) w ck translate_cong [OF ck(2,3)] k(2) r have "task_built (nodes_region xs \<union> ?P) s (s\<lparr>mem := m'\<rparr>) tb cb d ts"
    unfolding task_built_def by simp
  then have "task_built (nodes_region xs \<union> ?P) s (s\<lparr>mem := m', tail := ?p\<rparr>) tb cb d ts"
    by (simp add: task_built_def)
  moreover have "tasks_inv (xs @ [?p]) (s\<lparr>mem := m', tail := ?p\<rparr>)"
    using w(1) k(1) tl by (simp add: tasks_inv_def tasks_live_def w(2))
  moreover have "load32 m' (process_task proc) = ?p" by (simp add: m'_def)
  moreover have "new_task proc s = Some (?p, s\<lparr>mem := m', tail := ?p\<rparr>)"
    using new_task_append [OF n(1,2) nz] i(3) by (simp add: m'_def)
  ultimately show ?thesis by blast
qed

section \<open>Release\<close>

text \<open>\<^verbatim>\<open>free_task\<close> gives back the address space and the task's block and takes the task out of the list.\<close>

lemma free_task_ok:
  fixes s :: "'a task_state_scheme"
  assumes "tasks_inv (xs @ t # ys) s" and "load32 (mem s) t = fst cb" and "chunk_ok s cb d ts" and "(t, k) \<in> kheap_live s"
    and "fst ` ({cb, d} \<union> set ts) \<inter> set (xs @ t # ys) = {}"
  shows "\<exists>s'. free_task t s = Some s' \<and> tasks_inv (xs @ ys) s'
    \<and> kheap_live s' = kheap_live s - ({(t, k), cb, d} \<union> set ts)
    \<and> current s' = (if current s = t then first_or ys (first_or xs 0) else current s)
    \<and> same_outside (nodes_region (xs @ t # ys) \<union> kheap_meta) (mem s) (mem s')"
proof -
  let ?xs = "xs @ t # ys"
  have n: "x \<notin> set ?xs" if "(x, y) \<in> {cb, d} \<union> set ts" for x y using assms(5) that by force
  have i: "kheap_inv s" "task_list (mem s) (head s) (tail s) ?xs" "tasks_live s ?xs" using assms(1) by (simp_all add: tasks_inv_def)
  obtain m1 where 1: "paging_free (fst cb) s = Some (s\<lparr>mem := m1\<rparr>)" "kheap_inv (s\<lparr>mem := m1\<rparr>)"
    "kheap_live (s\<lparr>mem := m1\<rparr>) = kheap_live s - ({cb, d} \<union> set ts)" "same_outside kheap_meta (mem s) m1"
    using paging_free_ok [OF i(1) assms(3)] by metis
  let ?s1 = "s\<lparr>mem := m1\<rparr>"
  have l1: "tasks_live ?s1 ?xs" using i(3) 1(3) n unfolding tasks_live_def by blast
  have "region x 60 \<inter> kheap_meta = {}" if "x \<in> set ?xs" for x using nodes_off_meta [OF i(1,3)] that by (auto simp: nodes_region_def)
  then have "task_list m1 (head s) (tail s) ?xs"
    using i(2) links_frame [OF _ 1(4)] unfolding task_list_def by blast
  then have tl: "task_list (mem ?s1) (head ?s1) (tail ?s1) ?xs" by simp
  define s2 where "s2 = remove_task t ?s1"
  note r = remove_task_ok [OF tl s2_def] and eq = remove_task_eq [OF tl]
  have h2: "kheap_inv s2" "kheap_live s2 = kheap_live ?s1"
    using kheap_inv_frame [OF 1(2) r(3) nodes_off_meta [OF 1(2) l1]] by (simp_all add: s2_def eq)
  have tb: "(t, k) \<in> kheap_live s2" using h2(2) 1(3) assms(4) n [of t k] by auto
  obtain m3 where 3: "kfree t s2 = Some (s2\<lparr>mem := m3\<rparr>)" "kheap_inv (s2\<lparr>mem := m3\<rparr>)"
    "kheap_live (s2\<lparr>mem := m3\<rparr>) = kheap_live s2 - {(t, k)}" "same_outside kheap_meta (mem s2) m3"
    using kfree_spec [OF h2(1) tb] by metis
  have nd: "t \<notin> set (xs @ ys)" using i(2) by (auto simp: task_list_def nodes_apart_def)
  have l3: "tasks_live (s2\<lparr>mem := m3\<rparr>) (xs @ ys)" using l1 nd 3(3) h2(2) unfolding tasks_live_def by fastforce
  have "region x 60 \<inter> kheap_meta = {}" if "x \<in> set (xs @ ys)" for x
    using nodes_off_meta [OF 3(2) l3] that by (auto simp: nodes_region_def)
  then have "task_list m3 (head s2) (tail s2) (xs @ ys)"
    using r(1) links_frame [OF _ 3(4)] unfolding task_list_def by blast
  then have "tasks_inv (xs @ ys) (s2\<lparr>mem := m3\<rparr>)" using 3(2) l3 by (simp add: tasks_inv_def)
  moreover have "free_task t s = Some (s2\<lparr>mem := m3\<rparr>)"
    using 1(1) 3(1) assms(2) by (simp add: free_task_def task_page_directory_def s2_def)
  moreover have "current s2 = (if current s = t then first_or ys (first_or xs 0) else current s)" using r(2) by simp
  moreover have "kheap_live (s2\<lparr>mem := m3\<rparr>) = kheap_live s - ({(t, k), cb, d} \<union> set ts)" using 3(3) h2(2) 1(3) by auto
  moreover have r3: "same_outside (nodes_region ?xs) m1 (mem s2)" using r(3) by simp
  have "same_outside (nodes_region ?xs \<union> kheap_meta) (mem s) m3"
    using same_outside_trans [OF same_outside_trans [OF 1(4) r3] 3(4)] by (rule same_outside_mono) auto
  ultimately show ?thesis by (intro exI [of _ "s2\<lparr>mem := m3\<rparr>"]) simp
qed

section \<open>Turns\<close>

text \<open>The position of the current task after \<open>n\<close> switches to \<^verbatim>\<open>get_next_task()\<close>.\<close>

lemma next_task_step:
  fixes s :: "'a task_state_scheme"
  assumes "task_list (mem s) (head s) (tail s) xs" and "i < length xs" and "current s = xs ! i"
  shows "get_next_task s = xs ! (Suc i mod length xs)"
proof -
  have xs: "xs = take i xs @ current s # drop (Suc i) xs" using assms(2,3) by (simp add: id_take_nth_drop)
  then have g: "get_next_task s = first_or (drop (Suc i) xs) (first_or (take i xs @ [current s]) 0)"
    using get_next_task_ok assms(1) by metis
  show ?thesis
  proof (cases "Suc i < length xs")
    case True
    then have "drop (Suc i) xs = xs ! Suc i # drop (Suc (Suc i)) xs" by (simp add: Cons_nth_drop_Suc)
    then show ?thesis using True g by (simp add: first_or_def)
  next
    case False
    then have i: "Suc i = length xs" using assms(2) by simp
    then have "xs = take i xs @ [current s]" using xs by simp
    then show ?thesis using g i assms(2) by (cases xs) (simp_all add: first_or_def)
  qed
qed

lemma next_task_steps:
  fixes s :: "'a task_state_scheme"
  assumes "task_list (mem s) (head s) (tail s) xs" and "i < length xs" and "current s = xs ! i"
  shows "((\<lambda>s. s\<lparr>current := get_next_task s\<rparr>) ^^ n) s = s\<lparr>current := xs ! ((i + n) mod length xs)\<rparr>"
proof (induction n)
  case 0
  then show ?case using assms(2,3) by simp
next
  case (Suc n)
  let ?j = "(i + n) mod length xs"
  have "?j < length xs" using assms(2) by (simp add: mod_less_divisor[OF order.strict_trans1[OF zero_le]])
  then have "get_next_task (s\<lparr>current := xs ! ?j\<rparr>) = xs ! (Suc ?j mod length xs)"
    using assms(1) by (intro next_task_step) simp_all
  then show ?case by (simp add: Suc mod_Suc_eq)
qed

section \<open>Properties\<close>

text \<open>A concrete kernel: \<open>n\<close> single blocks are taken, the first ones hold the tasks.\<close>

definition sample_tasks :: "nat \<Rightarrow> mem \<Rightarrow> u32 \<Rightarrow> u32 \<Rightarrow> u32 \<Rightarrow> task_state" where
  "sample_tasks n m h t c = \<lparr>mem = taken_mem n m, io_log = [], terminal_row = 0, terminal_column = 0, terminal_colour = 7,
     terminal_buffer = 0xB8000, idt_descs = 0x200000, idtr_desc = \<lparr>idtr_limit = 0, idtr_base = 0\<rparr>,
     cpu_idtr = \<lparr>idtr_limit = 0, idtr_base = 0\<rparr>, kernel_heap = the_kernel_heap,
     kernel_heap_table = table the_kernel_heap, strategy = \<lparr>strategy_create = Some default_heap_create,
       strategy_malloc = Some heap_malloc, strategy_free = Some heap_free\<rparr>,
     current_directory = 0, cpu_cr3 = 0, current = c, tail = t, head = h\<rparr>"

lemma sample_tasks_heap:
  assumes "n \<le> 25600"
  shows "kheap_inv (sample_tasks n m h t c)"
    and "i < n \<Longrightarrow> (0x01000000 + of_nat (i * 4096), 4096) \<in> kheap_live (sample_tasks n m h t c)"
    and "n + k \<le> 25600 \<Longrightarrow> kheap_cap (sample_tasks n m h t c) k"
  using taken_heap [OF assms, of "sample_tasks n m h t c" m] by (simp_all add: sample_tasks_def)

lemma sample_no_task: "tasks_inv [] (sample_tasks 0 zero_mem 0 0 0)"
  using sample_tasks_heap(1) [of 0] 
  by (simp add: tasks_inv_def task_list_def nodes_apart_def first_or_def last_or_def tasks_live_def) (simp add: sample_tasks_def)

lemma sample_one_task: "tasks_inv [0x01000000] (sample_tasks 2 zero_mem 0x01000000 0x01000000 0x01000000)"
proof -
  have "taken_mem 2 zero_mem a = 0" if "unat a \<ge> 0x01000000" for a
    using that by (subst taken_mem_outside) (simp_all add: region_interval)
  then have "task_list (taken_mem 2 zero_mem) 0x01000000 0x01000000 [0x01000000]"
    by (simp add: task_list_def nodes_apart_def first_or_def last_or_def task_fields load32_def)
  moreover have "tasks_live (sample_tasks 2 zero_mem 0x01000000 0x01000000 0x01000000) [0x01000000]"
    using tasks_live_snoc [of _ "[]", OF _ sample_tasks_heap(2) [of 2 0]] by (simp add: tasks_live_def)
  ultimately show ?thesis using sample_tasks_heap(1) [of 2] by (simp add: tasks_inv_def) (simp add: sample_tasks_def)
qed

text \<open>C21: with another task in the list and room in the heap, \<^verbatim>\<open>new_task\<close> returns a task that is appended to the
  list and recorded in the process: its registers hold the program's entry point, stack and data segment,
  and its address space, in fresh blocks, maps every address to itself, open to user programs and read-only. The list and the
  heap keep their invariants, and nothing is written but the new blocks, the heap's table, the links and
  the process's field.\<close>

theorem new_task_appends:
  fixes s :: "'a task_state_scheme"
  assumes "tasks_inv xs s" and "kheap_cap s 2052" and "xs \<noteq> []"
    and "(q, j) \<in> kheap_live s" and "q \<notin> set xs" and "region (process_task proc) 4 \<subseteq> region q j"
  shows "\<exists>tb cb d ts m. new_task proc s = Some (fst tb, s\<lparr>mem := m, tail := fst tb\<rparr>)
    \<and> tasks_inv (xs @ [fst tb]) (s\<lparr>mem := m, tail := fst tb\<rparr>) \<and> load32 m (process_task proc) = fst tb
    \<and> task_built (nodes_region xs \<union> region (process_task proc) 4) s (s\<lparr>mem := m, tail := fst tb\<rparr>) tb cb d ts"
  using new_task_append_ok [of xs s 0] assms by simp

theorem new_task_appends_witness:
  "\<exists>task s'. new_task 0x01001000 (sample_tasks 2 zero_mem 0x01000000 0x01000000 0x01000000) = Some (task, s')
    \<and> tasks_inv [0x01000000, task] s'"
proof -
  let ?s = "sample_tasks 2 zero_mem 0x01000000 0x01000000 0x01000000"
  have q: "(0x01001000, 4096) \<in> kheap_live ?s" using sample_tasks_heap(2) [of 2 1] by simp
  have r: "region (process_task 0x01001000) 4 \<subseteq> region 0x01001000 4096"
    using region_shift [of 260 4 4096 "0x01001000"] by (simp add: process_task_def)
  have c: "kheap_cap ?s 2052" by (rule sample_tasks_heap(3)) simp_all
  show ?thesis using new_task_appends [OF sample_one_task c _ q _ r] by fastforce
qed

text \<open>The first task: \<^verbatim>\<open>new_task\<close> builds it and makes it head and tail of the list, and then returns the
  null pointer and leaves the process's field alone.\<close>

lemma new_task_first_is_null:
  fixes s :: "'a task_state_scheme"
  assumes "tasks_inv [] s" and "kheap_cap s 2052"
  shows "\<exists>tb cb d ts m. new_task proc s = Some (0, s\<lparr>mem := m, head := fst tb, tail := fst tb\<rparr>)
    \<and> tasks_inv [fst tb] (s\<lparr>mem := m, head := fst tb, tail := fst tb\<rparr>)
    \<and> task_built {} s (s\<lparr>mem := m, head := fst tb, tail := fst tb\<rparr>) tb cb d ts"
  using new_task_first_ok [of s 0] assms by simp

text \<open>C22: \<^verbatim>\<open>free_task\<close> on a task of the list takes it out, gives back its block and every block of its address
  space, and keeps the invariants; if the task was current, the one behind it, or else the first, is.\<close>

theorem free_task_releases:
  fixes s :: "'a task_state_scheme"
  assumes "tasks_inv (xs @ t # ys) s" and "load32 (mem s) t = fst cb" and "chunk_ok s cb d ts" and "(t, k) \<in> kheap_live s"
    and "fst ` ({cb, d} \<union> set ts) \<inter> set (xs @ t # ys) = {}"
  shows "\<exists>s'. free_task t s = Some s' \<and> tasks_inv (xs @ ys) s'
    \<and> kheap_live s' = kheap_live s - ({(t, k), cb, d} \<union> set ts)
    \<and> current s' = (if current s = t then first_or ys (first_or xs 0) else current s)
    \<and> same_outside (nodes_region (xs @ t # ys) \<union> kheap_meta) (mem s) (mem s')"
  using assms by (rule free_task_ok)

lemma free_new_task:
  fixes s :: "'a task_state_scheme"
  assumes "tasks_inv (xs @ [fst tb]) s'" and "task_built F s s' tb cb d ts" and "tasks_live s xs"
  shows "load32 (mem s') (fst tb) = fst cb" and "chunk_ok s' cb d ts" and "(fst tb, snd tb) \<in> kheap_live s'"
    and "fst ` ({cb, d} \<union> set ts) \<inter> set (xs @ [fst tb]) = {}"
proof -
  show "load32 (mem s') (fst tb) = fst cb" "chunk_ok s' cb d ts" "(fst tb, snd tb) \<in> kheap_live s'"
    using assms(2) task_built_live [OF assms(2)] by (simp_all add: task_built_def task_ready_def)
  have "fst b \<notin> set (xs @ [fst tb])" if "b \<in> {cb, d} \<union> set ts" for b
    using built_other_block [OF assms(2,3), of "fst b" "snd b"] that by simp
  then show "fst ` ({cb, d} \<union> set ts) \<inter> set (xs @ [fst tb]) = {}" by blast
qed

theorem free_task_releases_witness:
  "\<exists>task s1 s2. new_task 0x5000 (sample_tasks 0 zero_mem 0 0 0) = Some (0, s1) \<and> head s1 = task
    \<and> free_task task s1 = Some s2 \<and> tasks_inv [] s2"
proof -
  let ?s = "sample_tasks 0 zero_mem 0 0 0"
  have c: "kheap_cap ?s (2052 + 0)" by (rule sample_tasks_heap(3)) simp_all
  obtain tb cb d ts m where n: "new_task 0x5000 ?s = Some (0, ?s\<lparr>mem := m, head := fst tb, tail := fst tb\<rparr>)"
    "tasks_inv ([] @ [fst tb]) (?s\<lparr>mem := m, head := fst tb, tail := fst tb\<rparr>)"
    "task_built {} ?s (?s\<lparr>mem := m, head := fst tb, tail := fst tb\<rparr>) tb cb d ts"
    using new_task_first_ok [OF sample_no_task c] by (metis append_Nil)
  have "tasks_live ?s []" by (simp add: tasks_live_def)
  note r = free_new_task [OF n(2,3) this]
  obtain s2 where "free_task (fst tb) (?s\<lparr>mem := m, head := fst tb, tail := fst tb\<rparr>) = Some s2" "tasks_inv ([] @ []) s2"
    using free_task_releases [OF n(2) r] by blast
  then show ?thesis using n(1) by auto
qed

text \<open>C23: creating a task and freeing it again leaves the list and the live blocks as they were.\<close>

theorem free_task_undoes_new_task:
  fixes s :: "'a task_state_scheme"
  assumes "tasks_inv xs s" and "kheap_cap s 2052" and "xs \<noteq> []"
    and "(q, j) \<in> kheap_live s" and "q \<notin> set xs" and "region (process_task proc) 4 \<subseteq> region q j"
  shows "\<exists>task s1 s2. new_task proc s = Some (task, s1) \<and> free_task task s1 = Some s2
    \<and> tasks_inv xs s2 \<and> kheap_live s2 = kheap_live s"
proof -
  have l: "tasks_live s xs" using assms(1) by (simp add: tasks_inv_def)
  obtain tb cb d ts m where n: "new_task proc s = Some (fst tb, s\<lparr>mem := m, tail := fst tb\<rparr>)"
    "tasks_inv (xs @ [fst tb]) (s\<lparr>mem := m, tail := fst tb\<rparr>)"
    "task_built (nodes_region xs \<union> region (process_task proc) 4) s (s\<lparr>mem := m, tail := fst tb\<rparr>) tb cb d ts"
    using new_task_append_ok [of xs s 0] assms by (metis add.right_neutral)
  obtain s2 where s2: "free_task (fst tb) (s\<lparr>mem := m, tail := fst tb\<rparr>) = Some s2" "tasks_inv (xs @ []) s2"
    "kheap_live s2 = kheap_live (s\<lparr>mem := m, tail := fst tb\<rparr>) - ({(fst tb, snd tb), cb, d} \<union> set ts)"
    using free_task_ok [OF n(2) free_new_task [OF n(2,3) l]] by blast
  then have "kheap_live s2 = kheap_live s" using n(3) unfolding task_built_def by auto
  then show ?thesis using n(1) s2(1,2) by auto
qed

theorem free_task_undoes_new_task_witness:
  "\<exists>task s1 s2. new_task 0x01001000 (sample_tasks 2 zero_mem 0x01000000 0x01000000 0x01000000) = Some (task, s1)
    \<and> free_task task s1 = Some s2 \<and> tasks_inv [0x01000000] s2"
proof -
  let ?s = "sample_tasks 2 zero_mem 0x01000000 0x01000000 0x01000000"
  have q: "(0x01001000, 4096) \<in> kheap_live ?s" using sample_tasks_heap(2) [of 2 1] by simp
  have r: "region (process_task 0x01001000) 4 \<subseteq> region 0x01001000 4096"
    using region_shift [of 260 4 4096 "0x01001000"] by (simp add: process_task_def)
  have c: "kheap_cap ?s 2052" by (rule sample_tasks_heap(3)) simp_all
  show ?thesis using free_task_undoes_new_task [OF sample_one_task c _ q _ r] by auto
qed

text \<open>C24: \<^verbatim>\<open>get_next_task\<close> goes round the list: from any task, after \<open>n\<close> switches the task \<open>n\<close> places further on
  is current, counted round the end, so that every task of the list gets its turn within one round.\<close>

theorem get_next_task_round_robin:
  fixes s :: "'a task_state_scheme"
  assumes "task_list (mem s) (head s) (tail s) xs" and "i < length xs" and "current s = xs ! i"
  shows "((\<lambda>s. s\<lparr>current := get_next_task s\<rparr>) ^^ n) s = s\<lparr>current := xs ! ((i + n) mod length xs)\<rparr>
    \<and> (\<forall>t \<in> set xs. \<exists>n < length xs. current_task (((\<lambda>s. s\<lparr>current := get_next_task s\<rparr>) ^^ n) s) = t)"
proof (intro conjI)
  show e: "((\<lambda>s. s\<lparr>current := get_next_task s\<rparr>) ^^ n) s = s\<lparr>current := xs ! ((i + n) mod length xs)\<rparr>" for n
    by (rule next_task_steps [OF assms])
  show "\<forall>t \<in> set xs. \<exists>n < length xs. current_task (((\<lambda>s. s\<lparr>current := get_next_task s\<rparr>) ^^ n) s) = t"
  proof
    fix t assume "t \<in> set xs"
    then obtain k where k: "k < length xs" "xs ! k = t" by (auto simp: in_set_conv_nth)
    let ?n = "(k + length xs - i) mod length xs"
    have "(i + ?n) mod length xs = (i + (k + length xs - i)) mod length xs" by (rule mod_add_right_eq)
    also have "\<dots> = k" using assms(2) k(1) by simp
    finally have "current_task (((\<lambda>s. s\<lparr>current := get_next_task s\<rparr>) ^^ ?n) s) = t"
      using k(2) by (simp add: e current_task_def)
    moreover have "?n < length xs" using k(1) by (cases xs) simp_all
    ultimately show "\<exists>n < length xs. current_task (((\<lambda>s. s\<lparr>current := get_next_task s\<rparr>) ^^ n) s) = t" by blast
  qed
qed

theorem get_next_task_round_robin_witness:
  "current_task (((\<lambda>s. s\<lparr>current := get_next_task s\<rparr>) ^^ 7) (sample_tasks 2 zero_mem 0x01000000 0x01000000 0x01000000))
    = 0x01000000"
proof -
  let ?s = "sample_tasks 2 zero_mem 0x01000000 0x01000000 0x01000000"
  have "task_list (mem ?s) (head ?s) (tail ?s) [0x01000000]" using sample_one_task by (simp add: tasks_inv_def)
  from get_next_task_round_robin [OF this, of 0 7] show ?thesis by (simp add: sample_tasks_def current_task_def)
qed

end
