(* ===== verification/Heap_Client.thy ===== *)
theory Heap_Client
  imports Kheap
begin

text \<open>
  The kernel heap as its clients see it. \<open>heap_private s\<close> is the memory no client may rely on: the block
  table and the blocks that are not live. Code that allocates a scratch buffer, works in it and gives
  it back changes nothing outside its own writes and \<open>heap_private\<close>, and leaves the heap as it was,
  down to the room it has.
\<close>

section \<open>Room is a matter of the live blocks\<close>

lemma taken_covered:
  assumes "wf_table T" and "x < length T" and "\<not> free_entry (T ! x)"
  shows "\<exists>i n. (i, n) \<in> live_blocks T \<and> i \<le> x \<and> x < i + n"
  using assms(2,3)
proof (induction x)
  case 0
  have "boundary T 0" using 0 by (auto simp: boundary_def)
  moreover have "T ! 0 \<noteq> HEAP_BLOCK_TABLE_ENTRY_FREE" using 0 by auto
  ultimately have l: "(0, chain_len (drop 0 T)) \<in> live_blocks T" unfolding live_blocks_iff by simp
  then show ?case using live_split(3) [OF assms(1) l] by blast
next
  case (Suc x)
  obtain b where b: "table_run False (take (Suc x) T) = Some b" using wf_split [OF assms(1), of "Suc x"] by metis
  show ?case
  proof (cases b)
    case False
    then have "boundary T (Suc x)" using b Suc.prems by (auto simp: boundary_def)
    moreover have "T ! Suc x \<noteq> HEAP_BLOCK_TABLE_ENTRY_FREE" using Suc.prems by auto
    ultimately have l: "(Suc x, chain_len (drop (Suc x) T)) \<in> live_blocks T" unfolding live_blocks_iff by simp
    then show ?thesis using live_split(3) [OF assms(1) l] by (metis le_refl less_add_same_cancel1)
  next
    case True
    have "take (Suc x) T = take x T @ [T ! x]" using Suc.prems by (simp add: take_Suc_conv_app_nth)
    then obtain c where "table_step c (T ! x) = Some True" using b True by (auto simp: table_run_append Option.bind_eq_Some_conv)
    then have e: "T ! x = HEAP_BLOCK_TABLE_ENTRY_TAKEN OR HEAP_BLOCK_HAS_NEXT" by (auto elim: table_step_cases)
    then obtain i n where l: "(i, n) \<in> live_blocks T" "i \<le> x" "x < i + n" using Suc by fastforce
    note sp = live_split [OF assms(1) l(1)]
    have "T ! x = (take i T @ chain n @ drop (i + n) T) ! x" by (rule arg_cong [OF sp(1)])
    also have "\<dots> = chain n ! (x - i)" using sp(3,4) l(2,3) by (auto simp: nth_append)
    finally have "T ! x = chain n ! (x - i)" .
    moreover have "chain n ! (n - 1) = HEAP_BLOCK_TABLE_ENTRY_TAKEN" using sp(3) by (simp add: chain_def nth_append)
    ultimately have "x - i \<noteq> n - 1" using e has_next_consts by metis
    then show ?thesis using l by (intro exI [of _ i] exI [of _ n]) auto
  qed
qed

lemma fits_live:
  assumes "wf_table T" and "0 < n"
  shows "fits T r n \<longleftrightarrow> r + n \<le> length T \<and> (\<forall>(i, k) \<in> live_blocks T. r + n \<le> i \<or> i + k \<le> r)"
proof
  assume "fits T r n"
  then show "r + n \<le> length T \<and> (\<forall>(i, k) \<in> live_blocks T. r + n \<le> i \<or> i + k \<le> r)"
    using fits_disjoint_live [OF assms(1) _ assms(2)] by (auto simp: fits_iff)
next
  assume r: "r + n \<le> length T \<and> (\<forall>(i, k) \<in> live_blocks T. r + n \<le> i \<or> i + k \<le> r)"
  have "free_entry (T ! (r + x))" if "x < n" for x
  proof (rule ccontr)
    assume "\<not> free_entry (T ! (r + x))"
    then obtain i k where "(i, k) \<in> live_blocks T" "i \<le> r + x" "r + x < i + k"
      using taken_covered [OF assms(1), of "r + x"] r \<open>x < n\<close> by auto
    with r \<open>x < n\<close> show False by fastforce
  qed
  with r show "fits T r n" by (simp add: fits_iff)
qed

lemma live_blocks_of_kheap:
  fixes s :: "'a kheap_state_scheme" and t :: "'b kheap_state_scheme"
  assumes "kheap_inv s" and "kheap_inv t" and "kheap_live t \<subseteq> kheap_live s"
  shows "live_blocks (kheap_entries t) \<subseteq> live_blocks (kheap_entries s)"
proof clarify
  have l: "length (kheap_entries s) = 25600" "length (kheap_entries t) = 25600" by simp_all
  have w: "wf_table (kheap_entries s)" "wf_table (kheap_entries t)" using assms(1,2) by (simp_all add: kheap_inv_def)
  fix i n assume i: "(i, n) \<in> live_blocks (kheap_entries t)"
  then have "(block_address the_kernel_heap i, n * 4096) \<in> kheap_live s" using assms(3) unfolding kheap_live_def by fastforce
  then obtain j where j: "(j, n) \<in> live_blocks (kheap_entries s)" "block_address the_kernel_heap i = block_address the_kernel_heap j"
    unfolding kheap_live_def by auto
  have "i < heap_blocks the_kernel_heap" "j < heap_blocks the_kernel_heap"
    using live_block_address [OF i w(2) l(2)] live_block_address [OF j(1) w(1) l(1)] by simp_all
  then have "i = j" using j(2) unat_block_address [OF kernel_heap_ok] by (metis add_left_cancel mult_right_cancel zero_neq_numeral)
  then show "(i, n) \<in> live_blocks (kheap_entries s)" using j(1) by simp
qed

lemma kheap_cap_antimono:
  fixes s :: "'a kheap_state_scheme" and t :: "'b kheap_state_scheme"
  assumes "kheap_inv s" and "kheap_inv t" and "kheap_live t \<subseteq> kheap_live s" and "kheap_cap s n"
  shows "kheap_cap t n"
proof (cases "n = 0")
  case True
  then show ?thesis by (auto simp: kheap_cap_def fits_def intro: exI [of _ 0])
next
  case False
  have w: "wf_table (kheap_entries s)" "wf_table (kheap_entries t)" using assms(1,2) by (simp_all add: kheap_inv_def)
  obtain r where "fits (kheap_entries s) r n" using assms(4) by (auto simp: kheap_cap_def)
  then have "fits (kheap_entries t) r n"
    using False live_blocks_of_kheap [OF assms(1-3)] by (auto simp: fits_live [OF w(1)] fits_live [OF w(2)])
  then show ?thesis by (auto simp: kheap_cap_def)
qed

lemma kheap_cap_live:
  fixes s :: "'a kheap_state_scheme" and t :: "'b kheap_state_scheme"
  assumes "kheap_inv s" and "kheap_inv t" and "kheap_live s = kheap_live t" and "kheap_cap s n"
  shows "kheap_cap t n"
  using kheap_cap_antimono [OF assms(1,2) _ assms(4)] assms(3) by simp

lemma kheap_cap_mono: "kheap_cap s n \<Longrightarrow> k \<le> n \<Longrightarrow> kheap_cap s k"
  unfolding kheap_cap_def fits_iff by (meson add_le_mono le_refl less_le_trans order_trans)

section \<open>Private memory\<close>

definition heap_area :: "u32 set" where
  "heap_area = region 0x01000000 (25600 * 4096)"

definition heap_private :: "'a kheap_state_scheme \<Rightarrow> u32 set" where
  "heap_private s = kheap_meta \<union> (heap_area - (\<Union>(p, k) \<in> kheap_live s. region p k))"

lemma heap_private_cong: "kheap_live s = kheap_live t \<Longrightarrow> heap_private s = heap_private t"
  by (simp add: heap_private_def)

lemma live_not_private:
  assumes "kheap_inv s" and "(p, k) \<in> kheap_live s"
  shows "region p k \<inter> heap_private s = {}"
  using kheap_live_off_meta(1) [OF assms] assms(2) unfolding heap_private_def by blast

text \<open>An address begins at most one live block.\<close>

lemma live_unique:
  assumes "kheap_inv s" and "(p, k) \<in> kheap_live s" and "(p, j) \<in> kheap_live s"
  shows "k = j"
proof (rule ccontr)
  assume "k \<noteq> j"
  then have "region p k \<inter> region p j = {}" using kheap_live_apart [OF assms] by simp
  moreover have "0 < k" "0 < j" using kheap_live_off_meta(2) [OF assms(1)] assms(2,3) by blast+
  ultimately show False using base_mem_region [of p k] base_mem_region [of p j] by blast
qed

text \<open>An allocation takes its block out of the private memory.\<close>

lemma alloc_private:
  fixes s t :: "'a kheap_state_scheme"
  assumes "kheap_inv s" and "kheap_inv t" and "kheap_live t = insert (p, k) (kheap_live s)"
    and "\<And>q j. (q, j) \<in> kheap_live s \<Longrightarrow> region p k \<inter> region q j = {}"
  shows "region p k \<subseteq> heap_private s" and "heap_private t = heap_private s - region p k"
proof -
  have p: "(p, k) \<in> kheap_live t" using assms(3) by simp
  have "region p k \<subseteq> heap_area" using live_in_heap [OF assms(2) p] by (simp add: heap_area_def)
  then show "region p k \<subseteq> heap_private s" using assms(4) unfolding heap_private_def by blast
  show "heap_private t = heap_private s - region p k"
  proof -
    have "(\<Union>(p, k) \<in> kheap_live t. region p k) = region p k \<union> (\<Union>(p, k) \<in> kheap_live s. region p k)"
      by (simp add: assms(3))
    then show ?thesis using kheap_live_off_meta(1) [OF assms(2) p] unfolding heap_private_def by auto
  qed
qed

text \<open>The scratch buffer: between \<^verbatim>\<open>kzalloc\<close> and \<^verbatim>\<open>kfree\<close> the client may write the buffer and anything that is not
  private, and the rest of the state may move on as long as the heap's own globals stay.\<close>

lemma scratch:
  fixes s :: "'a kheap_state_scheme"
  assumes "kheap_inv s" and "kheap_room s sz" and n: "unat sz = n"
  obtains p m1 where "kzalloc sz s = Some (p, s\<lparr>mem := m1\<rparr>)"
    and "region p n \<subseteq> heap_private s" and "region p n \<inter> kheap_meta = {}"
    and "same_outside (heap_private s) (mem s) m1"
    and "\<And>t :: 'a kheap_state_scheme. \<And>R. same_outside (region p n \<union> R) m1 (mem t) \<Longrightarrow> R \<inter> kheap_meta = {}
      \<Longrightarrow> kernel_heap t = kernel_heap s \<Longrightarrow> strategy t = strategy s \<Longrightarrow>
      \<exists>m3. kfree p t = Some (t\<lparr>mem := m3\<rparr>) \<and> kheap_inv (t\<lparr>mem := m3\<rparr>) \<and> kheap_live (t\<lparr>mem := m3\<rparr>) = kheap_live s
        \<and> same_outside kheap_meta (mem t) m3"
proof -
  obtain p k m1 where a: "kzalloc sz s = Some (p, s\<lparr>mem := m1\<rparr>)" "kheap_inv (s\<lparr>mem := m1\<rparr>)"
    "kheap_live (s\<lparr>mem := m1\<rparr>) = insert (p, k) (kheap_live s)" "n \<le> k"
    "region p k \<inter> kheap_meta = {}" "\<forall>(q, j) \<in> kheap_live s. region p k \<inter> region q j = {}"
    "same_outside (region p k \<union> kheap_meta) (mem s) m1"
    using kz.alloc_spec [OF assms(1,2)] n by auto
  have apart: "region p k \<inter> region q j = {}" if "(q, j) \<in> kheap_live s" for q j using a(6) that by blast
  note pr = alloc_private [OF assms(1) a(2,3) apart]
  have sz: "region p n \<subseteq> region p k" by (rule region_mono [OF a(4)])
  have "0 < k" using kheap_live_off_meta(2) [OF a(2)] a(3) by blast
  then have new: "(p, k) \<notin> kheap_live s" using apart [of p k] base_mem_region [of p k] by blast
  have rel: "\<exists>m3. kfree p t = Some (t\<lparr>mem := m3\<rparr>) \<and> kheap_inv (t\<lparr>mem := m3\<rparr>) \<and> kheap_live (t\<lparr>mem := m3\<rparr>) = kheap_live s
      \<and> same_outside kheap_meta (mem t) m3"
    if w: "same_outside (region p n \<union> R) m1 (mem t)" "R \<inter> kheap_meta = {}"
      "kernel_heap t = kernel_heap s" "strategy t = strategy s" for t :: "'a kheap_state_scheme" and R
  proof -
    have "(region p n \<union> R) \<inter> kheap_meta = {}" using sz a(5) w(2) by blast
    from kheap_inv_frame [OF a(2) _ this, of t] w a(3)
    have t: "kheap_inv t" "kheap_live t = insert (p, k) (kheap_live s)" by simp_all
    from kfree_spec [OF t(1), of p k] t(2) new show ?thesis by auto
  qed
  have f: "same_outside (heap_private s) (mem s) m1"
    using a(7) by (rule same_outside_mono) (use pr(1) in \<open>auto simp: heap_private_def\<close>)
  have "region p n \<subseteq> heap_private s" "region p n \<inter> kheap_meta = {}" using sz pr(1) a(5) by blast+
  then show ?thesis using that [OF a(1)] f rel by metis
qed

section \<open>Effects\<close>

text \<open>\<open>grows B R s s'\<close>: from \<open>s\<close> to \<open>s'\<close> the blocks \<open>B\<close> have become live; apart from logged port operations only
  memory was written, in \<open>R\<close> and in the memory that was private before.\<close>

definition grows :: "(u32 \<times> nat) set \<Rightarrow> u32 set \<Rightarrow> 'a kheap_state_scheme \<Rightarrow> 'a kheap_state_scheme \<Rightarrow> bool" where
  "grows B R s s' \<longleftrightarrow> s' = s\<lparr>io_log := io_log s', mem := mem s'\<rparr> \<and> kheap_inv s'
     \<and> kheap_live s' = kheap_live s \<union> B \<and> B \<inter> kheap_live s = {}
     \<and> same_outside (R \<union> heap_private s) (mem s) (mem s')"

lemma growsD:
  fixes s :: "'a kheap_state_scheme"
  assumes "grows B R s s'"
  shows "kheap_inv s'" and "kheap_live s' = kheap_live s \<union> B" and "B \<inter> kheap_live s = {}"
    and "same_outside (R \<union> heap_private s) (mem s) (mem s')" and "heap_private s' \<subseteq> heap_private s"
    and "kernel_heap s' = kernel_heap s" and "strategy s' = strategy s"
proof -
  show l: "kheap_inv s'" "kheap_live s' = kheap_live s \<union> B" "B \<inter> kheap_live s = {}"
    "same_outside (R \<union> heap_private s) (mem s) (mem s')" using assms by (simp_all add: grows_def)
  show "heap_private s' \<subseteq> heap_private s" using l(2) unfolding heap_private_def by blast
  have e: "s' = s\<lparr>io_log := io_log s', mem := mem s'\<rparr>" using assms by (simp add: grows_def)
  show "kernel_heap s' = kernel_heap s" "strategy s' = strategy s" by (subst e, simp)+
qed

lemma grows_refl [simp]: "kheap_inv s \<Longrightarrow> grows {} R s s"
  by (simp add: grows_def)

lemma grows_mono: "grows B R s s' \<Longrightarrow> R \<subseteq> R' \<union> heap_private s \<Longrightarrow> grows B R' s s'"
  unfolding grows_def by (auto elim!: same_outside_mono)

lemma grows_trans:
  fixes s :: "'a kheap_state_scheme"
  assumes "grows B R s s'" and "grows B' R' s' s''" and "R' \<subseteq> R \<union> heap_private s"
  shows "grows (B \<union> B') R s s''"
proof -
  note a = growsD [OF assms(1)] and b = growsD [OF assms(2)]
  have "s' = s\<lparr>io_log := io_log s', mem := mem s'\<rparr>" "s'' = s'\<lparr>io_log := io_log s'', mem := mem s''\<rparr>"
    using assms by (simp_all add: grows_def)
  then have "s'' = s\<lparr>io_log := io_log s', mem := mem s'\<rparr>\<lparr>io_log := io_log s'', mem := mem s''\<rparr>" by metis
  then have "s'' = s\<lparr>io_log := io_log s'', mem := mem s''\<rparr>" by simp
  moreover have "same_outside (R \<union> heap_private s) (mem s) (mem s'')"
    using same_outside_trans [OF a(4) b(4)] by (rule same_outside_mono) (use a(5) assms(3) in auto)
  moreover have "kheap_live s'' = kheap_live s \<union> (B \<union> B')" "(B \<union> B') \<inter> kheap_live s = {}" using a(2,3) b(2,3) by blast+
  ultimately show ?thesis using b(1) by (simp add: grows_def)
qed

lemma grows_load32:
  "grows B R s s' \<Longrightarrow> region a 4 \<inter> (R \<union> heap_private s) = {} \<Longrightarrow> load32 (mem s') a = load32 (mem s) a"
  using load32_frame [OF growsD(4)] by blast

lemma grows_cstring:
  "grows B R s s' \<Longrightarrow> region p (Suc (length cs)) \<inter> (R \<union> heap_private s) = {} \<Longrightarrow> cstring (mem s) p cs \<Longrightarrow> cstring (mem s') p cs"
  using cstring_frame [OF growsD(4)] by blast

lemma grows_new_private:
  fixes s :: "'a kheap_state_scheme"
  assumes "grows B R s s'" and "(p, k) \<in> B"
  shows "region p k \<subseteq> heap_private s"
proof -
  note g = growsD [OF assms(1)]
  have p: "(p, k) \<in> kheap_live s'" "(p, k) \<notin> kheap_live s" using g(2,3) assms(2) by auto
  have "region p k \<inter> region q j = {}" if "(q, j) \<in> kheap_live s" for q j
    using kheap_live_apart [OF g(1) p(1), of q j] that g(2) p(2) by auto
  moreover have "region p k \<subseteq> heap_area" using live_in_heap [OF g(1) p(1)] by (simp add: heap_area_def)
  ultimately show ?thesis unfolding heap_private_def by blast
qed

text \<open>A client's own writes.\<close>

lemma grows_store:
  fixes s :: "'a kheap_state_scheme"
  assumes "kheap_inv s" and "same_outside R (mem s) m'" and "R \<inter> kheap_meta = {}"
  shows "grows {} R s (s\<lparr>mem := m'\<rparr>)" and "kheap_cap (s\<lparr>mem := m'\<rparr>) = kheap_cap s"
  using kheap_client_write [OF assms] kheap_cap_write [OF assms] assms(2)
  by (auto simp: grows_def intro: same_outside_mono)

text \<open>Allocation.\<close>

lemma grows_alloc:
  fixes s :: "'a kheap_state_scheme"
  assumes "kheap_inv s" and "kheap_cap s n" and "blocks_for sz \<le> n"
  obtains p k m' where "kzalloc sz s = Some (p, s\<lparr>mem := m'\<rparr>)" and "grows {(p, k)} {} s (s\<lparr>mem := m'\<rparr>)"
    and "kheap_cap (s\<lparr>mem := m'\<rparr>) (n - blocks_for sz)" and "unat sz \<le> k" and "region p k \<subseteq> heap_private s"
    and "\<forall>a \<in> region p k. m' a = 0" and "p \<noteq> 0"
proof -
  note room = kheap_cap_room [OF assms(2,3)]
  obtain p k m' where a: "kzalloc sz s = Some (p, s\<lparr>mem := m'\<rparr>)" "kheap_inv (s\<lparr>mem := m'\<rparr>)"
    "kheap_live (s\<lparr>mem := m'\<rparr>) = insert (p, k) (kheap_live s)" "unat sz \<le> k" "\<forall>a \<in> region p k. m' a = 0"
    "\<forall>(q, j) \<in> kheap_live s. region p k \<inter> region q j = {}" "same_outside (region p k \<union> kheap_meta) (mem s) m'"
    using kz.alloc_spec [OF assms(1) room] by auto
  have apart: "region p k \<inter> region q j = {}" if "(q, j) \<in> kheap_live s" for q j using a(6) that by blast
  note pr = alloc_private [OF assms(1) a(2,3) apart]
  have p: "(p, k) \<in> kheap_live (s\<lparr>mem := m'\<rparr>)" using a(3) by simp
  have "(p, k) \<notin> kheap_live s" using apart [of p k] base_mem_region [of p k] kheap_live_off_meta(2) [OF a(2) p] by blast
  moreover have "same_outside (heap_private s) (mem s) m'"
    using a(7) by (rule same_outside_mono) (use pr(1) in \<open>auto simp: heap_private_def\<close>)
  ultimately have g: "grows {(p, k)} {} s (s\<lparr>mem := m'\<rparr>)" using a(2,3) by (simp add: grows_def)
  show ?thesis
    by (rule that [OF a(1) g kz.cap_alloc [OF assms a(1)] a(4) pr(1) a(5) live_nonzero [OF a(2) p]])
qed

text \<open>Release of a block that was live before.\<close>

lemma free_keeps:
  fixes s :: "'a kheap_state_scheme"
  assumes "kheap_inv s" and "(p, k) \<in> kheap_live s"
  obtains s' where "kfree p s = Some s'" and "s' = s\<lparr>mem := mem s'\<rparr>" and "kheap_inv s'"
    and "kheap_live s' = kheap_live s - {(p, k)}" and "same_outside kheap_meta (mem s) (mem s')"
proof -
  obtain m' where "kfree p s = Some (s\<lparr>mem := m'\<rparr>)" "kheap_inv (s\<lparr>mem := m'\<rparr>)"
    "kheap_live (s\<lparr>mem := m'\<rparr>) = kheap_live s - {(p, k)}" "same_outside kheap_meta (mem s) m'"
    using kfree_spec [OF assms] by blast
  then show ?thesis using that [of "s\<lparr>mem := m'\<rparr>"] by simp
qed

text \<open>Release of a block that has become live on the way.\<close>

lemma grows_free:
  fixes s :: "'a kheap_state_scheme"
  assumes "grows (insert (p, k) B) R s s'" and "(p, k) \<notin> B"
  obtains s'' where "kfree p s' = Some s''" and "grows B R s s''" and "same_outside kheap_meta (mem s') (mem s'')"
proof -
  note g = growsD [OF assms(1)]
  have "(p, k) \<in> kheap_live s'" using g(2) by simp
  then obtain s'' where f: "kfree p s' = Some s''" "s'' = s'\<lparr>mem := mem s''\<rparr>" "kheap_inv s''"
    "kheap_live s'' = kheap_live s' - {(p, k)}" "same_outside kheap_meta (mem s') (mem s'')"
    using free_keeps [OF g(1)] by metis
  have "s' = s\<lparr>io_log := io_log s', mem := mem s'\<rparr>" using assms(1) by (simp add: grows_def)
  then have "s'' = s\<lparr>io_log := io_log s', mem := mem s'\<rparr>\<lparr>mem := mem s''\<rparr>" using f(2) by metis
  moreover have "io_log s'' = io_log s'" by (subst f(2)) simp
  ultimately have "s'' = s\<lparr>io_log := io_log s'', mem := mem s''\<rparr>" by simp
  moreover have "same_outside (R \<union> heap_private s) (mem s) (mem s'')"
    using same_outside_trans [OF g(4) f(5)] by (rule same_outside_mono) (auto simp: heap_private_def)
  moreover have "kheap_live s'' = kheap_live s \<union> B" "B \<inter> kheap_live s = {}" using f(4) g(2,3) assms(2) by auto
  ultimately have "grows B R s s''" using f(3) by (simp add: grows_def)
  then show ?thesis using that f(1,5) by blast
qed

end
