(* ===== verification/Ata.thy ===== *)
theory Ata
  imports Task Heap_Client
begin

text \<open>
  \<^verbatim>\<open>kernel/drivers/ata/ata.cpp\<close>: reading sectors from the primary ATA drive with programmed I/O, and the
  input instructions of \<^verbatim>\<open>io.asm\<close>. The drive is hardware: the state holds it as \<^verbatim>\<open>device\<close>, the function
  that answers an input from the history of all port operations up to and including it. Nothing in
  the kernel changes that function.

  What the driver relies on is the predicate \<open>ata_drive\<close>, the documented protocol of a 28 bit read:
  after the six command bytes the status register sooner or later shows the data request bit, and
  then the data register gives the words of the sector in order. The lemmas show that under this
  protocol \<^verbatim>\<open>read_sector\<close> returns with the sectors' bytes in the buffer and nothing else changed.
\<close>

section \<open>Operations\<close>

record disk_state = task_state +
  device :: "io_event list \<Rightarrow> u16"
  primary_disk :: u32

definition insb :: "u16 \<Rightarrow> 'a disk_state_scheme \<Rightarrow> u8 \<times> 'a disk_state_scheme" where
  "insb port s = (let log = io_log s @ [InB port] in (ucast (device s log), s\<lparr>io_log := log\<rparr>))"

definition insw :: "u16 \<Rightarrow> 'a disk_state_scheme \<Rightarrow> u16 \<times> 'a disk_state_scheme" where
  "insw port s = (let log = io_log s @ [InW port] in (device s log, s\<lparr>io_log := log\<rparr>))"

definition DATA_REGISTER :: u16 where
  [kernel_consts]: "DATA_REGISTER = 0x1F0"

definition SECTOR_COUNT_REGISTER :: u16 where
  [kernel_consts]: "SECTOR_COUNT_REGISTER = 0x1F2"

definition LBA_LOW_REGISTER :: u16 where
  [kernel_consts]: "LBA_LOW_REGISTER = 0x1F3"

definition LBA_MID_REGISTER :: u16 where
  [kernel_consts]: "LBA_MID_REGISTER = 0x1F4"

definition LBA_HIGH_REGISTER :: u16 where
  [kernel_consts]: "LBA_HIGH_REGISTER = 0x1F5"

definition DRIVE_HEAD_REGISTER :: u16 where
  [kernel_consts]: "DRIVE_HEAD_REGISTER = 0x1F6"

definition READ_STATUS_REGISTER :: u16 where
  [kernel_consts]: "READ_STATUS_REGISTER = 0x1F7"

definition WRITE_COMMAND_REGISTER :: u16 where
  [kernel_consts]: "WRITE_COMMAND_REGISTER = 0x1F7"

definition MASTER_DRIVE :: u8 where
  [kernel_consts]: "MASTER_DRIVE = 0xE0"

definition READ_WITH_RETRY :: u8 where
  [kernel_consts]: "READ_WITH_RETRY = 0x20"

text \<open>The polling loop may never end.\<close>

partial_function (option) ata_wait :: "u8 \<Rightarrow> 'a disk_state_scheme \<Rightarrow> 'a disk_state_scheme option" where
  "ata_wait c s =
     (if c AND 0x08 = 0 then (let (c, s) = insb READ_STATUS_REGISTER s in ata_wait c s) else Some s)"

function ata_copy_words :: "u32 \<Rightarrow> u32 \<Rightarrow> 'a disk_state_scheme \<Rightarrow> u32 \<times> 'a disk_state_scheme" where
  "ata_copy_words word_idx ptr s =
     (if word_idx <s 256 then
        (let (w, s) = insw DATA_REGISTER s;
             s = s\<lparr>mem := store16 (mem s) ptr w\<rparr>
         in ata_copy_words (word_idx + 1) (ptr + 2) s)
      else (ptr, s))"
  by pat_completeness auto
termination
  by (relation "measure (\<lambda>(i, p, s). nat (256 - sint i))") (auto simp: sint_succ, simp add: word_sless_alt)

function ata_read_sectors :: "u32 \<Rightarrow> u32 \<Rightarrow> u32 \<Rightarrow> 'a disk_state_scheme \<Rightarrow> 'a disk_state_scheme option" where
  "ata_read_sectors tot sector_idx ptr s =
     (if sector_idx <s tot then
        (let (c, s) = insb READ_STATUS_REGISTER s in
         case ata_wait c s of None \<Rightarrow> None
         | Some s \<Rightarrow> (let (ptr, s) = ata_copy_words 0 ptr s in ata_read_sectors tot (sector_idx + 1) ptr s))
      else Some s)"
  by pat_completeness auto
termination
  by (relation "measure (\<lambda>(t, i, p, s). nat (sint t - sint i))") (auto simp: loop_measure_signed)

declare ata_copy_words.simps [simp del] ata_read_sectors.simps [simp del]

text \<open>\<^verbatim>\<open>lba >> 24\<close> is an arithmetic shift of an \<^verbatim>\<open>int\<close>; the arguments of \<^verbatim>\<open>outb\<close> keep the low byte.\<close>

definition read_sector :: "u32 \<Rightarrow> u32 \<Rightarrow> u32 \<Rightarrow> 'a disk_state_scheme \<Rightarrow> (u32 \<times> 'a disk_state_scheme) option" where
  "read_sector lba tot buf s = do {
     let s = outb DRIVE_HEAD_REGISTER (ucast (signed_drop_bit 24 lba OR ucast MASTER_DRIVE)) s;
     let s = outb SECTOR_COUNT_REGISTER (ucast tot) s;
     let s = outb LBA_LOW_REGISTER (ucast (lba AND 0xFF)) s;
     let s = outb LBA_MID_REGISTER (ucast (signed_drop_bit 8 lba)) s;
     let s = outb LBA_HIGH_REGISTER (ucast (signed_drop_bit 16 lba)) s;
     let s = outb WRITE_COMMAND_REGISTER READ_WITH_RETRY s;
     s \<leftarrow> ata_read_sectors tot 0 buf s;
     Some (0, s)
   }"

section \<open>The drive\<close>

text \<open>The contents of a disk, byte by byte, and the word the drive gives for the half-word \<open>k\<close> behind sector \<open>lba\<close>.\<close>

type_synonym image = "nat \<Rightarrow> u8"

definition disk_word :: "image \<Rightarrow> nat \<Rightarrow> nat \<Rightarrow> u16" where
  "disk_word img lba k = ucast (img (lba * 512 + 2 * k)) OR push_bit 8 (ucast (img (lba * 512 + 2 * k + 1)))"

definition disk_bytes :: "image \<Rightarrow> nat \<Rightarrow> nat \<Rightarrow> u8 list" where
  "disk_bytes img pos n = map img [pos..<pos + n]"

text \<open>The words a history has taken from the data register.\<close>

definition words_read :: "io_event list \<Rightarrow> nat" where
  "words_read es = length (filter (\<lambda>e. e = InW DATA_REGISTER) es)"

text \<open>The command for a read of \<open>tot\<close> sectors from \<open>lba\<close> on, as the registers of a drive in LBA mode expect it.\<close>

definition read_command :: "nat \<Rightarrow> nat \<Rightarrow> io_event list" where
  "read_command lba tot =
     [OutB 0x1F6 (0xE0 OR of_nat (lba div 2 ^ 24)), OutB 0x1F2 (of_nat tot), OutB 0x1F3 (of_nat lba),
      OutB 0x1F4 (of_nat (lba div 2 ^ 8)), OutB 0x1F5 (of_nat (lba div 2 ^ 16)), OutB 0x1F7 0x20]"

definition data_request :: "u16 \<Rightarrow> bool" where
  "data_request status \<longleftrightarrow> bit status 3"

text \<open>The protocol. While words of the transfer are left, polling ends; after a poll that showed a data
  request at the start of a sector, the next 256 reads give its words.\<close>

definition polls_end :: "(io_event list \<Rightarrow> u16) \<Rightarrow> bool" where
  "polls_end dev \<longleftrightarrow> (\<forall>log lba tot es. lba + tot \<le> 2 ^ 28 \<and> tot < 256 \<and> set es \<subseteq> {InB 0x1F7, InW 0x1F0}
     \<and> words_read es < 256 * tot \<longrightarrow>
     (\<exists>n. data_request (dev (log @ read_command lba tot @ es @ replicate (Suc n) (InB 0x1F7)))))"

definition data_in_order :: "(io_event list \<Rightarrow> u16) \<Rightarrow> image \<Rightarrow> bool" where
  "data_in_order dev img \<longleftrightarrow> (\<forall>log lba tot es j k. lba + tot \<le> 2 ^ 28 \<and> tot < 256
     \<and> set es \<subseteq> {InB 0x1F7, InW 0x1F0} \<and> words_read es = 256 * j \<and> j < tot \<and> k < 256
     \<and> data_request (dev (log @ read_command lba tot @ es @ [InB 0x1F7])) \<longrightarrow>
     dev (log @ read_command lba tot @ es @ [InB 0x1F7] @ replicate (Suc k) (InW 0x1F0))
       = disk_word img lba (256 * j + k))"

definition ata_drive :: "(io_event list \<Rightarrow> u16) \<Rightarrow> image \<Rightarrow> bool" where
  "ata_drive dev img \<longleftrightarrow> polls_end dev \<and> data_in_order dev img"

section \<open>Correctness\<close>

lemma disk_bytes_length [simp]: "length (disk_bytes img pos n) = n"
  by (simp add: disk_bytes_def)

lemma disk_bytes_0 [simp]: "disk_bytes img pos 0 = []"
  by (simp add: disk_bytes_def)

lemma disk_bytes_nth [simp]: "i < n \<Longrightarrow> disk_bytes img pos n ! i = img (pos + i)"
  by (simp add: disk_bytes_def)

lemma disk_bytes_append: "disk_bytes img pos (a + b) = disk_bytes img pos a @ disk_bytes img (pos + a) b"
  by (rule nth_equalityI) (auto simp: nth_append)

lemma disk_bytes_two: "disk_bytes img pos 2 = [img pos, img (Suc pos)]"
  by (simp add: disk_bytes_def numeral_2_eq_2)

lemma write_bytes_append:
  assumes "length bs + length cs < 2 ^ 32"
  shows "write_bytes (write_bytes m p bs) (p + of_nat (length bs)) cs = write_bytes m p (bs @ cs)"
proof
  fix a
  have "unat (of_nat (length bs) :: u32) = length bs" using assms by (intro unat_of_nat32) simp
  then have "unat (a - (p + of_nat (length bs))) =
      (if length bs \<le> unat (a - p) then unat (a - p) - length bs else 2 ^ 32 + unat (a - p) - length bs)"
    using unat_diff_addr [of "a - p" "of_nat (length bs)"] by (simp add: diff_diff_eq word_le_nat_alt)
  then show "write_bytes (write_bytes m p bs) (p + of_nat (length bs)) cs a = write_bytes m p (bs @ cs) a"
    using assms by (auto simp: write_bytes_def nth_append)
qed

lemma store16_bytes:
  "length bs + 1 < 2 ^ 32 \<Longrightarrow> store16 (write_bytes m p bs) (p + of_nat (length bs)) (ucast a OR push_bit 8 (ucast b))
    = write_bytes m p (bs @ [a, b])"
proof -
  assume l: "length bs + 1 < 2 ^ 32"
  have "ucast (ucast a OR push_bit 8 (ucast b) :: u16) = a" "ucast (drop_bit 8 (ucast a OR push_bit 8 (ucast b) :: u16)) = b"
    by (rule bit_word_eqI; auto simp: bit_simps dest: bit_imp_le_length)+
  moreover have "(write_bytes m p (bs @ [a])) (p + of_nat (length bs) + 1 := b) = write_bytes m p ((bs @ [a]) @ [b])"
    using write_bytes_snoc [of "bs @ [a]" m p b] l by (simp add: ac_simps)
  ultimately show ?thesis using write_bytes_snoc [of bs m p a] l by (simp add: store16_def)
qed

lemma store16_disk:
  assumes "i < 2 ^ 30"
  shows "store16 (write_bytes m p (disk_bytes img pos (2 * i))) (p + of_nat (2 * i))
    (ucast (img (pos + 2 * i)) OR push_bit 8 (ucast (img (pos + 2 * i + 1))))
    = write_bytes m p (disk_bytes img pos (2 * Suc i))"
proof -
  have "disk_bytes img pos (2 * Suc i) = disk_bytes img pos (2 * i) @ [img (pos + 2 * i), img (pos + 2 * i + 1)]"
    using disk_bytes_append [of img pos "2 * i" 2] by (simp add: disk_bytes_two)
  then show ?thesis using store16_bytes [of "disk_bytes img pos (2 * i)"] assms by simp
qed

text \<open>Polling.\<close>

lemma status_bit: "(ucast w :: u8) AND 0x08 = 0 \<longleftrightarrow> \<not> data_request w"
proof -
  have "(ucast w :: u8) AND 0x08 = 0 \<longleftrightarrow> \<not> bit (ucast w :: u8) 3"
    using and_exp_eq_0_iff_not_bit [of "ucast w :: u8" 3] by simp
  then show ?thesis by (simp add: data_request_def bit_simps)
qed

lemma ata_poll:
  fixes s :: "'a disk_state_scheme"
  assumes "data_request (device s (io_log s @ replicate (Suc n) (InB 0x1F7)))"
  shows "\<exists>k. (let (c, s) = insb READ_STATUS_REGISTER s in ata_wait c s)
      = Some (s\<lparr>io_log := io_log s @ replicate (Suc k) (InB 0x1F7)\<rparr>)
    \<and> data_request (device s (io_log s @ replicate (Suc k) (InB 0x1F7)))"
  using assms
proof (induction n arbitrary: s)
  case 0
  then show ?case
    by (intro exI [of _ 0]) (subst ata_wait.simps, simp add: insb_def kernel_consts Let_def status_bit)
next
  case (Suc n)
  show ?case
  proof (cases "data_request (device s (io_log s @ [InB 0x1F7]))")
    case True
    then show ?thesis
      by (intro exI [of _ 0]) (subst ata_wait.simps, simp add: insb_def kernel_consts Let_def status_bit)
  next
    case False
    let ?s = "s\<lparr>io_log := io_log s @ [InB 0x1F7]\<rparr>"
    have "data_request (device ?s (io_log ?s @ replicate (Suc n) (InB 0x1F7)))" using Suc.prems by simp
    from Suc.IH [OF this] obtain k where "(let (c, s) = insb READ_STATUS_REGISTER ?s in ata_wait c s)
        = Some (s\<lparr>io_log := io_log s @ replicate (Suc (Suc k)) (InB 0x1F7)\<rparr>)"
      "data_request (device s (io_log s @ replicate (Suc (Suc k)) (InB 0x1F7)))" by auto
    then show ?thesis using False
      by (intro exI [of _ "Suc k"]) (subst ata_wait.simps, simp add: insb_def kernel_consts Let_def status_bit)
  qed
qed

text \<open>The 256 words of a sector.\<close>

lemma ata_copy_ok:
  fixes s :: "'a disk_state_scheme"
  assumes "\<And>k. k < 256 \<Longrightarrow> device s (log @ replicate (Suc k) (InW 0x1F0))
      = ucast (img (pos + 2 * k)) OR push_bit 8 (ucast (img (pos + 2 * k + 1)))" and "i \<le> 256"
  shows "ata_copy_words (of_nat i) (p + of_nat (2 * i))
      (s\<lparr>io_log := log @ replicate i (InW 0x1F0), mem := write_bytes m p (disk_bytes img pos (2 * i))\<rparr>)
    = (p + 512, s\<lparr>io_log := log @ replicate 256 (InW 0x1F0), mem := write_bytes m p (disk_bytes img pos 512)\<rparr>)"
  using assms(2)
proof (induction i rule: inc_induct)
  case base
  then show ?case by (subst ata_copy_words.simps) simp
next
  case (step i)
  have "(of_nat i :: u32) <s 256" using step(2) by (simp add: word_sless_alt sint_of_nat32)
  moreover have "log @ replicate i (InW 0x1F0) @ [InW 0x1F0] = log @ replicate (Suc i) (InW 0x1F0)"
    by (simp add: replicate_append_same)
  ultimately show ?case
    using step(3) assms(1) [OF step(2)] store16_disk [of i m p img pos] step(2)
    by (subst ata_copy_words.simps) (simp add: insw_def kernel_consts Let_def ac_simps)
qed

text \<open>The two fields a read changes, in one order.\<close>

lemma log_then_mem: "(s :: 'a disk_state_scheme)\<lparr>mem := m, io_log := l\<rparr> = s\<lparr>io_log := l, mem := m\<rparr>"
  by simp

lemma words_read_append [simp]: "words_read (es @ fs) = words_read es + words_read fs"
  by (simp add: words_read_def)

lemma words_read_replicate [simp]:
  "words_read (replicate n (InB p)) = 0" "words_read (replicate n (InW 0x1F0)) = n"
  by (simp_all add: words_read_def kernel_consts)

lemma ata_sectors_ok:
  fixes s :: "'a disk_state_scheme"
  assumes "ata_drive (device s) img" and "lba + tot \<le> 2 ^ 28" and "tot < 256" and "j \<le> tot"
    and "set es \<subseteq> {InB 0x1F7, InW 0x1F0}" and "words_read es = 256 * j"
  shows "\<exists>log'. ata_read_sectors (of_nat tot) (of_nat j) (p + of_nat (512 * j))
      (s\<lparr>io_log := log @ read_command lba tot @ es, mem := write_bytes m p (disk_bytes img (lba * 512) (512 * j))\<rparr>)
    = Some (s\<lparr>io_log := log', mem := write_bytes m p (disk_bytes img (lba * 512) (512 * tot))\<rparr>)"
  using assms(4-6)
proof (induction j arbitrary: es rule: inc_induct)
  case base
  then show ?case by (subst ata_read_sectors.simps) auto
next
  case (step j)
  let ?L = "log @ read_command lba tot @ es" and ?pos = "lba * 512 + 512 * j"
  let ?m = "write_bytes m p (disk_bytes img (lba * 512) (512 * j))"
  let ?s = "s\<lparr>io_log := ?L, mem := ?m\<rparr>"
  have "\<exists>n. data_request (device s (log @ read_command lba tot @ es @ replicate (Suc n) (InB 0x1F7)))"
    using assms(1-3) step(2,4,5) unfolding ata_drive_def polls_end_def by auto
  then obtain k where k: "(let (c, s) = insb READ_STATUS_REGISTER ?s in ata_wait c s)
      = Some (?s\<lparr>io_log := ?L @ replicate (Suc k) (InB 0x1F7)\<rparr>)" "data_request (device s (?L @ replicate (Suc k) (InB 0x1F7)))"
    using ata_poll [of ?s] by auto
  let ?es = "es @ replicate k (InB 0x1F7)" and ?L' = "?L @ replicate (Suc k) (InB 0x1F7)"
  have rs: "set (replicate k (InB 0x1F7)) \<subseteq> {InB 0x1F7, InW 0x1F0}" by auto
  have d: "device s (?L' @ replicate (Suc n) (InW 0x1F0))
      = ucast (img (?pos + 2 * n)) OR push_bit 8 (ucast (img (?pos + 2 * n + 1)))" if "n < 256" for n
  proof -
    have "data_in_order (device s) img" using assms(1) by (simp add: ata_drive_def)
    from this [unfolded data_in_order_def, rule_format, of lba tot ?es j n log]
    have "device s (log @ read_command lba tot @ ?es @ [InB 0x1F7] @ replicate (Suc n) (InW 0x1F0)) = disk_word img lba (256 * j + n)"
      using assms(2,3) step(2,4,5) that k(2) rs by (simp add: replicate_append_same)
    then show ?thesis by (simp add: disk_word_def replicate_append_same [symmetric] algebra_simps)
  qed
  have c: "ata_copy_words 0 (p + of_nat (512 * j)) (?s\<lparr>io_log := ?L'\<rparr>)
    = (p + of_nat (512 * Suc j), s\<lparr>io_log := ?L' @ replicate 256 (InW 0x1F0),
        mem := write_bytes m p (disk_bytes img (lba * 512) (512 * Suc j))\<rparr>)"
  proof -
    have "disk_bytes img (lba * 512) (512 * Suc j) = disk_bytes img (lba * 512) (512 * j) @ disk_bytes img ?pos 512"
      using disk_bytes_append [of img "lba * 512" "512 * j" 512] by (simp add: add.commute)
    moreover have "length (disk_bytes img (lba * 512) (512 * j)) + length (disk_bytes img ?pos 512) < 2 ^ 32"
      using step(2) assms(3) by simp
    from write_bytes_append [OF this, of m p] 
    have "write_bytes ?m (p + of_nat (512 * j)) (disk_bytes img ?pos 512)
      = write_bytes m p (disk_bytes img (lba * 512) (512 * j) @ disk_bytes img ?pos 512)" by simp
    ultimately show ?thesis using ata_copy_ok [OF d, of 0 "p + of_nat (512 * j)" ?m] by (simp add: ac_simps log_then_mem)
  qed
  have "set (?es @ [InB 0x1F7] @ replicate 256 (InW 0x1F0)) \<subseteq> {InB 0x1F7, InW 0x1F0}" using step(4) by auto
  moreover have "words_read (?es @ [InB 0x1F7] @ replicate 256 (InW 0x1F0)) = 256 * Suc j"
    using step(5) by (simp add: words_read_def kernel_consts)
  ultimately obtain log' where l: "ata_read_sectors (of_nat tot) (of_nat (Suc j)) (p + of_nat (512 * Suc j))
      (s\<lparr>io_log := log @ read_command lba tot @ ?es @ [InB 0x1F7] @ replicate 256 (InW 0x1F0),
        mem := write_bytes m p (disk_bytes img (lba * 512) (512 * Suc j))\<rparr>)
    = Some (s\<lparr>io_log := log', mem := write_bytes m p (disk_bytes img (lba * 512) (512 * tot))\<rparr>)"
    using step(3) by blast
  have "(of_nat j :: u32) <s of_nat tot" using step(2) assms(3) by (simp add: word_sless_alt sint_of_nat32)
  moreover obtain c s1 where i: "insb READ_STATUS_REGISTER ?s = (c, s1)" by fastforce
  moreover have "ata_wait c s1 = Some (?s\<lparr>io_log := ?L'\<rparr>)" using k(1) i by simp
  moreover have "?L' @ replicate 256 (InW 0x1F0) = log @ read_command lba tot @ ?es @ [InB 0x1F7] @ replicate 256 (InW 0x1F0)"
    by (simp add: replicate_append_same [symmetric])
  ultimately show ?case using c l by (subst ata_read_sectors.simps) (auto simp: add.commute)
qed

text \<open>The six bytes the driver sends are the command of the protocol.\<close>

lemma shifted_byte: "n \<le> 24 \<Longrightarrow> (ucast (signed_drop_bit n (lba :: u32)) :: u8) = of_nat (unat lba div 2 ^ n)"
proof -
  assume n: "n \<le> 24"
  have "unat (drop_bit n lba) = unat lba div 2 ^ n" 
    using unat_drop_bit_eq [of n lba] by (simp only: drop_bit_eq_div)
  then have "of_nat (unat lba div 2 ^ n) = (ucast (drop_bit n lba) :: u8)" by (metis of_nat_unat)
  also have "\<dots> = ucast (signed_drop_bit n lba)"
    by (rule bit_word_eqI) (use n in \<open>auto simp: bit_simps\<close>)
  finally show ?thesis ..
qed

lemma command_sent:
  assumes "unat (lba :: u32) + unat (tot :: u32) \<le> 2 ^ 28" and "unat tot < 256"
  shows "io_log (outb WRITE_COMMAND_REGISTER READ_WITH_RETRY (outb LBA_HIGH_REGISTER (ucast (signed_drop_bit 16 lba))
    (outb LBA_MID_REGISTER (ucast (signed_drop_bit 8 lba)) (outb LBA_LOW_REGISTER (ucast (lba AND 0xFF))
    (outb SECTOR_COUNT_REGISTER (ucast tot) (outb DRIVE_HEAD_REGISTER (ucast (signed_drop_bit 24 lba OR ucast MASTER_DRIVE)) s))))))
    = io_log s @ read_command (unat lba) (unat tot)"
proof -
  have "(ucast (lba AND 0xFF) :: u8) = of_nat (unat lba)"
    by (simp add: and_masks) (rule bit_word_eqI, auto simp: bit_simps)
  moreover have "(ucast tot :: u8) = of_nat (unat tot)" by simp
  moreover have "(ucast (signed_drop_bit 24 lba OR ucast (0xE0 :: u8)) :: u8) = 0xE0 OR of_nat (unat lba div 2 ^ 24)"
    using shifted_byte [of 24 lba] by (simp add: unsigned_or_eq or.commute)
  ultimately show ?thesis using shifted_byte [of 8 lba] shifted_byte [of 16 lba]
    by (simp add: outb_def read_command_def kernel_consts)
qed

lemma read_sector_ok:
  fixes s :: "'a disk_state_scheme"
  assumes "ata_drive (device s) img" and "unat lba + unat tot \<le> 2 ^ 28" and "unat tot < 256"
  shows "\<exists>log'. read_sector lba tot buf s = Some (0, s\<lparr>io_log := log',
    mem := write_bytes (mem s) buf (disk_bytes img (unat lba * 512) (512 * unat tot))\<rparr>)"
proof -
  let ?s = "s\<lparr>io_log := io_log s @ read_command (unat lba) (unat tot) @ [],
    mem := write_bytes (mem s) buf (disk_bytes img (unat lba * 512) (512 * 0))\<rparr>"
  have e: "outb WRITE_COMMAND_REGISTER READ_WITH_RETRY (outb LBA_HIGH_REGISTER (ucast (signed_drop_bit 16 lba))
    (outb LBA_MID_REGISTER (ucast (signed_drop_bit 8 lba)) (outb LBA_LOW_REGISTER (ucast (lba AND 0xFF))
    (outb SECTOR_COUNT_REGISTER (ucast tot) (outb DRIVE_HEAD_REGISTER (ucast (signed_drop_bit 24 lba OR ucast MASTER_DRIVE)) s))))) = ?s"
    using command_sent [OF assms(2,3), of s] by (simp add: outb_def)
  have "words_read [] = 256 * 0" by (simp add: words_read_def)
  then obtain log' where "ata_read_sectors (of_nat (unat tot)) (of_nat 0) (buf + of_nat (512 * 0)) ?s
    = Some (s\<lparr>io_log := log', mem := write_bytes (mem s) buf (disk_bytes img (unat lba * 512) (512 * unat tot))\<rparr>)"
    using ata_sectors_ok [OF assms(1-3), of 0 "[]" buf "mem s" "io_log s"] by auto
  then show ?thesis unfolding read_sector_def Let_def e by (intro exI [of _ log']) simp
qed

section \<open>A drive\<close>

text \<open>A concrete drive that keeps the protocol: it remembers the address registers and the words taken
  since the last command, and is always ready.\<close>

record drive =
  reg_head :: u8
  reg_low :: u8
  reg_mid :: u8
  reg_high :: u8
  taken :: nat

definition drive_step :: "io_event \<Rightarrow> drive \<Rightarrow> drive" where
  "drive_step e d = (case e of
       OutB port v \<Rightarrow>
         if port = 0x1F3 then d\<lparr>reg_low := v\<rparr> else if port = 0x1F4 then d\<lparr>reg_mid := v\<rparr>
         else if port = 0x1F5 then d\<lparr>reg_high := v\<rparr> else if port = 0x1F6 then d\<lparr>reg_head := v\<rparr>
         else if port = 0x1F7 then d\<lparr>taken := 0\<rparr> else d
     | InW port \<Rightarrow> if port = 0x1F0 then d\<lparr>taken := Suc (taken d)\<rparr> else d
     | _ \<Rightarrow> d)"

definition drive_lba :: "drive \<Rightarrow> nat" where
  "drive_lba d = unat (reg_low d) + unat (reg_mid d) * 2 ^ 8 + unat (reg_high d) * 2 ^ 16
     + unat (reg_head d AND 0xF) * 2 ^ 24"

definition sample_drive :: "image \<Rightarrow> io_event list \<Rightarrow> u16" where
  "sample_drive img log =
     (let d = fold drive_step log \<lparr>reg_head = 0, reg_low = 0, reg_mid = 0, reg_high = 0, taken = 0\<rparr> in
      if log = [] then 0 else case last log of
        InB port \<Rightarrow> 8
      | InW port \<Rightarrow> disk_word img (drive_lba d) (taken d - 1)
      | _ \<Rightarrow> 0)"

lemma drive_command:
  assumes "lba < 2 ^ 28" and "d' = fold drive_step (read_command lba tot) d"
  shows "drive_lba d' = lba" and "taken d' = 0"
proof -
  have d: "reg_low d' = of_nat lba" "reg_mid d' = of_nat (lba div 2 ^ 8)" "reg_high d' = of_nat (lba div 2 ^ 16)"
    "reg_head d' = 0xE0 OR of_nat (lba div 2 ^ 24)" "taken d' = 0"
    by (simp_all add: assms(2) read_command_def drive_step_def)
  have h: "lba div 2 ^ 24 < 16" using assms(1) by (simp add: less_mult_imp_div_less)
  have "(0xE0 OR x) AND 0xF = x AND (0xF :: u8)" for x :: u8
    by (simp add: bit.conj_disj_distrib2)
  then have "(0xE0 OR of_nat (lba div 2 ^ 24)) AND (0xF :: u8) = take_bit 4 (of_nat (lba div 2 ^ 24))" by (simp add: and_masks)
  then have "unat ((0xE0 OR of_nat (lba div 2 ^ 24)) AND (0xF :: u8)) = lba div 2 ^ 24"
    using h by (simp add: unsigned_take_bit_eq unat_of_nat take_bit_nat_eq_self)
  moreover have "unat (of_nat x :: u8) = x mod 256" for x by (simp add: unat_of_nat take_bit_nat_def)
  ultimately have "drive_lba d' = lba mod 256 + (lba div 2 ^ 8) mod 256 * 2 ^ 8 + (lba div 2 ^ 16) mod 256 * 2 ^ 16 + lba div 2 ^ 24 * 2 ^ 24"
    by (simp only: drive_lba_def d)
  also have "\<dots> = lba"
  proof -
    have "lba div 256 * 256 + lba mod 256 = lba" by (rule div_mult_mod_eq)
    moreover have "lba div 65536 * 256 + lba div 256 mod 256 = lba div 256" "lba div 16777216 * 256 + lba div 65536 mod 256 = lba div 65536"
      using div_mult_mod_eq [of "lba div 256" 256] div_mult_mod_eq [of "lba div 65536" 256]
      by (simp_all add: div_mult2_eq [symmetric])
    ultimately have "lba mod 256 + lba div 256 mod 256 * 256 + lba div 65536 mod 256 * 65536
      + lba div 16777216 * 16777216 = lba" by linarith
    then show ?thesis by simp
  qed
  finally show "drive_lba d' = lba" .
  show "taken d' = 0" by (fact d(5))
qed

lemma drive_transfer:
  assumes "set es \<subseteq> {InB 0x1F7, InW 0x1F0}"
  shows "drive_lba (fold drive_step es d) = drive_lba d \<and> taken (fold drive_step es d) = taken d + words_read es"
  using assms
proof (induction es arbitrary: d)
  case (Cons e es)
  then have "e = InB 0x1F7 \<or> e = InW 0x1F0" by auto
  then have "drive_lba (drive_step e d) = drive_lba d" "taken (drive_step e d) + words_read es = taken d + words_read (e # es)"
    by (auto simp: drive_step_def drive_lba_def words_read_def kernel_consts)
  then show ?case using Cons by simp
qed (simp add: words_read_def)

lemma sample_drive_ok: "ata_drive (sample_drive img) img"
proof -
  have "polls_end (sample_drive img)"
    unfolding polls_end_def by (auto simp: sample_drive_def data_request_def bit_simps intro!: exI [of _ 0])
  moreover have "sample_drive img (log @ read_command lba tot @ es @ [InB 0x1F7] @ replicate (Suc k) (InW 0x1F0))
      = disk_word img lba (256 * j + k)"
    if "lba + tot \<le> 2 ^ 28" "j < tot" "set es \<subseteq> {InB 0x1F7, InW 0x1F0}" "words_read es = 256 * j" for log lba tot es j k
  proof -
    let ?es = "es @ [InB 0x1F7] @ replicate (Suc k) (InW 0x1F0)" and ?log = "log @ read_command lba tot"
    define d where "d = fold drive_step (read_command lba tot) (fold drive_step log
      \<lparr>reg_head = 0, reg_low = 0, reg_mid = 0, reg_high = 0, taken = 0\<rparr>)"
    have c: "drive_lba d = lba" "taken d = 0" using drive_command [OF _ d_def] that(1,2) by simp_all
    have "set ?es \<subseteq> {InB 0x1F7, InW 0x1F0}" "words_read ?es = Suc (256 * j + k)"
      using that(3,4) by (auto simp: words_read_def kernel_consts)
    with drive_transfer [of ?es d] c
    have "drive_lba (fold drive_step ?es d) = lba" "taken (fold drive_step ?es d) - 1 = 256 * j + k" by simp_all
    moreover have "fold drive_step (log @ read_command lba tot @ ?es) \<lparr>reg_head = 0, reg_low = 0, reg_mid = 0, reg_high = 0, taken = 0\<rparr>
      = fold drive_step ?es d" by (simp add: d_def)
    moreover have "last (log @ read_command lba tot @ ?es) = InW 0x1F0" by simp
    ultimately show ?thesis by (simp only: sample_drive_def Let_def io_event.case) simp
  qed
  ultimately show ?thesis unfolding ata_drive_def data_in_order_def by blast
qed

section \<open>Properties\<close>

text \<open>A concrete machine: \<open>n\<close> single heap blocks are taken, the disk structure is at 3 MB.\<close>

definition sample_disk :: "nat \<Rightarrow> mem \<Rightarrow> image \<Rightarrow> disk_state" where
  "sample_disk n m img = \<lparr>mem = taken_mem n m, io_log = [], terminal_row = 0, terminal_column = 0, terminal_colour = 7,
     terminal_buffer = 0xB8000, idt_descs = 0x200000, idtr_desc = \<lparr>idtr_limit = 0, idtr_base = 0\<rparr>,
     cpu_idtr = \<lparr>idtr_limit = 0, idtr_base = 0\<rparr>, kernel_heap = the_kernel_heap,
     kernel_heap_table = table the_kernel_heap, strategy = \<lparr>strategy_create = Some default_heap_create,
       strategy_malloc = Some heap_malloc, strategy_free = Some heap_free\<rparr>,
     current_directory = 0, cpu_cr3 = 0, current = 0, tail = 0, head = 0,
     device = sample_drive img, primary_disk = 0x300000\<rparr>"

lemma sample_disk_heap:
  assumes "n \<le> 25600"
  shows "kheap_inv (sample_disk n m img)"
    and "i < n \<Longrightarrow> (0x01000000 + of_nat (i * 4096), 4096) \<in> kheap_live (sample_disk n m img)"
    and "n + k \<le> 25600 \<Longrightarrow> kheap_cap (sample_disk n m img) k"
  using taken_heap [OF assms, of "sample_disk n m img" m] by (simp_all add: sample_disk_def)

text \<open>C26: on a drive that keeps the read protocol, \<^verbatim>\<open>read_sector\<close> returns 0 with the bytes of the sectors in the
  buffer, and writes nothing else.\<close>

theorem read_sector_reads_image:
  fixes s :: "'a disk_state_scheme"
  assumes "ata_drive (device s) img" and "unat lba + unat tot \<le> 2 ^ 28" and "unat tot < 256"
  shows "\<exists>log'. read_sector lba tot buf s = Some (0, s\<lparr>io_log := log',
    mem := write_bytes (mem s) buf (disk_bytes img (unat lba * 512) (512 * unat tot))\<rparr>)"
  using assms by (rule read_sector_ok)

theorem read_sector_reads_image_witness:
  "\<exists>s'. read_sector 3 2 0x5000 (sample_disk 0 zero_mem (\<lambda>i. of_nat (i div 512))) = Some (0, s') \<and> mem s' 0x5200 = 4"
proof -
  let ?img = "\<lambda>i. of_nat (i div 512) :: u8" and ?s = "sample_disk 0 zero_mem (\<lambda>i. of_nat (i div 512))"
  have "ata_drive (device ?s) ?img" using sample_drive_ok [of ?img] by (simp add: sample_disk_def)
  then obtain log' where r: "read_sector 3 2 0x5000 ?s = Some (0, ?s\<lparr>io_log := log',
      mem := write_bytes (mem ?s) 0x5000 (disk_bytes ?img (3 * 512) (512 * 2))\<rparr>)"
    using read_sector_reads_image [of ?s ?img 3 2 "0x5000"] by auto
  have "write_bytes (mem ?s) 0x5000 (disk_bytes ?img (3 * 512) (512 * 2)) (0x5000 + of_nat 512) = 4"
    by (subst write_bytes_at) simp_all
  with r show ?thesis by simp
qed

end
