(* ===== verification/Libc_Stdlib.thy ===== *)
theory Libc_Stdlib
  imports Libc_String
begin

text \<open>
  \<^verbatim>\<open>kernel/libc/stdlib.cpp\<close>: \<^verbatim>\<open>atoi\<close> and \<^verbatim>\<open>itoa\<close>, with \<^verbatim>\<open>int\<close> arithmetic modulo \<open>2 ^ 32\<close>.
  The lemmas show what \<^verbatim>\<open>itoa\<close> leaves in memory for positive values, that \<^verbatim>\<open>atoi\<close> reads it back,
  and what becomes of the terminator of 0 and of negative values.
\<close>

section \<open>Definitions\<close>

function atoi_loop :: "mem \<Rightarrow> u32 \<Rightarrow> u32 \<Rightarrow> u32 \<Rightarrow> u32 \<Rightarrow> u32 \<Rightarrow> u32" where
  "atoi_loop m str len idx result base_10_multiplier =
     (if idx < len then
        (let char_idx = len - 1 - idx; c = m (str + char_idx) in
         atoi_loop m str len (idx + 1) (result + base_10_multiplier * (char_to_int c - 0x30))
           (base_10_multiplier * 10))
      else result)"
  by pat_completeness auto
termination
  by (relation "measure (\<lambda>(m, str, len, idx, r, b). unat len - unat idx)") (auto simp: loop_measure)

definition atoi :: "mem \<Rightarrow> u32 \<Rightarrow> u32 option" where
  "atoi m str = do { len \<leftarrow> strlen m str; Some (atoi_loop m str len 0 0 1) }"

text \<open>The digits, least significant first. \<^verbatim>\<open>base\<close> is 10 here: every other base has returned.\<close>

function itoa_populate :: "mem \<Rightarrow> u32 \<Rightarrow> u32 \<Rightarrow> u32 \<Rightarrow> mem \<times> u32" where
  "itoa_populate m str value populate_idx =
     (if 0 <s value then
        (let remainder = int_mod value 10 in
         itoa_populate (m(str + populate_idx := ucast (0x30 + remainder))) str (int_div value 10)
           (populate_idx + 1))
      else (m, populate_idx))"
  by pat_completeness auto
termination
proof (relation "measure (\<lambda>(m, str, v, i). unat v)", simp)
  fix m :: mem and str v i x :: u32
  assume "0 <s v"
  then have "nonneg v" by (simp add: nonneg_iff_sint word_sless_alt)
  with \<open>0 <s v\<close> have "int_div v 10 = v div 10" "0 < v"
    by (simp_all add: int_div_nonneg sless_nonneg)
  then show "((m(str + i := ucast (0x30 + x)), str, int_div v 10, i + 1), m, str, v, i)
      \<in> measure (\<lambda>(m, str, v, i). unat v)"
    by (simp add: unat_div unat_gt_0)
qed

function itoa_reverse :: "mem \<Rightarrow> u32 \<Rightarrow> u32 \<Rightarrow> u32 \<Rightarrow> u32 \<Rightarrow> mem" where
  "itoa_reverse m str start_idx populate_idx reverse_idx =
     (if reverse_idx <s start_idx + int_div populate_idx 2 then
        (let tmp = m (str + reverse_idx);
             m1 = m(str + reverse_idx := m (str + (populate_idx - reverse_idx - 1)));
             m2 = m1(str + (populate_idx - reverse_idx - 1) := tmp) in
         itoa_reverse m2 str start_idx populate_idx (reverse_idx + 1))
      else m)"
  by pat_completeness auto
termination
  by (relation "measure (\<lambda>(m, str, s, p, r). nat (sint (s + int_div p 2) - sint r))")
    (auto simp: loop_measure_signed)

definition itoa :: "mem \<Rightarrow> u32 \<Rightarrow> u32 \<Rightarrow> u32 \<Rightarrow> u32 \<times> mem" where
  "itoa m value str base =
     (if base \<noteq> 10 then (str, m)
      else if value = 0 then (str, m(str := 0x30))
      else
        (let is_negative = value <s 0;
             (value, m, start_idx) =
               (if is_negative then (- value, m(str := 0x2D), 1) else (value, m, 0));
             (m, populate_idx) = itoa_populate m str value start_idx;
             m = itoa_reverse m str start_idx populate_idx start_idx
         in (str, m(str + populate_idx := 0))))"

declare atoi_loop.simps [simp del] itoa_populate.simps [simp del] itoa_reverse.simps [simp del]

section \<open>Decimal digits\<close>

text \<open>The reference: the ASCII digits of a number, most significant digit first, and the value a
  list of ASCII digits stands for.\<close>

fun decimal :: "nat \<Rightarrow> u8 list" where
  "decimal n = (if n = 0 then [] else decimal (n div 10) @ [of_nat (48 + n mod 10)])"

fun decimal_value :: "u8 list \<Rightarrow> nat" where
  "decimal_value [] = 0"
| "decimal_value (c # cs) = (unat c - 48) * 10 ^ length cs + decimal_value cs"

declare decimal.simps [simp del]

lemma decimal_value_append:
  "decimal_value (xs @ ys) = decimal_value xs * 10 ^ length ys + decimal_value ys"
  by (induction xs) (auto simp: power_add algebra_simps)

lemma unat_digit: "unat (of_nat (48 + n mod 10) :: u8) = 48 + n mod 10"
proof -
  have "48 + n mod 10 < 2 ^ 8" by (simp add: less_trans [OF add_strict_left_mono [OF mod_less_divisor]])
  then show ?thesis by (simp add: unat_of_nat take_bit_nat_eq_self del: of_nat_add)
qed

lemma decimal_value_decimal: "decimal_value (decimal n) = n"
proof (induction n rule: decimal.induct)
  case (1 n)
  show ?case
  proof (cases "n = 0")
    case False
    then show ?thesis using "1.IH"
      by (subst decimal.simps) (simp add: decimal_value_append unat_digit del: of_nat_add)
  qed (simp add: decimal.simps)
qed

lemma decimal_digits: "c \<in> set (decimal n) \<Longrightarrow> 48 \<le> unat c \<and> unat c \<le> 57"
proof (induction n rule: decimal.induct)
  case (1 n)
  have "n mod 10 \<le> 9" by (simp add: less_Suc_eq_le [symmetric])
  with 1 show ?case
    by (cases "n = 0") (auto simp: decimal.simps [of n] decimal.simps [of 0] unat_digit
        simp del: of_nat_add)
qed

lemma decimal_length: "n < 10 ^ k \<Longrightarrow> length (decimal n) \<le> k"
proof (induction k arbitrary: n)
  case 0
  then show ?case by (simp add: decimal.simps [of 0])
next
  case (Suc k)
  then have "n div 10 < 10 ^ k" by (simp add: less_mult_imp_div_less)
  then show ?case using Suc.IH by (cases "n = 0") (auto simp: decimal.simps [of n] decimal.simps [of 0])
qed

lemma decimal_bound: "n < 10 ^ length (decimal n)"
proof (induction n rule: decimal.induct)
  case (1 n)
  show ?case
  proof (cases "n = 0")
    case False
    then have "n div 10 < 10 ^ length (decimal (n div 10))" using "1.IH" by simp
    then have "n < 10 * 10 ^ length (decimal (n div 10))" by (simp add: div_less_iff_less_mult mult.commute)
    then show ?thesis using False by (simp add: decimal.simps [of n])
  qed (simp add: decimal.simps)
qed

lemma decimal_length_u32: "length (decimal (unat (v :: u32))) \<le> 10"
proof (rule decimal_length)
  have "unat v < 2 ^ 32" using unat_bound [of v] by simp
  also have "\<dots> < 10 ^ 10" by simp
  finally show "unat v < 10 ^ 10" .
qed

lemma digit_byte: "(ucast (0x30 + v mod 10 :: u32) :: u8) = of_nat (48 + unat v mod 10)"
proof -
  have "48 + unat v mod 10 < 2 ^ 32"
    by (rule less_trans [OF add_strict_left_mono [OF mod_less_divisor]]) simp_all
  then have "unat (0x30 + v mod 10) = 48 + unat v mod 10"
    by (simp add: unat_word_ariths unat_mod)
  then show ?thesis by (metis of_nat_unat)
qed

section \<open>itoa on positive values\<close>

lemma itoa_populate_eq:
  assumes "nonneg v"
  shows "itoa_populate m str v (of_nat k) =
    (write_bytes m (str + of_nat k) (rev (decimal (unat v))), of_nat (k + length (decimal (unat v))))"
  using assms
proof (induction "unat v" arbitrary: m v k rule: less_induct)
  case less
  show ?case
  proof (cases "v = 0")
    case True
    then show ?thesis by (subst itoa_populate.simps) (simp add: decimal.simps [of 0])
  next
    case False
    then have pos: "0 < v" "0 <s v" using less.prems by (simp_all add: sless_nonneg word_gt_0)
    have div: "int_div v 10 = v div 10" "int_mod v 10 = v mod 10"
      using less.prems by (simp_all add: int_div_nonneg int_mod_nonneg)
    have u: "unat (v div 10) = unat v div 10" by (simp add: unat_div)
    have "unat v div 10 < unat v" using pos by (simp add: unat_gt_0)
    moreover have "nonneg (v div 10)" using less.prems u by (simp add: nonneg_unat)
    ultimately have IH: "itoa_populate m' str (v div 10) (of_nat (Suc k)) =
      (write_bytes m' (str + of_nat (Suc k)) (rev (decimal (unat v div 10))),
       of_nat (Suc k + length (decimal (unat v div 10))))" for m'
      using less.hyps [of "v div 10" m' "Suc k"] u by simp
    have digit: "(ucast (0x30 + v mod 10) :: u8) = of_nat (48 + unat v mod 10)"
      by (rule digit_byte)
    have "length (decimal (unat v div 10)) < 2 ^ 32"
      using decimal_length_u32 [of "v div 10"] u by simp
    then show ?thesis using pos IH False
      by (subst itoa_populate.simps)
        (simp add: div digit decimal.simps [of "unat v"] write_bytes_Cons unat_eq_zero add.assoc add.commute [of 1])
  qed
qed

lemma half_word:
  assumes "p < 2 ^ 31"
  shows "int_div (of_nat p) 2 = of_nat (p div 2)"
    and "r < 2 ^ 31 \<Longrightarrow> (of_nat r :: u32) <s of_nat (p div 2) \<longleftrightarrow> r < p div 2"
proof -
  have u: "unat (of_nat p :: u32) = p" using assms by (simp add: unat_of_nat32)
  then have "nonneg (of_nat p)" using assms by (simp add: nonneg_unat)
  then show "int_div (of_nat p) 2 = of_nat (p div 2)"
    using u by (simp add: int_div_nonneg word_arith_nat_div)
  show "(of_nat r :: u32) <s of_nat (p div 2) \<longleftrightarrow> r < p div 2" if "r < 2 ^ 31"
    using assms that by (simp add: word_sless_alt sint_of_nat32)
qed

text \<open>One exchange of the reversal: if the inner bytes are mirrored after it, all are.\<close>

lemma mirror_step:
  fixes str :: u32 and m :: mem
  defines "mirror \<equiv> \<lambda>m p r a. if r \<le> unat (a - str) \<and> unat (a - str) < p - r
    then m (str + of_nat (p - 1 - unat (a - str))) else m a"
  assumes "p < 2 ^ 31" and "r < p div 2"
  shows "mirror (m(str + of_nat r := m (str + of_nat (p - 1 - r)),
    str + of_nat (p - 1 - r) := m (str + of_nat r))) p (Suc r) = mirror m p r"
proof
  fix a :: u32
  let ?q = "p - 1 - r"
  have a: "a = str + of_nat r \<longleftrightarrow> unat (a - str) = r" "a = str + of_nat ?q \<longleftrightarrow> unat (a - str) = ?q"
    using assms(2,3) by (simp_all add: addr_of_nat del: of_nat_diff)
  have at: "str + of_nat i = str + of_nat j \<longleftrightarrow> i = j" if "i < 2 ^ 31" "j < 2 ^ 31" for i j
    using that addr_of_nat [of j "str + of_nat i" str] by (simp add: unat_of_nat32)
  consider "unat (a - str) < r \<or> p - r \<le> unat (a - str)" | "unat (a - str) = r"
    | "unat (a - str) = ?q" | "Suc r \<le> unat (a - str)" "unat (a - str) < p - Suc r"
    by linarith
  then show "mirror (m(str + of_nat r := m (str + of_nat ?q), str + of_nat ?q := m (str + of_nat r)))
      p (Suc r) a = mirror m p r a"
  proof cases
    case 1
    then have "unat (a - str) \<noteq> r" "unat (a - str) \<noteq> ?q" using assms(3) by auto
    with 1 a show ?thesis by (auto simp: mirror_def simp del: of_nat_diff)
  next
    case 2
    then have "a = str + of_nat r" "r \<noteq> ?q" "r < p - r" using assms(3) a by auto
    with 2 at [of r ?q] assms show ?thesis by (simp add: mirror_def del: of_nat_diff)
  next
    case 3
    then have "a = str + of_nat ?q" "p - 1 - ?q = r" "r \<le> ?q" "?q < p - r"
      using assms(3) a by auto
    with 3 assms(3) show ?thesis by (simp add: mirror_def del: of_nat_diff)
  next
    case 4
    have "str + of_nat (p - 1 - unat (a - str)) \<noteq> str + of_nat r"
      "str + of_nat (p - 1 - unat (a - str)) \<noteq> str + of_nat ?q"
      using 4 assms(2,3) by (subst at; linarith)+
    moreover have "unat (a - str) < p - r" using 4(2) by linarith
    ultimately show ?thesis using 4 by (simp add: mirror_def del: of_nat_diff)
  qed
qed

lemma itoa_reverse_eq:
  assumes "p < 2 ^ 31" and "r \<le> p div 2"
  shows "itoa_reverse m str 0 (of_nat p) (of_nat r) = (\<lambda>a.
    if r \<le> unat (a - str) \<and> unat (a - str) < p - r
    then m (str + of_nat (p - 1 - unat (a - str))) else m a)"
  using assms(2)
proof (induction "p div 2 - r" arbitrary: r m)
  case 0
  then have r: "r = p div 2" by simp
  have "m (str + of_nat (p - 1 - unat (a - str))) = m a"
    if "p div 2 \<le> unat (a - str)" "unat (a - str) < p - p div 2" for a
  proof -
    from that have "p - 1 - unat (a - str) = unat (a - str)" by linarith
    then show ?thesis by simp
  qed
  then show ?case using r half_word [OF assms(1)] assms(1)
    by (subst itoa_reverse.simps) (auto simp: fun_eq_iff word_sless_alt)
next
  case (Suc k)
  then have r: "r < p div 2" by simp
  let ?m = "m(str + of_nat r := m (str + of_nat (p - 1 - r)),
    str + of_nat (p - 1 - r) := m (str + of_nat r))"
  have q: "of_nat p - of_nat r - 1 = (of_nat (p - 1 - r) :: u32)" using r by simp
  have "itoa_reverse m str 0 (of_nat p) (of_nat r) =
      itoa_reverse ?m str 0 (of_nat p) (of_nat (Suc r))"
    using r half_word [OF assms(1)] assms(1)
    by (subst itoa_reverse.simps) (simp add: Let_def q add.commute del: of_nat_diff)
  also have "\<dots> = (\<lambda>a. if Suc r \<le> unat (a - str) \<and> unat (a - str) < p - Suc r
    then ?m (str + of_nat (p - 1 - unat (a - str))) else ?m a)"
    using Suc r by (intro Suc.hyps) auto
  also note mirror_step [OF assms(1) r]
  finally show ?case .
qed

lemma itoa_reverse_bytes:
  assumes "length xs < 2 ^ 31"
  shows "itoa_reverse (write_bytes m str xs) str 0 (of_nat (length xs)) 0 = write_bytes m str (rev xs)"
proof -
  have "write_bytes m str xs (str + of_nat (length xs - 1 - i)) = rev xs ! i" if "i < length xs" for i
    using that assms by (simp add: write_bytes_at rev_nth del: of_nat_diff)
  then show ?thesis using itoa_reverse_eq [OF assms, of 0 "write_bytes m str xs" str]
    by (auto simp: fun_eq_iff write_bytes_def [of m str "rev xs"] simp del: of_nat_diff)
      (simp add: write_bytes_def)
qed

lemma itoa_positive:
  assumes "nonneg v" and "v \<noteq> 0"
  shows "itoa m v str 10 = (str, write_bytes m str (decimal (unat v) @ [0]))"
proof -
  let ?ds = "decimal (unat v)"
  have l: "length ?ds < 2 ^ 31" using decimal_length_u32 [of v] by simp
  have "\<not> v <s 0" using assms by (simp add: sless_nonneg)
  moreover have "itoa_populate m str v 0 = (write_bytes m str (rev ?ds), of_nat (length ?ds))"
    using itoa_populate_eq [OF assms(1), of m str 0] by simp
  ultimately show ?thesis
    using assms(2) itoa_reverse_bytes [of "rev ?ds" m str] l
    by (simp add: itoa_def Let_def write_bytes_snoc)
qed

section \<open>atoi on digit strings\<close>

lemma digit_value:
  assumes "48 \<le> unat c" and "unat c \<le> 57"
  shows "char_to_int c - 0x30 = of_nat (unat c - 48)"
proof -
  have "sint c = int (unat c)"
    unfolding sint_uint uint_nat
  proof (rule signed_take_bit_int_eq_self)
    show "int (unat c) < 2 ^ (LENGTH(8) - Suc 0)" using assms by (simp del: of_nat_unat)
  qed (simp del: of_nat_unat)
  then have "char_to_int c = of_nat (unat c)"
    unfolding char_to_int_def by (metis of_int_of_nat_eq of_int_sint)
  then show ?thesis using assms(1) by simp
qed

lemma atoi_loop_digits:
  assumes "cstring m str cs" and "\<And>c. c \<in> set cs \<Longrightarrow> 48 \<le> unat c \<and> unat c \<le> 57"
    and "i \<le> length cs"
  shows "atoi_loop m str (of_nat (length cs)) (of_nat (length cs - i)) res b =
    res + b * of_nat (decimal_value (take i cs))"
  using assms(3)
proof (induction i arbitrary: res b)
  case 0
  then show ?case by (subst atoi_loop.simps) simp
next
  case (Suc i)
  let ?n = "length cs"
  have n: "?n < 2 ^ 32" using assms(1) by (simp add: cstring_def)
  have lt: "of_nat (?n - Suc i) < (of_nat ?n :: u32)"
    using n Suc.prems by (simp add: word_less_nat_alt unat_of_nat32 del: of_nat_diff)
  have idx: "of_nat ?n - 1 - of_nat (?n - Suc i) = (of_nat i :: u32)" "of_nat (?n - Suc i) + 1 = (of_nat (?n - i) :: u32)"
    using Suc.prems by simp_all
  have c: "m (str + of_nat i) = cs ! i" "char_to_int (cs ! i) - 0x30 = of_nat (unat (cs ! i) - 48)"
    using Suc.prems assms(1,2) by (simp_all add: cstring_nth digit_value)
  have "decimal_value (take (Suc i) cs) = decimal_value (take i cs) * 10 + (unat (cs ! i) - 48)"
    using Suc.prems by (simp add: take_Suc_conv_app_nth decimal_value_append)
  moreover have "atoi_loop m str (of_nat ?n) (of_nat (?n - Suc i)) res b =
    atoi_loop m str (of_nat ?n) (of_nat (?n - i)) (res + b * of_nat (unat (cs ! i) - 48)) (b * 10)"
    by (subst atoi_loop.simps) (simp only: lt if_True Let_def idx c)
  ultimately show ?case using Suc.IH Suc.prems by (simp add: algebra_simps del: of_nat_diff)
qed

lemma atoi_digits:
  assumes "cstring m str cs" and "\<And>c. c \<in> set cs \<Longrightarrow> 48 \<le> unat c \<and> unat c \<le> 57"
  shows "atoi m str = Some (of_nat (decimal_value cs))"
  using atoi_loop_digits [OF assms order_refl, of 0 1] strlen_cstring [OF assms(1)]
  by (simp add: atoi_def)

lemma atoi_itoa:
  assumes "nonneg v" and "v \<noteq> 0"
  shows "atoi (snd (itoa m v str 10)) str = Some v"
proof -
  let ?ds = "decimal (unat v)"
  have d: "48 \<le> unat c \<and> unat c \<le> 57" if "c \<in> set ?ds" for c using that by (rule decimal_digits)
  then have "0 \<notin> set ?ds" by fastforce
  moreover have "Suc (length ?ds) < 2 ^ 32" using decimal_length_u32 [of v] by simp
  ultimately have "cstring (write_bytes m str (?ds @ [0])) str ?ds" by (rule cstring_write)
  from atoi_digits [OF this d] show ?thesis
    using assms by (simp add: itoa_positive decimal_value_decimal)
qed

section \<open>Negative values\<close>

text \<open>The reversal indexes from the start of the buffer, not from behind the sign, so it does not undo
  the digit order of a negative value: one digit trades places with the sign.\<close>

lemma int_div_2_2 [simp]: "int_div 2 2 = 1"
  by (simp add: int_div_nonneg)

lemma itoa_negative_digit:
  assumes "0 < d" and "d < 10"
  shows "itoa m (- of_nat d) str 10 = (str, write_bytes m str [of_nat (48 + d), 0x2D, 0])"
proof -
  have u: "unat (of_nat d :: u32) = d" using assms by (simp add: unat_of_nat32)
  have nn: "nonneg (of_nat d)" using assms u by (simp add: nonneg_unat)
  have nz: "- (of_nat d :: u32) \<noteq> 0" using assms u by (metis neg_equal_0_iff_equal unat_0 less_irrefl)
  have "sint (- of_nat d :: u32) = - int d"
    using assms by (simp add: sint_word_ariths sint_of_nat32 signed_take_bit_int_eq_self)
  then have neg: "- (of_nat d :: u32) <s 0" using assms by (simp add: word_sless_alt)
  have dec: "decimal d = [of_nat (48 + d)]"
    using assms by (simp add: decimal.simps [of d] decimal.simps [of 0] del: of_nat_add)
  have "itoa_populate (m(str := 0x2D)) str (of_nat d) 1 =
      ((m(str := 0x2D, str + 1 := of_nat (48 + d))), 2)"
    using itoa_populate_eq [OF nn, of "m(str := 0x2D)" str 1]
    by (simp add: u dec write_bytes_Cons del: of_nat_add)
  moreover have "itoa_reverse (m(str := 0x2D, str + 1 := of_nat (48 + d))) str 1 2 1 =
      m(str := of_nat (48 + d), str + 1 := 0x2D)"
    by (simp add: itoa_reverse.simps [of _ _ _ _ 1] itoa_reverse.simps [of _ _ _ _ 2] fun_upd_twist
        sless_nonneg del: of_nat_add)
  ultimately show ?thesis using nz neg
    by (simp add: itoa_def write_bytes_Cons add.assoc del: of_nat_add)
qed

section \<open>Properties\<close>

text \<open>C37: \<^verbatim>\<open>itoa\<close> in base 10 of a positive number writes its decimal digits and a terminator, and
  \<^verbatim>\<open>atoi\<close> reads the number back.\<close>

theorem itoa_atoi_roundtrip:
  assumes "0 < sint v"
  shows "itoa m v str 10 = (str, write_bytes m str (decimal (unat v) @ [0]))
    \<and> atoi (snd (itoa m v str 10)) str = Some v"
proof -
  have v: "nonneg v" "v \<noteq> 0" using assms by (auto simp: nonneg_iff_sint)
  show ?thesis using itoa_positive [OF v] atoi_itoa [OF v] by simp
qed

theorem itoa_atoi_roundtrip_witness: "atoi (snd (itoa (\<lambda>_. 0) 2043 0x100 10)) 0x100 = Some 2043"
proof -
  have "0 < sint (2043 :: u32)" by simp
  from itoa_atoi_roundtrip [OF this] show ?thesis by blast
qed

text \<open>\<^verbatim>\<open>itoa\<close> of a negative digit puts the sign behind the digit.\<close>

lemma itoa_negative_sign_last:
  assumes "0 < d" and "d < 10"
  shows "itoa m (- of_nat d) str 10 = (str, write_bytes m str [of_nat (48 + d), 0x2D, 0])"
  using assms by (rule itoa_negative_digit)

end
