(* ===== verification/Disk.thy ===== *)
theory Disk
  imports Ata Libc_Stdlib
begin

text \<open>
  \<^verbatim>\<open>kernel/disk/disk.cpp\<close> and \<^verbatim>\<open>kernel/disk/disk_streamer.cpp\<close>: the primary disk, a structure of 20 bytes
  among the kernel's globals, and streams over it, heap blocks with a position and a pointer to the
  disk. \<^verbatim>\<open>search_and_initialize\<close> needs the file systems and is with them.

  A stream is a cursor over the bytes of the disk: after \<^verbatim>\<open>seek\<close> to a position, \<^verbatim>\<open>read\<close> of \<open>n\<close> bytes returns the
  bytes of the image from there on, whatever sectors they lie in, and moves the position by \<open>n\<close>.
\<close>

section \<open>Layout\<close>

definition disk_type :: "u32 \<Rightarrow> u32" where
  "disk_type d = d"

definition disk_sector_size :: "u32 \<Rightarrow> u32" where
  "disk_sector_size d = d + 4"

definition disk_id :: "u32 \<Rightarrow> u32" where
  "disk_id d = d + 8"

definition disk_fs :: "u32 \<Rightarrow> u32" where
  "disk_fs d = d + 12"

definition disk_fs_private_data :: "u32 \<Rightarrow> u32" where
  "disk_fs_private_data d = d + 16"

definition sizeof_disk :: u32 where
  [kernel_consts]: "sizeof_disk = 20"

definition stream_pos :: "u32 \<Rightarrow> u32" where
  "stream_pos stream = stream"

definition stream_d :: "u32 \<Rightarrow> u32" where
  "stream_d stream = stream + 4"

definition sizeof_disk_stream :: u32 where
  [kernel_consts]: "sizeof_disk_stream = 8"

lemmas disk_fields = disk_type_def disk_sector_size_def disk_id_def disk_fs_def disk_fs_private_data_def
  stream_pos_def stream_d_def

section \<open>Operations\<close>

definition get_disk :: "u32 \<Rightarrow> 'a disk_state_scheme \<Rightarrow> u32" where
  "get_disk index s = (if index \<noteq> 0 then 0 else primary_disk s)"

definition read_block :: "u32 \<Rightarrow> u32 \<Rightarrow> u32 \<Rightarrow> u32 \<Rightarrow> 'a disk_state_scheme \<Rightarrow> (u32 \<times> 'a disk_state_scheme) option" where
  "read_block d lba tot buf s =
     (if d \<noteq> primary_disk s then Some (- EINVAL, s) else read_sector lba tot buf s)"

definition new_stream :: "u32 \<Rightarrow> 'a disk_state_scheme \<Rightarrow> (u32 \<times> 'a disk_state_scheme) option" where
  "new_stream index s = do {
     let d = get_disk index s;
     if d = 0 then Some (0, s)
     else do {
       (stream, s) \<leftarrow> kzalloc sizeof_disk_stream s;
       let s = s\<lparr>mem := store32 (mem s) (stream_pos stream) 0\<rparr>;
       let s = s\<lparr>mem := store32 (mem s) (stream_d stream) d\<rparr>;
       Some (stream, s)
     }
   }"

definition stream_seek :: "u32 \<Rightarrow> u32 \<Rightarrow> 'a disk_state_scheme \<Rightarrow> u32 \<times> 'a disk_state_scheme" where
  "stream_seek stream pos s = (0, s\<lparr>mem := store32 (mem s) (stream_pos stream) pos\<rparr>)"

text \<open>Both copy loops: \<^verbatim>\<open>*out_char++ = src[idx]; ++bytes_read\<close>.\<close>

function stream_copy :: "u32 \<Rightarrow> u32 \<Rightarrow> u32 \<Rightarrow> u32 \<Rightarrow> u32 \<Rightarrow> mem \<Rightarrow> u32 \<times> u32 \<times> mem" where
  "stream_copy src n idx out_char bytes_read m =
     (if idx <s n then stream_copy src n (idx + 1) (out_char + 1) (bytes_read + 1) (m(out_char := m (src + idx)))
      else (out_char, bytes_read, m))"
  by pat_completeness auto
termination
  by (relation "measure (\<lambda>(src, n, idx, out_char, bytes_read, m). nat (sint n - sint idx))")
    (auto simp: loop_measure_signed)

declare stream_copy.simps [simp del]

text \<open>The division faults when the sector size is zero, and on the one quotient that overflows. The loop
  returns the negative result of a failed block read, and 0 when it has run to its end.\<close>

definition idiv_faults :: "u32 \<Rightarrow> u32 \<Rightarrow> bool" where
  "idiv_faults a b \<longleftrightarrow> b = 0 \<or> a = 0x80000000 \<and> b = - 1"

partial_function (option) stream_read_loop ::
  "u32 \<Rightarrow> u32 \<Rightarrow> u32 \<Rightarrow> u32 \<Rightarrow> u32 \<Rightarrow> u32 \<Rightarrow> u32 \<Rightarrow> 'a disk_state_scheme \<Rightarrow> (u32 \<times> 'a disk_state_scheme) option" where
  "stream_read_loop stream tot sector_size buf bytes_read sectors_read out_char s =
     (if bytes_read <s tot then
        (let at = load32 (mem s) (stream_pos stream) + bytes_read in
         if idiv_faults at sector_size then None
         else
           (let sector = int_div at sector_size;
                offset = int_mod at sector_size in
            Option.bind (read_block (load32 (mem s) (stream_d stream)) sector 1 buf s) (\<lambda>(res, s).
              if res <s 0 then Some (res, s)
              else
                (let (out_char, bytes_read, m) =
                       (if 0 <s sectors_read then stream_copy buf offset 0 out_char bytes_read (mem s)
                        else (out_char, bytes_read, mem s));
                     remainder_to_next_sector = sector_size - offset;
                     remainder = tot - bytes_read;
                     bytes_to_read = (if remainder_to_next_sector <s remainder then remainder_to_next_sector else remainder);
                     (out_char, bytes_read, m) = stream_copy (buf + offset) bytes_to_read 0 out_char bytes_read m
                 in stream_read_loop stream tot sector_size buf bytes_read (sectors_read + 1) out_char (s\<lparr>mem := m\<rparr>)))))
      else Some (0, s))"

definition stream_read :: "u32 \<Rightarrow> u32 \<Rightarrow> u32 \<Rightarrow> 'a disk_state_scheme \<Rightarrow> (u32 \<times> 'a disk_state_scheme) option" where
  "stream_read stream out tot s = do {
     let sector_size = load32 (mem s) (disk_sector_size (load32 (mem s) (stream_d stream)));
     (buf, s) \<leftarrow> kzalloc sector_size s;
     (res, s) \<leftarrow> stream_read_loop stream tot sector_size buf 0 0 out s;
     if res <s 0 then Some (res, s)
     else do {
       let s = s\<lparr>mem := store32 (mem s) (stream_pos stream) (load32 (mem s) (stream_pos stream) + tot)\<rparr>;
       s \<leftarrow> kfree buf s;
       Some (0, s)
     }
   }"

definition stream_close :: "u32 \<Rightarrow> 'a disk_state_scheme \<Rightarrow> 'a disk_state_scheme option" where
  "stream_close stream s = kfree stream s"

section \<open>Copying\<close>

lemma int_div_of_nat: "a < 2 ^ 31 \<Longrightarrow> b < 2 ^ 31 \<Longrightarrow> int_div (of_nat a) (of_nat b) = of_nat (a div b)"
  by (simp add: int_div_def sint_of_nat32 sdiv_smod_nonneg flip: zdiv_int)

lemma int_mod_of_nat: "a < 2 ^ 31 \<Longrightarrow> b < 2 ^ 31 \<Longrightarrow> int_mod (of_nat a) (of_nat b) = of_nat (a mod b)"
  by (simp add: int_mod_def sint_of_nat32 sdiv_smod_nonneg flip: zmod_int)

lemma sless_of_nat: "a < 2 ^ 31 \<Longrightarrow> b < 2 ^ 31 \<Longrightarrow> (of_nat a :: u32) <s of_nat b \<longleftrightarrow> a < b"
  by (simp add: word_sless_alt sint_of_nat32)

lemma stream_copy_ok:
  assumes "c < 2 ^ 31" and "region src c \<inter> region out c = {}" and "i \<le> c"
  shows "stream_copy src (of_nat c) (of_nat i) (out + of_nat i) (b + of_nat i) (write_bytes m out (take i (load_bytes m src c)))
    = (out + of_nat c, b + of_nat c, write_bytes m out (load_bytes m src c))"
  using assms(3)
proof (induction i rule: inc_induct)
  case base
  then show ?case using sless_of_nat [OF assms(1,1)] by (subst stream_copy.simps) simp
next
  case (step i)
  let ?bs = "load_bytes m src c"
  have i: "(of_nat i :: u32) <s of_nat c" using step(2) assms(1) by (simp add: sless_of_nat)
  have "src + of_nat i \<in> region src c" using step(2) assms(1) by simp
  then have "src + of_nat i \<notin> region out (length (take i ?bs))"
    using assms(2) region_mono [of i c out] step(2) by (auto simp: min_def)
  then have "write_bytes m out (take i ?bs) (src + of_nat i) = ?bs ! i"
    using same_outsideD [OF write_bytes_outside] step(2) by simp
  moreover have "(write_bytes m out (take i ?bs))(out + of_nat i := ?bs ! i) = write_bytes m out (take (Suc i) ?bs)"
    using write_bytes_snoc [of "take i ?bs" m out] step(2) assms(1) by (simp add: take_Suc_conv_app_nth min_def)
  ultimately show ?case using i step(3) by (subst stream_copy.simps) (simp add: ac_simps)
qed

lemma stream_copy_all:
  assumes "c < 2 ^ 31" and "region src c \<inter> region out c = {}"
  shows "stream_copy src (of_nat c) 0 out b m = (out + of_nat c, b + of_nat c, write_bytes m out (load_bytes m src c))"
  using stream_copy_ok [OF assms, of 0 b m] by simp

lemma stream_copy_none: "stream_copy src 0 0 out b m = (out, b, m)"
  by (subst stream_copy.simps) simp

lemma load_bytes_append: "load_bytes m p (a + b) = load_bytes m p a @ load_bytes m (p + of_nat a) b"
  by (rule nth_equalityI) (auto simp: nth_append ac_simps)

lemma load_bytes_drop: "i + n \<le> k \<Longrightarrow> load_bytes m (p + of_nat i) n = take n (drop i (load_bytes m p k))"
  by (rule nth_equalityI) (auto simp: ac_simps)

lemma region_adjacent:
  assumes "a + c \<le> 2 ^ 32"
  shows "region p a \<inter> region (p + of_nat a) c = {}"
proof (cases "a < 2 ^ 32")
  case True
  have "unat (x - (p + of_nat a)) = (if a \<le> unat (x - p) then unat (x - p) - a else 2 ^ 32 + unat (x - p) - a)" for x
    using unat_diff_addr [of "x - p" "of_nat a"] unat_of_nat32 [OF True] by (simp add: diff_diff_eq word_le_nat_alt)
  then show ?thesis using assms by (auto simp: mem_region)
next
  case False
  then have "c = 0" using assms by simp
  then show ?thesis by simp
qed

section \<open>The read loop\<close>

text \<open>One turn of the loop for a position \<open>x\<close> on the disk copies \<open>c\<close> bytes, up to the next sector or to the end.\<close>

lemma stream_read_turn:
  fixes s :: "'a disk_state_scheme"
  assumes "ata_drive (device s) img" and "load32 (mem s) st = of_nat pos" and "load32 (mem s) (st + 4) = primary_disk s"
    and "region buf 512 \<inter> region out n = {}" and "pos + n < 2 ^ 31" and "b < n" and "0 < k \<Longrightarrow> (pos + b) mod 512 = 0"
    and "k < 2 ^ 31" and "c = min (512 - (pos + b) mod 512) (n - b)"
  shows "\<exists>log'. stream_read_loop st (of_nat n) 512 buf (of_nat b) (of_nat k) (out + of_nat b) s =
    stream_read_loop st (of_nat n) 512 buf (of_nat (b + c)) (of_nat (Suc k)) (out + of_nat (b + c)) (s\<lparr>io_log := log',
      mem := write_bytes (write_bytes (mem s) buf (disk_bytes img ((pos + b) div 512 * 512) 512)) (out + of_nat b)
        (disk_bytes img (pos + b) c)\<rparr>)"
proof -
  let ?x = "pos + b" and ?m = "write_bytes (mem s) buf (disk_bytes img ((pos + b) div 512 * 512) 512)"
  have x: "?x < 2 ^ 31" "?x div 512 < 2 ^ 22" using assms(5,6) by (auto simp: less_mult_imp_div_less)
  have cb: "c < 2 ^ 31" "c + b \<le> n" "?x mod 512 + c \<le> 512" "c \<le> 512" using assms(5,6,9) by (auto simp: min_def)
  obtain log' where r: "read_sector (of_nat (?x div 512)) 1 buf s = Some (0, s\<lparr>io_log := log', mem := ?m\<rparr>)"
    using read_sector_ok [OF assms(1), of "of_nat (?x div 512)" 1 buf] x(2) by (auto simp: unat_of_nat32)
  have "region (buf + of_nat (?x mod 512)) c \<inter> region (out + of_nat b) c = {}"
    using region_shift [of "?x mod 512" c 512 buf] region_shift [of b c n out] cb assms(4) by fastforce
  note cp = stream_copy_all [OF cb(1) this, of "of_nat b" ?m]
  have bytes: "load_bytes ?m (buf + of_nat (?x mod 512)) c = disk_bytes img ?x c"
  proof -
    have "load_bytes ?m buf 512 = disk_bytes img (?x div 512 * 512) 512"
      using load_write_bytes [of "disk_bytes img (?x div 512 * 512) 512"] by simp
    then have "load_bytes ?m (buf + of_nat (?x mod 512)) c = take c (drop (?x mod 512) (disk_bytes img (?x div 512 * 512) 512))"
      using load_bytes_drop [OF cb(3)] by simp
    also have "\<dots> = disk_bytes img ?x c" using cb(3) by (intro nth_equalityI) (simp_all add: add.assoc [symmetric])
    finally show ?thesis .
  qed
  have first: "(if 0 <s (of_nat k :: u32) then stream_copy buf (of_nat (?x mod 512)) 0 (out + of_nat b) (of_nat b) ?m
      else (out + of_nat b, of_nat b, ?m)) = (out + of_nat b, of_nat b, ?m)"
    using sless_of_nat [of 0 k] assms(7,8) by (auto simp: stream_copy_none)
  have at: "load32 (mem s) (stream_pos st) + of_nat b = of_nat ?x" by (simp add: disk_fields assms(2))
  have dv: "int_div (of_nat ?x) 512 = of_nat (?x div 512)" "int_mod (of_nat ?x) 512 = of_nat (?x mod 512)"
    using int_div_of_nat [OF x(1), of 512] int_mod_of_nat [OF x(1), of 512] by simp_all
  have ds: "(512 :: u32) - of_nat (?x mod 512) = of_nat (512 - ?x mod 512)" "(of_nat n :: u32) - of_nat b = of_nat (n - b)"
    using assms(6) by simp_all
  have btr: "(if (of_nat (512 - ?x mod 512) :: u32) <s of_nat (n - b) then of_nat (512 - ?x mod 512) else of_nat (n - b)) = (of_nat c :: u32)"
    using sless_of_nat [of "512 - ?x mod 512" "n - b"] assms(5,9) by (simp add: min_def)
  have lt: "(of_nat b :: u32) <s of_nat n" using sless_of_nat [of b n] assms(5,6) by simp
  have nf: "\<not> idiv_faults (of_nat ?x) 512" by (simp add: idiv_faults_def)
  have z: "((0 :: u32) <s 0) = False" by simp
  have sel: "mem (s\<lparr>io_log := log', mem := ?m\<rparr>) = ?m" "s\<lparr>io_log := log', mem := ?m, mem := m'\<rparr> = s\<lparr>io_log := log', mem := m'\<rparr>" for m'
    by simp_all
  have rb: "read_block (load32 (mem s) (stream_d st)) (of_nat (?x div 512)) 1 buf s = Some (0, s\<lparr>io_log := log', mem := ?m\<rparr>)"
    using r by (simp add: read_block_def disk_fields assms(3))
  have "stream_read_loop st (of_nat n) 512 buf (of_nat b) (of_nat k) (out + of_nat b) s =
    stream_read_loop st (of_nat n) 512 buf (of_nat b + of_nat c) (of_nat k + 1) (out + of_nat b + of_nat c) (s\<lparr>io_log := log',
      mem := write_bytes ?m (out + of_nat b) (disk_bytes img ?x c)\<rparr>)"
    by (subst stream_read_loop.simps)
      (simp only: lt if_True at nf if_False Let_def dv rb Option.bind.bind_lunit prod.case z sel first ds btr cp bytes)
  then show ?thesis by (intro exI [of _ log']) (simp add: ac_simps)
qed

text \<open>The whole loop. Its writes stay in the two buffers.\<close>

lemma stream_read_loop_ok:
  fixes s :: "'a disk_state_scheme"
  assumes "ata_drive (device s) img" and "load32 (mem s) st = of_nat pos" and "load32 (mem s) (st + 4) = primary_disk s"
    and "region buf 512 \<inter> region out n = {}" and "region st 8 \<inter> (region buf 512 \<union> region out n) = {}" and "pos + n < 2 ^ 31"
    and "b \<le> n" and "0 < k \<Longrightarrow> b = n \<or> (pos + b) mod 512 = 0" and "k \<le> b"
    and "load_bytes (mem s) out b = disk_bytes img pos b"
  shows "\<exists>log' m'. stream_read_loop st (of_nat n) 512 buf (of_nat b) (of_nat k) (out + of_nat b) s
      = Some (0, s\<lparr>io_log := log', mem := m'\<rparr>)
    \<and> load_bytes m' out n = disk_bytes img pos n \<and> same_outside (region buf 512 \<union> region out n) (mem s) m'"
  using assms
proof (induction "n - b" arbitrary: b k s rule: less_induct)
  case less
  show ?case
  proof (cases "b = n")
    case True
    have "\<not> (of_nat n :: u32) <s of_nat n" by simp
    then have "stream_read_loop st (of_nat n) 512 buf (of_nat b) (of_nat k) (out + of_nat b) s = Some (0, s)"
      using True by (subst stream_read_loop.simps) simp
    then show ?thesis using less.prems(10) True by (intro exI [of _ "io_log s"] exI [of _ "mem s"]) simp
  next
    case False
    let ?x = "pos + b" and ?R = "region buf 512 \<union> region out n"
    define c where "c = min (512 - ?x mod 512) (n - b)"
    have b: "b < n" "0 < c" "b + c \<le> n" using False less.prems(7) by (auto simp: c_def min_def)
    have k: "0 < k \<Longrightarrow> ?x mod 512 = 0" "k < 2 ^ 31" using less.prems(6-9) b(1) by auto
    let ?m = "write_bytes (mem s) buf (disk_bytes img (?x div 512 * 512) 512)"
    let ?m2 = "write_bytes ?m (out + of_nat b) (disk_bytes img ?x c)"
    obtain log1 where t: "stream_read_loop st (of_nat n) 512 buf (of_nat b) (of_nat k) (out + of_nat b) s =
      stream_read_loop st (of_nat n) 512 buf (of_nat (b + c)) (of_nat (Suc k)) (out + of_nat (b + c)) (s\<lparr>io_log := log1, mem := ?m2\<rparr>)"
      using stream_read_turn [OF less.prems(1-4,6) b(1) k c_def] by auto
    have f1: "same_outside (region buf 512) (mem s) ?m"
      using write_bytes_outside [of buf "disk_bytes img (?x div 512 * 512) 512" "mem s"] by simp
    have f2: "same_outside (region (out + of_nat b) c) ?m ?m2"
      using write_bytes_outside [of "out + of_nat b" "disk_bytes img ?x c" ?m] by simp
    have f: "same_outside ?R (mem s) ?m2"
      using same_outside_trans [OF f1 f2] region_shift [OF b(3), of out] by (rule_tac same_outside_mono) auto
    have st: "region st 4 \<inter> ?R = {}" "region (st + 4) 4 \<inter> ?R = {}"
      using less.prems(5) region_mono [of 4 8 st] region_shift [of 4 4 8 st] by auto
    have "region out b \<inter> (region buf 512 \<union> region (out + of_nat b) c) = {}"
      using less.prems(4,6) b region_adjacent [of b c out] region_mono [of b n out] by auto
    then have "load_bytes ?m2 out b = disk_bytes img pos b"
      using less.prems(6,10) b load_bytes_frame [OF same_outside_trans [OF f1 f2]] by simp
    moreover have "load_bytes ?m2 (out + of_nat b) c = disk_bytes img ?x c"
      using load_write_bytes [of "disk_bytes img ?x c"] less.prems(6) b(3) by simp
    ultimately have "load_bytes ?m2 out (b + c) = disk_bytes img pos (b + c)"
      by (simp add: load_bytes_append disk_bytes_append)
    moreover have "b + c = n \<or> (pos + (b + c)) mod 512 = 0"
    proof (cases "512 - ?x mod 512 \<le> n - b")
      case True
      then have "c + ?x mod 512 = 512" by (simp add: c_def)
      moreover have "?x div 512 * 512 + ?x mod 512 = ?x" by (rule div_mult_mod_eq)
      ultimately have "pos + (b + c) = 512 + (?x div 512) * 512" by linarith
      then show ?thesis by simp
    qed (use b(1) in \<open>simp add: c_def\<close>)
    ultimately have "\<exists>log' m'. stream_read_loop st (of_nat n) 512 buf (of_nat (b + c)) (of_nat (Suc k)) (out + of_nat (b + c))
        (s\<lparr>io_log := log1, mem := ?m2\<rparr>) = Some (0, s\<lparr>io_log := log1, mem := ?m2\<rparr>\<lparr>io_log := log', mem := m'\<rparr>)
      \<and> load_bytes m' out n = disk_bytes img pos n \<and> same_outside ?R (mem (s\<lparr>io_log := log1, mem := ?m2\<rparr>)) m'"
      using less.prems b load32_frame [OF f st(1)] load32_frame [OF f st(2)] by (intro less.hyps) auto
    then obtain log' m' where r: "stream_read_loop st (of_nat n) 512 buf (of_nat (b + c)) (of_nat (Suc k)) (out + of_nat (b + c))
        (s\<lparr>io_log := log1, mem := ?m2\<rparr>) = Some (0, s\<lparr>io_log := log', mem := m'\<rparr>)"
      "load_bytes m' out n = disk_bytes img pos n" "same_outside ?R ?m2 m'" by auto
    have "same_outside ?R (mem s) m'" using same_outside_trans [OF f r(3)] by simp
    then show ?thesis using t r(1,2) by (intro exI [of _ log'] exI [of _ m']) simp
  qed
qed

section \<open>Effects\<close>

text \<open>\<open>keeps R s s'\<close>: only port operations were logged and memory was written, in \<open>R\<close> and in the heap's private
  memory; the heap has the same live blocks.\<close>

abbreviation keeps :: "u32 set \<Rightarrow> 'a kheap_state_scheme \<Rightarrow> 'a kheap_state_scheme \<Rightarrow> bool" where
  "keeps R s s' \<equiv> grows {} R s s'"

lemma grows_disk:
  fixes s :: "'a disk_state_scheme"
  assumes "grows B R s s'"
  shows "device s' = device s" and "primary_disk s' = primary_disk s"
proof -
  have e: "s' = s\<lparr>io_log := io_log s', mem := mem s'\<rparr>" using assms by (simp add: grows_def)
  show "device s' = device s" "primary_disk s' = primary_disk s" by (subst e, simp)+
qed

lemma keepsD:
  fixes s :: "'a kheap_state_scheme"
  assumes "keeps R s s'"
  shows "kheap_live s' = kheap_live s" and "heap_private s' = heap_private s"
    and "kheap_inv s \<Longrightarrow> kheap_cap s n \<Longrightarrow> kheap_cap s' n"
proof -
  show k: "kheap_live s' = kheap_live s" using growsD(2) [OF assms] by simp
  then show "heap_private s' = heap_private s" by (intro heap_private_cong)
  show "kheap_inv s \<Longrightarrow> kheap_cap s n \<Longrightarrow> kheap_cap s' n" using kheap_cap_live [OF _ growsD(1) [OF assms]] k by metis
qed

section \<open>Reading\<close>

definition disk_ready :: "image \<Rightarrow> 'a disk_state_scheme \<Rightarrow> bool" where
  "disk_ready img s \<longleftrightarrow> kheap_inv s \<and> ata_drive (device s) img \<and> primary_disk s \<noteq> 0
     \<and> load32 (mem s) (disk_sector_size (primary_disk s)) = 512
     \<and> region (primary_disk s) 20 \<inter> (kheap_meta \<union> heap_area) = {}"

definition stream_at :: "'a disk_state_scheme \<Rightarrow> u32 \<Rightarrow> nat \<Rightarrow> bool" where
  "stream_at s st pos \<longleftrightarrow> load32 (mem s) (stream_pos st) = of_nat pos \<and> load32 (mem s) (stream_d st) = primary_disk s
     \<and> (\<exists>k \<ge> 8. (st, k) \<in> kheap_live s)"

lemma stream_block:
  assumes "kheap_inv s" and "\<exists>k \<ge> 8. (st, k) \<in> kheap_live s"
  shows "region st 8 \<inter> heap_private s = {}" and "region st 8 \<subseteq> heap_area" and "region st 8 \<inter> kheap_meta = {}"
proof -
  from assms(2) obtain k where k: "(st, k) \<in> kheap_live s" "8 \<le> k" by blast
  from live_not_private [OF assms(1) k(1)] live_in_heap [OF assms(1) k(1)] kheap_live_off_meta(1) [OF assms(1) k(1)]
  show "region st 8 \<inter> heap_private s = {}" "region st 8 \<subseteq> heap_area" "region st 8 \<inter> kheap_meta = {}"
    using region_mono [OF k(2), of st] unfolding heap_area_def by blast+
qed

lemma stream_fields_in: "region (stream_pos st) 4 \<subseteq> region st 8" "region (stream_d st) 4 \<subseteq> region st 8"
  using region_mono [of 4 8 st] region_shift [of 4 4 8 st] by (simp_all add: disk_fields)

lemma stream_read_ok:
  fixes s :: "'a disk_state_scheme"
  assumes "disk_ready img s" and "kheap_cap s 1" and "stream_at s st pos" and "pos + n < 2 ^ 31"
    and "region out n \<inter> (heap_private s \<union> region st 8) = {}"
  shows "\<exists>s'. stream_read st out (of_nat n) s = Some (0, s') \<and> load_bytes (mem s') out n = disk_bytes img pos n
    \<and> load32 (mem s') (stream_pos st) = of_nat (pos + n) \<and> keeps (region out n \<union> region st 4) s s'"
proof -
  have i: "kheap_inv s" "ata_drive (device s) img" "load32 (mem s) (disk_sector_size (primary_disk s)) = 512"
    using assms(1) by (simp_all add: disk_ready_def)
  have a: "load32 (mem s) st = of_nat pos" "load32 (mem s) (st + 4) = primary_disk s" "\<exists>k \<ge> 8. (st, k) \<in> kheap_live s"
    using assms(3) by (simp_all add: stream_at_def disk_fields)
  have "blocks_for 512 = 1" by (simp add: blocks_for_def)
  then have room: "kheap_room s 512" using kheap_cap_room [OF assms(2)] by simp
  obtain p m1 where z: "kzalloc 512 s = Some (p, s\<lparr>mem := m1\<rparr>)" "region p 512 \<subseteq> heap_private s"
      "region p 512 \<inter> kheap_meta = {}" "same_outside (heap_private s) (mem s) m1"
    and rel: "\<And>t :: 'a disk_state_scheme. \<And>R. same_outside (region p 512 \<union> R) m1 (mem t) \<Longrightarrow> R \<inter> kheap_meta = {}
      \<Longrightarrow> kernel_heap t = kernel_heap s \<Longrightarrow> strategy t = strategy s \<Longrightarrow>
      \<exists>m3. kfree p t = Some (t\<lparr>mem := m3\<rparr>) \<and> kheap_inv (t\<lparr>mem := m3\<rparr>) \<and> kheap_live (t\<lparr>mem := m3\<rparr>) = kheap_live s
        \<and> same_outside kheap_meta (mem t) m3"
    by (rule scratch [OF i(1) room, of 512]) (simp, metis)
  note st = stream_block [OF i(1) a(3)]
  have in8: "region st 4 \<subseteq> region st 8" "region (st + 4) 4 \<subseteq> region st 8" using stream_fields_in [of st] by (simp_all add: disk_fields)
  have "region st 4 \<inter> heap_private s = {}" "region (st + 4) 4 \<inter> heap_private s = {}" using st(1) in8 by blast+
  note l1 = load32_frame [OF z(4) this(1), unfolded a(1)] load32_frame [OF z(4) this(2), unfolded a(2)]
  have d: "region p 512 \<inter> region out n = {}" "region st 8 \<inter> (region p 512 \<union> region out n) = {}" using z(2) assms(5) st(1) by blast+
  let ?s1 = "s\<lparr>mem := m1\<rparr>" and ?R = "region out n \<union> region st 4"
  obtain log' m2 where r: "stream_read_loop st (of_nat n) 512 p 0 0 out ?s1 = Some (0, s\<lparr>io_log := log', mem := m2\<rparr>)"
    "load_bytes m2 out n = disk_bytes img pos n" "same_outside (region p 512 \<union> region out n) m1 m2"
    using stream_read_loop_ok [of ?s1 img st pos p out n 0 0] i(2) l1 d assms(4) by (auto simp: log_then_mem)
  have "region st 4 \<inter> (region p 512 \<union> region out n) = {}" using d(2) in8(1) by blast
  note p2 = load32_frame [OF r(3) this, unfolded l1(1)]
  define m3 where "m3 = store32 m2 st (of_nat pos + of_nat n)"
  have f3: "same_outside (region p 512 \<union> ?R) m1 m3"
    unfolding m3_def using same_outside_trans [OF r(3) store32_outside] by (rule same_outside_mono) auto
  have R: "?R \<inter> kheap_meta = {}" using assms(5) st(3) in8(1) unfolding heap_private_def by blast
  obtain m4 where k: "kfree p (s\<lparr>io_log := log', mem := m3\<rparr>) = Some (s\<lparr>io_log := log', mem := m4\<rparr>)"
    "kheap_inv (s\<lparr>io_log := log', mem := m4\<rparr>)" "kheap_live (s\<lparr>io_log := log', mem := m4\<rparr>) = kheap_live s" "same_outside kheap_meta m3 m4"
    using rel [of ?R "s\<lparr>io_log := log', mem := m3\<rparr>"] f3 R by auto
  have "stream_read st out (of_nat n) s = Some (0, s\<lparr>io_log := log', mem := m4\<rparr>)"
    using z(1) r(1) k(1) p2 by (simp add: stream_read_def disk_fields a(2) i(3) [unfolded disk_fields] m3_def Let_def)
  moreover have "load_bytes m4 out n = disk_bytes img pos n"
  proof -
    have "region out n \<inter> (region st 4 \<union> kheap_meta) = {}" using assms(5) in8(1) unfolding heap_private_def by blast
    then show ?thesis using load_bytes_frame [OF same_outside_trans [OF store32_outside k(4) [unfolded m3_def]]] r(2) assms(4) by simp
  qed
  moreover have "load32 m4 (stream_pos st) = of_nat (pos + n)"
  proof -
    have "region st 4 \<inter> kheap_meta = {}" using st(3) in8(1) by blast
    from load32_frame [OF k(4) this] show ?thesis by (simp add: m3_def disk_fields)
  qed
  moreover have "same_outside (?R \<union> heap_private s) (mem s) m4"
    using same_outside_trans [OF same_outside_trans [OF z(4) f3] k(4)] z(2)
    by (rule_tac same_outside_mono) (auto simp: heap_private_def)
  ultimately show ?thesis using k(2,3) by (intro exI [of _ "s\<lparr>io_log := log', mem := m4\<rparr>"]) (simp add: grows_def)
qed

lemma disk_ready_keeps:
  fixes s :: "'a disk_state_scheme"
  assumes "disk_ready img s" and "grows B R s s'" and "R \<inter> region (primary_disk s) 20 = {}"
  shows "disk_ready img s'"
proof -
  note k = growsD(1) [OF assms(2)] grows_disk [OF assms(2)]
  have "region (disk_sector_size (primary_disk s)) 4 \<subseteq> region (primary_disk s) 20"
    using region_shift [of 4 4 20 "primary_disk s"] by (simp add: disk_fields)
  moreover have "region (primary_disk s) 20 \<inter> heap_private s = {}"
    using assms(1) unfolding disk_ready_def heap_private_def by blast
  ultimately have "region (disk_sector_size (primary_disk s)) 4 \<inter> (R \<union> heap_private s) = {}" using assms(3) by blast
  from grows_load32 [OF assms(2) this] show ?thesis using assms(1) k by (simp add: disk_ready_def)
qed

lemma stream_at_keeps:
  fixes s :: "'a disk_state_scheme"
  assumes "stream_at s st pos" and "kheap_inv s" and "grows B R s s'" and "R \<inter> region st 8 = {}"
  shows "stream_at s' st pos"
proof -
  have b: "\<exists>k \<ge> 8. (st, k) \<in> kheap_live s" using assms(1) by (simp add: stream_at_def)
  have "region (stream_pos st) 4 \<inter> (R \<union> heap_private s) = {}" "region (stream_d st) 4 \<inter> (R \<union> heap_private s) = {}"
    using stream_block(1) [OF assms(2) b] assms(4) stream_fields_in [of st] by blast+
  from grows_load32 [OF assms(3) this(1)] grows_load32 [OF assms(3) this(2)] growsD(2) [OF assms(3)] grows_disk(2) [OF assms(3)] assms(1)
  show ?thesis by (auto simp: stream_at_def)
qed

text \<open>After a read the stream stands behind the bytes it has read.\<close>

lemma stream_read_moves:
  fixes s :: "'a disk_state_scheme"
  assumes "kheap_inv s" and "stream_at s st pos" and "load32 (mem s') (stream_pos st) = of_nat pos'"
    and "keeps (region out n \<union> region st 4) s s'" and "region out n \<inter> region st 8 = {}"
  shows "stream_at s' st pos'"
proof -
  have b: "\<exists>k \<ge> 8. (st, k) \<in> kheap_live s" using assms(2) by (simp add: stream_at_def)
  have "region (stream_d st) 4 \<inter> region st 4 = {}" using field_regions [of 0 4 st] by (auto simp: disk_fields)
  then have "region (stream_d st) 4 \<inter> (region out n \<union> region st 4 \<union> heap_private s) = {}"
    using stream_block(1) [OF assms(1) b] assms(5) stream_fields_in(2) [of st] by blast
  from grows_load32 [OF assms(4) this] keepsD(1) [OF assms(4)] grows_disk(2) [OF assms(4)] assms(2,3) show ?thesis by (simp add: stream_at_def)
qed

lemma stream_seek_ok:
  fixes s :: "'a disk_state_scheme"
  assumes "kheap_inv s" and "stream_at s st pos"
  shows "\<exists>s'. stream_seek st (of_nat pos') s = (0, s') \<and> keeps (region st 4) s s' \<and> stream_at s' st pos'"
proof -
  have b: "\<exists>k \<ge> 8. (st, k) \<in> kheap_live s" using assms(2) by (simp add: stream_at_def)
  have f: "same_outside (region st 4) (mem s) (store32 (mem s) st (of_nat pos'))" by (rule store32_outside)
  have "region st 4 \<inter> kheap_meta = {}" using stream_block(3) [OF assms(1) b] stream_fields_in(1) [of st] by (auto simp: disk_fields)
  note k = grows_store(1) [OF assms(1) f this]
  let ?s = "s\<lparr>mem := store32 (mem s) st (of_nat pos')\<rparr>"
  have "keeps (region 0 0 \<union> region st 4) s ?s" using k by simp
  from stream_read_moves [OF assms(1,2) _ this, of pos'] k show ?thesis by (simp add: stream_seek_def disk_fields)
qed

lemma new_stream_ok:
  fixes s :: "'a disk_state_scheme"
  assumes "disk_ready img s" and "kheap_cap s (Suc c)"
  shows "\<exists>st k m. new_stream 0 s = Some (st, s\<lparr>mem := m\<rparr>) \<and> disk_ready img (s\<lparr>mem := m\<rparr>) \<and> stream_at (s\<lparr>mem := m\<rparr>) st 0
    \<and> kheap_live (s\<lparr>mem := m\<rparr>) = insert (st, k) (kheap_live s) \<and> (st, k) \<notin> kheap_live s \<and> kheap_cap (s\<lparr>mem := m\<rparr>) c
    \<and> same_outside (heap_private s) (mem s) m"
proof -
  have i: "kheap_inv s" "primary_disk s \<noteq> 0" using assms(1) by (simp_all add: disk_ready_def)
  have need: "blocks_for 8 = 1" by (simp add: blocks_for_def)
  obtain p k m1 where a: "kzalloc 8 s = Some (p, s\<lparr>mem := m1\<rparr>)" "unat (8 :: u32) \<le> k"
    and apart: "\<And>q j. (q, j) \<in> kheap_live s \<Longrightarrow> region p k \<inter> region q j = {}"
    and w: "\<And>m2. same_outside (region p k) m1 m2 \<Longrightarrow> kheap_inv (s\<lparr>mem := m2\<rparr>)
      \<and> kheap_live (s\<lparr>mem := m2\<rparr>) = insert (p, k) (kheap_live s) \<and> kheap_cap (s\<lparr>mem := m2\<rparr>) (Suc c - blocks_for 8)
      \<and> same_outside (region p k \<union> kheap_meta) (mem s) m2"
    by (rule kz.alloc_fill [OF i(1) assms(2), of 8]) (simp add: need, metis)
  have k: "8 \<le> k" using a(2) by simp
  define m where "m = store32 (store32 m1 p 0) (p + 4) (primary_disk s)"
  have "same_outside (region p 4 \<union> region (p + 4) 4) m1 m"
    unfolding m_def by (rule same_outside_trans [OF store32_outside store32_outside])
  then have f: "same_outside (region p k) m1 m"
    by (rule same_outside_mono) (use stream_fields_in [of p] region_mono [OF k, of p] in \<open>auto simp: disk_fields\<close>)
  from w [OF f] have m: "kheap_inv (s\<lparr>mem := m\<rparr>)" "kheap_live (s\<lparr>mem := m\<rparr>) = insert (p, k) (kheap_live s)"
    "kheap_cap (s\<lparr>mem := m\<rparr>) c" "same_outside (region p k \<union> kheap_meta) (mem s) m" by (simp_all add: need)
  note pr = alloc_private [OF i(1) m(1,2) apart]
  have fr: "same_outside (heap_private s) (mem s) m"
    using m(4) by (rule same_outside_mono) (use pr(1) in \<open>auto simp: heap_private_def\<close>)
  have "region (disk_sector_size (primary_disk s)) 4 \<subseteq> region (primary_disk s) 20"
    using region_shift [of 4 4 20 "primary_disk s"] by (simp add: disk_fields)
  then have "region (disk_sector_size (primary_disk s)) 4 \<inter> heap_private s = {}"
    using assms(1) unfolding disk_ready_def heap_private_def by blast
  from load32_frame [OF fr this] have "disk_ready img (s\<lparr>mem := m\<rparr>)" using assms(1) m(1) by (simp add: disk_ready_def)
  moreover have "stream_at (s\<lparr>mem := m\<rparr>) p 0"
    using m(2) k by (auto simp: stream_at_def disk_fields m_def field_other_base)
  moreover have "new_stream 0 s = Some (p, s\<lparr>mem := m\<rparr>)"
    using a(1) i(2) by (simp add: new_stream_def get_disk_def kernel_consts disk_fields m_def)
  moreover have "(p, k) \<notin> kheap_live s" using apart [of p k] k base_mem_region [of p k] by fastforce
  ultimately show ?thesis using m(2,3) fr by blast
qed

section \<open>Properties\<close>

text \<open>C25: a stream is a cursor over the disk: seeking to \<open>pos'\<close> and reading \<open>n\<close> bytes returns 0 both times and puts
  the bytes of the disk from \<open>pos'\<close> on into the buffer, across any number of sectors; the stream then stands at
  \<open>pos' + n\<close>. The sector buffer is given back, so the same blocks are live, and nothing in use changes but the
  output and the position.\<close>

theorem stream_seek_read:
  fixes s :: "'a disk_state_scheme"
  assumes "disk_ready img s" and "kheap_cap s 1" and "stream_at s st pos" and "pos' + n < 2 ^ 31"
    and "region out n \<inter> (heap_private s \<union> region st 8) = {}"
  shows "\<exists>s1 s2. stream_seek st (of_nat pos') s = (0, s1) \<and> stream_read st out (of_nat n) s1 = Some (0, s2)
    \<and> load_bytes (mem s2) out n = disk_bytes img pos' n \<and> stream_at s2 st (pos' + n)
    \<and> kheap_inv s2 \<and> kheap_live s2 = kheap_live s
    \<and> same_outside (region out n \<union> region st 4 \<union> heap_private s) (mem s) (mem s2)"
proof -
  have i: "kheap_inv s" "\<exists>k \<ge> 8. (st, k) \<in> kheap_live s" using assms(1,3) by (simp_all add: disk_ready_def stream_at_def)
  obtain s1 where 1: "stream_seek st (of_nat pos') s = (0, s1)" "keeps (region st 4) s s1" "stream_at s1 st pos'"
    using stream_seek_ok [OF i(1) assms(3)] by blast
  note k = growsD(1) [OF 1(2)] keepsD [OF 1(2)]
  have "region st 4 \<inter> region (primary_disk s) 20 = {}"
    using stream_block(2) [OF i] stream_fields_in(1) [of st] assms(1) unfolding disk_ready_def by (auto simp: disk_fields)
  note rd = disk_ready_keeps [OF assms(1) 1(2) this] and cp = k(4) [OF i(1) assms(2)]
  obtain s2 where 2: "stream_read st out (of_nat n) s1 = Some (0, s2)" "load_bytes (mem s2) out n = disk_bytes img pos' n"
    "load32 (mem s2) (stream_pos st) = of_nat (pos' + n)" "keeps (region out n \<union> region st 4) s1 s2"
    using stream_read_ok [OF rd cp 1(3) assms(4), of out] assms(5) k(3) by auto
  have "stream_at s2 st (pos' + n)"
    using stream_read_moves [OF k(1) 1(3) 2(3,4)] assms(5) by blast
  moreover have "keeps (region out n \<union> region st 4) s s2"
    using grows_trans [OF grows_mono [OF 1(2)] 2(4), of "region out n \<union> region st 4"] by auto
  ultimately show ?thesis using 1(1) 2(1,2) growsD(1,4) keepsD(1) by blast
qed

definition stream_mem :: mem where
  "stream_mem = store32 (store32 zero_mem 0x300004 512) 0x01000004 0x300000"

lemma sample_stream:
  shows "disk_ready img (sample_disk 1 stream_mem img)" and "stream_at (sample_disk 1 stream_mem img) 0x01000000 0"
    and "0x5000 \<notin> heap_private (sample_disk 1 stream_mem img)"
proof -
  have t: "taken_mem 1 stream_mem a = stream_mem a" if "unat a \<ge> 0x100000" for a
    using that by (subst taken_mem_outside) (simp_all add: region_interval)
  have "load32 (taken_mem 1 stream_mem) 0x300004 = load32 stream_mem 0x300004" "load32 (taken_mem 1 stream_mem) 0x01000000 = load32 stream_mem 0x01000000"
    "load32 (taken_mem 1 stream_mem) 0x01000004 = load32 stream_mem 0x01000004" by (rule load32_cong; rule t; simp)+
  then have m: "load32 (taken_mem 1 stream_mem) 0x300004 = 512" "load32 (taken_mem 1 stream_mem) 0x01000000 = 0"
    "load32 (taken_mem 1 stream_mem) 0x01000004 = 0x300000" by (simp_all add: stream_mem_def load32_def store32_def)
  have off: "region 0x300000 20 \<inter> (kheap_meta \<union> heap_area) = {}"
    by (auto simp: kheap_meta_def table_region_def heap_area_def region_interval)
  show "disk_ready img (sample_disk 1 stream_mem img)"
    using sample_disk_heap(1) [of 1 stream_mem img] off m(1) sample_drive_ok [of img]
    by (simp add: disk_ready_def disk_fields) (simp add: sample_disk_def)
  show "stream_at (sample_disk 1 stream_mem img) 0x01000000 0"
  proof -
    have "(0x01000000, 4096) \<in> kheap_live (sample_disk 1 stream_mem img)" using sample_disk_heap(2) [of 1 0 stream_mem img] by simp
    then have "\<exists>k \<ge> 8. (0x01000000, k) \<in> kheap_live (sample_disk 1 stream_mem img)" by (intro exI [of _ 4096]) simp
    then show ?thesis using m(2,3) by (simp add: stream_at_def disk_fields) (simp add: sample_disk_def)
  qed
  show "0x5000 \<notin> heap_private (sample_disk 1 stream_mem img)"
    by (simp add: heap_private_def kheap_meta_def table_region_def heap_area_def region_interval)
qed

theorem stream_seek_read_witness:
  "\<exists>s1 s2. stream_seek 0x01000000 511 (sample_disk 1 stream_mem (\<lambda>i. of_nat (i div 512))) = (0, s1)
    \<and> stream_read 0x01000000 0x5000 1 s1 = Some (0, s2) \<and> load_bytes (mem s2) 0x5000 1 = [0]"
proof -
  let ?img = "\<lambda>i. of_nat (i div 512) :: u8"
  note w = sample_stream [of ?img]
  have c: "kheap_cap (sample_disk 1 stream_mem ?img) 1" by (rule sample_disk_heap(3)) simp_all
  have "region 0x5000 1 = {0x5000}" by (auto simp: mem_region unat_eq_0)
  moreover have "0x5000 \<notin> region 0x01000000 8" by (simp add: region_interval)
  ultimately have "region 0x5000 1 \<inter> (heap_private (sample_disk 1 stream_mem ?img) \<union> region 0x01000000 8) = {}" using w(3) by auto
  from stream_seek_read [OF w(1) c w(2), of 511 1, OF _ this] show ?thesis by (auto simp: disk_bytes_def)
qed

end
