(* ===== verification/File_Types.thy ===== *)
theory File_Types
  imports Disk
begin

text \<open>
  \<^verbatim>\<open>kernel/fs/file.h\<close>: the values and structures that the virtual file system and its drivers share. The modes
  are unsigned integers; a \<^verbatim>\<open>filesystem\<close> is six function pointers and a name, a \<^verbatim>\<open>file_descriptor\<close> four words.
\<close>

definition SEEK_SET :: u32 where
  [kernel_consts]: "SEEK_SET = 0"

definition SEEK_CURRENT :: u32 where
  [kernel_consts]: "SEEK_CURRENT = 1"

definition SEEK_END :: u32 where
  [kernel_consts]: "SEEK_END = 2"

definition FILE_MODE_READ :: u32 where
  [kernel_consts]: "FILE_MODE_READ = 0"

definition FILE_MODE_WRITE :: u32 where
  [kernel_consts]: "FILE_MODE_WRITE = 1"

definition FILE_MODE_APPEND :: u32 where
  [kernel_consts]: "FILE_MODE_APPEND = 2"

definition FILE_MODE_INVALID :: u32 where
  [kernel_consts]: "FILE_MODE_INVALID = 3"

definition FILE_STAT_READ_ONLY :: u32 where
  [kernel_consts]: "FILE_STAT_READ_ONLY = 1"

definition stat_flags :: "u32 \<Rightarrow> u32" where
  "stat_flags stat = stat"

definition stat_filesize :: "u32 \<Rightarrow> u32" where
  "stat_filesize stat = stat + 4"

definition fs_open :: "u32 \<Rightarrow> u32" where
  "fs_open fs = fs"

definition fs_read :: "u32 \<Rightarrow> u32" where
  "fs_read fs = fs + 4"

definition fs_seek :: "u32 \<Rightarrow> u32" where
  "fs_seek fs = fs + 8"

definition fs_stat :: "u32 \<Rightarrow> u32" where
  "fs_stat fs = fs + 12"

definition fs_close :: "u32 \<Rightarrow> u32" where
  "fs_close fs = fs + 16"

definition fs_resolve :: "u32 \<Rightarrow> u32" where
  "fs_resolve fs = fs + 20"

definition fs_name :: "u32 \<Rightarrow> u32" where
  "fs_name fs = fs + 24"

definition descriptor_index :: "u32 \<Rightarrow> u32" where
  "descriptor_index desc = desc"

definition descriptor_fs :: "u32 \<Rightarrow> u32" where
  "descriptor_fs desc = desc + 4"

definition descriptor_private_data :: "u32 \<Rightarrow> u32" where
  "descriptor_private_data desc = desc + 8"

definition descriptor_d :: "u32 \<Rightarrow> u32" where
  "descriptor_d desc = desc + 12"

definition sizeof_file_descriptor :: u32 where
  [kernel_consts]: "sizeof_file_descriptor = 16"

text \<open>\<^verbatim>\<open>ISERR\<close> of \<^verbatim>\<open>kernel.h\<close>; \<^verbatim>\<open>ERROR\<close> and \<^verbatim>\<open>ERROR_I\<close> are casts between a pointer and an \<^verbatim>\<open>int\<close>.\<close>

definition ISERR :: "u32 \<Rightarrow> bool" where
  "ISERR v \<longleftrightarrow> v <s 0"

lemmas file_fields = stat_flags_def stat_filesize_def fs_open_def fs_read_def fs_seek_def fs_stat_def fs_close_def
  fs_resolve_def fs_name_def descriptor_index_def descriptor_fs_def descriptor_private_data_def descriptor_d_def

end
