(* ===== verification/Path_Parser.thy ===== *)
theory Path_Parser
  imports Heap_Client Libc_Stdlib
begin

text \<open>
  \<^verbatim>\<open>kernel/fs/path_parser.cpp\<close>: parsing \<^verbatim>\<open>0:/a/b/c\<close> into a \<^verbatim>\<open>path_root\<close> with a linked list of \<^verbatim>\<open>path_part\<close>s,
  all in heap blocks, and releasing it again.

  The specification is \<open>path_parts\<close>, the components between the slashes: \<^verbatim>\<open>parse\<close> builds exactly their list
  when none is empty, rejects what is not of the form digit, colon, slash without touching memory, and
  \<^verbatim>\<open>free\<close> gives every block back. An empty component is never passed: the parser stays where it is.
\<close>

section \<open>Definitions\<close>

definition MAX_PATH_LENGTH :: u32 where
  [kernel_consts]: "MAX_PATH_LENGTH = 4096"

definition part_name :: "u32 \<Rightarrow> u32" where
  "part_name part = part"

definition part_next :: "u32 \<Rightarrow> u32" where
  "part_next part = part + 4"

definition sizeof_path_part :: u32 where
  [kernel_consts]: "sizeof_path_part = 8"

definition root_drive_number :: "u32 \<Rightarrow> u32" where
  "root_drive_number root = root"

definition root_path :: "u32 \<Rightarrow> u32" where
  "root_path root = root + 4"

definition sizeof_path_root :: u32 where
  [kernel_consts]: "sizeof_path_root = 8"

lemmas path_fields = part_name_def part_next_def root_drive_number_def root_path_def

definition validate_path :: "mem \<Rightarrow> u32 \<Rightarrow> bool option" where
  "validate_path m path = do {
     len \<leftarrow> strlen m path;
     Some (if len \<ge> 3 then
       (let drive_num = m path; colon = m (path + 1); slash = m (path + 2)
        in isdigit (char_to_int drive_num) \<noteq> 0 \<and> colon = 0x3A \<and> slash = 0x2F)
       else False)
   }"

definition get_drive :: "u32 \<Rightarrow> 'a kheap_state_scheme \<Rightarrow> (u32 \<times> 'a kheap_state_scheme) option" where
  "get_drive path s = do {
     (drive_str, s) \<leftarrow> kzalloc 2 s;
     let s = s\<lparr>mem := (mem s)(drive_str := mem s path)\<rparr>;
     drive \<leftarrow> atoi (mem s) drive_str;
     s \<leftarrow> kfree drive_str s;
     Some (drive, s)
   }"

definition create_root :: "u32 \<Rightarrow> 'a kheap_state_scheme \<Rightarrow> (u32 \<times> 'a kheap_state_scheme) option" where
  "create_root drive_number s = do {
     (root, s) \<leftarrow> kzalloc sizeof_path_root s;
     let s = s\<lparr>mem := store32 (mem s) (root_drive_number root) drive_number\<rparr>;
     let s = s\<lparr>mem := store32 (mem s) (root_path root) 0\<rparr>;
     Some (root, s)
   }"

text \<open>The pointer \<^verbatim>\<open>*path\<close> is passed in and returned. The first loop advances it to the end of the part and counts.\<close>

partial_function (option) part_length_loop :: "mem \<Rightarrow> u32 \<Rightarrow> u32 \<Rightarrow> (u32 \<times> u32) option" where
  "part_length_loop m path idx =
     (if m path \<noteq> 0x2F \<and> m path \<noteq> 0 then part_length_loop m (path + 1) (idx + 1) else Some (path, idx))"

partial_function (option) part_copy_loop :: "mem \<Rightarrow> u32 \<Rightarrow> u32 \<Rightarrow> u32 \<Rightarrow> (mem \<times> u32) option" where
  "part_copy_loop m path_part_str idx path_ptr =
     (if m path_ptr \<noteq> 0 \<and> m path_ptr \<noteq> 0x2F
      then part_copy_loop (m(path_part_str + idx := m path_ptr)) path_part_str (idx + 1) (path_ptr + 1)
      else Some (m, path_ptr))"

definition get_path_part_str :: "u32 \<Rightarrow> 'a kheap_state_scheme \<Rightarrow> (u32 \<times> u32 \<times> 'a kheap_state_scheme) option" where
  "get_path_part_str path s = do {
     let path_ptr = path;
     (path, idx) \<leftarrow> part_length_loop (mem s) path 0;
     if idx = 0 then Some (0, path, s)
     else do {
       (path_part_str, s) \<leftarrow> kzalloc (idx + 1) s;
       (m, path_ptr) \<leftarrow> part_copy_loop (mem s) path_part_str 0 path_ptr;
       let path_ptr = (if m path_ptr = 0x2F then path_ptr + 1 else path_ptr);
       Some (path_part_str, path_ptr, s\<lparr>mem := m\<rparr>)
     }
   }"

definition parse_path_part :: "u32 \<Rightarrow> u32 \<Rightarrow> 'a kheap_state_scheme \<Rightarrow> (u32 \<times> u32 \<times> 'a kheap_state_scheme) option" where
  "parse_path_part previous_part path s = do {
     (path_part_str, path, s) \<leftarrow> get_path_part_str path s;
     (current_part, s) \<leftarrow> kzalloc sizeof_path_part s;
     let s = s\<lparr>mem := store32 (mem s) (part_name current_part) path_part_str\<rparr>;
     let s = s\<lparr>mem := store32 (mem s) (part_next current_part) 0\<rparr>;
     let s = (if previous_part \<noteq> 0 then s\<lparr>mem := store32 (mem s) (part_next previous_part) current_part\<rparr> else s);
     Some (current_part, path, s)
   }"

partial_function (option) parse_loop :: "u32 \<Rightarrow> u32 \<Rightarrow> 'a kheap_state_scheme \<Rightarrow> 'a kheap_state_scheme option" where
  "parse_loop part path s =
     (if mem s path \<noteq> 0 then
        Option.bind (parse_path_part part path s) (\<lambda>(part, path, s). parse_loop part path s)
      else Some s)"

definition parse :: "u32 \<Rightarrow> 'a kheap_state_scheme \<Rightarrow> (u32 \<times> 'a kheap_state_scheme) option" where
  "parse path s = do {
     len \<leftarrow> strlen (mem s) path;
     if len > MAX_PATH_LENGTH then Some (0, s)
     else do {
       valid \<leftarrow> validate_path (mem s) path;
       if \<not> valid then Some (0, s)
       else do {
         (drive_number, s) \<leftarrow> get_drive path s;
         if drive_number <s 0 then Some (0, s)
         else do {
           (root, s) \<leftarrow> create_root drive_number s;
           let path = path + 3;
           (part, tmp_path, s) \<leftarrow> parse_path_part 0 path s;
           let s = s\<lparr>mem := store32 (mem s) (root_path root) part\<rparr>;
           s \<leftarrow> parse_loop part tmp_path s;
           Some (root, s)
         }
       }
     }
   }"

partial_function (option) free_parts :: "u32 \<Rightarrow> 'a kheap_state_scheme \<Rightarrow> 'a kheap_state_scheme option" where
  "free_parts part s =
     (if part \<noteq> 0 then
        (let nxt = load32 (mem s) (part_next part) in
         Option.bind (kfree (load32 (mem s) (part_name part)) s) (\<lambda>s.
         Option.bind (kfree part s) (\<lambda>s. free_parts nxt s)))
      else Some s)"

definition path_free :: "u32 \<Rightarrow> 'a kheap_state_scheme \<Rightarrow> 'a kheap_state_scheme option" where
  "path_free root s = do {
     s \<leftarrow> free_parts (load32 (mem s) (root_path root)) s;
     kfree root s
   }"

section \<open>Components\<close>

definition first_part :: "u8 list \<Rightarrow> u8 list" where
  "first_part cs = takeWhile (\<lambda>c. c \<noteq> 0x2F) cs"

definition after_part :: "u8 list \<Rightarrow> u8 list" where
  "after_part cs = drop (Suc (length (first_part cs))) cs"

function path_parts :: "u8 list \<Rightarrow> u8 list list" where
  "path_parts cs = (if cs = [] then [] else first_part cs # path_parts (after_part cs))"
  by pat_completeness auto
termination
  by (relation "measure length") (auto simp: after_part_def)

declare path_parts.simps [simp del]

lemma first_part_le: "length (first_part cs) \<le> length cs"
  by (simp add: first_part_def length_takeWhile_le)

lemma first_part_nth: "i < length (first_part cs) \<Longrightarrow> first_part cs ! i = cs ! i \<and> cs ! i \<noteq> 0x2F"
  using nth_mem [of i "first_part cs"] set_takeWhileD [of _ "\<lambda>c. c \<noteq> 0x2F" cs]
  by (metis first_part_def takeWhile_nth)

lemma first_part_take: "first_part cs = take (length (first_part cs)) cs"
  by (simp add: first_part_def takeWhile_eq_take [symmetric])

lemma first_part_end: "length (first_part cs) < length cs \<Longrightarrow> cs ! length (first_part cs) = 0x2F"
  using nth_length_takeWhile [of "\<lambda>c. c \<noteq> 0x2F" cs] by (simp add: first_part_def)

lemma cstring_drop: "cstring m p cs \<Longrightarrow> k \<le> length cs \<Longrightarrow> cstring m (p + of_nat k) (drop k cs)"
proof (induction k arbitrary: p cs)
  case (Suc k)
  then obtain c ds where cs: "cs = c # ds" by (cases cs) auto
  with Suc.prems have "cstring m (p + 1) ds" by (simp add: cstring_Cons)
  from Suc.IH [OF this, of] show ?case using Suc.prems cs by (simp add: ac_simps)
qed simp

text \<open>What the parser finds behind a part, and where the next one begins.\<close>

lemma part_end_char:
  assumes "cstring m p cs" and "n = length (first_part cs)"
  shows "m (p + of_nat n) = (if n < length cs then 0x2F else 0)"
  using first_part_end [of cs] cstring_nth [OF assms(1), of n] cstring_end [OF assms(1)] first_part_le [of cs] assms(2)
  by (cases "n < length cs") (auto simp: order.order_iff_strict)

lemma after_part_string:
  assumes "cstring m p cs" and "n = length (first_part cs)"
  shows "cstring m (p + of_nat n + (if n < length cs then 1 else 0)) (after_part cs)"
    and "region (p + of_nat n + (if n < length cs then 1 else 0)) (Suc (length (after_part cs))) \<subseteq> region p (Suc (length cs))"
proof -
  let ?k = "if n < length cs then Suc n else n"
  have k: "?k \<le> length cs" "after_part cs = drop ?k cs" "p + of_nat n + (if n < length cs then 1 else 0) = p + of_nat ?k"
    using first_part_le [of cs] assms(2) by (auto simp: after_part_def)
  show "cstring m (p + of_nat n + (if n < length cs then 1 else 0)) (after_part cs)"
    unfolding k(2,3) by (rule cstring_drop [OF assms(1) k(1)])
  show "region (p + of_nat n + (if n < length cs then 1 else 0)) (Suc (length (after_part cs))) \<subseteq> region p (Suc (length cs))"
    unfolding k(3) using k(1) by (intro region_shift) (simp add: k(2))
qed

lemma part_length_ok:
  assumes "cstring m p cs" and "n = length (first_part cs)" and "i \<le> n"
  shows "part_length_loop m (p + of_nat i) (of_nat i) = Some (p + of_nat n, of_nat n)"
  using assms(3)
proof (induction i rule: inc_induct)
  case base
  then show ?case using part_end_char [OF assms(1,2)] by (subst part_length_loop.simps) auto
next
  case (step i)
  have "i < length cs" "cs ! i \<noteq> 0x2F" using step(2) first_part_nth [of i cs] first_part_le [of cs] assms(2) by auto
  then have "m (p + of_nat i) \<noteq> 0x2F" "m (p + of_nat i) \<noteq> 0"
    using cstring_nth [OF assms(1)] cstring_nonzero [OF assms(1)] by auto
  then show ?case using step(3) by (subst part_length_loop.simps) (simp add: ac_simps)
qed

lemma part_copy_ok:
  assumes "cstring m p cs" and "n = length (first_part cs)" and "region q n \<inter> region p (Suc (length cs)) = {}" and "i \<le> n"
  shows "part_copy_loop (write_bytes m q (take i cs)) q (of_nat i) (p + of_nat i) = Some (write_bytes m q (first_part cs), p + of_nat n)"
  using assms(4)
proof (induction i rule: inc_induct)
  case base
  have n: "n \<le> length cs" "Suc (length cs) \<le> 2 ^ 32" using first_part_le [of cs] assms(1,2) by (simp_all add: cstring_def)
  have "p + of_nat n \<in> region p (Suc (length cs))" using n by simp
  then have "p + of_nat n \<notin> region q (length (take n cs))" using assms(3) n by (auto simp: min_def)
  then have "write_bytes m q (take n cs) (p + of_nat n) = m (p + of_nat n)" using same_outsideD [OF write_bytes_outside] by blast
  then show ?case using part_end_char [OF assms(1,2)] first_part_take [of cs] assms(2)
    by (subst part_copy_loop.simps) auto
next
  case (step i)
  have i: "i < length cs" "cs ! i \<noteq> 0x2F" "length cs < 2 ^ 32"
    using step(2) first_part_nth [of i cs] first_part_le [of cs] assms(1,2) by (auto simp: cstring_def)
  then have c: "cs ! i \<noteq> 0" "m (p + of_nat i) = cs ! i" using cstring_nth [OF assms(1)] cstring_nonzero [OF assms(1)] by auto
  have "p + of_nat i \<in> region p (Suc (length cs))" using i by simp
  then have "p + of_nat i \<notin> region q (length (take i cs))" using assms(3) region_mono [of i n q] i(1) step(2) by (auto simp: min_def)
  then have "write_bytes m q (take i cs) (p + of_nat i) = cs ! i" using same_outsideD [OF write_bytes_outside] c(2) by metis
  moreover have "(write_bytes m q (take i cs))(q + of_nat i := cs ! i) = write_bytes m q (take (Suc i) cs)"
    using write_bytes_snoc [of "take i cs" m q "cs ! i"] i by (simp add: take_Suc_conv_app_nth min_def)
  ultimately show ?case using step(3) i(2) c(1) by (subst part_copy_loop.simps) (simp add: ac_simps)
qed

section \<open>One part\<close>

text \<open>A string a client may hand in: terminated, and not in memory the heap may reuse.\<close>

definition readable :: "'a kheap_state_scheme \<Rightarrow> u32 \<Rightarrow> u8 list \<Rightarrow> bool" where
  "readable s p cs \<longleftrightarrow> cstring (mem s) p cs \<and> region p (Suc (length cs)) \<inter> heap_private s = {}"

lemma readable_grows:
  assumes "readable s p cs" and "grows B R s s'" and "region p (Suc (length cs)) \<inter> R = {}"
  shows "readable s' p cs"
proof -
  have "region p (Suc (length cs)) \<inter> (R \<union> heap_private s) = {}" using assms(1,3) by (auto simp: readable_def)
  from grows_cstring [OF assms(2) this] show ?thesis using assms(1) growsD(5) [OF assms(2)] by (auto simp: readable_def)
qed

lemma readable_region: "readable s p cs \<Longrightarrow> X \<subseteq> heap_private s \<Longrightarrow> region p (Suc (length cs)) \<inter> X = {}"
  by (auto simp: readable_def)

definition name_need :: "u8 list \<Rightarrow> nat" where
  "name_need xs = blocks_for (of_nat (Suc (length xs)))"

lemma get_path_part_str_ok:
  fixes s :: "'a kheap_state_scheme"
  assumes "kheap_inv s" and "kheap_cap s n" and "name_need (first_part cs) \<le> n" and "readable s p cs"
    and "first_part cs \<noteq> []" and "length cs < 2 ^ 31"
  shows "\<exists>q k p' s'. get_path_part_str p s = Some (q, p', s') \<and> grows {(q, k)} {} s s' \<and> kheap_cap s' (n - name_need (first_part cs))
    \<and> cstring (mem s') q (first_part cs) \<and> length (first_part cs) < k \<and> readable s' p' (after_part cs)
    \<and> region p' (Suc (length (after_part cs))) \<subseteq> region p (Suc (length cs))"
proof -
  let ?xs = "first_part cs" and ?l = "length (first_part cs)"
  have cs: "cstring (mem s) p cs" and l: "?l \<le> length cs" "?l < 2 ^ 31" "0 < ?l"
    using assms(4-6) first_part_le [of cs] by (auto simp: readable_def)
  have lp: "part_length_loop (mem s) p 0 = Some (p + of_nat ?l, of_nat ?l)" using part_length_ok [OF cs refl, of 0] by simp
  have sz: "(of_nat ?l :: u32) + 1 = of_nat (Suc ?l)" "unat (of_nat (Suc ?l) :: u32) = Suc ?l" "(of_nat ?l :: u32) \<noteq> 0"
    using l(2,3) of_nat32_eq [of ?l 0] unat_of_nat32 [of "Suc ?l"] by simp_all
  obtain q k m1 where a: "kzalloc (of_nat (Suc ?l)) s = Some (q, s\<lparr>mem := m1\<rparr>)" "grows {(q, k)} {} s (s\<lparr>mem := m1\<rparr>)"
    "kheap_cap (s\<lparr>mem := m1\<rparr>) (n - name_need ?xs)" "unat (of_nat (Suc ?l) :: u32) \<le> k" "region q k \<subseteq> heap_private s"
    "\<forall>a \<in> region q k. m1 a = 0"
    using grows_alloc [OF assms(1,2), of "of_nat (Suc ?l)"] assms(3) unfolding name_need_def by metis
  let ?s1 = "s\<lparr>mem := m1\<rparr>" and ?m2 = "write_bytes m1 q ?xs"
  have k: "?l < k" using a(4) sz(2) by simp
  have r1: "readable ?s1 p cs" using readable_grows [OF assms(4) a(2)] by simp
  then have cs1: "cstring m1 p cs" by (simp add: readable_def)
  have qp: "region q k \<inter> region p (Suc (length cs)) = {}" using readable_region [OF assms(4) a(5)] by blast
  have "region q ?l \<inter> region p (Suc (length cs)) = {}" using qp region_mono [of ?l k q] k by auto
  then have cp: "part_copy_loop m1 q 0 p = Some (?m2, p + of_nat ?l)" using part_copy_ok [OF cs1 refl, of q 0] by simp
  have f: "same_outside (region q k) m1 ?m2"
    using write_bytes_outside [of q ?xs m1] region_mono [of ?l k q] k by (auto elim!: same_outside_mono)
  have mt: "region q k \<inter> kheap_meta = {}" using kheap_live_off_meta(1) [OF growsD(1) [OF a(2)]] growsD(2) [OF a(2)] by blast
  note st = grows_store [OF growsD(1) [OF a(2)], of "region q k" ?m2, simplified, OF f mt]
  have g: "grows {(q, k)} {} s (s\<lparr>mem := ?m2\<rparr>)" using grows_trans [OF a(2) st(1)] a(5) by simp
  define p' where "p' = p + of_nat ?l + (if ?l < length cs then 1 else 0)"
  have r2: "readable (s\<lparr>mem := ?m2\<rparr>) p cs" using readable_grows [OF assms(4) g] by simp
  then have cs2: "cstring ?m2 p cs" by (simp add: readable_def)
  have e: "?m2 (p + of_nat ?l) = (if ?l < length cs then 0x2F else 0)" by (rule part_end_char [OF cs2 refl])
  have "kzalloc (of_nat ?l + 1) s = Some (q, ?s1)" unfolding sz(1) by (rule a(1))
  then have "get_path_part_str p s = Some (q, p', s\<lparr>mem := ?m2\<rparr>)"
    using lp cp sz(3) e by (auto simp: get_path_part_str_def p'_def)
  moreover have "readable (s\<lparr>mem := ?m2\<rparr>) p' (after_part cs)" "region p' (Suc (length (after_part cs))) \<subseteq> region p (Suc (length cs))"
    using after_part_string [OF cs2 refl] r2 unfolding p'_def readable_def by auto
  moreover have "cstring ?m2 q ?xs"
  proof -
    have "0 \<notin> set ?xs" using cs set_takeWhileD by (force simp: first_part_def cstring_def)
    moreover have "load_bytes ?m2 q ?l = ?xs" using load_write_bytes [of ?xs] l(2) by simp
    moreover have "?m2 (q + of_nat ?l) = m1 (q + of_nat ?l)" using l(2) by (simp add: write_bytes_def unat_of_nat32)
    moreover have "m1 (q + of_nat ?l) = 0" using a(6) k l(2) by (auto simp: mem_region unat_of_nat32)
    ultimately show ?thesis using l(2) by (simp add: cstring_def)
  qed
  moreover have "kheap_cap (s\<lparr>mem := ?m2\<rparr>) (n - name_need ?xs)" using st(2) a(3) by simp
  ultimately show ?thesis using g k
    by (intro exI [of _ q] exI [of _ k] exI [of _ p'] exI [of _ "s\<lparr>mem := ?m2\<rparr>"]) simp
qed

lemma part_fields_in: "region (part_name q) 4 \<subseteq> region q 8" "region (part_next q) 4 \<subseteq> region q 8"
  "region (part_name q) 4 \<inter> region (part_next q) 4 = {}"
  using region_mono [of 4 8 q] region_shift [of 4 4 8 q] field_regions [of 0 4 q] by (simp_all add: path_fields)

lemma parse_path_part_ok:
  fixes s :: "'a kheap_state_scheme"
  assumes "kheap_inv s" and "kheap_cap s (Suc n)" and "name_need (first_part cs) \<le> n" and "readable s p cs"
    and "first_part cs \<noteq> []" and "length cs < 2 ^ 31"
    and "prev \<noteq> 0 \<Longrightarrow> \<exists>k \<ge> 8. (prev, k) \<in> kheap_live s"
    and R: "R = (if prev = 0 then {} else region (part_next prev) 4)" and "region p (Suc (length cs)) \<inter> R = {}"
  shows "\<exists>q k r j p' s'. parse_path_part prev p s = Some (q, p', s') \<and> grows {(q, k), (r, j)} R s s'
    \<and> (q, k) \<noteq> (r, j) \<and> 8 \<le> k \<and> q \<noteq> 0 \<and> length (first_part cs) < j \<and> cstring (mem s') r (first_part cs)
    \<and> load32 (mem s') (part_name q) = r \<and> load32 (mem s') (part_next q) = 0
    \<and> (prev \<noteq> 0 \<longrightarrow> load32 (mem s') (part_next prev) = q)
    \<and> kheap_cap s' (n - name_need (first_part cs))
    \<and> readable s' p' (after_part cs) \<and> region p' (Suc (length (after_part cs))) \<subseteq> region p (Suc (length cs))"
proof -
  obtain r j p' s1 where g: "get_path_part_str p s = Some (r, p', s1)" "grows {(r, j)} {} s s1"
    "kheap_cap s1 (Suc n - name_need (first_part cs))" "cstring (mem s1) r (first_part cs)" "length (first_part cs) < j"
    "readable s1 p' (after_part cs)" "region p' (Suc (length (after_part cs))) \<subseteq> region p (Suc (length cs))"
    using get_path_part_str_ok [OF assms(1,2) _ assms(4-6)] assms(3) by auto
  note i1 = growsD [OF g(2)]
  have b: "blocks_for 8 = 1" by (simp add: blocks_for_def)
  obtain q k m1 where a: "kzalloc 8 s1 = Some (q, s1\<lparr>mem := m1\<rparr>)" "grows {(q, k)} {} s1 (s1\<lparr>mem := m1\<rparr>)"
    "kheap_cap (s1\<lparr>mem := m1\<rparr>) (Suc n - name_need (first_part cs) - 1)" "unat (8 :: u32) \<le> k" "region q k \<subseteq> heap_private s1" "q \<noteq> 0"
    using grows_alloc [OF i1(1) g(3), of 8] assms(3) unfolding b by (metis One_nat_def Suc_diff_le Suc_le_mono le0)
  note i2 = growsD [OF a(2)]
  have k: "8 \<le> k" using a(4) by simp
  have ql: "(q, k) \<in> kheap_live (s1\<lparr>mem := m1\<rparr>)" "(q, k) \<notin> kheap_live s1" "(r, j) \<in> kheap_live s1" using i1(2) i2(2,3) by auto
  define m2 where "m2 = store32 (store32 m1 (part_name q) r) (part_next q) 0"
  define m3 where "m3 = (if prev \<noteq> 0 then store32 m2 (part_next prev) q else m2)"
  have f2: "same_outside (region q 8) m1 m2"
    unfolding m2_def by (rule same_outside_mono [OF same_outside_trans [OF store32_outside store32_outside]])
      (use part_fields_in(1,2) [of q] in auto)
  have f3: "same_outside R m2 m3" by (simp add: m3_def R store32_outside)
  have pp: "parse_path_part prev p s = Some (q, p', s1\<lparr>mem := m3\<rparr>)"
    using g(1) a(1) by (auto simp: parse_path_part_def sizeof_path_part_def m2_def m3_def)
  have q8: "region q 8 \<subseteq> heap_private s1" "region q 8 \<inter> kheap_meta = {}"
    using region_mono [OF k, of q] a(5) kheap_live_off_meta(1) [OF i2(1) ql(1)] by blast+
  have Rb: "R \<inter> kheap_meta = {} \<and> R \<inter> region x y = {}"
    if "(x, y) \<in> kheap_live (s1\<lparr>mem := m1\<rparr>)" "(x, y) \<notin> kheap_live s" for x y
  proof (cases "prev = 0")
    case False
    then obtain kk where kk: "(prev, kk) \<in> kheap_live s" "8 \<le> kk" using assms(7) by blast
    then have "(prev, kk) \<in> kheap_live (s1\<lparr>mem := m1\<rparr>)" "(prev, kk) \<noteq> (x, y)" using i1(2) i2(2) that(2) by auto
    from kheap_live_apart [OF i2(1) this(1) that(1) this(2)] kheap_live_off_meta(1) [OF i2(1) this(1)]
    show ?thesis using False part_fields_in(2) [of prev] region_mono [OF kk(2), of prev] unfolding R by auto
  qed (simp add: R)
  note Rq = Rb [OF ql(1)] and Rr = Rb [of r j]
  have rl: "(r, j) \<in> kheap_live (s1\<lparr>mem := m1\<rparr>)" "(r, j) \<notin> kheap_live s" "(q, k) \<notin> kheap_live s" using i1(2,3) i2(2) ql(2) by auto
  have g2: "grows {} (region q 8) (s1\<lparr>mem := m1\<rparr>) (s1\<lparr>mem := m2\<rparr>)"
    using grows_store(1) [OF i2(1), of "region q 8" m2] f2 q8(2) by simp
  have g3: "grows {} R (s1\<lparr>mem := m2\<rparr>) (s1\<lparr>mem := m3\<rparr>)"
    using grows_store(1) [OF growsD(1) [OF g2], of R m3] f3 Rq rl(3) by simp
  have s1m: "grows {(q, k)} R s1 (s1\<lparr>mem := m3\<rparr>)"
    using grows_trans [OF grows_mono [OF grows_trans [OF a(2) g2], of R] g3] q8(1) by auto
  have g': "grows {(r, j), (q, k)} R s (s1\<lparr>mem := m3\<rparr>)"
    using grows_trans [OF grows_mono [OF g(2), of R] s1m] by (simp add: insert_commute)
  have "load32 m2 (part_name q) = r" "load32 m2 (part_next q) = 0" by (simp_all add: m2_def path_fields field_other_base)
  moreover have "region (part_name q) 4 \<inter> R = {}" "region (part_next q) 4 \<inter> R = {}"
    using part_fields_in(1,2) [of q] region_mono [OF k, of q] Rq rl(3) by blast+
  ultimately have l: "load32 m3 (part_name q) = r" "load32 m3 (part_next q) = 0" using load32_frame [OF f3] by simp_all
  have "region r (Suc (length (first_part cs))) \<subseteq> region r j" using g(5) by (intro region_mono) simp
  then have "region r (Suc (length (first_part cs))) \<inter> (R \<union> heap_private s1) = {}"
    using Rr [OF rl(1,2)] live_not_private [OF i1(1) ql(3)] by blast
  from grows_cstring [OF s1m this g(4)] have nm: "cstring m3 r (first_part cs)" by simp
  have "region p' (Suc (length (after_part cs))) \<inter> R = {}" using g(7) assms(9) by blast
  note rd = readable_grows [OF g(6) s1m this]
  have cp: "kheap_cap (s1\<lparr>mem := m3\<rparr>) (n - name_need (first_part cs))"
    using a(3) grows_store(2) [OF i2(1), of "region q 8" m2] grows_store(2) [OF growsD(1) [OF g2], of R m3] f2 q8(2) f3 Rq rl(3) assms(3)
    by (simp add: Suc_diff_le)
  have "prev \<noteq> 0 \<longrightarrow> load32 m3 (part_next prev) = q" by (simp add: m3_def)
  then show ?thesis using pp g' l nm rd cp g(5,7) a(6) k ql
    by (intro exI [of _ q] exI [of _ k] exI [of _ r] exI [of _ j] exI [of _ p'] exI [of _ "s1\<lparr>mem := m3\<rparr>"])
      (auto simp: insert_commute)
qed

section \<open>The list of parts\<close>

type_synonym part_block = "(u32 \<times> nat) \<times> (u32 \<times> nat) \<times> u8 list"

text \<open>The list at \<open>q\<close>: for each part the block of its node, the block of its name and the name.\<close>

primrec parts_at :: "'a kheap_state_scheme \<Rightarrow> u32 \<Rightarrow> part_block list \<Rightarrow> bool" where
  "parts_at s q [] \<longleftrightarrow> q = 0"
| "parts_at s q (x # xs) \<longleftrightarrow> (case x of ((b, k), (r, j), cs) \<Rightarrow> q = b \<and> b \<noteq> 0 \<and> 8 \<le> k \<and> (b, k) \<in> kheap_live s
     \<and> (r, j) \<in> kheap_live s \<and> length cs < j \<and> cstring (mem s) r cs \<and> load32 (mem s) (part_name b) = r
     \<and> parts_at s (load32 (mem s) (part_next b)) xs)"

definition part_blocks :: "part_block list \<Rightarrow> (u32 \<times> nat) list" where
  "part_blocks xs = concat (map (\<lambda>(b, r, cs). [b, r]) xs)"

definition part_names :: "part_block list \<Rightarrow> u8 list list" where
  "part_names xs = map (\<lambda>(b, r, cs). cs) xs"

definition parts_need :: "u8 list list \<Rightarrow> nat" where
  "parts_need ps = (\<Sum>x \<leftarrow> ps. Suc (name_need x))"

lemma part_lists [simp]: "part_blocks [] = []" "part_blocks ((b, r, cs) # xs) = b # r # part_blocks xs"
  "part_names [] = []" "part_names ((b, r, cs) # xs) = cs # part_names xs"
  "parts_need [] = 0" "parts_need (x # ps) = Suc (name_need x) + parts_need ps"
  by (simp_all add: part_blocks_def part_names_def parts_need_def)

lemma parts_at_frame:
  assumes "same_outside X (mem s) (mem s')" and "parts_at s q xs" and "set (part_blocks xs) \<subseteq> kheap_live s'"
    and "\<forall>(b, k) \<in> set (part_blocks xs). region b k \<inter> X = {}"
  shows "parts_at s' q xs"
  using assms(2-4)
proof (induction xs arbitrary: q)
  case (Cons x xs)
  obtain b k r j cs where x: "x = ((b, k), (r, j), cs)" by (metis prod.exhaust)
  have l: "8 \<le> k" "length cs < j" "cstring (mem s) r cs" "parts_at s (load32 (mem s) (part_next b)) xs"
    using Cons.prems(1) x by simp_all
  have d: "region b k \<inter> X = {}" "region r j \<inter> X = {}" using Cons.prems(3) x by auto
  have f: "region (part_name b) 4 \<inter> X = {}" "region (part_next b) 4 \<inter> X = {}" "region r (Suc (length cs)) \<inter> X = {}"
    using d part_fields_in(1,2) [of b] region_mono [OF l(1), of b] region_mono [of "Suc (length cs)" j r] l(2) by fastforce+
  have "load32 (mem s') (part_name b) = load32 (mem s) (part_name b)" "load32 (mem s') (part_next b) = load32 (mem s) (part_next b)"
    "cstring (mem s') r cs"
    using load32_frame [OF assms(1) f(1)] load32_frame [OF assms(1) f(2)] cstring_frame [OF assms(1) f(3)] l(3) by simp_all
  then show ?case using x Cons.IH [OF l(4)] Cons.prems by simp
qed simp

text \<open>A node in front of the list the rest of the parser builds.\<close>

lemma link_part:
  fixes s :: "'a kheap_state_scheme"
  assumes "kheap_inv s" and b: "(b, k) \<in> kheap_live s" "8 \<le> k" "b \<noteq> 0"
    and r: "(r, j) \<in> kheap_live s" "(b, k) \<noteq> (r, j)" "length x < j" "cstring (mem s) r x" "load32 (mem s) (part_name b) = r"
    and g: "grows (set (part_blocks xs)) (region (part_next b) 4) s s'" and "distinct (part_blocks xs)"
    and "parts_at s' (load32 (mem s') (part_next b)) xs"
  shows "parts_at s' b (((b, k), (r, j), x) # xs)" and "distinct (part_blocks (((b, k), (r, j), x) # xs))"
    and "\<And>a c z. (c, z) \<in> kheap_live s \<Longrightarrow> (c, z) \<noteq> (b, k) \<Longrightarrow> region a 4 \<subseteq> region c z \<Longrightarrow> load32 (mem s') a = load32 (mem s) a"
proof -
  have nb: "region (part_next b) 4 \<subseteq> region b k" using part_fields_in(2) [of b] region_mono [OF b(2), of b] by blast
  have off: "region a y \<inter> (region (part_next b) 4 \<union> heap_private s) = {}"
    if "(c, z) \<in> kheap_live s" "(c, z) \<noteq> (b, k)" "region a y \<subseteq> region c z" for a y c z
    using kheap_live_apart [OF assms(1) that(1) b(1) that(2)] live_not_private [OF assms(1) that(1)] that(3) nb by blast
  show "load32 (mem s') a = load32 (mem s) a"
    if "(c, z) \<in> kheap_live s" "(c, z) \<noteq> (b, k)" "region a 4 \<subseteq> region c z" for a c z
    by (rule grows_load32 [OF g off [OF that]])
  have "region r (Suc (length x)) \<subseteq> region r j" using r(3) by (intro region_mono) simp
  from grows_cstring [OF g off [OF r(1) r(2) [symmetric] this] r(4)] have nr: "cstring (mem s') r x" .
  have "region (part_name b) 4 \<inter> (region (part_next b) 4 \<union> heap_private s) = {}"
    using part_fields_in(1,3) [of b] region_mono [OF b(2), of b] live_not_private [OF assms(1) b(1)] by blast
  from grows_load32 [OF g this] have "load32 (mem s') (part_name b) = r" using r(5) by simp
  then show "parts_at s' b (((b, k), (r, j), x) # xs)" using nr b r assms(12) growsD(2) [OF g] by simp
  show "distinct (part_blocks (((b, k), (r, j), x) # xs))" using assms(11) r(1,2) b(1) growsD(3) [OF g] by auto
qed

text \<open>\<^verbatim>\<open>parse\<close>'s loop appends one node per component behind the current part.\<close>

lemma parse_loop_ok:
  fixes s :: "'a kheap_state_scheme"
  assumes "kheap_inv s" and "kheap_cap s n" and "parts_need (path_parts cs) \<le> n" and "readable s p cs"
    and "[] \<notin> set (path_parts cs)" and "length cs < 2 ^ 31"
    and "(q, k) \<in> kheap_live s" and "8 \<le> k" and "q \<noteq> 0" and "load32 (mem s) (part_next q) = 0"
    and "region p (Suc (length cs)) \<inter> region (part_next q) 4 = {}"
  shows "\<exists>s' xs. parse_loop q p s = Some s' \<and> grows (set (part_blocks xs)) (region (part_next q) 4) s s'
    \<and> part_names xs = path_parts cs \<and> distinct (part_blocks xs) \<and> parts_at s' (load32 (mem s') (part_next q)) xs
    \<and> kheap_cap s' (n - parts_need (path_parts cs))"
  using assms
proof (induction cs arbitrary: n p q k s rule: path_parts.induct)
  case (1 cs)
  show ?case
  proof (cases "cs = []")
    case True
    then have "mem s p = 0" "path_parts cs = []" using 1(5) cstring_end [of "mem s" p "[]"] by (simp_all add: readable_def path_parts.simps)
    then have "parse_loop q p s = Some s" by (subst parse_loop.simps) simp
    then show ?thesis using 1(2,3,11) \<open>path_parts cs = []\<close> by (intro exI [of _ s] exI [of _ "[]"]) simp
  next
    case False
    let ?x = "first_part cs"
    have pp: "path_parts cs = ?x # path_parts (after_part cs)" using False by (subst path_parts.simps) simp
    obtain n' where n: "n = Suc n'" "name_need ?x \<le> n'" "parts_need (path_parts (after_part cs)) \<le> n' - name_need ?x"
      using 1(4) pp by (cases n) auto
    have ne: "?x \<noteq> []" "[] \<notin> set (path_parts (after_part cs))" using 1(6) pp by auto
    have R: "region (part_next q) 4 = (if q = 0 then {} else region (part_next q) 4)" using 1(10) by simp
    have qlive: "q \<noteq> 0 \<Longrightarrow> \<exists>k \<ge> 8. (q, k) \<in> kheap_live s" using 1(8,9) by blast
    obtain b k' r j p' s1 where a: "parse_path_part q p s = Some (b, p', s1)" "grows {(b, k'), (r, j)} (region (part_next q) 4) s s1"
      "(b, k') \<noteq> (r, j)" "8 \<le> k'" "b \<noteq> 0" "length ?x < j" "cstring (mem s1) r ?x" "load32 (mem s1) (part_name b) = r"
      "load32 (mem s1) (part_next b) = 0" "load32 (mem s1) (part_next q) = b" "kheap_cap s1 (n' - name_need ?x)"
      "readable s1 p' (after_part cs)" "region p' (Suc (length (after_part cs))) \<subseteq> region p (Suc (length cs))"
      using parse_path_part_ok [OF 1(2) _ n(2) 1(5) ne(1) 1(7) qlive R 1(12)] 1(3,10) n(1) by auto
    note g = growsD [OF a(2)]
    have bl: "(b, k') \<in> kheap_live s1" "(r, j) \<in> kheap_live s1" "(q, k) \<in> kheap_live s1" "(q, k) \<noteq> (b, k')" using g(2,3) 1(8) by auto
    have bp: "region b k' \<subseteq> heap_private s" by (rule grows_new_private [OF a(2)]) simp
    have nb: "region (part_next b) 4 \<subseteq> region b k'" using part_fields_in(2) [of b] region_mono [OF a(4), of b] by blast
    have la: "length (after_part cs) < 2 ^ 31" using 1(7) by (simp add: after_part_def)
    have dp: "region p' (Suc (length (after_part cs))) \<inter> region (part_next b) 4 = {}"
      using readable_region [OF 1(5) bp] nb a(13) by blast
    obtain s2 xs where ih: "parse_loop b p' s1 = Some s2" "grows (set (part_blocks xs)) (region (part_next b) 4) s1 s2"
      "part_names xs = path_parts (after_part cs)" "distinct (part_blocks xs)" "parts_at s2 (load32 (mem s2) (part_next b)) xs"
      "kheap_cap s2 (n' - name_need ?x - parts_need (path_parts (after_part cs)))"
      using 1(1) [OF False g(1) a(11) n(3) a(12) ne(2) la bl(1) a(4,5,9) dp] by blast
    have "mem s p \<noteq> 0" using 1(5) False by (cases cs) (auto simp: readable_def cstring_Cons)
    then have run: "parse_loop q p s = Some s2" using a(1) ih(1) by (subst parse_loop.simps) simp
    have gg: "grows (set (part_blocks (((b, k'), (r, j), ?x) # xs))) (region (part_next q) 4) s s2"
      using grows_trans [OF a(2) ih(2)] nb bp by (simp add: insert_commute) blast
    note lk = link_part [OF g(1) bl(1) a(4,5) bl(2) a(3,6-8) ih(2,4,5)]
    have "region (part_next q) 4 \<subseteq> region q k" using part_fields_in(2) [of q] region_mono [OF 1(9), of q] by blast
    from lk(3) [OF bl(3,4) this] have "load32 (mem s2) (part_next q) = b" using a(10) by simp
    then have "parts_at s2 (load32 (mem s2) (part_next q)) (((b, k'), (r, j), ?x) # xs)" using lk(1) by simp
    moreover have "n - parts_need (path_parts cs) = n' - name_need ?x - parts_need (path_parts (after_part cs))" using n(1) pp by simp
    ultimately show ?thesis using lk(2) run gg ih(3,6) pp
      by (intro exI [of _ s2] exI [of _ "((b, k'), (r, j), ?x) # xs"]) (simp del: parts_at.simps)
  qed
qed

section \<open>Parsing a path\<close>

text \<open>The scratch string of \<^verbatim>\<open>get_drive\<close> is given back.\<close>

lemma get_drive_ok:
  fixes s :: "'a kheap_state_scheme"
  assumes "kheap_inv s" and "kheap_cap s n" and "1 \<le> n" and c: "48 \<le> unat (mem s p)" "unat (mem s p) \<le> 57"
    and "p \<notin> heap_private s"
  shows "\<exists>s'. get_drive p s = Some (of_nat (unat (mem s p) - 48), s') \<and> grows {} {} s s' \<and> kheap_cap s' n"
proof -
  have b: "blocks_for 2 = 1" by (simp add: blocks_for_def)
  obtain q k m1 where a: "kzalloc 2 s = Some (q, s\<lparr>mem := m1\<rparr>)" "grows {(q, k)} {} s (s\<lparr>mem := m1\<rparr>)"
    "unat (2 :: u32) \<le> k" "region q k \<subseteq> heap_private s" "\<forall>a \<in> region q k. m1 a = 0"
    using grows_alloc [OF assms(1,2), of 2] assms(3) unfolding b by metis
  let ?c = "mem s p" and ?m2 = "m1(q := mem s p)"
  have cp: "m1 p = ?c" using same_outsideD [OF growsD(4) [OF a(2)], of p] assms(6) by simp
  have "m1 (q + 1) = 0" using a(3,5) by simp
  then have "cstring ?m2 q [?c]" using c by (auto simp: cstring_Cons cstring_Nil)
  from atoi_digits [OF this] have at: "atoi ?m2 q = Some (of_nat (unat ?c - 48))" using c by simp
  have f: "same_outside (region q k) m1 ?m2" using a(3) by (simp add: same_outside_def)
  have mt: "region q k \<inter> kheap_meta = {}" using kheap_live_off_meta(1) [OF growsD(1) [OF a(2)]] growsD(2) [OF a(2)] by blast
  note st = grows_store [OF growsD(1) [OF a(2)], of "region q k" ?m2, simplified, OF f mt]
  have "grows {(q, k)} {} s (s\<lparr>mem := ?m2\<rparr>)" using grows_trans [OF a(2) st(1)] a(4) by simp
  from grows_free [OF this] obtain s' where k: "kfree q (s\<lparr>mem := ?m2\<rparr>) = Some s'" "grows {} {} s s'" by auto
  have "get_drive p s = Some (of_nat (unat ?c - 48), s')" using a(1) at k(1) cp by (simp add: get_drive_def)
  moreover have "kheap_cap s' n" using kheap_cap_live [OF assms(1) growsD(1) [OF k(2)] _ assms(2)] growsD(2) [OF k(2)] by simp
  ultimately show ?thesis using k(2) by blast
qed

lemma root_fields_in: "region (root_drive_number q) 4 \<subseteq> region q 8" "region (root_path q) 4 \<subseteq> region q 8"
  "region (root_drive_number q) 4 \<inter> region (root_path q) 4 = {}"
  using part_fields_in [of q] by (simp_all add: path_fields)

lemma create_root_ok:
  fixes s :: "'a kheap_state_scheme"
  assumes "kheap_inv s" and "kheap_cap s (Suc n)"
  shows "\<exists>q k s'. create_root d s = Some (q, s') \<and> grows {(q, k)} {} s s' \<and> kheap_cap s' n \<and> 8 \<le> k \<and> q \<noteq> 0
    \<and> load32 (mem s') (root_drive_number q) = d"
proof -
  have b: "blocks_for 8 = 1" by (simp add: blocks_for_def)
  obtain q k m1 where a: "kzalloc 8 s = Some (q, s\<lparr>mem := m1\<rparr>)" "grows {(q, k)} {} s (s\<lparr>mem := m1\<rparr>)"
    "kheap_cap (s\<lparr>mem := m1\<rparr>) (Suc n - 1)" "unat (8 :: u32) \<le> k" "region q k \<subseteq> heap_private s" "q \<noteq> 0"
    using grows_alloc [OF assms, of 8] unfolding b by (metis le_add1 plus_1_eq_Suc)
  let ?m2 = "store32 (store32 m1 (root_drive_number q) d) (root_path q) 0"
  have k: "8 \<le> k" using a(4) by simp
  have f: "same_outside (region q k) m1 ?m2"
    by (rule same_outside_mono [OF same_outside_trans [OF store32_outside store32_outside]])
      (use root_fields_in(1,2) [of q] region_mono [OF k, of q] in auto)
  have mt: "region q k \<inter> kheap_meta = {}" using kheap_live_off_meta(1) [OF growsD(1) [OF a(2)]] growsD(2) [OF a(2)] by blast
  note st = grows_store [OF growsD(1) [OF a(2)], of "region q k" ?m2, simplified, OF f mt]
  have "grows {(q, k)} {} s (s\<lparr>mem := ?m2\<rparr>)" using grows_trans [OF a(2) st(1)] a(5) by simp
  moreover have "create_root d s = Some (q, s\<lparr>mem := ?m2\<rparr>)" using a(1) by (simp add: create_root_def sizeof_path_root_def)
  moreover have "load32 ?m2 (root_drive_number q) = d" by (simp add: path_fields field_other_base)
  moreover have "kheap_cap (s\<lparr>mem := ?m2\<rparr>) n" using st(2) a(3) by simp
  ultimately show ?thesis using k a(6) by (intro exI [of _ q] exI [of _ k] exI [of _ "s\<lparr>mem := ?m2\<rparr>"]) simp
qed

text \<open>A well-formed path: a drive digit, \<^verbatim>\<open>:/\<close> and at least one component, none of them empty.\<close>

definition good_path :: "u8 list \<Rightarrow> bool" where
  "good_path ps \<longleftrightarrow> 4 \<le> length ps \<and> length ps \<le> 4096 \<and> 48 \<le> unat (ps ! 0) \<and> unat (ps ! 0) \<le> 57
     \<and> ps ! 1 = 0x3A \<and> ps ! 2 = 0x2F \<and> [] \<notin> set (path_parts (drop 3 ps))"

definition path_drive :: "u8 list \<Rightarrow> u32" where
  "path_drive ps = of_nat (unat (ps ! 0) - 48)"

text \<open>The root at \<open>q\<close> with its list.\<close>

definition path_at :: "'a kheap_state_scheme \<Rightarrow> u32 \<Rightarrow> nat \<Rightarrow> u32 \<Rightarrow> part_block list \<Rightarrow> bool" where
  "path_at s q k d xs \<longleftrightarrow> (q, k) \<in> kheap_live s \<and> 8 \<le> k \<and> q \<noteq> 0 \<and> load32 (mem s) (root_drive_number q) = d
     \<and> parts_at s (load32 (mem s) (root_path q)) xs \<and> distinct ((q, k) # part_blocks xs)"

definition path_need :: "u8 list \<Rightarrow> nat" where
  "path_need ps = Suc (parts_need (path_parts (drop 3 ps)))"

lemma validate_path_string:
  assumes "cstring m p ps" and "length ps < 2 ^ 32"
  shows "validate_path m p = Some (3 \<le> length ps \<and> 48 \<le> unat (ps ! 0) \<and> unat (ps ! 0) \<le> 57 \<and> ps ! 1 = 0x3A \<and> ps ! 2 = 0x2F)"
proof -
  have l: "(3 :: u32) \<le> of_nat (length ps) \<longleftrightarrow> 3 \<le> length ps" using assms(2) by (simp add: word_le_nat_alt unat_of_nat32)
  have c: "(ucast (char_to_int c) :: u8) = c" for c
  proof (rule bit_word_eqI)
    fix n assume "n < LENGTH(8)"
    then have "min 7 n = n" by simp
    then show "bit (ucast (char_to_int c) :: u8) n = bit c n" using \<open>n < LENGTH(8)\<close>
      by (simp add: char_to_int_def bit_ucast_iff bit_signed_iff)
  qed
  have d: "isdigit (char_to_int c) \<noteq> 0 \<longleftrightarrow> 48 \<le> unat c \<and> unat c \<le> 57" for c
    unfolding isdigit_def c by (simp add: word_le_nat_alt Let_def)
  have n: "m p = ps ! 0" "m (p + 1) = ps ! 1" "m (p + 2) = ps ! 2" if "3 \<le> length ps"
    using cstring_nth [OF assms(1), of 0] cstring_nth [OF assms(1), of 1] cstring_nth [OF assms(1), of 2] that by fastforce+
  show ?thesis using n strlen_cstring [OF assms(1)] by (auto simp: validate_path_def l d Let_def)
qed

text \<open>The first part hangs off the root, the others off their predecessors.\<close>

lemma parse_list_ok:
  fixes s :: "'a kheap_state_scheme"
  assumes "kheap_inv s" and "kheap_cap s (parts_need (path_parts cs) + c)" and "readable s p cs" and "cs \<noteq> []"
    and "[] \<notin> set (path_parts cs)" and "length cs < 2 ^ 31"
    and q: "(q, k) \<in> kheap_live s" "8 \<le> k" "region p (Suc (length cs)) \<inter> region (root_path q) 4 = {}"
  shows "\<exists>b p' s1 s' xs. parse_path_part 0 p s = Some (b, p', s1)
    \<and> parse_loop b p' (s1\<lparr>mem := store32 (mem s1) (root_path q) b\<rparr>) = Some s'
    \<and> grows (set (part_blocks xs)) (region (root_path q) 4) s s' \<and> distinct (part_blocks xs)
    \<and> parts_at s' (load32 (mem s') (root_path q)) xs \<and> part_names xs = path_parts cs
    \<and> load32 (mem s') (root_drive_number q) = load32 (mem s) (root_drive_number q) \<and> kheap_cap s' c"
proof -
  let ?x = "first_part cs" and ?as = "after_part cs" and ?R = "region (root_path q) 4"
  have pp: "path_parts cs = ?x # path_parts ?as" using assms(4) by (subst path_parts.simps) simp
  let ?n = "name_need ?x + (parts_need (path_parts ?as) + c)"
  have ok: "?x \<noteq> []" "[] \<notin> set (path_parts ?as)" using assms(5) pp by auto
  have "kheap_cap s (Suc ?n)" using assms(2) pp by (simp add: add.assoc)
  then obtain b k' r j p' s1 where a: "parse_path_part 0 p s = Some (b, p', s1)" "grows {(b, k'), (r, j)} {} s s1"
    "(b, k') \<noteq> (r, j)" "8 \<le> k'" "b \<noteq> 0" "length ?x < j" "cstring (mem s1) r ?x" "load32 (mem s1) (part_name b) = r"
    "load32 (mem s1) (part_next b) = 0" "kheap_cap s1 (parts_need (path_parts ?as) + c)"
    "readable s1 p' ?as" "region p' (Suc (length ?as)) \<subseteq> region p (Suc (length cs))"
    using parse_path_part_ok [OF assms(1) _ _ assms(3) ok(1) assms(6), of ?n 0 "{}"] by auto
  note i = growsD [OF a(2)]
  have lv: "(q, k) \<in> kheap_live s1" "(b, k') \<in> kheap_live s1" "(r, j) \<in> kheap_live s1" "(q, k) \<noteq> (b, k')" "(q, k) \<noteq> (r, j)"
    using q(1) i(2,3) by auto
  define s2 where "s2 = s1\<lparr>mem := store32 (mem s1) (root_path q) b\<rparr>"
  have Rq: "?R \<subseteq> region q k" "region (root_drive_number q) 4 \<subseteq> region q k"
    using root_fields_in(1,2) [of q] region_mono [OF q(2), of q] by blast+
  have ap: "?R \<inter> region b k' = {}" "?R \<inter> region r j = {}" "?R \<inter> kheap_meta = {}"
    using Rq kheap_live_apart [OF i(1) lv(1,2,4)] kheap_live_apart [OF i(1) lv(1,3,5)] kheap_live_off_meta(1) [OF i(1) lv(1)] by blast+
  have g2: "grows {} ?R s1 s2" "kheap_cap s2 = kheap_cap s1" and f2: "same_outside ?R (mem s1) (mem s2)"
    using grows_store [OF i(1) store32_outside ap(3)] by (simp_all add: s2_def store32_outside)
  have nb: "region (part_name b) 4 \<subseteq> region b k'" "region (part_next b) 4 \<subseteq> region b k'" "region r (Suc (length ?x)) \<subseteq> region r j"
    using part_fields_in(1,2) [of b] region_mono [OF a(4), of b] region_mono [of "Suc (length ?x)" j r] a(6) by fastforce+
  then have "region (part_name b) 4 \<inter> ?R = {}" "region (part_next b) 4 \<inter> ?R = {}" "region r (Suc (length ?x)) \<inter> ?R = {}" using ap by blast+
  then have m2: "load32 (mem s2) (part_name b) = r" "load32 (mem s2) (part_next b) = 0" "cstring (mem s2) r ?x"
    using load32_frame [OF f2] cstring_frame [OF f2] a(7-9) by simp_all
  have pr: "region b k' \<subseteq> heap_private s" using grows_new_private [OF a(2)] by blast
  have pd: "region p' (Suc (length ?as)) \<inter> ?R = {}" "region p' (Suc (length ?as)) \<inter> region (part_next b) 4 = {}"
    using readable_region [OF assms(3) pr] q(3) a(12) nb(2) by blast+
  note r2 = readable_grows [OF a(11) g2(1) pd(1)]
  have la: "length ?as < 2 ^ 31" using assms(6) by (simp add: after_part_def)
  have lv2: "(q, k) \<in> kheap_live s2" "(b, k') \<in> kheap_live s2" "(r, j) \<in> kheap_live s2" using lv growsD(2) [OF g2(1)] by simp_all
  have "kheap_cap s2 (parts_need (path_parts ?as) + c)" using g2(2) a(10) by simp
  from parse_loop_ok [OF growsD(1) [OF g2(1)] this le_add1 r2 ok(2) la lv2(2) a(4,5) m2(2) pd(2)]
  obtain s3 xs where g3: "parse_loop b p' s2 = Some s3" "grows (set (part_blocks xs)) (region (part_next b) 4) s2 s3"
    "part_names xs = path_parts ?as" "distinct (part_blocks xs)" "parts_at s3 (load32 (mem s3) (part_next b)) xs" "kheap_cap s3 c" by auto
  note lk = link_part [OF growsD(1) [OF g2(1)] lv2(2) a(4,5) lv2(3) a(3,6) m2(3,1) g3(2,4,5)]
  have "region (root_drive_number q) 4 \<inter> ({} \<union> heap_private s) = {}" "region (root_drive_number q) 4 \<inter> ?R = {}"
    using live_not_private [OF assms(1) q(1)] Rq(2) root_fields_in(3) [of q] by blast+
  then have "load32 (mem s2) (root_drive_number q) = load32 (mem s) (root_drive_number q)"
    using grows_load32 [OF a(2)] load32_frame [OF f2] by simp
  moreover have "load32 (mem s2) (root_path q) = b" by (simp add: s2_def)
  ultimately have ld: "load32 (mem s3) (root_drive_number q) = load32 (mem s) (root_drive_number q)" "load32 (mem s3) (root_path q) = b"
    using lk(3) [OF lv2(1) lv(4) Rq(1)] lk(3) [OF lv2(1) lv(4) Rq(2)] by simp_all
  have "grows {(b, k'), (r, j)} ?R s s2" using grows_trans [OF grows_mono [OF a(2), of ?R] g2(1)] by simp
  from grows_trans [OF this g3(2)] have "grows (set (part_blocks (((b, k'), (r, j), ?x) # xs))) ?R s s3" using nb(2) pr by auto
  then show ?thesis using a(1) g3(1,3,6) lk(1,2) ld pp unfolding s2_def
    by (intro exI [of _ b] exI [of _ p'] exI [of _ s1] exI [of _ s3] exI [of _ "((b, k'), (r, j), ?x) # xs"]) (simp del: parts_at.simps)
qed

lemma parse_ok:
  fixes s :: "'a kheap_state_scheme"
  assumes "kheap_inv s" and "readable s p ps" and "good_path ps" and "kheap_cap s (path_need ps + c)"
  shows "\<exists>q k xs s'. parse p s = Some (q, s') \<and> grows (set ((q, k) # part_blocks xs)) {} s s'
    \<and> path_at s' q k (path_drive ps) xs \<and> part_names xs = path_parts (drop 3 ps) \<and> kheap_cap s' c"
proof -
  let ?cs = "drop 3 ps"
  have l: "4 \<le> length ps" "length ps \<le> 4096" "length ps < 2 ^ 32" "length ?cs < 2 ^ 31" and ne: "?cs \<noteq> []" "[] \<notin> set (path_parts ?cs)"
    and d: "48 \<le> unat (ps ! 0)" "unat (ps ! 0) \<le> 57" "ps ! 1 = 0x3A" "ps ! 2 = 0x2F" using assms(3) by (auto simp: good_path_def)
  have cs: "cstring (mem s) p ps" using assms(2) by (simp add: readable_def)
  have m: "mem s p = ps ! 0" using cstring_nth [OF cs, of 0] l(1) by fastforce
  have len: "strlen (mem s) p = Some (of_nat (length ps))" "\<not> MAX_PATH_LENGTH < of_nat (length ps)"
    using strlen_cstring [OF cs] l(2,3) by (simp_all add: kernel_consts word_less_nat_alt unat_of_nat32)
  have va: "validate_path (mem s) p = Some True" using validate_path_string [OF cs l(3)] l(1) d by simp
  have "p \<notin> heap_private s" using assms(2) base_mem_region [of p "Suc (length ps)"] unfolding readable_def by blast
  then obtain s1 where g1: "get_drive p s = Some (path_drive ps, s1)" "grows {} {} s s1" "kheap_cap s1 (path_need ps + c)"
    using get_drive_ok [OF assms(1,4), of p] m d by (auto simp: path_need_def path_drive_def)
  have "nonneg (path_drive ps)" "nonneg 0" using d(2) by (simp_all add: nonneg_unat path_drive_def unat_of_nat32)
  then have dr: "\<not> path_drive ps <s 0" by (simp add: sless_nonneg)
  obtain q k s2 where g2: "create_root (path_drive ps) s1 = Some (q, s2)" "grows {(q, k)} {} s1 s2"
    "kheap_cap s2 (parts_need (path_parts ?cs) + c)" "8 \<le> k" "q \<noteq> 0" "load32 (mem s2) (root_drive_number q) = path_drive ps"
    using create_root_ok [OF growsD(1) [OF g1(2)], of "parts_need (path_parts ?cs) + c"] g1(3) unfolding path_need_def add_Suc by blast
  have r1: "readable s1 p ps" using readable_grows [OF assms(2) g1(2)] by simp
  have r2: "readable s2 p ps" using readable_grows [OF r1 g2(2)] by simp
  have sub: "region (p + 3) (Suc (length ?cs)) \<subseteq> region p (Suc (length ps))"
    using region_shift [of 3 "Suc (length ?cs)" "Suc (length ps)" p] l(1) by simp
  have r2': "readable s2 (p + 3) ?cs" using sub r2 cstring_drop [of "mem s2" p ps 3] l(1) by (auto simp: readable_def)
  have pr: "region q k \<subseteq> heap_private s1" using grows_new_private [OF g2(2)] by blast
  have Rq: "region (root_path q) 4 \<subseteq> region q k" using root_fields_in(2) [of q] region_mono [OF g2(4), of q] by blast
  have rd: "region (p + 3) (Suc (length ?cs)) \<inter> region (root_path q) 4 = {}" using readable_region [OF r1 pr] sub Rq by blast
  have lv: "(q, k) \<in> kheap_live s2" using growsD(2) [OF g2(2)] by simp
  obtain b p' s3 s' xs where ls: "parse_path_part 0 (p + 3) s2 = Some (b, p', s3)"
    "parse_loop b p' (s3\<lparr>mem := store32 (mem s3) (root_path q) b\<rparr>) = Some s'"
    "grows (set (part_blocks xs)) (region (root_path q) 4) s2 s'" "distinct (part_blocks xs)"
    "parts_at s' (load32 (mem s') (root_path q)) xs" "part_names xs = path_parts ?cs"
    "load32 (mem s') (root_drive_number q) = load32 (mem s2) (root_drive_number q)" "kheap_cap s' c"
    using parse_list_ok [OF growsD(1) [OF g2(2)] g2(3) r2' ne l(4) lv g2(4) rd] by blast
  have "parse p s = Some (q, s')" using len va g1(1) dr g2(1) ls(1,2) by (simp add: parse_def)
  moreover have "path_at s' q k (path_drive ps) xs"
    using ls(4,5,7) g2(4-6) lv growsD(2,3) [OF ls(3)] by (auto simp: path_at_def)
  moreover have "grows ({(q, k)} \<union> set (part_blocks xs)) {} s1 s'" using grows_trans [OF g2(2) ls(3)] pr Rq by auto
  then have "grows (set ((q, k) # part_blocks xs)) {} s s'" using grows_trans [OF g1(2)] by fastforce
  ultimately show ?thesis using ls(6,8) by blast
qed

section \<open>Releasing a path\<close>

lemma free_parts_ok:
  fixes s :: "'a kheap_state_scheme"
  assumes "grows (set (part_blocks xs) \<union> B) R s s'" and "parts_at s' q xs" and "distinct (part_blocks xs)"
    and "set (part_blocks xs) \<inter> B = {}"
  shows "\<exists>s''. free_parts q s' = Some s'' \<and> grows B R s s'' \<and> same_outside kheap_meta (mem s') (mem s'')"
  using assms
proof (induction xs arbitrary: q s')
  case Nil
  then show ?case by (subst free_parts.simps) simp
next
  case (Cons x xs)
  obtain b k r j cs where x: "x = ((b, k), (r, j), cs)" by (metis prod.exhaust)
  let ?nx = "load32 (mem s') (part_next b)"
  have l: "q = b" "b \<noteq> 0" "load32 (mem s') (part_name b) = r" "parts_at s' ?nx xs" using Cons.prems(2) x by simp_all
  have fr: "(r, j) \<notin> insert (b, k) (set (part_blocks xs) \<union> B)" "(b, k) \<notin> set (part_blocks xs) \<union> B" using Cons.prems(3,4) x by auto
  have "grows (insert (r, j) (insert (b, k) (set (part_blocks xs) \<union> B))) R s s'" using Cons.prems(1) x by (simp add: insert_commute)
  from grows_free [OF this fr(1)] obtain s1 where f1: "kfree r s' = Some s1" "grows (insert (b, k) (set (part_blocks xs) \<union> B)) R s s1"
    "same_outside kheap_meta (mem s') (mem s1)" .
  from grows_free [OF f1(2) fr(2)] obtain s2 where f2: "kfree b s1 = Some s2" "grows (set (part_blocks xs) \<union> B) R s s2"
    "same_outside kheap_meta (mem s1) (mem s2)" .
  have f: "same_outside kheap_meta (mem s') (mem s2)" using same_outside_trans [OF f1(3) f2(3)] by simp
  have "set (part_blocks xs) \<subseteq> kheap_live s2" using growsD(2) [OF f2(2)] by auto
  moreover from this have "\<forall>(b, k) \<in> set (part_blocks xs). region b k \<inter> kheap_meta = {}"
    using kheap_live_off_meta(1) [OF growsD(1) [OF f2(2)]] by blast
  ultimately have "parts_at s2 ?nx xs" by (rule parts_at_frame [OF f l(4)])
  then obtain s3 where f3: "free_parts ?nx s2 = Some s3" "grows B R s s3" "same_outside kheap_meta (mem s2) (mem s3)"
    using Cons.IH [OF f2(2)] Cons.prems(3,4) x by auto
  have "free_parts q s' = Some s3" using l(1-3) f1(1) f2(1) f3(1) by (subst free_parts.simps) simp
  then show ?case using f3(2) same_outside_trans [OF f f3(3)] by simp
qed

lemma path_free_ok:
  fixes s :: "'a kheap_state_scheme"
  assumes "grows (insert (q, k) (set (part_blocks xs))) R s s'" and "path_at s' q k d xs"
  shows "\<exists>s''. path_free q s' = Some s'' \<and> grows {} R s s''"
proof -
  have p: "parts_at s' (load32 (mem s') (root_path q)) xs" "distinct (part_blocks xs)" "(q, k) \<notin> set (part_blocks xs)"
    using assms(2) by (simp_all add: path_at_def)
  from free_parts_ok [of xs "{(q, k)}" R s s', OF _ p(1,2)] assms(1) p(3)
  obtain s1 where f1: "free_parts (load32 (mem s') (root_path q)) s' = Some s1" "grows {(q, k)} R s s1" by auto
  from grows_free [OF f1(2)] obtain s2 where "kfree q s1 = Some s2" "grows {} R s s2" by auto
  then show ?thesis using f1(1) by (simp add: path_free_def)
qed

section \<open>Properties\<close>

text \<open>The components are the pieces between the slashes: a list of them, joined, splits into itself.\<close>

fun join_parts :: "u8 list list \<Rightarrow> u8 list" where
  "join_parts [] = []"
| "join_parts [x] = x"
| "join_parts (x # y # ys) = x @ 0x2F # join_parts (y # ys)"

lemma first_part_append: "0x2F \<notin> set x \<Longrightarrow> first_part (x @ 0x2F # ys) = x" "0x2F \<notin> set x \<Longrightarrow> first_part x = x"
  unfolding first_part_def by (subst takeWhile_append2; auto) auto

lemma path_parts_join:
  "\<forall>x \<in> set xs. x \<noteq> [] \<and> 0x2F \<notin> set x \<Longrightarrow> path_parts (join_parts xs) = xs"
proof (induction xs rule: join_parts.induct)
  case (2 x)
  then show ?case by (subst path_parts.simps) (simp add: first_part_append(2) after_part_def path_parts.simps)
next
  case (3 x y ys)
  then show ?case by (subst path_parts.simps) (simp add: first_part_append(1) after_part_def)
qed (simp add: path_parts.simps)

text \<open>C27: parsing \<^verbatim>\<open>d:/x/y/z\<close> returns a root with the drive number and the list of the components in order,
  every node and every name in its own heap block; all these blocks are new, and nothing else in use changes.\<close>

theorem parse_builds_path:
  fixes s :: "'a kheap_state_scheme"
  assumes "kheap_inv s" and "readable s p ps" and "good_path ps" and "kheap_cap s (path_need ps)"
  shows "\<exists>q k xs s'. parse p s = Some (q, s') \<and> path_at s' q k (path_drive ps) xs \<and> part_names xs = path_parts (drop 3 ps)
    \<and> kheap_inv s' \<and> kheap_live s' = kheap_live s \<union> set ((q, k) # part_blocks xs)
    \<and> set ((q, k) # part_blocks xs) \<inter> kheap_live s = {} \<and> same_outside (heap_private s) (mem s) (mem s')"
proof -
  obtain q k xs s' where r: "parse p s = Some (q, s')" "grows (set ((q, k) # part_blocks xs)) {} s s'"
    "path_at s' q k (path_drive ps) xs" "part_names xs = path_parts (drop 3 ps)"
    using parse_ok [OF assms(1-3), of 0] assms(4) by auto
  then show ?thesis using growsD(1-4) [OF r(2)] by auto
qed

text \<open>A sample: \<^verbatim>\<open>0:/a/b\<close> at \<open>0x5000\<close>, an empty heap.\<close>

definition sample_path :: "u8 list" where
  "sample_path = [0x30, 0x3A, 0x2F, 0x61, 0x2F, 0x62]"

definition sample_path_state :: kheap_state where
  "sample_path_state = empty_kheap (taken_mem 0 (write_bytes zero_mem 0x5000 (sample_path @ [0])))"

lemma sample_path_parts: "path_parts (drop 3 sample_path) = [[0x61], [0x62]]"
  using path_parts_join [of "[[0x61], [0x62]]"] by (simp add: sample_path_def)

lemma sample_path_ok:
  shows "kheap_inv sample_path_state" and "readable sample_path_state 0x5000 sample_path" and "good_path sample_path"
    and "kheap_cap sample_path_state (path_need sample_path)"
proof -
  have h: "kernel_heap sample_path_state = the_kernel_heap" "strategy_malloc (strategy sample_path_state) = Some heap_malloc"
    "strategy_free (strategy sample_path_state) = Some heap_free"
    "mem sample_path_state = taken_mem 0 (write_bytes zero_mem 0x5000 (sample_path @ [0]))"
    by (simp_all add: sample_path_state_def empty_kheap_def)
  note t = taken_heap [OF _ h]
  show "kheap_inv sample_path_state" using t(1) by simp
  show "good_path sample_path" by (simp add: good_path_def sample_path_parts) (simp add: sample_path_def)
  have "path_need sample_path = 5" by (simp add: path_need_def sample_path_parts name_need_def blocks_for_def)
  then show "kheap_cap sample_path_state (path_need sample_path)" using t(3) [of 5] by simp
  let ?m = "write_bytes zero_mem 0x5000 (sample_path @ [0])"
  have off: "region 0x5000 (Suc (length sample_path)) \<inter> (kheap_meta \<union> heap_area) = {}"
    by (auto simp: kheap_meta_def table_region_def heap_area_def region_interval sample_path_def)
  have "cstring ?m 0x5000 sample_path" by (rule cstring_write) (simp_all add: sample_path_def)
  moreover have "same_outside (region 0x7E00 25600) ?m (taken_mem 0 ?m)" using taken_mem_outside [of 0] by (simp add: same_outside_def)
  moreover have "region 0x5000 (Suc (length sample_path)) \<inter> region 0x7E00 25600 = {}"
    by (auto simp: region_interval sample_path_def)
  ultimately have "cstring (taken_mem 0 ?m) 0x5000 sample_path" using cstring_frame by blast
  then show "readable sample_path_state 0x5000 sample_path" using off by (auto simp: readable_def h(4) heap_private_def)
qed

theorem parse_builds_path_witness:
  "\<exists>q k xs s'. parse 0x5000 sample_path_state = Some (q, s') \<and> path_at s' q k 0 xs \<and> part_names xs = [[0x61], [0x62]]"
  using parse_builds_path [OF sample_path_ok] sample_path_parts by (auto simp: path_drive_def sample_path_def)

text \<open>C28: \<^verbatim>\<open>free\<close> undoes \<^verbatim>\<open>parse\<close>: afterwards the blocks live before the parse are live, no others, and the heap
  has the room it had.\<close>

theorem parse_free_roundtrip:
  fixes s :: "'a kheap_state_scheme"
  assumes "kheap_inv s" and "readable s p ps" and "good_path ps" and "kheap_cap s (path_need ps)"
  shows "\<exists>q s' s''. parse p s = Some (q, s') \<and> path_free q s' = Some s'' \<and> kheap_inv s'' \<and> kheap_live s'' = kheap_live s
    \<and> {n. kheap_cap s'' n} = {n. kheap_cap s n} \<and> same_outside (heap_private s) (mem s) (mem s'')"
proof -
  obtain q k xs s' where r: "parse p s = Some (q, s')" "grows (insert (q, k) (set (part_blocks xs))) {} s s'"
    "path_at s' q k (path_drive ps) xs" using parse_ok [OF assms(1-3), of 0] assms(4) by auto
  obtain s'' where f: "path_free q s' = Some s''" "grows {} {} s s''" using path_free_ok [OF r(2,3)] by blast
  have l: "kheap_inv s''" "kheap_live s'' = kheap_live s" using growsD(1,2) [OF f(2)] by simp_all
  have "{n. kheap_cap s'' n} = {n. kheap_cap s n}"
    using kheap_cap_live [OF assms(1) l(1) l(2) [symmetric]] kheap_cap_live [OF l(1) assms(1) l(2)] by blast
  then show ?thesis using r(1) f(1) l growsD(4) [OF f(2)] by auto
qed

theorem parse_free_roundtrip_witness:
  "\<exists>q s' s''. parse 0x5000 sample_path_state = Some (q, s') \<and> path_free q s' = Some s'' \<and> kheap_live s'' = kheap_live sample_path_state"
  using parse_free_roundtrip [OF sample_path_ok] by blast

text \<open>C29: a path that is too long or does not begin with digit, colon, slash is answered with a null pointer,
  and nothing is allocated or written.\<close>

theorem parse_rejects:
  fixes s :: "'a kheap_state_scheme"
  assumes "cstring (mem s) p ps" and "length ps < 2 ^ 32"
    and "4096 < length ps \<or> length ps < 3 \<or> unat (ps ! 0) < 48 \<or> 57 < unat (ps ! 0) \<or> ps ! 1 \<noteq> 0x3A \<or> ps ! 2 \<noteq> 0x2F"
  shows "parse p s = Some (0, s)"
proof -
  have "strlen (mem s) p = Some (of_nat (length ps))" "MAX_PATH_LENGTH < of_nat (length ps) \<longleftrightarrow> 4096 < length ps"
    using strlen_cstring [OF assms(1)] assms(2) by (simp_all add: kernel_consts word_less_nat_alt unat_of_nat32)
  then show ?thesis using validate_path_string [OF assms(1,2)] assms(3) by (auto simp: parse_def)
qed

theorem parse_rejects_witness:
  "parse 0x5000 (empty_kheap (write_bytes zero_mem 0x5000 [0x61, 0x62, 0])) = Some (0, empty_kheap (write_bytes zero_mem 0x5000 [0x61, 0x62, 0]))"
proof (rule parse_rejects)
  show "cstring (mem (empty_kheap (write_bytes zero_mem 0x5000 [0x61, 0x62, 0]))) 0x5000 [0x61, 0x62]"
    using cstring_write [of "[0x61, 0x62]"] by (simp add: empty_kheap_def)
qed simp_all

text \<open>At an empty component, where the path goes on with a slash, \<^verbatim>\<open>parse_path_part\<close> adds a node with a
  null name and does not move on: the path pointer it leaves is the one it was given.\<close>

lemma empty_part_stalls:
  fixes s :: "'a kheap_state_scheme"
  assumes "kheap_inv s" and "kheap_cap s 1" and "mem s p = 0x2F" and "p \<notin> heap_private s"
  shows "\<exists>q s'. parse_path_part 0 p s = Some (q, p, s') \<and> load32 (mem s') (part_name q) = 0 \<and> mem s' p = 0x2F
    \<and> kheap_live s \<subset> kheap_live s'"
proof -
  have b: "blocks_for 8 = 1" by (simp add: blocks_for_def)
  obtain q k m1 where a: "kzalloc 8 s = Some (q, s\<lparr>mem := m1\<rparr>)" "grows {(q, k)} {} s (s\<lparr>mem := m1\<rparr>)"
    "unat (8 :: u32) \<le> k" "region q k \<subseteq> heap_private s"
    using grows_alloc [OF assms(1,2), of 8] unfolding b by (metis order_refl)
  let ?m2 = "store32 (store32 m1 (part_name q) 0) (part_next q) 0"
  have "part_length_loop (mem s) p 0 = Some (p, 0)" using assms(3) by (subst part_length_loop.simps) simp
  then have run: "parse_path_part 0 p s = Some (q, p, s\<lparr>mem := ?m2\<rparr>)"
    using a(1) by (simp add: parse_path_part_def get_path_part_str_def sizeof_path_part_def)
  have k: "region q 8 \<subseteq> region q k" using a(3) by (intro region_mono) simp
  have f: "same_outside (region q k) m1 ?m2"
    by (rule same_outside_mono [OF same_outside_trans [OF store32_outside store32_outside]]) (use part_fields_in(1,2) [of q] k in auto)
  have mt: "region q k \<inter> kheap_meta = {}" using kheap_live_off_meta(1) [OF growsD(1) [OF a(2)]] growsD(2) [OF a(2)] by blast
  note st = grows_store(1) [OF growsD(1) [OF a(2)], of "region q k" ?m2, simplified, OF f mt]
  have g: "grows {(q, k)} {} s (s\<lparr>mem := ?m2\<rparr>)" using grows_trans [OF a(2) st] a(4) by simp
  have "?m2 p = mem s p" using same_outsideD [OF growsD(4) [OF g], of p] assms(4) by simp
  moreover have "load32 ?m2 (part_name q) = 0" by (simp add: path_fields field_other_base)
  moreover have "kheap_live s \<subset> kheap_live (s\<lparr>mem := ?m2\<rparr>)" using growsD(2,3) [OF g] by auto
  ultimately show ?thesis using run assms(3) by (intro exI [of _ q] exI [of _ "s\<lparr>mem := ?m2\<rparr>"]) simp
qed

end
