(* ===== verification/Fat16.thy ===== *)
theory Fat16
  imports File_Types Path_Parser
begin

text \<open>
  \<^verbatim>\<open>kernel/fs/fat/fat16.cpp\<close>: the FAT16 driver, read only. The boot sector's header, the root directory and three
  streams live in a \<^verbatim>\<open>fat_private\<close> block of 92 bytes that the disk points to; directory items are the 32 byte
  records of the disk.

  The state holds the address of the global \<^verbatim>\<open>fat16_fs\<close>, of the literal \<^verbatim>\<open>"FAT16"\<close>, and of the three local
  variables whose address is taken: the directory item and the FAT entry that a stream reads into, and
  the buffer for a file name. No two activations of the same function are ever live together, so one
  address for each is enough.
\<close>

section \<open>Layout\<close>

record fat_state = disk_state +
  fat16_fs :: u32
  fat16_literal :: u32
  item_local :: u32
  fat_entry_local :: u32
  filename_local :: u32

definition FAT16_SIGNATURE :: u8 where
  [kernel_consts]: "FAT16_SIGNATURE = 0x29"

definition FAT16_FAT_ENTRY_SIZE :: u32 where
  [kernel_consts]: "FAT16_FAT_ENTRY_SIZE = 2"

definition FAT16_FAT_RESERVED_CLUSTER_START :: u32 where
  [kernel_consts]: "FAT16_FAT_RESERVED_CLUSTER_START = 0xFFF0"

definition FAT16_FAT_RESERVED_CLUSTER_END :: u32 where
  [kernel_consts]: "FAT16_FAT_RESERVED_CLUSTER_END = 0xFFF6"

definition FAT16_FAT_BAD_SECTOR :: u32 where
  [kernel_consts]: "FAT16_FAT_BAD_SECTOR = 0xFFF7"

definition FAT16_FAT_LAST_CLUSTER_IN_FILE_START :: u32 where
  [kernel_consts]: "FAT16_FAT_LAST_CLUSTER_IN_FILE_START = 0xFFF8"

definition FAT16_FAT_LAST_CLUSTER_IN_FILE_END :: u32 where
  [kernel_consts]: "FAT16_FAT_LAST_CLUSTER_IN_FILE_END = 0xFFFF"

definition FAT16_UNUSED :: u32 where
  [kernel_consts]: "FAT16_UNUSED = 0"

definition FAT_ITEM_TYPE_DIRECTORY :: u32 where
  [kernel_consts]: "FAT_ITEM_TYPE_DIRECTORY = 0"

definition FAT_ITEM_TYPE_FILE :: u32 where
  [kernel_consts]: "FAT_ITEM_TYPE_FILE = 1"

definition FAT_FILE_SUBDIRECTORY :: u8 where
  [kernel_consts]: "FAT_FILE_SUBDIRECTORY = 0x10"

text \<open>The packed headers: \<^verbatim>\<open>fat_header\<close> is 36 bytes, \<^verbatim>\<open>fat_header_extened\<close> 26 behind it.\<close>

definition header_sectors_per_cluster :: "u32 \<Rightarrow> u32" where
  "header_sectors_per_cluster p = p + 13"

definition header_reserved_sectors :: "u32 \<Rightarrow> u32" where
  "header_reserved_sectors p = p + 14"

definition header_fat_copies :: "u32 \<Rightarrow> u32" where
  "header_fat_copies p = p + 16"

definition header_root_dir_entries :: "u32 \<Rightarrow> u32" where
  "header_root_dir_entries p = p + 17"

definition header_sectors_per_fat :: "u32 \<Rightarrow> u32" where
  "header_sectors_per_fat p = p + 22"

definition header_signature :: "u32 \<Rightarrow> u32" where
  "header_signature p = p + 38"

definition sizeof_fat_h :: u32 where
  [kernel_consts]: "sizeof_fat_h = 62"

definition item_ext :: "u32 \<Rightarrow> u32" where
  "item_ext it = it + 8"

definition item_attribute :: "u32 \<Rightarrow> u32" where
  "item_attribute it = it + 11"

definition item_hi_16bits_first_cluster :: "u32 \<Rightarrow> u32" where
  "item_hi_16bits_first_cluster it = it + 20"

definition item_lo_16bits_first_cluster :: "u32 \<Rightarrow> u32" where
  "item_lo_16bits_first_cluster it = it + 26"

definition item_filesize :: "u32 \<Rightarrow> u32" where
  "item_filesize it = it + 28"

definition sizeof_fat_directory_item :: u32 where
  [kernel_consts]: "sizeof_fat_directory_item = 32"

definition directory_item :: "u32 \<Rightarrow> u32" where
  "directory_item dir = dir"

definition directory_total :: "u32 \<Rightarrow> u32" where
  "directory_total dir = dir + 4"

definition directory_sector_pos :: "u32 \<Rightarrow> u32" where
  "directory_sector_pos dir = dir + 8"

definition directory_sector_pos_end :: "u32 \<Rightarrow> u32" where
  "directory_sector_pos_end dir = dir + 12"

definition sizeof_fat_directory :: u32 where
  [kernel_consts]: "sizeof_fat_directory = 16"

text \<open>A \<^verbatim>\<open>fat_item\<close>: the union of the two pointers, then the type.\<close>

definition item_pointer :: "u32 \<Rightarrow> u32" where
  "item_pointer item = item"

definition item_type :: "u32 \<Rightarrow> u32" where
  "item_type item = item + 4"

definition sizeof_fat_item :: u32 where
  [kernel_consts]: "sizeof_fat_item = 8"

definition item_descriptor_item :: "u32 \<Rightarrow> u32" where
  "item_descriptor_item desc = desc"

definition item_descriptor_pos :: "u32 \<Rightarrow> u32" where
  "item_descriptor_pos desc = desc + 4"

definition sizeof_fat_item_descriptor :: u32 where
  [kernel_consts]: "sizeof_fat_item_descriptor = 8"

text \<open>\<^verbatim>\<open>fat_private\<close>: the header at 0, two bytes of padding, the root directory, the streams.\<close>

definition private_root_directory :: "u32 \<Rightarrow> u32" where
  "private_root_directory p = p + 64"

definition cluster_read_stream :: "u32 \<Rightarrow> u32" where
  "cluster_read_stream p = p + 80"

definition fat_read_stream :: "u32 \<Rightarrow> u32" where
  "fat_read_stream p = p + 84"

definition directory_read_stream :: "u32 \<Rightarrow> u32" where
  "directory_read_stream p = p + 88"

definition sizeof_fat_private :: u32 where
  [kernel_consts]: "sizeof_fat_private = 92"

lemmas fat_fields = header_sectors_per_cluster_def header_reserved_sectors_def header_fat_copies_def
  header_root_dir_entries_def header_sectors_per_fat_def header_signature_def item_ext_def item_attribute_def
  item_hi_16bits_first_cluster_def item_lo_16bits_first_cluster_def item_filesize_def directory_item_def
  directory_total_def directory_sector_pos_def directory_sector_pos_end_def item_pointer_def item_type_def
  item_descriptor_item_def item_descriptor_pos_def private_root_directory_def cluster_read_stream_def
  fat_read_stream_def directory_read_stream_def

section \<open>Private data and items\<close>

text \<open>\<^verbatim>\<open>sizeof(private_data)\<close> is the size of the pointer.\<close>

definition init_fat_private :: "u32 \<Rightarrow> u32 \<Rightarrow> 'a fat_state_scheme \<Rightarrow> 'a fat_state_scheme option" where
  "init_fat_private d private_data s = do {
     let s = s\<lparr>mem := memset (mem s) private_data 0 4\<rparr>;
     (st, s) \<leftarrow> new_stream (load32 (mem s) (disk_id d)) s;
     let s = s\<lparr>mem := store32 (mem s) (cluster_read_stream private_data) st\<rparr>;
     (st, s) \<leftarrow> new_stream (load32 (mem s) (disk_id d)) s;
     let s = s\<lparr>mem := store32 (mem s) (fat_read_stream private_data) st\<rparr>;
     (st, s) \<leftarrow> new_stream (load32 (mem s) (disk_id d)) s;
     Some (s\<lparr>mem := store32 (mem s) (directory_read_stream private_data) st\<rparr>)
   }"

definition close_fat_private :: "u32 \<Rightarrow> 'a fat_state_scheme \<Rightarrow> 'a fat_state_scheme option" where
  "close_fat_private private_data s = do {
     s \<leftarrow> stream_close (load32 (mem s) (cluster_read_stream private_data)) s;
     s \<leftarrow> stream_close (load32 (mem s) (fat_read_stream private_data)) s;
     stream_close (load32 (mem s) (directory_read_stream private_data)) s
   }"

definition clone_directory_item :: "u32 \<Rightarrow> u32 \<Rightarrow> 'a fat_state_scheme \<Rightarrow> (u32 \<times> 'a fat_state_scheme) option" where
  "clone_directory_item it sz s =
     (if sz < sizeof_fat_directory_item then Some (0, s)
      else do {
        (copy, s) \<leftarrow> kzalloc sz s;
        Some (if copy = 0 then (0, s) else (copy, s\<lparr>mem := snd (memcpy (mem s) copy it sz)\<rparr>))
      })"

text \<open>\<^verbatim>\<open>directory->item[num_items] = *clone_directory_item(&item, sizeof(fat_directory_item))\<close>: the right side first.\<close>

definition put_directory_item :: "u32 \<Rightarrow> u32 \<Rightarrow> 'a fat_state_scheme \<Rightarrow> 'a fat_state_scheme option" where
  "put_directory_item dir num_items s = do {
     (copy, s) \<leftarrow> clone_directory_item (item_local s) sizeof_fat_directory_item s;
     let dst = load32 (mem s) (directory_item dir) + num_items * sizeof_fat_directory_item;
     Some (s\<lparr>mem := write_bytes (mem s) dst (load_bytes (mem s) copy 32)\<rparr>)
   }"

partial_function (option) count_items_loop ::
  "u32 \<Rightarrow> u32 \<Rightarrow> u32 \<Rightarrow> 'a fat_state_scheme \<Rightarrow> (u32 \<times> 'a fat_state_scheme) option" where
  "count_items_loop directory_stream dir num_items s =
     Option.bind (stream_read directory_stream (item_local s) sizeof_fat_directory_item s) (\<lambda>(result, s).
       if result \<noteq> 0 then Some (result, s)
       else if mem s (item_local s) = 0x00 then Some (num_items, s)
       else if mem s (item_local s) = 0xE5 then count_items_loop directory_stream dir num_items s
       else Option.bind (if dir \<noteq> 0 then put_directory_item dir num_items s else Some s) (\<lambda>s.
         count_items_loop directory_stream dir (num_items + 1) s))"

definition get_directory_total_items :: "u32 \<Rightarrow> u32 \<Rightarrow> u32 \<Rightarrow> 'a fat_state_scheme \<Rightarrow> (u32 \<times> 'a fat_state_scheme) option" where
  "get_directory_total_items d directory_start_sector dir s = do {
     let private_data = load32 (mem s) (disk_fs_private_data d);
     let directory_start_pos = directory_start_sector * load32 (mem s) (disk_sector_size d);
     let directory_stream = load32 (mem s) (directory_read_stream private_data);
     let (result, s) = stream_seek directory_stream directory_start_pos s;
     if result \<noteq> 0 then Some (result, s) else count_items_loop directory_stream dir 0 s
   }"

section \<open>Clusters\<close>

definition get_fat_entry :: "u32 \<Rightarrow> u32 \<Rightarrow> 'a fat_state_scheme \<Rightarrow> (u32 \<times> 'a fat_state_scheme) option" where
  "get_fat_entry d cluster s = do {
     let private_data = load32 (mem s) (disk_fs_private_data d);
     let fat_stream = load32 (mem s) (fat_read_stream private_data);
     if fat_stream = 0 then Some (- 1, s)
     else do {
       let first_fat_sector = ucast (load16 (mem s) (header_reserved_sectors private_data));
       let fat_table_pos = first_fat_sector * load32 (mem s) (disk_sector_size d);
       let (res, s) = stream_seek fat_stream (fat_table_pos + cluster * FAT16_FAT_ENTRY_SIZE) s;
       if res <s 0 then Some (res, s)
       else do {
         let s = s\<lparr>mem := store16 (mem s) (fat_entry_local s) 0\<rparr>;
         (res, s) \<leftarrow> stream_read fat_stream (fat_entry_local s) 2 s;
         Some (if res <s 0 then (res, s) else (ucast (load16 (mem s) (fat_entry_local s)), s))
       }
     }
   }"

definition get_first_cluster :: "mem \<Rightarrow> u32 \<Rightarrow> u32" where
  "get_first_cluster m it =
     ucast (load16 m (item_hi_16bits_first_cluster it)) OR ucast (load16 m (item_lo_16bits_first_cluster it))"

text \<open>The tests of the loop on an entry of the table: what is not the number of a next cluster.\<close>

definition fat_entry_ends :: "u32 \<Rightarrow> bool" where
  "fat_entry_ends fat_entry \<longleftrightarrow>
     FAT16_FAT_LAST_CLUSTER_IN_FILE_START \<le>s fat_entry \<and> fat_entry \<le>s FAT16_FAT_LAST_CLUSTER_IN_FILE_END
     \<or> fat_entry = FAT16_FAT_BAD_SECTOR
     \<or> FAT16_FAT_RESERVED_CLUSTER_START \<le>s fat_entry \<and> fat_entry \<le>s FAT16_FAT_RESERVED_CLUSTER_END
     \<or> fat_entry = FAT16_UNUSED"

function get_cluster_loop ::
  "u32 \<Rightarrow> u32 \<Rightarrow> u32 \<Rightarrow> u32 \<Rightarrow> 'a fat_state_scheme \<Rightarrow> (u32 \<times> 'a fat_state_scheme) option" where
  "get_cluster_loop d cluster_offset idx cluster s =
     (if idx <s cluster_offset then
        (case get_fat_entry d cluster s of None \<Rightarrow> None
         | Some (fat_entry, s) \<Rightarrow>
             if fat_entry <s 0 then Some (fat_entry, s)
             else if fat_entry_ends fat_entry then Some (- EIO, s)
             else get_cluster_loop d cluster_offset (idx + 1) fat_entry s)
      else Some (cluster, s))"
  by pat_completeness auto
termination
  by (relation "measure (\<lambda>(d, n, i, c, s). nat (sint n - sint i))") (auto simp: loop_measure_signed)

declare get_cluster_loop.simps [simp del]

definition cluster_size_bytes :: "u32 \<Rightarrow> u32 \<Rightarrow> mem \<Rightarrow> u32" where
  "cluster_size_bytes d private_data m =
     ucast (m (header_sectors_per_cluster private_data)) * load32 m (disk_sector_size d)"

definition get_cluster :: "u32 \<Rightarrow> u32 \<Rightarrow> u32 \<Rightarrow> 'a fat_state_scheme \<Rightarrow> (u32 \<times> 'a fat_state_scheme) option" where
  "get_cluster d starting_cluster offset s =
     (let private_data = load32 (mem s) (disk_fs_private_data d);
          cluster_size = cluster_size_bytes d private_data (mem s)
      in if idiv_faults offset cluster_size then None
         else get_cluster_loop d (int_div offset cluster_size) 0 starting_cluster s)"

definition cluster_to_sector :: "mem \<Rightarrow> u32 \<Rightarrow> u32 \<Rightarrow> u32" where
  "cluster_to_sector m private_data cluster =
     load32 m (directory_sector_pos_end (private_root_directory private_data))
     + (cluster - 2) * ucast (m (header_sectors_per_cluster private_data))"

partial_function (option) read_clusters_loop ::
  "u32 \<Rightarrow> u32 \<Rightarrow> u32 \<Rightarrow> u32 \<Rightarrow> u32 \<Rightarrow> u32 \<Rightarrow> u32 \<Rightarrow> u32 \<Rightarrow> u32 \<Rightarrow> u32 \<Rightarrow> 'a fat_state_scheme
    \<Rightarrow> (u32 \<times> 'a fat_state_scheme) option" where
  "read_clusters_loop d stream private_data cluster_size starting_cluster offset total_bytes output bytes_read res s =
     (if bytes_read <s total_bytes then
        Option.bind (get_cluster d starting_cluster offset s) (\<lambda>(cluster, s).
          if cluster <s 0 then Some (cluster, s)
          else if idiv_faults offset cluster_size then None
          else
            (let offset_from_cluster = int_mod offset cluster_size;
                 starting_sector = cluster_to_sector (mem s) private_data cluster;
                 starting_pos = starting_sector * load32 (mem s) (disk_sector_size d) + offset_from_cluster;
                 bytes_remaining = total_bytes - bytes_read;
                 total_to_read = (if cluster_size <s bytes_remaining then cluster_size else bytes_remaining);
                 (res, s) = stream_seek stream starting_pos s
             in if res <s 0 then Some (res, s)
                else Option.bind (stream_read stream output total_to_read s) (\<lambda>(res, s).
                  if res <s 0 then Some (res, s)
                  else read_clusters_loop d stream private_data cluster_size starting_cluster offset total_bytes output
                    (bytes_read + total_to_read) res s)))
      else Some (res, s))"

definition read_internal_from_stream ::
  "u32 \<Rightarrow> u32 \<Rightarrow> u32 \<Rightarrow> u32 \<Rightarrow> u32 \<Rightarrow> u32 \<Rightarrow> 'a fat_state_scheme \<Rightarrow> (u32 \<times> 'a fat_state_scheme) option" where
  "read_internal_from_stream d stream starting_cluster offset total_bytes output s =
     (let private_data = load32 (mem s) (disk_fs_private_data d)
      in read_clusters_loop d stream private_data (cluster_size_bytes d private_data (mem s)) starting_cluster offset
           total_bytes output 0 0 s)"

definition read_internal :: "u32 \<Rightarrow> u32 \<Rightarrow> u32 \<Rightarrow> u32 \<Rightarrow> u32 \<Rightarrow> 'a fat_state_scheme \<Rightarrow> (u32 \<times> 'a fat_state_scheme) option" where
  "read_internal d starting_cluster offset total_bytes output s =
     (let private_data = load32 (mem s) (disk_fs_private_data d);
          cluster_stream = load32 (mem s) (cluster_read_stream private_data)
      in read_internal_from_stream d cluster_stream starting_cluster offset total_bytes output s)"

section \<open>Directories\<close>

text \<open>The fields of the directory are read anew in every turn, as in the source.\<close>

partial_function (option) directory_free_loop :: "u32 \<Rightarrow> u32 \<Rightarrow> 'a fat_state_scheme \<Rightarrow> 'a fat_state_scheme option" where
  "directory_free_loop dir idx s =
     (if idx <s load32 (mem s) (directory_total dir) then
        (let it = load32 (mem s) (directory_item dir) + idx * sizeof_fat_directory_item in
         Option.bind (if it \<noteq> 0 then kfree it s else Some s) (\<lambda>s. directory_free_loop dir (idx + 1) s))
      else Some s)"

definition directory_free :: "u32 \<Rightarrow> 'a fat_state_scheme \<Rightarrow> 'a fat_state_scheme option" where
  "directory_free dir s =
     (if dir \<noteq> 0 then do { s \<leftarrow> directory_free_loop dir 0 s; kfree dir s } else Some s)"

definition item_free :: "u32 \<Rightarrow> 'a fat_state_scheme \<Rightarrow> 'a fat_state_scheme option" where
  "item_free item s = do {
     let type = load32 (mem s) (item_type item);
     s \<leftarrow> (if type = FAT_ITEM_TYPE_DIRECTORY then directory_free (load32 (mem s) (item_pointer item)) s
       else if type = FAT_ITEM_TYPE_FILE then kfree (load32 (mem s) (item_pointer item)) s
       else Some s);
     kfree item s
   }"

definition item_descriptor_free :: "u32 \<Rightarrow> 'a fat_state_scheme \<Rightarrow> 'a fat_state_scheme option" where
  "item_descriptor_free item_desc s = do {
     s \<leftarrow> item_free (load32 (mem s) (item_descriptor_item item_desc)) s;
     kfree item_desc s
   }"

definition is_subdirectory :: "mem \<Rightarrow> u32 \<Rightarrow> bool" where
  "is_subdirectory m it \<longleftrightarrow> m (item_attribute it) AND FAT_FILE_SUBDIRECTORY \<noteq> 0"

definition load_directory :: "u32 \<Rightarrow> u32 \<Rightarrow> 'a fat_state_scheme \<Rightarrow> (u32 \<times> 'a fat_state_scheme) option" where
  "load_directory d it s =
     (if \<not> is_subdirectory (mem s) it then Some (0, s)
      else do {
        let private_data = load32 (mem s) (disk_fs_private_data d);
        (dir, s) \<leftarrow> kzalloc sizeof_fat_directory s;
        if dir = 0 then Some (0, s)
        else do {
          let cluster = get_first_cluster (mem s) it;
          let sector = cluster_to_sector (mem s) private_data cluster;
          (total_items, s) \<leftarrow> get_directory_total_items d sector 0 s;
          let s = s\<lparr>mem := store32 (mem s) (directory_total dir) total_items\<rparr>;
          let directory_size = load32 (mem s) (directory_total dir) * sizeof_fat_directory_item;
          (items, s) \<leftarrow> kzalloc directory_size s;
          let s = s\<lparr>mem := store32 (mem s) (directory_item dir) items\<rparr>;
          if items = 0 then do { s \<leftarrow> directory_free dir s; Some (0, s) }
          else do {
            (res, s) \<leftarrow> read_internal d cluster 0 directory_size (load32 (mem s) (directory_item dir)) s;
            if res <s 0 then do { s \<leftarrow> directory_free dir s; Some (0, s) }
            else Some (dir, s)
          }
        }
      })"

definition new_item :: "u32 \<Rightarrow> u32 \<Rightarrow> 'a fat_state_scheme \<Rightarrow> (u32 \<times> 'a fat_state_scheme) option" where
  "new_item d it s = do {
     (item, s) \<leftarrow> kzalloc sizeof_fat_item s;
     if item = 0 then Some (0, s)
     else if is_subdirectory (mem s) it then do {
       (dir, s) \<leftarrow> load_directory d it s;
       let s = s\<lparr>mem := store32 (mem s) (item_pointer item) dir\<rparr>;
       Some (item, s\<lparr>mem := store32 (mem s) (item_type item) FAT_ITEM_TYPE_DIRECTORY\<rparr>)
     }
     else do {
       let s = s\<lparr>mem := store32 (mem s) (item_type item) FAT_ITEM_TYPE_FILE\<rparr>;
       (copy, s) \<leftarrow> clone_directory_item it sizeof_fat_directory_item s;
       Some (item, s\<lparr>mem := store32 (mem s) (item_pointer item) copy\<rparr>)
     }
   }"

section \<open>Names\<close>

text \<open>The pointer \<^verbatim>\<open>*out\<close> is passed in and returned with the memory.\<close>

function copy_name_loop :: "u32 \<Rightarrow> u32 \<Rightarrow> u32 \<Rightarrow> u32 \<Rightarrow> mem \<Rightarrow> u32 \<times> mem" where
  "copy_name_loop src in_length idx out m =
     (if idx <s in_length \<and> m (src + idx) \<noteq> 0x00 \<and> m (src + idx) \<noteq> 0x20
      then copy_name_loop src in_length (idx + 1) (out + 1) (m(out := m (src + idx)))
      else (out, m))"
  by pat_completeness auto
termination
  by (relation "measure (\<lambda>(src, n, i, out, m). nat (sint n - sint i))") (auto simp: loop_measure_signed)

declare copy_name_loop.simps [simp del]

definition get_space_terminated_string :: "u32 \<Rightarrow> u32 \<Rightarrow> u32 \<Rightarrow> mem \<Rightarrow> u32 \<times> mem" where
  "get_space_terminated_string out src in_length m =
     (let (out, m) = copy_name_loop src in_length 0 out m
      in (out, if m out = 0x20 then m(out := 0x00) else m))"

definition get_filename :: "u32 \<Rightarrow> u32 \<Rightarrow> u32 \<Rightarrow> mem \<Rightarrow> mem" where
  "get_filename it out max_length m =
     (let m = memset m out 0x00 max_length;
          (out_tmp, m) = get_space_terminated_string out it 8 m
      in if m (item_ext it) \<noteq> 0x00 \<and> m (item_ext it) \<noteq> 0x20
         then snd (get_space_terminated_string (out_tmp + 1) (item_ext it) 3 (m(out_tmp := 0x2E)))
         else m)"

partial_function (option) find_item_loop ::
  "u32 \<Rightarrow> u32 \<Rightarrow> u32 \<Rightarrow> u32 \<Rightarrow> 'a fat_state_scheme \<Rightarrow> (u32 \<times> 'a fat_state_scheme) option" where
  "find_item_loop d dir name item_idx s =
     (if item_idx <s load32 (mem s) (directory_total dir) then
        (let it = load32 (mem s) (directory_item dir) + item_idx * sizeof_fat_directory_item;
             s = s\<lparr>mem := get_filename it (filename_local s) FS_MAX_PATH_SIZE (mem s)\<rparr>
         in Option.bind (strcasecmp (mem s) (filename_local s) name) (\<lambda>r.
              if r = 0 then new_item d (load32 (mem s) (directory_item dir) + item_idx * sizeof_fat_directory_item) s
              else find_item_loop d dir name (item_idx + 1) s))
      else Some (0, s))"

definition find_item_in_directory :: "u32 \<Rightarrow> u32 \<Rightarrow> u32 \<Rightarrow> 'a fat_state_scheme \<Rightarrow> (u32 \<times> 'a fat_state_scheme) option" where
  "find_item_in_directory d dir name s = find_item_loop d dir name 0 s"

partial_function (option) get_item_loop :: "u32 \<Rightarrow> u32 \<Rightarrow> u32 \<Rightarrow> 'a fat_state_scheme \<Rightarrow> (u32 \<times> 'a fat_state_scheme) option" where
  "get_item_loop d current_item next_part s =
     (if next_part \<noteq> 0 then
        (if load32 (mem s) (item_type current_item) \<noteq> FAT_ITEM_TYPE_DIRECTORY then Some (0, s)
         else Option.bind (find_item_in_directory d (load32 (mem s) (item_pointer current_item))
                             (load32 (mem s) (part_name next_part)) s) (\<lambda>(tmp_item, s).
              Option.bind (item_free current_item s) (\<lambda>s.
                get_item_loop d tmp_item (load32 (mem s) (part_next next_part)) s)))
      else Some (current_item, s))"

definition get_item :: "u32 \<Rightarrow> u32 \<Rightarrow> 'a fat_state_scheme \<Rightarrow> (u32 \<times> 'a fat_state_scheme) option" where
  "get_item d part s = do {
     let private_data = load32 (mem s) (disk_fs_private_data d);
     (root_item, s) \<leftarrow> find_item_in_directory d (private_root_directory private_data) (load32 (mem s) (part_name part)) s;
     if root_item = 0 then Some (0, s)
     else get_item_loop d root_item (load32 (mem s) (part_next part)) s
   }"

text \<open>The root directory. The number of sectors rounded up is computed in the source and not used.\<close>

definition get_root_directory :: "u32 \<Rightarrow> u32 \<Rightarrow> u32 \<Rightarrow> 'a fat_state_scheme \<Rightarrow> (u32 \<times> 'a fat_state_scheme) option" where
  "get_root_directory d private_data dir s = do {
     let root_dir_sector_pos = ucast (mem s (header_fat_copies private_data))
           * ucast (load16 (mem s) (header_sectors_per_fat private_data))
           + ucast (load16 (mem s) (header_reserved_sectors private_data));
     let root_dir_entries = load16 (mem s) (header_root_dir_entries private_data);
     let root_dir_size = ucast root_dir_entries * sizeof_fat_directory_item;
     if load32 (mem s) (disk_sector_size d) = 0 then None
     else do {
       (directory_total_items, s) \<leftarrow> get_directory_total_items d root_dir_sector_pos dir s;
       if directory_total_items <s 0 then Some (directory_total_items, s)
       else do {
         let s = s\<lparr>mem := store32 (mem s) (directory_total dir) directory_total_items\<rparr>;
         let s = s\<lparr>mem := store32 (mem s) (directory_sector_pos dir) root_dir_sector_pos\<rparr>;
         let sector_size = load32 (mem s) (disk_sector_size d);
         if sector_size = 0 then None
         else Some (0, s\<lparr>mem := store32 (mem s) (directory_sector_pos_end dir) (root_dir_sector_pos + root_dir_size div sector_size)\<rparr>)
       }
     }
   }"

section \<open>The driver's operations\<close>

definition fat16_init :: "'a fat_state_scheme \<Rightarrow> (u32 \<times> 'a fat_state_scheme) option" where
  "fat16_init s = do {
     (_, m) \<leftarrow> strcpy (mem s) (fs_name (fat16_fs s)) (fat16_literal s);
     Some (fat16_fs s, s\<lparr>mem := m\<rparr>)
   }"

definition fat16_open :: "u32 \<Rightarrow> u32 \<Rightarrow> u32 \<Rightarrow> 'a fat_state_scheme \<Rightarrow> (u32 \<times> 'a fat_state_scheme) option" where
  "fat16_open d path mode s =
     (if mode \<noteq> FILE_MODE_READ then Some (- EROFS, s)
      else do {
        (desc, s) \<leftarrow> kzalloc sizeof_fat_item_descriptor s;
        if desc = 0 then Some (- ENOMEM, s)
        else do {
          (item, s) \<leftarrow> get_item d path s;
          let s = s\<lparr>mem := store32 (mem s) (item_descriptor_item desc) item\<rparr>;
          if load32 (mem s) (item_descriptor_item desc) = 0 then Some (- EIO, s)
          else Some (desc, s\<lparr>mem := store32 (mem s) (item_descriptor_pos desc) 0\<rparr>)
        }
      })"

definition fat16_read :: "u32 \<Rightarrow> u32 \<Rightarrow> u32 \<Rightarrow> u32 \<Rightarrow> u32 \<Rightarrow> 'a fat_state_scheme \<Rightarrow> (u32 \<times> 'a fat_state_scheme) option" where
  "fat16_read d private_data block_size num_blocks output s =
     (let item = load32 (mem s) (item_descriptor_item private_data);
          offset = load32 (mem s) (item_descriptor_pos private_data)
      in if load32 (mem s) (item_type item) \<noteq> FAT_ITEM_TYPE_FILE then Some (- EINVAL, s)
         else read_internal d (get_first_cluster (mem s) (load32 (mem s) (item_pointer item))) offset
           (block_size * num_blocks) output s)"

definition fat16_seek :: "u32 \<Rightarrow> u32 \<Rightarrow> u32 \<Rightarrow> 'a fat_state_scheme \<Rightarrow> u32 \<times> 'a fat_state_scheme" where
  "fat16_seek private_data offset seek_mode s =
     (let file_offset = item_descriptor_pos private_data in
      if load32 (mem s) (item_type (load32 (mem s) (item_descriptor_item private_data))) \<noteq> FAT_ITEM_TYPE_FILE then (- EINVAL, s)
      else if seek_mode = SEEK_SET then (0, s\<lparr>mem := store32 (mem s) file_offset offset\<rparr>)
      else if seek_mode = SEEK_END then (- EINVAL, s)
      else if seek_mode = SEEK_CURRENT then (0, s\<lparr>mem := store32 (mem s) file_offset (load32 (mem s) file_offset + offset)\<rparr>)
      else (- EINVAL, s))"

definition fat16_stat :: "u32 \<Rightarrow> u32 \<Rightarrow> u32 \<Rightarrow> 'a fat_state_scheme \<Rightarrow> u32 \<times> 'a fat_state_scheme" where
  "fat16_stat d private_data stat s =
     (let item = load32 (mem s) (item_descriptor_item private_data) in
      if load32 (mem s) (item_type item) \<noteq> FAT_ITEM_TYPE_FILE then (- EINVAL, s)
      else
        (let file_item = load32 (mem s) (item_pointer item);
             s = s\<lparr>mem := store32 (mem s) (stat_filesize stat) (load32 (mem s) (item_filesize file_item))\<rparr>
         in (0, if ucast (mem s (item_attribute file_item)) AND FILE_STAT_READ_ONLY \<noteq> 0
                then s\<lparr>mem := store32 (mem s) (stat_flags stat) FILE_STAT_READ_ONLY\<rparr> else s)))"

definition fat16_close :: "u32 \<Rightarrow> 'a fat_state_scheme \<Rightarrow> (u32 \<times> 'a fat_state_scheme) option" where
  "fat16_close private_data s =
     (if load32 (mem s) (item_type (load32 (mem s) (item_descriptor_item private_data))) \<noteq> FAT_ITEM_TYPE_FILE
      then Some (- EINVAL, s)
      else do { s \<leftarrow> item_descriptor_free private_data s; Some (0, s) })"

text \<open>What \<^verbatim>\<open>fat16_resolve\<close> does between the creation of its stream and the label \<^verbatim>\<open>out\<close>, and from there on.\<close>

definition resolve_read :: "u32 \<Rightarrow> u32 \<Rightarrow> u32 \<Rightarrow> 'a fat_state_scheme \<Rightarrow> (u32 \<times> 'a fat_state_scheme) option" where
  "resolve_read d private_data stream s = do {
     (result, s) \<leftarrow> stream_read stream private_data sizeof_fat_h s;
     if result \<noteq> 0 then Some (result, s)
     else if mem s (header_signature private_data) \<noteq> FAT16_SIGNATURE then Some (- EFSNOTPRESENT, s)
     else get_root_directory d private_data (private_root_directory private_data) s
   }"

definition resolve_out :: "u32 \<Rightarrow> u32 \<Rightarrow> u32 \<Rightarrow> u32 \<Rightarrow> 'a fat_state_scheme \<Rightarrow> (u32 \<times> 'a fat_state_scheme) option" where
  "resolve_out d private_data stream result s = do {
     s \<leftarrow> (if stream \<noteq> 0 then stream_close stream s else Some s);
     if result <s 0 \<and> private_data \<noteq> 0 then do {
       s \<leftarrow> close_fat_private private_data s;
       s \<leftarrow> kfree private_data s;
       let s = s\<lparr>mem := store32 (mem s) (disk_fs d) 0\<rparr>;
       Some (result, s\<lparr>mem := store32 (mem s) (disk_fs_private_data d) 0\<rparr>)
     }
     else Some (result, s)
   }"

definition fat16_resolve :: "u32 \<Rightarrow> 'a fat_state_scheme \<Rightarrow> (u32 \<times> 'a fat_state_scheme) option" where
  "fat16_resolve d s = do {
     (private_data, s) \<leftarrow> kzalloc sizeof_fat_private s;
     s \<leftarrow> init_fat_private d private_data s;
     let s = s\<lparr>mem := store32 (mem s) (disk_fs_private_data d) private_data\<rparr>;
     let s = s\<lparr>mem := store32 (mem s) (disk_fs d) (fat16_fs s)\<rparr>;
     (stream, s) \<leftarrow> new_stream (load32 (mem s) (disk_id d)) s;
     (result, s) \<leftarrow> (if stream = 0 then Some (- ENOMEM, s) else resolve_read d private_data stream s);
     resolve_out d private_data stream result s
   }"

end
