(* ===== verification/File.thy ===== *)
theory File
  imports Fat16
begin

text \<open>
  \<^verbatim>\<open>kernel/fs/file.cpp\<close>: the virtual file system, and \<^verbatim>\<open>search_and_initialize\<close> of \<^verbatim>\<open>kernel/disk/disk.cpp\<close>, which
  depends on it. The tables of file systems and of descriptors are arrays of 512 pointers among the
  kernel's globals; the state holds their addresses, those of the string literals, and the addresses
  the linker gave to the functions of the FAT16 driver. A call through a function pointer runs the
  function whose address it is; a call to any other address does not return (\<^term>\<open>None\<close>).
\<close>

section \<open>Definitions\<close>

record file_state = fat_state +
  filesystems :: u32
  file_descriptors :: u32
  literal_r :: u32
  literal_w :: u32
  literal_a :: u32
  literal_insert_error :: u32
  fat16_open_address :: u32
  fat16_read_address :: u32
  fat16_seek_address :: u32
  fat16_stat_address :: u32
  fat16_close_address :: u32
  fat16_resolve_address :: u32

text \<open>The initialiser of \<^verbatim>\<open>fat16_fs\<close>: what the image of the kernel holds at its address.\<close>

definition fat16_fs_initialised :: "'a file_state_scheme \<Rightarrow> bool" where
  "fat16_fs_initialised s \<longleftrightarrow>
     load32 (mem s) (fs_open (fat16_fs s)) = fat16_open_address s
     \<and> load32 (mem s) (fs_read (fat16_fs s)) = fat16_read_address s
     \<and> load32 (mem s) (fs_seek (fat16_fs s)) = fat16_seek_address s
     \<and> load32 (mem s) (fs_stat (fat16_fs s)) = fat16_stat_address s
     \<and> load32 (mem s) (fs_close (fat16_fs s)) = fat16_close_address s
     \<and> load32 (mem s) (fs_resolve (fat16_fs s)) = fat16_resolve_address s"

text \<open>Calls through the pointers of a \<^verbatim>\<open>filesystem\<close>.\<close>

definition call_open :: "u32 \<Rightarrow> u32 \<Rightarrow> u32 \<Rightarrow> u32 \<Rightarrow> 'a file_state_scheme \<Rightarrow> (u32 \<times> 'a file_state_scheme) option" where
  "call_open fn d path mode s = (if fn = fat16_open_address s then fat16_open d path mode s else None)"

definition call_read :: "u32 \<Rightarrow> u32 \<Rightarrow> u32 \<Rightarrow> u32 \<Rightarrow> u32 \<Rightarrow> u32 \<Rightarrow> 'a file_state_scheme \<Rightarrow> (u32 \<times> 'a file_state_scheme) option" where
  "call_read fn d private_data block_size num_blocks output s =
     (if fn = fat16_read_address s then fat16_read d private_data block_size num_blocks output s else None)"

definition call_seek :: "u32 \<Rightarrow> u32 \<Rightarrow> u32 \<Rightarrow> u32 \<Rightarrow> 'a file_state_scheme \<Rightarrow> (u32 \<times> 'a file_state_scheme) option" where
  "call_seek fn private_data offset seek_mode s =
     (if fn = fat16_seek_address s then Some (fat16_seek private_data offset seek_mode s) else None)"

definition call_stat :: "u32 \<Rightarrow> u32 \<Rightarrow> u32 \<Rightarrow> u32 \<Rightarrow> 'a file_state_scheme \<Rightarrow> (u32 \<times> 'a file_state_scheme) option" where
  "call_stat fn d private_data stat s =
     (if fn = fat16_stat_address s then Some (fat16_stat d private_data stat s) else None)"

definition call_close :: "u32 \<Rightarrow> u32 \<Rightarrow> 'a file_state_scheme \<Rightarrow> (u32 \<times> 'a file_state_scheme) option" where
  "call_close fn private_data s = (if fn = fat16_close_address s then fat16_close private_data s else None)"

definition call_resolve :: "u32 \<Rightarrow> u32 \<Rightarrow> 'a file_state_scheme \<Rightarrow> (u32 \<times> 'a file_state_scheme) option" where
  "call_resolve fn d s = (if fn = fat16_resolve_address s then fat16_resolve d s else None)"

text \<open>The address of the first null entry of the table, or null.\<close>

function free_filesystem_loop :: "mem \<Rightarrow> u32 \<Rightarrow> u32 \<Rightarrow> u32" where
  "free_filesystem_loop m tab idx =
     (if idx < FS_MAX_FILESYSTEMS then
        (if load32 m (tab + 4 * idx) = 0 then tab + 4 * idx else free_filesystem_loop m tab (idx + 1))
      else 0)"
  by pat_completeness auto
termination
  by (relation "measure (\<lambda>(m, tab, idx). unat FS_MAX_FILESYSTEMS - unat idx)") (auto simp: loop_measure)

definition get_free_filesystem :: "'a file_state_scheme \<Rightarrow> u32" where
  "get_free_filesystem s = free_filesystem_loop (mem s) (filesystems s) 0"

definition insert_filesystem :: "u32 \<Rightarrow> 'a file_state_scheme \<Rightarrow> 'a file_state_scheme option" where
  "insert_filesystem fs s =
     (let fs_ptr = get_free_filesystem s in
      if fs_ptr = 0 then Option.bind (terminal_write (literal_insert_error s) s) (\<lambda>_. None)
      else do {
        s \<leftarrow> terminal_write (fs_name fs) s;
        Some (s\<lparr>mem := store32 (mem s) fs_ptr fs\<rparr>)
      })"

definition load :: "'a file_state_scheme \<Rightarrow> 'a file_state_scheme option" where
  "load s = do {
     let s = s\<lparr>mem := memset (mem s) (filesystems s) 0 (4 * FS_MAX_FILESYSTEMS)\<rparr>;
     (fs, s) \<leftarrow> fat16_init s;
     insert_filesystem fs s
   }"

text \<open>\<^verbatim>\<open>sizeof(file_descriptor)\<close> is the size of one descriptor, not of the table.\<close>

definition fs_init :: "'a file_state_scheme \<Rightarrow> 'a file_state_scheme option" where
  "fs_init s = load (s\<lparr>mem := memset (mem s) (file_descriptors s) 0 sizeof_file_descriptor\<rparr>)"

definition get_file_descriptor :: "u32 \<Rightarrow> 'a file_state_scheme \<Rightarrow> u32" where
  "get_file_descriptor fd s =
     (if fd <s 0 \<or> FS_MAX_FILE_DESCRIPTORS \<le>s fd then 0 else load32 (mem s) (file_descriptors s + 4 * fd))"

text \<open>The result, the descriptor stored to \<^verbatim>\<open>*out_file_descriptor\<close> (0 when none is), and the state.\<close>

function new_file_descriptor_loop :: "u32 \<Rightarrow> 'a file_state_scheme \<Rightarrow> (u32 \<times> u32 \<times> 'a file_state_scheme) option" where
  "new_file_descriptor_loop idx s =
     (if idx <s FS_MAX_FILE_DESCRIPTORS then
        (if load32 (mem s) (file_descriptors s + 4 * idx) = 0 then
           (case kzalloc sizeof_file_descriptor s of None \<Rightarrow> None
            | Some (desc, s) \<Rightarrow>
                (let s = s\<lparr>mem := store32 (mem s) (descriptor_index desc) idx\<rparr>;
                     s = s\<lparr>mem := store32 (mem s) (file_descriptors s + 4 * idx) desc\<rparr>
                 in Some (0, desc, s)))
         else new_file_descriptor_loop (idx + 1) s)
      else Some (- ENOMEM, 0, s))"
  by pat_completeness auto
termination
  by (relation "measure (\<lambda>(idx, s). nat (sint FS_MAX_FILE_DESCRIPTORS - sint idx))") (auto simp: loop_measure_signed)

definition new_file_descriptor :: "'a file_state_scheme \<Rightarrow> (u32 \<times> u32 \<times> 'a file_state_scheme) option" where
  "new_file_descriptor s = new_file_descriptor_loop 0 s"

declare free_filesystem_loop.simps [simp del] new_file_descriptor_loop.simps [simp del]

definition str_2_filemode :: "u32 \<Rightarrow> 'a file_state_scheme \<Rightarrow> u32" where
  "str_2_filemode str s =
     (if strncmp (mem s) str (literal_r s) 1 = 0 then FILE_MODE_READ
      else if strncmp (mem s) str (literal_w s) 1 = 0 then FILE_MODE_WRITE
      else if strncmp (mem s) str (literal_a s) 1 = 0 then FILE_MODE_APPEND
      else FILE_MODE_INVALID)"

definition fopen :: "u32 \<Rightarrow> u32 \<Rightarrow> 'a file_state_scheme \<Rightarrow> (u32 \<times> 'a file_state_scheme) option" where
  "fopen filename mode s = do {
     (root, s) \<leftarrow> parse filename s;
     if root = 0 then Some (- EINVAL, s)
     else if load32 (mem s) (root_path root) = 0 then Some (- EINVAL, s)
     else do {
       let d = get_disk (load32 (mem s) (root_drive_number root)) s;
       if d = 0 then Some (- EIO, s)
       else if load32 (mem s) (disk_fs d) = 0 then Some (- EIO, s)
       else do {
         let filemode = str_2_filemode mode s;
         if filemode = FILE_MODE_INVALID then Some (- EINVAL, s)
         else do {
           (descriptor_private, s) \<leftarrow>
             call_open (load32 (mem s) (fs_open (load32 (mem s) (disk_fs d)))) d (load32 (mem s) (root_path root)) filemode s;
           if ISERR descriptor_private then Some (descriptor_private, s)
           else do {
             (result, desc, s) \<leftarrow> new_file_descriptor s;
             if result <s 0 then Some (result, s)
             else do {
               let s = s\<lparr>mem := store32 (mem s) (descriptor_d desc) d\<rparr>;
               let s = s\<lparr>mem := store32 (mem s) (descriptor_fs desc) (load32 (mem s) (disk_fs d))\<rparr>;
               let s = s\<lparr>mem := store32 (mem s) (descriptor_private_data desc) descriptor_private\<rparr>;
               Some (load32 (mem s) (descriptor_index desc), s)
             }
           }
         }
       }
     }
   }"

definition fread :: "u32 \<Rightarrow> u32 \<Rightarrow> u32 \<Rightarrow> u32 \<Rightarrow> 'a file_state_scheme \<Rightarrow> (u32 \<times> 'a file_state_scheme) option" where
  "fread dat block_size num_blocks fd s =
     (if block_size = 0 \<or> num_blocks = 0 \<or> fd <s 0 then Some (- EINVAL, s)
      else
        (let file_desc = get_file_descriptor fd s in
         if file_desc = 0 then Some (- EINVAL, s)
         else call_read (load32 (mem s) (fs_read (load32 (mem s) (descriptor_fs file_desc))))
           (load32 (mem s) (descriptor_d file_desc)) (load32 (mem s) (descriptor_private_data file_desc))
           block_size num_blocks dat s))"

definition fseek :: "u32 \<Rightarrow> u32 \<Rightarrow> u32 \<Rightarrow> 'a file_state_scheme \<Rightarrow> (u32 \<times> 'a file_state_scheme) option" where
  "fseek fd offset whence s =
     (if fd <s 0 then Some (- EINVAL, s)
      else
        (let file_desc = get_file_descriptor fd s in
         if file_desc = 0 then Some (- EINVAL, s)
         else call_seek (load32 (mem s) (fs_seek (load32 (mem s) (descriptor_fs file_desc))))
           (load32 (mem s) (descriptor_private_data file_desc)) offset whence s))"

definition fstat :: "u32 \<Rightarrow> u32 \<Rightarrow> 'a file_state_scheme \<Rightarrow> (u32 \<times> 'a file_state_scheme) option" where
  "fstat fd stat s =
     (if fd <s 0 then Some (- EINVAL, s)
      else
        (let file_desc = get_file_descriptor fd s in
         if file_desc = 0 then Some (- EINVAL, s)
         else call_stat (load32 (mem s) (fs_stat (load32 (mem s) (descriptor_fs file_desc))))
           (load32 (mem s) (descriptor_d file_desc)) (load32 (mem s) (descriptor_private_data file_desc)) stat s))"

definition fclose :: "u32 \<Rightarrow> 'a file_state_scheme \<Rightarrow> (u32 \<times> 'a file_state_scheme) option" where
  "fclose fd s =
     (if fd <s 0 then Some (- EINVAL, s)
      else
        (let file_desc = get_file_descriptor fd s in
         if file_desc = 0 then Some (- EINVAL, s)
         else call_close (load32 (mem s) (fs_close (load32 (mem s) (descriptor_fs file_desc))))
           (load32 (mem s) (descriptor_private_data file_desc)) s))"

text \<open>\<^verbatim>\<open>resolve\<close>: the entries are read as the loop comes to them.\<close>

function resolve_loop :: "u32 \<Rightarrow> u32 \<Rightarrow> 'a file_state_scheme \<Rightarrow> (u32 \<times> 'a file_state_scheme) option" where
  "resolve_loop d idx s =
     (if idx < FS_MAX_FILESYSTEMS then
        (let fs = load32 (mem s) (filesystems s + 4 * idx) in
         if fs \<noteq> 0 then
           (case call_resolve (load32 (mem s) (fs_resolve fs)) d s of None \<Rightarrow> None
            | Some (r, s) \<Rightarrow> if r = 0 then Some (load32 (mem s) (filesystems s + 4 * idx), s) else resolve_loop d (idx + 1) s)
         else resolve_loop d (idx + 1) s)
      else Some (0, s))"
  by pat_completeness auto
termination
  by (relation "measure (\<lambda>(d, idx, s). unat FS_MAX_FILESYSTEMS - unat idx)") (auto simp: loop_measure)

declare resolve_loop.simps [simp del]

definition resolve :: "u32 \<Rightarrow> 'a file_state_scheme \<Rightarrow> (u32 \<times> 'a file_state_scheme) option" where
  "resolve d s = resolve_loop d 0 s"

definition REAL_PHYSICAL :: u32 where
  [kernel_consts]: "REAL_PHYSICAL = 0"

definition search_and_initialize :: "'a file_state_scheme \<Rightarrow> 'a file_state_scheme option" where
  "search_and_initialize s = do {
     let s = s\<lparr>mem := memset (mem s) (primary_disk s) 0 sizeof_disk\<rparr>;
     let s = s\<lparr>mem := store32 (mem s) (disk_type (primary_disk s)) REAL_PHYSICAL\<rparr>;
     let s = s\<lparr>mem := store32 (mem s) (disk_sector_size (primary_disk s)) DISK_BLOCK_SIZE\<rparr>;
     let s = s\<lparr>mem := store32 (mem s) (disk_id (primary_disk s)) 0\<rparr>;
     (fs, s) \<leftarrow> resolve (primary_disk s) s;
     Some (s\<lparr>mem := store32 (mem s) (disk_fs (primary_disk s)) fs\<rparr>)
   }"

end
