(* ===== verification/Process.thy ===== *)
theory Process
  imports File
begin

text \<open>
  \<^verbatim>\<open>kernel/arch/i386/task/process.cpp\<close>: loading a program from a file into a process. A \<^verbatim>\<open>process\<close> is 4372 bytes
  in memory: the number, the name, the task, a table of 1024 allocations, and the program's memory and
  stack. The state holds the current process, the address of the table of 512 processes, and the
  address of the local \<^verbatim>\<open>file_stat\<close> of \<^verbatim>\<open>load_binary\<close>.
\<close>

section \<open>Definitions\<close>

record process_state = file_state +
  current_process :: u32
  processes :: u32
  stat_local :: u32

definition process_pid :: "u32 \<Rightarrow> u32" where
  "process_pid proc = proc"

definition process_name :: "u32 \<Rightarrow> u32" where
  "process_name proc = proc + 2"

definition process_allocations :: "u32 \<Rightarrow> u32" where
  "process_allocations proc = proc + 264"

definition process_phys_mem :: "u32 \<Rightarrow> u32" where
  "process_phys_mem proc = proc + 4360"

definition process_size :: "u32 \<Rightarrow> u32" where
  "process_size proc = proc + 4364"

definition process_stack :: "u32 \<Rightarrow> u32" where
  "process_stack proc = proc + 4368"

definition sizeof_process :: u32 where
  [kernel_consts]: "sizeof_process = 4372"

lemmas process_fields = process_pid_def process_name_def process_task_def process_allocations_def
  process_phys_mem_def process_size_def process_stack_def

definition init_process :: "u32 \<Rightarrow> mem \<Rightarrow> mem" where
  "init_process proc m = memset m proc 0x00 sizeof_process"

text \<open>What \<^verbatim>\<open>load_binary\<close> does up to the label \<^verbatim>\<open>out\<close>, once the file is open.\<close>

definition load_program :: "u32 \<Rightarrow> u32 \<Rightarrow> 'a process_state_scheme \<Rightarrow> (u32 \<times> 'a process_state_scheme) option" where
  "load_program fd proc s = do {
     (result, s) \<leftarrow> fstat fd (stat_local s) s;
     if result \<noteq> 0 then Some (result, s)
     else do {
       (program_data_ptr, s) \<leftarrow> kzalloc (load32 (mem s) (stat_filesize (stat_local s))) s;
       if program_data_ptr = 0 then Some (- ENOMEM, s)
       else do {
         (r, s) \<leftarrow> fread program_data_ptr 1 (load32 (mem s) (stat_filesize (stat_local s))) fd s;
         if r \<noteq> 1 then Some (- EIO, s)
         else do {
           let s = s\<lparr>mem := store32 (mem s) (process_phys_mem proc) program_data_ptr\<rparr>;
           let s = s\<lparr>mem := store32 (mem s) (process_size proc) (load32 (mem s) (stat_filesize (stat_local s)))\<rparr>;
           Some (result, s)
         }
       }
     }
   }"

definition load_binary :: "u32 \<Rightarrow> u32 \<Rightarrow> 'a process_state_scheme \<Rightarrow> (u32 \<times> 'a process_state_scheme) option" where
  "load_binary filename proc s = do {
     (fd, s) \<leftarrow> fopen filename (literal_r s) s;
     (result, s) \<leftarrow> (if fd <s 0 then Some (- EIO, s) else load_program fd proc s);
     (close_result, s) \<leftarrow> fclose fd s;
     Some (if close_result \<noteq> 0 then close_result else result, s)
   }"

definition load_data :: "u32 \<Rightarrow> u32 \<Rightarrow> 'a process_state_scheme \<Rightarrow> (u32 \<times> 'a process_state_scheme) option" where
  "load_data filename proc s = load_binary filename proc s"

definition mmap_binary :: "u32 \<Rightarrow> mem \<Rightarrow> u32 \<times> mem" where
  "mmap_binary proc m =
     (let page_directory = load32 m (load32 m (task_page_directory (load32 m (process_task proc))));
          virt = PROGRAM_VIRTUAL_ADDRESS;
          phys_ptr = load32 m (process_phys_mem proc);
          phys_end = paging_align (phys_ptr + load32 m (process_size proc));
          flags = ucast (PAGING_IS_PRESENT OR PAGING_ACCESS_FROM_ALL OR PAGING_IS_WRITABLE)
      in paging_map page_directory virt (load32 m (process_phys_mem proc)) phys_end flags m)"

definition mmap_process :: "u32 \<Rightarrow> mem \<Rightarrow> u32 \<times> mem" where
  "mmap_process proc m = mmap_binary proc m"

definition get_current_process :: "'a process_state_scheme \<Rightarrow> u32" where
  "get_current_process s = current_process s"

definition get_process :: "u32 \<Rightarrow> 'a process_state_scheme \<Rightarrow> u32" where
  "get_process pid s =
     (if pid <s 0 \<or> MAX_PROCESSES \<le>s pid then - EINVAL else load32 (mem s) (processes s + 4 * pid))"

text \<open>The allocations up to the first null pointer.\<close>

function free_allocations :: "u32 \<Rightarrow> u32 \<Rightarrow> 'a process_state_scheme \<Rightarrow> 'a process_state_scheme option" where
  "free_allocations proc idx s =
     (if idx < PROGRAM_MAX_ALLOCATIONS then
        (let allocation = load32 (mem s) (process_allocations proc + 4 * idx) in
         if allocation \<noteq> 0 then
           (case kfree allocation s of None \<Rightarrow> None | Some s \<Rightarrow> free_allocations proc (idx + 1) s)
         else Some s)
      else Some s)"
  by pat_completeness auto
termination
  by (relation "measure (\<lambda>(proc, idx, s). unat PROGRAM_MAX_ALLOCATIONS - unat idx)") (auto simp: loop_measure)

declare free_allocations.simps [simp del]

definition free_process :: "u32 \<Rightarrow> 'a process_state_scheme \<Rightarrow> 'a process_state_scheme option" where
  "free_process proc s = do {
     s \<leftarrow> (if load32 (mem s) (process_task proc) \<noteq> 0 then free_task (load32 (mem s) (process_task proc)) s else Some s);
     s \<leftarrow> free_allocations proc 0 s;
     s \<leftarrow> (if load32 (mem s) (process_phys_mem proc) \<noteq> 0 then kfree (load32 (mem s) (process_phys_mem proc)) s else Some s);
     s \<leftarrow> (if load32 (mem s) (process_stack proc) \<noteq> 0 then kfree (load32 (mem s) (process_stack proc)) s else Some s);
     kfree proc s
   }"

text \<open>What \<^verbatim>\<open>load_process\<close> does behind \<^verbatim>\<open>load_data\<close> up to the label \<^verbatim>\<open>out\<close>. The pid is stored in 16 bits.\<close>

definition start_process :: "u32 \<Rightarrow> u32 \<Rightarrow> u32 \<Rightarrow> u32 \<Rightarrow> 'a process_state_scheme \<Rightarrow> (u32 \<times> 'a process_state_scheme) option" where
  "start_process filename tmp_proc proc pid s = do {
     (program_stack_ptr, s) \<leftarrow> kzalloc PROGRAM_USER_PROGRAM_STACK_SIZE s;
     if program_stack_ptr = 0 then Some (- ENOMEM, s)
     else do {
       let s = s\<lparr>mem := snd (strncpy (mem s) (process_name tmp_proc) filename FS_MAX_PATH_SIZE)\<rparr>;
       let s = s\<lparr>mem := store32 (mem s) (process_stack tmp_proc) program_stack_ptr\<rparr>;
       let s = s\<lparr>mem := store16 (mem s) (process_pid tmp_proc) (ucast pid)\<rparr>;
       (task, s) \<leftarrow> new_task tmp_proc s;
       if task = 0 then Some (task, s)
       else do {
         let s = s\<lparr>mem := store32 (mem s) (process_task tmp_proc) task\<rparr>;
         let (result, m) = mmap_process tmp_proc (mem s);
         let s = s\<lparr>mem := store32 m proc tmp_proc\<rparr>;
         Some (result, s\<lparr>mem := store32 (mem s) (processes s + 4 * pid) tmp_proc\<rparr>)
       }
     }
   }"

definition load_process :: "u32 \<Rightarrow> u32 \<Rightarrow> u32 \<Rightarrow> 'a process_state_scheme \<Rightarrow> (u32 \<times> 'a process_state_scheme) option" where
  "load_process filename proc pid s =
     (if get_process pid s \<noteq> 0 then Some (- EINVAL, s)
      else do {
        (tmp_proc, s) \<leftarrow> kzalloc sizeof_process s;
        if tmp_proc = 0 then Some (- ENOMEM, s)
        else do {
          let s = s\<lparr>mem := init_process tmp_proc (mem s)\<rparr>;
          (result, s) \<leftarrow> load_data filename tmp_proc s;
          (result, s) \<leftarrow> (if result <s 0 then Some (result, s) else start_process filename tmp_proc proc pid s);
          if result <s 0 \<and> tmp_proc \<noteq> 0 then do { s \<leftarrow> free_process tmp_proc s; Some (result, s) }
          else Some (result, s)
        }
      })"

end
