(* ===== verification/File_Correct.thy ===== *)
theory File_Correct
  imports File
begin

text \<open>
  The virtual file system's descriptor table and modes. The table is the list \<open>fd_table\<close> of 512 pointers;
  opening a file fills its lowest empty slot, and a number outside the table or of an empty slot is
  refused by every operation.
\<close>

section \<open>The descriptor table\<close>

definition fd_table :: "'a file_state_scheme \<Rightarrow> u32 list" where
  "fd_table s = map (\<lambda>i. load32 (mem s) (elem_addr (file_descriptors s) 4 i)) [0..<512]"

definition fd_region :: "'a file_state_scheme \<Rightarrow> u32 set" where
  "fd_region s = region (file_descriptors s) 2048"

lemma fd_table_simps [simp]: "length (fd_table s) = 512"
  "i < 512 \<Longrightarrow> fd_table s ! i = load32 (mem s) (elem_addr (file_descriptors s) 4 i)"
  by (simp_all add: fd_table_def)

lemma slot_addr: "p + 4 * of_nat i = elem_addr p 4 i"
  by (simp add: elem_addr_def mult.commute)

lemma get_file_descriptor_eq:
  "get_file_descriptor fd s = (if 0 \<le> sint fd \<and> sint fd < 512 then fd_table s ! unat fd else 0)"
proof -
  have "fd <s 0 \<or> FS_MAX_FILE_DESCRIPTORS \<le>s fd \<longleftrightarrow> \<not> (0 \<le> sint fd \<and> sint fd < 512)"
    by (auto simp: kernel_consts word_sless_alt word_sle_eq)
  moreover have "unat fd < 512" if "0 \<le> sint fd" "sint fd < 512"
  proof -
    have "int (unat fd) < int 512" using that nonneg_sint [of fd] nonneg_iff_sint [of fd] by simp
    then show ?thesis by (simp only: of_nat_less_iff)
  qed
  moreover have "file_descriptors s + 4 * fd = elem_addr (file_descriptors s) 4 (unat fd)"
    using slot_addr [of _ "unat fd"] by simp
  ultimately show ?thesis by (auto simp: get_file_descriptor_def)
qed

text \<open>The search: the first empty slot from \<open>i\<close> on.\<close>

definition fill_slot :: "nat \<Rightarrow> 'a file_state_scheme \<Rightarrow> (u32 \<times> u32 \<times> 'a file_state_scheme) option" where
  "fill_slot i s = map_option (\<lambda>(desc, s).
     (0, desc, s\<lparr>mem := store32 (store32 (mem s) (descriptor_index desc) (of_nat i)) (elem_addr (file_descriptors s) 4 i) desc\<rparr>))
     (kzalloc sizeof_file_descriptor s)"

lemma new_file_descriptor_loop_eq:
  assumes "i \<le> 512"
  shows "new_file_descriptor_loop (of_nat i) s =
    (case find (\<lambda>i. fd_table s ! i = 0) [i..<512] of None \<Rightarrow> Some (- ENOMEM, 0, s) | Some j \<Rightarrow> fill_slot j s)"
  using assms
proof (induction i rule: inc_induct)
  case base
  have "\<not> (of_nat 512 :: u32) <s FS_MAX_FILE_DESCRIPTORS" by (simp add: kernel_consts)
  then show ?case by (subst new_file_descriptor_loop.simps) simp
next
  case (step i)
  have lt: "(of_nat i :: u32) <s FS_MAX_FILE_DESCRIPTORS"
    using sless_of_nat [of i 512] step(2) by (simp add: kernel_consts)
  have up: "[i..<512] = i # [Suc i..<512]" using step(2) by (simp add: upt_conv_Cons)
  show ?case
  proof (cases "fd_table s ! i = 0")
    case True
    then show ?thesis using lt step(2)
      by (subst new_file_descriptor_loop.simps) (auto simp: up slot_addr fill_slot_def split: option.splits)
  next
    case False
    then have "new_file_descriptor_loop (of_nat i) s = new_file_descriptor_loop (of_nat (Suc i)) s"
      using lt step(2) by (subst new_file_descriptor_loop.simps) (simp add: slot_addr add.commute)
    then show ?thesis using step(3) False by (simp add: up)
  qed
qed

lemma fill_slot_ok:
  fixes s :: "'a file_state_scheme"
  assumes "kheap_inv s" and "kheap_cap s (Suc c)" and "fd_region s \<inter> (kheap_meta \<union> heap_area) = {}" and "i < 512"
  shows "\<exists>desc k s'. fill_slot i s = Some (0, desc, s') \<and> desc \<noteq> 0 \<and> fd_table s' = (fd_table s)[i := desc]
    \<and> load32 (mem s') (descriptor_index desc) = of_nat i \<and> 16 \<le> k \<and> grows {(desc, k)} (elem_region (file_descriptors s) 4 i) s s'
    \<and> kheap_cap s' c"
proof -
  have b: "blocks_for 16 = 1" by (simp add: blocks_for_def)
  obtain q k m1 where a: "kzalloc 16 s = Some (q, s\<lparr>mem := m1\<rparr>)" "grows {(q, k)} {} s (s\<lparr>mem := m1\<rparr>)"
    "unat (16 :: u32) \<le> k" "region q k \<subseteq> heap_private s" "q \<noteq> 0"
    "kheap_cap (s\<lparr>mem := m1\<rparr>) c"
    using grows_alloc [OF assms(1,2), of 16] unfolding b by (metis One_nat_def Suc_le_mono diff_Suc_1 le0)
  let ?e = "elem_region (file_descriptors s) 4 i" and ?a = "elem_addr (file_descriptors s) 4"
  let ?m2 = "store32 (store32 m1 q (of_nat i)) (?a i) q"
  note g = growsD [OF a(2)]
  have k: "16 \<le> k" using a(3) by simp
  have e: "?e \<subseteq> fd_region s" using elem_within [OF assms(4), of "file_descriptors s" 4] by (simp add: fd_region_def)
  have q4: "region q 4 \<subseteq> region q k" using k by (intro region_mono) simp
  have qh: "region q k \<subseteq> heap_area" "region q k \<inter> kheap_meta = {}"
    using live_in_heap [OF g(1), of q k] kheap_live_off_meta(1) [OF g(1), of q k] g(2) by (auto simp: heap_area_def)
  have f: "same_outside (?e \<union> region q k) m1 ?m2"
    by (rule same_outside_mono [OF same_outside_trans [OF store32_outside store32_outside]]) (use q4 in \<open>auto simp: elem_region_def\<close>)
  have "(?e \<union> region q k) \<inter> kheap_meta = {}" using e qh(2) assms(3) by blast
  with grows_store [OF g(1), of "?e \<union> region q k" ?m2] f a(6)
  have w: "grows {} (?e \<union> region q k) (s\<lparr>mem := m1\<rparr>) (s\<lparr>mem := ?m2\<rparr>)" and cap: "kheap_cap (s\<lparr>mem := ?m2\<rparr>) c" by simp_all
  from grows_trans [OF grows_mono [OF a(2), of ?e] w] have gr: "grows {(q, k)} ?e s (s\<lparr>mem := ?m2\<rparr>)" using a(4) by auto
  have "region q 4 \<inter> ?e = {}" using q4 qh(1) e assms(3) by blast
  then have ix: "load32 ?m2 q = of_nat i" using load32_frame [OF store32_outside] by (simp add: elem_region_def)
  have tab: "load32 ?m2 (?a j) = (if j = i then q else load32 (mem s) (?a j))" if j: "j < 512" for j
  proof (cases "j = i")
    case False
    have "elem_region (file_descriptors s) 4 j \<inter> ?e = {}" using elems_apart [OF j assms(4) False] by simp
    moreover have "elem_region (file_descriptors s) 4 j \<inter> heap_private s = {}"
      using elem_within [OF j, of "file_descriptors s" 4] assms(3) unfolding fd_region_def heap_private_def by auto
    ultimately have "region (?a j) 4 \<inter> (?e \<union> heap_private s) = {}" unfolding elem_region_def by blast
    from grows_load32 [OF gr this] show ?thesis using False by simp
  qed simp
  have "fd_table (s\<lparr>mem := ?m2\<rparr>) = (fd_table s)[i := q]"
    by (rule nth_equalityI) (use assms(4) tab in \<open>auto simp: nth_list_update\<close>)
  moreover have "fill_slot i s = Some (0, q, s\<lparr>mem := ?m2\<rparr>)" using a(1) by (simp add: fill_slot_def kernel_consts file_fields)
  ultimately show ?thesis using gr ix k a(5) cap
    by (intro exI [of _ q] exI [of _ k] exI [of _ "s\<lparr>mem := ?m2\<rparr>"]) (simp add: file_fields)
qed

section \<open>Modes\<close>

lemma strncmp_first:
  assumes "cstring m p xs" and "cstring m q [y]"
  shows "strncmp m p q 1 = 0 \<longleftrightarrow> xs \<noteq> [] \<and> y \<le>s hd xs"
  using strncmp_loop_cstring [OF assms, of 0 1 1]
  by (cases xs) (auto simp: strncmp_def word_sle_eq word_sless_alt not_less)

section \<open>A sample state\<close>

text \<open>An empty heap over any memory; the descriptor table at 3.5 MB.\<close>

definition sample_files :: "mem \<Rightarrow> file_state" where
  "sample_files m = fat_state.extend (disk_state.extend (sample_disk 0 m (\<lambda>_. 0)) (fat_state.fields 0x500000 0x500200 0x400000 0x400100 0x400200))
     (file_state.fields 0x390000 0x380000 0x200 0x202 0x204 0x206 0x600000 0x600001 0x600002 0x600003 0x600004 0x600005)"

lemma sample_files_fields: "mem (sample_files m) = taken_mem 0 m" "file_descriptors (sample_files m) = 0x380000"
  "literal_r (sample_files m) = 0x200" "literal_w (sample_files m) = 0x202" "literal_a (sample_files m) = 0x204"
  by (simp_all add: sample_files_def fat_state.extend_def file_state.fields_def disk_state.extend_def fat_state.fields_def sample_disk_def)

lemma sample_files_heap: "kheap_inv (sample_files m)" "kheap_cap (sample_files m) 1"
proof -
  have h: "kernel_heap (sample_files m) = the_kernel_heap" "strategy_malloc (strategy (sample_files m)) = Some heap_malloc"
    "strategy_free (strategy (sample_files m)) = Some heap_free"
    by (simp_all add: sample_files_def fat_state.extend_def file_state.fields_def disk_state.extend_def fat_state.fields_def sample_disk_def)
  note t = taken_heap [OF _ h sample_files_fields(1)]
  show "kheap_inv (sample_files m)" "kheap_cap (sample_files m) 1" using t(1) t(3) [of 1] by simp_all
qed

lemma sample_files_table: "fd_region (sample_files m) \<inter> (kheap_meta \<union> heap_area) = {}"
  by (auto simp: fd_region_def sample_files_fields kheap_meta_def table_region_def heap_area_def region_interval)

section \<open>Properties\<close>

text \<open>C32: a new descriptor goes into the lowest empty slot of the table: the slot's number is stored in a fresh
  heap block, the slot points to it, and every other slot keeps its descriptor. When no slot is empty the
  call returns \<^verbatim>\<open>-ENOMEM\<close> and changes nothing.\<close>

theorem new_file_descriptor_lowest:
  fixes s :: "'a file_state_scheme"
  assumes "kheap_inv s" and "kheap_cap s 1" and "fd_region s \<inter> (kheap_meta \<union> heap_area) = {}"
  shows "case find (\<lambda>i. fd_table s ! i = 0) [0..<512] of
      None \<Rightarrow> new_file_descriptor s = Some (- ENOMEM, 0, s)
    | Some i \<Rightarrow> \<exists>desc k s'. new_file_descriptor s = Some (0, desc, s') \<and> desc \<noteq> 0 \<and> fd_table s' = (fd_table s)[i := desc]
        \<and> get_file_descriptor (of_nat i) s' = desc \<and> load32 (mem s') (descriptor_index desc) = of_nat i
        \<and> kheap_inv s' \<and> kheap_live s' = insert (desc, k) (kheap_live s) \<and> (desc, k) \<notin> kheap_live s
        \<and> same_outside (elem_region (file_descriptors s) 4 i \<union> heap_private s) (mem s) (mem s')"
proof (cases "find (\<lambda>i. fd_table s ! i = 0) [0..<512]")
  case None
  then show ?thesis using new_file_descriptor_loop_eq [of 0 s] by (simp add: new_file_descriptor_def)
next
  case (Some i)
  then have i: "i < 512" by (auto simp: find_Some_iff)
  obtain desc k s' where r: "fill_slot i s = Some (0, desc, s')" "desc \<noteq> 0" "fd_table s' = (fd_table s)[i := desc]"
    "load32 (mem s') (descriptor_index desc) = of_nat i" "grows {(desc, k)} (elem_region (file_descriptors s) 4 i) s s'"
    using fill_slot_ok [OF assms(1) _ assms(3) i, of 0] assms(2) by auto
  have "get_file_descriptor (of_nat i) s' = desc"
    unfolding get_file_descriptor_eq r(3) using i by (simp add: sint_of_nat32 unat_of_nat32)
  moreover have "new_file_descriptor s = Some (0, desc, s')"
    using new_file_descriptor_loop_eq [of 0 s] Some r(1) by (simp add: new_file_descriptor_def)
  ultimately show ?thesis using r(2-4) growsD(1-4) [OF r(5)] Some by auto
qed

theorem new_file_descriptor_lowest_witness:
  "\<exists>desc s'. new_file_descriptor (sample_files zero_mem) = Some (0, desc, s') \<and> get_file_descriptor 0 s' = desc \<and> desc \<noteq> 0"
proof -
  have b: "taken_mem 0 zero_mem a = 0" if "unat a \<ge> 0x100000" for a
    using that by (subst taken_mem_outside) (simp_all add: region_interval)
  have "fd_table (sample_files zero_mem) ! 0 = 0"
    by (simp add: elem_addr_def sample_files_fields load32_def b)
  then have "find (\<lambda>i. fd_table (sample_files zero_mem) ! i = 0) [0..<512] = Some 0" by (subst upt_conv_Cons) simp_all
  with new_file_descriptor_lowest [OF sample_files_heap [of zero_mem] sample_files_table] show ?thesis by auto
qed

text \<open>C35: every operation on an open file refuses a number that is negative, beyond the table or of an empty slot
  with \<^verbatim>\<open>-EINVAL\<close>, and leaves the state as it was.\<close>

theorem bad_descriptor_refused:
  fixes s :: "'a file_state_scheme"
  assumes "sint fd < 0 \<or> 512 \<le> sint fd \<or> fd_table s ! unat fd = 0"
  shows "fread dat block_size num_blocks fd s = Some (- EINVAL, s) \<and> fseek fd offset whence s = Some (- EINVAL, s)
    \<and> fstat fd stat s = Some (- EINVAL, s) \<and> fclose fd s = Some (- EINVAL, s)"
proof -
  have "get_file_descriptor fd s = 0" unfolding get_file_descriptor_eq using assms by auto
  then show ?thesis by (simp add: fread_def fseek_def fstat_def fclose_def)
qed

theorem bad_descriptor_refused_witness: "fread 0x5000 1 1 600 (sample_files zero_mem) = Some (- EINVAL, sample_files zero_mem)"
  using bad_descriptor_refused [of 600 "sample_files zero_mem"] by simp

text \<open>Which mode a mode string gives: reading, when its first character is \<^verbatim>\<open>r\<close> or greater, \<^verbatim>\<open>w\<close> included;
  appending, when it is at least \<^verbatim>\<open>a\<close>; otherwise none. No string opens a file for writing.\<close>

lemma str_2_filemode_modes:
  assumes "cstring (mem s) str xs" and "cstring (mem s) (literal_r s) [0x72]" and "cstring (mem s) (literal_w s) [0x77]"
    and "cstring (mem s) (literal_a s) [0x61]"
  shows "str_2_filemode str s =
    (if xs = [] then FILE_MODE_INVALID else if 0x72 \<le>s hd xs then FILE_MODE_READ
     else if 0x61 \<le>s hd xs then FILE_MODE_APPEND else FILE_MODE_INVALID)"
  using strncmp_first [OF assms(1,2)] strncmp_first [OF assms(1,3)] strncmp_first [OF assms(1,4)]
  by (auto simp: str_2_filemode_def word_sle_eq)

end
