(* ===== verification/Process_Correct.thy ===== *)
theory Process_Correct
  imports Process File_Correct
begin

text \<open>
  What loading a program can return. A read through the file system returns 0 or an error, never the 1 that
  \<^verbatim>\<open>load_binary\<close> waits for; so no program is ever loaded, and \<^verbatim>\<open>load_process\<close> always reports an error.
\<close>

section \<open>Results of the layers\<close>

abbreviation zero_or_error :: "u32 \<Rightarrow> bool" where
  "zero_or_error r \<equiv> r = 0 \<or> r <s 0"

lemma errors_negative: "- EIO <s 0" "- EINVAL <s 0" "- ENOMEM <s 0"
  by (simp_all add: kernel_consts word_sless_alt)

lemma stream_read_result: "stream_read st out n s = Some (r, s') \<Longrightarrow> zero_or_error r"
  by (auto simp: stream_read_def Let_def Option.bind_eq_Some_conv split: if_splits)

lemma read_clusters_result:
  assumes "read_clusters_loop d st p cs c x n out b res s = Some r"
  shows "zero_or_error res \<longrightarrow> zero_or_error (fst r)"
proof (rule read_clusters_loop.raw_induct [OF _ assms, of "\<lambda>d st p cs c x n out b res s r. zero_or_error res \<longrightarrow> zero_or_error (fst r)"], goal_cases)
  case (1 loop d st p cs c x n out b res s r)
  show ?case
  proof (cases "b <s n")
    case True
    then obtain cl s1 where g: "get_cluster d c x s = Some (cl, s1)"
      using 1(2) by (auto simp: Option.bind_eq_Some_conv)
    show ?thesis
    proof (cases "cl <s 0 \<or> idiv_faults x cs")
      case False
      define k where "k = (if cs <s n - b then cs else n - b)"
      define s2 where "s2 = snd (stream_seek st (cluster_to_sector (mem s1) p cl * load32 (mem s1) (disk_sector_size d) + int_mod x cs) s1)"
      have "Option.bind (stream_read st out k s2) (\<lambda>(res, s). if res <s 0 then Some (res, s) else loop d st p cs c x n out (b + k) res s) = Some r"
        using 1(2) True g False unfolding k_def s2_def by (simp add: stream_seek_def Let_def split del: if_split)
      then obtain res' s3 where rd: "stream_read st out k s2 = Some (res', s3)"
        "(if res' <s 0 then Some (res', s3) else loop d st p cs c x n out (b + k) res' s3) = Some r" by (auto simp: Option.bind_eq_Some_conv)
      show ?thesis
      proof (cases "res' <s 0")
        case False
        then have "loop d st p cs c x n out (b + k) res' s3 = Some r" using rd(2) by simp
        from 1(1) [OF this] show ?thesis using stream_read_result [OF rd(1)] by blast
      qed (use rd(2) in auto)
    qed (use 1(2) True g in \<open>auto split: if_splits\<close>)
  qed (use 1(2) in auto)
qed

lemma read_internal_result: "read_internal d c x n out s = Some (r, s') \<Longrightarrow> zero_or_error r"
  unfolding read_internal_def read_internal_from_stream_def Let_def using read_clusters_result by fastforce

lemma fread_result: "fread dat bs nb fd s = Some (r, s') \<Longrightarrow> zero_or_error r"
  by (auto simp: fread_def call_read_def fat16_read_def Let_def errors_negative dest!: read_internal_result split: if_splits)

lemma fstat_result: "fstat fd stat s = Some (r, s') \<Longrightarrow> zero_or_error r"
  by (auto simp: fstat_def call_stat_def fat16_stat_def Let_def errors_negative split: if_splits)

lemma fseek_result: "fseek fd off whence s = Some (r, s') \<Longrightarrow> zero_or_error r"
  by (auto simp: fseek_def call_seek_def fat16_seek_def Let_def errors_negative split: if_splits)

lemma fclose_result: "fclose fd s = Some (r, s') \<Longrightarrow> zero_or_error r"
  by (auto simp: fclose_def call_close_def fat16_close_def Let_def errors_negative Option.bind_eq_Some_conv split: if_splits)

text \<open>The only way out of \<^verbatim>\<open>load_program\<close> that is not an error needs a read that returned 1.\<close>

lemma fread_not_one [simp]: "fread dat bs nb fd s \<noteq> Some (1, s')"
  using fread_result [of dat bs nb fd s 1 s'] by (auto simp: word_sless_alt)

lemma load_program_result: "load_program fd proc s = Some (r, s') \<Longrightarrow> r <s 0"
  by (auto simp: load_program_def Let_def errors_negative Option.bind_eq_Some_conv split: if_splits dest: fstat_result)

lemma load_binary_result: "load_binary filename proc s = Some (r, s') \<Longrightarrow> r <s 0"
  by (auto simp: load_binary_def errors_negative Option.bind_eq_Some_conv split: if_splits dest: fclose_result load_program_result)

section \<open>Properties\<close>

text \<open>C34: the operations on descriptors return a status and never a count: in every state, whatever the descriptor and the memory
  hold, a call of \<^verbatim>\<open>fread\<close>, \<^verbatim>\<open>fseek\<close>, \<^verbatim>\<open>fstat\<close> or \<^verbatim>\<open>fclose\<close> that returns has returned 0 or a negative number.\<close>

theorem file_operations_return_status:
  "pred_option (\<lambda>(r, _). zero_or_error r) (fread dat bs nb fd s) \<and> pred_option (\<lambda>(r, _). zero_or_error r) (fseek fd off whence s)
   \<and> pred_option (\<lambda>(r, _). zero_or_error r) (fstat fd stat s) \<and> pred_option (\<lambda>(r, _). zero_or_error r) (fclose fd s)"
  unfolding pred_option_def by (auto dest: fread_result fseek_result fstat_result fclose_result)

text \<open>\<^verbatim>\<open>load_process\<close> never succeeds: whenever it returns, its result is negative. \<^verbatim>\<open>load_binary\<close> takes the file system's
  0 for a failure, because it compares the result of \<^verbatim>\<open>fread\<close> with 1.\<close>

lemma load_process_never_succeeds:
  assumes "load_process filename proc pid s = Some (r, s')"
  shows "sint r < 0"
proof -
  have "r <s 0" using assms
    by (auto simp: load_process_def load_data_def Let_def errors_negative Option.bind_eq_Some_conv split: if_splits dest: load_binary_result)
  then show ?thesis by (simp add: word_sless_alt)
qed

end
