(* ===== verification/Gdt.thy ===== *)
theory Gdt
  imports Arrays
begin

text \<open>
  \<^verbatim>\<open>kernel/arch/i386/gdt/gdt.cpp\<close>: the encoder of segment descriptors, and the table of segments that
  \<^verbatim>\<open>kernel.cpp\<close> encodes at boot. \<^verbatim>\<open>panic\<close> never returns, so an encoder that panics is \<^term>\<open>None\<close>.

  The specification is the processor's reading of a descriptor: base and limit put together from the
  scattered fields, the limit scaled by 4 KB when the granularity bit is set. The encoder is shown to
  be a right inverse of that reading on every limit it accepts, and the loop to encode a whole table
  without touching any other memory.
\<close>

section \<open>Definitions\<close>

record structured_gdt_t =
  gdt_base :: u32
  gdt_limit :: u32
  gdt_access :: u8

definition UINT16_MAX :: u32 where
  [kernel_consts]: "UINT16_MAX = 0xffff"

definition encode_gdt_entry :: "mem \<Rightarrow> u32 \<Rightarrow> structured_gdt_t \<Rightarrow> mem option" where
  "encode_gdt_entry m target_entry source =
     (if gdt_limit source > UINT16_MAX \<and> gdt_limit source AND 0xfff \<noteq> 0xfff then None
      else
        (let m = m(target_entry + 6 := 0x40);
             limit = gdt_limit source;
             (limit, m) = (if limit > UINT16_MAX then (drop_bit 12 limit, m(target_entry + 6 := 0xc0))
                           else (limit, m));
             m = m(target_entry := ucast (limit AND 0xff));
             m = m(target_entry + 1 := ucast (drop_bit 8 limit AND 0xff));
             m = m(target_entry + 6 := m (target_entry + 6) OR ucast (drop_bit 16 limit AND 0x0f));
             m = m(target_entry + 2 := ucast (gdt_base source AND 0xff));
             m = m(target_entry + 3 := ucast (drop_bit 8 (gdt_base source) AND 0xff));
             m = m(target_entry + 4 := ucast (drop_bit 16 (gdt_base source) AND 0xff));
             m = m(target_entry + 7 := ucast (drop_bit 24 (gdt_base source) AND 0xff));
             m = m(target_entry + 5 := gdt_access source)
         in Some m))"

text \<open>The loop of \<^verbatim>\<open>structured_gdt_to_gdt\<close>. Reading past the source array is a fault.\<close>

function structured_gdt_loop ::
  "structured_gdt_t list \<Rightarrow> mem \<Rightarrow> u32 \<Rightarrow> u32 \<Rightarrow> u32 \<Rightarrow> mem option" where
  "structured_gdt_loop structured_gdt m gdt total_entries entry =
     (if entry <s total_entries then
        (if unat entry < length structured_gdt then
           (case encode_gdt_entry m (gdt + entry * 8) (structured_gdt ! unat entry) of
              None \<Rightarrow> None
            | Some m \<Rightarrow> structured_gdt_loop structured_gdt m gdt total_entries (entry + 1))
         else None)
      else Some m)"
  by pat_completeness auto
termination
  by (relation "measure (\<lambda>(g, m, p, n, i). nat (sint n - sint i))") (auto simp: loop_measure_signed)

declare structured_gdt_loop.simps [simp del]

definition structured_gdt_to_gdt ::
  "structured_gdt_t list \<Rightarrow> mem \<Rightarrow> u32 \<Rightarrow> u32 \<Rightarrow> mem option" where
  "structured_gdt_to_gdt structured_gdt m gdt total_entries =
     structured_gdt_loop structured_gdt m gdt total_entries 0"

definition sizeof_tss :: u32 where
  [kernel_consts]: "sizeof_tss = 100"

text \<open>The segments of \<^verbatim>\<open>kernel.cpp\<close>, for a task state segment at address \<open>tss\<close>.\<close>

definition kernel_structured_gdt :: "u32 \<Rightarrow> structured_gdt_t list" where
  "kernel_structured_gdt tss = [
     \<lparr>gdt_base = 0x00, gdt_limit = 0x0, gdt_access = 0x0\<rparr>,
     \<lparr>gdt_base = 0x00, gdt_limit = 0xffffffff, gdt_access = 0x9a\<rparr>,
     \<lparr>gdt_base = 0x00, gdt_limit = 0xffffffff, gdt_access = 0x92\<rparr>,
     \<lparr>gdt_base = 0x00, gdt_limit = 0xffffffff, gdt_access = 0xf8\<rparr>,
     \<lparr>gdt_base = 0x00, gdt_limit = 0xffffffff, gdt_access = 0xf2\<rparr>,
     \<lparr>gdt_base = tss, gdt_limit = sizeof_tss, gdt_access = 0xe9\<rparr>]"

section \<open>What the processor reads\<close>

definition descriptor_base :: "mem \<Rightarrow> u32 \<Rightarrow> u32" where
  "descriptor_base m p = ucast (m (p + 2)) OR push_bit 8 (ucast (m (p + 3)))
     OR push_bit 16 (ucast (m (p + 4))) OR push_bit 24 (ucast (m (p + 7)))"

definition descriptor_limit :: "mem \<Rightarrow> u32 \<Rightarrow> u32" where
  "descriptor_limit m p =
     (let l = ucast (m p) OR push_bit 8 (ucast (m (p + 1))) OR push_bit 16 (ucast (m (p + 6) AND 0x0f))
      in if bit (m (p + 6)) 7 then push_bit 12 l OR 0xfff else l)"

definition descriptor_access :: "mem \<Rightarrow> u32 \<Rightarrow> u8" where
  "descriptor_access m p = m (p + 5)"

definition descriptor :: "mem \<Rightarrow> u32 \<Rightarrow> structured_gdt_t" where
  "descriptor m p = \<lparr>gdt_base = descriptor_base m p, gdt_limit = descriptor_limit m p,
     gdt_access = descriptor_access m p\<rparr>"

definition encodable :: "structured_gdt_t \<Rightarrow> bool" where
  "encodable g \<longleftrightarrow> gdt_limit g \<le> UINT16_MAX \<or> gdt_limit g AND 0xfff = 0xfff"

section \<open>The encoder\<close>

lemma encode_gdt_entry_None: "encode_gdt_entry m p g = None \<longleftrightarrow> \<not> encodable g"
  by (auto simp: encode_gdt_entry_def encodable_def Let_def not_le split: if_splits prod.splits)

lemma base_bytes:
  fixes v :: u32
  shows "ucast (ucast (take_bit 8 v) :: u8) OR push_bit 8 (ucast (ucast (take_bit 8 (drop_bit 8 v)) :: u8))
    OR push_bit 16 (ucast (ucast (take_bit 8 (drop_bit 16 v)) :: u8))
    OR push_bit 24 (ucast (ucast (take_bit 8 (drop_bit 24 v)) :: u8)) = v" (is "?l = v")
proof (rule bit_word_eqI)
  fix n assume "n < LENGTH(32)"
  then consider "n < 8" | "8 \<le> n" "n < 16" | "16 \<le> n" "n < 24" | "24 \<le> n" "n < 32" by fastforce
  then show "bit ?l n = bit v n" by cases (auto simp: bit_simps)
qed

lemma limit_bytes:
  fixes v :: u32
  shows "ucast (ucast (take_bit 8 v) :: u8) OR push_bit 8 (ucast (ucast (take_bit 8 (drop_bit 8 v)) :: u8))
    OR push_bit 16 (ucast (take_bit 4 (ucast (take_bit 4 (drop_bit 16 v)) :: u8))) = take_bit 20 v" (is "?l = _")
proof (rule bit_word_eqI)
  fix n assume "n < LENGTH(32)"
  then consider "n < 8" | "8 \<le> n" "n < 16" | "16 \<le> n" "n < 20" | "20 \<le> n" "n < 32" by fastforce
  then show "bit ?l n = bit (take_bit 20 v) n" by cases (auto simp: bit_simps)
qed

lemma flag_bits:
  "take_bit 4 (0x40 OR x :: u8) = take_bit 4 x" "take_bit 4 (0xc0 OR x :: u8) = take_bit 4 x"
  "bit (0x40 OR ucast (take_bit 4 (v :: u32)) :: u8) 7 = False"
  "bit (0xc0 OR ucast (take_bit 4 (v :: u32)) :: u8) 7 = True"
  by (simp_all add: bit_simps)

lemma scaled_limit:
  fixes v :: u32
  assumes "take_bit 12 v = 0xfff"
  shows "push_bit 12 (take_bit 20 (drop_bit 12 v)) OR 0xfff = v"
proof -
  have "push_bit 12 (take_bit 20 (drop_bit 12 v)) OR take_bit 12 v = v"
    by (rule bit_word_eqI) (auto simp: bit_simps)
  then show ?thesis by (simp add: assms)
qed

text \<open>The bytes the encoder writes, in one step.\<close>

definition gdt_bytes :: "structured_gdt_t \<Rightarrow> u8 list" where
  "gdt_bytes g =
     (let big = gdt_limit g > UINT16_MAX; limit = (if big then drop_bit 12 (gdt_limit g) else gdt_limit g);
          b = gdt_base g in
      [ucast (take_bit 8 limit), ucast (take_bit 8 (drop_bit 8 limit)),
       ucast (take_bit 8 b), ucast (take_bit 8 (drop_bit 8 b)), ucast (take_bit 8 (drop_bit 16 b)),
       gdt_access g, (if big then 0xc0 else 0x40) OR ucast (take_bit 4 (drop_bit 16 limit)),
       ucast (take_bit 8 (drop_bit 24 b))])"

lemma encode_gdt_entry_Some:
  assumes "encodable g"
  shows "encode_gdt_entry m p g = Some (write_bytes m p (gdt_bytes g))"
  using assms by (auto simp: encode_gdt_entry_def encodable_def gdt_bytes_def Let_def and_masks
    write_bytes_Cons fun_eq_iff add.assoc)

lemma descriptor_bytes:
  assumes "load_bytes m p 8 = gdt_bytes g" and "encodable g"
  shows "descriptor m p = g"
proof -
  have b: "m p = gdt_bytes g ! 0" "m (p + 1) = gdt_bytes g ! 1" "m (p + 2) = gdt_bytes g ! 2"
    "m (p + 3) = gdt_bytes g ! 3" "m (p + 4) = gdt_bytes g ! 4" "m (p + 5) = gdt_bytes g ! 5"
    "m (p + 6) = gdt_bytes g ! 6" "m (p + 7) = gdt_bytes g ! 7"
    unfolding assms(1) [symmetric] by simp_all
  have "descriptor_base m p = gdt_base g"
    unfolding descriptor_base_def b by (simp add: gdt_bytes_def Let_def base_bytes)
  moreover have "descriptor_limit m p = gdt_limit g"
  proof -
    let ?big = "gdt_limit g > UINT16_MAX"
    define v where "v = (if ?big then drop_bit 12 (gdt_limit g) else gdt_limit g)"
    have f: "m p = ucast (take_bit 8 v)" "m (p + 1) = ucast (take_bit 8 (drop_bit 8 v))"
      "m (p + 6) = (if ?big then 0xc0 else 0x40) OR ucast (take_bit 4 (drop_bit 16 v))"
      unfolding b by (simp_all add: gdt_bytes_def Let_def v_def)
    have l: "ucast (m p) OR push_bit 8 (ucast (m (p + 1))) OR push_bit 16 (ucast (m (p + 6) AND 0x0f))
      = take_bit 20 v"
      unfolding f by (simp add: and_masks flag_bits limit_bytes)
    have g: "bit (m (p + 6)) 7 = ?big" unfolding f by (simp add: flag_bits)
    show ?thesis
    proof (cases ?big)
      case True
      with assms(2) have "take_bit 12 (gdt_limit g) = 0xfff" by (auto simp: encodable_def and_masks)
      then show ?thesis unfolding descriptor_limit_def Let_def l g using True
        by (simp only: v_def if_True scaled_limit)
    next
      case False
      then have "take_bit 20 (gdt_limit g) = gdt_limit g"
        by (intro take_bit_small) (simp_all add: kernel_consts not_less word_le_nat_alt word_less_nat_alt)
      then show ?thesis unfolding descriptor_limit_def Let_def l g using False by (simp add: v_def)
    qed
  qed
  moreover have "descriptor_access m p = gdt_access g"
    unfolding descriptor_access_def b by (simp add: gdt_bytes_def Let_def)
  ultimately show ?thesis by (simp add: descriptor_def)
qed

lemma length_gdt_bytes [simp]: "length (gdt_bytes g) = 8"
  by (simp add: gdt_bytes_def Let_def)

text \<open>Decoding inverts encoding on every accepted segment; nothing but the eight bytes is written.\<close>

lemma decode_encode:
  assumes "encode_gdt_entry m p g = Some m'"
  shows "descriptor m' p = g" and "same_outside (region p 8) m m'"
proof -
  have e: "encodable g" using assms encode_gdt_entry_None [of m p g] by auto
  have m': "m' = write_bytes m p (gdt_bytes g)" using assms encode_gdt_entry_Some [OF e] by simp
  show "descriptor m' p = g"
    using e load_write_bytes [of "gdt_bytes g" m p] by (intro descriptor_bytes) (simp_all add: m')
  show "same_outside (region p 8) m m'"
    using write_bytes_outside [of p "gdt_bytes g" m] by (simp add: m')
qed

section \<open>The table\<close>

definition write_descriptor :: "structured_gdt_t list \<Rightarrow> u32 \<Rightarrow> nat \<Rightarrow> mem \<Rightarrow> mem" where
  "write_descriptor g p i m = write_bytes m (elem_addr p 8 i) (gdt_bytes (g ! i))"

interpretation gdt_table: array_writer p 8 8192 "write_descriptor g p"
  "\<lambda>i m. load_bytes m (elem_addr p 8 i) 8 = gdt_bytes (g ! i)" for g p
proof
  fix i m m' R
  show "same_outside (elem_region p 8 i) m (write_descriptor g p i m)"
    using write_bytes_outside [of "elem_addr p 8 i" "gdt_bytes (g ! i)" m]
    by (simp add: write_descriptor_def elem_region_def)
  show "load_bytes (write_descriptor g p i m) (elem_addr p 8 i) 8 = gdt_bytes (g ! i)"
    using load_write_bytes [of "gdt_bytes (g ! i)" m "elem_addr p 8 i"] by (simp add: write_descriptor_def)
  assume "load_bytes m (elem_addr p 8 i) 8 = gdt_bytes (g ! i)"
    and "same_outside R m m'" "elem_region p 8 i \<inter> R = {}"
  then show "load_bytes m' (elem_addr p 8 i) 8 = gdt_bytes (g ! i)"
    by (simp add: load_bytes_frame elem_region_def)
qed simp

lemma structured_gdt_loop_eq:
  assumes "n \<le> length g" and "n \<le> 8192" and "\<forall>i < n. encodable (g ! i)" and "i \<le> n"
  shows "structured_gdt_loop g m p (of_nat n) (of_nat i) = Some (fold (write_descriptor g p) [i..<n] m)"
  using assms(4)
proof (induction "n - i" arbitrary: i m)
  case 0
  then show ?case using assms(2) by (subst structured_gdt_loop.simps) (simp add: word_sless_alt)
next
  case (Suc k)
  then have i: "i < n" by simp
  have "(of_nat i :: u32) <s of_nat n" using i assms(2) by (simp add: word_sless_alt sint_of_nat32)
  moreover have "unat (of_nat i :: u32) = i" using i assms(2) by (intro unat_of_nat32) simp
  moreover have "encode_gdt_entry m (p + of_nat i * 8) (g ! i) = Some (write_descriptor g p i m)"
    using i assms(3) by (simp add: encode_gdt_entry_Some write_descriptor_def elem_addr_def mult.commute)
  ultimately show ?case using i assms(1) Suc.hyps(1) [of "Suc i" "write_descriptor g p i m"] Suc.hyps(2)
    by (subst structured_gdt_loop.simps) (simp add: upt_conv_Cons add.commute)
qed

lemma structured_gdt_to_gdt_ok:
  assumes "n \<le> length g" and "n \<le> 8192" and "\<forall>i < n. encodable (g ! i)"
  obtains m' where "structured_gdt_to_gdt g m p (of_nat n) = Some m'"
    and "same_outside (region p (n * 8)) m m'"
    and "\<And>i. i < n \<Longrightarrow> descriptor m' (p + of_nat (i * 8)) = g ! i"
proof -
  let ?m = "fold (write_descriptor g p) [0..<n] m"
  have "structured_gdt_to_gdt g m p (of_nat n) = Some ?m"
    using structured_gdt_loop_eq [OF assms, of 0] by (simp add: structured_gdt_to_gdt_def)
  moreover have "same_outside (region p (n * 8)) m ?m" using assms(2) by (rule gdt_table.fill_frame)
  moreover have "descriptor ?m (p + of_nat (i * 8)) = g ! i" if "i < n" for i
    using gdt_table.fill_ok [OF that assms(2), of g p m] assms(3) that
    by (intro descriptor_bytes) (simp_all add: elem_addr_def)
  ultimately show ?thesis using that by metis
qed

lemma structured_gdt_loop_panic:
  assumes "unat i < length g" and "i <s n" and "\<not> encodable (g ! unat i)"
  shows "structured_gdt_loop g m p n i = None"
  using assms encode_gdt_entry_None [of m "p + i * 8" "g ! unat i"] by (subst structured_gdt_loop.simps) simp

lemma kernel_gdt_encodable: "i < 6 \<Longrightarrow> encodable (kernel_structured_gdt tss ! i)"
  by (simp add: kernel_structured_gdt_def encodable_def kernel_consts less_Suc_eq numeral_eq_Suc) auto

section \<open>Properties\<close>

text \<open>C17: \<^verbatim>\<open>encode_gdt_entry\<close> panics exactly on limits above 64 KB that are not of the form
  \<^verbatim>\<open>...fff\<close>; on every other segment the processor reads back the base, limit and access byte that
  were encoded, and only the eight bytes of the entry are written.\<close>

theorem encode_gdt_entry_roundtrip:
  "(encode_gdt_entry m p g = None \<longleftrightarrow> gdt_limit g > UINT16_MAX \<and> gdt_limit g AND 0xfff \<noteq> 0xfff)
   \<and> (case encode_gdt_entry m p g of
     None \<Rightarrow> gdt_limit g > UINT16_MAX \<and> gdt_limit g AND 0xfff \<noteq> 0xfff
   | Some m' \<Rightarrow> descriptor m' p = g \<and> same_outside (region p 8) m m')"
  using encode_gdt_entry_None [of m p g] decode_encode [of m p g]
  by (auto simp: encodable_def not_le split: option.splits)

text \<open>The boot-time table of \<^verbatim>\<open>kernel.cpp\<close> is encoded without a panic, for every place of the task
  state segment: the processor reads back the six segments, and the 48 bytes of the table are all that
  is written.\<close>

lemma kernel_gdt_encoded:
  "\<exists>m'. structured_gdt_to_gdt (kernel_structured_gdt tss) m gdt GDT_TOTAL_SEGMENTS = Some m'
     \<and> map (\<lambda>i. descriptor m' (gdt + of_nat (i * 8))) [0..<6] = kernel_structured_gdt tss
     \<and> same_outside (region gdt 48) m m'"
proof -
  have l: "length (kernel_structured_gdt tss) = 6" by (simp add: kernel_structured_gdt_def)
  obtain m' where m': "structured_gdt_to_gdt (kernel_structured_gdt tss) m gdt (of_nat 6) = Some m'"
    "same_outside (region gdt (6 * 8)) m m'"
    "\<And>i. i < 6 \<Longrightarrow> descriptor m' (gdt + of_nat (i * 8)) = kernel_structured_gdt tss ! i"
    using structured_gdt_to_gdt_ok [of 6 "kernel_structured_gdt tss" m gdt] l kernel_gdt_encodable by auto
  then show ?thesis by (auto simp: list_eq_iff_nth_eq l GDT_TOTAL_SEGMENTS_def)
qed

text \<open>The loop over any table of at most 8192 segments with accepted limits encodes each of them in its
  place and touches nothing else.\<close>

lemma structured_gdt_to_gdt_table:
  assumes "n \<le> length g" and "n \<le> 8192" and "\<forall>i < n. gdt_limit (g ! i) \<le> UINT16_MAX \<or> gdt_limit (g ! i) AND 0xfff = 0xfff"
  shows "\<exists>m'. structured_gdt_to_gdt g m p (of_nat n) = Some m' \<and> same_outside (region p (n * 8)) m m'
    \<and> (\<forall>i < n. descriptor m' (p + of_nat (i * 8)) = g ! i)"
  using structured_gdt_to_gdt_ok [of n g m p] assms unfolding encodable_def by metis

end
