(* ===== verification/Kernel.thy ===== *)
theory Kernel
  imports Process Gdt
begin

text \<open>
  \<^verbatim>\<open>kernel_main\<close> of \<^verbatim>\<open>kernel/kernel.cpp\<close>, the whole of it: terminal, descriptor tables, task state segment, heap,
  file systems, paging, the disk, and the demonstration that reads two files. The state holds the
  addresses of the globals, of the local buffers and of the string literals (by their text), the two
  processor registers the assembly loads, and whether paging and interrupts are on.
\<close>

section \<open>Definitions\<close>

record gdtr =
  gdtr_size :: u16
  gdtr_base :: u32

record kernel_state = process_state +
  kernel_paging_chunk :: u32
  tss :: u32
  gdt_real :: u32
  cpu_gdtr :: gdtr
  cpu_tr :: u16
  paging_enabled :: bool
  interrupts_enabled :: bool
  literal :: "string \<Rightarrow> u32"
  local_buf :: "string \<Rightarrow> u32"

definition gdt_load :: "u32 \<Rightarrow> u32 \<Rightarrow> 'a kernel_state_scheme \<Rightarrow> 'a kernel_state_scheme" where
  "gdt_load gdt sz s = s\<lparr>cpu_gdtr := \<lparr>gdtr_size = ucast sz, gdtr_base = gdt\<rparr>\<rparr>"

definition tss_load :: "u32 \<Rightarrow> 'a kernel_state_scheme \<Rightarrow> 'a kernel_state_scheme" where
  "tss_load tss_segment s = s\<lparr>cpu_tr := ucast tss_segment\<rparr>"

definition enable_paging :: "'a kernel_state_scheme \<Rightarrow> 'a kernel_state_scheme" where
  "enable_paging s = s\<lparr>paging_enabled := True\<rparr>"

definition enable_interrupts :: "'a kernel_state_scheme \<Rightarrow> 'a kernel_state_scheme" where
  "enable_interrupts s = s\<lparr>interrupts_enabled := True\<rparr>"

definition tss_esp0 :: "u32 \<Rightarrow> u32" where
  "tss_esp0 t = t + 4"

definition tss_ss0 :: "u32 \<Rightarrow> u32" where
  "tss_ss0 t = t + 8"

definition write_literal :: "string \<Rightarrow> 'a kernel_state_scheme \<Rightarrow> 'a kernel_state_scheme option" where
  "write_literal text s = terminal_write (literal s text) s"

text \<open>Lines 48 to 67: everything up to and including the heap. The arguments are the addresses of the three
  assembly entry points that \<^verbatim>\<open>idt_init\<close> installs.\<close>

definition boot_tables :: "u32 \<Rightarrow> u32 \<Rightarrow> u32 \<Rightarrow> 'a kernel_state_scheme \<Rightarrow> 'a kernel_state_scheme option" where
  "boot_tables no_interrupt idt_zero_address int21h s = do {
     let s = terminal_initialise s;
     let s = terminal_set_colour 10 s;
     s \<leftarrow> write_literal ''Welcome to N00bOS\<newline>'' s;
     let s = s\<lparr>mem := memset (mem s) (gdt_real s) 0x00 (8 * GDT_TOTAL_SEGMENTS)\<rparr>;
     m \<leftarrow> structured_gdt_to_gdt (kernel_structured_gdt (tss s)) (mem s) (gdt_real s) GDT_TOTAL_SEGMENTS;
     let s = gdt_load (gdt_real s) (8 * GDT_TOTAL_SEGMENTS) (s\<lparr>mem := m\<rparr>);
     let s = idt_init no_interrupt idt_zero_address int21h s;
     let s = s\<lparr>mem := memset (mem s) (tss s) 0x00 sizeof_tss\<rparr>;
     let s = s\<lparr>mem := store32 (mem s) (tss_esp0 (tss s)) 0x600000\<rparr>;
     let s = s\<lparr>mem := store32 (mem s) (tss_ss0 (tss s)) GDT_KERNEL_DATA_SELECTOR\<rparr>;
     let s = tss_load 0x28 s;
     kheap_init s
   }"

text \<open>Lines 69 to 83.\<close>

definition boot_disk :: "'a kernel_state_scheme \<Rightarrow> 'a kernel_state_scheme option" where
  "boot_disk s = do {
     s \<leftarrow> fs_init s;
     (chunk, s) \<leftarrow> paging_new (PAGING_IS_WRITABLE OR PAGING_IS_PRESENT OR PAGING_ACCESS_FROM_ALL) s;
     let s = s\<lparr>kernel_paging_chunk := chunk\<rparr>;
     let s = paging_switch (kernel_paging_chunk s) s;
     let s = enable_paging s;
     s \<leftarrow> search_and_initialize s;
     (ds, s) \<leftarrow> new_stream 0 s;
     let (_, s) = stream_seek ds 0x1ff s;
     (_, s) \<leftarrow> stream_read ds (local_buf s ''buf'') 514 s;
     Some s
   }"

text \<open>Lines 85 to 108. The buffers of the inner scopes are their own variables.\<close>

definition show_root_file :: "u32 \<Rightarrow> 'a kernel_state_scheme \<Rightarrow> 'a kernel_state_scheme option" where
  "show_root_file fd s = do {
     s \<leftarrow> write_literal ''We opened a root file!\<newline>'' s;
     (_, s) \<leftarrow> fread (local_buf s ''buf12'') 11 1 fd s;
     let s = s\<lparr>mem := (mem s)(local_buf s ''buf12'' + 11 := 0)\<rparr>;
     s \<leftarrow> write_literal ''Content:'' s;
     s \<leftarrow> terminal_write (local_buf s ''buf12'') s;
     s \<leftarrow> write_literal ''\<newline>'' s;
     (_, s) \<leftarrow> fstat fd (local_buf s ''stat'') s;
     s \<leftarrow> write_literal ''Stat: '' s;
     let (p, m) = itoa (mem s) (load32 (mem s) (stat_filesize (local_buf s ''stat''))) (local_buf s ''fsizebuf'') 10;
     s \<leftarrow> terminal_write p (s\<lparr>mem := m\<rparr>);
     s \<leftarrow> write_literal ''\<newline>'' s;
     let (p, m) = itoa (mem s) (load32 (mem s) (stat_flags (local_buf s ''stat''))) (local_buf s ''fflagsbuf'') 10;
     s \<leftarrow> terminal_write p (s\<lparr>mem := m\<rparr>);
     s \<leftarrow> write_literal ''\<newline>'' s;
     (r, s) \<leftarrow> fclose fd s;
     if r = 0 then write_literal ''Successful close of root file\<newline>'' s else Some s
   }"

text \<open>Lines 109 to 131.\<close>

definition show_directory_file :: "u32 \<Rightarrow> 'a kernel_state_scheme \<Rightarrow> 'a kernel_state_scheme option" where
  "show_directory_file fd2 s = do {
     s \<leftarrow> write_literal ''We opened a directory file!\<newline>'' s;
     (_, s) \<leftarrow> fseek fd2 3 SEEK_SET s;
     (_, s) \<leftarrow> fread (local_buf s ''buf10'') 9 1 fd2 s;
     let s = s\<lparr>mem := (mem s)(local_buf s ''buf10'' + 9 := 0)\<rparr>;
     s \<leftarrow> write_literal ''Content:'' s;
     s \<leftarrow> terminal_write (local_buf s ''buf10'') s;
     s \<leftarrow> write_literal ''\<newline>'' s;
     (_, s) \<leftarrow> fseek fd2 1 SEEK_CURRENT s;
     (_, s) \<leftarrow> fread (local_buf s ''buf2'') 8 1 fd2 s;
     let s = s\<lparr>mem := (mem s)(local_buf s ''buf2'' + 7 := 0)\<rparr>;
     s \<leftarrow> write_literal ''Content:'' s;
     s \<leftarrow> terminal_write (local_buf s ''buf2'') s;
     s \<leftarrow> write_literal ''\<newline>'' s;
     (r, s) \<leftarrow> fclose fd2 s;
     if r = 0 then write_literal ''Successful close of directory file\<newline>'' s else Some s
   }"

definition kernel_main :: "u32 \<Rightarrow> u32 \<Rightarrow> u32 \<Rightarrow> 'a kernel_state_scheme \<Rightarrow> 'a kernel_state_scheme option" where
  "kernel_main no_interrupt idt_zero_address int21h s = do {
     s \<leftarrow> boot_tables no_interrupt idt_zero_address int21h s;
     s \<leftarrow> boot_disk s;
     (fd, s) \<leftarrow> fopen (literal s ''0:/my_file.txt'') (literal s ''r'') s;
     s \<leftarrow> (if 0 \<le>s fd then show_root_file fd s else Some s);
     (fd2, s) \<leftarrow> fopen (literal s ''0:/my_dir/my_file2.txt'') (literal s ''r'') s;
     s \<leftarrow> (if 0 \<le>s fd2 then show_directory_file fd2 s else Some s);
     Some (enable_interrupts s)
   }"

end
