(* ===== verification/Fat16_Correct.thy ===== *)
theory Fat16_Correct
  imports Fat16
begin

text \<open>
  The FAT16 driver against the disk image. The allocation table is \<open>fat_entry_at\<close>, a file's clusters are the
  walk \<open>follow\<close> through it. The lemmas show that the driver finds the entry and the cluster of the image,
  what a read of file data returns, how the items of a directory are counted, and which name an item has.
\<close>

section \<open>The driver's structures\<close>

definition fat_private_of :: "'a fat_state_scheme \<Rightarrow> u32" where
  "fat_private_of s = load32 (mem s) (disk_fs_private_data (primary_disk s))"

definition fat_stream :: "'a fat_state_scheme \<Rightarrow> u32 \<Rightarrow> bool" where
  "fat_stream s st \<longleftrightarrow> load32 (mem s) (stream_d st) = primary_disk s \<and> (\<exists>k \<ge> 8. (st, k) \<in> kheap_live s)"

definition fat_streams :: "'a fat_state_scheme \<Rightarrow> u32 list" where
  "fat_streams s = [load32 (mem s) (fat_read_stream (fat_private_of s)), load32 (mem s) (cluster_read_stream (fat_private_of s)),
     load32 (mem s) (directory_read_stream (fat_private_of s))]"

text \<open>The stream positions, which every read moves, and all the memory the driver relies on.\<close>

definition fat_pos :: "'a fat_state_scheme \<Rightarrow> u32 set" where
  "fat_pos s = (\<Union>st \<in> set (fat_streams s). region st 4)"

definition fat_area :: "'a fat_state_scheme \<Rightarrow> u32 set" where
  "fat_area s = region (primary_disk s) 20 \<union> region (fat_private_of s) 92 \<union> (\<Union>st \<in> set (fat_streams s). region st 8)"

definition fat_locals :: "'a fat_state_scheme \<Rightarrow> u32 set" where
  "fat_locals s = region (fat_entry_local s) 2 \<union> region (item_local s) 32 \<union> region (filename_local s) 255"

text \<open>\<open>rs\<close> reserved sectors, \<open>spc\<close> sectors in a cluster, and the data region beginning at sector \<open>e\<close>.\<close>

definition fat_ready :: "image \<Rightarrow> nat \<Rightarrow> nat \<Rightarrow> nat \<Rightarrow> 'a fat_state_scheme \<Rightarrow> bool" where
  "fat_ready img rs spc e s \<longleftrightarrow> disk_ready img s \<and> kheap_cap s 1 \<and> rs < 2 ^ 16 \<and> 0 < spc \<and> spc < 2 ^ 8
     \<and> (\<exists>k \<ge> 92. (fat_private_of s, k) \<in> kheap_live s) \<and> list_all (fat_stream s) (fat_streams s)
     \<and> distinct (fat_private_of s # fat_streams s)
     \<and> load16 (mem s) (header_reserved_sectors (fat_private_of s)) = of_nat rs
     \<and> mem s (header_sectors_per_cluster (fat_private_of s)) = of_nat spc
     \<and> load32 (mem s) (directory_sector_pos_end (private_root_directory (fat_private_of s))) = of_nat e
     \<and> fat_locals s \<inter> (kheap_meta \<union> heap_area \<union> region (primary_disk s) 20) = {}"

lemma fat_stream_at: "fat_stream s st \<Longrightarrow> \<exists>x. stream_at s st x"
  by (auto simp: fat_stream_def stream_at_def intro: exI [of _ "unat (load32 (mem s) (stream_pos st))"])

lemma stream_at_fat: "stream_at s st x \<Longrightarrow> fat_stream s st"
  by (simp add: fat_stream_def stream_at_def)

lemma grows_fat:
  fixes s :: "'a fat_state_scheme"
  assumes "grows B R s s'"
  shows "fat_entry_local s' = fat_entry_local s" and "item_local s' = item_local s" and "filename_local s' = filename_local s"
    and "fat_locals s' = fat_locals s"
proof -
  have e: "s' = s\<lparr>io_log := io_log s', mem := mem s'\<rparr>" using assms by (simp add: grows_def)
  show "fat_entry_local s' = fat_entry_local s" "item_local s' = item_local s" "filename_local s' = filename_local s"
    by (subst e, simp)+
  then show "fat_locals s' = fat_locals s" by (simp add: fat_locals_def)
qed

lemma private_fields_in:
  "region (header_reserved_sectors p) 2 \<subseteq> region p 92" "header_sectors_per_cluster p \<in> region p 92"
  "region (directory_sector_pos_end (private_root_directory p)) 4 \<subseteq> region p 92" "region (cluster_read_stream p) 4 \<subseteq> region p 92"
  "region (fat_read_stream p) 4 \<subseteq> region p 92" "region (directory_read_stream p) 4 \<subseteq> region p 92"
  using region_shift [of 14 2 92 p] region_shift [of 76 4 92 p] region_shift [of 80 4 92 p] region_shift [of 84 4 92 p]
    region_shift [of 88 4 92 p] of_nat_offset_mem [of 13 92 p] by (simp_all add: fat_fields add.commute [of 76])

lemma fat_ready_parts:
  fixes s :: "'a fat_state_scheme"
  assumes "fat_ready img rs spc e s"
  shows "kheap_inv s" and "fat_area s \<inter> heap_private s = {}" and "fat_pos s \<subseteq> fat_area s"
    and "fat_pos s \<inter> (region (primary_disk s) 20 \<union> region (fat_private_of s) 92) = {}"
    and "fat_locals s \<inter> (heap_private s \<union> fat_area s) = {}"
    and "st \<in> set (fat_streams s) \<Longrightarrow> region (stream_d st) 4 \<inter> fat_pos s = {}"
    and "fat_area s \<subseteq> heap_area \<union> region (primary_disk s) 20"
proof -
  let ?p = "fat_private_of s"
  show i: "kheap_inv s" using assms by (simp add: fat_ready_def disk_ready_def)
  obtain k where k: "(?p, k) \<in> kheap_live s" "92 \<le> k" using assms by (auto simp: fat_ready_def)
  have st: "\<exists>j \<ge> 8. (x, j) \<in> kheap_live s" "x \<noteq> ?p" if "x \<in> set (fat_streams s)" for x
    using assms that by (auto simp: fat_ready_def fat_stream_def list_all_iff)
  have pin: "region ?p 92 \<subseteq> region ?p k" by (rule region_mono [OF k(2)])
  have dk: "region (primary_disk s) 20 \<inter> (kheap_meta \<union> heap_area) = {}" using assms by (simp add: fat_ready_def disk_ready_def)
  have pr: "heap_private s \<subseteq> kheap_meta \<union> heap_area" by (auto simp: heap_private_def)
  have p: "region ?p 92 \<inter> heap_private s = {}" "region ?p 92 \<subseteq> heap_area"
    using live_not_private [OF i k(1)] live_in_heap [OF i k(1)] pin unfolding heap_area_def by blast+
  have s8: "region x 8 \<inter> heap_private s = {}" "region x 8 \<subseteq> heap_area" "region x 4 \<subseteq> region x 8" "region x 8 \<inter> region ?p 92 = {}"
    if x: "x \<in> set (fat_streams s)" for x
  proof -
    obtain j where j: "(x, j) \<in> kheap_live s" "8 \<le> j" using st(1) [OF x] by blast
    show "region x 8 \<inter> heap_private s = {}" "region x 8 \<subseteq> heap_area" using stream_block(1,2) [OF i st(1) [OF x]] by simp_all
    show "region x 4 \<subseteq> region x 8" by (rule region_mono) simp
    have "(x, j) \<noteq> (?p, k)" using st(2) [OF x] by simp
    from kheap_live_apart [OF i j(1) k(1) this] show "region x 8 \<inter> region ?p 92 = {}" using region_mono [OF j(2), of x] pin by blast
  qed
  show "fat_area s \<inter> heap_private s = {}" using dk pr p s8(1) unfolding fat_area_def by blast
  show "fat_pos s \<subseteq> fat_area s" using s8(3) unfolding fat_area_def fat_pos_def by blast
  show "fat_pos s \<inter> (region (primary_disk s) 20 \<union> region ?p 92) = {}" using s8(2-4) dk unfolding fat_pos_def by blast
  show "fat_area s \<subseteq> heap_area \<union> region (primary_disk s) 20" using p(2) s8(2) unfolding fat_area_def by blast
  then show "fat_locals s \<inter> (heap_private s \<union> fat_area s) = {}" using assms pr unfolding fat_ready_def by blast
  show "region (stream_d st) 4 \<inter> fat_pos s = {}" if x: "st \<in> set (fat_streams s)"
  proof -
    have "region (stream_d st) 4 \<inter> region y 4 = {}" if y: "y \<in> set (fat_streams s)" for y
    proof (cases "y = st")
      case True
      then show ?thesis using field_regions [of 0 4 st] by (auto simp: disk_fields)
    next
      case False
      obtain j j' where j: "(st, j) \<in> kheap_live s" "8 \<le> j" "(y, j') \<in> kheap_live s" "8 \<le> j'" using st(1) [OF x] st(1) [OF y] by blast
      have "(st, j) \<noteq> (y, j')" using False by simp
      from kheap_live_apart [OF i j(1,3) this] show ?thesis
        using stream_fields_in(2) [of st] region_mono [OF j(2), of st] region_mono [of 4 j' y] j(4) by auto
    qed
    then show ?thesis unfolding fat_pos_def by blast
  qed
qed

text \<open>Whatever leaves the driver's memory alone but for the stream positions, and its blocks live, keeps the
  driver ready.\<close>

lemma fat_ready_frame:
  fixes s :: "'a fat_state_scheme"
  assumes "fat_ready img rs spc e s" and f: "same_outside X (mem s) (mem s')"
    and X: "X \<inter> (region (primary_disk s) 20 \<union> region (fat_private_of s) 92 \<union> (\<Union>st \<in> set (fat_streams s). region (stream_d st) 4)) = {}"
    and "kheap_inv s'" and live: "\<forall>(x, k) \<in> kheap_live s. x \<in> set (fat_private_of s # fat_streams s) \<longrightarrow> (x, k) \<in> kheap_live s'"
    and g: "primary_disk s' = primary_disk s" "device s' = device s" "fat_locals s' = fat_locals s"
  shows "kheap_cap s' 1 \<Longrightarrow> fat_ready img rs spc e s'" and "fat_private_of s' = fat_private_of s" and "fat_streams s' = fat_streams s"
    and "fat_area s' = fat_area s" and "fat_pos s' = fat_pos s"
proof -
  let ?p = "fat_private_of s"
  have P: "region ?p 92 \<inter> X = {}" using X by blast
  have dsk: "region (disk_fs_private_data (primary_disk s)) 4 \<subseteq> region (primary_disk s) 20"
    "region (disk_sector_size (primary_disk s)) 4 \<subseteq> region (primary_disk s) 20"
    using region_shift [of 16 4 20 "primary_disk s"] region_shift [of 4 4 20 "primary_disk s"] by (simp_all add: disk_fields)
  have ldd: "load32 (mem s') a = load32 (mem s) a" if "region a 4 \<subseteq> region (primary_disk s) 20" for a
    using load32_frame [OF f, of a] that X by blast
  show pv: "fat_private_of s' = ?p" using ldd [OF dsk(1)] by (simp add: fat_private_of_def g(1))
  note in92 = private_fields_in [of ?p]
  have ld: "load32 (mem s') a = load32 (mem s) a" if "region a 4 \<subseteq> region ?p 92" for a
    using load32_frame [OF f, of a] that P by blast
  show st: "fat_streams s' = fat_streams s" using ld in92(4-6) by (simp add: fat_streams_def pv)
  show "fat_area s' = fat_area s" "fat_pos s' = fat_pos s" unfolding fat_area_def fat_pos_def st pv g(1) by simp_all
  have "load16 (mem s') (header_reserved_sectors ?p) = load16 (mem s) (header_reserved_sectors ?p)"
    using in92(1) P by (intro load16_frame [OF f]) blast
  moreover have "mem s' (header_sectors_per_cluster ?p) = mem s (header_sectors_per_cluster ?p)"
    using same_outsideD [OF f] in92(2) P by blast
  moreover have "fat_stream s' x" if x: "x \<in> set (fat_streams s)" for x
  proof -
    have "fat_stream s x" using assms(1) x by (auto simp: fat_ready_def list_all_iff)
    moreover have "region (stream_d x) 4 \<inter> X = {}" using X x by blast
    ultimately show ?thesis using load32_frame [OF f] g(1) live x by (auto simp: fat_stream_def)
  qed
  then have "list_all (fat_stream s') (fat_streams s')" unfolding st by (simp add: list_all_iff)
  moreover have "disk_ready img s'" using assms(1,4) ldd [OF dsk(2)] g(1,2) by (simp add: fat_ready_def disk_ready_def)
  moreover have "\<exists>k \<ge> 92. (?p, k) \<in> kheap_live s'" using assms(1) live by (auto simp: fat_ready_def)
  ultimately show "kheap_cap s' 1 \<Longrightarrow> fat_ready img rs spc e s'"
    using assms(1) ld [OF in92(3)] st unfolding fat_ready_def pv g by simp
qed

lemma fat_ready_grows:
  fixes s :: "'a fat_state_scheme"
  assumes "fat_ready img rs spc e s" and "grows B (R \<union> fat_pos s) s s'" and "R \<inter> fat_area s = {}"
  shows "kheap_cap s' 1 \<Longrightarrow> fat_ready img rs spc e s'" and "fat_private_of s' = fat_private_of s" and "fat_streams s' = fat_streams s"
    and "fat_area s' = fat_area s" and "fat_pos s' = fat_pos s" and "primary_disk s' = primary_disk s"
proof -
  note fp = fat_ready_parts [OF assms(1)]
  have "region (stream_d x) 4 \<inter> (R \<union> fat_pos s \<union> heap_private s) = {}" if x: "x \<in> set (fat_streams s)" for x
    using fp(2) assms(3) fp(6) [OF x] stream_fields_in(2) [of x] x unfolding fat_area_def by blast
  moreover have "(region (primary_disk s) 20 \<union> region (fat_private_of s) 92) \<inter> (R \<union> fat_pos s \<union> heap_private s) = {}"
    using fp(2,4) assms(3) unfolding fat_area_def by blast
  ultimately have X: "(R \<union> fat_pos s \<union> heap_private s) \<inter> (region (primary_disk s) 20 \<union> region (fat_private_of s) 92
      \<union> (\<Union>st \<in> set (fat_streams s). region (stream_d st) 4)) = {}" by blast
  have live: "\<forall>(x, k) \<in> kheap_live s. x \<in> set (fat_private_of s # fat_streams s) \<longrightarrow> (x, k) \<in> kheap_live s'"
    using growsD(2) [OF assms(2)] by auto
  note fr = fat_ready_frame [OF assms(1) growsD(4) [OF assms(2)] X growsD(1) [OF assms(2)] live grows_disk(2,1) [OF assms(2)] grows_fat(4) [OF assms(2)]]
  show "kheap_cap s' 1 \<Longrightarrow> fat_ready img rs spc e s'" "fat_private_of s' = fat_private_of s" "fat_streams s' = fat_streams s"
    "fat_area s' = fat_area s" "fat_pos s' = fat_pos s" using fr by blast+
  show "primary_disk s' = primary_disk s" by (rule grows_disk(2) [OF assms(2)])
qed

lemma fat_ready_keeps:
  fixes s :: "'a fat_state_scheme"
  assumes "fat_ready img rs spc e s" and "keeps (R \<union> fat_pos s) s s'" and "R \<inter> fat_area s = {}"
  shows "fat_ready img rs spc e s'" and "fat_private_of s' = fat_private_of s" and "fat_streams s' = fat_streams s"
    and "fat_area s' = fat_area s" and "fat_pos s' = fat_pos s" and "primary_disk s' = primary_disk s"
    and "heap_private s' = heap_private s"
proof -
  have "kheap_cap s 1" "kheap_inv s" using assms(1) by (simp_all add: fat_ready_def disk_ready_def)
  with keepsD(3) [OF assms(2)] show "fat_ready img rs spc e s'" by (intro fat_ready_grows(1) [OF assms]) simp
qed (rule fat_ready_grows(2-) [OF assms] keepsD(2) [OF assms(2)])+

section \<open>Streams of the driver\<close>

lemma fat_seek:
  fixes s :: "'a fat_state_scheme"
  assumes "fat_ready img rs spc e s" and "st \<in> set (fat_streams s)"
  shows "\<exists>s'. stream_seek st (of_nat pos) s = (0, s') \<and> keeps (fat_pos s) s s' \<and> stream_at s' st pos"
proof -
  have "fat_stream s st" using assms by (auto simp: fat_ready_def list_all_iff)
  then obtain x where "stream_at s st x" using fat_stream_at by blast
  from stream_seek_ok [OF fat_ready_parts(1) [OF assms(1)] this, of pos]
  obtain s' where s': "stream_seek st (of_nat pos) s = (0, s')" "keeps (region st 4) s s'" "stream_at s' st pos" by blast
  have "region st 4 \<subseteq> fat_pos s" using assms(2) by (auto simp: fat_pos_def)
  then show ?thesis using s' grows_mono [OF s'(2), of "fat_pos s"] by blast
qed

lemma fat_read:
  fixes s :: "'a fat_state_scheme"
  assumes "fat_ready img rs spc e s" and "st \<in> set (fat_streams s)" and "stream_at s st pos" and "pos + n < 2 ^ 31"
    and "region out n \<inter> (heap_private s \<union> fat_area s) = {}"
  shows "\<exists>s'. stream_read st out (of_nat n) s = Some (0, s') \<and> load_bytes (mem s') out n = disk_bytes img pos n
    \<and> keeps (region out n \<union> fat_pos s) s s' \<and> stream_at s' st (pos + n)"
proof -
  have r: "disk_ready img s" "kheap_cap s 1" using assms(1) by (simp_all add: fat_ready_def)
  have o: "region out n \<inter> (heap_private s \<union> region st 8) = {}" using assms(2,5) unfolding fat_area_def by blast
  obtain s' where s': "stream_read st out (of_nat n) s = Some (0, s')" "load_bytes (mem s') out n = disk_bytes img pos n"
    "load32 (mem s') (stream_pos st) = of_nat (pos + n)" "keeps (region out n \<union> region st 4) s s'"
    using stream_read_ok [OF r assms(3,4) o] by blast
  have "region st 4 \<subseteq> fat_pos s" using assms(2) by (auto simp: fat_pos_def)
  then have "keeps (region out n \<union> fat_pos s) s s'" using grows_mono [OF s'(4)] by blast
  moreover have "stream_at s' st (pos + n)"
    using stream_read_moves [OF fat_ready_parts(1) [OF assms(1)] assms(3) s'(3,4)] o by blast
  ultimately show ?thesis using s'(1,2) by blast
qed

section \<open>The allocation table\<close>

definition le16 :: "u8 \<Rightarrow> u8 \<Rightarrow> nat" where
  "le16 a b = unat a + 256 * unat b"

definition fat_entry_at :: "image \<Rightarrow> nat \<Rightarrow> nat \<Rightarrow> nat" where
  "fat_entry_at img rs c = le16 (img (rs * 512 + c * 2)) (img (rs * 512 + c * 2 + 1))"

lemma unat_u8: "unat (a :: u8) < 256"
  using unsigned_less [of a] by simp

lemma le16_less: "le16 a b < 2 ^ 16"
  using unat_u8 [of a] unat_u8 [of b] by (simp add: le16_def)

lemma unat_load16: "unat (load16 m p) = le16 (m p) (m (p + 1))"
proof -
  let ?a = "ucast (m p) :: u16" and ?b = "ucast (m (p + 1)) :: u16"
  have "load16 m p = ?a + push_bit 8 ?b"
    unfolding load16_def by (rule disjunctive_add [symmetric]) (auto simp: bit_simps dest: bit_imp_le_length)
  also have "\<dots> = ?a + ?b * 256" by (simp add: push_bit_eq_mult)
  finally have e: "load16 m p = ?a + ?b * 256" .
  have u: "take_bit 16 (unat x) = unat x" for x :: u8 using unat_u8 [of x] by (intro take_bit_nat_eq_self) simp
  have "unat (load16 m p) = (unat (m p) + unat (m (p + 1)) * 256 mod 2 ^ 16) mod 2 ^ 16"
    unfolding e by (simp add: unat_word_ariths unsigned_ucast_eq u)
  then show ?thesis using unat_u8 [of "m p"] unat_u8 [of "m (p + 1)"] by (simp add: le16_def)
qed

lemma ucast16: "(ucast (w :: u16) :: u32) = of_nat (unat w)"
  by simp

lemma ucast_of_nat16: "n < 2 ^ 16 \<Longrightarrow> (ucast (of_nat n :: u16) :: u32) = of_nat n"
  by (simp add: unsigned_of_nat take_bit_nat_eq_self)

lemma get_fat_entry_ok:
  fixes s :: "'a fat_state_scheme"
  assumes "fat_ready img rs spc e s" and "c < 2 ^ 16"
  shows "\<exists>s'. get_fat_entry (primary_disk s) (of_nat c) s = Some (of_nat (fat_entry_at img rs c), s')
    \<and> keeps (fat_locals s \<union> fat_pos s) s s'"
proof -
  let ?p = "fat_private_of s" and ?l = "fat_entry_local s" and ?pos = "rs * 512 + c * 2"
  let ?st = "load32 (mem s) (fat_read_stream ?p)"
  have st: "?st \<in> set (fat_streams s)" by (simp add: fat_streams_def)
  have "fat_stream s ?st" using assms(1) st by (auto simp: fat_ready_def list_all_iff)
  then have nz: "?st \<noteq> 0" using live_nonzero [OF fat_ready_parts(1) [OF assms(1)]] by (auto simp: fat_stream_def)
  have hd: "load16 (mem s) (header_reserved_sectors ?p) = of_nat rs" "rs < 2 ^ 16" "load32 (mem s) (disk_sector_size (primary_disk s)) = 512"
    using assms(1) by (simp_all add: fat_ready_def disk_ready_def)
  obtain s1 where s1: "stream_seek ?st (of_nat ?pos) s = (0, s1)" "keeps (fat_pos s) s s1" "stream_at s1 ?st ?pos"
    using fat_seek [OF assms(1) st, of ?pos] by blast
  note r1 = fat_ready_keeps [OF assms(1), of "{}" s1, simplified, OF s1(2)] and p1 = fat_ready_parts [OF r1(1)]
  have l1: "fat_entry_local s1 = ?l" "fat_locals s1 = fat_locals s" using grows_fat [OF s1(2)] by simp_all
  have lin: "region ?l 2 \<subseteq> fat_locals s" by (auto simp: fat_locals_def)
  let ?s2 = "s1\<lparr>mem := store16 (mem s1) ?l 0\<rparr>"
  have "region ?l 2 \<inter> kheap_meta = {}" using lin assms(1) unfolding fat_ready_def by blast
  from grows_store(1) [OF p1(1) store16_outside this] have k2: "keeps (region ?l 2) s1 ?s2" .
  have off: "region ?l 2 \<inter> fat_area s1 = {}" "region ?l 2 \<inter> heap_private s1 = {}" using lin p1(5) l1 by blast+
  have "keeps (region ?l 2 \<union> fat_pos s1) s1 ?s2" using grows_mono [OF k2] by blast
  note r2 = fat_ready_keeps [OF r1(1) this off(1)]
  have "region ?l 2 \<inter> region ?st 8 = {}" using off(1) st r1(3,4) by (auto simp: fat_area_def)
  from stream_at_keeps [OF s1(3) p1(1) k2 this] have a2: "stream_at ?s2 ?st ?pos" .
  have st2: "?st \<in> set (fat_streams ?s2)" using st r1(3) r2(3) by simp
  have "region ?l 2 \<inter> (heap_private ?s2 \<union> fat_area ?s2) = {}" using off r2(4,7) by blast
  then obtain s3 where s3: "stream_read ?st ?l (of_nat 2) ?s2 = Some (0, s3)" "load_bytes (mem s3) ?l 2 = disk_bytes img ?pos 2"
    "keeps (region ?l 2 \<union> fat_pos ?s2) ?s2 s3"
    using fat_read [OF r2(1) st2 a2, of 2] assms(2) hd(2) by auto
  have "mem s3 ?l = img ?pos" "mem s3 (?l + 1) = img (?pos + 1)"
    using arg_cong [OF s3(2), of "\<lambda>xs. xs ! 0"] arg_cong [OF s3(2), of "\<lambda>xs. xs ! 1"] by simp_all
  then have v: "ucast (load16 (mem s3) ?l) = (of_nat (fat_entry_at img rs c) :: u32)"
    unfolding ucast16 unat_load16 by (simp add: fat_entry_at_def)
  have "(of_nat rs :: u32) * 512 + of_nat c * 2 = of_nat ?pos" by simp
  then have "get_fat_entry (primary_disk s) (of_nat c) s = Some (of_nat (fat_entry_at img rs c), s3)"
    using s1(1) s3(1) nz v l1(1)
    by (simp add: get_fat_entry_def fat_private_of_def [symmetric] hd(1,3) ucast_of_nat16 [OF hd(2)] kernel_consts Let_def grows_fat [OF s3(3)])
  moreover have "keeps (fat_locals s \<union> fat_pos s) s s3"
  proof -
    have "keeps (fat_locals s \<union> fat_pos s) s ?s2"
      using grows_trans [OF grows_mono [OF s1(2), of "fat_locals s \<union> fat_pos s"] k2] lin by auto
    from grows_trans [OF this s3(3)] show ?thesis using lin r2(5) r1(5) by auto
  qed
  ultimately show ?thesis by blast
qed

text \<open>The walk along the chain of a file: \<open>n\<close> steps from cluster \<open>c\<close>. It breaks off at an entry that is free,
  reserved, bad or the end of the chain.\<close>

fun follow :: "image \<Rightarrow> nat \<Rightarrow> nat \<Rightarrow> nat \<Rightarrow> nat option" where
  "follow img rs c 0 = Some c"
| "follow img rs c (Suc n) =
     (let x = fat_entry_at img rs c in if x = 0 \<or> 0xFFF0 \<le> x then None else follow img rs x n)"

lemma fat_entry_at_less: "fat_entry_at img rs c < 2 ^ 16"
  by (simp add: fat_entry_at_def le16_less [simplified])

lemma follow_less: "follow img rs c n = Some c' \<Longrightarrow> c < 2 ^ 16 \<Longrightarrow> c' < 2 ^ 16"
  by (induction img rs c n rule: follow.induct) (auto simp: Let_def fat_entry_at_less [simplified] split: if_splits)

lemma fat_entry_ends_iff:
  assumes "x < 2 ^ 16"
  shows "fat_entry_ends (of_nat x) \<longleftrightarrow> x = 0 \<or> 0xFFF0 \<le> x"
proof -
  have z: "sint (of_nat x :: u32) = int x" using assms by (simp add: sint_of_nat32)
  have "(of_nat x :: u32) = of_nat 0xFFF7 \<longleftrightarrow> x = 0xFFF7" "(of_nat x :: u32) = of_nat 0 \<longleftrightarrow> x = 0"
    using assms by (intro of_nat32_eq; simp)+
  then show ?thesis using assms by (auto simp: fat_entry_ends_def kernel_consts word_sle_eq z)
qed

lemma get_cluster_loop_ok:
  fixes s :: "'a fat_state_scheme"
  assumes "fat_ready img rs spc e s" and "c < 2 ^ 16" and "i + k = n" and "n < 2 ^ 31" and "d = primary_disk s"
  shows "\<exists>s'. get_cluster_loop d (of_nat n) (of_nat i) (of_nat c) s
      = Some (case follow img rs c k of None \<Rightarrow> - EIO | Some c' \<Rightarrow> of_nat c', s') \<and> keeps (fat_locals s \<union> fat_pos s) s s'"
  using assms
proof (induction k arbitrary: i c s)
  case 0
  then have "\<not> (of_nat i :: u32) <s of_nat n" using sless_of_nat [of n n] by simp
  then show ?case using 0 fat_ready_parts(1) [OF 0(1)] by (subst get_cluster_loop.simps) simp
next
  case (Suc k)
  let ?x = "fat_entry_at img rs c"
  have lt: "(of_nat i :: u32) <s of_nat n" using Suc.prems(3,4) by (simp add: sless_of_nat)
  obtain s1 where s1: "get_fat_entry d (of_nat c) s = Some (of_nat ?x, s1)" "keeps (fat_locals s \<union> fat_pos s) s s1"
    using get_fat_entry_ok [OF Suc.prems(1,2)] Suc.prems(5) by blast
  have x: "?x < 2 ^ 16" by (rule fat_entry_at_less)
  then have nn: "\<not> (of_nat ?x :: u32) <s 0" using sless_of_nat [of ?x 0] by simp
  have "fat_locals s \<inter> fat_area s = {}" using fat_ready_parts(5) [OF Suc.prems(1)] by blast
  note r1 = fat_ready_keeps [OF Suc.prems(1) s1(2) this] and l1 = grows_fat(4) [OF s1(2)]
  show ?case
  proof (cases "?x = 0 \<or> 0xFFF0 \<le> ?x")
    case True
    then have "get_cluster_loop d (of_nat n) (of_nat i) (of_nat c) s = Some (- EIO, s1)"
      using lt s1(1) nn fat_entry_ends_iff [OF x] by (subst get_cluster_loop.simps) simp
    then show ?thesis using s1(2) True by auto
  next
    case False
    have "Suc i + k = n" "d = primary_disk s1" using Suc.prems(3,5) r1(6) by simp_all
    from Suc.IH [OF r1(1) x this(1) Suc.prems(4) this(2)]
    obtain s2 where s2: "get_cluster_loop d (of_nat n) (of_nat (Suc i)) (of_nat ?x) s1
        = Some (case follow img rs ?x k of None \<Rightarrow> - EIO | Some c' \<Rightarrow> of_nat c', s2)" "keeps (fat_locals s1 \<union> fat_pos s1) s1 s2" by blast
    have "get_cluster_loop d (of_nat n) (of_nat i) (of_nat c) s = get_cluster_loop d (of_nat n) (of_nat (Suc i)) (of_nat ?x) s1"
      using lt s1(1) nn fat_entry_ends_iff [OF x] False by (subst get_cluster_loop.simps) (simp add: add.commute)
    then show ?thesis using s2 False grows_trans [OF s1(2) s2(2)] l1 r1(5) by auto
  qed
qed

definition cluster_bytes :: "nat \<Rightarrow> nat" where
  "cluster_bytes spc = spc * 512"

lemma cluster_size:
  fixes s :: "'a fat_state_scheme"
  assumes "fat_ready img rs spc e s"
  shows "cluster_size_bytes (primary_disk s) (fat_private_of s) (mem s) = of_nat (cluster_bytes spc)"
    and "0 < cluster_bytes spc" and "cluster_bytes spc < 2 ^ 17"
    and "x < 2 ^ 31 \<Longrightarrow> \<not> idiv_faults (of_nat x) (of_nat (cluster_bytes spc))"
proof -
  have h: "mem s (header_sectors_per_cluster (fat_private_of s)) = of_nat spc" "spc < 2 ^ 8" "0 < spc"
    "load32 (mem s) (disk_sector_size (primary_disk s)) = 512" using assms by (simp_all add: fat_ready_def disk_ready_def)
  have "(ucast (of_nat spc :: u8) :: u32) = of_nat spc" using h(2) by (simp add: unsigned_of_nat take_bit_nat_eq_self)
  then show "cluster_size_bytes (primary_disk s) (fat_private_of s) (mem s) = of_nat (cluster_bytes spc)"
    by (simp add: cluster_size_bytes_def h(1,4) cluster_bytes_def)
  show p: "0 < cluster_bytes spc" "cluster_bytes spc < 2 ^ 17" using h(2,3) by (simp_all add: cluster_bytes_def)
  show "\<not> idiv_faults (of_nat x) (of_nat (cluster_bytes spc))" if "x < 2 ^ 31"
  proof -
    have "(of_nat (cluster_bytes spc) :: u32) \<noteq> 0" using p of_nat32_eq [of "cluster_bytes spc" 0] by simp
    moreover have "(of_nat x :: u32) \<noteq> of_nat 0x80000000" using that of_nat32_eq [of x "0x80000000"] by simp
    ultimately show ?thesis by (simp add: idiv_faults_def)
  qed
qed

lemma get_cluster_ok:
  fixes s :: "'a fat_state_scheme"
  assumes "fat_ready img rs spc e s" and "c < 2 ^ 16" and "x < 2 ^ 31"
  shows "\<exists>s'. get_cluster (primary_disk s) (of_nat c) (of_nat x) s
      = Some (case follow img rs c (x div cluster_bytes spc) of None \<Rightarrow> - EIO | Some c' \<Rightarrow> of_nat c', s')
    \<and> keeps (fat_locals s \<union> fat_pos s) s s'"
proof -
  note cs = cluster_size [OF assms(1)]
  have "x div cluster_bytes spc < 2 ^ 31" using assms(3) by (meson div_le_dividend le_less_trans)
  from get_cluster_loop_ok [OF assms(1,2) _ this refl, of 0] show ?thesis
    using cs(3) cs(4) [OF assms(3)] assms(3)
    by (simp add: get_cluster_def fat_private_of_def [symmetric] cs(1) int_div_of_nat)
qed

section \<open>Reading data\<close>

text \<open>Where byte \<open>x\<close> of a file lies on the disk when its cluster is \<open>c\<close>.\<close>

definition data_pos :: "nat \<Rightarrow> nat \<Rightarrow> nat \<Rightarrow> nat \<Rightarrow> nat" where
  "data_pos spc e c x = (e + (c - 2) * spc) * 512 + x mod cluster_bytes spc"

text \<open>The byte at position \<open>x\<close> of the chain that begins at cluster \<open>c\<close>, by the volume alone. Up to the end of the
  cluster of \<open>x\<close> the chain's bytes lie next to each other on the disk.\<close>

definition chain_byte :: "image \<Rightarrow> nat \<Rightarrow> nat \<Rightarrow> nat \<Rightarrow> nat \<Rightarrow> nat \<Rightarrow> u8 option" where
  "chain_byte img rs spc e c x = map_option (\<lambda>c'. img (data_pos spc e c' x)) (follow img rs c (x div cluster_bytes spc))"

lemma chain_byte_disk:
  assumes "follow img rs c (x div cluster_bytes spc) = Some c'" and "x mod cluster_bytes spc + i < cluster_bytes spc" and "i < k"
  shows "chain_byte img rs spc e c (x + i) = Some (disk_bytes img (data_pos spc e c' x) k ! i)"
proof -
  let ?b = "cluster_bytes spc"
  have "x + i = x div ?b * ?b + (x mod ?b + i)" by simp
  then have "(x + i) div ?b = x div ?b" "(x + i) mod ?b = x mod ?b + i"
    using assms(2) by (metis add.right_neutral div_less div_mult_self3 less_nat_zero_code, metis mod_less mod_mult_self3)
  then show ?thesis using assms(1,3) by (simp add: chain_byte_def data_pos_def disk_bytes_def add.assoc)
qed

lemma cluster_to_sector_ok:
  fixes s :: "'a fat_state_scheme"
  assumes "fat_ready img rs spc e s" and "2 \<le> c"
  shows "cluster_to_sector (mem s) (fat_private_of s) (of_nat c) = of_nat (e + (c - 2) * spc)"
proof -
  have h: "mem s (header_sectors_per_cluster (fat_private_of s)) = of_nat spc" "spc < 2 ^ 8"
    "load32 (mem s) (directory_sector_pos_end (private_root_directory (fat_private_of s))) = of_nat e"
    using assms(1) by (simp_all add: fat_ready_def)
  have "(ucast (of_nat spc :: u8) :: u32) = of_nat spc" using h(2) by (simp add: unsigned_of_nat take_bit_nat_eq_self)
  then show ?thesis using assms(2) by (simp add: cluster_to_sector_def h(1,3))
qed

text \<open>One turn reads the rest of the request, at most a cluster, to the beginning of the buffer.\<close>

lemma read_clusters_turn:
  fixes s :: "'a fat_state_scheme"
  assumes "fat_ready img rs spc e s" and "st \<in> set (fat_streams s)" and "c < 2 ^ 16" and "x < 2 ^ 31"
    and "follow img rs c (x div cluster_bytes spc) = Some c'" and "2 \<le> c'" and "data_pos spc e c' x + cluster_bytes spc < 2 ^ 31"
    and "n < 2 ^ 31" and "b < n" and "region out k \<inter> (heap_private s \<union> fat_area s) = {}" and k: "k = min (n - b) (cluster_bytes spc)"
  shows "\<exists>s'. read_clusters_loop (primary_disk s) st (fat_private_of s) (of_nat (cluster_bytes spc)) (of_nat c) (of_nat x) (of_nat n) out (of_nat b) res s
      = read_clusters_loop (primary_disk s) st (fat_private_of s) (of_nat (cluster_bytes spc)) (of_nat c) (of_nat x) (of_nat n) out (of_nat (b + k)) 0 s'
    \<and> load_bytes (mem s') out k = disk_bytes img (data_pos spc e c' x) k
    \<and> keeps (region out k \<union> fat_locals s \<union> fat_pos s) s s'"
proof -
  let ?cb = "cluster_bytes spc" and ?pos = "data_pos spc e c' x"
  note cs = cluster_size [OF assms(1)] and fp = fat_ready_parts [OF assms(1)]
  obtain s1 where s1: "get_cluster (primary_disk s) (of_nat c) (of_nat x) s = Some (of_nat c', s1)" "keeps (fat_locals s \<union> fat_pos s) s s1"
    using get_cluster_ok [OF assms(1,3,4)] assms(5) by auto
  have "fat_locals s \<inter> fat_area s = {}" using fp(5) by blast
  note r1 = fat_ready_keeps [OF assms(1) s1(2) this] and l1 = grows_fat(4) [OF s1(2)]
  have c': "c' < 2 ^ 16" using follow_less [OF assms(5,3)] .
  then have nn: "\<not> (of_nat c' :: u32) <s 0" using sless_of_nat [of c' 0] by simp
  have st1: "st \<in> set (fat_streams s1)" using assms(2) r1(3) by simp
  obtain s2 where s2: "stream_seek st (of_nat ?pos) s1 = (0, s2)" "keeps (fat_pos s1) s1 s2" "stream_at s2 st ?pos"
    using fat_seek [OF r1(1) st1] by blast
  note r2 = fat_ready_keeps [OF r1(1), of "{}" s2, simplified, OF s2(2)]
  have st2: "st \<in> set (fat_streams s2)" using st1 r2(3) by simp
  have "region out k \<inter> (heap_private s2 \<union> fat_area s2) = {}" using assms(10) r1(4,7) r2(4,7) by simp
  moreover have "?pos + k < 2 ^ 31" using assms(7) k by simp
  ultimately obtain s3 where s3: "stream_read st out (of_nat k) s2 = Some (0, s3)" "load_bytes (mem s3) out k = disk_bytes img ?pos k"
    "keeps (region out k \<union> fat_pos s2) s2 s3"
    using fat_read [OF r2(1) st2 s2(3)] by blast
  have ss: "load32 (mem s1) (disk_sector_size (primary_disk s)) = 512" using r1(1,6) by (simp add: fat_ready_def disk_ready_def)
  have sec: "cluster_to_sector (mem s1) (fat_private_of s) (of_nat c') = of_nat (e + (c' - 2) * spc)"
    using cluster_to_sector_ok [OF r1(1) assms(6)] r1(2) by simp
  have md: "int_mod (of_nat x) (of_nat ?cb) = of_nat (x mod ?cb)" using int_mod_of_nat [OF assms(4)] cs(3) by simp
  have pos: "of_nat (e + (c' - 2) * spc) * 512 + of_nat (x mod ?cb) = (of_nat ?pos :: u32)" by (simp add: data_pos_def)
  have rem: "(of_nat n :: u32) - of_nat b = of_nat (n - b)" using assms(9) by simp
  have tot: "(if (of_nat ?cb :: u32) <s of_nat (n - b) then of_nat ?cb else of_nat (n - b)) = (of_nat k :: u32)"
    using sless_of_nat [of ?cb "n - b"] cs(3) assms(8) by (simp add: k min_def)
  have lt: "(of_nat b :: u32) <s of_nat n" using assms(8,9) by (simp add: sless_of_nat)
  have z: "\<not> (0 :: u32) <s 0" by simp
  have "read_clusters_loop (primary_disk s) st (fat_private_of s) (of_nat ?cb) (of_nat c) (of_nat x) (of_nat n) out (of_nat b) res s
      = read_clusters_loop (primary_disk s) st (fat_private_of s) (of_nat ?cb) (of_nat c) (of_nat x) (of_nat n) out (of_nat b + of_nat k) 0 s3"
    by (subst read_clusters_loop.simps)
      (simp only: lt if_True if_False s1(1) nn cs(4) [OF assms(4)] bind.bind_lunit prod.case Let_def md sec ss pos rem tot s2(1) s3(1) z)
  moreover have "keeps (region out k \<union> fat_locals s \<union> fat_pos s) s s3"
  proof -
    have "keeps (region out k \<union> fat_locals s \<union> fat_pos s) s s2"
      using grows_trans [OF grows_mono [OF s1(2)] s2(2), of "region out k \<union> fat_locals s \<union> fat_pos s"] r1(5) by auto
    from grows_trans [OF this s3(3)] show ?thesis using r1(5) r2(5) by auto
  qed
  ultimately show ?thesis using s3(2) by auto
qed

text \<open>The whole loop: at most one cluster arrives, whatever was asked for.\<close>

lemma read_clusters_ok:
  fixes s :: "'a fat_state_scheme"
  assumes "fat_ready img rs spc e s" and "st \<in> set (fat_streams s)" and "c < 2 ^ 16" and "x < 2 ^ 31"
    and "follow img rs c (x div cluster_bytes spc) = Some c'" and "2 \<le> c'" and "data_pos spc e c' x + cluster_bytes spc < 2 ^ 31"
    and "n < 2 ^ 31" and "b \<le> n" and k: "k = min n (cluster_bytes spc)"
    and "region out k \<inter> (heap_private s \<union> fat_area s \<union> fat_locals s) = {}"
    and "b = 0 \<and> 0 < n \<or> load_bytes (mem s) out k = disk_bytes img (data_pos spc e c' x) k"
  shows "\<exists>s'. read_clusters_loop (primary_disk s) st (fat_private_of s) (of_nat (cluster_bytes spc)) (of_nat c) (of_nat x) (of_nat n) out (of_nat b) 0 s
      = Some (0, s') \<and> load_bytes (mem s') out k = disk_bytes img (data_pos spc e c' x) k
    \<and> keeps (region out k \<union> fat_locals s \<union> fat_pos s) s s'"
  using assms(1,2,9,11,12)
proof (induction "n - b" arbitrary: b s rule: less_induct)
  case less
  note fp = fat_ready_parts [OF less.prems(1)]
  let ?pos = "data_pos spc e c' x" and ?R = "region out k \<union> fat_locals s \<union> fat_pos s"
  show ?case
  proof (cases "b = n")
    case True
    then have "\<not> (of_nat b :: u32) <s of_nat n" using assms(8) sless_of_nat [of n n] by simp
    then show ?thesis using less.prems(5) True fp(1) by (subst read_clusters_loop.simps) auto
  next
    case False
    define j where "j = min (n - b) (cluster_bytes spc)"
    have b: "b < n" using False less.prems(3) by simp
    have j: "0 < j" "j \<le> k" "b + j \<le> n" using b cluster_size(2) [OF less.prems(1)] by (auto simp: j_def k)
    have "region out j \<inter> (heap_private s \<union> fat_area s) = {}" using less.prems(4) region_mono [OF j(2), of out] by blast
    from read_clusters_turn [OF less.prems(1,2) assms(3-8) b this j_def]
    obtain s1 where s1: "read_clusters_loop (primary_disk s) st (fat_private_of s) (of_nat (cluster_bytes spc)) (of_nat c) (of_nat x) (of_nat n) out (of_nat b) 0 s
      = read_clusters_loop (primary_disk s) st (fat_private_of s) (of_nat (cluster_bytes spc)) (of_nat c) (of_nat x) (of_nat n) out (of_nat (b + j)) 0 s1"
      "load_bytes (mem s1) out j = disk_bytes img ?pos j" "keeps (region out j \<union> fat_locals s \<union> fat_pos s) s s1" by blast
    have "(region out j \<union> fat_locals s) \<inter> fat_area s = {}" using less.prems(4) region_mono [OF j(2), of out] fp(5) by blast
    note r1 = fat_ready_keeps [OF less.prems(1) s1(3) this] and l1 = grows_fat(4) [OF s1(3)]
    have h1: "load_bytes (mem s1) out k = disk_bytes img ?pos k"
    proof (rule nth_equalityI)
      fix i assume "i < length (load_bytes (mem s1) out k)"
      then have i: "i < k" "i < 2 ^ 32" using assms(8) by (simp_all add: k)
      show "load_bytes (mem s1) out k ! i = disk_bytes img ?pos k ! i"
      proof (cases "i < j")
        case True
        then show ?thesis using arg_cong [OF s1(2), of "\<lambda>xs. xs ! i"] i by simp
      next
        case False
        then have "b \<noteq> 0" using i(1) by (auto simp: j_def k)
        then have "load_bytes (mem s) out k = disk_bytes img ?pos k" using less.prems(5) by blast
        from arg_cong [OF this, of "\<lambda>xs. xs ! i"] have old: "mem s (out + of_nat i) = img (?pos + i)" using i(1) by simp
        have "out + of_nat i \<in> region out k" "out + of_nat i \<notin> region out j"
          using i False by (simp_all add: mem_region unat_of_nat32)
        then have "out + of_nat i \<notin> region out j \<union> fat_locals s \<union> fat_pos s \<union> heap_private s"
          using less.prems(4) fp(3) by blast
        from same_outsideD [OF growsD(4) [OF s1(3)] this] show ?thesis using old i by simp
      qed
    qed simp
    have h2: "n - (b + j) < n - b" using j(1) b by simp
    have h3: "region out k \<inter> (heap_private s1 \<union> fat_area s1 \<union> fat_locals s1) = {}" using less.prems(4) r1(4,7) l1 by simp
    have h4: "st \<in> set (fat_streams s1)" using less.prems(2) r1(3) by simp
    obtain s2 where s2: "read_clusters_loop (primary_disk s1) st (fat_private_of s1) (of_nat (cluster_bytes spc)) (of_nat c) (of_nat x) (of_nat n) out (of_nat (b + j)) 0 s1
      = Some (0, s2)" "load_bytes (mem s2) out k = disk_bytes img ?pos k" "keeps (region out k \<union> fat_locals s1 \<union> fat_pos s1) s1 s2"
      using less.hyps [OF h2 r1(1) h4 j(3) h3 disjI2 [OF h1]] by blast
    have "keeps ?R s s1" by (rule grows_mono [OF s1(3)]) (use region_mono [OF j(2), of out] in auto)
    from grows_trans [OF this s2(3)] have "keeps ?R s s2" using r1(5) l1 by auto
    then show ?thesis using s1(1) s2(1,2) r1(2,6) by auto
  qed
qed

lemma read_internal_ok:
  fixes s :: "'a fat_state_scheme"
  assumes "fat_ready img rs spc e s" and "c < 2 ^ 16" and "x < 2 ^ 31"
    and "follow img rs c (x div cluster_bytes spc) = Some c'" and "2 \<le> c'" and "data_pos spc e c' x + cluster_bytes spc < 2 ^ 31"
    and "0 < n" and "n < 2 ^ 31" and "k = min n (cluster_bytes spc)"
    and "region out k \<inter> (heap_private s \<union> fat_area s \<union> fat_locals s) = {}"
  shows "\<exists>s'. read_internal (primary_disk s) (of_nat c) (of_nat x) (of_nat n) out s = Some (0, s')
    \<and> load_bytes (mem s') out k = disk_bytes img (data_pos spc e c' x) k
    \<and> keeps (region out k \<union> fat_locals s \<union> fat_pos s) s s'"
proof -
  let ?st = "load32 (mem s) (cluster_read_stream (fat_private_of s))"
  have st: "?st \<in> set (fat_streams s)" by (simp add: fat_streams_def)
  from read_clusters_ok [OF assms(1) st assms(2-6,8) _ assms(9,10), of 0] assms(7) show ?thesis
    by (simp add: read_internal_def read_internal_from_stream_def fat_private_of_def [symmetric] cluster_size(1) [OF assms(1)])
qed

lemma read_internal_broken:
  fixes s :: "'a fat_state_scheme"
  assumes "fat_ready img rs spc e s" and "c < 2 ^ 16" and "x < 2 ^ 31"
    and "follow img rs c (x div cluster_bytes spc) = None" and "0 < n" and "n < 2 ^ 31"
  shows "\<exists>s'. read_internal (primary_disk s) (of_nat c) (of_nat x) (of_nat n) out s = Some (- EIO, s')
    \<and> keeps (fat_locals s \<union> fat_pos s) s s'"
proof -
  obtain s1 where s1: "get_cluster (primary_disk s) (of_nat c) (of_nat x) s = Some (- EIO, s1)" "keeps (fat_locals s \<union> fat_pos s) s s1"
    using get_cluster_ok [OF assms(1-3)] assms(4) by auto
  have "(0 :: u32) <s of_nat n" using assms(5,6) sless_of_nat [of 0 n] by simp
  moreover have "- EIO <s 0" by (simp add: kernel_consts word_sless_alt)
  ultimately have "read_internal (primary_disk s) (of_nat c) (of_nat x) (of_nat n) out s = Some (- EIO, s1)"
    using s1(1) by (simp add: read_internal_def read_internal_from_stream_def Let_def) (subst read_clusters_loop.simps, simp)
  then show ?thesis using s1(2) by blast
qed

section \<open>Directories\<close>

text \<open>A directory on the disk: items of 32 bytes up to the first one whose name begins with 0. Those that
  begin with \<open>0xE5\<close> are deleted and do not count.\<close>

definition dir_ends :: "image \<Rightarrow> nat \<Rightarrow> nat \<Rightarrow> bool" where
  "dir_ends img pos n \<longleftrightarrow> (\<forall>i < n. img (pos + 32 * i) \<noteq> 0) \<and> img (pos + 32 * n) = 0"

fun dir_count :: "image \<Rightarrow> nat \<Rightarrow> nat \<Rightarrow> nat" where
  "dir_count img pos 0 = 0"
| "dir_count img pos (Suc n) = (if img pos = 0xE5 then 0 else 1) + dir_count img (pos + 32) n"

lemma dir_ends_Suc: "dir_ends img pos (Suc n) \<longleftrightarrow> img pos \<noteq> 0 \<and> dir_ends img (pos + 32) n"
proof -
  have "(\<forall>i < Suc n. img (pos + 32 * i) \<noteq> 0) \<longleftrightarrow> img pos \<noteq> 0 \<and> (\<forall>i < n. img (pos + 32 + 32 * i) \<noteq> 0)"
    by (simp add: All_less_Suc2 ac_simps)
  then show ?thesis by (simp add: dir_ends_def ac_simps)
qed

lemma read_item:
  fixes s :: "'a fat_state_scheme"
  assumes "fat_ready img rs spc e s" and "st \<in> set (fat_streams s)" and "stream_at s st pos" and "pos + 32 < 2 ^ 31"
  obtains s' where "stream_read st (item_local s) sizeof_fat_directory_item s = Some (0, s')" and "mem s' (item_local s') = img pos"
    and "load_bytes (mem s') (item_local s') 32 = disk_bytes img pos 32"
    and "keeps (fat_locals s \<union> fat_pos s) s s'" and "stream_at s' st (pos + 32)" and "fat_ready img rs spc e s'"
    and "st \<in> set (fat_streams s')" and "fat_locals s' \<union> fat_pos s' = fat_locals s \<union> fat_pos s"
proof -
  let ?l = "item_local s"
  have lin: "region ?l 32 \<subseteq> fat_locals s" by (auto simp: fat_locals_def)
  have "region ?l 32 \<inter> (heap_private s \<union> fat_area s) = {}" using lin fat_ready_parts(5) [OF assms(1)] by blast
  then obtain s' where s': "stream_read st ?l (of_nat 32) s = Some (0, s')" "load_bytes (mem s') ?l 32 = disk_bytes img pos 32"
    "keeps (region ?l 32 \<union> fat_pos s) s s'" "stream_at s' st (pos + 32)"
    using fat_read [OF assms(1-4)] by blast
  have k: "keeps (fat_locals s \<union> fat_pos s) s s'" by (rule grows_mono [OF s'(3)]) (use lin in auto)
  have "fat_locals s \<inter> fat_area s = {}" using fat_ready_parts(5) [OF assms(1)] by blast
  note r = fat_ready_keeps [OF assms(1) k this] and l = grows_fat [OF k]
  have m: "mem s' ?l = img pos" using arg_cong [OF s'(2), of "\<lambda>xs. xs ! 0"] by simp
  have rd: "stream_read st ?l sizeof_fat_directory_item s = Some (0, s')" using s'(1) by (simp add: kernel_consts)
  show ?thesis by (rule that [OF rd _ _ k s'(4) r(1)]) (use m s'(2) l r(3,5) assms(2) in simp_all)
qed

lemma count_items_loop_ok:
  fixes s :: "'a fat_state_scheme"
  assumes "fat_ready img rs spc e s" and "st \<in> set (fat_streams s)" and "stream_at s st pos" and "dir_ends img pos n"
    and "pos + 32 * n + 32 < 2 ^ 31"
  shows "\<exists>s'. count_items_loop st 0 (of_nat k) s = Some (of_nat (k + dir_count img pos n), s') \<and> keeps (fat_locals s \<union> fat_pos s) s s'"
  using assms
proof (induction n arbitrary: pos k s)
  case 0
  have z: "img pos = 0" and b: "pos + 32 < 2 ^ 31" using 0(4,5) by (simp_all add: dir_ends_def)
  obtain s1 where "stream_read st (item_local s) sizeof_fat_directory_item s = Some (0, s1)" "mem s1 (item_local s1) = img pos"
    "keeps (fat_locals s \<union> fat_pos s) s s1" by (rule read_item [OF 0(1-3) b])
  then show ?case using z by (subst count_items_loop.simps) simp
next
  case (Suc n)
  have d: "img pos \<noteq> 0" "dir_ends img (pos + 32) n" using Suc.prems(4) by (simp_all add: dir_ends_Suc)
  have b: "pos + 32 < 2 ^ 31" "pos + 32 + 32 * n + 32 < 2 ^ 31" using Suc.prems(5) by simp_all
  obtain s1 where s1: "stream_read st (item_local s) sizeof_fat_directory_item s = Some (0, s1)" "mem s1 (item_local s1) = img pos"
    "keeps (fat_locals s \<union> fat_pos s) s s1" "stream_at s1 st (pos + 32)" "fat_ready img rs spc e s1" "st \<in> set (fat_streams s1)"
    "fat_locals s1 \<union> fat_pos s1 = fat_locals s \<union> fat_pos s" by (rule read_item [OF Suc.prems(1-3) b(1)])
  define j where "j = (if img pos = 0xE5 then k else Suc k)"
  obtain s2 where s2: "count_items_loop st 0 (of_nat j) s1 = Some (of_nat (j + dir_count img (pos + 32) n), s2)"
    "keeps (fat_locals s1 \<union> fat_pos s1) s1 s2" using Suc.IH [OF s1(5,6,4) d(2) b(2), of j] by blast
  have "count_items_loop st 0 (of_nat k) s = count_items_loop st 0 (of_nat j) s1"
    using s1(1,2) d(1) by (subst count_items_loop.simps) (simp add: j_def add.commute)
  then show ?case using s2(1) grows_trans [OF s1(3) s2(2)] s1(7) by (simp add: j_def split: if_splits)
qed

lemma get_directory_total_items_ok:
  fixes s :: "'a fat_state_scheme"
  assumes "fat_ready img rs spc e s" and "dir_ends img (sec * 512) n" and "sec * 512 + 32 * n + 32 < 2 ^ 31"
  shows "\<exists>s'. get_directory_total_items (primary_disk s) (of_nat sec) 0 s = Some (of_nat (dir_count img (sec * 512) n), s')
    \<and> keeps (fat_locals s \<union> fat_pos s) s s'"
proof -
  let ?st = "load32 (mem s) (directory_read_stream (fat_private_of s))"
  have st: "?st \<in> set (fat_streams s)" by (simp add: fat_streams_def)
  obtain s1 where s1: "stream_seek ?st (of_nat (sec * 512)) s = (0, s1)" "keeps (fat_pos s) s s1" "stream_at s1 ?st (sec * 512)"
    using fat_seek [OF assms(1) st] by blast
  note r1 = fat_ready_keeps [OF assms(1), of "{}" s1, simplified, OF s1(2)]
  have st1: "?st \<in> set (fat_streams s1)" using st r1(3) by simp
  obtain s2 where s2: "count_items_loop ?st 0 (of_nat 0) s1 = Some (of_nat (0 + dir_count img (sec * 512) n), s2)"
    "keeps (fat_locals s1 \<union> fat_pos s1) s1 s2" using count_items_loop_ok [OF r1(1) st1 s1(3) assms(2,3)] by blast
  have ss: "load32 (mem s) (disk_sector_size (primary_disk s)) = 512" using assms(1) by (simp add: fat_ready_def disk_ready_def)
  have w: "(of_nat sec :: u32) * 512 = of_nat (sec * 512)" by simp
  have "get_directory_total_items (primary_disk s) (of_nat sec) 0 s = Some (of_nat (dir_count img (sec * 512) n), s2)"
    unfolding get_directory_total_items_def Let_def fat_private_of_def [symmetric] ss w s1(1) using s2(1) by simp
  moreover have "keeps (fat_locals s \<union> fat_pos s) s s2"
    using grows_trans [OF grows_mono [OF s1(2)] s2(2), of "fat_locals s \<union> fat_pos s"] r1(5) grows_fat(4) [OF s1(2)] by auto
  ultimately show ?thesis by blast
qed

section \<open>Names\<close>

abbreviation name_char :: "u8 \<Rightarrow> bool" where
  "name_char c \<equiv> c \<noteq> 0x00 \<and> c \<noteq> 0x20"

text \<open>The name of an item of which \<open>bs\<close> are the first eleven bytes: 8 characters of name, 3 of extension.\<close>

definition fat_name :: "u8 list \<Rightarrow> u8 list" where
  "fat_name bs = takeWhile name_char (take 8 bs)
     @ (let ext = takeWhile name_char (take 3 (drop 8 bs)) in if ext = [] then [] else 0x2E # ext)"

lemma copy_name_ok:
  assumes "n < 2 ^ 31" and nm: "nm = takeWhile name_char (load_bytes m src n)" and "region out n \<inter> region src n = {}" and "i \<le> length nm"
  shows "copy_name_loop src (of_nat n) (of_nat i) (out + of_nat i) (write_bytes m out (take i nm)) = (out + of_nat (length nm), write_bytes m out nm)"
  using assms(4)
proof (induction i rule: inc_induct)
  case base
  have l: "length nm \<le> n" using length_takeWhile_le [of name_char "load_bytes m src n"] by (simp add: nm)
  show ?case
  proof (cases "length nm < n")
    case True
    then have "\<not> name_char (load_bytes m src n ! length nm)" using nth_length_takeWhile [of name_char "load_bytes m src n"] by (simp add: nm)
    moreover have "src + of_nat (length nm) \<in> region src n" using True assms(1) by simp
    then have "src + of_nat (length nm) \<notin> region out (length nm)" using assms(3) region_mono [OF l, of out] by blast
    then have "write_bytes m out nm (src + of_nat (length nm)) = load_bytes m src n ! length nm"
      using same_outsideD [OF write_bytes_outside] True by simp
    ultimately show ?thesis by (subst copy_name_loop.simps) auto
  next
    case False
    then have "\<not> (of_nat (length nm) :: u32) <s of_nat n" using l assms(1) by (simp add: sless_of_nat)
    then show ?thesis by (subst copy_name_loop.simps) simp
  qed
next
  case (step i)
  let ?bs = "load_bytes m src n"
  have l: "length nm \<le> n" using length_takeWhile_le [of name_char ?bs] by (simp add: nm)
  have i: "i < n" "nm ! i = ?bs ! i" "name_char (nm ! i)"
    using step(2) l takeWhile_nth [of i name_char ?bs] set_takeWhileD [of "nm ! i" name_char ?bs] nth_mem [of i nm] by (auto simp: nm)
  have lt: "(of_nat i :: u32) <s of_nat n" using i(1) assms(1) by (simp add: sless_of_nat)
  have "src + of_nat i \<in> region src n" using i(1) assms(1) by simp
  then have "src + of_nat i \<notin> region out (length (take i nm))" using assms(3) region_mono [of i n out] i(1) step(2) by (auto simp: min_def)
  then have v: "write_bytes m out (take i nm) (src + of_nat i) = nm ! i" using same_outsideD [OF write_bytes_outside] i(1,2) by simp
  have "(write_bytes m out (take i nm))(out + of_nat i := nm ! i) = write_bytes m out (take (Suc i) nm)"
    using write_bytes_snoc [of "take i nm" m out "nm ! i"] step(2) i(1) assms(1) by (simp add: take_Suc_conv_app_nth min_def)
  then show ?case using step(3) lt v i(3) by (subst copy_name_loop.simps) (simp add: ac_simps)
qed

lemma space_terminated_ok:
  assumes "n < 2 ^ 31" and nm: "nm = takeWhile name_char (load_bytes m src n)" and "region out n \<inter> region src n = {}"
    and "m (out + of_nat (length nm)) = 0"
  shows "get_space_terminated_string out src (of_nat n) m = (out + of_nat (length nm), write_bytes m out nm)"
proof -
  have l: "length nm < 2 ^ 32" using length_takeWhile_le [of name_char "load_bytes m src n"] assms(1) by (simp add: nm)
  have "out + of_nat (length nm) \<notin> region out (length nm)" using l by (simp add: mem_region unat_of_nat32)
  then have "write_bytes m out nm (out + of_nat (length nm)) = 0" using same_outsideD [OF write_bytes_outside] assms(4) by metis
  then show ?thesis using copy_name_ok [OF assms(1-3), of 0] by (simp add: get_space_terminated_string_def)
qed

lemma fat_name_length: "length (fat_name bs) \<le> 12"
proof -
  have "length (takeWhile name_char (take 8 bs)) \<le> 8" "length (takeWhile name_char (take 3 (drop 8 bs))) \<le> 3"
    using length_takeWhile_le [of name_char "take 8 bs"] length_takeWhile_le [of name_char "take 3 (drop 8 bs)"] by auto
  then show ?thesis by (simp add: fat_name_def Let_def)
qed

lemma get_filename_ok:
  assumes "region out 255 \<inter> region it 11 = {}"
  shows "get_filename it out FS_MAX_PATH_SIZE m = write_bytes (memset m out 0 255) out (fat_name (load_bytes m it 11))"
proof -
  let ?m0 = "memset m out 0 255" and ?bs = "load_bytes m it 11"
  define nm where "nm = takeWhile name_char (take 8 ?bs)"
  define ext where "ext = takeWhile name_char (take 3 (drop 8 ?bs))"
  have l: "length nm \<le> 8" "length ext \<le> 3"
    using length_takeWhile_le [of name_char "take 8 ?bs"] length_takeWhile_le [of name_char "take 3 (drop 8 ?bs)"] by (auto simp: nm_def ext_def)
  have fn: "fat_name ?bs = nm @ (if ext = [] then [] else 0x2E # ext)" by (simp only: fat_name_def nm_def ext_def Let_def)
  have f0: "same_outside (region out 255) m ?m0" using memset_outside [of out 255 m 0] by simp
  have z: "?m0 (out + of_nat i) = 0" if "i < 255" for i using memset_inside [of "out + of_nat i" out 255 m 0] that by simp
  have o: "region out n \<inter> region a k = {}" if "n \<le> 255" "region a k \<subseteq> region it 11" for n a k
    using assms region_mono [OF that(1), of out] that(2) by blast
  have in11: "region it 8 \<subseteq> region it 11" "region (it + 8) 3 \<subseteq> region it 11" using region_mono [of 8 11 it] region_shift [of 8 3 11 it] by simp_all
  have b0: "load_bytes ?m0 it 11 = ?bs" using load_bytes_frame [OF f0] assms by (simp add: Int_commute)
  have nm': "nm = takeWhile name_char (load_bytes ?m0 it 8)" using load_bytes_drop [of 0 8 11 ?m0 it] b0 by (simp add: nm_def)
  have "?m0 (out + of_nat (length nm)) = 0" using z l(1) by simp
  from space_terminated_ok [OF _ nm' o [OF _ in11(1)] this]
  have 1: "get_space_terminated_string out it 8 ?m0 = (out + of_nat (length nm), write_bytes ?m0 out nm)" by simp
  have e: "write_bytes ?m0 out xs (it + 8) = ?bs ! 8" "load_bytes (write_bytes ?m0 out xs) (it + 8) 3 = take 3 (drop 8 ?bs)"
    if "length xs \<le> 255" for xs
  proof -
    have f: "same_outside (region out 255) m (write_bytes ?m0 out xs)"
      by (rule same_outside_mono [OF same_outside_trans [OF f0 write_bytes_outside]]) (use region_mono [OF that, of out] in auto)
    show "load_bytes (write_bytes ?m0 out xs) (it + 8) 3 = take 3 (drop 8 ?bs)"
      using load_bytes_frame [OF f, of "it + 8" 3] o [OF order_refl in11(2)] load_bytes_drop [of 8 3 11 m it] by (simp add: Int_commute)
    from arg_cong [OF this, of "\<lambda>xs. xs ! 0"] show "write_bytes ?m0 out xs (it + 8) = ?bs ! 8" by simp
  qed
  have x: "ext \<noteq> [] \<longleftrightarrow> name_char (?bs ! 8)"
  proof -
    have "take 3 (drop 8 ?bs) = ?bs ! 8 # take 2 (drop 9 ?bs)" by (simp add: Cons_nth_drop_Suc [symmetric])
    then show ?thesis by (simp add: ext_def)
  qed
  show ?thesis
  proof (cases "name_char (?bs ! 8)")
    case True
    let ?m2 = "write_bytes ?m0 out (nm @ [0x2E])"
    have m2: "(write_bytes ?m0 out nm)(out + of_nat (length nm) := 0x2E) = ?m2" using l(1) by (intro write_bytes_snoc) simp
    have e2: "ext = takeWhile name_char (load_bytes ?m2 (it + 8) 3)" using e(2) [of "nm @ [0x2E]"] l(1) by (simp add: ext_def)
    have "region (out + of_nat (length nm) + 1) 3 \<subseteq> region out 255" using region_shift [of "Suc (length nm)" 3 255 out] l(1) by (simp add: ac_simps)
    then have d: "region (out + of_nat (length nm) + 1) 3 \<inter> region (it + 8) 3 = {}" using assms in11(2) by blast
    have q: "out + of_nat (length nm) + 1 + of_nat (length ext) = out + of_nat (Suc (length nm + length ext))" by (simp add: ac_simps)
    have nin: "out + of_nat (Suc (length nm + length ext)) \<notin> region out (length (nm @ [0x2E]))"
      using l by (simp add: mem_region unat_of_nat32 del: of_nat_Suc of_nat_add)
    have "?m0 (out + of_nat (Suc (length nm + length ext))) = 0" using l by (intro z) simp
    with same_outsideD [OF write_bytes_outside nin] have "?m2 (out + of_nat (length nm) + 1 + of_nat (length ext)) = 0"
      unfolding q by (rule trans)
    from space_terminated_ok [OF _ e2 d this]
    have "get_space_terminated_string (out + of_nat (length nm) + 1) (it + 8) 3 ?m2 = (out + of_nat (length nm) + 1 + of_nat (length ext), write_bytes ?m2 (out + of_nat (length nm) + 1) ext)" by simp
    moreover have "write_bytes ?m2 (out + of_nat (length nm) + 1) ext = write_bytes ?m0 out (nm @ 0x2E # ext)"
      using write_bytes_append [of "nm @ [0x2E]" ext ?m0 out] l by (simp add: ac_simps)
    ultimately show ?thesis using True 1 e(1) [of nm] l(1) x m2
      by (simp add: get_filename_def fat_fields FS_MAX_PATH_SIZE_def fn)
  next
    case False
    then show ?thesis using 1 e(1) [of nm] l(1) x
      by (auto simp: get_filename_def fat_fields FS_MAX_PATH_SIZE_def fn)
  qed
qed

lemma get_filename_string:
  assumes "region out 255 \<inter> region it 11 = {}"
  shows "cstring (get_filename it out FS_MAX_PATH_SIZE m) out (fat_name (load_bytes m it 11))
    \<and> same_outside (region out 255) m (get_filename it out FS_MAX_PATH_SIZE m)"
proof -
  let ?m0 = "memset m out 0 255" and ?nm = "fat_name (load_bytes m it 11)"
  note e = get_filename_ok [OF assms, of m] and l = fat_name_length [of "load_bytes m it 11"]
  have "0 \<notin> set ?nm" by (auto simp: fat_name_def Let_def dest: set_takeWhileD)
  moreover have "load_bytes (write_bytes ?m0 out ?nm) out (length ?nm) = ?nm" using l by (intro load_write_bytes) simp
  moreover have "out + of_nat (length ?nm) \<notin> region out (length ?nm)" using l by (simp add: mem_region unat_of_nat32)
  then have "write_bytes ?m0 out ?nm (out + of_nat (length ?nm)) = ?m0 (out + of_nat (length ?nm))"
    using same_outsideD [OF write_bytes_outside] by blast
  moreover have "?m0 (out + of_nat (length ?nm)) = 0" using memset_inside [of "out + of_nat (length ?nm)" out 255 m 0] l by simp
  ultimately have "cstring (write_bytes ?m0 out ?nm) out ?nm" using l by (simp add: cstring_def)
  moreover have "same_outside (region out 255) m (write_bytes ?m0 out ?nm)"
    by (rule same_outside_mono [OF same_outside_trans [OF memset_outside write_bytes_outside]]) (use l region_mono [of "length ?nm" 255 out] in auto)
  ultimately show ?thesis unfolding e by blast
qed

section \<open>A sample volume\<close>

text \<open>One reserved sector, then the table: cluster 2 is followed by 3, the last. Sectors hold their number. The
  data region begins at sector 3, and sector 4 begins like a directory with one item and one deleted one.\<close>

definition sample_volume :: image where
  "sample_volume i =
     (if i = 516 then 3 else if i = 517 then 0 else if i = 518 \<or> i = 519 then 0xFF
      else if i = 2080 then 0xE5 else if i = 2112 then 0 else of_nat (i div 512))"

text \<open>The driver's structures in heap blocks: the private data, three streams, and an open file whose first
  cluster is 2. The root directory has one item, at address 0.\<close>

definition fat_mem :: mem where
  "fat_mem = zero_mem(0x300005 := 2, 0x300013 := 1, 0x0100000D := 1, 0x0100000E := 1, 0x01000044 := 1, 0x0100004C := 3,
     0x01000051 := 0x20, 0x01000053 := 1, 0x01000055 := 0x10, 0x01000057 := 1, 0x01000059 := 0x30, 0x0100005B := 1,
     0x01001006 := 0x30, 0x01002006 := 0x30, 0x01003006 := 0x30, 0x01004001 := 0x50, 0x01004003 := 1,
     0x01005001 := 0x60, 0x01005003 := 1, 0x01005004 := 1, 0x0100601A := 2)"

definition sample_fat :: fat_state where
  "sample_fat = disk_state.extend (sample_disk 7 fat_mem sample_volume) (fat_state.fields 0x500000 0x500200 0x400000 0x400100 0x400200)"

lemma sample_fat_fields: "mem sample_fat = taken_mem 7 fat_mem" "primary_disk sample_fat = 0x300000"
  "device sample_fat = sample_drive sample_volume" "item_local sample_fat = 0x400000" "fat_entry_local sample_fat = 0x400100"
  "filename_local sample_fat = 0x400200"
  by (simp_all add: sample_fat_def disk_state.extend_def fat_state.fields_def sample_disk_def)

lemma sample_fat_byte: "unat a \<ge> 0x100000 \<Longrightarrow> mem sample_fat a = fat_mem a"
  unfolding sample_fat_fields(1) by (subst taken_mem_outside) (simp_all add: region_interval)

lemma sample_fat_word:
  assumes "unat a \<ge> 0x100000" and "unat a < 0x10000000"
  shows "load32 (mem sample_fat) a = load32 fat_mem a" and "load16 (mem sample_fat) a = load16 fat_mem a"
proof -
  have "unat (a + 1) = unat a + 1" "unat (a + 2) = unat a + 2" "unat (a + 3) = unat a + 3"
    using assms(2) by (simp_all add: unat_word_ariths)
  then show "load32 (mem sample_fat) a = load32 fat_mem a" "load16 (mem sample_fat) a = load16 fat_mem a"
    using assms(1) by (auto simp: load32_def load16_def sample_fat_byte)
qed

lemma sample_fat_heap:
  shows "kheap_inv sample_fat" and "i < 7 \<Longrightarrow> (0x01000000 + of_nat (i * 4096), 4096) \<in> kheap_live sample_fat"
    and "7 + k \<le> 25600 \<Longrightarrow> kheap_cap sample_fat k"
proof -
  have h: "kernel_heap sample_fat = the_kernel_heap" "strategy_malloc (strategy sample_fat) = Some heap_malloc"
    "strategy_free (strategy sample_fat) = Some heap_free"
    by (simp_all add: sample_fat_def disk_state.extend_def fat_state.fields_def sample_disk_def)
  note t = taken_heap [OF _ h sample_fat_fields(1)]
  show "kheap_inv sample_fat" "i < 7 \<Longrightarrow> (0x01000000 + of_nat (i * 4096), 4096) \<in> kheap_live sample_fat"
    "7 + k \<le> 25600 \<Longrightarrow> kheap_cap sample_fat k" using t by simp_all
qed

lemma sample_fat_private: "fat_private_of sample_fat = 0x01000000"
  by (simp add: fat_private_of_def disk_fields sample_fat_fields(2) sample_fat_word) (simp add: fat_mem_def load32_def)

lemma sample_fat_streams: "fat_streams sample_fat = [0x01001000, 0x01002000, 0x01003000]"
  by (simp add: fat_streams_def sample_fat_private fat_fields sample_fat_word) (simp add: fat_mem_def load32_def)

lemma sample_fat_ready: "fat_ready sample_volume 1 1 3 sample_fat"
proof -
  have live: "(0x01000000, 4096) \<in> kheap_live sample_fat" "(0x01001000, 4096) \<in> kheap_live sample_fat"
    "(0x01002000, 4096) \<in> kheap_live sample_fat" "(0x01003000, 4096) \<in> kheap_live sample_fat"
    using sample_fat_heap(2) [of 0] sample_fat_heap(2) [of 1] sample_fat_heap(2) [of 2] sample_fat_heap(2) [of 3] by simp_all
  have off: "region 0x300000 20 \<inter> (kheap_meta \<union> heap_area) = {}"
    by (auto simp: kheap_meta_def table_region_def heap_area_def region_interval)
  have dr: "disk_ready sample_volume sample_fat"
    using sample_fat_heap(1) off sample_drive_ok [of sample_volume]
    by (simp add: disk_ready_def sample_fat_fields disk_fields) (simp add: sample_fat_fields(1) [symmetric] sample_fat_word, simp add: fat_mem_def load32_def)
  have st: "fat_stream sample_fat st" if "st \<in> {0x01001000, 0x01002000, 0x01003000}" for st
  proof -
    have "load32 (mem sample_fat) (stream_d st) = 0x300000"
      using that by (auto simp: disk_fields sample_fat_word) (simp_all add: fat_mem_def load32_def)
    moreover have "(st, 4096) \<in> kheap_live sample_fat" using that live by auto
    ultimately show ?thesis by (auto simp: fat_stream_def sample_fat_fields(2) intro: exI [of _ 4096])
  qed
  have "\<exists>k \<ge> 92. (0x01000000, k) \<in> kheap_live sample_fat" using live(1) by (intro exI [of _ 4096]) simp
  moreover have "load16 (mem sample_fat) 0x0100000E = of_nat 1" "mem sample_fat 0x0100000D = of_nat 1" "load32 (mem sample_fat) 0x0100004C = of_nat 3"
    by (simp_all add: sample_fat_word sample_fat_byte) (simp_all add: fat_mem_def load16_def load32_def)
  moreover have "fat_locals sample_fat \<inter> (kheap_meta \<union> heap_area \<union> region 0x300000 20) = {}"
    by (auto simp: fat_locals_def sample_fat_fields kheap_meta_def table_region_def heap_area_def region_interval)
  ultimately show ?thesis using dr st sample_fat_heap(3) [of 1]
    by (simp add: fat_ready_def sample_fat_streams sample_fat_private sample_fat_fields(2) fat_fields)
qed

lemma sample_output:
  assumes "n \<le> 16"
  shows "region 0x5000 n \<inter> (heap_private sample_fat \<union> fat_area sample_fat \<union> fat_locals sample_fat) = {}"
proof -
  have "region 0x5000 16 \<inter> (kheap_meta \<union> heap_area \<union> region 0x300000 20 \<union> fat_locals sample_fat) = {}"
    by (auto simp: fat_locals_def sample_fat_fields kheap_meta_def table_region_def heap_area_def region_interval)
  moreover have "fat_area sample_fat \<subseteq> heap_area \<union> region 0x300000 20"
    by (auto simp: fat_area_def sample_fat_streams sample_fat_private sample_fat_fields heap_area_def region_interval)
  moreover have "heap_private sample_fat \<subseteq> kheap_meta \<union> heap_area" by (auto simp: heap_private_def)
  ultimately show ?thesis using region_mono [OF assms, of "0x5000"] by blast
qed

section \<open>Properties\<close>

text \<open>C30: \<^verbatim>\<open>get_cluster\<close> walks the allocation table on the disk: for byte offset \<open>x\<close> it returns the cluster that many
  whole clusters further along the chain of \<open>c\<close>, and an I/O error when the chain breaks off before. Nothing
  in use is written but the driver's locals and stream positions, and the same blocks stay live.\<close>

theorem get_cluster_follows_chain:
  fixes s :: "'a fat_state_scheme"
  assumes "fat_ready img rs spc e s" and "c < 2 ^ 16" and "x < 2 ^ 31"
  shows "\<exists>s'. get_cluster (primary_disk s) (of_nat c) (of_nat x) s
      = Some (case follow img rs c (x div cluster_bytes spc) of None \<Rightarrow> - EIO | Some c' \<Rightarrow> of_nat c', s')
    \<and> fat_ready img rs spc e s' \<and> kheap_live s' = kheap_live s
    \<and> same_outside (fat_locals s \<union> fat_pos s \<union> heap_private s) (mem s) (mem s')"
proof -
  obtain s' where s': "get_cluster (primary_disk s) (of_nat c) (of_nat x) s
      = Some (case follow img rs c (x div cluster_bytes spc) of None \<Rightarrow> - EIO | Some c' \<Rightarrow> of_nat c', s')"
    "keeps (fat_locals s \<union> fat_pos s) s s'" using get_cluster_ok [OF assms] by blast
  have "fat_locals s \<inter> fat_area s = {}" using fat_ready_parts(5) [OF assms(1)] by blast
  from fat_ready_keeps(1) [OF assms(1) s'(2) this] s' growsD(4) [OF s'(2)] keepsD(1) [OF s'(2)] show ?thesis by blast
qed

theorem get_cluster_follows_chain_witness:
  "\<exists>s'. get_cluster 0x300000 2 512 sample_fat = Some (3, s') \<and> kheap_live s' = kheap_live sample_fat"
proof -
  have "follow sample_volume 1 2 (512 div cluster_bytes 1) = Some 3"
    by (simp add: cluster_bytes_def fat_entry_at_def le16_def sample_volume_def)
  with get_cluster_follows_chain [OF sample_fat_ready, of 2 512] show ?thesis by (auto simp: sample_fat_fields(2))
qed

text \<open>C31: what reading an open file does. The bytes of the file's chain from the file's position up to the end of
  the cluster the position lies in arrive in the buffer, followed, when more are asked for, by the bytes that
  come next on the disk, whether they belong to the file or not: as many as were asked for, but never more
  than a cluster's length, however many were asked for. The result is 0. The size of the file plays no part.
  Nothing else in use changes, the file's position included.\<close>

theorem fat16_read_at_most_a_cluster:
  fixes s :: "'a fat_state_scheme"
  assumes "fat_ready img rs spc e s" and "load32 (mem s) (item_type (load32 (mem s) (item_descriptor_item desc))) = FAT_ITEM_TYPE_FILE"
    and "get_first_cluster (mem s) (load32 (mem s) (item_pointer (load32 (mem s) (item_descriptor_item desc)))) = of_nat c" and "c < 2 ^ 16"
    and "load32 (mem s) (item_descriptor_pos desc) = of_nat x" and "x < 2 ^ 31"
    and "follow img rs c (x div cluster_bytes spc) = Some c'" and "2 \<le> c'" and "data_pos spc e c' x + cluster_bytes spc < 2 ^ 31"
    and "block_size * num_blocks = of_nat n" and "0 < n" and "n < 2 ^ 31"
    and "region out (min n (cluster_bytes spc)) \<inter> (heap_private s \<union> fat_area s \<union> fat_locals s) = {}"
  shows "\<exists>s'. fat16_read (primary_disk s) desc block_size num_blocks out s = Some (0, s')
    \<and> load_bytes (mem s') out (min n (cluster_bytes spc)) = disk_bytes img (data_pos spc e c' x) (min n (cluster_bytes spc))
    \<and> (\<forall>i < min n (cluster_bytes spc). x mod cluster_bytes spc + i < cluster_bytes spc \<longrightarrow>
        chain_byte img rs spc e c (x + i) = Some (load_bytes (mem s') out (min n (cluster_bytes spc)) ! i))
    \<and> kheap_live s' = kheap_live s
    \<and> same_outside (region out (min n (cluster_bytes spc)) \<union> fat_locals s \<union> fat_pos s \<union> heap_private s) (mem s) (mem s')"
proof -
  obtain s' where 1: "read_internal (primary_disk s) (of_nat c) (of_nat x) (of_nat n) out s = Some (0, s')"
    "load_bytes (mem s') out (min n (cluster_bytes spc)) = disk_bytes img (data_pos spc e c' x) (min n (cluster_bytes spc))"
    "keeps (region out (min n (cluster_bytes spc)) \<union> fat_locals s \<union> fat_pos s) s s'"
    using read_internal_ok [OF assms(1,4,6-9,11,12) refl assms(13)] by blast
  have "fat16_read (primary_disk s) desc block_size num_blocks out s = read_internal (primary_disk s) (of_nat c) (of_nat x) (of_nat n) out s"
    using assms(2,3,5,10) by (simp add: fat16_read_def Let_def)
  moreover have "chain_byte img rs spc e c (x + i) = Some (load_bytes (mem s') out (min n (cluster_bytes spc)) ! i)"
    if "i < min n (cluster_bytes spc)" "x mod cluster_bytes spc + i < cluster_bytes spc" for i
    unfolding 1(2) by (rule chain_byte_disk [OF assms(7) that(2,1)])
  ultimately show ?thesis using 1(1,2) keepsD(1) [OF 1(3)] growsD(4) [OF 1(3)] by (intro exI [of _ s']) simp
qed

theorem fat16_read_at_most_a_cluster_witness:
  "\<exists>s'. fat16_read 0x300000 0x01004000 4 1 0x5000 sample_fat = Some (0, s') \<and> load_bytes (mem s') 0x5000 4 = [3, 3, 3, 3]
    \<and> chain_byte sample_volume 1 1 3 2 3 = Some 3"
proof -
  have w: "load32 (mem sample_fat) 0x01004000 = 0x01005000" "load32 (mem sample_fat) 0x01005004 = 1" "load32 (mem sample_fat) 0x01005000 = 0x01006000"
    "load16 (mem sample_fat) 0x01006014 = 0" "load16 (mem sample_fat) 0x0100601A = 2" "load32 (mem sample_fat) 0x01004004 = 0"
    by (simp_all add: sample_fat_word) (simp_all add: fat_mem_def load32_def load16_def)
  have c: "follow sample_volume 1 2 (0 div cluster_bytes 1) = Some 2" "data_pos 1 3 2 0 = 1536" "min 4 (cluster_bytes 1) = 4"
    by (simp_all add: data_pos_def cluster_bytes_def)
  have d: "disk_bytes sample_volume 1536 4 = [3, 3, 3, 3]" by (simp add: disk_bytes_def sample_volume_def upt_rec)
  have o: "region 0x5000 4 \<inter> (heap_private sample_fat \<union> fat_area sample_fat \<union> fat_locals sample_fat) = {}" by (rule sample_output) simp
  obtain s' where r: "fat16_read 0x300000 0x01004000 4 1 0x5000 sample_fat = Some (0, s')" "load_bytes (mem s') 0x5000 4 = [3, 3, 3, 3]"
    "\<forall>i < 4. chain_byte sample_volume 1 1 3 2 i = Some (mem s' (0x5000 + of_nat i))"
    using fat16_read_at_most_a_cluster [OF sample_fat_ready, of "0x01004000" 2 0 2 4 1 4 "0x5000"]
      w c d o by (auto simp: fat_fields get_first_cluster_def kernel_consts sample_fat_fields(2) cluster_bytes_def)
  have "mem s' 0x5003 = 3" using arg_cong [OF r(2), of "\<lambda>l. l ! 3"] by simp
  then have "chain_byte sample_volume 1 1 3 2 3 = Some 3" using r(3) by simp
  with r(1,2) show ?thesis by blast
qed

text \<open>C40: counting a directory's items on the disk ends at the end mark and returns the number of items before it
  that are not deleted; nothing in use changes but the driver's locals and stream positions.\<close>

theorem get_directory_total_items_counts:
  fixes s :: "'a fat_state_scheme"
  assumes "fat_ready img rs spc e s" and "dir_ends img (sec * 512) n" and "sec * 512 + 32 * n + 32 < 2 ^ 31"
  shows "\<exists>s'. get_directory_total_items (primary_disk s) (of_nat sec) 0 s
      = Some (of_nat (length (filter (\<lambda>i. img (sec * 512 + 32 * i) \<noteq> 0xE5) [0..<n])), s')
    \<and> kheap_live s' = kheap_live s \<and> same_outside (fat_locals s \<union> fat_pos s \<union> heap_private s) (mem s) (mem s')"
proof -
  have "dir_count img p n = length (filter (\<lambda>i. img (p + 32 * i) \<noteq> 0xE5) [0..<n])" for p
  proof (induction n arbitrary: p)
    case (Suc n)
    have "[0..<Suc n] = 0 # map Suc [0..<n]" by (simp add: upt_conv_Cons map_Suc_upt del: upt_Suc)
    then show ?case using Suc.IH [of "p + 32"] by (simp add: filter_map comp_def ac_simps del: upt_Suc)
  qed simp
  with get_directory_total_items_ok [OF assms] show ?thesis using growsD(4) keepsD(1) by metis
qed

theorem get_directory_total_items_counts_witness:
  "\<exists>s'. get_directory_total_items 0x300000 4 0 sample_fat = Some (1, s') \<and> kheap_live s' = kheap_live sample_fat"
proof -
  have "dir_ends sample_volume (4 * 512) 2" by (auto simp: dir_ends_def sample_volume_def less_2_cases_iff)
  from get_directory_total_items_counts [OF sample_fat_ready this] show ?thesis
    by (auto simp: sample_fat_fields(2) sample_volume_def upt_rec)
qed

text \<open>\<^verbatim>\<open>get_filename\<close> writes the name of a directory item as a string: the eight characters of the name up to a
  blank, then, when there is an extension, a dot and the extension up to a blank. Nothing beyond the
  buffer is written.\<close>

lemma get_filename_writes_name:
  assumes "region out 255 \<inter> region it 11 = {}"
  shows "cstring (get_filename it out FS_MAX_PATH_SIZE m) out (fat_name (load_bytes m it 11))
    \<and> same_outside (region out 255) m (get_filename it out FS_MAX_PATH_SIZE m)"
  by (rule get_filename_string [OF assms])

end
