(* ===== verification/Fat16_Open.thy ===== *)
theory Fat16_Open
  imports Fat16_Correct
begin

text \<open>
  Opening, reading and closing a file of the root directory. A directory in memory is the list
  \<open>dir_items\<close> of its 32 byte items; the item that a name selects is \<open>find_name\<close>, the first whose 8.3 name compares
  equal. An open file is a descriptor block, an item block and a copy of the directory item (\<open>open_file\<close>).
  The lemmas show that \<^verbatim>\<open>fat16_open\<close> builds one for the item the name selects, that the other operations work
  on it, and that \<^verbatim>\<open>fat16_close\<close> gives its blocks back.
\<close>

section \<open>Blocks that are being filled\<close>

lemma grows_fill:
  fixes s :: "'a kheap_state_scheme"
  assumes "grows B R s t" and "(p, k) \<in> B" and "W \<subseteq> region p k" and "same_outside W (mem t) m'"
  shows "grows B R s (t\<lparr>mem := m'\<rparr>)" and "kheap_cap (t\<lparr>mem := m'\<rparr>) = kheap_cap t"
proof -
  note g = growsD [OF assms(1)]
  have "(p, k) \<in> kheap_live t" using g(2) assms(2) by simp
  then have "W \<inter> kheap_meta = {}" using kheap_live_off_meta(1) [OF g(1)] assms(3) by blast
  note w = grows_store [OF g(1) assms(4) this]
  have "W \<subseteq> R \<union> heap_private s" using grows_new_private [OF assms(1,2)] assms(3) by blast
  from grows_trans [OF assms(1) w(1) this] show "grows B R s (t\<lparr>mem := m'\<rparr>)" by simp
  show "kheap_cap (t\<lparr>mem := m'\<rparr>) = kheap_cap t" by (rule w(2))
qed

text \<open>Giving back some of the blocks that have become live, and all of them.\<close>

lemma grows_drop:
  fixes s :: "'a kheap_state_scheme"
  assumes "grows (D \<union> C) R s t" and "D \<inter> C = {}" and "t' = t\<lparr>mem := mem t'\<rparr>" and "kheap_inv t'" and "kheap_live t' = kheap_live t - D"
    and "same_outside kheap_meta (mem t) (mem t')"
  shows "grows C R s t'"
proof -
  note g = growsD [OF assms(1)]
  have "t = s\<lparr>io_log := io_log t, mem := mem t\<rparr>" using assms(1) by (simp add: grows_def)
  then have "t' = s\<lparr>io_log := io_log t, mem := mem t\<rparr>\<lparr>mem := mem t'\<rparr>" using assms(3) by metis
  moreover have "io_log t' = io_log t" by (subst assms(3)) simp
  ultimately have "t' = s\<lparr>io_log := io_log t', mem := mem t'\<rparr>" by simp
  moreover have "same_outside (R \<union> heap_private s) (mem s) (mem t')"
    using same_outside_trans [OF g(4) assms(6)] by (rule same_outside_mono) (auto simp: heap_private_def)
  moreover have "kheap_live t' = kheap_live s \<union> C" "C \<inter> kheap_live s = {}" using assms(2,5) g(2,3) by blast+
  ultimately show ?thesis using assms(4) by (simp add: grows_def)
qed

lemma grows_shrink:
  fixes s :: "'a kheap_state_scheme"
  assumes "grows B R s t" and "t' = t\<lparr>mem := mem t'\<rparr>" and "kheap_inv t'" and "kheap_live t' = kheap_live t - B"
    and "same_outside kheap_meta (mem t) (mem t')"
  shows "grows {} R s t'"
  using grows_drop [of B "{}" R s t t'] assms by simp

lemma blocks_for_small: "blocks_for 8 = 1" "blocks_for 16 = 1" "blocks_for 32 = 1"
  by (simp_all add: blocks_for_def)

lemma unat_numeral32: "unat (8 :: u32) = 8" "unat (16 :: u32) = 16" "unat (32 :: u32) = 32"
  by simp_all

lemma mem_mem: "s\<lparr>mem := m, mem := m'\<rparr> = s\<lparr>mem := m'\<rparr>"
  by simp

lemma grows_alloc_one:
  fixes s :: "'a kheap_state_scheme"
  assumes "kheap_inv s" and "kheap_cap s (Suc c)" and "blocks_for sz = 1"
  obtains p k m' where "kzalloc sz s = Some (p, s\<lparr>mem := m'\<rparr>)" and "grows {(p, k)} {} s (s\<lparr>mem := m'\<rparr>)"
    and "kheap_cap (s\<lparr>mem := m'\<rparr>) c" and "unat sz \<le> k" and "region p k \<subseteq> heap_private s"
    and "\<forall>a \<in> region p k. m' a = 0" and "p \<noteq> 0"
proof -
  have n: "blocks_for sz \<le> Suc c" by (simp add: assms(3))
  show ?thesis by (rule grows_alloc [OF assms(1,2) n], rule that) (use assms(3) in simp_all)
qed

lemma clone_ok:
  fixes s :: "'a fat_state_scheme"
  assumes "kheap_inv s" and "kheap_cap s (Suc c)" and "region it 32 \<inter> heap_private s = {}"
  obtains p k s' where "clone_directory_item it sizeof_fat_directory_item s = Some (p, s')" and "grows {(p, k)} {} s s'"
    and "kheap_cap s' c" and "32 \<le> k" and "load_bytes (mem s') p 32 = load_bytes (mem s) it 32"
proof -
  obtain p k m1 where a: "kzalloc 32 s = Some (p, s\<lparr>mem := m1\<rparr>)"
    "grows {(p, k)} {} s (s\<lparr>mem := m1\<rparr>)" "kheap_cap (s\<lparr>mem := m1\<rparr>) c" "32 \<le> k" "region p k \<subseteq> heap_private s" "p \<noteq> 0"
    using grows_alloc_one [OF assms(1,2) blocks_for_small(3)] by (metis unat_numeral32)
  have sub: "region p 32 \<subseteq> region p k" by (rule region_mono [OF a(4)])
  then have "region p (unat (32 :: u32)) \<inter> region it (unat (32 :: u32)) = {}" using a(5) assms(3) by auto
  then obtain m2 where m2: "memcpy m1 p it 32 = (p, m2)" "load_bytes m2 p 32 = load_bytes m1 it 32" "same_outside (region p 32) m1 m2"
    using memcpy_copies [of p 32 it m1] by auto
  note f = grows_fill [OF a(2) _ sub, of m2, simplified, OF m2(3)]
  have "load_bytes m1 it 32 = load_bytes (mem s) it 32" using growsD(4) [OF a(2)] assms(3) by (intro load_bytes_frame) auto
  then show ?thesis using that [of p "s\<lparr>mem := m2\<rparr>" k] a(1,3,4,6) m2 f by (simp add: clone_directory_item_def kernel_consts)
qed

section \<open>Items of files\<close>

text \<open>A \<^verbatim>\<open>fat_item\<close> block for a file: it points to a copy of the directory item, whose bytes are \<open>bs\<close>.\<close>

definition file_item :: "mem \<Rightarrow> u32 \<Rightarrow> u32 \<Rightarrow> u8 list \<Rightarrow> bool" where
  "file_item m item copy bs \<longleftrightarrow> load32 m (item_type item) = FAT_ITEM_TYPE_FILE \<and> load32 m (item_pointer item) = copy
     \<and> load_bytes m copy 32 = bs"

lemma item_fields_in: "region (item_pointer q) 4 \<subseteq> region q 8" "region (item_type q) 4 \<subseteq> region q 8"
  "region (item_descriptor_item q) 4 \<subseteq> region q 8" "region (item_descriptor_pos q) 4 \<subseteq> region q 8"
  using region_shift [of 4 4 8 q] region_mono [of 4 8 q] by (simp_all add: fat_fields)

lemma file_item_frame:
  "file_item m item copy bs \<Longrightarrow> same_outside R m m' \<Longrightarrow> region item 8 \<inter> R = {} \<Longrightarrow> region copy 32 \<inter> R = {}
   \<Longrightarrow> file_item m' item copy bs"
  using item_fields_in(1,2) [of item] load32_frame [of R m m' "item_type item"] load32_frame [of R m m' "item_pointer item"]
    load_bytes_frame [of R m m' copy 32]
  unfolding file_item_def by (simp add: disjoint_iff subset_iff)

lemma new_item_file:
  fixes s :: "'a fat_state_scheme"
  assumes "kheap_inv s" and "kheap_cap s (Suc (Suc c))" and "region it 32 \<inter> heap_private s = {}" and "\<not> is_subdirectory (mem s) it"
  obtains item k copy j s' where "new_item d it s = Some (item, s')" and "grows {(item, k), (copy, j)} {} s s'"
    and "kheap_cap s' c" and "8 \<le> k" and "32 \<le> j" and "item \<noteq> 0" and "item \<noteq> copy"
    and "file_item (mem s') item copy (load_bytes (mem s) it 32)"
proof -
  obtain p k m1 where a: "kzalloc 8 s = Some (p, s\<lparr>mem := m1\<rparr>)"
    "grows {(p, k)} {} s (s\<lparr>mem := m1\<rparr>)" "kheap_cap (s\<lparr>mem := m1\<rparr>) (Suc c)" "8 \<le> k" "region p k \<subseteq> heap_private s" "p \<noteq> 0"
    using grows_alloc_one [OF assms(1,2) blocks_for_small(1)] by (metis unat_numeral32)
  let ?m2 = "store32 m1 (item_type p) FAT_ITEM_TYPE_FILE"
  let ?s2 = "s\<lparr>mem := ?m2\<rparr>"
  have in8: "region p 8 \<subseteq> region p k" by (rule region_mono [OF a(4)])
  note in4 = item_fields_in(1,2) [of p]
  have f2: "same_outside (region (item_type p) 4) m1 ?m2" by (rule store32_outside)
  note g2 = grows_fill [OF a(2) _ subset_trans [OF in4(2) in8], of ?m2, simplified, OF f2]
  have it2: "region it 32 \<inter> heap_private ?s2 = {}" using growsD(5) [OF g2(1)] assms(3) by auto
  have b2: "load_bytes ?m2 it 32 = load_bytes (mem s) it 32" using growsD(4) [OF g2(1)] assms(3) by (intro load_bytes_frame) auto
  have "it + of_nat 11 \<in> region it 32" by (rule of_nat_offset_mem) simp_all
  then have "it + 11 \<notin> heap_private s" using assms(3) by auto
  then have "m1 (it + 11) = mem s (it + 11)" using same_outsideD [OF growsD(4) [OF a(2)], of "it + 11"] by simp
  then have sd: "\<not> is_subdirectory m1 it" using assms(4) by (simp add: is_subdirectory_def fat_fields)
  have "kheap_cap ?s2 (Suc c)" using g2(2) a(3) by simp
  then obtain q j s3 where c: "clone_directory_item it sizeof_fat_directory_item ?s2 = Some (q, s3)"
    "grows {(q, j)} {} ?s2 s3" "kheap_cap s3 c" "32 \<le> j" "load_bytes (mem s3) q 32 = load_bytes (mem s) it 32"
    by (rule clone_ok [OF growsD(1) [OF g2(1)] _ it2]) (simp add: b2)
  have g3: "grows {(p, k), (q, j)} {} s s3" using grows_trans [OF g2(1) c(2)] by (simp add: insert_commute)
  let ?m4 = "store32 (mem s3) (item_pointer p) q"
  have f4: "same_outside (region (item_pointer p) 4) (mem s3) ?m4" by (rule store32_outside)
  note g4 = grows_fill [OF g3 _ subset_trans [OF in4(1) in8], of ?m4, simplified, OF f4]
  have live: "(p, k) \<in> kheap_live ?s2" using growsD(2) [OF g2(1)] by simp
  have new: "region q j \<subseteq> heap_private ?s2" using grows_new_private [OF c(2)] by simp
  note off = live_not_private [OF growsD(1) [OF g2(1)] live]
  have "region q j \<inter> region p k = {}" using new off by blast
  moreover have "q \<in> region q j" "p \<in> region p k" using base_mem_region [of q j] base_mem_region [of p k] a(4) c(4) by simp_all
  ultimately have ne: "p \<noteq> q" and d: "region q 32 \<inter> region (item_pointer p) 4 = {}"
    using region_mono [OF c(4), of q] in4(1) in8 by blast+
  have "region (item_type p) 4 \<inter> ({} \<union> heap_private ?s2) = {}" using off in4(2) in8 by blast
  from grows_load32 [OF c(2) this] have ty: "load32 (mem s3) (item_type p) = FAT_ITEM_TYPE_FILE" by simp
  have fi: "file_item ?m4 p q (load_bytes (mem s) it 32)"
    using ty c(5) load_bytes_frame [OF f4, of q 32] d
    by (simp add: file_item_def fat_fields field_other_base)
  have "new_item d it s = Some (p, s3\<lparr>mem := ?m4\<rparr>)"
    using a(1,6) sd c(1) by (simp add: new_item_def kernel_consts)
  moreover have "kheap_cap (s3\<lparr>mem := ?m4\<rparr>) c" using g4(2) c(3) by simp
  ultimately show ?thesis by (rule that [OF _ g4(1) _ a(4) c(4) a(6) ne]) (simp add: fi)
qed

section \<open>Looking up a name\<close>

text \<open>What \<^verbatim>\<open>strcasecmp\<close> takes for equal: each lowered character of the second at most that of the first.\<close>

definition name_matches :: "u8 list \<Rightarrow> u8 list \<Rightarrow> bool" where
  "name_matches xs ys \<longleftrightarrow> list_all2 (\<lambda>x y. tolower (char_to_int y) \<le>s tolower (char_to_int x)) xs ys"

fun find_name :: "u8 list \<Rightarrow> u8 list list \<Rightarrow> nat option" where
  "find_name cs [] = None"
| "find_name cs (b # bs) = (if name_matches (fat_name (take 11 b)) cs then Some 0 else map_option Suc (find_name cs bs))"

lemma find_name_less: "find_name cs bs = Some i \<Longrightarrow> i < length bs"
  by (induction cs bs arbitrary: i rule: find_name.induct) (auto split: if_splits)

definition dir_items :: "mem \<Rightarrow> u32 \<Rightarrow> nat \<Rightarrow> u8 list list" where
  "dir_items m q n = map (\<lambda>i. load_bytes m (q + of_nat (32 * i)) 32) [0..<n]"

lemma dir_items_length [simp]: "length (dir_items m q n) = n"
  by (simp add: dir_items_def)

lemma dir_items_nth [simp]: "i < n \<Longrightarrow> dir_items m q n ! i = load_bytes m (q + of_nat (32 * i)) 32"
  by (simp add: dir_items_def)

lemma item_in: "i < n \<Longrightarrow> n < 2 ^ 26 \<Longrightarrow> region (q + of_nat (32 * i)) 32 \<subseteq> region q (32 * n)"
  by (rule region_shift) simp_all

lemma dir_items_frame:
  assumes "same_outside F m m'" and "region q (32 * n) \<inter> F = {}" and "n < 2 ^ 26"
  shows "dir_items m' q n = dir_items m q n"
proof -
  have "load_bytes m' (q + of_nat (32 * i)) 32 = load_bytes m (q + of_nat (32 * i)) 32" if "i < n" for i
    using item_in [OF that assms(3), of q] assms(2) by (intro load_bytes_frame [OF assms(1)]) auto
  then show ?thesis by (simp add: dir_items_def)
qed

lemma find_item_scan:
  fixes s :: "'a fat_state_scheme"
  assumes "load32 (mem s) (directory_total dir) = of_nat n" and "n < 2 ^ 26" and "load32 (mem s) (directory_item dir) = q"
    and "cstring (mem s) name cs" and "i \<le> n"
    and "(region dir 8 \<union> region q (32 * n) \<union> region name (Suc (length cs))) \<inter> region (filename_local s) 255 = {}"
  shows "\<exists>m'. same_outside (region (filename_local s) 255) (mem s) m'
    \<and> find_item_loop d dir name (of_nat i) s = (case find_name cs (drop i (dir_items (mem s) q n)) of None \<Rightarrow> Some (0, s\<lparr>mem := m'\<rparr>)
        | Some j \<Rightarrow> new_item d (q + of_nat (32 * (i + j))) (s\<lparr>mem := m'\<rparr>))"
  using assms(1,3-6)
proof (induction "n - i" arbitrary: i s)
  case 0
  then have "\<not> (of_nat i :: u32) <s of_nat n" using assms(2) sless_of_nat [of n n] by simp
  then have "find_item_loop d dir name (of_nat i) s = Some (0, s)" using 0 by (subst find_item_loop.simps) simp
  then show ?case using 0 by (intro exI [of _ "mem s"]) simp
next
  case (Suc k)
  let ?fl = "filename_local s" and ?it = "q + of_nat (32 * i)"
  let ?F = "region ?fl 255"
  define m1 where "m1 = get_filename ?it ?fl FS_MAX_PATH_SIZE (mem s)"
  define s1 where "s1 = s\<lparr>mem := m1\<rparr>"
  have i: "i < n" using Suc(2) by simp
  have lt: "(of_nat i :: u32) <s of_nat n" using i assms(2) sless_of_nat [of i n] by simp
  have w: "of_nat i * 32 = (of_nat (32 * i) :: u32)" by simp
  have "region ?it 11 \<subseteq> region q (32 * n)" using item_in [OF i assms(2), of q] region_mono [of 11 32 ?it] by auto
  then have "?F \<inter> region ?it 11 = {}" using Suc.prems(5) by blast
  from get_filename_string [OF this, of "mem s"] have gf: "cstring m1 ?fl (fat_name (load_bytes (mem s) ?it 11))" "same_outside ?F (mem s) m1"
    by (simp_all add: m1_def)
  have b11: "load_bytes (mem s) ?it 11 = take 11 (dir_items (mem s) q n ! i)" using load_bytes_drop [of 0 11 32 "mem s" ?it] i by simp
  have nm: "cstring m1 name cs" using cstring_frame [OF gf(2) _ Suc.prems(3)] Suc.prems(5) by blast
  have "region (directory_total dir) 4 \<subseteq> region dir 8" "region (directory_item dir) 4 \<subseteq> region dir 8"
    using region_shift [of 4 4 8 dir] region_mono [of 4 8 dir] by (simp_all add: fat_fields)
  then have "region (directory_total dir) 4 \<inter> ?F = {}" "region (directory_item dir) 4 \<inter> ?F = {}" using Suc.prems(5) by blast+
  note ld = load32_frame [OF gf(2) this(1)] load32_frame [OF gf(2) this(2)]
  have cmp: "strcasecmp m1 ?fl name = Some (casecmp_list (fat_name (load_bytes (mem s) ?it 11)) cs)" by (rule strcasecmp_cstring [OF gf(1) nm])
  have turn: "find_item_loop d dir name (of_nat i) s =
      (if name_matches (fat_name (take 11 (dir_items (mem s) q n ! i))) cs then new_item d ?it s1
       else find_item_loop d dir name (of_nat (Suc i)) s1)"
    using cmp casecmp_list_zero [of "fat_name (load_bytes (mem s) ?it 11)" cs] ld Suc.prems(2) unfolding s1_def name_matches_def b11 [symmetric]
    by (subst find_item_loop.simps)
      (simp only: lt if_True Let_def sizeof_fat_directory_item_def Suc.prems(1,2) w m1_def [symmetric], simp add: add.commute)
  have dr: "drop i (dir_items (mem s) q n) = dir_items (mem s) q n ! i # drop (Suc i) (dir_items (mem s) q n)"
    using i by (intro Cons_nth_drop_Suc [symmetric]) simp
  show ?case
  proof (cases "name_matches (fat_name (take 11 (dir_items (mem s) q n ! i))) cs")
    case True
    then show ?thesis using turn dr gf(2) by (intro exI [of _ m1]) (simp add: s1_def)
  next
    case False
    have "region q (32 * n) \<inter> ?F = {}" using Suc.prems(5) by blast
    note di = dir_items_frame [OF gf(2) this assms(2)]
    have "k = n - Suc i" "Suc i \<le> n" using Suc(2) by simp_all
    from Suc.hyps(1) [OF this(1), of s1] this(2) obtain m2 where m2: "same_outside ?F m1 m2"
      "find_item_loop d dir name (of_nat (Suc i)) s1 = (case find_name cs (drop (Suc i) (dir_items (mem s) q n)) of None \<Rightarrow> Some (0, s1\<lparr>mem := m2\<rparr>)
        | Some j \<Rightarrow> new_item d (q + of_nat (32 * (Suc i + j))) (s1\<lparr>mem := m2\<rparr>))"
      using Suc.prems ld nm di by (auto simp: s1_def)
    have "same_outside ?F (mem s) m2" using same_outside_trans [OF gf(2) m2(1)] by simp
    then show ?thesis using turn False m2(2) dr by (intro exI [of _ m2]) (auto simp: s1_def algebra_simps split: option.splits)
  qed
qed

section \<open>Open files\<close>

text \<open>\<open>open_file s desc bs x B\<close>: \<open>desc\<close> is an open file whose directory item is \<open>bs\<close>, at position \<open>x\<close>; its three blocks
  are \<open>B\<close>, apart from the driver's own structures.\<close>

definition block_bytes :: "(u32 \<times> nat) set \<Rightarrow> u32 set" where
  "block_bytes B = (\<Union>(p, k) \<in> B. region p k)"

definition open_file :: "'a fat_state_scheme \<Rightarrow> u32 \<Rightarrow> u8 list \<Rightarrow> nat \<Rightarrow> (u32 \<times> nat) set \<Rightarrow> bool" where
  "open_file s desc bs x B \<longleftrightarrow> (\<exists>item copy k j l. B = {(desc, k), (item, j), (copy, l)} \<and> distinct [desc, item, copy]
     \<and> 8 \<le> k \<and> 8 \<le> j \<and> 32 \<le> l \<and> B \<subseteq> kheap_live s \<and> block_bytes B \<inter> fat_area s = {}
     \<and> load32 (mem s) (item_descriptor_item desc) = item \<and> load32 (mem s) (item_descriptor_pos desc) = of_nat x
     \<and> file_item (mem s) item copy bs)"

lemma block_bytes_in: "(p, k) \<in> B \<Longrightarrow> n \<le> k \<Longrightarrow> region p n \<subseteq> block_bytes B"
  using region_mono [of n k p] unfolding block_bytes_def by blast

lemma grows_new_bytes: "grows B R s s' \<Longrightarrow> block_bytes B \<subseteq> heap_private s"
  using grows_new_private unfolding block_bytes_def by blast

lemma live_bytes:
  assumes "kheap_inv s" and "B \<subseteq> kheap_live s"
  shows "block_bytes B \<inter> heap_private s = {}" and "block_bytes B \<subseteq> heap_area" and "block_bytes B \<inter> kheap_meta = {}"
  using live_not_private [OF assms(1)] live_in_heap [OF assms(1)] kheap_live_off_meta(1) [OF assms(1)] assms(2)
  unfolding block_bytes_def heap_area_def by blast+

lemma open_file_frame:
  fixes s :: "'a fat_state_scheme"
  assumes "open_file s desc bs x B" and "same_outside R (mem s) (mem s')" and "block_bytes B \<inter> R = {}"
    and "B \<subseteq> kheap_live s'" and "fat_area s' = fat_area s"
  shows "open_file s' desc bs x B"
proof -
  obtain item copy k j l where o: "B = {(desc, k), (item, j), (copy, l)}" "distinct [desc, item, copy]" "8 \<le> k" "8 \<le> j" "32 \<le> l"
    "block_bytes B \<inter> fat_area s = {}" "load32 (mem s) (item_descriptor_item desc) = item" "load32 (mem s) (item_descriptor_pos desc) = of_nat x"
    "file_item (mem s) item copy bs" using assms(1) unfolding open_file_def by blast
  have off: "region desc 8 \<inter> R = {}" "region item 8 \<inter> R = {}" "region copy 32 \<inter> R = {}"
    using block_bytes_in [of desc k B 8] block_bytes_in [of item j B 8] block_bytes_in [of copy l B 32] o(1,3-5) assms(3) by auto
  have "region (item_descriptor_item desc) 4 \<inter> R = {}" "region (item_descriptor_pos desc) 4 \<inter> R = {}"
    using off(1) item_fields_in(3,4) [of desc] by blast+
  note ld = load32_frame [OF assms(2) this(1)] load32_frame [OF assms(2) this(2)]
  have "file_item (mem s') item copy bs" by (rule file_item_frame [OF o(9) assms(2) off(2,3)])
  then show ?thesis unfolding open_file_def using o(1-8) ld assms(4,5) by auto
qed

section \<open>Operations on an open file\<close>

text \<open>The first cluster of a file from its directory item.\<close>

definition item_cluster :: "u8 list \<Rightarrow> nat" where
  "item_cluster bs = (le16 (bs ! 20) (bs ! 21)) OR (le16 (bs ! 26) (bs ! 27))"

lemma item_cluster_less: "item_cluster bs < 2 ^ 16"
proof -
  have "take_bit 16 (item_cluster bs) = item_cluster bs"
    using le16_less by (simp add: item_cluster_def take_bit_nat_eq_self)
  then show ?thesis by (metis take_bit_nat_less_exp)
qed

lemma get_first_cluster_item: "get_first_cluster m copy = of_nat (item_cluster (load_bytes m copy 32))"
  unfolding get_first_cluster_def ucast16 unat_load16 item_cluster_def by (simp add: fat_fields of_nat_or_eq add.assoc)

lemma read_open_file:
  fixes s :: "'a fat_state_scheme"
  assumes "fat_ready img rs spc e s" and "open_file s desc bs x B" and "x < 2 ^ 31"
    and "follow img rs (item_cluster bs) (x div cluster_bytes spc) = Some c'" and "2 \<le> c'" and "data_pos spc e c' x + cluster_bytes spc < 2 ^ 31"
    and "block_size * num_blocks = of_nat n" and "0 < n" and "n < 2 ^ 31" and "k = min n (cluster_bytes spc)"
    and "region out k \<inter> (heap_private s \<union> fat_area s \<union> fat_locals s \<union> block_bytes B) = {}"
  shows "\<exists>s'. fat16_read (primary_disk s) desc block_size num_blocks out s = Some (0, s')
    \<and> load_bytes (mem s') out k = disk_bytes img (data_pos spc e c' x) k
    \<and> keeps (region out k \<union> fat_locals s \<union> fat_pos s) s s' \<and> open_file s' desc bs x B"
proof -
  obtain item copy where o: "load32 (mem s) (item_descriptor_item desc) = item" "load32 (mem s) (item_descriptor_pos desc) = of_nat x"
    "file_item (mem s) item copy bs" "B \<subseteq> kheap_live s" "block_bytes B \<inter> fat_area s = {}" using assms(2) unfolding open_file_def by blast
  note fp = fat_ready_parts [OF assms(1)] and lb = live_bytes [OF fat_ready_parts(1) [OF assms(1)] o(4)]
  have cl: "get_first_cluster (mem s) copy = of_nat (item_cluster bs)" using o(3) get_first_cluster_item [of "mem s" copy] by (simp add: file_item_def)
  have "region out k \<inter> (heap_private s \<union> fat_area s \<union> fat_locals s) = {}" using assms(11) by blast
  from read_internal_ok [OF assms(1) item_cluster_less assms(3-6,8-10) this]
  obtain s' where s': "read_internal (primary_disk s) (of_nat (item_cluster bs)) (of_nat x) (of_nat n) out s = Some (0, s')"
    "load_bytes (mem s') out k = disk_bytes img (data_pos spc e c' x) k" "keeps (region out k \<union> fat_locals s \<union> fat_pos s) s s'" by blast
  have "fat16_read (primary_disk s) desc block_size num_blocks out s = Some (0, s')"
    using s'(1) o(1-3) cl assms(7) by (simp add: fat16_read_def file_item_def)
  moreover have "open_file s' desc bs x B"
  proof (rule open_file_frame [OF assms(2) growsD(4) [OF s'(3)]])
    have "fat_locals s \<inter> heap_area = {}" using assms(1) unfolding fat_ready_def by blast
    then show "block_bytes B \<inter> (region out k \<union> fat_locals s \<union> fat_pos s \<union> heap_private s) = {}"
      using assms(11) lb(1,2) o(5) fp(3) by blast
    show "B \<subseteq> kheap_live s'" using keepsD(1) [OF s'(3)] o(4) by simp
    have "(region out k \<union> fat_locals s) \<inter> fat_area s = {}" using assms(11) fp(5) by blast
    then show "fat_area s' = fat_area s" by (rule fat_ready_keeps(4) [OF assms(1) s'(3)])
  qed
  ultimately show ?thesis using s'(2,3) by blast
qed

lemma seek_open_file:
  fixes s :: "'a fat_state_scheme"
  assumes "fat_ready img rs spc e s" and "open_file s desc bs x B"
  shows "\<exists>s'. fat16_seek desc (of_nat y) SEEK_SET s = (0, s') \<and> keeps (block_bytes B) s s' \<and> open_file s' desc bs y B"
proof -
  obtain item copy k j l where o: "B = {(desc, k), (item, j), (copy, l)}" "distinct [desc, item, copy]" "8 \<le> k" "8 \<le> j" "32 \<le> l"
    "B \<subseteq> kheap_live s" "block_bytes B \<inter> fat_area s = {}" "load32 (mem s) (item_descriptor_item desc) = item"
    "file_item (mem s) item copy bs" using assms(2) unfolding open_file_def by blast
  let ?m = "store32 (mem s) (item_descriptor_pos desc) (of_nat y)"
  have i: "kheap_inv s" by (rule fat_ready_parts(1) [OF assms(1)])
  have f: "same_outside (region (item_descriptor_pos desc) 4) (mem s) ?m" by (rule store32_outside)
  have in8: "region (item_descriptor_pos desc) 4 \<subseteq> region desc k"
    using item_fields_in(4) [of desc] region_mono [OF o(3), of desc] by blast
  have W: "region (item_descriptor_pos desc) 4 \<subseteq> block_bytes B" using in8 o(1) by (auto simp: block_bytes_def)
  have "region (item_descriptor_pos desc) 4 \<inter> kheap_meta = {}" using W live_bytes(3) [OF i o(6)] by blast
  note g = grows_store(1) [OF i f this]
  have g': "keeps (block_bytes B) s (s\<lparr>mem := ?m\<rparr>)" by (rule grows_mono [OF g]) (use W in auto)
  have "(desc, k) \<in> kheap_live s" "(item, j) \<in> kheap_live s" "(copy, l) \<in> kheap_live s" using o(1,6) by auto
  then have "region item j \<inter> region desc k = {}" "region copy l \<inter> region desc k = {}"
    using o(2) kheap_live_apart [OF i, of item j desc k] kheap_live_apart [OF i, of copy l desc k] by auto
  then have "region item 8 \<inter> region (item_descriptor_pos desc) 4 = {}" "region copy 32 \<inter> region (item_descriptor_pos desc) 4 = {}"
    using in8 region_mono [OF o(4), of item] region_mono [OF o(5), of copy] by blast+
  from file_item_frame [OF o(9) f this] have fi: "file_item ?m item copy bs" .
  have "W \<inter> fat_area s = {}" if "W \<subseteq> block_bytes B" for W using that o(7) by blast
  from fat_ready_keeps(4) [OF assms(1) grows_mono [OF g, of "region (item_descriptor_pos desc) 4 \<union> fat_pos s"] this [OF W]]
  have fa: "fat_area (s\<lparr>mem := ?m\<rparr>) = fat_area s" by auto
  have "load32 ?m (item_descriptor_item desc) = item" using o(8) by (simp add: fat_fields field_other_base)
  then have "open_file (s\<lparr>mem := ?m\<rparr>) desc bs y B"
    unfolding open_file_def using o(1-7) fi fa keepsD(1) [OF g] by auto
  moreover have "fat16_seek desc (of_nat y) SEEK_SET s = (0, s\<lparr>mem := ?m\<rparr>)" using o(8,9) by (simp add: fat16_seek_def file_item_def kernel_consts)
  ultimately show ?thesis using g' by blast
qed

lemma close_open_file:
  fixes s :: "'a fat_state_scheme"
  assumes "kheap_inv s" and "open_file s desc bs x B"
  shows "\<exists>s'. fat16_close desc s = Some (0, s') \<and> s' = s\<lparr>mem := mem s'\<rparr> \<and> kheap_inv s' \<and> kheap_live s' = kheap_live s - B
    \<and> same_outside kheap_meta (mem s) (mem s')"
proof -
  obtain item copy k j l where o: "B = {(desc, k), (item, j), (copy, l)}" "distinct [desc, item, copy]" "B \<subseteq> kheap_live s"
    "load32 (mem s) (item_descriptor_item desc) = item" "file_item (mem s) item copy bs"
    using assms(2) unfolding open_file_def by blast
  have "(copy, l) \<in> kheap_live s" using o(1,3) by auto
  then obtain s1 where s1: "kfree copy s = Some s1" "s1 = s\<lparr>mem := mem s1\<rparr>" "kheap_inv s1" "kheap_live s1 = kheap_live s - {(copy, l)}"
    "same_outside kheap_meta (mem s) (mem s1)" by (rule free_keeps [OF assms(1)])
  have "(item, j) \<in> kheap_live s1" using o(1-3) s1(4) by auto
  then obtain s2 where s2: "kfree item s1 = Some s2" "s2 = s1\<lparr>mem := mem s2\<rparr>" "kheap_inv s2" "kheap_live s2 = kheap_live s1 - {(item, j)}"
    "same_outside kheap_meta (mem s1) (mem s2)" by (rule free_keeps [OF s1(3)])
  have "(desc, k) \<in> kheap_live s2" using o(1-3) s1(4) s2(4) by auto
  then obtain s3 where s3: "kfree desc s2 = Some s3" "s3 = s2\<lparr>mem := mem s3\<rparr>" "kheap_inv s3" "kheap_live s3 = kheap_live s2 - {(desc, k)}"
    "same_outside kheap_meta (mem s2) (mem s3)" by (rule free_keeps [OF s2(3)])
  have "fat16_close desc s = Some (0, s3)"
    using o(4,5) s1(1) s2(1) s3(1)
    by (simp add: fat16_close_def item_descriptor_free_def item_free_def file_item_def kernel_consts)
  moreover have "s3 = s\<lparr>mem := mem s3\<rparr>" using s1(2) s2(2) s3(2) by (metis mach.update_convs(1) mach.surjective)
  moreover have "kheap_live s3 = kheap_live s - B" using s1(4) s2(4) s3(4) o(1) by auto
  moreover have "same_outside kheap_meta (mem s) (mem s3)" using same_outside_trans [OF same_outside_trans [OF s1(5) s2(5)] s3(5)] by simp
  ultimately show ?thesis using s3(3) by blast
qed

section \<open>Opening\<close>

text \<open>The root directory of the driver has the items \<open>its\<close>; a path of one component with the name \<open>cs\<close>. Both lie where neither
  the heap nor the driver's locals are written.\<close>

definition root_items :: "'a fat_state_scheme \<Rightarrow> u8 list list \<Rightarrow> bool" where
  "root_items s its \<longleftrightarrow> (let r = private_root_directory (fat_private_of s); q = load32 (mem s) (directory_item r); n = length its in
     load32 (mem s) (directory_total r) = of_nat n \<and> n < 2 ^ 26 \<and> dir_items (mem s) q n = its
     \<and> region q (32 * n) \<inter> (heap_private s \<union> fat_locals s) = {})"

definition single_part :: "'a fat_state_scheme \<Rightarrow> u32 \<Rightarrow> u8 list \<Rightarrow> bool" where
  "single_part s part cs \<longleftrightarrow> (let name = load32 (mem s) (part_name part) in
     load32 (mem s) (part_next part) = 0 \<and> cstring (mem s) name cs
     \<and> (region part 8 \<union> region name (Suc (length cs))) \<inter> (heap_private s \<union> fat_locals s) = {})"

text \<open>The first of any number of components.\<close>

definition head_part :: "'a fat_state_scheme \<Rightarrow> u32 \<Rightarrow> u8 list \<Rightarrow> bool" where
  "head_part s part cs \<longleftrightarrow> (let name = load32 (mem s) (part_name part) in
     cstring (mem s) name cs \<and> (region part 8 \<union> region name (Suc (length cs))) \<inter> (heap_private s \<union> fat_locals s) = {})"

lemma single_first: "single_part s part cs \<longleftrightarrow> load32 (mem s) (part_next part) = 0 \<and> head_part s part cs"
  by (auto simp: single_part_def head_part_def Let_def)

definition item_is_directory :: "u8 list \<Rightarrow> bool" where
  "item_is_directory bs \<longleftrightarrow> bs ! 11 AND FAT_FILE_SUBDIRECTORY \<noteq> 0"

lemma root_directory_in: "region (private_root_directory p) 16 \<subseteq> region p 92"
  using region_shift [of 64 16 92 p] by (simp add: fat_fields)

text \<open>The lookup in the root directory, in a state that differs from \<open>s\<close> by an allocation.\<close>

lemma root_lookup:
  fixes s :: "'a fat_state_scheme"
  assumes "fat_ready img rs spc e s" and "root_items s its" and "head_part s part cs" and "grows B {} s s1"
  shows "\<exists>m'. same_outside (fat_locals s) (mem s1) m'
    \<and> find_item_in_directory d (private_root_directory (fat_private_of s)) (load32 (mem s) (part_name part)) s1 =
      (case find_name cs its of None \<Rightarrow> Some (0, s1\<lparr>mem := m'\<rparr>)
       | Some i \<Rightarrow> new_item d (load32 (mem s) (directory_item (private_root_directory (fat_private_of s))) + of_nat (32 * i)) (s1\<lparr>mem := m'\<rparr>))"
proof -
  let ?r = "private_root_directory (fat_private_of s)" and ?n = "length its" and ?name = "load32 (mem s) (part_name part)"
  let ?q = "load32 (mem s) (directory_item ?r)"
  note fp = fat_ready_parts [OF assms(1)] and l = grows_fat [OF assms(4)]
  have f: "same_outside (heap_private s) (mem s) (mem s1)" using growsD(4) [OF assms(4)] by simp
  have ri: "load32 (mem s) (directory_total ?r) = of_nat ?n" "?n < 2 ^ 26" "dir_items (mem s) ?q ?n = its"
    "region ?q (32 * ?n) \<inter> (heap_private s \<union> fat_locals s) = {}" using assms(2) by (simp_all add: root_items_def Let_def)
  have sp: "cstring (mem s) ?name cs" "region ?name (Suc (length cs)) \<inter> (heap_private s \<union> fat_locals s) = {}"
    using assms(3) by (auto simp: head_part_def Let_def)
  have F: "region (filename_local s1) 255 \<subseteq> fat_locals s" using l(3) by (auto simp: fat_locals_def)
  have r8: "region ?r 8 \<subseteq> fat_area s"
    using root_directory_in [of "fat_private_of s"] region_mono [of 8 16 ?r] by (auto simp: fat_area_def)
  have rf: "region (directory_total ?r) 4 \<subseteq> region ?r 8" "region (directory_item ?r) 4 \<subseteq> region ?r 8"
    using region_shift [of 4 4 8 ?r] region_mono [of 4 8 ?r] by (simp_all add: fat_fields)
  have "region (directory_total ?r) 4 \<inter> heap_private s = {}" "region (directory_item ?r) 4 \<inter> heap_private s = {}"
    using rf r8 fp(2) by blast+
  note ld = load32_frame [OF f this(1)] load32_frame [OF f this(2)]
  have "region ?name (Suc (length cs)) \<inter> heap_private s = {}" using sp(2) by blast
  from cstring_frame [OF f this sp(1)] have c1: "cstring (mem s1) ?name cs" .
  have "region ?q (32 * ?n) \<inter> heap_private s = {}" using ri(4) by blast
  from dir_items_frame [OF f this ri(2)] have d1: "dir_items (mem s1) ?q ?n = its" using ri(3) by simp
  have "(region ?r 8 \<union> region ?q (32 * ?n) \<union> region ?name (Suc (length cs))) \<inter> region (filename_local s1) 255 = {}"
    using r8 fp(5) F ri(4) sp(2) by blast
  note scan = find_item_scan [OF trans [OF ld(1) ri(1)] ri(2) ld(2) c1 le0 this, of d, unfolded d1 drop_0 of_nat_0 add_0]
  from scan obtain m' where m': "same_outside (region (filename_local s1) 255) (mem s1) m'"
    "find_item_loop d ?r ?name 0 s1 = (case find_name cs its of None \<Rightarrow> Some (0, s1\<lparr>mem := m'\<rparr>) | Some j \<Rightarrow> new_item d (?q + of_nat (32 * j)) (s1\<lparr>mem := m'\<rparr>))"
    by (elim exE conjE) (rule that, simp_all)
  from m'(2) same_outside_mono [OF m'(1) F] show ?thesis unfolding find_item_in_directory_def by (intro exI [of _ m'] conjI)
qed

text \<open>What \<^verbatim>\<open>fat16_open\<close> does before and after the lookup: the descriptor's block.\<close>

lemma open_descriptor:
  fixes s :: "'a fat_state_scheme"
  assumes "fat_ready img rs spc e s" and "root_items s its" and "head_part s part cs" and "kheap_cap s (Suc c)"
  obtains desc k s2 where "desc \<noteq> 0" and "8 \<le> k" and "grows {(desc, k)} (fat_locals s) s s2" and "kheap_cap s2 c"
    and "\<And>d. d = primary_disk s \<Longrightarrow> fat16_open d part FILE_MODE_READ s =
      Option.bind (case find_name cs its of None \<Rightarrow> Some (0, s2)
        | Some i \<Rightarrow> Option.bind (new_item d (load32 (mem s) (directory_item (private_root_directory (fat_private_of s))) + of_nat (32 * i)) s2)
            (\<lambda>(item, s). if item = 0 then Some (0, s) else get_item_loop d item (load32 (mem s) (part_next part)) s))
      (\<lambda>(item, s). if item = 0 then Some (- EIO, s\<lparr>mem := store32 (mem s) (item_descriptor_item desc) 0\<rparr>)
        else Some (desc, s\<lparr>mem := store32 (store32 (mem s) (item_descriptor_item desc) item) (item_descriptor_pos desc) 0\<rparr>))"
proof -
  note fp = fat_ready_parts [OF assms(1)]
  obtain desc k m1 where a: "kzalloc 8 s = Some (desc, s\<lparr>mem := m1\<rparr>)" "grows {(desc, k)} {} s (s\<lparr>mem := m1\<rparr>)" "kheap_cap (s\<lparr>mem := m1\<rparr>) c"
    "8 \<le> k" "desc \<noteq> 0" using grows_alloc_one [OF fp(1) assms(4) blocks_for_small(1)] by (metis unat_numeral32(1))
  let ?s1 = "s\<lparr>mem := m1\<rparr>" and ?r = "private_root_directory (fat_private_of s)"
  obtain m2 where m2: "same_outside (fat_locals s) m1 m2"
    "find_item_in_directory (primary_disk s) ?r (load32 (mem s) (part_name part)) ?s1 =
      (case find_name cs its of None \<Rightarrow> Some (0, s\<lparr>mem := m2\<rparr>)
       | Some i \<Rightarrow> new_item (primary_disk s) (load32 (mem s) (directory_item ?r) + of_nat (32 * i)) (s\<lparr>mem := m2\<rparr>))"
    using root_lookup [OF assms(1-3) a(2), of "primary_disk s", unfolded mem_mem] by auto
  have "fat_locals s \<inter> kheap_meta = {}" using assms(1) unfolding fat_ready_def by blast
  note st = grows_store [OF growsD(1) [OF a(2)] _ this, of m2, simplified, OF m2(1)]
  have "grows {(desc, k)} (fat_locals s) s ?s1" by (rule grows_mono [OF a(2)]) simp
  from grows_trans [OF this st(1)] have g: "grows {(desc, k)} (fat_locals s) s (s\<lparr>mem := m2\<rparr>)" by simp
  have f: "same_outside (heap_private s) (mem s) m1" using growsD(4) [OF a(2)] by simp
  have "region (disk_fs_private_data (primary_disk s)) 4 \<inter> heap_private s = {}"
    using region_shift [of 16 4 20 "primary_disk s"] fp(2) by (auto simp: disk_fields fat_area_def)
  from load32_frame [OF f this] have pv: "load32 m1 (disk_fs_private_data (primary_disk s)) = fat_private_of s" by (simp add: fat_private_of_def)
  have "region (part_name part) 4 \<inter> heap_private s = {}"
    using part_fields_in(1) [of part] assms(3) unfolding head_part_def Let_def by blast
  from load32_frame [OF f this] have nm: "load32 m1 (part_name part) = load32 (mem s) (part_name part)" .
  have "fat16_open d part FILE_MODE_READ s =
      Option.bind (case find_name cs its of None \<Rightarrow> Some (0, s\<lparr>mem := m2\<rparr>)
        | Some i \<Rightarrow> Option.bind (new_item d (load32 (mem s) (directory_item ?r) + of_nat (32 * i)) (s\<lparr>mem := m2\<rparr>))
            (\<lambda>(item, s). if item = 0 then Some (0, s) else get_item_loop d item (load32 (mem s) (part_next part)) s))
      (\<lambda>(item, s). if item = 0 then Some (- EIO, s\<lparr>mem := store32 (mem s) (item_descriptor_item desc) 0\<rparr>)
        else Some (desc, s\<lparr>mem := store32 (store32 (mem s) (item_descriptor_item desc) item) (item_descriptor_pos desc) 0\<rparr>))"
    if "d = primary_disk s" for d
    using a(1,5) m2(2) pv nm that
    by (cases "find_name cs its")
      (auto simp: fat16_open_def get_item_def sizeof_fat_item_descriptor_def Let_def intro!: Option.bind_cong)
  then show ?thesis using that [OF a(5,4) g] st(2) a(3) by simp
qed

lemma open_missing:
  fixes s :: "'a fat_state_scheme"
  assumes "fat_ready img rs spc e s" and "root_items s its" and "head_part s part cs" and "kheap_cap s (Suc c)" and "find_name cs its = None"
  shows "\<exists>desc k s'. fat16_open (primary_disk s) part FILE_MODE_READ s = Some (- EIO, s') \<and> grows {(desc, k)} (fat_locals s) s s' \<and> kheap_cap s' c"
proof -
  obtain desc k s2 where a: "desc \<noteq> 0" "8 \<le> k" "grows {(desc, k)} (fat_locals s) s s2" "kheap_cap s2 c"
    "fat16_open (primary_disk s) part FILE_MODE_READ s = Some (- EIO, s2\<lparr>mem := store32 (mem s2) (item_descriptor_item desc) 0\<rparr>)"
    by (rule open_descriptor [OF assms(1-4)]) (simp add: assms(5))
  have "region (item_descriptor_item desc) 4 \<subseteq> region desc k" using item_fields_in(3) [of desc] region_mono [OF a(2), of desc] by blast
  note g = grows_fill [OF a(3) _ this store32_outside, of 0, simplified]
  show ?thesis by (intro exI conjI, rule a(5), rule g(1)) (simp add: g(2) a(4))
qed

text \<open>The item of the root directory that a name selects, once the driver has begun to work.\<close>

lemma root_entry:
  fixes s :: "'a fat_state_scheme"
  assumes "root_items s its" and "grows B (fat_locals s) s t" and "i < length its"
    and it: "it = load32 (mem s) (directory_item (private_root_directory (fat_private_of s))) + of_nat (32 * i)"
  shows "load_bytes (mem t) it 32 = its ! i" and "region it 32 \<inter> heap_private t = {}"
proof -
  let ?q = "load32 (mem s) (directory_item (private_root_directory (fat_private_of s)))"
  note g = growsD [OF assms(2)]
  have ri: "length its < 2 ^ 26" "dir_items (mem s) ?q (length its) = its" "region ?q (32 * length its) \<inter> (heap_private s \<union> fat_locals s) = {}"
    using assms(1) by (simp_all add: root_items_def Let_def)
  have b: "its ! i = load_bytes (mem s) it 32" unfolding it by (subst ri(2) [symmetric], rule dir_items_nth [OF assms(3)])
  have o: "region it 32 \<inter> (fat_locals s \<union> heap_private s) = {}" unfolding it using item_in [OF assms(3) ri(1), of ?q] ri(3) by blast
  show "load_bytes (mem t) it 32 = its ! i" unfolding b using o by (intro load_bytes_frame [OF g(4)]) simp_all
  show "region it 32 \<inter> heap_private t = {}" using o g(5) by blast
qed

text \<open>The end of \<^verbatim>\<open>fat16_open\<close>: the item of a file goes into the descriptor.\<close>

lemma open_finish:
  fixes s :: "'a fat_state_scheme"
  assumes "fat_ready img rs spc e s" and g: "grows B R s t" and "R \<subseteq> fat_locals s \<union> fat_pos s" and B: "B = {(desc, k), (item, j), (copy, l)}"
    and "(desc, k) \<notin> {(item, j), (copy, l)}" and "item \<noteq> copy" and "8 \<le> k" and "8 \<le> j" and "32 \<le> l" and "file_item (mem t) item copy bs"
    and t': "t' = t\<lparr>mem := store32 (store32 (mem t) (item_descriptor_item desc) item) (item_descriptor_pos desc) 0\<rparr>"
  shows "open_file t' desc bs 0 B" and "grows B R s t'" and "kheap_cap t' = kheap_cap t"
proof -
  let ?m = "store32 (store32 (mem t) (item_descriptor_item desc) item) (item_descriptor_pos desc) 0"
  note fp = fat_ready_parts [OF assms(1)] and i = growsD(1) [OF g]
  have live: "(desc, k) \<in> kheap_live t" "(item, j) \<in> kheap_live t" "(copy, l) \<in> kheap_live t" using growsD(2) [OF g] B by auto
  have d8: "region desc 8 \<subseteq> region desc k" by (rule region_mono [OF assms(7)])
  have f: "same_outside (region desc 8) (mem t) ?m"
    by (rule same_outside_mono [OF same_outside_trans [OF store32_outside store32_outside]]) (use item_fields_in(3,4) [of desc] in auto)
  have dB: "(desc, k) \<in> B" by (simp add: B)
  note w = grows_fill [OF g dB d8 f, folded t']
  show g': "grows B R s t'" "kheap_cap t' = kheap_cap t" using w by simp_all
  have ap: "region item j \<inter> region desc k = {}" "region copy l \<inter> region desc k = {}"
    using kheap_live_apart [OF i live(2,1)] kheap_live_apart [OF i live(3,1)] assms(5) by auto
  have "desc \<in> region desc k" "item \<in> region item j" "copy \<in> region copy l" using assms(7-9) by simp_all
  then have ne: "desc \<noteq> item" "desc \<noteq> copy" using ap by blast+
  have "region item 8 \<inter> region desc 8 = {}" "region copy 32 \<inter> region desc 8 = {}"
    using ap d8 region_mono [OF assms(8), of item] region_mono [OF assms(9), of copy] by blast+
  from file_item_frame [OF assms(10) f this] have fi: "file_item (mem t') item copy bs" by (simp add: t')
  have "grows B (fat_locals s \<union> fat_pos s) s t'" by (rule grows_mono [OF g'(1)]) (use assms(3) in blast)
  then have fa: "fat_area t' = fat_area s" by (rule fat_ready_grows(4) [OF assms(1)]) (use fp(5) in blast)
  have "block_bytes B \<inter> fat_area s = {}" using grows_new_bytes [OF g] fp(2) by blast
  moreover have "load32 (mem t') (item_descriptor_item desc) = item" "load32 (mem t') (item_descriptor_pos desc) = 0"
    by (simp_all add: t' fat_fields field_other_base)
  moreover have "B \<subseteq> kheap_live t'" using growsD(2) [OF g'(1)] by simp
  ultimately show "open_file t' desc bs 0 B"
    unfolding open_file_def using fi fa ne assms(6-9) B
    by (intro exI [of _ item] exI [of _ copy] exI [of _ k] exI [of _ j] exI [of _ l]) simp
qed

lemma open_found:
  fixes s :: "'a fat_state_scheme"
  assumes "fat_ready img rs spc e s" and "root_items s its" and "single_part s part cs" and "kheap_cap s (Suc (Suc (Suc c)))"
    and "find_name cs its = Some i" and "\<not> item_is_directory (its ! i)"
  shows "\<exists>desc B s'. fat16_open (primary_disk s) part FILE_MODE_READ s = Some (desc, s') \<and> open_file s' desc (its ! i) 0 B
    \<and> grows B (fat_locals s) s s' \<and> kheap_cap s' c"
proof -
  define it where "it = load32 (mem s) (directory_item (private_root_directory (fat_private_of s))) + of_nat (32 * i)"
  note fp = fat_ready_parts [OF assms(1)] and sf = assms(3) [unfolded single_first, THEN conjunct2]
  obtain desc k s2 where a: "desc \<noteq> 0" "8 \<le> k" "grows {(desc, k)} (fat_locals s) s s2" "kheap_cap s2 (Suc (Suc c))"
    "fat16_open (primary_disk s) part FILE_MODE_READ s =
      Option.bind (Option.bind (new_item (primary_disk s) it s2)
            (\<lambda>(item, s'). if item = 0 then Some (0, s') else get_item_loop (primary_disk s) item (load32 (mem s') (part_next part)) s'))
      (\<lambda>(item, s). if item = 0 then Some (- EIO, s\<lparr>mem := store32 (mem s) (item_descriptor_item desc) 0\<rparr>)
        else Some (desc, s\<lparr>mem := store32 (store32 (mem s) (item_descriptor_item desc) item) (item_descriptor_pos desc) 0\<rparr>))"
    by (rule open_descriptor [OF assms(1,2) sf assms(4)]) (simp add: assms(5) it_def)
  note f2 = growsD [OF a(3)] and re = root_entry [OF assms(2) a(3) find_name_less [OF assms(5)] it_def]
  have "mem s2 (item_attribute it) = its ! i ! 11" unfolding re(1) [symmetric] by (simp add: fat_fields)
  then have nd: "\<not> is_subdirectory (mem s2) it" using assms(6) by (simp add: is_subdirectory_def item_is_directory_def)
  obtain item j copy l s3 where n: "new_item (primary_disk s) it s2 = Some (item, s3)" "grows {(item, j), (copy, l)} {} s2 s3"
    "kheap_cap s3 c" "8 \<le> j" "32 \<le> l" "item \<noteq> 0" "item \<noteq> copy" "file_item (mem s3) item copy (its ! i)"
    by (rule new_item_file [OF f2(1) a(4) re(2) nd, of "primary_disk s", unfolded re(1)]) (rule that)
  let ?B = "{(desc, k), (item, j), (copy, l)}"
  have g3: "grows ?B (fat_locals s) s s3" using grows_trans [OF a(3) n(2)] by (simp add: insert_commute)
  have new: "(desc, k) \<notin> {(item, j), (copy, l)}" using f2(2) growsD(3) [OF n(2)] by auto
  define s4 where "s4 = s3\<lparr>mem := store32 (store32 (mem s3) (item_descriptor_item desc) item) (item_descriptor_pos desc) 0\<rparr>"
  note o = open_finish [OF assms(1) g3 Un_upper1 refl new n(7) a(2) n(4,5,8) s4_def]
  have "region (part_next part) 4 \<inter> (fat_locals s \<union> heap_private s) = {}"
    using part_fields_in(2) [of part] assms(3) unfolding single_part_def Let_def by blast
  from grows_load32 [OF g3 this] have "load32 (mem s3) (part_next part) = 0" using assms(3) by (simp add: single_part_def Let_def)
  then have "fat16_open (primary_disk s) part FILE_MODE_READ s = Some (desc, s4)"
    using n(1,6) unfolding a(5) by (simp add: get_item_loop.simps s4_def)
  then show ?thesis using o n(3) by auto
qed

section \<open>A sample item\<close>

text \<open>The file \<^verbatim>\<open>A.C\<close> at cluster 2.\<close>

definition sample_item :: "u8 list" where
  "sample_item = [0x41, 0x20, 0x20, 0x20, 0x20, 0x20, 0x20, 0x20, 0x43, 0x20, 0x20] @ replicate 15 0 @ [2, 0, 0, 0, 0, 0]"

lemma sample_item_length [simp]: "length sample_item = 32"
  by (simp add: sample_item_def)

lemma sample_found: "find_name [0x61, 0x2E, 0x63] [sample_item] = Some 0" "\<not> item_is_directory sample_item" "item_cluster sample_item = 2"
  by (simp_all add: sample_item_def fat_name_def name_matches_def tolower_def char_to_int_def word_sle_eq item_is_directory_def
      kernel_consts item_cluster_def le16_def nth_append)

end
