(* ===== verification/Fat16_Mount.thy ===== *)
theory Fat16_Mount
  imports Fat16_Open
begin

text \<open>
  Mounting: \<^verbatim>\<open>fat16_resolve\<close> on a disk whose first sector is a FAT16 header. The lemmas follow the function: the
  private block with its three streams, the header, the root directory's items, which are copied to
  memory one by one, and the clean-up. They end in the driver's invariant \<open>fat_ready\<close> and \<open>root_items\<close>, on which
  the operations on files rest.
\<close>

section \<open>Streams in the private block\<close>

text \<open>Parts of a structure that follow each other do not overlap.\<close>

lemma parts_apart:
  assumes "a + n \<le> b" and "b + k \<le> 2 ^ 32"
  shows "region (p + of_nat a) n \<inter> region (p + of_nat b) k = {}"
  using region_shift [OF assms(1), of p] region_adjacent [OF assms(2), of p] by blast

lemma new_stream_grows:
  fixes s :: "'a disk_state_scheme"
  assumes "disk_ready img s" and "kheap_cap s (Suc c)"
  obtains st j m where "new_stream 0 s = Some (st, s\<lparr>mem := m\<rparr>)" and "grows {(st, j)} {} s (s\<lparr>mem := m\<rparr>)"
    and "kheap_cap (s\<lparr>mem := m\<rparr>) c" and "8 \<le> j" and "stream_at (s\<lparr>mem := m\<rparr>) st 0" and "st \<noteq> 0"
proof -
  obtain st j m where n: "new_stream 0 s = Some (st, s\<lparr>mem := m\<rparr>)" "disk_ready img (s\<lparr>mem := m\<rparr>)" "stream_at (s\<lparr>mem := m\<rparr>) st 0"
    "kheap_live (s\<lparr>mem := m\<rparr>) = insert (st, j) (kheap_live s)" "(st, j) \<notin> kheap_live s" "kheap_cap (s\<lparr>mem := m\<rparr>) c"
    "same_outside (heap_private s) (mem s) m" using new_stream_ok [OF assms] by blast
  have i: "kheap_inv (s\<lparr>mem := m\<rparr>)" using n(2) by (simp add: disk_ready_def)
  obtain k where k: "8 \<le> k" "(st, k) \<in> kheap_live (s\<lparr>mem := m\<rparr>)" using n(3) by (auto simp: stream_at_def)
  have j: "(st, j) \<in> kheap_live (s\<lparr>mem := m\<rparr>)" using n(4) by simp
  have "j = k" by (rule live_unique [OF i j k(2)])
  moreover have "grows {(st, j)} {} s (s\<lparr>mem := m\<rparr>)" using n(4,5,7) i by (simp add: grows_def)
  ultimately show ?thesis using that n(1,3,6) k(1) live_nonzero [OF i j] by blast
qed

text \<open>One step of \<^verbatim>\<open>init_fat_private\<close>: a new stream, and its address stored in a field of the private block.\<close>

lemma stream_slot:
  fixes s :: "'a fat_state_scheme"
  assumes "grows B {} s0 s" and "(p, k) \<in> B" and "region fld 4 \<subseteq> region p k" and "disk_ready img s" and "kheap_cap s (Suc c)"
  obtains st j s1 m where "new_stream 0 s = Some (st, s1)" and "s1\<lparr>mem := store32 (mem s1) fld st\<rparr> = s\<lparr>mem := m\<rparr>"
    and "grows (insert (st, j) B) {} s0 (s\<lparr>mem := m\<rparr>)" and "kheap_cap (s\<lparr>mem := m\<rparr>) c" and "8 \<le> j" and "load32 m fld = st"
    and "load32 m (stream_d st) = primary_disk s" and "disk_ready img (s\<lparr>mem := m\<rparr>)" and "region st j \<subseteq> heap_private s"
    and "same_outside (region fld 4 \<union> heap_private s) (mem s) m"
proof -
  obtain st j m1 where n: "new_stream 0 s = Some (st, s\<lparr>mem := m1\<rparr>)" "grows {(st, j)} {} s (s\<lparr>mem := m1\<rparr>)" "kheap_cap (s\<lparr>mem := m1\<rparr>) c"
    "8 \<le> j" "stream_at (s\<lparr>mem := m1\<rparr>) st 0" "st \<noteq> 0" by (rule new_stream_grows [OF assms(4,5)])
  have g: "grows (insert (st, j) B) {} s0 (s\<lparr>mem := m1\<rparr>)" using grows_trans [OF assms(1) n(2)] by simp
  have pin: "(p, k) \<in> insert (st, j) B" using assms(2) by simp
  let ?m = "store32 m1 fld st"
  have f: "same_outside (region fld 4) m1 ?m" by (rule store32_outside)
  note w = grows_fill [OF g pin assms(3), of ?m, simplified, OF f]
  have new: "region st j \<subseteq> heap_private s" using grows_new_private [OF n(2)] by simp
  have fr: "same_outside (region fld 4 \<union> heap_private s) (mem s) ?m"
    using same_outside_trans [OF growsD(4) [OF n(2)], of "region fld 4" ?m] f by (simp add: Un_commute)
  have "(p, k) \<in> kheap_live s" using assms(2) growsD(2) [OF assms(1)] by simp
  then have off: "region fld 4 \<inter> heap_private s = {}" using live_not_private [OF growsD(1) [OF assms(1)]] assms(3) by blast
  have "region (stream_d st) 4 \<inter> region fld 4 = {}"
    using new off stream_fields_in(2) [of st] region_mono [OF n(4), of st] by blast
  from load32_frame [OF f this] n(5) have sd: "load32 ?m (stream_d st) = primary_disk s" by (simp add: stream_at_def)
  have k0: "keeps (region fld 4) (s\<lparr>mem := m1\<rparr>) (s\<lparr>mem := ?m\<rparr>)"
    using grows_store(1) [OF growsD(1) [OF n(2)] _, of "region fld 4" ?m] f assms(3) kheap_live_off_meta(1) [OF growsD(1) [OF assms(1)] \<open>(p, k) \<in> kheap_live s\<close>]
    by (simp add: disjoint_iff subset_iff)
  have "region fld 4 \<subseteq> heap_area" using assms(3) live_in_heap [OF growsD(1) [OF assms(1)] \<open>(p, k) \<in> kheap_live s\<close>] by (auto simp: heap_area_def)
  then have "region fld 4 \<inter> region (primary_disk s) 20 = {}" using assms(4) unfolding disk_ready_def by blast
  moreover have "disk_ready img (s\<lparr>mem := m1\<rparr>)" by (rule disk_ready_keeps [OF assms(4) n(2)]) simp
  ultimately have dr: "disk_ready img (s\<lparr>mem := ?m\<rparr>)" using disk_ready_keeps [OF _ k0] by simp
  show ?thesis by (rule that [of st "s\<lparr>mem := m1\<rparr>" ?m j]) (use n(1,3,4) w sd dr new fr in simp_all)
qed

text \<open>The private block \<open>p\<close> while its streams are being created: \<open>sts\<close> are those it has so far.\<close>

definition private_growing :: "image \<Rightarrow> 'a fat_state_scheme \<Rightarrow> u32 \<Rightarrow> nat \<Rightarrow> (u32 \<times> nat) set \<Rightarrow> u32 list \<Rightarrow> 'a fat_state_scheme \<Rightarrow> bool" where
  "private_growing img s0 p k B sts s \<longleftrightarrow> grows B {} s0 s \<and> (p, k) \<in> B \<and> 92 \<le> k \<and> disk_ready img s
     \<and> list_all (fat_stream s) sts \<and> distinct (p # sts) \<and> (\<forall>a \<in> region p 80. mem s a = 0)
     \<and> (\<forall>st \<in> set sts. \<exists>l \<ge> 8. (st, l) \<in> B) \<and> fst ` B \<subseteq> set (p # sts)"

lemma private_slot:
  fixes s :: "'a fat_state_scheme"
  assumes "private_growing img s0 p k B sts s" and "fld = p + of_nat i" and "80 \<le> i" and "i \<le> 88" and "kheap_cap s (Suc c)"
  obtains st B' s1 s' where "new_stream 0 s = Some (st, s1)" and "s1\<lparr>mem := store32 (mem s1) fld st\<rparr> = s'"
    and "private_growing img s0 p k B' (st # sts) s'" and "kheap_cap s' c" and "load32 (mem s') fld = st"
    and "\<And>a. region a 4 \<subseteq> region p k \<Longrightarrow> region a 4 \<inter> region fld 4 = {} \<Longrightarrow> load32 (mem s') a = load32 (mem s) a"
proof -
  have q: "grows B {} s0 s" "(p, k) \<in> B" "92 \<le> k" "disk_ready img s" "list_all (fat_stream s) sts" "distinct (p # sts)" "\<forall>a \<in> region p 80. mem s a = 0"
    "\<forall>st \<in> set sts. \<exists>l \<ge> 8. (st, l) \<in> B" "fst ` B \<subseteq> set (p # sts)" using assms(1) by (simp_all add: private_growing_def)
  have i: "kheap_inv s" and live: "(p, k) \<in> kheap_live s" using growsD(1,2) [OF q(1)] q(2) by auto
  have fin: "region fld 4 \<subseteq> region p k" unfolding assms(2) using region_shift [of i 4 92 p] region_mono [OF q(3), of p] assms(4) by auto
  obtain st j s1 m where n: "new_stream 0 s = Some (st, s1)" "s1\<lparr>mem := store32 (mem s1) fld st\<rparr> = s\<lparr>mem := m\<rparr>"
    "grows (insert (st, j) B) {} s0 (s\<lparr>mem := m\<rparr>)" "kheap_cap (s\<lparr>mem := m\<rparr>) c" "8 \<le> j" "load32 m fld = st"
    "load32 m (stream_d st) = primary_disk s" "disk_ready img (s\<lparr>mem := m\<rparr>)" "region st j \<subseteq> heap_private s"
    "same_outside (region fld 4 \<union> heap_private s) (mem s) m" by (rule stream_slot [OF q(1,2) fin q(4) assms(5)])
  have np: "region p k \<inter> heap_private s = {}" by (rule live_not_private [OF i live])
  have stp: "st \<in> heap_private s" using n(5,9) base_mem_region [of st j] by auto
  have live': "kheap_live s \<subseteq> kheap_live (s\<lparr>mem := m\<rparr>)" "(st, j) \<in> kheap_live (s\<lparr>mem := m\<rparr>)"
    using growsD(2) [OF n(3)] growsD(2) [OF q(1)] by auto
  have old: "st \<noteq> x \<and> fat_stream (s\<lparr>mem := m\<rparr>) x" if x: "x \<in> set sts" for x
  proof -
    obtain l where l: "8 \<le> l" "(x, l) \<in> kheap_live s" "load32 (mem s) (stream_d x) = primary_disk s"
      using q(5) x by (auto simp: list_all_iff fat_stream_def)
    have xp: "region x l \<inter> heap_private s = {}" by (rule live_not_private [OF i l(2)])
    have "x \<noteq> p" using q(6) x by auto
    then have "region x l \<inter> region p k = {}" using kheap_live_apart [OF i l(2) live] by simp
    then have "region (stream_d x) 4 \<inter> (region fld 4 \<union> heap_private s) = {}"
      using xp fin stream_fields_in(2) [of x] region_mono [OF l(1), of x] by blast
    from load32_frame [OF n(10) this] have "fat_stream (s\<lparr>mem := m\<rparr>) x" using l live'(1) by (auto simp: fat_stream_def)
    moreover have "x \<in> region x l" using l(1) by (simp add: base_mem_region)
    ultimately show ?thesis using stp xp by blast
  qed
  have "p \<in> region p k" using q(3) by (simp add: base_mem_region)
  then have "st \<noteq> p" using stp np by blast
  moreover have "fat_stream (s\<lparr>mem := m\<rparr>) st" using n(5,7) live'(2) by (auto simp: fat_stream_def)
  ultimately have "list_all (fat_stream (s\<lparr>mem := m\<rparr>)) (st # sts)" "distinct (p # st # sts)"
    using old q(6) by (auto simp: list_all_iff)
  moreover have "m a = 0" if a: "a \<in> region p 80" for a
  proof -
    have "unat (a - p) < 80" using a by (simp add: mem_region)
    moreover have "unat (x + of_nat i) = unat x + i" if "unat x < 4" for x :: u32
      using that assms(4) by (simp add: unat_word_ariths unat_of_nat32)
    from this [of "a - fld"] have "unat (a - fld) < 4 \<Longrightarrow> unat (a - p) = unat (a - fld) + i" by (simp add: assms(2))
    ultimately have "a \<notin> region fld 4" using assms(3) by (auto simp: mem_region)
    moreover have "a \<in> region p k" using a region_mono [of 80 k p] q(3) by auto
    ultimately show ?thesis using same_outsideD [OF n(10), of a] np q(7) a by auto
  qed
  ultimately have pg: "private_growing img s0 p k (insert (st, j) B) (st # sts) (s\<lparr>mem := m\<rparr>)"
    unfolding private_growing_def using n(3,5,8) q(2,3,8,9) by auto
  have ld: "load32 m a = load32 (mem s) a" if "region a 4 \<subseteq> region p k" "region a 4 \<inter> region fld 4 = {}" for a
    using that np by (intro load32_frame [OF n(10)]) blast
  show ?thesis by (rule that [OF n(1,2) pg n(4)]) (use n(6) ld in simp_all)
qed

lemma private_growing_disk:
  fixes s :: "'a fat_state_scheme"
  assumes "private_growing img s0 p k B sts s" and "disk_ready img s0" and "region a 4 \<subseteq> region (primary_disk s0) 20"
  shows "load32 (mem s) a = load32 (mem s0) a"
proof -
  have "region a 4 \<inter> ({} \<union> heap_private s0) = {}" using assms(2,3) unfolding disk_ready_def heap_private_def by blast
  then show ?thesis using grows_load32 [of B "{}" s0 s] assms(1) by (simp add: private_growing_def)
qed

lemma disk_fields_in: "region (disk_id d) 4 \<subseteq> region d 20" "region (disk_sector_size d) 4 \<subseteq> region d 20"
  "region (disk_fs d) 4 \<subseteq> region d 20" "region (disk_fs_private_data d) 4 \<subseteq> region d 20"
  using region_shift [of 8 4 20 d] region_shift [of 4 4 20 d] region_shift [of 12 4 20 d] region_shift [of 16 4 20 d] by (simp_all add: disk_fields)

lemma init_private_ok:
  fixes s0 :: "'a fat_state_scheme"
  assumes "disk_ready img s0" and "load32 (mem s0) (disk_id (primary_disk s0)) = 0" and "kheap_cap s0 (4 + c)"
  obtains p k B s1 s where "kzalloc sizeof_fat_private s0 = Some (p, s1)" and "init_fat_private (primary_disk s0) p s1 = Some s"
    and "private_growing img s0 p k B [load32 (mem s) (directory_read_stream p), load32 (mem s) (fat_read_stream p), load32 (mem s) (cluster_read_stream p)] s"
    and "kheap_cap s c" and "p \<noteq> 0"
proof -
  have i0: "kheap_inv s0" using assms(1) by (simp add: disk_ready_def)
  have b: "blocks_for 92 = 1" by (simp add: blocks_for_def)
  have cap: "kheap_cap s0 (Suc (Suc (Suc (Suc c))))" using assms(3) by (simp add: eval_nat_numeral)
  obtain p k m1 where a: "kzalloc 92 s0 = Some (p, s0\<lparr>mem := m1\<rparr>)" "grows {(p, k)} {} s0 (s0\<lparr>mem := m1\<rparr>)"
    "kheap_cap (s0\<lparr>mem := m1\<rparr>) (Suc (Suc (Suc c)))" "unat (92 :: u32) \<le> k" "\<forall>a \<in> region p k. m1 a = 0" "p \<noteq> 0"
    by (rule grows_alloc_one [OF i0 cap b])
  have k: "92 \<le> k" using a(4) by simp
  let ?m = "memset m1 p 0 4"
  have p4: "region p 4 \<subseteq> region p k" using k by (intro region_mono) simp
  have fm: "same_outside (region p 4) m1 ?m" using memset_outside [of p 4 m1 0] by simp
  note g = grows_fill [OF a(2) _ p4, of ?m, simplified, OF fm]
  have "?m x = 0" if "x \<in> region p k" for x
    using memset_inside [of x p 4 m1 0] same_outsideD [OF fm, of x] a(5) that by (cases "x \<in> region p 4") auto
  then have z: "\<forall>x \<in> region p 80. ?m x = 0" using region_mono [of 80 k p] k by auto
  have pg: "private_growing img s0 p k {(p, k)} [] (s0\<lparr>mem := ?m\<rparr>)"
    using g(1) k z disk_ready_keeps [OF assms(1) g(1)] by (simp add: private_growing_def)
  have id: "load32 (mem s) (disk_id (primary_disk s0)) = 0" if "private_growing img s0 p k B sts s" for B sts and s :: "'a fat_state_scheme"
    using private_growing_disk [OF that assms(1) disk_fields_in(1)] assms(2) by simp
  have cap1: "kheap_cap (s0\<lparr>mem := ?m\<rparr>) (Suc (Suc (Suc c)))" using g(2) a(3) by simp
  obtain st1 B1 t1 s1 where 1: "new_stream 0 (s0\<lparr>mem := ?m\<rparr>) = Some (st1, t1)" "t1\<lparr>mem := store32 (mem t1) (cluster_read_stream p) st1\<rparr> = s1"
    "private_growing img s0 p k B1 [st1] s1" "kheap_cap s1 (Suc (Suc c))" "load32 (mem s1) (cluster_read_stream p) = st1"
    by (rule private_slot [OF pg, of "cluster_read_stream p" 80, OF _ _ _ cap1]) (simp_all add: fat_fields)
  obtain st2 B2 t2 s2 where 2: "new_stream 0 s1 = Some (st2, t2)" "t2\<lparr>mem := store32 (mem t2) (fat_read_stream p) st2\<rparr> = s2"
    "private_growing img s0 p k B2 [st2, st1] s2" "kheap_cap s2 (Suc c)" "load32 (mem s2) (fat_read_stream p) = st2"
    "\<And>a. region a 4 \<subseteq> region p k \<Longrightarrow> region a 4 \<inter> region (fat_read_stream p) 4 = {} \<Longrightarrow> load32 (mem s2) a = load32 (mem s1) a"
    by (rule private_slot [OF 1(3), of "fat_read_stream p" 84, OF _ _ _ 1(4)]) (simp_all add: fat_fields)
  obtain st3 B3 t3 s3 where 3: "new_stream 0 s2 = Some (st3, t3)" "t3\<lparr>mem := store32 (mem t3) (directory_read_stream p) st3\<rparr> = s3"
    "private_growing img s0 p k B3 [st3, st2, st1] s3" "kheap_cap s3 c" "load32 (mem s3) (directory_read_stream p) = st3"
    "\<And>a. region a 4 \<subseteq> region p k \<Longrightarrow> region a 4 \<inter> region (directory_read_stream p) 4 = {} \<Longrightarrow> load32 (mem s3) a = load32 (mem s2) a"
    by (rule private_slot [OF 2(3), of "directory_read_stream p" 88, OF _ _ _ 2(4)]) (simp_all add: fat_fields)
  have in92: "region (cluster_read_stream p) 4 \<subseteq> region p k" "region (fat_read_stream p) 4 \<subseteq> region p k"
    using private_fields_in(4,5) [of p] region_mono [OF k, of p] by blast+
  have ds: "region (cluster_read_stream p) 4 \<inter> region (fat_read_stream p) 4 = {}" "region (cluster_read_stream p) 4 \<inter> region (directory_read_stream p) 4 = {}"
    "region (fat_read_stream p) 4 \<inter> region (directory_read_stream p) 4 = {}"
    using field_regions [of 80 84 p] field_regions [of 80 88 p] field_regions [of 84 88 p] by (simp_all add: fat_fields)
  have l: "load32 (mem s3) (fat_read_stream p) = st2" "load32 (mem s3) (cluster_read_stream p) = st1"
    using 3(6) [OF in92(2) ds(3)] 3(6) [OF in92(1) ds(2)] 2(6) [OF in92(1) ds(1)] 2(5) 1(5) by simp_all
  have ip: "init_fat_private (primary_disk s0) p (s0\<lparr>mem := m1\<rparr>) = Some s3"
  proof -
    have "load32 (store32 (mem t1) (cluster_read_stream p) st1) (disk_id (primary_disk s0)) = 0"
      "load32 (store32 (mem t2) (fat_read_stream p) st2) (disk_id (primary_disk s0)) = 0"
      using id [OF 1(3)] id [OF 2(3)] by (simp_all add: 1(2) [symmetric] 2(2) [symmetric])
    then show ?thesis using 1(1,2) 2(1,2) 3(1,2) id [OF pg] by (simp add: init_fat_private_def)
  qed
  show ?thesis by (rule that [of p "s0\<lparr>mem := m1\<rparr>" s3 k B3]) (use ip a(1,6) 3(3-5) l in \<open>simp_all add: kernel_consts\<close>)
qed

section \<open>Copying the root directory\<close>

text \<open>The items of a directory on the disk that are in use, and the loop that copies them to \<open>q\<close>.\<close>

fun disk_items :: "image \<Rightarrow> nat \<Rightarrow> nat \<Rightarrow> u8 list list" where
  "disk_items img pos 0 = []"
| "disk_items img pos (Suc n) = (if img pos = 0xE5 then [] else [disk_bytes img pos 32]) @ disk_items img (pos + 32) n"

lemma disk_items_length: "length (disk_items img pos n) = dir_count img pos n"
  by (induction img pos n rule: disk_items.induct) auto

lemma dir_items_Suc: "dir_items m q (Suc n) = dir_items m q n @ [load_bytes m (q + of_nat (32 * n)) 32]"
  by (simp add: dir_items_def)

lemma put_item_ok:
  fixes s :: "'a fat_state_scheme"
  assumes "fat_ready img rs spc e s" and "kheap_cap s (Suc c)" and "load32 (mem s) (directory_item dir) = q"
    and "region (directory_item dir) 4 \<inter> heap_private s = {}" and "region (q + of_nat (32 * n)) 32 \<inter> (kheap_meta \<union> heap_area) = {}"
  shows "\<exists>B s'. put_directory_item dir (of_nat n) s = Some s' \<and> grows B (region (q + of_nat (32 * n)) 32) s s' \<and> kheap_cap s' c
    \<and> load_bytes (mem s') (q + of_nat (32 * n)) 32 = load_bytes (mem s) (item_local s) 32"
proof -
  let ?W = "region (q + of_nat (32 * n)) 32"
  note fp = fat_ready_parts [OF assms(1)]
  have "region (item_local s) 32 \<inter> heap_private s = {}" using fp(5) by (auto simp: fat_locals_def)
  then obtain p k s1 where c: "clone_directory_item (item_local s) sizeof_fat_directory_item s = Some (p, s1)" "grows {(p, k)} {} s s1"
    "kheap_cap s1 c" "32 \<le> k" "load_bytes (mem s1) p 32 = load_bytes (mem s) (item_local s) 32" by (rule clone_ok [OF fp(1) assms(2)])
  have q1: "load32 (mem s1) (directory_item dir) = q" using grows_load32 [OF c(2)] assms(3,4) by simp
  let ?m = "write_bytes (mem s1) (q + of_nat (32 * n)) (load_bytes (mem s) (item_local s) 32)"
  have f: "same_outside ?W (mem s1) ?m" using write_bytes_outside [of "q + of_nat (32 * n)" "load_bytes (mem s) (item_local s) 32" "mem s1"] by simp
  have "?W \<inter> kheap_meta = {}" using assms(5) by blast
  note w = grows_store [OF growsD(1) [OF c(2)] f this]
  have "grows {(p, k)} ?W s s1" by (rule grows_mono [OF c(2)]) simp
  from grows_trans [OF this w(1)] have g: "grows {(p, k)} ?W s (s1\<lparr>mem := ?m\<rparr>)" by simp
  have "put_directory_item dir (of_nat n) s = Some (s1\<lparr>mem := ?m\<rparr>)"
    using c(1,5) q1 by (simp add: put_directory_item_def sizeof_fat_directory_item_def mult.commute [of _ 32])
  moreover have "load_bytes ?m (q + of_nat (32 * n)) 32 = load_bytes (mem s) (item_local s) 32"
    using load_write_bytes [of "load_bytes (mem s) (item_local s) 32" "mem s1" "q + of_nat (32 * n)"] by simp
  moreover have "kheap_cap (s1\<lparr>mem := ?m\<rparr>) c" using w(2) c(3) by simp
  ultimately show ?thesis using g by (intro exI [of _ "{(p, k)}"] exI [of _ "s1\<lparr>mem := ?m\<rparr>"]) simp
qed

text \<open>One turn of the loop on an item that is not the end mark.\<close>

lemma copy_turn:
  fixes s :: "'a fat_state_scheme"
  assumes "fat_ready img rs spc e s" and "st \<in> set (fat_streams s)" and "stream_at s st pos" and "img pos \<noteq> 0" and "pos + 32 < 2 ^ 31"
    and "kheap_cap s (Suc c)" and "load32 (mem s) (directory_item dir) = q" and "dir \<noteq> 0" and "region (directory_item dir) 4 \<subseteq> region (fat_private_of s) 92"
    and "m = (if img pos = 0xE5 then n else Suc n)" and "region q (32 * m) \<inter> (kheap_meta \<union> heap_area \<union> region (primary_disk s) 20 \<union> fat_locals s) = {}"
    and "m < 2 ^ 26" and c': "c' = (if img pos = 0xE5 then Suc c else c)" and "0 < c'"
  shows "\<exists>B s'. count_items_loop st dir (of_nat n) s = count_items_loop st dir (of_nat m) s'
    \<and> grows B (region q (32 * m) \<union> fat_locals s \<union> fat_pos s) s s' \<and> kheap_cap s' c' \<and> stream_at s' st (pos + 32)
    \<and> dir_items (mem s') q m = dir_items (mem s) q n @ (if img pos = 0xE5 then [] else [disk_bytes img pos 32])"
proof -
  note fp = fat_ready_parts [OF assms(1)]
  let ?P = "fat_locals s \<union> fat_pos s" and ?W = "region (q + of_nat (32 * n)) 32"
  have dp: "region (directory_item dir) 4 \<inter> (?P \<union> heap_private s) = {}" using assms(9) fp(2,4,5) unfolding fat_area_def by blast
  obtain s1 where s1: "stream_read st (item_local s) sizeof_fat_directory_item s = Some (0, s1)" "mem s1 (item_local s1) = img pos"
    "load_bytes (mem s1) (item_local s1) 32 = disk_bytes img pos 32" "keeps ?P s s1" "stream_at s1 st (pos + 32)" "fat_ready img rs spc e s1"
    "st \<in> set (fat_streams s1)" "fat_locals s1 \<union> fat_pos s1 = ?P" by (rule read_item [OF assms(1-3,5)])
  have "fat_locals s \<inter> fat_area s = {}" using fp(5) by blast
  note r1 = fat_ready_keeps [OF assms(1) s1(4) this]
  have q1: "load32 (mem s1) (directory_item dir) = q" using grows_load32 [OF s1(4) dp] assms(7) by simp
  have cap1: "kheap_cap s1 (Suc c)" using keepsD(3) [OF s1(4) fp(1)] assms(6) by blast
  have ha: "fat_area s \<subseteq> heap_area \<union> region (primary_disk s) 20"
    by (rule fp(7))
  have qoff: "region q (32 * n) \<inter> (?P \<union> heap_private s) = {}"
    using region_mono [of "32 * n" "32 * m" q] assms(10,11) ha fp(3) unfolding heap_private_def by (auto split: if_splits)
  have n26: "n < 2 ^ 26" using assms(10,12) by (auto split: if_splits)
  have d1: "dir_items (mem s1) q n = dir_items (mem s) q n" using dir_items_frame [OF growsD(4) [OF s1(4)] qoff n26] .
  show ?thesis
  proof (cases "img pos = 0xE5")
    case True
    then have "count_items_loop st dir (of_nat n) s = count_items_loop st dir (of_nat m) s1"
      using s1(1,2) assms(4,10) by (subst count_items_loop.simps) simp
    moreover have "keeps (region q (32 * m) \<union> fat_locals s \<union> fat_pos s) s s1" by (rule grows_mono [OF s1(4)]) auto
    ultimately show ?thesis using cap1 s1(5) d1 True assms(10) c' by (intro exI [of _ "{}"] exI [of _ s1]) simp
  next
    case False
    then have m: "m = Suc n" "c' = c" using assms(10) c' by simp_all
    have Win: "?W \<subseteq> region q (32 * m)" using item_in [of n m q] m(1) assms(12) by simp
    have "?W \<inter> (kheap_meta \<union> heap_area) = {}" using Win assms(11) by blast
    moreover have "region (directory_item dir) 4 \<inter> heap_private s1 = {}" using dp r1(7) by blast
    ultimately obtain B s2 where s2: "put_directory_item dir (of_nat n) s1 = Some s2" "grows B ?W s1 s2" "kheap_cap s2 c"
      "load_bytes (mem s2) (q + of_nat (32 * n)) 32 = disk_bytes img pos 32"
      using put_item_ok [OF s1(6) cap1 q1, of n] s1(3) by metis
    have "count_items_loop st dir (of_nat n) s = count_items_loop st dir (of_nat m) s2"
      using s1(1,2) s2(1) assms(4,8) False m(1) by (subst count_items_loop.simps) (simp add: add.commute)
    moreover have "grows B (region q (32 * m) \<union> fat_locals s \<union> fat_pos s) s s2"
    proof -
      have "keeps (region q (32 * m) \<union> fat_locals s \<union> fat_pos s) s s1" by (rule grows_mono [OF s1(4)]) auto
      from grows_trans [OF this s2(2)] show ?thesis using Win by auto
    qed
    moreover have "stream_at s2 st (pos + 32)"
    proof (rule stream_at_keeps [OF s1(5) fat_ready_parts(1) [OF s1(6)] s2(2)])
      have "region st 8 \<subseteq> fat_area s" using assms(2) by (auto simp: fat_area_def)
      then show "?W \<inter> region st 8 = {}" using Win assms(11) ha by blast
    qed
    moreover have "dir_items (mem s2) q n = dir_items (mem s) q n"
    proof -
      have "region q (32 * n) \<inter> ?W = {}" using region_adjacent [of "32 * n" 32 q] assms(12) m(1) by (simp add: Int_commute)
      then have "region q (32 * n) \<inter> (?W \<union> heap_private s1) = {}" using qoff r1(7) by blast
      from dir_items_frame [OF growsD(4) [OF s2(2)] this n26] d1 show ?thesis by simp
    qed
    ultimately show ?thesis using s2(3,4) False m by (intro exI [of _ B] exI [of _ s2]) (simp add: dir_items_Suc)
  qed
qed

lemma copy_loop_ok:
  fixes s :: "'a fat_state_scheme"
  assumes "fat_ready img rs spc e s" and "st \<in> set (fat_streams s)" and "stream_at s st pos" and "dir_ends img pos n" and "pos + 32 * n + 32 < 2 ^ 31"
    and "kheap_cap s (dir_count img pos n + Suc c)" and "load32 (mem s) (directory_item dir) = q" and "dir \<noteq> 0"
    and "region (directory_item dir) 4 \<subseteq> region (fat_private_of s) 92" and "t = k + dir_count img pos n"
    and "region q (32 * t) \<inter> (kheap_meta \<union> heap_area \<union> region (primary_disk s) 20 \<union> fat_locals s) = {}" and "t < 2 ^ 26"
  shows "\<exists>B s'. count_items_loop st dir (of_nat k) s = Some (of_nat t, s')
    \<and> grows B (region q (32 * t) \<union> fat_locals s \<union> fat_pos s) s s' \<and> kheap_cap s' (Suc c)
    \<and> dir_items (mem s') q t = dir_items (mem s) q k @ disk_items img pos n"
  using assms
proof (induction n arbitrary: pos k s)
  case 0
  note fp = fat_ready_parts [OF 0(1)]
  have z: "img pos = 0" and b: "pos + 32 < 2 ^ 31" and t: "t = k" using 0(4,5,10) by (simp_all add: dir_ends_def)
  obtain s1 where s1: "stream_read st (item_local s) sizeof_fat_directory_item s = Some (0, s1)" "mem s1 (item_local s1) = img pos"
    "keeps (fat_locals s \<union> fat_pos s) s s1" by (rule read_item [OF 0(1-3) b])
  have "region q (32 * t) \<inter> (fat_locals s \<union> fat_pos s \<union> heap_private s) = {}"
    using 0(11) fp(3,7) unfolding heap_private_def by blast
  note d = dir_items_frame [OF growsD(4) [OF s1(3)] this 0(12)]
  have "keeps (region q (32 * t) \<union> fat_locals s \<union> fat_pos s) s s1" by (rule grows_mono [OF s1(3)]) auto
  moreover have "count_items_loop st dir (of_nat k) s = Some (of_nat t, s1)" using s1(1,2) z t by (subst count_items_loop.simps) simp
  ultimately show ?case using keepsD(3) [OF s1(3) fp(1) 0(6)] d t by (intro exI [of _ "{}"] exI [of _ s1]) simp
next
  case (Suc n)
  note fp = fat_ready_parts [OF Suc.prems(1)]
  have d: "img pos \<noteq> 0" "dir_ends img (pos + 32) n" using Suc.prems(4) by (simp_all add: dir_ends_Suc)
  have b: "pos + 32 < 2 ^ 31" "pos + 32 + 32 * n + 32 < 2 ^ 31" using Suc.prems(5) by simp_all
  define c0 where "c0 = (if img pos = 0xE5 then dir_count img (pos + 32) n + c else dir_count img (pos + 32) n + Suc c)"
  define m where "m = (if img pos = 0xE5 then k else Suc k)"
  have cap: "kheap_cap s (Suc c0)" using Suc.prems(6) by (simp add: c0_def split: if_splits)
  have t: "t = m + dir_count img (pos + 32) n" "m \<le> t" using Suc.prems(10) by (auto simp: m_def)
  have c': "dir_count img (pos + 32) n + Suc c = (if img pos = 0xE5 then Suc c0 else c0)" by (simp add: c0_def)
  have qm: "region q (32 * m) \<subseteq> region q (32 * t)" using t(2) by (intro region_mono) simp
  have "region q (32 * m) \<inter> (kheap_meta \<union> heap_area \<union> region (primary_disk s) 20 \<union> fat_locals s) = {}" "m < 2 ^ 26"
    using qm Suc.prems(11,12) t(2) by auto
  from copy_turn [OF Suc.prems(1-3) d(1) b(1) cap Suc.prems(7-9) m_def this c']
  obtain B s1 where s1: "count_items_loop st dir (of_nat k) s = count_items_loop st dir (of_nat m) s1"
    "grows B (region q (32 * m) \<union> fat_locals s \<union> fat_pos s) s s1" "kheap_cap s1 (dir_count img (pos + 32) n + Suc c)" "stream_at s1 st (pos + 32)"
    "dir_items (mem s1) q m = dir_items (mem s) q k @ (if img pos = 0xE5 then [] else [disk_bytes img pos 32])" by auto
  have R: "(region q (32 * m) \<union> fat_locals s) \<inter> fat_area s = {}" using qm Suc.prems(11) fp(5,7) by blast
  have "kheap_cap s1 1" using kheap_cap_mono [OF s1(3)] by simp
  note r1 = fat_ready_grows [OF Suc.prems(1) s1(2) R] and l1 = grows_fat(4) [OF s1(2)]
  note f1 = fat_ready_grows(1) [OF Suc.prems(1) s1(2) R \<open>kheap_cap s1 1\<close>]
  have "region (directory_item dir) 4 \<inter> (region q (32 * m) \<union> fat_locals s \<union> fat_pos s \<union> heap_private s) = {}"
    using Suc.prems(9) R fp(2,4) unfolding fat_area_def by blast
  from grows_load32 [OF s1(2) this] have q1: "load32 (mem s1) (directory_item dir) = q" using Suc.prems(7) by simp
  have "st \<in> set (fat_streams s1)" "region (directory_item dir) 4 \<subseteq> region (fat_private_of s1) 92"
    "region q (32 * t) \<inter> (kheap_meta \<union> heap_area \<union> region (primary_disk s1) 20 \<union> fat_locals s1) = {}"
    using Suc.prems(2,9,11) r1(2,3,6) l1 by simp_all
  from Suc.IH [OF f1 this(1) s1(4) d(2) b(2) s1(3) q1 Suc.prems(8) this(2) t(1) this(3) Suc.prems(12)]
  obtain B' s2 where s2: "count_items_loop st dir (of_nat m) s1 = Some (of_nat t, s2)"
    "grows B' (region q (32 * t) \<union> fat_locals s1 \<union> fat_pos s1) s1 s2" "kheap_cap s2 (Suc c)"
    "dir_items (mem s2) q t = dir_items (mem s1) q m @ disk_items img (pos + 32) n" by blast
  have "grows B (region q (32 * t) \<union> fat_locals s \<union> fat_pos s) s s1" by (rule grows_mono [OF s1(2)]) (use qm in auto)
  from grows_trans [OF this s2(2)] have "grows (B \<union> B') (region q (32 * t) \<union> fat_locals s \<union> fat_pos s) s s2"
    using r1(5) l1 by auto
  then show ?case using s1(1,5) s2(1,3,4) by (intro exI [of _ "B \<union> B'"] exI [of _ s2]) simp
qed

section \<open>The root directory\<close>

text \<open>The first sector of a FAT16 volume: \<open>rs\<close> reserved sectors, \<open>spc\<close> sectors in a cluster, \<open>nf\<close> copies of the table of \<open>spf\<close>
  sectors each, and room for \<open>ne\<close> items in the root directory.\<close>

definition fat_header :: "image \<Rightarrow> nat \<Rightarrow> nat \<Rightarrow> nat \<Rightarrow> nat \<Rightarrow> nat \<Rightarrow> bool" where
  "fat_header img rs spc nf spf ne \<longleftrightarrow> img 38 = 0x29 \<and> le16 (img 14) (img 15) = rs \<and> unat (img 13) = spc \<and> 0 < spc
     \<and> unat (img 16) = nf \<and> le16 (img 22) (img 23) = spf \<and> le16 (img 17) (img 18) = ne"

definition root_sector :: "nat \<Rightarrow> nat \<Rightarrow> nat \<Rightarrow> nat" where
  "root_sector rs nf spf = nf * spf + rs"

definition data_sector :: "nat \<Rightarrow> nat \<Rightarrow> nat \<Rightarrow> nat \<Rightarrow> nat" where
  "data_sector rs nf spf ne = root_sector rs nf spf + ne * 32 div 512"

lemma fat_header_bounds:
  assumes "fat_header img rs spc nf spf ne"
  shows "rs < 2 ^ 16" and "spc < 2 ^ 8" and "nf < 2 ^ 8" and "spf < 2 ^ 16" and "ne < 2 ^ 16"
  using assms le16_less unat_u8 [of "img 13"] unat_u8 [of "img 16"] by (auto simp: fat_header_def)

text \<open>The header as it stands in the private block.\<close>

lemma header_fields:
  assumes "load_bytes m p 62 = disk_bytes img 0 62" and "fat_header img rs spc nf spf ne"
  shows "m (header_signature p) = FAT16_SIGNATURE" and "load16 m (header_reserved_sectors p) = of_nat rs"
    and "m (header_sectors_per_cluster p) = of_nat spc" and "ucast (m (header_fat_copies p)) = (of_nat nf :: u32)"
    and "load16 m (header_sectors_per_fat p) = of_nat spf" and "load16 m (header_root_dir_entries p) = of_nat ne"
proof -
  have b: "m (p + of_nat i) = img i" if "i < 62" for i using arg_cong [OF assms(1), of "\<lambda>xs. xs ! i"] that by simp
  have w: "load16 m (p + of_nat i) = of_nat (le16 (img i) (img (Suc i)))" if "i < 61" for i
  proof -
    have "unat (load16 m (p + of_nat i)) = le16 (img i) (img (Suc i))"
      unfolding unat_load16 using b [of i] b [of "Suc i"] that by (simp add: ac_simps)
    moreover have "load16 m (p + of_nat i) = of_nat (unat (load16 m (p + of_nat i)))" by simp
    ultimately show ?thesis by simp
  qed
  have h: "img 38 = 0x29" "le16 (img 14) (img 15) = rs" "unat (img 13) = spc" "unat (img 16) = nf"
    "le16 (img 22) (img 23) = spf" "le16 (img 17) (img 18) = ne" using assms(2) by (simp_all add: fat_header_def)
  show "m (header_signature p) = FAT16_SIGNATURE" using b [of 38] h(1) by (simp add: fat_fields kernel_consts)
  show "load16 m (header_reserved_sectors p) = of_nat rs" "load16 m (header_sectors_per_fat p) = of_nat spf"
    "load16 m (header_root_dir_entries p) = of_nat ne" using w [of 14] w [of 22] w [of 17] h by (simp_all add: fat_fields)
  show "m (header_sectors_per_cluster p) = of_nat spc" using b [of 13] h(3) by (auto simp: fat_fields)
  show "ucast (m (header_fat_copies p)) = (of_nat nf :: u32)" using b [of 16] h(4) by (auto simp: fat_fields)
qed

text \<open>Storing the directory's last three fields in the private block: only the end of the directory matters to the
  other operations.\<close>

lemma store_root_fields:
  fixes s :: "'a fat_state_scheme"
  assumes "fat_ready img rs spc e s" and f: "same_outside (region (fat_private_of s + 68) 12) (mem s) m'"
    and "load32 m' (fat_private_of s + 76) = of_nat e'"
  shows "fat_ready img rs spc e' (s\<lparr>mem := m'\<rparr>)" and "fat_private_of (s\<lparr>mem := m'\<rparr>) = fat_private_of s"
    and "keeps (region (fat_private_of s + 68) 12) s (s\<lparr>mem := m'\<rparr>)"
    and "fat_streams (s\<lparr>mem := m'\<rparr>) = fat_streams s"
proof -
  let ?p = "fat_private_of s" and ?s = "s\<lparr>mem := m'\<rparr>"
  let ?X = "region (?p + 68) 12"
  note fp = fat_ready_parts [OF assms(1)]
  have Xp: "?X \<subseteq> region ?p 92" using region_shift [of 68 12 92 ?p] by simp
  obtain k where k: "92 \<le> k" "(?p, k) \<in> kheap_live s" using assms(1) by (auto simp: fat_ready_def)
  have kin: "region ?p 92 \<subseteq> region ?p k" by (rule region_mono [OF k(1)])
  have meta: "?X \<inter> kheap_meta = {}" using Xp kin kheap_live_off_meta(1) [OF fp(1) k(2)] by blast
  show g: "keeps ?X s ?s" by (rule grows_store(1) [OF fp(1) f meta])
  have cap: "kheap_cap ?s 1" using grows_store(2) [OF fp(1) f meta] assms(1) by (simp add: fat_ready_def)
  have area: "region ?p 92 \<subseteq> fat_area s" by (auto simp: fat_area_def)
  have dk: "region (primary_disk s) 20 \<inter> ?X = {}"
  proof -
    have "region (primary_disk s) 20 \<inter> heap_area = {}" using assms(1) by (auto simp: fat_ready_def disk_ready_def)
    moreover have "region ?p 92 \<subseteq> heap_area" using kin live_in_heap [OF fp(1) k(2)] by (auto simp: heap_area_def)
    ultimately show ?thesis using Xp by blast
  qed
  have dp: "region (disk_fs_private_data (primary_disk s)) 4 \<subseteq> region (primary_disk s) 20"
    using region_shift [of 16 4 20 "primary_disk s"] by (simp add: disk_fields)
  have "region (disk_fs_private_data (primary_disk s)) 4 \<inter> ?X = {}" using dk dp by blast
  from load32_frame [OF f this] show pv: "fat_private_of ?s = ?p" by (simp add: fat_private_of_def)
  have fld: "region (?p + 80) 4 \<inter> ?X = {}" "region (?p + 84) 4 \<inter> ?X = {}" "region (?p + 88) 4 \<inter> ?X = {}"
    using parts_apart [of 68 12 80 4 ?p] parts_apart [of 68 12 84 4 ?p] parts_apart [of 68 12 88 4 ?p] by (simp_all add: Int_commute)
  show sts: "fat_streams ?s = fat_streams s"
    using load32_frame [OF f fld(1)] load32_frame [OF f fld(2)] load32_frame [OF f fld(3)] by (simp add: fat_streams_def pv fat_fields)
  have low: "region (?p + 13) 2 \<inter> ?X = {}" "region (?p + 14) 2 \<inter> ?X = {}"
    using parts_apart [of 13 2 68 12 ?p] parts_apart [of 14 2 68 12 ?p] by simp_all
  have "?p + 13 \<in> region (?p + 13) 2" by (simp add: base_mem_region)
  then have p13: "?p + 13 \<notin> ?X" using low(1) by blast
  have h: "load16 m' (header_reserved_sectors ?p) = load16 (mem s) (header_reserved_sectors ?p)"
    "m' (header_sectors_per_cluster ?p) = mem s (header_sectors_per_cluster ?p)"
    using load16_frame [OF f low(2)] same_outsideD [OF f, of "?p + 13"] p13 by (simp_all add: fat_fields)
  have "fat_stream ?s x" if x: "x \<in> set (fat_streams s)" for x
  proof -
    have fx: "fat_stream s x" using assms(1) x by (auto simp: fat_ready_def list_all_iff)
    then obtain l where l: "8 \<le> l" "(x, l) \<in> kheap_live s" by (auto simp: fat_stream_def)
    have "x \<noteq> ?p" using assms(1) x by (auto simp: fat_ready_def)
    then have "region x l \<inter> region ?p k = {}" using kheap_live_apart [OF fp(1) l(2) k(2)] by simp
    then have "region (stream_d x) 4 \<inter> ?X = {}" using stream_fields_in(2) [of x] region_mono [OF l(1), of x] Xp kin by blast
    from load32_frame [OF f this] show ?thesis using fx keepsD(1) [OF g] by (simp add: fat_stream_def)
  qed
  then have "list_all (fat_stream ?s) (fat_streams ?s)" unfolding sts by (simp add: list_all_iff)
  moreover have "disk_ready img ?s" using disk_ready_keeps [OF _ g] dk assms(1) by (auto simp: fat_ready_def)
  moreover have "load32 m' (directory_sector_pos_end (private_root_directory ?p)) = of_nat e'"
    using assms(3) by (simp add: fat_fields add.assoc)
  ultimately show "fat_ready img rs spc e' ?s"
    using assms(1) cap h keepsD(1) [OF g] sts unfolding fat_ready_def pv by (simp add: fat_locals_def)
qed

lemma of_nat_div32: "a < 2 ^ 32 \<Longrightarrow> b < 2 ^ 32 \<Longrightarrow> (of_nat a :: u32) div of_nat b = of_nat (a div b)"
  by (rule word_unat_eq_iff [THEN iffD2]) (simp add: unat_div unat_of_nat32 le_less_trans [OF div_le_dividend])

text \<open>The loop over the items for the root directory, whose items go to address 0.\<close>

lemma read_root_items:
  fixes s :: "'a fat_state_scheme"
  assumes "fat_ready img rs spc e s" and p: "p = fat_private_of s" and "load32 (mem s) (p + 64) = 0" and "dir_ends img (sec * 512) n"
    and "sec * 512 + 32 * n + 32 < 2 ^ 31" and t: "t = dir_count img (sec * 512) n" and "kheap_cap s (t + Suc c)"
    and "region 0 (32 * t) \<inter> (kheap_meta \<union> heap_area \<union> region (primary_disk s) 20 \<union> fat_locals s) = {}" and "t < 2 ^ 26"
  shows "\<exists>B s'. get_directory_total_items (primary_disk s) (of_nat sec) (private_root_directory p) s = Some (of_nat t, s')
    \<and> grows B (region 0 (32 * t) \<union> fat_locals s \<union> fat_pos s) s s' \<and> kheap_cap s' (Suc c)
    \<and> dir_items (mem s') 0 t = disk_items img (sec * 512) n"
proof -
  let ?st = "load32 (mem s) (directory_read_stream p)" and ?dir = "private_root_directory p"
  have st: "?st \<in> set (fat_streams s)" by (simp add: fat_streams_def p)
  obtain s1 where s1: "stream_seek ?st (of_nat (sec * 512)) s = (0, s1)" "keeps (fat_pos s) s s1" "stream_at s1 ?st (sec * 512)"
    using fat_seek [OF assms(1) st] by blast
  note r1 = fat_ready_keeps [OF assms(1), of "{}" s1, simplified, OF s1(2)] and l1 = grows_fat(4) [OF s1(2)] and fp = fat_ready_parts [OF assms(1)]
  have st1: "?st \<in> set (fat_streams s1)" using st r1(3) by simp
  have di: "directory_item ?dir = p + 64" by (simp add: fat_fields)
  have in92: "region (p + 64) 4 \<subseteq> region p 92" using region_shift [of 64 4 92 p] by simp
  then have "region (p + 64) 4 \<inter> (fat_pos s \<union> heap_private s) = {}" using fp(2,4) p unfolding fat_area_def by blast
  from grows_load32 [OF s1(2) this] have q1: "load32 (mem s1) (directory_item ?dir) = 0" using assms(3) di by simp
  have cap1: "kheap_cap s1 (dir_count img (sec * 512) n + Suc c)" using keepsD(3) [OF s1(2) fp(1)] assms(7) t by simp
  have nz: "?dir \<noteq> 0"
  proof
    assume z: "?dir = 0"
    obtain k where k: "92 \<le> k" "(p, k) \<in> kheap_live s" using assms(1) p by (auto simp: fat_ready_def)
    have "p + of_nat 64 \<in> region p 92" by (rule of_nat_offset_mem) simp_all
    then have "p + of_nat 64 \<in> region p k" using region_mono [OF k(1), of p] by blast
    then have "0 \<in> region p k" using z by (simp add: fat_fields)
    then show False using live_in_heap [OF fp(1) k(2)] by (auto simp: region_interval)
  qed
  have t0: "t = 0 + dir_count img (sec * 512) n" using t by simp
  have d1: "region (directory_item ?dir) 4 \<subseteq> region (fat_private_of s1) 92" using in92 di r1(2) p by simp
  have q: "region 0 (32 * t) \<inter> (kheap_meta \<union> heap_area \<union> region (primary_disk s1) 20 \<union> fat_locals s1) = {}" using assms(8) r1(6) l1 by simp
  obtain B s2 where s2: "count_items_loop ?st ?dir (of_nat 0) s1 = Some (of_nat t, s2)"
    "grows B (region 0 (32 * t) \<union> fat_locals s1 \<union> fat_pos s1) s1 s2" "kheap_cap s2 (Suc c)"
    "dir_items (mem s2) 0 t = dir_items (mem s1) 0 0 @ disk_items img (sec * 512) n"
    using copy_loop_ok [OF r1(1) st1 s1(3) assms(4,5) cap1 q1 nz d1 t0 q assms(9)] by blast
  have ss: "load32 (mem s) (disk_sector_size (primary_disk s)) = 512" using assms(1) by (simp add: fat_ready_def disk_ready_def)
  have w: "(of_nat sec :: u32) * 512 = of_nat (sec * 512)" by simp
  have "get_directory_total_items (primary_disk s) (of_nat sec) ?dir s = Some (of_nat t, s2)"
    unfolding get_directory_total_items_def Let_def fat_private_of_def [symmetric] p [symmetric] ss w s1(1) using s2(1) by simp
  moreover have "grows B (region 0 (32 * t) \<union> fat_locals s \<union> fat_pos s) s s2"
    using grows_trans [OF grows_mono [OF s1(2)] s2(2), of "region 0 (32 * t) \<union> fat_locals s \<union> fat_pos s"] r1(5) l1 by auto
  moreover have "dir_items (mem s1) 0 0 = []" by (simp add: dir_items_def)
  ultimately show ?thesis using s2(3,4) by auto
qed

lemma get_root_directory_ok:
  fixes s :: "'a fat_state_scheme"
  assumes "fat_ready img rs spc e s" and p: "p = fat_private_of s" and "load32 (mem s) (p + 64) = 0"
    and "load_bytes (mem s) p 62 = disk_bytes img 0 62" and h: "fat_header img rs spc nf spf ne" and sec: "sec = root_sector rs nf spf"
    and "dir_ends img (sec * 512) n" and "sec * 512 + 32 * n + 32 < 2 ^ 31" and t: "t = dir_count img (sec * 512) n" and "kheap_cap s (t + Suc c)"
    and q: "region 0 (32 * t) \<inter> (kheap_meta \<union> heap_area \<union> region (primary_disk s) 20 \<union> fat_locals s) = {}" and "t < 2 ^ 26"
  shows "\<exists>B s'. get_root_directory (primary_disk s) p (private_root_directory p) s = Some (0, s')
    \<and> grows B (region 0 (32 * t) \<union> fat_locals s \<union> fat_pos s \<union> region p 92) s s' \<and> kheap_cap s' (Suc c)
    \<and> fat_ready img rs spc (data_sector rs nf spf ne) s' \<and> root_items s' (disk_items img (sec * 512) n)
    \<and> fat_private_of s' = p \<and> fat_streams s' = fat_streams s \<and> load32 (mem s') (p + 64) = 0"
proof -
  note b = fat_header_bounds [OF h] and hf = header_fields [OF assms(4) h] and fp = fat_ready_parts [OF assms(1)]
  obtain B s1 where s1: "get_directory_total_items (primary_disk s) (of_nat sec) (private_root_directory p) s = Some (of_nat t, s1)"
    "grows B (region 0 (32 * t) \<union> fat_locals s \<union> fat_pos s) s s1" "kheap_cap s1 (Suc c)" "dir_items (mem s1) 0 t = disk_items img (sec * 512) n"
    using read_root_items [OF assms(1-3,7,8) t assms(10) q assms(12)] by blast
  have R: "(region 0 (32 * t) \<union> fat_locals s) \<inter> fat_area s = {}" using q fp(5,7) by blast
  have c1: "kheap_cap s1 1" by (rule kheap_cap_mono [OF s1(3)]) simp
  note r1 = fat_ready_grows(2-) [OF assms(1) s1(2) R] and f1 = fat_ready_grows(1) [OF assms(1) s1(2) R c1] and l1 = grows_fat(4) [OF s1(2)]
  note fp1 = fat_ready_parts [OF f1]
  let ?e = "data_sector rs nf spf ne"
  define m where "m = store32 (store32 (store32 (mem s1) (p + 68) (of_nat t)) (p + 72) (of_nat sec)) (p + 76) (of_nat ?e)"
  have in12: "region (p + 68) 4 \<subseteq> region (p + 68) 12" "region (p + 72) 4 \<subseteq> region (p + 68) 12" "region (p + 76) 4 \<subseteq> region (p + 68) 12"
    using region_mono [of 4 12 "p + 68"] region_shift [of 4 4 12 "p + 68"] region_shift [of 8 4 12 "p + 68"] by (simp_all add: ac_simps)
  have f: "same_outside (region (p + 68) 12) (mem s1) m"
    unfolding m_def by (rule same_outside_mono [OF same_outside_trans [OF same_outside_trans [OF store32_outside store32_outside] store32_outside]])
      (use in12 in auto)
  have p1: "fat_private_of s1 = p" using r1(1) p by simp
  have e: "load32 m (p + 76) = of_nat ?e" by (simp add: m_def)
  note st = store_root_fields [OF f1, unfolded p1, OF f e]
  have p92: "region (p + 68) 12 \<subseteq> region p 92" using region_shift [of 68 12 92 p] by simp
  have pa: "region p 92 \<subseteq> heap_area"
  proof -
    obtain k where k: "92 \<le> k" "(p, k) \<in> kheap_live s" using assms(1) p by (auto simp: fat_ready_def)
    show ?thesis using region_mono [OF k(1), of p] live_in_heap [OF fp(1) k(2)] by (auto simp: heap_area_def)
  qed
  have g: "grows B (region 0 (32 * t) \<union> fat_locals s \<union> fat_pos s \<union> region p 92) s (s1\<lparr>mem := m\<rparr>)"
    using grows_trans [OF grows_mono [OF s1(2), of "region 0 (32 * t) \<union> fat_locals s \<union> fat_pos s \<union> region p 92"] st(3)] p92 by auto
  have "kheap_cap (s1\<lparr>mem := m\<rparr>) (Suc c)" using keepsD(3) [OF st(3) fp1(1)] s1(3) by blast
  moreover have "load32 m (p + 64) = 0"
  proof -
    have i64: "region (p + 64) 4 \<subseteq> region p 92" using region_shift [of 64 4 92 p] by simp
    have "region (p + 64) 4 \<inter> (region 0 (32 * t) \<union> fat_locals s \<union> fat_pos s \<union> heap_private s) = {}"
      using i64 R fp(2,4) p unfolding fat_area_def by blast
    from grows_load32 [OF s1(2) this] have "load32 (mem s1) (p + 64) = 0" using assms(3) by simp
    moreover have "region (p + 64) 4 \<inter> region (p + 68) 12 = {}" using parts_apart [of 64 4 68 12 p] by simp
    from load32_frame [OF f this] have "load32 m (p + 64) = load32 (mem s1) (p + 64)" .
    ultimately show ?thesis by simp
  qed
  moreover have "root_items (s1\<lparr>mem := m\<rparr>) (disk_items img (sec * 512) n)"
  proof -
    have "load32 m (p + 68) = of_nat t" by (simp add: m_def field_other)
    moreover have "region 0 (32 * t) \<inter> region (p + 68) 12 = {}" using q pa p92 by blast
    from dir_items_frame [OF f this assms(12)] have "dir_items m 0 t = disk_items img (sec * 512) n" using s1(4) by simp
    moreover have "region 0 (32 * t) \<inter> (heap_private (s1\<lparr>mem := m\<rparr>) \<union> fat_locals (s1\<lparr>mem := m\<rparr>)) = {}"
      using q grows_fat(4) [OF g] unfolding heap_private_def by blast
    ultimately show ?thesis unfolding root_items_def Let_def st(2) disk_items_length t [symmetric]
      using \<open>load32 m (p + 64) = 0\<close> by (simp add: fat_fields add.assoc assms(12) [simplified])
  qed
  moreover have "get_root_directory (primary_disk s) p (private_root_directory p) s = Some (0, s1\<lparr>mem := m\<rparr>)"
  proof -
    have ss: "load32 (mem s) (disk_sector_size (primary_disk s)) = 512" using assms(1) by (simp add: fat_ready_def disk_ready_def)
    have pos: "ucast (mem s (header_fat_copies p)) * ucast (load16 (mem s) (header_sectors_per_fat p)) + ucast (load16 (mem s) (header_reserved_sectors p)) = (of_nat sec :: u32)"
      unfolding hf(2,4,5) ucast_of_nat16 [OF b(1)] ucast_of_nat16 [OF b(4)] by (simp add: sec root_sector_def)
    have sz: "ucast (load16 (mem s) (header_root_dir_entries p)) * sizeof_fat_directory_item = (of_nat (ne * 32) :: u32)"
      unfolding hf(6) ucast_of_nat16 [OF b(5)] by (simp add: kernel_consts)
    have nn: "\<not> (of_nat t :: u32) <s 0" using sless_of_nat [of t 0] assms(12) by simp
    have dv: "(of_nat (ne * 32) :: u32) div 512 = of_nat (ne * 32 div 512)" using of_nat_div32 [of "ne * 32" 512] b(5) by simp
    have ee: "(of_nat sec :: u32) + of_nat (ne * 32 div 512) = of_nat ?e" by (simp add: data_sector_def sec)
    have "disk_ready img (s1\<lparr>mem := m\<rparr>)" using st(1) by (simp add: fat_ready_def)
    then have "load32 m (disk_sector_size (primary_disk s)) = 512" using r1(5) by (simp add: disk_ready_def)
    moreover have "region (disk_sector_size (primary_disk s)) 4 \<inter> region (p + 76) 4 = {}"
    proof -
      have "region (disk_sector_size (primary_disk s)) 4 \<subseteq> region (primary_disk s) 20" "region (p + 76) 4 \<subseteq> region p 92"
        using region_shift [of 4 4 20 "primary_disk s"] region_shift [of 76 4 92 p] by (simp_all add: disk_fields)
      moreover have "region (primary_disk s) 20 \<inter> heap_area = {}" using assms(1) by (auto simp: fat_ready_def disk_ready_def)
      ultimately show ?thesis using pa by blast
    qed
    from load32_frame [OF store32_outside this, of "store32 (store32 (mem s1) (p + 68) (of_nat t)) (p + 72) (of_nat sec)" "of_nat ?e"]
    have "load32 m (disk_sector_size (primary_disk s)) = load32 (store32 (store32 (mem s1) (p + 68) (of_nat t)) (p + 72) (of_nat sec)) (disk_sector_size (primary_disk s))"
      by (simp only: m_def)
    ultimately have ss2: "load32 (store32 (store32 (mem s1) (p + 68) (of_nat t)) (p + 72) (of_nat sec)) (disk_sector_size (primary_disk s)) = 512" by simp
    have dirs: "directory_total (private_root_directory p) = p + 68" "directory_sector_pos (private_root_directory p) = p + 72"
      "directory_sector_pos_end (private_root_directory p) = p + 76" by (simp_all add: fat_fields)
    show ?thesis unfolding get_root_directory_def Let_def pos sz ss dirs
      by (simp add: s1(1) nn del: of_nat_mult) (simp only: ss2 dv ee m_def [symmetric], simp)
  qed
  ultimately show ?thesis using g st(1,2,4) r1(2) by (intro exI [of _ B] exI [of _ "s1\<lparr>mem := m\<rparr>"]) simp
qed

section \<open>Mounting\<close>

text \<open>The private block after the header has been read into it makes the driver ready, with the end of the root
  directory still unset.\<close>

lemma header_read_ready:
  fixes s :: "'a fat_state_scheme"
  assumes "disk_ready img s" and "kheap_cap s 1" and "fat_private_of s = p" and "(p, k) \<in> kheap_live s" and "92 \<le> k"
    and "list_all (fat_stream s) (fat_streams s)" and "distinct (p # fat_streams s)" and "load_bytes (mem s) p 62 = disk_bytes img 0 62"
    and "fat_header img rs spc nf spf ne" and "load32 (mem s) (p + 76) = 0"
    and "fat_locals s \<inter> (kheap_meta \<union> heap_area \<union> region (primary_disk s) 20) = {}"
  shows "fat_ready img rs spc 0 s"
proof -
  note hf = header_fields [OF assms(8,9)] and b = fat_header_bounds [OF assms(9)]
  have "0 < spc" using assms(9) by (simp add: fat_header_def)
  moreover have "\<exists>k \<ge> 92. (p, k) \<in> kheap_live s" using assms(4,5) by blast
  moreover have "load32 (mem s) (directory_sector_pos_end (private_root_directory p)) = of_nat 0" using assms(10) by (simp add: fat_fields add.assoc)
  ultimately show ?thesis using assms(1,2,6,7,11) hf(2,3) b(1,2) by (simp add: fat_ready_def assms(3))
qed

lemma grows_fat16_fs:
  fixes s :: "'a fat_state_scheme"
  assumes "grows B R s s'"
  shows "fat16_fs s' = fat16_fs s"
proof -
  have e: "s' = s\<lparr>io_log := io_log s', mem := mem s'\<rparr>" using assms by (simp add: grows_def)
  show ?thesis by (subst e, simp)
qed

text \<open>The stores into the disk structure.\<close>

lemma disk_attach:
  fixes s :: "'a fat_state_scheme"
  assumes "disk_ready img s" and s': "s' = s\<lparr>mem := store32 (store32 (mem s) (disk_fs_private_data (primary_disk s)) p) (disk_fs (primary_disk s)) fs\<rparr>"
  shows "keeps (region (primary_disk s) 20) s s'" and "disk_ready img s'" and "fat_private_of s' = p"
    and "load32 (mem s') (disk_fs (primary_disk s)) = fs" and "load32 (mem s') (disk_id (primary_disk s)) = load32 (mem s) (disk_id (primary_disk s))"
proof -
  let ?d = "primary_disk s"
  have i: "kheap_inv s" and off: "region ?d 20 \<inter> kheap_meta = {}" using assms(1) by (auto simp: disk_ready_def)
  have "same_outside (region ?d 20) (mem s) (store32 (store32 (mem s) (disk_fs_private_data ?d) p) (disk_fs ?d) fs)"
    by (rule same_outside_mono [OF same_outside_trans [OF store32_outside store32_outside]]) (use disk_fields_in(3,4) [of ?d] in auto)
  then have f: "same_outside (region ?d 20) (mem s) (mem s')" by (simp add: s')
  show k: "keeps (region ?d 20) s s'" using grows_store(1) [OF i f off] s' by simp
  have "load32 (mem s') (disk_sector_size ?d) = load32 (mem s) (disk_sector_size ?d)" by (simp add: s' disk_fields field_other)
  then show "disk_ready img s'" using assms(1) growsD(1) [OF k] grows_disk [OF k] by (simp add: disk_ready_def)
  show "fat_private_of s' = p" using grows_disk(2) [OF k] by (simp add: fat_private_of_def) (simp add: s' disk_fields field_other)
  show "load32 (mem s') (disk_fs ?d) = fs" by (simp add: s')
  show "load32 (mem s') (disk_id ?d) = load32 (mem s) (disk_id ?d)" by (simp add: s' disk_fields field_other)
qed

text \<open>Attaching the private block to the disk, and reading the header into it through a stream of its own. Whatever
  else lies in the blocks \<open>B\<close> is left alone.\<close>

lemma attach_and_read:
  fixes s :: "'a fat_state_scheme"
  assumes "private_growing img s0 p k B sts s" and dr: "disk_ready img s0" and id: "load32 (mem s0) (disk_id (primary_disk s0)) = 0"
    and "kheap_cap s (Suc (Suc c))"
    and s': "s' = s\<lparr>mem := store32 (store32 (mem s) (disk_fs_private_data (primary_disk s0)) p) (disk_fs (primary_disk s0)) fs\<rparr>"
  obtains st j s2 s3 where "new_stream (load32 (mem s') (disk_id (primary_disk s0))) s' = Some (st, s2)" and "st \<noteq> 0"
    and "stream_read st p sizeof_fat_h s2 = Some (0, s3)" and "load_bytes (mem s3) p 62 = disk_bytes img 0 62"
    and "grows (insert (st, j) B) (region (primary_disk s0) 20) s0 s3" and "st \<notin> fst ` B" and "kheap_cap s3 (Suc c)" and "disk_ready img s3"
    and "fat_private_of s3 = p" and "load32 (mem s3) (disk_fs (primary_disk s0)) = fs"
    and "\<forall>a. region a 4 \<subseteq> block_bytes B \<longrightarrow> region a 4 \<inter> region p 62 = {} \<longrightarrow> load32 (mem s3) a = load32 (mem s) a"
proof -
  let ?d = "primary_disk s0"
  have q: "grows B {} s0 s" "(p, k) \<in> B" "92 \<le> k" "disk_ready img s" using assms(1) by (simp_all add: private_growing_def)
  have d: "primary_disk s = ?d" by (rule grows_disk(2) [OF q(1)])
  note at = disk_attach [OF q(4), of s' p fs, unfolded d, OF s']
  have id': "load32 (mem s') (disk_id ?d) = 0" using at(5) private_growing_disk [OF assms(1) dr disk_fields_in(1)] id by simp
  have cap': "kheap_cap s' (Suc (Suc c))" using keepsD(3) [OF at(1) growsD(1) [OF q(1)]] assms(4) by blast
  obtain st j m2 where ns: "new_stream 0 s' = Some (st, s'\<lparr>mem := m2\<rparr>)" "grows {(st, j)} {} s' (s'\<lparr>mem := m2\<rparr>)"
    "kheap_cap (s'\<lparr>mem := m2\<rparr>) (Suc c)" "8 \<le> j" "stream_at (s'\<lparr>mem := m2\<rparr>) st 0" "st \<noteq> 0" by (rule new_stream_grows [OF at(2) cap'])
  let ?s2 = "s'\<lparr>mem := m2\<rparr>"
  have g1: "grows B (region ?d 20) s0 s'" using grows_trans [OF grows_mono [OF q(1), of "region ?d 20"] at(1)] by auto
  have g2: "grows (insert (st, j) B) (region ?d 20) s0 ?s2" using grows_trans [OF g1 ns(2)] by simp
  have Bl: "B \<subseteq> kheap_live s'" "B \<subseteq> kheap_live ?s2" "B \<subseteq> kheap_live s" using growsD(2) [OF g1] growsD(2) [OF g2] growsD(2) [OF q(1)] by auto
  note lb' = live_bytes [OF growsD(1) [OF g1] Bl(1)] and lb2 = live_bytes [OF growsD(1) [OF g2] Bl(2)] and lb = live_bytes [OF growsD(1) [OF q(1)] Bl(3)]
  have stn: "region st j \<subseteq> heap_private s'" using grows_new_private [OF ns(2)] by simp
  have st4: "region st 4 \<subseteq> region st j" "region st 8 \<subseteq> region st j" using region_mono [of 4 j st] region_mono [of 8 j st] ns(4) by auto
  have p62: "region p 62 \<subseteq> block_bytes B" using block_bytes_in [OF q(2), of 62] q(3) by simp
  have dr2: "disk_ready img ?s2" by (rule disk_ready_keeps [OF at(2) ns(2)]) simp
  have "region p 62 \<inter> (heap_private ?s2 \<union> region st 8) = {}" using p62 lb2(1) lb'(1) stn st4(2) by blast
  then obtain s3 where s3: "stream_read st p (of_nat 62) ?s2 = Some (0, s3)" "load_bytes (mem s3) p 62 = disk_bytes img 0 62"
    "keeps (region p 62 \<union> region st 4) ?s2 s3"
    using stream_read_ok [OF dr2 kheap_cap_mono [OF ns(3)] ns(5), of 62 p] by auto
  have new: "block_bytes B \<subseteq> heap_private s0" "region st j \<subseteq> heap_private s0" using grows_new_bytes [OF q(1)] stn growsD(5) [OF g1] by blast+
  have g3: "grows (insert (st, j) B) (region ?d 20) s0 s3" using grows_trans [OF g2 s3(3)] p62 new st4(1) by auto
  have dh: "region ?d 20 \<inter> (heap_area \<union> kheap_meta) = {}" using dr by (auto simp: disk_ready_def)
  have pr: "heap_private s0 \<subseteq> heap_area \<union> kheap_meta" by (auto simp: heap_private_def)
  have ld: "load32 (mem s3) a = load32 (mem s') a" if a: "region a 4 \<inter> (region p 62 \<union> region st 4 \<union> heap_private s') = {}" for a
  proof -
    have "region a 4 \<inter> (region p 62 \<union> region st 4 \<union> heap_private ?s2) = {}" "region a 4 \<inter> ({} \<union> heap_private s') = {}"
      using a growsD(5) [OF ns(2)] by blast+
    from grows_load32 [OF s3(3) this(1)] grows_load32 [OF ns(2) this(2)] show ?thesis by simp
  qed
  have dl: "load32 (mem s3) a = load32 (mem s') a" if a: "region a 4 \<subseteq> region ?d 20" for a
  proof (rule ld)
    have "region p 62 \<union> region st 4 \<union> heap_private s' \<subseteq> heap_area \<union> kheap_meta" using p62 new st4(1) growsD(5) [OF g1] pr by blast
    then show "region a 4 \<inter> (region p 62 \<union> region st 4 \<union> heap_private s') = {}" using a dh by blast
  qed
  have d3: "primary_disk s3 = ?d" "primary_disk s' = ?d" by (rule grows_disk(2) [OF g3], rule grows_disk(2) [OF g1])
  have pv: "fat_private_of s3 = p" using dl [OF disk_fields_in(4)] at(3) d3 by (simp add: fat_private_of_def)
  have fsv: "load32 (mem s3) (disk_fs ?d) = fs" using dl [OF disk_fields_in(3)] at(4) by simp
  have "region p 62 \<union> region st 4 \<subseteq> heap_area \<union> kheap_meta" using p62 new st4(1) pr by blast
  then have "(region p 62 \<union> region st 4) \<inter> region (primary_disk ?s2) 20 = {}" using dh grows_disk(2) [OF g2] by auto
  note dr3 = disk_ready_keeps [OF dr2 s3(3) this]
  have keep: "load32 (mem s3) a = load32 (mem s) a" if a: "region a 4 \<subseteq> block_bytes B" "region a 4 \<inter> region p 62 = {}" for a
  proof -
    have "region a 4 \<inter> (region p 62 \<union> region st 4 \<union> heap_private s') = {}" using a lb'(1) stn st4(1) by blast
    moreover have "region a 4 \<inter> (region ?d 20 \<union> heap_private s) = {}" using a(1) lb(1) new(1) pr dh by blast
    ultimately show ?thesis using ld [of a] grows_load32 [OF at(1)] by simp
  qed
  have "st \<in> region st j" using ns(4) by (simp add: base_mem_region)
  moreover have "x \<in> block_bytes B" if "(x, l) \<in> B" for x l
    using that block_bytes_in [OF that order_refl] kheap_live_off_meta(2) [OF growsD(1) [OF g1]] Bl(1) base_mem_region [of x l] by blast
  ultimately have stB: "st \<notin> fst ` B" using stn lb'(1) by fastforce
  have cap3: "kheap_cap s3 (Suc c)" using keepsD(3) [OF s3(3) growsD(1) [OF g2]] ns(3) by blast
  show ?thesis by (rule that [OF _ ns(6) _ s3(2) g3 stB cap3 dr3 pv fsv]) (use ns(1) id' s3(1) keep in \<open>simp_all add: kernel_consts\<close>)
qed

text \<open>The streams of the private block are those it was given, and they still work.\<close>

lemma private_streams:
  fixes s :: "'a fat_state_scheme"
  assumes "private_growing img s0 p k B [load32 (mem s) (directory_read_stream p), load32 (mem s) (fat_read_stream p), load32 (mem s) (cluster_read_stream p)] s"
    and keep: "\<forall>a. region a 4 \<subseteq> block_bytes B \<longrightarrow> region a 4 \<inter> region p 62 = {} \<longrightarrow> load32 (mem s3) a = load32 (mem s) a"
    and "grows B' R s0 s3" and "B \<subseteq> B'" and "fat_private_of s3 = p"
  shows "list_all (fat_stream s3) (fat_streams s3)" and "distinct (p # fat_streams s3)" and "set (fat_streams s3) \<subseteq> fst ` B"
    and "fat_pos s3 \<subseteq> block_bytes B" and "load32 (mem s3) (p + 76) = 0" and "load32 (mem s3) (p + 64) = 0"
    and "(\<Union>x \<in> set (fat_streams s3). region x 8) \<subseteq> block_bytes B"
proof -
  let ?sts = "[load32 (mem s) (directory_read_stream p), load32 (mem s) (fat_read_stream p), load32 (mem s) (cluster_read_stream p)]"
  have q: "grows B {} s0 s" "(p, k) \<in> B" "92 \<le> k" "list_all (fat_stream s) ?sts" "distinct (p # ?sts)"
    "\<forall>a \<in> region p 80. mem s a = 0" "\<forall>x \<in> set ?sts. \<exists>l \<ge> 8. (x, l) \<in> B" using assms(1) by (simp_all add: private_growing_def)
  have Bl: "B \<subseteq> kheap_live s" "B \<subseteq> kheap_live s3" using growsD(2) [OF q(1)] growsD(2) [OF assms(3)] assms(4) by auto
  have pl: "load32 (mem s3) (p + of_nat i) = load32 (mem s) (p + of_nat i)" if "62 \<le> i" "i \<le> 88" for i
  proof (rule keep [rule_format])
    have "region (p + of_nat i) 4 \<subseteq> region p 92" using region_shift [of i 4 92 p] that by simp
    then show "region (p + of_nat i) 4 \<subseteq> block_bytes B" using block_bytes_in [OF q(2,3)] by blast
    show "region (p + of_nat i) 4 \<inter> region p 62 = {}" using parts_apart [of 0 62 i 4 p] that by (simp add: Int_commute)
  qed
  have sts: "set (fat_streams s3) = set ?sts" "distinct (p # fat_streams s3)"
    using q(5) pl [of 80] pl [of 84] pl [of 88] by (auto simp: fat_streams_def assms(5) fat_fields)
  show "distinct (p # fat_streams s3)" by (rule sts(2))
  have x: "fat_stream s3 x \<and> x \<in> fst ` B \<and> region x 4 \<subseteq> block_bytes B \<and> region x 8 \<subseteq> block_bytes B" if x: "x \<in> set ?sts" for x
  proof -
    obtain l where l: "8 \<le> l" "(x, l) \<in> B" using q(7) x by blast
    have "x \<noteq> p" using q(5) x by auto
    then have "region x l \<inter> region p k = {}" using kheap_live_apart [OF growsD(1) [OF q(1)], of x l p k] l(2) q(2) Bl(1) by auto
    then have "region (stream_d x) 4 \<inter> region p 62 = {}"
      using stream_fields_in(2) [of x] region_mono [OF l(1), of x] region_mono [of 62 k p] q(3) by auto
    moreover have "region (stream_d x) 4 \<subseteq> block_bytes B" using stream_fields_in(2) [of x] block_bytes_in [OF l(2,1)] by blast
    ultimately have "load32 (mem s3) (stream_d x) = load32 (mem s) (stream_d x)" using keep by blast
    moreover have "load32 (mem s) (stream_d x) = primary_disk s0" using q(4) x grows_disk(2) [OF q(1)] by (auto simp: fat_stream_def)
    ultimately have "fat_stream s3 x" using l Bl(2) grows_disk(2) [OF assms(3)] by (auto simp: fat_stream_def)
    then show ?thesis using l(2) block_bytes_in [OF l(2), of 4] block_bytes_in [OF l(2,1)] l(1) by force
  qed
  show "(\<Union>x \<in> set (fat_streams s3). region x 8) \<subseteq> block_bytes B" using x sts(1) by blast
  show "list_all (fat_stream s3) (fat_streams s3)" using x sts(1) by (simp add: list_all_iff)
  show "set (fat_streams s3) \<subseteq> fst ` B" "fat_pos s3 \<subseteq> block_bytes B" using x sts(1) by (auto simp: fat_pos_def)
  have z: "load32 (mem s) (p + of_nat i) = 0" if "i \<le> 76" for i
  proof -
    have "region (p + of_nat i) 4 \<subseteq> region p 80" using region_shift [of i 4 80 p] that by simp
    then have "mem s (p + of_nat i) = 0" "mem s (p + of_nat i + 1) = 0" "mem s (p + of_nat i + 2) = 0" "mem s (p + of_nat i + 3) = 0"
      using q(6) by (auto simp: subset_iff)
    then show ?thesis by (simp add: load32_def)
  qed
  show "load32 (mem s3) (p + 76) = 0" "load32 (mem s3) (p + 64) = 0" using z [of 76] z [of 64] pl [of 76] pl [of 64] by simp_all
qed

text \<open>Closing the stream, after everything else has succeeded.\<close>

lemma root_items_free:
  fixes s :: "'a fat_state_scheme"
  assumes "fat_ready img rs spc e s" and "root_items s its" and f: "same_outside kheap_meta (mem s) (mem s')"
    and q: "load32 (mem s) (directory_item (private_root_directory (fat_private_of s))) = q" and "region q (32 * length its) \<inter> heap_area = {}"
    and "fat_private_of s' = fat_private_of s" and "fat_locals s' = fat_locals s"
  shows "root_items s' its"
proof -
  let ?r = "private_root_directory (fat_private_of s)" and ?n = "length its"
  have ri: "load32 (mem s) (directory_total ?r) = of_nat ?n" "?n < 2 ^ 26" "dir_items (mem s) q ?n = its"
    "region q (32 * ?n) \<inter> (heap_private s \<union> fat_locals s) = {}" using assms(2) q by (simp_all add: root_items_def Let_def)
  have "kheap_meta \<subseteq> heap_private s" by (auto simp: heap_private_def)
  then have off: "region q (32 * ?n) \<inter> kheap_meta = {}" "region ?r 16 \<inter> kheap_meta = {}"
    using ri(4) fat_ready_parts(2) [OF assms(1)] root_directory_in [of "fat_private_of s"] unfolding fat_area_def by blast+
  have "region (directory_total ?r) 4 \<subseteq> region ?r 16" "region (directory_item ?r) 4 \<subseteq> region ?r 16"
    using region_shift [of 4 4 16 ?r] region_mono [of 4 16 ?r] by (simp_all add: fat_fields)
  then have "region (directory_total ?r) 4 \<inter> kheap_meta = {}" "region (directory_item ?r) 4 \<inter> kheap_meta = {}" using off(2) by blast+
  note ld = load32_frame [OF f this(1)] load32_frame [OF f this(2)]
  have "region q (32 * ?n) \<inter> (heap_private s' \<union> fat_locals s) = {}"
    using off(1) assms(5) ri(4) unfolding heap_private_def by blast
  then show ?thesis unfolding root_items_def Let_def assms(6,7) ld q using ri(1-3) dir_items_frame [OF f off(1) ri(2)] by simp
qed

lemma resolve_close:
  fixes s0 s4 :: "'a fat_state_scheme"
  assumes "grows (insert (st, j) B) R s0 s4" and "(st, j) \<notin> B" and "st \<noteq> 0" and "fat_ready img rs spc e s4" and "root_items s4 its"
    and "st \<notin> set (fat_private_of s4 # fat_streams s4)" and "kheap_cap s4 c"
    and "load32 (mem s4) (directory_item (private_root_directory (fat_private_of s4))) = q" and "region q (32 * length its) \<inter> heap_area = {}"
  shows "\<exists>s5. resolve_out d p st 0 s4 = Some (0, s5) \<and> grows B R s0 s5 \<and> fat_ready img rs spc e s5 \<and> root_items s5 its \<and> kheap_cap s5 c
    \<and> same_outside kheap_meta (mem s4) (mem s5)
    \<and> load32 (mem s5) (directory_item (private_root_directory (fat_private_of s5))) = q \<and> fat_area s5 = fat_area s4"
proof -
  note fp = fat_ready_parts [OF assms(4)]
  obtain s5 where s5: "kfree st s4 = Some s5" "grows B R s0 s5" "same_outside kheap_meta (mem s4) (mem s5)"
    by (rule grows_free [OF assms(1,2)])
  have live: "kheap_live s5 = kheap_live s4 - {(st, j)}" using growsD(2,3) [OF assms(1)] growsD(2,3) [OF s5(2)] assms(2) by auto
  have cap: "kheap_cap s5 n" if "kheap_cap s4 n" for n
    by (rule kheap_cap_antimono [OF fp(1) growsD(1) [OF s5(2)] _ that]) (use live in auto)
  have meta: "kheap_meta \<subseteq> heap_private s4" by (auto simp: heap_private_def)
  have "kheap_meta \<inter> fat_area s4 = {}" using meta fp(2) by blast
  moreover have "region (stream_d x) 4 \<subseteq> fat_area s4" if "x \<in> set (fat_streams s4)" for x
    using that stream_fields_in(2) [of x] by (auto simp: fat_area_def)
  ultimately have X: "kheap_meta \<inter> (region (primary_disk s4) 20 \<union> region (fat_private_of s4) 92 \<union> (\<Union>x \<in> set (fat_streams s4). region (stream_d x) 4)) = {}"
    unfolding fat_area_def by blast
  have lv: "\<forall>(x, k) \<in> kheap_live s4. x \<in> set (fat_private_of s4 # fat_streams s4) \<longrightarrow> (x, k) \<in> kheap_live s5"
    using assms(6) live by auto
  have c1: "kheap_cap s5 1" using cap assms(4) by (simp add: fat_ready_def)
  have g: "primary_disk s5 = primary_disk s4" "device s5 = device s4" "fat_locals s5 = fat_locals s4"
    using grows_disk [OF assms(1)] grows_disk [OF s5(2)] grows_fat(4) [OF assms(1)] grows_fat(4) [OF s5(2)] by simp_all
  note fr = fat_ready_frame [OF assms(4) s5(3) X growsD(1) [OF s5(2)] lv g]
  have "region (directory_item (private_root_directory (fat_private_of s4))) 4 \<subseteq> region (fat_private_of s4) 92"
    using region_mono [of 4 16 "private_root_directory (fat_private_of s4)"] root_directory_in [of "fat_private_of s4"] by (simp add: fat_fields)
  then have "region (directory_item (private_root_directory (fat_private_of s4))) 4 \<inter> kheap_meta = {}" using X by blast
  from load32_frame [OF s5(3) this] have q5: "load32 (mem s5) (directory_item (private_root_directory (fat_private_of s5))) = q"
    unfolding fr(2) assms(8) [symmetric] .
  have "root_items s5 its" by (rule root_items_free [OF assms(4,5) s5(3) assms(8,9) fr(2) g(3)])
  moreover have "resolve_out d p st 0 s4 = Some (0, s5)" using s5(1) assms(3) by (simp add: resolve_out_def stream_close_def)
  ultimately show ?thesis using s5(2,3) fr(1) [OF c1] fr(4) cap [OF assms(7)] q5 by blast
qed

lemma fat16_resolve_ok:
  fixes s :: "'a fat_state_scheme"
  assumes "disk_ready img s" and "load32 (mem s) (disk_id (primary_disk s)) = 0" and h: "fat_header img rs spc nf spf ne"
    and sec: "sec = root_sector rs nf spf" and "dir_ends img (sec * 512) n" and "sec * 512 + 32 * n + 32 < 2 ^ 31" and t: "t = dir_count img (sec * 512) n"
    and "kheap_cap s (5 + (t + Suc c))" and "t < 2 ^ 26"
    and L: "(fat_locals s \<union> region 0 (32 * t)) \<inter> (kheap_meta \<union> heap_area \<union> region (primary_disk s) 20) = {}" and "region 0 (32 * t) \<inter> fat_locals s = {}"
  shows "\<exists>B s'. fat16_resolve (primary_disk s) s = Some (0, s')
    \<and> grows B (region (primary_disk s) 20 \<union> region 0 (32 * t) \<union> fat_locals s) s s' \<and> kheap_cap s' (Suc c)
    \<and> fat_ready img rs spc (data_sector rs nf spf ne) s' \<and> root_items s' (disk_items img (sec * 512) n)
    \<and> load32 (mem s') (disk_fs (primary_disk s)) = fat16_fs s
    \<and> load32 (mem s') (directory_item (private_root_directory (fat_private_of s'))) = 0
    \<and> fat_area s' \<subseteq> region (primary_disk s) 20 \<union> heap_private s"
proof -
  let ?d = "primary_disk s" and ?its = "disk_items img (sec * 512) n" and ?e = "data_sector rs nf spf ne"
  let ?R = "region ?d 20 \<union> region 0 (32 * t) \<union> fat_locals s"
  have cap: "kheap_cap s (4 + Suc (t + Suc c))" using assms(8) by (simp add: eval_nat_numeral)
  obtain p k B s0 s1 where ip: "kzalloc sizeof_fat_private s = Some (p, s0)" "init_fat_private ?d p s0 = Some s1"
    "private_growing img s p k B [load32 (mem s1) (directory_read_stream p), load32 (mem s1) (fat_read_stream p), load32 (mem s1) (cluster_read_stream p)] s1"
    "kheap_cap s1 (Suc (t + Suc c))" "p \<noteq> 0" by (rule init_private_ok [OF assms(1,2) cap])
  have pB: "(p, k) \<in> B" "92 \<le> k" "grows B {} s s1" using ip(3) by (simp_all add: private_growing_def)
  have fs1: "fat16_fs s1 = fat16_fs s" by (rule grows_fat16_fs [OF pB(3)])
  define s' where "s' = s1\<lparr>mem := store32 (store32 (mem s1) (disk_fs_private_data ?d) p) (disk_fs ?d) (fat16_fs s)\<rparr>"
  have cap1: "kheap_cap s1 (Suc (Suc (t + c)))" using ip(4) by simp
  obtain st j s2 s3 where a: "new_stream (load32 (mem s') (disk_id ?d)) s' = Some (st, s2)" "st \<noteq> 0" "stream_read st p sizeof_fat_h s2 = Some (0, s3)"
    "load_bytes (mem s3) p 62 = disk_bytes img 0 62" "grows (insert (st, j) B) (region ?d 20) s s3" "st \<notin> fst ` B" "kheap_cap s3 (Suc (t + c))" "disk_ready img s3"
    "fat_private_of s3 = p" "load32 (mem s3) (disk_fs ?d) = fat16_fs s"
    "\<forall>a. region a 4 \<subseteq> block_bytes B \<longrightarrow> region a 4 \<inter> region p 62 = {} \<longrightarrow> load32 (mem s3) a = load32 (mem s1) a"
    by (rule attach_and_read [OF ip(3) assms(1,2) cap1 s'_def])
  have BB: "B \<subseteq> insert (st, j) B" by auto
  note ps = private_streams [OF ip(3) a(11,5) BB a(9)] and d3 = grows_disk(2) [OF a(5)] and l3 = grows_fat(4) [OF a(5)]
  have pl3: "(p, k) \<in> kheap_live s3" using growsD(2) [OF a(5)] pB(1) by simp
  have L3: "fat_locals s3 \<inter> (kheap_meta \<union> heap_area \<union> region (primary_disk s3) 20) = {}" using L d3 l3 by auto
  have fr: "fat_ready img rs spc 0 s3"
    by (rule header_read_ready [OF a(8) kheap_cap_mono [OF a(7)] a(9) pl3 pB(2) ps(1,2) a(4) h ps(5) L3]) simp
  have q3: "region 0 (32 * t) \<inter> (kheap_meta \<union> heap_area \<union> region (primary_disk s3) 20 \<union> fat_locals s3) = {}" using L assms(11) d3 l3 by auto
  have cap3: "kheap_cap s3 (t + Suc c)" using a(7) by simp
  obtain B2 s4 where s4: "get_root_directory ?d p (private_root_directory p) s3 = Some (0, s4)"
    "grows B2 (region 0 (32 * t) \<union> fat_locals s3 \<union> fat_pos s3 \<union> region p 92) s3 s4" "kheap_cap s4 (Suc c)" "fat_ready img rs spc ?e s4" "root_items s4 ?its"
    "fat_private_of s4 = p" "fat_streams s4 = fat_streams s3" "load32 (mem s4) (p + 64) = 0"
    using get_root_directory_ok [OF fr a(9) [symmetric] ps(6) a(4) h sec assms(5,6) t cap3 q3 assms(9)] d3 by auto
  have new: "fat_pos s3 \<union> region p 92 \<subseteq> heap_private s"
    using ps(4) block_bytes_in [OF pB(1,2)] grows_new_bytes [OF pB(3)] by blast
  have "grows (insert (st, j) B) ?R s s3" by (rule grows_mono [OF a(5)]) auto
  from grows_trans [OF this s4(2)] have g4: "grows (insert (st, j) (B \<union> B2)) ?R s s4" using new l3 by auto
  have nb: "(st, j) \<notin> B \<union> B2"
    using a(6) growsD(3) [OF s4(2)] growsD(2) [OF a(5)] by force
  have nst: "st \<notin> set (fat_private_of s4 # fat_streams s4)" using a(6) pB(1) ps(3) s4(6,7) by force
  have qi: "load32 (mem s4) (directory_item (private_root_directory (fat_private_of s4))) = 0" using s4(6,8) by (simp add: fat_fields)
  have qh: "region 0 (32 * length ?its) \<inter> heap_area = {}" unfolding disk_items_length t [symmetric] using L by blast
  obtain s5 where s5: "resolve_out ?d p st 0 s4 = Some (0, s5)" "grows (B \<union> B2) ?R s s5" "fat_ready img rs spc ?e s5" "root_items s5 ?its"
    "kheap_cap s5 (Suc c)" "same_outside kheap_meta (mem s4) (mem s5)"
    "load32 (mem s5) (directory_item (private_root_directory (fat_private_of s5))) = 0" "fat_area s5 = fat_area s4"
    using resolve_close [OF g4 nb a(2) s4(4,5) nst s4(3) qi qh] by blast
  have "fat16_resolve ?d s = Some (0, s5)"
    using ip(1,2) a(1-3) s4(1) s5(1) header_fields(1) [OF a(4) h] fs1
    by (simp add: fat16_resolve_def resolve_read_def s'_def Let_def)
  moreover have "load32 (mem s5) (disk_fs ?d) = fat16_fs s"
  proof -
    have dm: "region (disk_fs ?d) 4 \<subseteq> region ?d 20" by (rule disk_fields_in(3))
    have "region ?d 20 \<inter> (kheap_meta \<union> heap_area) = {}" using assms(1) by (simp add: disk_ready_def)
    moreover have "fat_pos s3 \<union> region p 92 \<union> heap_private s3 \<subseteq> kheap_meta \<union> heap_area" using new by (auto simp: heap_private_def)
    ultimately have "region (disk_fs ?d) 4 \<inter> (region 0 (32 * t) \<union> fat_locals s3 \<union> fat_pos s3 \<union> region p 92 \<union> heap_private s3) = {}"
      "region (disk_fs ?d) 4 \<inter> kheap_meta = {}" using dm L l3 by blast+
    from grows_load32 [OF s4(2) this(1)] load32_frame [OF s5(6) this(2)] a(10) show ?thesis by simp
  qed
  moreover have "fat_area s5 \<subseteq> region ?d 20 \<union> heap_private s"
  proof -
    have "region p 92 \<union> (\<Union>x \<in> set (fat_streams s4). region x 8) \<subseteq> heap_private s"
      using ps(7) block_bytes_in [OF pB(1,2)] grows_new_bytes [OF pB(3)] unfolding s4(7) by blast
    then have "fat_area s4 \<subseteq> region ?d 20 \<union> heap_private s" using grows_disk(2) [OF g4] s4(6) by (auto simp: fat_area_def)
    then show ?thesis unfolding s5(8) .
  qed
  ultimately show ?thesis using s5(2-5,7) by blast
qed

text \<open>A disk without the signature: everything that was allocated is given back.\<close>

lemma free_private_blocks:
  fixes s :: "'a fat_state_scheme"
  assumes "private_growing img s p k B [d, f, c] s1" and g: "grows B R s s4" and "load32 (mem s4) (directory_read_stream p) = d"
    and "load32 (mem s4) (fat_read_stream p) = f" and "load32 (mem s4) (cluster_read_stream p) = c"
  obtains s8 s9 where "close_fat_private p s4 = Some s8" and "kfree p s8 = Some s9" and "grows {} R s s9"
proof -
  have q: "(p, k) \<in> B" "92 \<le> k" "distinct [p, d, f, c]" "fst ` B \<subseteq> {p, d, f, c}" "\<forall>st \<in> {d, f, c}. \<exists>l. (st, l) \<in> B"
    using assms(1) by (auto simp: private_growing_def)
  obtain ld lf lc where l: "(d, ld) \<in> B" "(f, lf) \<in> B" "(c, lc) \<in> B" using q(5) by auto
  have one: "m = n" if "(x, m) \<in> B" "(x, n) \<in> B" for x m n
    using live_unique [OF growsD(1) [OF g], of x m n] growsD(2) [OF g] that by blast
  have B: "B = insert (c, lc) (insert (f, lf) (insert (d, ld) {(p, k)}))"
  proof
    show "B \<subseteq> insert (c, lc) (insert (f, lf) (insert (d, ld) {(p, k)}))"
    proof (rule subrelI)
      fix x m assume x: "(x, m) \<in> B"
      then have "x \<in> {p, d, f, c}" using q(4) by force
      then show "(x, m) \<in> insert (c, lc) (insert (f, lf) (insert (d, ld) {(p, k)}))"
        using one [OF x] l q(1) by auto
    qed
  qed (use l q(1) in blast)
  have off: "region fld 4 \<inter> kheap_meta = {}" if "region fld 4 \<subseteq> region p 92" for fld
    using kheap_live_off_meta(1) [OF growsD(1) [OF g], of p k] growsD(2) [OF g] q(1) that region_mono [OF q(2), of p] by blast
  note off' = off [OF private_fields_in(4)] off [OF private_fields_in(5)] off [OF private_fields_in(6)]
  obtain s5 where 5: "kfree c s4 = Some s5" "grows (insert (f, lf) (insert (d, ld) {(p, k)})) R s s5" "same_outside kheap_meta (mem s4) (mem s5)"
    by (rule grows_free [OF g [unfolded B]]) (use q(3) in auto)
  obtain s6 where 6: "kfree f s5 = Some s6" "grows (insert (d, ld) {(p, k)}) R s s6" "same_outside kheap_meta (mem s5) (mem s6)"
    by (rule grows_free [OF 5(2)]) (use q(3) in auto)
  obtain s7 where 7: "kfree d s6 = Some s7" "grows {(p, k)} R s s7" "same_outside kheap_meta (mem s6) (mem s7)"
    by (rule grows_free [OF 6(2)]) (use q(3) in auto)
  obtain s9 where 9: "kfree p s7 = Some s9" "grows {} R s s9" by (rule grows_free [OF 7(2)]) simp
  have "load32 (mem s5) (fat_read_stream p) = f" "load32 (mem s6) (directory_read_stream p) = d"
    using load32_frame [OF 5(3)] load32_frame [OF 6(3)] off' assms(3,4) by simp_all
  then have "close_fat_private p s4 = Some s7" using 5(1) 6(1) 7(1) assms(5) by (simp add: close_fat_private_def stream_close_def)
  then show ?thesis using that 9 by blast
qed

lemma fat16_resolve_refused:
  fixes s :: "'a fat_state_scheme"
  assumes "disk_ready img s" and "load32 (mem s) (disk_id (primary_disk s)) = 0" and "img 38 \<noteq> FAT16_SIGNATURE" and "kheap_cap s (4 + Suc (Suc c))"
  obtains s' where "fat16_resolve (primary_disk s) s = Some (- EFSNOTPRESENT, s')" and "keeps (region (primary_disk s) 20) s s'"
    and "load32 (mem s') (disk_fs (primary_disk s)) = 0"
proof -
  let ?d = "primary_disk s"
  obtain p k B s0 s1 where ip: "kzalloc sizeof_fat_private s = Some (p, s0)" "init_fat_private ?d p s0 = Some s1"
    "private_growing img s p k B [load32 (mem s1) (directory_read_stream p), load32 (mem s1) (fat_read_stream p), load32 (mem s1) (cluster_read_stream p)] s1"
    "kheap_cap s1 (Suc (Suc c))" "p \<noteq> 0" by (rule init_private_ok [OF assms(1,2,4)])
  have pB: "(p, k) \<in> B" "92 \<le> k" "grows B {} s s1" using ip(3) by (simp_all add: private_growing_def)
  have fs1: "fat16_fs s1 = fat16_fs s" by (rule grows_fat16_fs [OF pB(3)])
  define s' where "s' = s1\<lparr>mem := store32 (store32 (mem s1) (disk_fs_private_data ?d) p) (disk_fs ?d) (fat16_fs s)\<rparr>"
  obtain st j s2 s3 where a: "new_stream (load32 (mem s') (disk_id ?d)) s' = Some (st, s2)" "st \<noteq> 0" "stream_read st p sizeof_fat_h s2 = Some (0, s3)"
    "load_bytes (mem s3) p 62 = disk_bytes img 0 62" "grows (insert (st, j) B) (region ?d 20) s s3" "st \<notin> fst ` B" "kheap_cap s3 (Suc c)" "disk_ready img s3"
    "fat_private_of s3 = p" "load32 (mem s3) (disk_fs ?d) = fat16_fs s"
    "\<forall>a. region a 4 \<subseteq> block_bytes B \<longrightarrow> region a 4 \<inter> region p 62 = {} \<longrightarrow> load32 (mem s3) a = load32 (mem s1) a"
    by (rule attach_and_read [OF ip(3) assms(1,2) ip(4) s'_def])
  have sig: "mem s3 (header_signature p) \<noteq> FAT16_SIGNATURE"
    using arg_cong [OF a(4), of "\<lambda>xs. xs ! 38"] assms(3) by (simp add: fat_fields)
  have "(st, j) \<notin> B" using a(6) by force
  from grows_free [OF a(5) this] obtain s4 where s4: "kfree st s3 = Some s4" "grows B (region ?d 20) s s4" "same_outside kheap_meta (mem s3) (mem s4)" by blast
  have fld: "load32 (mem s4) (p + of_nat i) = load32 (mem s1) (p + of_nat i)" if "62 \<le> i" "i \<le> 88" for i
  proof -
    have in92: "region (p + of_nat i) 4 \<subseteq> region p 92" using region_shift [of i 4 92 p] that by simp
    then have "region (p + of_nat i) 4 \<subseteq> block_bytes B" using block_bytes_in [OF pB(1,2)] by blast
    moreover have "region (p + of_nat i) 4 \<inter> region p 62 = {}" using parts_apart [of 0 62 i 4 p] that by (simp add: Int_commute)
    ultimately have "load32 (mem s3) (p + of_nat i) = load32 (mem s1) (p + of_nat i)" using a(11) by blast
    moreover have "region (p + of_nat i) 4 \<inter> kheap_meta = {}"
      using kheap_live_off_meta(1) [OF growsD(1) [OF s4(2)], of p k] growsD(2) [OF s4(2)] pB(1) in92 region_mono [OF pB(2), of p] by blast
    ultimately show ?thesis using load32_frame [OF s4(3)] by simp
  qed
  obtain s8 s9 where f: "close_fat_private p s4 = Some s8" "kfree p s8 = Some s9" "keeps (region ?d 20) s s9"
    by (rule free_private_blocks [OF ip(3) s4(2)]) (use fld [of 80] fld [of 84] fld [of 88] in \<open>simp_all add: fat_fields\<close>)
  let ?m = "store32 (store32 (mem s9) (disk_fs ?d) 0) (disk_fs_private_data ?d) 0"
  have fo: "same_outside (region ?d 20) (mem s9) ?m"
    by (rule same_outside_mono [OF same_outside_trans [OF store32_outside store32_outside]]) (use disk_fields_in(3,4) [of ?d] in auto)
  have off: "region ?d 20 \<inter> kheap_meta = {}" using assms(1) by (auto simp: disk_ready_def)
  have "keeps (region ?d 20) s (s9\<lparr>mem := ?m\<rparr>)" using grows_trans [OF f(3) grows_store(1) [OF growsD(1) [OF f(3)] fo off]] by auto
  moreover have "load32 ?m (disk_fs ?d) = 0" by (simp add: disk_fields field_other)
  moreover have "- EFSNOTPRESENT <s 0" by (simp add: kernel_consts word_sless_alt)
  then have "fat16_resolve ?d s = Some (- EFSNOTPRESENT, s9\<lparr>mem := ?m\<rparr>)"
    using ip(1,2,5) a(1-3) sig s4(1) f(1,2) fs1
    by (simp add: fat16_resolve_def resolve_read_def resolve_out_def stream_close_def s'_def Let_def)
  ultimately show ?thesis using that [of "s9\<lparr>mem := ?m\<rparr>"] by simp
qed

section \<open>A sample disk\<close>

text \<open>The sample volume with a header and with the item \<^verbatim>\<open>A.C\<close> in its root directory, on a machine whose heap is empty.\<close>

definition sample_image :: image where
  "sample_image i = (if 1024 \<le> i \<and> i < 1056 then sample_item ! (i - 1024) else if i = 1056 then 0
     else (sample_volume(13 := 1, 14 := 1, 15 := 0, 16 := 1, 17 := 16, 18 := 0, 22 := 1, 23 := 0, 38 := 0x29)) i)"

definition sample_unmounted :: fat_state where
  "sample_unmounted = disk_state.extend (sample_disk 0 (zero_mem(0x300005 := 2)) sample_image)
     (fat_state.fields 0x500000 0x500200 0x400000 0x400100 0x400200)"

lemma sample_image_ok: "fat_header sample_image 1 1 1 1 16" "dir_ends sample_image (2 * 512) 1" "disk_items sample_image (2 * 512) 1 = [sample_item]"
proof -
  show "fat_header sample_image 1 1 1 1 16" by (simp add: fat_header_def sample_image_def le16_def)
  have h: "sample_image 1024 = 0x41" "sample_image 1056 = 0" by (simp_all add: sample_image_def sample_item_def)
  then show "dir_ends sample_image (2 * 512) 1" by (simp add: dir_ends_def)
  have "disk_bytes sample_image 1024 32 = sample_item" by (rule nth_equalityI) (simp_all add: sample_image_def)
  then show "disk_items sample_image (2 * 512) 1 = [sample_item]" using h(1) by simp
qed

lemma sample_unmounted_ok: "disk_ready sample_image sample_unmounted" "load32 (mem sample_unmounted) (disk_id (primary_disk sample_unmounted)) = 0"
  "kheap_cap sample_unmounted 16" "primary_disk sample_unmounted = 0x300000" "fat_locals sample_unmounted = fat_locals sample_fat"
proof -
  have f: "mem sample_unmounted = taken_mem 0 (zero_mem(0x300005 := 2))" "primary_disk sample_unmounted = 0x300000"
    "device sample_unmounted = sample_drive sample_image" "kernel_heap sample_unmounted = the_kernel_heap"
    "strategy_malloc (strategy sample_unmounted) = Some heap_malloc" "strategy_free (strategy sample_unmounted) = Some heap_free"
    by (simp_all add: sample_unmounted_def disk_state.extend_def fat_state.fields_def sample_disk_def)
  note th = taken_heap [OF _ f(4-6) f(1)]
  have m: "mem sample_unmounted a = (zero_mem(0x300005 := 2)) a" if "unat a \<ge> 0x100000" for a
    unfolding f(1) using that by (intro taken_mem_outside) (simp_all add: region_interval)
  have w: "load32 (mem sample_unmounted) 0x300004 = 512" "load32 (mem sample_unmounted) 0x300008 = 0" by (simp_all add: load32_def m)
  have off: "region 0x300000 20 \<inter> (kheap_meta \<union> heap_area) = {}"
    by (auto simp: kheap_meta_def table_region_def heap_area_def region_interval)
  show "primary_disk sample_unmounted = 0x300000" by (rule f(2))
  show "disk_ready sample_image sample_unmounted"
    using th(1) sample_drive_ok [of sample_image] off w(1) by (simp add: disk_ready_def f(2,3) disk_fields)
  show "load32 (mem sample_unmounted) (disk_id (primary_disk sample_unmounted)) = 0" using w(2) by (simp add: f(2) disk_fields)
  show "kheap_cap sample_unmounted 16" using th(3) by simp
  show "fat_locals sample_unmounted = fat_locals sample_fat"
    by (simp add: fat_locals_def sample_fat_fields) (simp add: sample_unmounted_def disk_state.extend_def fat_state.fields_def)
qed

section \<open>Properties\<close>

text \<open>C15: mounting establishes everything the operations on files rely on. On a disk that begins with a FAT16
  header, \<^verbatim>\<open>fat16_resolve\<close> returns 0, the driver's invariant holds with the geometry of the header, the root directory
  in memory has exactly the items in use of the root directory on the disk, and the disk points to the
  driver. Apart from fresh blocks only the disk structure, the driver's locals and the memory from address
  0 on, where the items go, are written.\<close>

theorem fat16_resolve_mounts:
  fixes s :: "'a fat_state_scheme"
  assumes "disk_ready img s" and "load32 (mem s) (disk_id (primary_disk s)) = 0" and "fat_header img rs spc nf spf ne"
    and "sec = root_sector rs nf spf" and "dir_ends img (sec * 512) n" and "sec * 512 + 32 * n + 32 < 2 ^ 31"
    and "t = length (disk_items img (sec * 512) n)" and "kheap_cap s (t + 9)" and "t < 2 ^ 26"
    and "(fat_locals s \<union> region 0 (32 * t)) \<inter> (kheap_meta \<union> heap_area \<union> region (primary_disk s) 20) = {}" and "region 0 (32 * t) \<inter> fat_locals s = {}"
  shows "\<exists>s'. fat16_resolve (primary_disk s) s = Some (0, s') \<and> kheap_live s \<subseteq> kheap_live s'
    \<and> fat_ready img rs spc (data_sector rs nf spf ne) s' \<and> root_items s' (disk_items img (sec * 512) n) \<and> kheap_cap s' 4
    \<and> load32 (mem s') (disk_fs (primary_disk s)) = fat16_fs s
    \<and> same_outside (region (primary_disk s) 20 \<union> region 0 (32 * t) \<union> fat_locals s \<union> heap_private s) (mem s) (mem s')"
proof -
  have t: "t = dir_count img (sec * 512) n" using assms(7) by (simp add: disk_items_length)
  have cap: "kheap_cap s (5 + (t + Suc 3))" using assms(8) by (simp add: add.commute [of t])
  from fat16_resolve_ok [OF assms(1-6) t cap assms(9-11)]
  obtain B s' where s': "fat16_resolve (primary_disk s) s = Some (0, s')" "grows B (region (primary_disk s) 20 \<union> region 0 (32 * t) \<union> fat_locals s) s s'"
    "kheap_cap s' (Suc 3)" "fat_ready img rs spc (data_sector rs nf spf ne) s'" "root_items s' (disk_items img (sec * 512) n)"
    "load32 (mem s') (disk_fs (primary_disk s)) = fat16_fs s" by blast
  then show ?thesis using growsD(2,4) [OF s'(2)] by (intro exI [of _ s']) (simp add: eval_nat_numeral)
qed

theorem fat16_resolve_mounts_witness:
  "\<exists>s'. fat16_resolve 0x300000 sample_unmounted = Some (0, s') \<and> fat_ready sample_image 1 1 3 s' \<and> root_items s' [sample_item]"
proof -
  have r: "2 = root_sector 1 1 1" "data_sector 1 1 1 16 = 3" "1 = length (disk_items sample_image (2 * 512) 1)"
    using sample_image_ok(3) by (simp_all add: root_sector_def data_sector_def)
  have cap: "kheap_cap sample_unmounted (1 + 9)" by (rule kheap_cap_mono [OF sample_unmounted_ok(3)]) simp
  have o: "(fat_locals sample_unmounted \<union> region 0 (32 * 1)) \<inter> (kheap_meta \<union> heap_area \<union> region (primary_disk sample_unmounted) 20) = {}"
    "region 0 (32 * 1) \<inter> fat_locals sample_unmounted = {}"
    unfolding sample_unmounted_ok(4,5)
    by (auto simp: fat_locals_def sample_fat_fields kheap_meta_def table_region_def heap_area_def region_interval)
  from fat16_resolve_mounts [OF sample_unmounted_ok(1,2) sample_image_ok(1) r(1) sample_image_ok(2) _ r(3) cap _ o, unfolded r(2) sample_image_ok(3) sample_unmounted_ok(4)]
  show ?thesis by auto
qed

end
