(* ===== verification/Fat16_Path.thy ===== *)
theory Fat16_Path
  imports Fat16_Open
begin

text \<open>
  Paths through subdirectories. A directory that the driver has loaded is three blocks: the item, the \<^verbatim>\<open>fat_directory\<close> and
  the block of its items (\<open>loaded_directory\<close>). \<open>directory_items\<close> says which items loading a directory of the disk gives;
  \<open>walks\<close> is the lookup of a list of names from a directory on, the abstract counterpart of \<^verbatim>\<open>get_item\<close>. The lemmas show
  that \<^verbatim>\<open>get_item\<close> finds what the walk finds and gives back every directory it loaded on the way.
\<close>

section \<open>Pointers into blocks that are free\<close>

text \<open>\<^verbatim>\<open>directory_free\<close> calls \<^verbatim>\<open>kfree\<close> for every item, though the items are one block: all calls but the first meet a block
  that is free already. They change nothing.\<close>

lemma wf_free_entry:
  assumes "wf_table T" and "i < length T" and "free_entry (T ! i)"
  shows "T ! i = HEAP_BLOCK_TABLE_ENTRY_FREE"
proof -
  obtain b where b: "table_run False (take (Suc i) T) = Some b" using wf_split [OF assms(1), of "Suc i"] by metis
  have "take (Suc i) T = take i T @ [T ! i]" using assms(2) by (simp add: take_Suc_conv_app_nth)
  then obtain c where "table_step c (T ! i) = Some b" using b by (auto simp: table_run_append Option.bind_eq_Some_conv)
  then show ?thesis by (cases rule: table_step_cases) (use assms(3) in \<open>auto simp: free_entry_def get_entry_type_def kernel_consts\<close>)
qed

lemma kfree_private:
  fixes s :: "'a kheap_state_scheme"
  assumes "kheap_inv s" and "a \<in> heap_area" and "a \<in> heap_private s"
  shows "kfree a s = Some s"
proof -
  let ?T = "kheap_entries s" and ?i = "unat (a - 0x01000000) div 4096"
  have w: "wf_table ?T" using assms(1) by (simp add: kheap_inv_def)
  have lt: "unat (a - 0x01000000) < 25600 * 4096" using assms(2) by (simp add: heap_area_def mem_region)
  then have i: "?i < 25600" by (simp add: less_mult_imp_div_less)
  have "free_entry (?T ! ?i)"
  proof (rule ccontr)
    assume "\<not> free_entry (?T ! ?i)"
    then obtain x n where x: "(x, n) \<in> live_blocks ?T" "x \<le> ?i" "?i < x + n" using taken_covered [OF w, of ?i] i by auto
    have xn: "x + n \<le> 25600" using live_block_address [OF x(1) w] by simp
    then have u: "unat (of_nat (x * 4096) :: u32) = x * 4096" by (intro unat_of_nat32) simp
    have le: "x * 4096 \<le> unat (a - 0x01000000)" using x(2) by (simp add: less_eq_div_iff_mult_less_eq)
    then have "unat (a - 0x01000000 - of_nat (x * 4096)) = unat (a - 0x01000000) - x * 4096"
      using u by (simp add: unat_sub word_le_nat_alt)
    moreover have "unat (a - 0x01000000) < (x + n) * 4096" using x(3) by (simp add: div_less_iff_less_mult)
    then have "unat (a - 0x01000000) - x * 4096 < n * 4096" using le by (simp add: less_diff_conv2 algebra_simps)
    ultimately have "a \<in> region (block_address the_kernel_heap x) (n * 4096)"
      by (simp add: mem_region block_address_def diff_diff_eq algebra_simps)
    moreover have "(block_address the_kernel_heap x, n * 4096) \<in> kheap_live s" using x(1) unfolding kheap_live_def by force
    ultimately show False using live_not_private [OF assms(1)] assms(3) by blast
  qed
  then have "mem s (0x7E00 + of_nat ?i) = HEAP_BLOCK_TABLE_ENTRY_FREE" using wf_free_entry [OF w] i by (simp add: heap_entries_nth)
  moreover have "block_address_2_block_idx the_kernel_heap a = of_nat ?i"
    using i by (simp add: block_address_2_block_idx_def kernel_consts word_unat_eq_iff unat_div unat_of_nat32)
  moreover have "(of_nat ?i :: u32) < 25600" using i by (simp add: word_less_nat_alt unat_of_nat32)
  ultimately have "heap_free the_kernel_heap (mem s) a = mem s"
    by (simp add: heap_free_def heap_free_loop.simps kernel_consts fun_upd_idem)
  then show ?thesis by (simp add: kfree_eq [OF assms(1)])
qed

section \<open>Loading a directory\<close>

text \<open>The items that loading the directory of the item \<open>bs\<close> gives: as many 32 byte records from the beginning of its first cluster as
  the directory has items in use. The directory is not empty and its items in use fit into one cluster, beyond which
  the read does not get.\<close>

definition directory_items :: "image \<Rightarrow> nat \<Rightarrow> nat \<Rightarrow> u8 list \<Rightarrow> u8 list list \<Rightarrow> bool" where
  "directory_items img spc e bs its \<longleftrightarrow> item_is_directory bs \<and> 2 \<le> item_cluster bs \<and>
     (let pos = data_pos spc e (item_cluster bs) 0 in pos + cluster_bytes spc < 2 ^ 31 \<and>
       (\<exists>n. dir_ends img pos n \<and> pos + 32 * n + 32 < 2 ^ 31 \<and> its = map (\<lambda>i. disk_bytes img (pos + 32 * i) 32) [0..<dir_count img pos n]))
     \<and> its \<noteq> [] \<and> 32 * length its \<le> cluster_bytes spc"

lemma directory_fields_in: "region (directory_item p) 4 \<subseteq> region p 16" "region (directory_total p) 4 \<subseteq> region p 16"
  using region_shift [of 4 4 16 p] region_mono [of 4 16 p] by (simp_all add: fat_fields)

lemma dir_items_of_bytes:
  assumes "load_bytes m q (32 * n) = disk_bytes img pos (32 * n)"
  shows "dir_items m q n = map (\<lambda>i. disk_bytes img (pos + 32 * i) 32) [0..<n]"
proof -
  have "load_bytes m (q + of_nat (32 * i)) 32 = disk_bytes img (pos + 32 * i) 32" if "i < n" for i
  proof -
    have "load_bytes m (q + of_nat (32 * i)) 32 = take 32 (drop (32 * i) (disk_bytes img pos (32 * n)))"
      using that load_bytes_drop [of "32 * i" 32 "32 * n" m q] assms by simp
    also have "\<dots> = disk_bytes img (pos + 32 * i) 32"
      using that by (intro nth_equalityI) (simp_all add: disk_bytes_def add.assoc)
    finally show ?thesis .
  qed
  then show ?thesis by (simp add: dir_items_def)
qed

lemma load_directory_ok:
  fixes s :: "'a fat_state_scheme"
  assumes "fat_ready img rs spc e s" and "directory_items img spc e bs its" and "load_bytes (mem s) it 32 = bs" and "region it 32 \<inter> heap_private s = {}"
    and "kheap_cap s (Suc (blocks_for (of_nat (32 * length its)) + Suc c))"
  obtains dir l q w s' where "load_directory (primary_disk s) it s = Some (dir, s')" and "grows {(dir, l), (q, w)} (fat_locals s \<union> fat_pos s) s s'"
    and "kheap_cap s' (Suc c)" and "16 \<le> l" and "32 * length its \<le> w" and "dir \<noteq> 0" and "dir \<noteq> q"
    and "load32 (mem s') (directory_total dir) = of_nat (length its)" and "load32 (mem s') (directory_item dir) = q" and "dir_items (mem s') q (length its) = its"
proof -
  let ?d = "primary_disk s" and ?c = "item_cluster bs" and ?n = "length its" and ?R = "fat_locals s \<union> fat_pos s"
  define sec where "sec = e + (?c - 2) * spc"
  have dp: "data_pos spc e ?c 0 = sec * 512" by (simp add: data_pos_def sec_def)
  note fp = fat_ready_parts [OF assms(1)]
  have di: "item_is_directory bs" "2 \<le> ?c" "its \<noteq> []" "32 * ?n \<le> cluster_bytes spc" "sec * 512 + cluster_bytes spc < 2 ^ 31"
    using assms(2) by (simp_all add: directory_items_def Let_def data_pos_def sec_def)
  obtain k where k: "dir_ends img (sec * 512) k" "sec * 512 + 32 * k + 32 < 2 ^ 31"
    "its = map (\<lambda>i. disk_bytes img (sec * 512 + 32 * i) 32) [0..<dir_count img (sec * 512) k]"
    using assms(2) unfolding directory_items_def Let_def dp by blast
  have n: "?n = dir_count img (sec * 512) k" by (subst k(3)) simp
  have nb: "32 * ?n < 2 ^ 17" using di(4) cluster_size(3) [OF assms(1)] by simp
  have L: "fat_locals s \<inter> fat_area s = {}" "fat_locals s \<inter> heap_area = {}" using fp(5) assms(1) unfolding fat_ready_def by blast+
  obtain dir l m1 where a: "kzalloc 16 s = Some (dir, s\<lparr>mem := m1\<rparr>)" "grows {(dir, l)} {} s (s\<lparr>mem := m1\<rparr>)"
    "kheap_cap (s\<lparr>mem := m1\<rparr>) (blocks_for (of_nat (32 * ?n)) + Suc c)" "16 \<le> l" "region dir l \<subseteq> heap_private s" "dir \<noteq> 0"
    using grows_alloc_one [OF fp(1) assms(5) blocks_for_small(2)] by (metis unat_numeral32(2))
  define s1 where "s1 = s\<lparr>mem := m1\<rparr>"
  have g1: "grows {(dir, l)} ?R s s1" unfolding s1_def by (rule grows_mono [OF a(2)]) auto
  have cap1: "kheap_cap s1 (blocks_for (of_nat (32 * ?n)) + Suc c)" using a(3) by (simp add: s1_def)
  note r1 = fat_ready_grows [OF assms(1) g1 L(1)]
  have fr1: "fat_ready img rs spc e s1" by (rule r1(1) [OF kheap_cap_mono [OF cap1]]) simp
  have b1: "load_bytes m1 it 32 = bs" using growsD(4) [OF a(2)] assms(3,4) by (subst assms(3) [symmetric], intro load_bytes_frame) auto
  have sub: "is_subdirectory (mem s) it" using di(1) unfolding assms(3) [symmetric] by (simp add: is_subdirectory_def item_is_directory_def fat_fields)
  have d16: "region dir 16 \<subseteq> region dir l" by (rule region_mono [OF a(4)])
  obtain s2 where s2: "get_directory_total_items ?d (of_nat sec) 0 s1 = Some (of_nat ?n, s2)" "keeps (fat_locals s1 \<union> fat_pos s1) s1 s2"
    using get_directory_total_items_ok [OF fr1 k(1,2)] r1(6) n by auto
  have g2: "grows {(dir, l)} ?R s s2" using grows_trans [OF g1 s2(2)] r1(5) grows_fat(4) [OF g1] by auto
  have cap2: "kheap_cap s2 (blocks_for (of_nat (32 * ?n)) + Suc c)" by (rule keepsD(3) [OF s2(2) growsD(1) [OF g1] cap1])
  define s3 where "s3 = s2\<lparr>mem := store32 (mem s2) (directory_total dir) (of_nat ?n)\<rparr>"
  note f3 = grows_fill [OF g2 _ subset_trans [OF directory_fields_in(2) d16] store32_outside, of "of_nat ?n", folded s3_def, simplified]
  have cap3: "kheap_cap s3 (blocks_for (of_nat (32 * ?n)) + Suc c)" using f3(2) cap2 by simp
  obtain q w m4 where q: "kzalloc (of_nat (32 * ?n)) s3 = Some (q, s3\<lparr>mem := m4\<rparr>)" "grows {(q, w)} {} s3 (s3\<lparr>mem := m4\<rparr>)"
    "kheap_cap (s3\<lparr>mem := m4\<rparr>) (Suc c)" "unat (of_nat (32 * ?n) :: u32) \<le> w" "region q w \<subseteq> heap_private s3" "q \<noteq> 0"
    using grows_alloc [OF growsD(1) [OF f3(1)] cap3, of "of_nat (32 * ?n)"] by (metis add_diff_cancel_left' le_add1)
  have w: "32 * ?n \<le> w" using q(4) nb by (simp add: unat_of_nat32 del: of_nat_mult)
  define s4 where "s4 = s3\<lparr>mem := m4\<rparr>"
  let ?B = "{(dir, l), (q, w)}"
  have g4: "grows ?B ?R s s4" using grows_trans [OF f3(1) q(2)] by (simp add: s4_def insert_commute)
  define s5 where "s5 = s4\<lparr>mem := store32 (mem s4) (directory_item dir) q\<rparr>"
  note f5 = grows_fill [OF g4 _ subset_trans [OF directory_fields_in(1) d16] store32_outside, of q, folded s5_def, simplified]
  have cap5: "kheap_cap s5 (Suc c)" using f5(2) q(3) by (simp add: s4_def)
  note r5 = fat_ready_grows [OF assms(1) f5(1) L(1)] and l5 = grows_fat(4) [OF f5(1)] and G5 = growsD [OF f5(1)]
  have fr5: "fat_ready img rs spc e s5" by (rule r5(1) [OF kheap_cap_mono [OF cap5]]) simp
  have live: "(dir, l) \<in> kheap_live s5" "(q, w) \<in> kheap_live s5" using G5(2) by simp_all
  have new: "region dir l \<subseteq> heap_private s" "region q w \<subseteq> heap_private s" using grows_new_private [OF f5(1)] by simp_all
  have "(dir, l) \<in> kheap_live s3" using growsD(2) [OF f3(1)] by simp
  then have ap: "region dir l \<inter> region q w = {}" using live_not_private [OF growsD(1) [OF f3(1)]] q(5) by blast
  have ne: "dir \<noteq> q" using ap a(4) w di(3) base_mem_region [of dir l] base_mem_region [of q w] by fastforce
  have hp: "region dir l \<subseteq> heap_area" "region q w \<subseteq> heap_area" using live_in_heap [OF G5(1)] live unfolding heap_area_def by blast+
  have "region q w \<inter> (heap_private s5 \<union> fat_area s5 \<union> fat_locals s5) = {}"
    using live_not_private [OF G5(1) live(2)] new(2) fp(2) hp(2) L(2) r5(4) l5 by blast
  then have o: "region q (32 * ?n) \<inter> (heap_private s5 \<union> fat_area s5 \<union> fat_locals s5) = {}" using region_mono [OF w, of q] by blast
  obtain s6 where s6: "read_internal ?d (of_nat ?c) 0 (of_nat (32 * ?n)) q s5 = Some (0, s6)" "load_bytes (mem s6) q (32 * ?n) = disk_bytes img (sec * 512) (32 * ?n)"
    "keeps (region q (32 * ?n) \<union> fat_locals s5 \<union> fat_pos s5) s5 s6"
    using read_internal_ok [OF fr5 item_cluster_less, of 0 bs ?c "32 * ?n" "32 * ?n" q] di nb o dp r5(6) by auto
  have qs: "region q (32 * ?n) \<subseteq> heap_private s" using new(2) region_mono [OF w, of q] by blast
  have g6: "grows ?B ?R s s6" using grows_trans [OF f5(1) s6(3)] qs r5(5) l5 by auto
  have cap6: "kheap_cap s6 (Suc c)" by (rule keepsD(3) [OF s6(3) G5(1) cap5])
  have doff: "region dir l \<inter> (region q (32 * ?n) \<union> fat_locals s5 \<union> fat_pos s5 \<union> heap_private s5) = {}"
    using ap region_mono [OF w, of q] hp(1) L(2) l5 new(1) fp(2,3) r5(5) live_not_private [OF G5(1) live(1)] by blast
  have ld: "load32 (mem s6) x = load32 (mem s5) x" if "region x 4 \<subseteq> region dir 16" for x
    using that d16 doff by (intro load32_frame [OF growsD(4) [OF s6(3)]]) blast
  have tot: "load32 (mem s4) (directory_total dir) = of_nat ?n"
  proof -
    have "(dir, l) \<in> kheap_live s3" using growsD(2) [OF f3(1)] by simp
    then have "region (directory_total dir) 4 \<inter> ({} \<union> heap_private s3) = {}"
      using directory_fields_in(2) d16 live_not_private [OF growsD(1) [OF f3(1)]] by blast
    from grows_load32 [OF q(2) this] show ?thesis by (simp add: s4_def s3_def)
  qed
  have t5: "load32 (mem s5) (directory_total dir) = of_nat ?n" "load32 (mem s5) (directory_item dir) = q"
    using tot by (simp_all add: s5_def fat_fields field_other_base)
  have items: "dir_items (mem s6) q ?n = its" using dir_items_of_bytes [OF s6(2)] k(3) n by simp
  have cl: "get_first_cluster m1 it = of_nat ?c" using get_first_cluster_item [of m1 it] b1 by simp
  have sec1: "cluster_to_sector m1 (fat_private_of s) (of_nat ?c) = of_nat sec"
    using cluster_to_sector_ok [OF fr1 di(2)] r1(2) by (simp add: s1_def sec_def)
  have "(0 :: u32) <s 0 \<longleftrightarrow> False" by simp
  then have run: "load_directory ?d it s = Some (dir, s6)"
    using sub a(1,6) s2(1) q(1,6) s6(1) cl sec1
    by (simp add: load_directory_def fat_private_of_def [symmetric] sizeof_fat_directory_def sizeof_fat_directory_item_def Let_def
        s1_def s3_def s4_def s5_def mult.commute)
  show ?thesis by (rule that [OF run g6 cap6 a(4) w a(6) ne _ _ items]) (use ld directory_fields_in [of dir] t5 in simp_all)
qed

section \<open>Items of directories\<close>

definition loaded_directory :: "mem \<Rightarrow> u32 \<Rightarrow> u32 \<Rightarrow> u32 \<Rightarrow> u8 list list \<Rightarrow> bool" where
  "loaded_directory m item dir q its \<longleftrightarrow> load32 m (item_type item) = FAT_ITEM_TYPE_DIRECTORY \<and> load32 m (item_pointer item) = dir
     \<and> load32 m (directory_total dir) = of_nat (length its) \<and> load32 m (directory_item dir) = q \<and> dir_items m q (length its) = its"

text \<open>Its three blocks.\<close>

definition directory_blocks :: "u32 \<Rightarrow> u32 \<Rightarrow> u32 \<Rightarrow> nat \<Rightarrow> (u32 \<times> nat) set \<Rightarrow> bool" where
  "directory_blocks item dir q n B \<longleftrightarrow> (\<exists>j l w. B = {(item, j), (dir, l), (q, w)} \<and> distinct [item, dir, q] \<and> 8 \<le> j \<and> 16 \<le> l \<and> 32 * n \<le> w)
     \<and> 0 < n \<and> n < 2 ^ 26"

lemma directory_blocksE:
  assumes "directory_blocks item dir q n B"
  obtains j l w where "B = {(item, j), (dir, l), (q, w)}" and "distinct [item, dir, q]" and "0 < n" and "n < 2 ^ 26"
    and "region item 8 \<subseteq> region item j" and "region dir 16 \<subseteq> region dir l" and "region q (32 * n) \<subseteq> region q w"
    and "region item 8 \<subseteq> block_bytes B" and "region dir 16 \<subseteq> block_bytes B" and "region q (32 * n) \<subseteq> block_bytes B"
proof -
  obtain j l w where b: "B = {(item, j), (dir, l), (q, w)}" "distinct [item, dir, q]" "8 \<le> j" "16 \<le> l" "32 * n \<le> w" "0 < n" "n < 2 ^ 26"
    using assms unfolding directory_blocks_def by blast
  show ?thesis
    by (rule that [OF b(1,2,6,7) region_mono [OF b(3)] region_mono [OF b(4)] region_mono [OF b(5)]
          block_bytes_in [OF _ b(3)] block_bytes_in [OF _ b(4)] block_bytes_in [OF _ b(5)]]) (simp_all add: b(1))
qed

lemma loaded_directory_frame:
  assumes "loaded_directory m item dir q its" and "same_outside R m m'" and "block_bytes B \<inter> R = {}" and "directory_blocks item dir q (length its) B"
  shows "loaded_directory m' item dir q its"
proof -
  obtain j l w where b: "length its < 2 ^ 26" "region item 8 \<subseteq> block_bytes B" "region dir 16 \<subseteq> block_bytes B" "region q (32 * length its) \<subseteq> block_bytes B"
    by (rule directory_blocksE [OF assms(4)])
  have ld: "load32 m' x = load32 m x" if "region x 4 \<subseteq> region item 8 \<or> region x 4 \<subseteq> region dir 16" for x
    using that b(2,3) assms(3) by (intro load32_frame [OF assms(2)]) blast
  have "region q (32 * length its) \<inter> R = {}" using b(4) assms(3) by blast
  then show ?thesis using assms(1) ld item_fields_in(1,2) [of item] directory_fields_in [of dir] dir_items_frame [OF assms(2) _ b(1)]
    by (simp add: loaded_directory_def)
qed

lemma new_item_directory:
  fixes s :: "'a fat_state_scheme"
  assumes "fat_ready img rs spc e s" and "directory_items img spc e bs its" and "load_bytes (mem s) it 32 = bs" and "region it 32 \<inter> heap_private s = {}"
    and "kheap_cap s (Suc (Suc (blocks_for (of_nat (32 * length its)) + Suc c)))"
  obtains item dir q B s' where "new_item (primary_disk s) it s = Some (item, s')" and "grows B (fat_locals s \<union> fat_pos s) s s'"
    and "kheap_cap s' (Suc c)" and "item \<noteq> 0" and "directory_blocks item dir q (length its) B" and "loaded_directory (mem s') item dir q its"
proof -
  let ?d = "primary_disk s" and ?n = "length its" and ?R = "fat_locals s \<union> fat_pos s"
  note fp = fat_ready_parts [OF assms(1)]
  have L: "fat_locals s \<inter> fat_area s = {}" "fat_locals s \<inter> heap_area = {}" using fp(5) assms(1) unfolding fat_ready_def by blast+
  obtain item j m1 where a: "kzalloc 8 s = Some (item, s\<lparr>mem := m1\<rparr>)" "grows {(item, j)} {} s (s\<lparr>mem := m1\<rparr>)"
    "kheap_cap (s\<lparr>mem := m1\<rparr>) (Suc (blocks_for (of_nat (32 * ?n)) + Suc c))" "8 \<le> j" "region item j \<subseteq> heap_private s" "item \<noteq> 0"
    using grows_alloc_one [OF fp(1) assms(5) blocks_for_small(1)] by (metis unat_numeral32(1))
  define s1 where "s1 = s\<lparr>mem := m1\<rparr>"
  have g1: "grows {(item, j)} ?R s s1" unfolding s1_def by (rule grows_mono [OF a(2)]) auto
  note r1 = fat_ready_grows [OF assms(1) g1 L(1)]
  have cap1: "kheap_cap s1 (Suc (blocks_for (of_nat (32 * ?n)) + Suc c))" using a(3) by (simp add: s1_def)
  have fr1: "fat_ready img rs spc e s1" by (rule r1(1) [OF kheap_cap_mono [OF cap1]]) simp
  have b1: "load_bytes (mem s1) it 32 = bs"
    using growsD(4) [OF a(2)] assms(4) by (subst assms(3) [symmetric], intro load_bytes_frame) (auto simp: s1_def)
  have o1: "region it 32 \<inter> heap_private s1 = {}" using growsD(5) [OF g1] assms(4) by blast
  obtain dir l q w s2 where d: "load_directory (primary_disk s1) it s1 = Some (dir, s2)" "grows {(dir, l), (q, w)} (fat_locals s1 \<union> fat_pos s1) s1 s2"
    "kheap_cap s2 (Suc c)" "16 \<le> l" "32 * ?n \<le> w" "dir \<noteq> 0" "dir \<noteq> q"
    "load32 (mem s2) (directory_total dir) = of_nat ?n" "load32 (mem s2) (directory_item dir) = q" "dir_items (mem s2) q ?n = its"
    by (rule load_directory_ok [OF fr1 assms(2) b1 o1 cap1])
  let ?B = "{(item, j), (dir, l), (q, w)}"
  have g2: "grows ?B ?R s s2" using grows_trans [OF g1 d(2)] r1(5) grows_fat(4) [OF g1] by (auto simp: insert_commute)
  have sub: "is_subdirectory m1 it"
    using assms(2) b1 by (auto simp: directory_items_def item_is_directory_def is_subdirectory_def fat_fields s1_def)
  have j8: "region item 8 \<subseteq> region item j" by (rule region_mono [OF a(4)])
  let ?m = "store32 (store32 (mem s2) (item_pointer item) dir) (item_type item) FAT_ITEM_TYPE_DIRECTORY"
  have f: "same_outside (region item 8) (mem s2) ?m"
    by (rule same_outside_mono [OF same_outside_trans [OF store32_outside store32_outside]]) (use item_fields_in(1,2) [of item] in auto)
  note g3 = grows_fill [OF g2 _ j8 f, simplified]
  have live: "(item, j) \<in> kheap_live s1" using growsD(2) [OF g1] by simp
  have "block_bytes {(dir, l), (q, w)} \<inter> region item j = {}"
    using grows_new_bytes [OF d(2)] live_not_private [OF growsD(1) [OF g1] live] by blast
  then have ap: "region dir l \<inter> region item j = {}" "region q w \<inter> region item j = {}" by (auto simp: block_bytes_def)
  have n: "0 < ?n" "?n < 2 ^ 26" using assms(2) cluster_size(3) [OF assms(1)] by (auto simp: directory_items_def)
  have ne: "item \<noteq> dir" "item \<noteq> q" using ap a(4) d(4,5) n(1) base_mem_region [of item j] base_mem_region [of dir l] base_mem_region [of q w] by fastforce+
  have ld: "load32 ?m x = load32 (mem s2) x" if "region x 4 \<subseteq> region dir 16" for x
    using that ap(1) j8 region_mono [OF d(4), of dir] by (intro load32_frame [OF f]) blast
  have "region q (32 * ?n) \<inter> region item 8 = {}" using ap(2) j8 region_mono [OF d(5), of q] by blast
  from dir_items_frame [OF f this n(2)] have "dir_items ?m q ?n = its" using d(10) by simp
  then have ok: "loaded_directory ?m item dir q its"
    using ld directory_fields_in [of dir] d(8,9) by (simp add: loaded_directory_def) (simp add: fat_fields field_other_base)
  have bl: "directory_blocks item dir q ?n ?B" unfolding directory_blocks_def using ne d(4,5,7) a(4) n by auto
  have run: "new_item ?d it s = Some (item, s2\<lparr>mem := ?m\<rparr>)"
    using a(1,6) sub d(1) r1(6) by (simp add: new_item_def sizeof_fat_item_def s1_def)
  show ?thesis by (rule that [OF run g3(1) _ a(6) bl]) (use g3(2) d(3) ok in simp_all)
qed

text \<open>Giving a loaded directory back: the block of the items goes with the first item, the other items are in a block that is
  free already.\<close>

lemma directory_free_rest:
  fixes s :: "'a fat_state_scheme"
  assumes "kheap_inv s" and "load32 (mem s) (directory_total dir) = of_nat n" and "load32 (mem s) (directory_item dir) = q" and "n < 2 ^ 26"
    and "region q (32 * n) \<subseteq> heap_area" and "region q (32 * n) \<subseteq> heap_private s" and "i \<le> n"
  shows "directory_free_loop dir (of_nat i) s = Some s"
  using assms(7)
proof (induction "n - i" arbitrary: i)
  case 0
  then show ?case using sless_of_nat [of n n] assms(2,4) by (subst directory_free_loop.simps) simp
next
  case (Suc k)
  then have i: "i < n" by simp
  have "q + of_nat (32 * i) \<in> region q (32 * n)" using i assms(4) by (intro of_nat_offset_mem) simp_all
  then have kf: "kfree (q + of_nat (32 * i)) s = Some s" using kfree_private [OF assms(1)] assms(5,6) by blast
  have w: "q + of_nat i * sizeof_fat_directory_item = q + of_nat (32 * i)" by (simp add: sizeof_fat_directory_item_def)
  have lt: "(of_nat i :: u32) <s of_nat n" using i assms(4) by (simp add: sless_of_nat)
  have "directory_free_loop dir (of_nat (Suc i)) s = Some s" using Suc i by (intro Suc.hyps(1)) auto
  then show ?case
    by (subst directory_free_loop.simps) (simp only: assms(2,3) lt w kf Let_def if_True if_cancel bind.bind_lunit of_nat_Suc add.commute)
qed

lemma item_free_directory:
  fixes s :: "'a fat_state_scheme"
  assumes "kheap_inv s" and "loaded_directory (mem s) item dir q its" and "directory_blocks item dir q (length its) B" and "B \<subseteq> kheap_live s"
  obtains s' where "item_free item s = Some s'" and "s' = s\<lparr>mem := mem s'\<rparr>" and "kheap_inv s'" and "kheap_live s' = kheap_live s - B"
    and "same_outside kheap_meta (mem s) (mem s')"
proof -
  let ?n = "length its"
  obtain j l w where b: "B = {(item, j), (dir, l), (q, w)}" "distinct [item, dir, q]" "0 < ?n" "?n < 2 ^ 26"
    "region q (32 * ?n) \<subseteq> region q w" "region dir 16 \<subseteq> region dir l" by (rule directory_blocksE [OF assms(3)])
  have d: "load32 (mem s) (item_type item) = FAT_ITEM_TYPE_DIRECTORY" "load32 (mem s) (item_pointer item) = dir"
    "load32 (mem s) (directory_total dir) = of_nat ?n" "load32 (mem s) (directory_item dir) = q" using assms(2) by (simp_all add: loaded_directory_def)
  have lv: "(item, j) \<in> kheap_live s" "(dir, l) \<in> kheap_live s" "(q, w) \<in> kheap_live s" using b(1) assms(4) by auto
  note nz = live_nonzero [OF assms(1) lv(2)] live_nonzero [OF assms(1) lv(3)]
  obtain s1 where s1: "kfree q s = Some s1" "s1 = s\<lparr>mem := mem s1\<rparr>" "kheap_inv s1" "kheap_live s1 = kheap_live s - {(q, w)}"
    "same_outside kheap_meta (mem s) (mem s1)" by (rule free_keeps [OF assms(1) lv(3)])
  have "region dir 16 \<inter> kheap_meta = {}" using b(6) kheap_live_off_meta(1) [OF assms(1) lv(2)] by blast
  then have ld: "load32 (mem s1) x = load32 (mem s) x" if "region x 4 \<subseteq> region dir 16" for x
    using that by (intro load32_frame [OF s1(5)]) blast
  note d1 = ld [OF directory_fields_in(2), unfolded d(3)] ld [OF directory_fields_in(1), unfolded d(4)]
  have ha: "region q w \<subseteq> heap_area" using live_in_heap [OF assms(1) lv(3)] by (simp add: heap_area_def)
  have "region q w \<inter> region p k = {}" if "(p, k) \<in> kheap_live s1" for p k
    using kheap_live_apart [OF assms(1) lv(3), of p k] that s1(4) by auto
  then have "region q w \<subseteq> heap_private s1" using ha unfolding heap_private_def by blast
  then have rest: "directory_free_loop dir (of_nat 1) s1 = Some s1"
    using b(3-5) ha by (intro directory_free_rest [OF s1(3) d1 b(4)]) (auto simp: Suc_le_eq)
  have "(0 :: u32) <s of_nat ?n" using sless_of_nat [of 0 ?n] b(3,4) by simp
  then have loop: "directory_free_loop dir 0 s = Some s1" using d(3,4) nz(2) s1(1) rest by (subst directory_free_loop.simps) simp
  have "(dir, l) \<in> kheap_live s1" using lv(2) s1(4) b(2) by auto
  then obtain s2 where s2: "kfree dir s1 = Some s2" "s2 = s1\<lparr>mem := mem s2\<rparr>" "kheap_inv s2" "kheap_live s2 = kheap_live s1 - {(dir, l)}"
    "same_outside kheap_meta (mem s1) (mem s2)" by (rule free_keeps [OF s1(3)])
  have "(item, j) \<in> kheap_live s2" using lv(1) s1(4) s2(4) b(2) by auto
  then obtain s3 where s3: "kfree item s2 = Some s3" "s3 = s2\<lparr>mem := mem s3\<rparr>" "kheap_inv s3" "kheap_live s3 = kheap_live s2 - {(item, j)}"
    "same_outside kheap_meta (mem s2) (mem s3)" by (rule free_keeps [OF s2(3)])
  have run: "item_free item s = Some s3" using d(1,2) nz(1) loop s2(1) s3(1) by (simp add: item_free_def directory_free_def)
  have st: "s3 = s\<lparr>mem := mem s3\<rparr>" using s1(2) s2(2) s3(2) by (metis mach.update_convs(1) mach.surjective)
  have lv3: "kheap_live s3 = kheap_live s - B" using s1(4) s2(4) s3(4) b(1) by auto
  have "same_outside kheap_meta (mem s) (mem s3)" using same_outside_trans [OF same_outside_trans [OF s1(5) s2(5)] s3(5)] by simp
  then show ?thesis by (rule that [OF run st s3(3) lv3])
qed

section \<open>The walk\<close>

text \<open>A list of names leads from a directory with the items \<open>its\<close> to the file with the item \<open>bs\<close>: each name but the last selects a
  directory, the last a file. The number counts the heap blocks the driver needs for it.\<close>

inductive walks :: "image \<Rightarrow> nat \<Rightarrow> nat \<Rightarrow> u8 list list \<Rightarrow> u8 list list \<Rightarrow> u8 list \<Rightarrow> nat \<Rightarrow> bool" for img spc e where
  walks_file: "find_name cs its = Some i \<Longrightarrow> \<not> item_is_directory (its ! i) \<Longrightarrow> walks img spc e its [cs] (its ! i) 2"
| walks_directory: "find_name cs its = Some i \<Longrightarrow> directory_items img spc e (its ! i) sub \<Longrightarrow> walks img spc e sub (d # rest) bs k
    \<Longrightarrow> walks img spc e its (cs # d # rest) bs (Suc (Suc (blocks_for (of_nat (32 * length sub)) + k)))"

inductive_cases walks_single: "walks img spc e its [cs] bs k"
inductive_cases walks_nested: "walks img spc e its (cs # d # rest) bs k"

text \<open>The components of a parsed path, where neither the heap nor the driver writes.\<close>

fun part_chain :: "'a fat_state_scheme \<Rightarrow> u32 \<Rightarrow> u8 list list \<Rightarrow> bool" where
  "part_chain s part [] \<longleftrightarrow> part = 0"
| "part_chain s part (cs # rest) \<longleftrightarrow> part \<noteq> 0 \<and> head_part s part cs
     \<and> (region part 8 \<union> region (load32 (mem s) (part_name part)) (Suc (length cs))) \<inter> fat_area s = {}
     \<and> part_chain s (load32 (mem s) (part_next part)) rest"

lemma part_chain_fields:
  fixes s :: "'a fat_state_scheme"
  assumes "fat_ready img rs spc e s" and "part_chain s part (cs # rest)" and "grows B (fat_locals s \<union> fat_pos s) s t"
  shows "load32 (mem t) (part_name part) = load32 (mem s) (part_name part)" and "load32 (mem t) (part_next part) = load32 (mem s) (part_next part)"
    and "cstring (mem t) (load32 (mem s) (part_name part)) cs"
    and "region (load32 (mem s) (part_name part)) (Suc (length cs)) \<inter> fat_locals s = {}"
proof -
  have h: "head_part s part cs" "(region part 8 \<union> region (load32 (mem s) (part_name part)) (Suc (length cs))) \<inter> fat_area s = {}"
    using assms(2) by simp_all
  have o: "(region part 8 \<union> region (load32 (mem s) (part_name part)) (Suc (length cs))) \<inter> (fat_locals s \<union> fat_pos s \<union> heap_private s) = {}"
    using h fat_ready_parts(3) [OF assms(1)] unfolding head_part_def Let_def by blast
  have "region (part_name part) 4 \<inter> (fat_locals s \<union> fat_pos s \<union> heap_private s) = {}"
    "region (part_next part) 4 \<inter> (fat_locals s \<union> fat_pos s \<union> heap_private s) = {}" using o part_fields_in [of part] by blast+
  then show "load32 (mem t) (part_name part) = load32 (mem s) (part_name part)" "load32 (mem t) (part_next part) = load32 (mem s) (part_next part)"
    using grows_load32 [OF assms(3)] by blast+
  have c: "cstring (mem s) (load32 (mem s) (part_name part)) cs" using h(1) by (simp add: head_part_def Let_def)
  show "cstring (mem t) (load32 (mem s) (part_name part)) cs" by (rule grows_cstring [OF assms(3) _ c]) (use o in blast)
  show "region (load32 (mem s) (part_name part)) (Suc (length cs)) \<inter> fat_locals s = {}" using o by blast
qed

lemma part_chain_frame:
  fixes s :: "'a fat_state_scheme"
  assumes "fat_ready img rs spc e s" and "grows B (fat_locals s \<union> fat_pos s) s t" and "part_chain s part css"
  shows "part_chain t part css"
  using assms(3)
proof (induction css arbitrary: part)
  case (Cons cs rest)
  note pf = part_chain_fields [OF assms(1) Cons.prems assms(2)] and g = growsD [OF assms(2)] and l = grows_fat(4) [OF assms(2)]
  have "fat_locals s \<inter> fat_area s = {}" using fat_ready_parts(5) [OF assms(1)] by blast
  note fa = fat_ready_grows(4) [OF assms(1,2) this]
  have "head_part t part cs" using Cons.prems pf(3) g(5) l unfolding part_chain.simps head_part_def Let_def pf(1) by blast
  then show ?case using Cons pf fa by simp
qed simp

section \<open>One turn of the loop\<close>

lemma release_directory:
  fixes s :: "'a fat_state_scheme"
  assumes "grows (D \<union> C) R s t" and "D \<inter> C = {}" and "loaded_directory (mem t) item dir q its" and "directory_blocks item dir q (length its) D"
  obtains t' where "item_free item t = Some t'" and "grows C R s t'" and "same_outside kheap_meta (mem t) (mem t')"
    and "\<forall>n. kheap_cap t n \<longrightarrow> kheap_cap t' n"
proof -
  note g = growsD [OF assms(1)]
  have "D \<subseteq> kheap_live t" using g(2) by blast
  then obtain t' where t': "item_free item t = Some t'" "t' = t\<lparr>mem := mem t'\<rparr>" "kheap_inv t'" "kheap_live t' = kheap_live t - D"
    "same_outside kheap_meta (mem t) (mem t')" by (rule item_free_directory [OF g(1) assms(3,4)])
  show ?thesis
    by (rule that [OF t'(1) grows_drop [OF assms(1,2) t'(2-5)] t'(5)]) (use kheap_cap_antimono [OF g(1) t'(3)] t'(4) in auto)
qed

lemma new_blocks_apart:
  fixes s :: "'a fat_state_scheme"
  assumes "fat_ready img rs spc e s" and "grows D (fat_locals s \<union> fat_pos s) s t"
  shows "block_bytes D \<inter> (fat_locals s \<union> fat_area s \<union> heap_private t) = {}"
proof -
  note fp = fat_ready_parts [OF assms(1)] and g = growsD [OF assms(2)]
  have D: "D \<subseteq> kheap_live t" using g(2) by blast
  have "fat_locals s \<inter> heap_area = {}" using assms(1) unfolding fat_ready_def by blast
  then show ?thesis using grows_new_bytes [OF assms(2)] live_bytes(1,2) [OF g(1) D] fp(2) by blast
qed

text \<open>The lookup of the next component in the directory at hand.\<close>

lemma directory_turn:
  fixes s :: "'a fat_state_scheme"
  assumes "fat_ready img rs spc e s" and "grows D (fat_locals s \<union> fat_pos s) s t" and "loaded_directory (mem t) item dir q its"
    and "directory_blocks item dir q (length its) D" and "part_chain s part (cs # rest)"
  obtains t1 where "grows D (fat_locals s \<union> fat_pos s) s t1" and "kheap_cap t1 = kheap_cap t" and "loaded_directory (mem t1) item dir q its"
    and "get_item_loop d item part t = Option.bind (case find_name cs its of None \<Rightarrow> Some (0, t1) | Some i \<Rightarrow> new_item d (q + of_nat (32 * i)) t1)
      (\<lambda>(tmp, s). Option.bind (item_free item s) (\<lambda>s. get_item_loop d tmp (load32 (mem s) (part_next part)) s))"
proof -
  let ?n = "length its" and ?R = "fat_locals s \<union> fat_pos s" and ?name = "load32 (mem s) (part_name part)"
  note pf = part_chain_fields [OF assms(1,5,2)] and g = growsD [OF assms(2)] and nb = new_blocks_apart [OF assms(1,2)]
  obtain j l w where b: "?n < 2 ^ 26" "region dir 16 \<subseteq> block_bytes D" "region q (32 * ?n) \<subseteq> block_bytes D" by (rule directory_blocksE [OF assms(4)])
  have ld: "load32 (mem t) (item_type item) = FAT_ITEM_TYPE_DIRECTORY" "load32 (mem t) (item_pointer item) = dir"
    "load32 (mem t) (directory_total dir) = of_nat ?n" "load32 (mem t) (directory_item dir) = q" "dir_items (mem t) q ?n = its"
    using assms(3) by (simp_all add: loaded_directory_def)
  have d8: "region dir 8 \<subseteq> block_bytes D" using region_mono [of 8 16 dir] b(2) by auto
  have F: "region (filename_local t) 255 \<subseteq> fat_locals s" using grows_fat(3) [OF assms(2)] by (auto simp: fat_locals_def)
  have "(region dir 8 \<union> region q (32 * ?n) \<union> region ?name (Suc (length cs))) \<inter> region (filename_local t) 255 = {}"
    using d8 b(3) nb pf(4) F by blast
  from find_item_scan [OF ld(3) b(1) ld(4) pf(3) le0 this, of d, unfolded ld(5) drop_0 of_nat_0 add_0]
  obtain m' where m': "same_outside (region (filename_local t) 255) (mem t) m'"
    "find_item_loop d dir ?name 0 t = (case find_name cs its of None \<Rightarrow> Some (0, t\<lparr>mem := m'\<rparr>) | Some j \<Rightarrow> new_item d (q + of_nat (32 * j)) (t\<lparr>mem := m'\<rparr>))"
    by (elim exE conjE) (rule that, simp_all)
  have f: "same_outside (fat_locals s) (mem t) m'" by (rule same_outside_mono [OF m'(1) F])
  have "fat_locals s \<inter> kheap_meta = {}" using assms(1) unfolding fat_ready_def by blast
  note st = grows_store [OF g(1) f this]
  have g1: "grows D ?R s (t\<lparr>mem := m'\<rparr>)" using grows_trans [OF assms(2) st(1)] by auto
  have ld1: "loaded_directory (mem (t\<lparr>mem := m'\<rparr>)) item dir q its"
    by (rule loaded_directory_frame [OF assms(3) _ _ assms(4), of "fat_locals s"]) (use f nb in auto)
  have "part \<noteq> 0" using assms(5) by simp
  then have "get_item_loop d item part t = Option.bind (find_item_in_directory d dir ?name t)
      (\<lambda>(tmp, s). Option.bind (item_free item s) (\<lambda>s. get_item_loop d tmp (load32 (mem s) (part_next part)) s))"
    using ld(1,2) pf(1) by (subst get_item_loop.simps) simp
  then show ?thesis using that [OF g1 st(2) ld1] m'(2) by (simp add: find_item_in_directory_def)
qed

text \<open>The item that the lookup selects, and the release of the directory once the next item has been made.\<close>

lemma directory_entry:
  assumes "kheap_inv t" and "loaded_directory (mem t) item dir q its" and "directory_blocks item dir q (length its) D" and "D \<subseteq> kheap_live t" and "i < length its"
  shows "load_bytes (mem t) (q + of_nat (32 * i)) 32 = its ! i" and "region (q + of_nat (32 * i)) 32 \<inter> heap_private t = {}"
proof -
  obtain j l w where b: "length its < 2 ^ 26" "region q (32 * length its) \<subseteq> block_bytes D" by (rule directory_blocksE [OF assms(3)])
  have "dir_items (mem t) q (length its) = its" using assms(2) by (simp add: loaded_directory_def)
  then show "load_bytes (mem t) (q + of_nat (32 * i)) 32 = its ! i" using dir_items_nth [OF assms(5), of "mem t" q] by simp
  show "region (q + of_nat (32 * i)) 32 \<inter> heap_private t = {}"
    using item_in [OF assms(5) b(1), of q] b(2) live_bytes(1) [OF assms(1,4)] by blast
qed

lemma entry_is_directory: "load_bytes (mem s) it 32 = bs \<Longrightarrow> is_subdirectory (mem s) it \<longleftrightarrow> item_is_directory bs"
  by (auto simp: is_subdirectory_def item_is_directory_def fat_fields)

lemma turn_release:
  fixes s :: "'a fat_state_scheme"
  assumes "fat_ready img rs spc e s" and "grows D (fat_locals s \<union> fat_pos s) s t" and "loaded_directory (mem t) item dir q its"
    and "directory_blocks item dir q (length its) D" and "grows C R t u" and "R \<subseteq> fat_locals s \<union> fat_pos s"
  obtains u' where "item_free item u = Some u'" and "grows C (fat_locals s \<union> fat_pos s) s u'" and "same_outside kheap_meta (mem u) (mem u')"
    and "\<forall>n. kheap_cap u n \<longrightarrow> kheap_cap u' n"
proof -
  have g: "grows (D \<union> C) (fat_locals s \<union> fat_pos s) s u" by (rule grows_trans [OF assms(2,5)]) (use assms(6) in blast)
  have "D \<inter> C = {}" using growsD(2) [OF assms(2)] growsD(3) [OF assms(5)] by blast
  moreover have "block_bytes D \<inter> (R \<union> heap_private t) = {}"
    using new_blocks_apart [OF assms(1,2)] assms(6) fat_ready_parts(3) [OF assms(1)] by blast
  ultimately show ?thesis
    using release_directory [OF g _ loaded_directory_frame [OF assms(3) growsD(4) [OF assms(5)] _ assms(4)] assms(4)] that by blast
qed

section \<open>The loop\<close>

lemma get_item_loop_end [simp]: "get_item_loop d item 0 s = Some (item, s)"
  by (subst get_item_loop.simps) simp

lemma walk_to_file:
  fixes s :: "'a fat_state_scheme"
  assumes "fat_ready img rs spc e s" and "grows D (fat_locals s \<union> fat_pos s) s t" and "loaded_directory (mem t) item dir q its"
    and "directory_blocks item dir q (length its) D" and "part_chain s part (cs # rest)" and "find_name cs its = Some i" and "\<not> item_is_directory (its ! i)"
    and "kheap_cap t (2 + Suc c)"
  obtains it copy j l t' where "get_item_loop d item part t = get_item_loop d it (load32 (mem s) (part_next part)) t'"
    and "grows {(it, j), (copy, l)} (fat_locals s \<union> fat_pos s) s t'" and "kheap_cap t' (Suc c)" and "8 \<le> j" and "32 \<le> l" and "it \<noteq> 0" and "it \<noteq> copy"
    and "file_item (mem t') it copy (its ! i)"
proof -
  obtain t1 where 1: "grows D (fat_locals s \<union> fat_pos s) s t1" "kheap_cap t1 = kheap_cap t" "loaded_directory (mem t1) item dir q its"
    "get_item_loop d item part t = Option.bind (case find_name cs its of None \<Rightarrow> Some (0, t1) | Some i \<Rightarrow> new_item d (q + of_nat (32 * i)) t1)
      (\<lambda>(tmp, s). Option.bind (item_free item s) (\<lambda>s. get_item_loop d tmp (load32 (mem s) (part_next part)) s))"
    by (rule directory_turn [OF assms(1-5)])
  note g1 = growsD [OF 1(1)]
  have "D \<subseteq> kheap_live t1" using g1(2) by blast
  note en = directory_entry [OF g1(1) 1(3) assms(4) this find_name_less [OF assms(6)]]
  have nd: "\<not> is_subdirectory (mem t1) (q + of_nat (32 * i))" using assms(7) entry_is_directory [OF en(1)] by simp
  have cap: "kheap_cap t1 (Suc (Suc (Suc c)))" using assms(8) 1(2) by simp
  obtain it j copy l t2 where 2: "new_item d (q + of_nat (32 * i)) t1 = Some (it, t2)" "grows {(it, j), (copy, l)} {} t1 t2" "kheap_cap t2 (Suc c)"
    "8 \<le> j" "32 \<le> l" "it \<noteq> 0" "it \<noteq> copy" "file_item (mem t2) it copy (its ! i)"
    by (rule new_item_file [OF g1(1) cap en(2) nd, of d, unfolded en(1)])
  obtain t3 where 3: "item_free item t2 = Some t3" "grows {(it, j), (copy, l)} (fat_locals s \<union> fat_pos s) s t3" "same_outside kheap_meta (mem t2) (mem t3)"
    "\<forall>n. kheap_cap t2 n \<longrightarrow> kheap_cap t3 n" by (rule turn_release [OF assms(1) 1(1,3) assms(4) 2(2)]) simp
  have "(it, j) \<in> kheap_live t3" "(copy, l) \<in> kheap_live t3" using growsD(2) [OF 3(2)] by simp_all
  then have "region it 8 \<inter> kheap_meta = {}" "region copy 32 \<inter> kheap_meta = {}"
    using kheap_live_off_meta(1) [OF growsD(1) [OF 3(2)]] region_mono [OF 2(4), of it] region_mono [OF 2(5), of copy] by blast+
  from file_item_frame [OF 2(8) 3(3) this] have fi: "file_item (mem t3) it copy (its ! i)" .
  have "get_item_loop d item part t = get_item_loop d it (load32 (mem s) (part_next part)) t3"
    using 1(4) 2(1) 3(1) assms(6) part_chain_fields(2) [OF assms(1,5) 3(2)] by simp
  then show ?thesis by (rule that [OF _ 3(2) _ 2(4-7) fi]) (use 3(4) 2(3) in blast)
qed

text \<open>From one directory into the next.\<close>

lemma walk_down:
  fixes s :: "'a fat_state_scheme"
  assumes "fat_ready img rs spc e s" and "grows D (fat_locals s \<union> fat_pos s) s t" and "loaded_directory (mem t) item dir q its"
    and "directory_blocks item dir q (length its) D" and "part_chain s part (cs # rest)" and "find_name cs its = Some i" and "directory_items img spc e (its ! i) sub"
    and "kheap_cap t (Suc (Suc (blocks_for (of_nat (32 * length sub)) + Suc c)))" and "d = primary_disk s"
  obtains item' dir' q' D' t' where "get_item_loop d item part t = get_item_loop d item' (load32 (mem s) (part_next part)) t'"
    and "grows D' (fat_locals s \<union> fat_pos s) s t'" and "loaded_directory (mem t') item' dir' q' sub" and "directory_blocks item' dir' q' (length sub) D'"
    and "kheap_cap t' (Suc c)"
proof -
  obtain t1 where 1: "grows D (fat_locals s \<union> fat_pos s) s t1" "kheap_cap t1 = kheap_cap t" "loaded_directory (mem t1) item dir q its"
    "get_item_loop d item part t = Option.bind (case find_name cs its of None \<Rightarrow> Some (0, t1) | Some i \<Rightarrow> new_item d (q + of_nat (32 * i)) t1)
      (\<lambda>(tmp, s). Option.bind (item_free item s) (\<lambda>s. get_item_loop d tmp (load32 (mem s) (part_next part)) s))"
    by (rule directory_turn [OF assms(1-5)])
  note g1 = growsD [OF 1(1)] and fp = fat_ready_parts [OF assms(1)]
  have "D \<subseteq> kheap_live t1" using g1(2) by blast
  note en = directory_entry [OF g1(1) 1(3) assms(4) this find_name_less [OF assms(6)]]
  have "fat_locals s \<inter> fat_area s = {}" using fp(5) by blast
  note r1 = fat_ready_grows [OF assms(1) 1(1) this] and l1 = grows_fat(4) [OF 1(1)]
  have cap: "kheap_cap t1 (Suc (Suc (blocks_for (of_nat (32 * length sub)) + Suc c)))" using assms(8) 1(2) by simp
  have fr: "fat_ready img rs spc e t1" by (rule r1(1) [OF kheap_cap_mono [OF cap]]) simp
  obtain item' dir' q' C t2 where 2: "new_item (primary_disk t1) (q + of_nat (32 * i)) t1 = Some (item', t2)" "grows C (fat_locals t1 \<union> fat_pos t1) t1 t2"
    "kheap_cap t2 (Suc c)" "item' \<noteq> 0" "directory_blocks item' dir' q' (length sub) C" "loaded_directory (mem t2) item' dir' q' sub"
    by (rule new_item_directory [OF fr assms(7) en cap])
  obtain t3 where 3: "item_free item t2 = Some t3" "grows C (fat_locals s \<union> fat_pos s) s t3" "same_outside kheap_meta (mem t2) (mem t3)"
    "\<forall>n. kheap_cap t2 n \<longrightarrow> kheap_cap t3 n" by (rule turn_release [OF assms(1) 1(1,3) assms(4) 2(2)]) (use r1(5) l1 in blast)
  have "block_bytes C \<inter> kheap_meta = {}" using growsD(2) [OF 3(2)] by (intro live_bytes(3) [OF growsD(1) [OF 3(2)]]) blast
  from loaded_directory_frame [OF 2(6) 3(3) this 2(5)] have ld: "loaded_directory (mem t3) item' dir' q' sub" .
  have "load32 (mem t3) (part_next part) = load32 (mem s) (part_next part)" by (rule part_chain_fields(2) [OF assms(1,5) 3(2)])
  then have "get_item_loop d item part t = get_item_loop d item' (load32 (mem s) (part_next part)) t3"
    using 1(4) 2(1) 3(1) assms(6,9) r1(6) by simp
  then show ?thesis by (rule that [OF _ 3(2) ld 2(5)]) (use 3(4) 2(3) in blast)
qed

lemma get_item_loop_walks:
  fixes s :: "'a fat_state_scheme"
  assumes "walks img spc e its css bs k" and "fat_ready img rs spc e s" and "d = primary_disk s"
    and "grows D (fat_locals s \<union> fat_pos s) s t" and "loaded_directory (mem t) item dir q its"
    and "directory_blocks item dir q (length its) D" and "part_chain s part css" and "kheap_cap t (k + Suc c)"
  shows "\<exists>it copy j l t'. get_item_loop d item part t = Some (it, t') \<and> grows {(it, j), (copy, l)} (fat_locals s \<union> fat_pos s) s t'
    \<and> kheap_cap t' (Suc c) \<and> 8 \<le> j \<and> 32 \<le> l \<and> it \<noteq> 0 \<and> it \<noteq> copy \<and> file_item (mem t') it copy bs"
  using assms(1,4-8)
proof (induction arbitrary: D t item dir q part rule: walks.induct)
  case (walks_file cs its i)
  obtain it copy j l t' where 1: "get_item_loop d item part t = get_item_loop d it (load32 (mem s) (part_next part)) t'"
    "grows {(it, j), (copy, l)} (fat_locals s \<union> fat_pos s) s t'" "kheap_cap t' (Suc c)" "8 \<le> j" "32 \<le> l" "it \<noteq> 0" "it \<noteq> copy"
    "file_item (mem t') it copy (its ! i)" by (rule walk_to_file [OF assms(2) walks_file(3-6,1,2,7)])
  have "load32 (mem s) (part_next part) = 0" using walks_file(6) by simp
  then have "get_item_loop d item part t = Some (it, t')" using 1(1) by simp
  then show ?case using 1(2-8) by blast
next
  case (walks_directory cs its i sub n rest bs k)
  have cap: "kheap_cap t (Suc (Suc (blocks_for (of_nat (32 * length sub)) + Suc (k + c))))"
    by (rule kheap_cap_mono [OF walks_directory.prems(5)]) simp
  obtain item' dir' q' D' t' where 1: "get_item_loop d item part t = get_item_loop d item' (load32 (mem s) (part_next part)) t'"
    "grows D' (fat_locals s \<union> fat_pos s) s t'" "loaded_directory (mem t') item' dir' q' sub" "directory_blocks item' dir' q' (length sub) D'"
    "kheap_cap t' (Suc (k + c))"
    by (rule walk_down [OF assms(2) walks_directory.prems(1-4) walks_directory.hyps(1,2) cap assms(3)])
  have "part_chain s (load32 (mem s) (part_next part)) (n # rest)" using walks_directory.prems(4) by simp
  moreover have "kheap_cap t' (k + Suc c)" using 1(5) by simp
  ultimately show ?case unfolding 1(1) by (rule walks_directory.IH [OF 1(2-4)])
qed

text \<open>Where the walk breaks off: a name that is not there, or a file where a directory is needed.\<close>

inductive breaks :: "image \<Rightarrow> nat \<Rightarrow> nat \<Rightarrow> u8 list list \<Rightarrow> u8 list list \<Rightarrow> nat \<Rightarrow> bool" for img spc e where
  breaks_missing: "find_name cs its = None \<Longrightarrow> breaks img spc e its (cs # rest) 0"
| breaks_file: "find_name cs its = Some i \<Longrightarrow> \<not> item_is_directory (its ! i) \<Longrightarrow> breaks img spc e its (cs # d # rest) 2"
| breaks_directory: "find_name cs its = Some i \<Longrightarrow> directory_items img spc e (its ! i) sub \<Longrightarrow> breaks img spc e sub (d # rest) k
    \<Longrightarrow> breaks img spc e its (cs # d # rest) (Suc (Suc (blocks_for (of_nat (32 * length sub)) + k)))"

text \<open>A missing name in the middle leaves the loop with a null item, whose type it reads at address 4. What lies there is
  the name of the root directory's first item, as long as the items are at address 0.\<close>

definition null_item_typed :: "'a fat_state_scheme \<Rightarrow> bool" where
  "null_item_typed s \<longleftrightarrow> load32 (mem s) 4 \<noteq> FAT_ITEM_TYPE_DIRECTORY \<and> region 4 4 \<inter> (fat_locals s \<union> fat_area s \<union> heap_private s) = {}"

lemma null_item_grows:
  fixes s :: "'a fat_state_scheme"
  assumes "fat_ready img rs spc e s" and "null_item_typed s" and "grows B (fat_locals s \<union> fat_pos s) s t"
  shows "null_item_typed t"
proof -
  have "region 4 4 \<inter> (fat_locals s \<union> fat_pos s \<union> heap_private s) = {}"
    using assms(2) fat_ready_parts(3) [OF assms(1)] unfolding null_item_typed_def by blast
  from grows_load32 [OF assms(3) this] have "load32 (mem t) 4 = load32 (mem s) 4" .
  moreover have "fat_locals s \<inter> fat_area s = {}" using fat_ready_parts(5) [OF assms(1)] by blast
  note fa = fat_ready_grows(4) [OF assms(1,3) this]
  ultimately show ?thesis using assms(2) growsD(5) [OF assms(3)] unfolding null_item_typed_def fa grows_fat(4) [OF assms(3)] by auto
qed

lemma get_item_loop_null: "null_item_typed s \<Longrightarrow> get_item_loop d 0 part s = Some (0, s)"
  by (subst get_item_loop.simps) (simp add: null_item_typed_def item_type_def)

lemma get_item_loop_at_file: "file_item (mem s) item copy bs \<Longrightarrow> part \<noteq> 0 \<Longrightarrow> get_item_loop d item part s = Some (0, s)"
  by (subst get_item_loop.simps) (simp add: file_item_def kernel_consts)

lemma get_item_loop_breaks:
  fixes s :: "'a fat_state_scheme"
  assumes "breaks img spc e its css k" and "fat_ready img rs spc e s" and "d = primary_disk s" and "null_item_typed s"
    and "grows D (fat_locals s \<union> fat_pos s) s t" and "loaded_directory (mem t) item dir q its"
    and "directory_blocks item dir q (length its) D" and "part_chain s part css" and "kheap_cap t (k + Suc c)"
  shows "\<exists>C t'. get_item_loop d item part t = Some (0, t') \<and> grows C (fat_locals s \<union> fat_pos s) s t' \<and> kheap_cap t' (Suc c)"
  using assms(1,5-9)
proof (induction arbitrary: D t item dir q part rule: breaks.induct)
  case (breaks_missing cs its rest)
  obtain t1 where 1: "grows D (fat_locals s \<union> fat_pos s) s t1" "kheap_cap t1 = kheap_cap t" "loaded_directory (mem t1) item dir q its"
    "get_item_loop d item part t = Option.bind (case find_name cs its of None \<Rightarrow> Some (0, t1) | Some i \<Rightarrow> new_item d (q + of_nat (32 * i)) t1)
      (\<lambda>(tmp, s). Option.bind (item_free item s) (\<lambda>s. get_item_loop d tmp (load32 (mem s) (part_next part)) s))"
    by (rule directory_turn [OF assms(2) breaks_missing(2-5)])
  have "grows {} {} t1 t1" using growsD(1) [OF 1(1)] by simp
  then obtain t2 where 2: "item_free item t1 = Some t2" "grows {} (fat_locals s \<union> fat_pos s) s t2" "\<forall>n. kheap_cap t1 n \<longrightarrow> kheap_cap t2 n"
    using turn_release [OF assms(2) 1(1,3) breaks_missing(4)] by blast
  have "get_item_loop d item part t = Some (0, t2)"
    using 1(4) 2(1) breaks_missing(1) get_item_loop_null [OF null_item_grows [OF assms(2,4) 2(2)]] by simp
  then show ?case using 2(2,3) 1(2) breaks_missing(6) by auto
next
  case (breaks_file cs its i n rest)
  obtain it copy j l t' where 1: "get_item_loop d item part t = get_item_loop d it (load32 (mem s) (part_next part)) t'"
    "grows {(it, j), (copy, l)} (fat_locals s \<union> fat_pos s) s t'" "kheap_cap t' (Suc c)" "file_item (mem t') it copy (its ! i)"
    by (rule walk_to_file [OF assms(2) breaks_file(3-6,1,2,7)])
  have "load32 (mem s) (part_next part) \<noteq> 0" using breaks_file(6) by simp
  then show ?case using 1 get_item_loop_at_file [OF 1(4)] by auto
next
  case (breaks_directory cs its i sub n rest k)
  have cap: "kheap_cap t (Suc (Suc (blocks_for (of_nat (32 * length sub)) + Suc (k + c))))"
    by (rule kheap_cap_mono [OF breaks_directory.prems(5)]) simp
  obtain item' dir' q' D' t' where 1: "get_item_loop d item part t = get_item_loop d item' (load32 (mem s) (part_next part)) t'"
    "grows D' (fat_locals s \<union> fat_pos s) s t'" "loaded_directory (mem t') item' dir' q' sub" "directory_blocks item' dir' q' (length sub) D'"
    "kheap_cap t' (Suc (k + c))"
    by (rule walk_down [OF assms(2) breaks_directory.prems(1-4) breaks_directory.hyps(1,2) cap assms(3)])
  have "part_chain s (load32 (mem s) (part_next part)) (n # rest)" using breaks_directory.prems(4) by simp
  moreover have "kheap_cap t' (k + Suc c)" using 1(5) by simp
  ultimately show ?case unfolding 1(1) by (rule breaks_directory.IH [OF 1(2-4)])
qed

section \<open>Opening a path\<close>

lemma chain_single:
  "part_chain s part (cs # rest) \<Longrightarrow> head_part s part cs" "part_chain s part [cs] \<Longrightarrow> single_part s part cs"
  by (simp_all add: single_first)

text \<open>\<^verbatim>\<open>fat16_open\<close> up to the loop, when the first component selects a directory.\<close>

lemma open_enters_directory:
  fixes s :: "'a fat_state_scheme"
  assumes "fat_ready img rs spc e s" and "root_items s its" and "part_chain s part (cs # rest)" and "find_name cs its = Some i"
    and "directory_items img spc e (its ! i) sub" and "kheap_cap s (Suc (Suc (Suc (blocks_for (of_nat (32 * length sub)) + Suc c))))"
  obtains desc k s2 item dir q D s3 where "8 \<le> k" and "grows {(desc, k)} (fat_locals s \<union> fat_pos s) s s2" and "fat_ready img rs spc e s2"
    and "grows D (fat_locals s2 \<union> fat_pos s2) s2 s3" and "loaded_directory (mem s3) item dir q sub" and "directory_blocks item dir q (length sub) D"
    and "kheap_cap s3 (Suc c)" and "part_chain s2 (load32 (mem s) (part_next part)) rest"
    and "fat_locals s2 \<union> fat_pos s2 = fat_locals s \<union> fat_pos s"
    and "fat16_open (primary_disk s) part FILE_MODE_READ s =
      Option.bind (get_item_loop (primary_disk s) item (load32 (mem s) (part_next part)) s3)
      (\<lambda>(item, s). if item = 0 then Some (- EIO, s\<lparr>mem := store32 (mem s) (item_descriptor_item desc) 0\<rparr>)
        else Some (desc, s\<lparr>mem := store32 (store32 (mem s) (item_descriptor_item desc) item) (item_descriptor_pos desc) 0\<rparr>))"
proof -
  let ?d = "primary_disk s" and ?R = "fat_locals s \<union> fat_pos s" and ?rest = "load32 (mem s) (part_next part)"
  define it where "it = load32 (mem s) (directory_item (private_root_directory (fat_private_of s))) + of_nat (32 * i)"
  obtain desc k s2 where a: "8 \<le> k" "grows {(desc, k)} (fat_locals s) s s2" "kheap_cap s2 (Suc (Suc (blocks_for (of_nat (32 * length sub)) + Suc c)))"
    "fat16_open ?d part FILE_MODE_READ s =
      Option.bind (Option.bind (new_item ?d it s2)
            (\<lambda>(item, s'). if item = 0 then Some (0, s') else get_item_loop ?d item (load32 (mem s') (part_next part)) s'))
      (\<lambda>(item, s). if item = 0 then Some (- EIO, s\<lparr>mem := store32 (mem s) (item_descriptor_item desc) 0\<rparr>)
        else Some (desc, s\<lparr>mem := store32 (store32 (mem s) (item_descriptor_item desc) item) (item_descriptor_pos desc) 0\<rparr>))"
    by (rule open_descriptor [OF assms(1,2) chain_single(1) [OF assms(3)] assms(6)]) (simp add: assms(4) it_def)
  have g2: "grows {(desc, k)} ?R s s2" by (rule grows_mono [OF a(2)]) auto
  have "fat_locals s \<inter> fat_area s = {}" using fat_ready_parts(5) [OF assms(1)] by blast
  note r2 = fat_ready_grows [OF assms(1) g2 this] and l2 = grows_fat(4) [OF g2]
  have fr2: "fat_ready img rs spc e s2" by (rule r2(1) [OF kheap_cap_mono [OF a(3)]]) simp
  obtain item dir q D s3 where n: "new_item (primary_disk s2) it s2 = Some (item, s3)" "grows D (fat_locals s2 \<union> fat_pos s2) s2 s3" "kheap_cap s3 (Suc c)"
    "item \<noteq> 0" "directory_blocks item dir q (length sub) D" "loaded_directory (mem s3) item dir q sub"
    by (rule new_item_directory [OF fr2 assms(5) root_entry [OF assms(2) a(2) find_name_less [OF assms(4)] it_def] a(3)])
  have g3: "grows ({(desc, k)} \<union> D) ?R s s3" by (rule grows_trans [OF g2 n(2)]) (use r2(5) l2 in auto)
  have nx: "load32 (mem s2) (part_next part) = ?rest" "load32 (mem s3) (part_next part) = ?rest"
    by (rule part_chain_fields(2) [OF assms(1,3) g2], rule part_chain_fields(2) [OF assms(1,3) g3])
  have "part_chain s2 part (cs # rest)" by (rule part_chain_frame [OF assms(1) g2 assms(3)])
  then have ch: "part_chain s2 ?rest rest" using nx(1) by simp
  show ?thesis by (rule that [OF a(1) g2 fr2 n(2,6,5,3) ch]) (use r2(5,6) l2 a(4) n(1,4) nx(2) in simp_all)
qed

lemma open_nested:
  fixes s :: "'a fat_state_scheme"
  assumes "fat_ready img rs spc e s" and "root_items s its" and "part_chain s part (cs # n # rest)" and "find_name cs its = Some i"
    and "directory_items img spc e (its ! i) sub" and "walks img spc e sub (n # rest) bs k"
    and "kheap_cap s (Suc (Suc (Suc (blocks_for (of_nat (32 * length sub)) + (k + Suc c)))))"
  shows "\<exists>desc B s'. fat16_open (primary_disk s) part FILE_MODE_READ s = Some (desc, s') \<and> open_file s' desc bs 0 B
    \<and> grows B (fat_locals s \<union> fat_pos s) s s' \<and> kheap_cap s' (Suc c)"
proof -
  let ?R = "fat_locals s \<union> fat_pos s" and ?rest = "load32 (mem s) (part_next part)"
  have cap: "kheap_cap s (Suc (Suc (Suc (blocks_for (of_nat (32 * length sub)) + Suc (k + c)))))" using assms(7) by simp
  obtain desc k1 s2 item dir q D s3 where a: "8 \<le> k1" "grows {(desc, k1)} ?R s s2" "fat_ready img rs spc e s2"
    "grows D (fat_locals s2 \<union> fat_pos s2) s2 s3" "loaded_directory (mem s3) item dir q sub" "directory_blocks item dir q (length sub) D"
    "kheap_cap s3 (Suc (k + c))" "part_chain s2 ?rest (n # rest)" "fat_locals s2 \<union> fat_pos s2 = ?R"
    "fat16_open (primary_disk s) part FILE_MODE_READ s = Option.bind (get_item_loop (primary_disk s) item ?rest s3)
      (\<lambda>(item, s). if item = 0 then Some (- EIO, s\<lparr>mem := store32 (mem s) (item_descriptor_item desc) 0\<rparr>)
        else Some (desc, s\<lparr>mem := store32 (store32 (mem s) (item_descriptor_item desc) item) (item_descriptor_pos desc) 0\<rparr>))"
    by (rule open_enters_directory [OF assms(1-5) cap])
  have d: "primary_disk s = primary_disk s2" using grows_disk(2) [OF a(2)] by simp
  have cap3: "kheap_cap s3 (k + Suc c)" using a(7) by simp
  obtain it copy j l s4 where w: "get_item_loop (primary_disk s) item ?rest s3 = Some (it, s4)" "grows {(it, j), (copy, l)} (fat_locals s2 \<union> fat_pos s2) s2 s4"
    "kheap_cap s4 (Suc c)" "8 \<le> j" "32 \<le> l" "it \<noteq> 0" "it \<noteq> copy" "file_item (mem s4) it copy bs"
    using get_item_loop_walks [OF assms(6) a(3) d a(4-6,8) cap3] by blast
  let ?B = "{(desc, k1), (it, j), (copy, l)}"
  have "grows ({(desc, k1)} \<union> {(it, j), (copy, l)}) ?R s s4" by (rule grows_trans [OF a(2) w(2)]) (use a(9) in auto)
  then have g4: "grows ?B ?R s s4" by (simp add: insert_commute)
  have new: "(desc, k1) \<notin> {(it, j), (copy, l)}" using growsD(2) [OF a(2)] growsD(3) [OF w(2)] by auto
  define s5 where "s5 = s4\<lparr>mem := store32 (store32 (mem s4) (item_descriptor_item desc) it) (item_descriptor_pos desc) 0\<rparr>"
  note o = open_finish [OF assms(1) g4 subset_refl refl new w(7) a(1) w(4,5,8) s5_def]
  have "fat16_open (primary_disk s) part FILE_MODE_READ s = Some (desc, s5)" using w(1,6) unfolding a(10) by (simp add: s5_def)
  then show ?thesis using o w(3) by auto
qed

lemma open_path:
  fixes s :: "'a fat_state_scheme"
  assumes "fat_ready img rs spc e s" and "root_items s its" and "part_chain s part css" and "walks img spc e its css bs k"
    and "kheap_cap s (Suc (k + Suc c))"
  shows "\<exists>desc B s'. fat16_open (primary_disk s) part FILE_MODE_READ s = Some (desc, s') \<and> open_file s' desc bs 0 B
    \<and> grows B (fat_locals s \<union> fat_pos s) s s' \<and> kheap_cap s' (Suc c)"
  using assms(4)
proof cases
  case (walks_file cs i)
  have cap: "kheap_cap s (Suc (Suc (Suc (Suc c))))" using assms(5) walks_file(3) by simp
  have sp: "single_part s part cs" using chain_single(2) assms(3) walks_file(1) by simp
  obtain desc B s' where o: "fat16_open (primary_disk s) part FILE_MODE_READ s = Some (desc, s')" "open_file s' desc (its ! i) 0 B"
    "grows B (fat_locals s) s s'" "kheap_cap s' (Suc c)" using open_found [OF assms(1,2) sp cap walks_file(4,5)] by blast
  have "grows B (fat_locals s \<union> fat_pos s) s s'" by (rule grows_mono [OF o(3)]) auto
  then show ?thesis using o(1,2,4) walks_file(2) by blast
next
  case (walks_directory cs i sub n rest k')
  have ch: "part_chain s part (cs # n # rest)" using assms(3) walks_directory(1) by simp
  have cap: "kheap_cap s (Suc (Suc (Suc (blocks_for (of_nat (32 * length sub)) + (k' + Suc c)))))"
    using assms(5) walks_directory(2) by (simp add: ac_simps)
  show ?thesis by (rule open_nested [OF assms(1,2) ch walks_directory(3-5) cap])
qed

text \<open>A path that breaks off: the descriptor's block stays live, and in the middle of the path a file's item too.\<close>

lemma open_refused:
  fixes s :: "'a fat_state_scheme"
  assumes "grows B R s t" and "(desc, k) \<in> B" and "8 \<le> k"
  defines "t' \<equiv> t\<lparr>mem := store32 (mem t) (item_descriptor_item desc) 0\<rparr>"
  shows "grows B R s t'" and "kheap_cap t' = kheap_cap t"
proof -
  have "region (item_descriptor_item desc) 4 \<subseteq> region desc k" using item_fields_in(3) [of desc] region_mono [OF assms(3), of desc] by blast
  note g = grows_fill [OF assms(1,2) this store32_outside, of 0]
  show "grows B R s t'" "kheap_cap t' = kheap_cap t" using g by (simp_all add: t'_def)
qed

lemma open_at_file:
  fixes s :: "'a fat_state_scheme"
  assumes "fat_ready img rs spc e s" and "root_items s its" and "part_chain s part (cs # n # rest)" and "find_name cs its = Some i"
    and "\<not> item_is_directory (its ! i)" and "kheap_cap s (Suc (Suc (Suc c)))"
  shows "\<exists>B s'. fat16_open (primary_disk s) part FILE_MODE_READ s = Some (- EIO, s') \<and> grows B (fat_locals s \<union> fat_pos s) s s' \<and> B \<noteq> {} \<and> kheap_cap s' c"
proof -
  let ?R = "fat_locals s \<union> fat_pos s"
  define it where "it = load32 (mem s) (directory_item (private_root_directory (fat_private_of s))) + of_nat (32 * i)"
  obtain desc k s2 where a: "8 \<le> k" "grows {(desc, k)} (fat_locals s) s s2" "kheap_cap s2 (Suc (Suc c))"
    "fat16_open (primary_disk s) part FILE_MODE_READ s =
      Option.bind (Option.bind (new_item (primary_disk s) it s2)
            (\<lambda>(item, s'). if item = 0 then Some (0, s') else get_item_loop (primary_disk s) item (load32 (mem s') (part_next part)) s'))
      (\<lambda>(item, s). if item = 0 then Some (- EIO, s\<lparr>mem := store32 (mem s) (item_descriptor_item desc) 0\<rparr>)
        else Some (desc, s\<lparr>mem := store32 (store32 (mem s) (item_descriptor_item desc) item) (item_descriptor_pos desc) 0\<rparr>))"
    by (rule open_descriptor [OF assms(1,2) chain_single(1) [OF assms(3)] assms(6)]) (simp add: assms(4) it_def)
  note re = root_entry [OF assms(2) a(2) find_name_less [OF assms(4)] it_def]
  have nd: "\<not> is_subdirectory (mem s2) it" using assms(5) entry_is_directory [OF re(1)] by simp
  obtain item j copy l s3 where b: "new_item (primary_disk s) it s2 = Some (item, s3)" "grows {(item, j), (copy, l)} {} s2 s3" "kheap_cap s3 c" "item \<noteq> 0"
    "file_item (mem s3) item copy (its ! i)"
    by (rule new_item_file [OF growsD(1) [OF a(2)] a(3) re(2) nd, of "primary_disk s", unfolded re(1)])
  have g2: "grows {(desc, k)} ?R s s2" by (rule grows_mono [OF a(2)]) auto
  have g3: "grows ({(desc, k)} \<union> {(item, j), (copy, l)}) ?R s s3" by (rule grows_trans [OF g2 b(2)]) simp
  have "load32 (mem s) (part_next part) \<noteq> 0" using assms(3) by simp
  then have "load32 (mem s3) (part_next part) \<noteq> 0" using part_chain_fields(2) [OF assms(1,3) g3] by simp
  then have run: "fat16_open (primary_disk s) part FILE_MODE_READ s = Some (- EIO, s3\<lparr>mem := store32 (mem s3) (item_descriptor_item desc) 0\<rparr>)"
    using b(1,4) get_item_loop_at_file [OF b(5)] unfolding a(4) by simp
  have "(desc, k) \<in> {(desc, k)} \<union> {(item, j), (copy, l)}" by simp
  note o = open_refused [OF g3 this a(1)]
  show ?thesis by (intro exI conjI, rule run, rule o(1)) (simp_all add: o(2) b(3))
qed

lemma open_broken:
  fixes s :: "'a fat_state_scheme"
  assumes "fat_ready img rs spc e s" and "root_items s its" and "part_chain s part css" and "breaks img spc e its css k"
    and "0 < k \<Longrightarrow> null_item_typed s" and "kheap_cap s (Suc (k + Suc c))"
  shows "\<exists>B s'. fat16_open (primary_disk s) part FILE_MODE_READ s = Some (- EIO, s') \<and> grows B (fat_locals s \<union> fat_pos s) s s' \<and> B \<noteq> {} \<and> kheap_cap s' (Suc c)"
  using assms(4)
proof cases
  case (breaks_missing cs rest)
  have h: "head_part s part cs" using chain_single(1) assms(3) breaks_missing(1) by blast
  have cap: "kheap_cap s (Suc (Suc c))" using assms(6) breaks_missing(2) by simp
  obtain desc j s' where o: "fat16_open (primary_disk s) part FILE_MODE_READ s = Some (- EIO, s')" "grows {(desc, j)} (fat_locals s) s s'" "kheap_cap s' (Suc c)"
    using open_missing [OF assms(1,2) h cap breaks_missing(3)] by blast
  have "grows {(desc, j)} (fat_locals s \<union> fat_pos s) s s'" by (rule grows_mono [OF o(2)]) auto
  then show ?thesis using o(1,3) by blast
next
  case (breaks_file cs i n rest)
  have ch: "part_chain s part (cs # n # rest)" using assms(3) breaks_file(1) by simp
  have cap: "kheap_cap s (Suc (Suc (Suc (Suc c))))" using assms(6) breaks_file(2) by simp
  show ?thesis by (rule open_at_file [OF assms(1,2) ch breaks_file(3,4) cap])
next
  case (breaks_directory cs i sub n rest k')
  let ?R = "fat_locals s \<union> fat_pos s" and ?rest = "load32 (mem s) (part_next part)"
  have ch: "part_chain s part (cs # n # rest)" using assms(3) breaks_directory(1) by simp
  have cap: "kheap_cap s (Suc (Suc (Suc (blocks_for (of_nat (32 * length sub)) + Suc (k' + c)))))"
    using assms(6) breaks_directory(2) by (simp add: ac_simps)
  obtain desc k1 s2 item dir q D s3 where a: "8 \<le> k1" "grows {(desc, k1)} ?R s s2" "fat_ready img rs spc e s2"
    "grows D (fat_locals s2 \<union> fat_pos s2) s2 s3" "loaded_directory (mem s3) item dir q sub" "directory_blocks item dir q (length sub) D"
    "kheap_cap s3 (Suc (k' + c))" "part_chain s2 ?rest (n # rest)" "fat_locals s2 \<union> fat_pos s2 = ?R"
    "fat16_open (primary_disk s) part FILE_MODE_READ s = Option.bind (get_item_loop (primary_disk s) item ?rest s3)
      (\<lambda>(item, s). if item = 0 then Some (- EIO, s\<lparr>mem := store32 (mem s) (item_descriptor_item desc) 0\<rparr>)
        else Some (desc, s\<lparr>mem := store32 (store32 (mem s) (item_descriptor_item desc) item) (item_descriptor_pos desc) 0\<rparr>))"
    by (rule open_enters_directory [OF assms(1,2) ch breaks_directory(3,4) cap])
  have d: "primary_disk s = primary_disk s2" using grows_disk(2) [OF a(2)] by simp
  have nt: "null_item_typed s" using assms(5) breaks_directory(2) by simp
  have cap3: "kheap_cap s3 (k' + Suc c)" using a(7) by simp
  obtain C s4 where w: "get_item_loop (primary_disk s) item ?rest s3 = Some (0, s4)" "grows C (fat_locals s2 \<union> fat_pos s2) s2 s4" "kheap_cap s4 (Suc c)"
    using get_item_loop_breaks [OF breaks_directory(5) a(3) d null_item_grows [OF assms(1) nt a(2)] a(4-6,8) cap3] by blast
  have g4: "grows ({(desc, k1)} \<union> C) ?R s s4" by (rule grows_trans [OF a(2) w(2)]) (use a(9) in auto)
  have run: "fat16_open (primary_disk s) part FILE_MODE_READ s = Some (- EIO, s4\<lparr>mem := store32 (mem s4) (item_descriptor_item desc) 0\<rparr>)"
    using w(1) unfolding a(10) by simp
  have "(desc, k1) \<in> {(desc, k1)} \<union> C" by simp
  note o = open_refused [OF g4 this a(1)]
  show ?thesis by (intro exI conjI, rule run, rule o(1)) (simp_all add: o(2) w(3))
qed

text \<open>A path that ends at a directory opens it, and nothing closes it again.\<close>

lemma open_directory:
  fixes s :: "'a fat_state_scheme"
  assumes "fat_ready img rs spc e s" and "root_items s its" and "part_chain s part [cs]" and "find_name cs its = Some i"
    and "directory_items img spc e (its ! i) sub" and "kheap_cap s (Suc (Suc (Suc (blocks_for (of_nat (32 * length sub)) + Suc c))))"
  obtains desc B s' where "fat16_open (primary_disk s) part FILE_MODE_READ s = Some (desc, s')" and "grows B (fat_locals s \<union> fat_pos s) s s'" and "B \<noteq> {}"
    and "load32 (mem s') (item_type (load32 (mem s') (item_descriptor_item desc))) = FAT_ITEM_TYPE_DIRECTORY" and "kheap_cap s' (Suc c)"
    and "\<exists>k. (desc, k) \<in> B"
proof -
  let ?R = "fat_locals s \<union> fat_pos s" and ?rest = "load32 (mem s) (part_next part)"
  obtain desc k s2 item dir q D s3 where a: "8 \<le> k" "grows {(desc, k)} ?R s s2" "fat_ready img rs spc e s2"
    "grows D (fat_locals s2 \<union> fat_pos s2) s2 s3" "loaded_directory (mem s3) item dir q sub" "directory_blocks item dir q (length sub) D"
    "kheap_cap s3 (Suc c)" "part_chain s2 ?rest []" "fat_locals s2 \<union> fat_pos s2 = ?R"
    "fat16_open (primary_disk s) part FILE_MODE_READ s = Option.bind (get_item_loop (primary_disk s) item ?rest s3)
      (\<lambda>(item, s). if item = 0 then Some (- EIO, s\<lparr>mem := store32 (mem s) (item_descriptor_item desc) 0\<rparr>)
        else Some (desc, s\<lparr>mem := store32 (store32 (mem s) (item_descriptor_item desc) item) (item_descriptor_pos desc) 0\<rparr>))"
    by (rule open_enters_directory [OF assms])
  have g3: "grows ({(desc, k)} \<union> D) ?R s s3" by (rule grows_trans [OF a(2,4)]) (use a(9) in auto)
  let ?m = "store32 (store32 (mem s3) (item_descriptor_item desc) item) (item_descriptor_pos desc) 0"
  have d8: "region desc 8 \<subseteq> region desc k" by (rule region_mono [OF a(1)])
  have f: "same_outside (region desc 8) (mem s3) ?m"
    by (rule same_outside_mono [OF same_outside_trans [OF store32_outside store32_outside]]) (use item_fields_in(3,4) [of desc] in auto)
  have dB: "(desc, k) \<in> {(desc, k)} \<union> D" by simp
  note g4 = grows_fill [OF g3 dB d8 f]
  have "(desc, k) \<in> kheap_live s2" using growsD(2) [OF a(2)] by simp
  from live_not_private [OF growsD(1) [OF a(2)] this] grows_new_bytes [OF a(4)] d8 have "block_bytes D \<inter> region desc 8 = {}" by blast
  from loaded_directory_frame [OF a(5) f this a(6)] have ld: "loaded_directory ?m item dir q sub" .
  obtain j l w where D: "D = {(item, j), (dir, l), (q, w)}" by (rule directory_blocksE [OF a(6)])
  have "item \<noteq> 0" using live_nonzero [OF growsD(1) [OF g3], of item j] growsD(2) [OF g3] D by simp
  then have run: "fat16_open (primary_disk s) part FILE_MODE_READ s = Some (desc, s3\<lparr>mem := ?m\<rparr>)" using a(8) unfolding a(10) by simp
  have "load32 ?m (item_descriptor_item desc) = item" by (simp add: fat_fields field_other_base)
  then show ?thesis by (intro that [OF run g4(1)]) (use ld g4(2) a(7) in \<open>auto simp: loaded_directory_def\<close>)
qed

lemma heap_pointer_not_error:
  assumes "kheap_inv s" and "(p, k) \<in> kheap_live s"
  shows "\<not> ISERR p"
proof -
  have "p \<in> region p k" using kheap_live_off_meta(2) [OF assms] by (simp add: base_mem_region)
  then have "p \<in> region 0x01000000 (25600 * 4096)" using live_in_heap [OF assms] by blast
  then have "unat p < 2 ^ 31" by (simp add: region_interval)
  then show ?thesis by (simp add: ISERR_def sless_nonneg nonneg_unat)
qed

text \<open>The handle of a directory is of no use: every operation on it is refused and changes nothing, closing too, so what opening
  the directory has allocated is never given back.\<close>

lemma directory_handle_unusable:
  fixes s :: "'a fat_state_scheme"
  assumes "fat_ready img rs spc e s" and "root_items s its" and "part_chain s part [cs]" and "find_name cs its = Some i"
    and "directory_items img spc e (its ! i) sub" and "kheap_cap s (blocks_for (of_nat (32 * length sub)) + 4)"
  shows "\<exists>desc B s'. fat16_open (primary_disk s) part FILE_MODE_READ s = Some (desc, s') \<and> kheap_live s' = kheap_live s \<union> B \<and> B \<inter> kheap_live s = {}
    \<and> B \<noteq> {} \<and> \<not> ISERR desc \<and> fat16_close desc s' = Some (- EINVAL, s')
    \<and> (\<forall>d bs nb out off wh st. fat16_read d desc bs nb out s' = Some (- EINVAL, s') \<and> fat16_seek desc off wh s' = (- EINVAL, s')
      \<and> fat16_stat d desc st s' = (- EINVAL, s'))"
proof -
  have cap: "kheap_cap s (Suc (Suc (Suc (blocks_for (of_nat (32 * length sub)) + Suc 0))))" by (rule kheap_cap_mono [OF assms(6)]) simp
  obtain desc B s' where o: "fat16_open (primary_disk s) part FILE_MODE_READ s = Some (desc, s')" "grows B (fat_locals s \<union> fat_pos s) s s'" "B \<noteq> {}"
    "load32 (mem s') (item_type (load32 (mem s') (item_descriptor_item desc))) = FAT_ITEM_TYPE_DIRECTORY" "\<exists>k. (desc, k) \<in> B"
    by (rule open_directory [OF assms(1-5) cap])
  have "FAT_ITEM_TYPE_DIRECTORY \<noteq> FAT_ITEM_TYPE_FILE" by (simp add: kernel_consts)
  note ops = o(4) this
  have "\<not> ISERR desc" using o(5) heap_pointer_not_error [OF growsD(1) [OF o(2)]] growsD(2) [OF o(2)] by blast
  then show ?thesis using o(1,3) growsD(2,3) [OF o(2)] ops
    by (intro exI [of _ desc] exI [of _ B] exI [of _ s']) (simp add: fat16_close_def fat16_read_def fat16_seek_def fat16_stat_def)
qed

section \<open>A sample directory\<close>

text \<open>The sample volume with a directory at cluster 4 whose one item is the file, a root directory whose one item is that directory
  under the name \<^verbatim>\<open>D\<close>, and the path \<^verbatim>\<open>d/a.c\<close>.\<close>

definition nested_volume :: image where
  "nested_volume i = (if 2560 \<le> i \<and> i < 2592 then sample_item ! (i - 2560) else if i = 2592 then 0 else sample_volume i)"

definition nested_item :: "u8 list" where
  "nested_item = [0x44, 0x20, 0x20, 0x20, 0x20, 0x20, 0x20, 0x20, 0x20, 0x20, 0x20, 0x10] @ replicate 14 0 @ [4, 0, 0, 0, 0, 0]"

definition nested_parts :: "u8 list" where
  "nested_parts = [0x10, 0x60, 0, 0, 0x20, 0x60, 0, 0] @ replicate 8 0 @ [0x64] @ replicate 15 0
     @ [0x28, 0x60, 0, 0, 0, 0, 0, 0, 0x61, 0x2E, 0x63, 0]"

definition sample_nested :: fat_state where
  "sample_nested = sample_fat\<lparr>device := sample_drive nested_volume,
     mem := write_bytes (write_bytes (mem sample_fat) 0 nested_item) 0x6000 nested_parts\<rparr>"

lemma nested_lengths [simp]: "length nested_item = 32" "length nested_parts = 44"
  by (simp_all add: nested_item_def nested_parts_def)

lemma fat_ready_device: "fat_ready img rs spc e s \<Longrightarrow> ata_drive dv img' \<Longrightarrow> fat_ready img' rs spc e (s\<lparr>device := dv\<rparr>)"
  by (simp add: fat_ready_def disk_ready_def fat_private_of_def fat_streams_def fat_stream_def fat_locals_def kheap_inv_def kheap_cap_def kheap_live_def
      list_all_iff)

lemma sample_nested_frame: "same_outside (region 0 32 \<union> region 0x6000 44) (mem sample_fat) (mem sample_nested)"
  using same_outside_trans [OF write_bytes_outside [of 0 nested_item "mem sample_fat"] write_bytes_outside [of "0x6000" nested_parts]]
  by (simp add: sample_nested_def)

lemma sample_nested_ready: "fat_ready nested_volume 1 1 3 sample_nested" "primary_disk sample_nested = 0x300000"
  "fat_private_of sample_nested = 0x01000000" "fat_area sample_nested = fat_area sample_fat" "heap_private sample_nested = heap_private sample_fat"
  "fat_locals sample_nested = fat_locals sample_fat" "k \<le> 25593 \<Longrightarrow> kheap_cap sample_nested k"
proof -
  let ?W = "region 0 32 \<union> region 0x6000 44" and ?s = "sample_fat\<lparr>mem := mem sample_nested\<rparr>"
  have off: "?W \<inter> fat_area sample_fat = {}"
    by (auto simp: fat_area_def sample_fat_streams sample_fat_private sample_fat_fields region_interval)
  have "?W \<inter> kheap_meta = {}" by (auto simp: kheap_meta_def table_region_def region_interval)
  from grows_store(1) [OF sample_fat_heap(1) sample_nested_frame this] have k: "keeps ?W sample_fat ?s" .
  have k': "keeps (?W \<union> fat_pos sample_fat) sample_fat ?s" by (rule grows_mono [OF k]) auto
  note r = fat_ready_keeps [OF sample_fat_ready k' off]
  have e: "sample_nested = ?s\<lparr>device := sample_drive nested_volume\<rparr>" by (simp add: sample_nested_def)
  show "fat_ready nested_volume 1 1 3 sample_nested" by (subst e) (rule fat_ready_device [OF r(1) sample_drive_ok])
  have q: "fat_private_of sample_nested = fat_private_of ?s" "fat_area sample_nested = fat_area ?s" "heap_private sample_nested = heap_private ?s"
    "fat_locals sample_nested = fat_locals sample_fat" "kheap_cap sample_nested = kheap_cap ?s" "primary_disk sample_nested = primary_disk sample_fat"
    by (simp_all add: sample_nested_def fat_private_of_def fat_area_def fat_streams_def heap_private_def kheap_live_def fat_locals_def kheap_cap_def fun_eq_iff)
  show "primary_disk sample_nested = 0x300000" "fat_private_of sample_nested = 0x01000000" "fat_area sample_nested = fat_area sample_fat"
    "heap_private sample_nested = heap_private sample_fat" "fat_locals sample_nested = fat_locals sample_fat"
    using q r sample_fat_private sample_fat_fields(2) by simp_all
  show "kheap_cap sample_nested k" if "k \<le> 25593" unfolding q(5) using keepsD(3) [OF k sample_fat_heap(1)] sample_fat_heap(3) [of k] that by simp
qed

lemma sample_nested_bytes:
  "load_bytes (mem sample_nested) 0 32 = nested_item" "load_bytes (mem sample_nested) 0x6000 44 = nested_parts"
proof -
  have "region 0 32 \<inter> region 0x6000 (length nested_parts) = {}" by (auto simp: region_interval)
  from load_bytes_frame [OF write_bytes_outside this] load_write_bytes [of nested_item "mem sample_fat" 0]
  show "load_bytes (mem sample_nested) 0 32 = nested_item" by (simp add: sample_nested_def)
  show "load_bytes (mem sample_nested) 0x6000 44 = nested_parts"
    using load_write_bytes [of nested_parts _ "0x6000"] by (simp add: sample_nested_def)
qed

lemma sample_nested_items: "root_items sample_nested [nested_item]" "null_item_typed sample_nested"
proof -
  have "load32 (mem sample_nested) a = load32 (mem sample_fat) a" if "a = 0x01000040 \<or> a = 0x01000044" for a
    using that by (intro load32_frame [OF sample_nested_frame]) (auto simp: region_interval)
  moreover have "load32 (mem sample_fat) 0x01000040 = 0" "load32 (mem sample_fat) 0x01000044 = 1"
    by (simp_all add: sample_fat_word) (simp_all add: fat_mem_def load32_def)
  moreover have o: "region 0 32 \<inter> (heap_private sample_fat \<union> fat_locals sample_fat) = {}"
    by (auto simp: heap_private_def heap_area_def kheap_meta_def table_region_def fat_locals_def sample_fat_fields region_interval)
  ultimately show "root_items sample_nested [nested_item]" using sample_nested_bytes(1)
    by (simp add: root_items_def sample_nested_ready fat_fields dir_items_def)
  have "mem sample_nested (of_nat i) = nested_item ! i" if "i < 32" for i
    using arg_cong [OF sample_nested_bytes(1), of "\<lambda>xs. xs ! i"] that by simp
  from this [of 4] this [of 5] this [of 6] this [of 7] have "load32 (mem sample_nested) 4 = 0x20202020"
    by (simp add: load32_def nested_item_def)
  moreover have "fat_area sample_fat \<subseteq> heap_area \<union> region 0x300000 20"
    by (auto simp: fat_area_def sample_fat_streams sample_fat_private sample_fat_fields heap_area_def region_interval)
  moreover have "region 4 4 \<inter> (heap_area \<union> region 0x300000 20) = {}" by (auto simp: heap_area_def region_interval)
  moreover have "region 4 4 \<subseteq> (region 0 32 :: u32 set)" using region_shift [of 4 4 32 0] by simp
  ultimately show "null_item_typed sample_nested" using o
    unfolding null_item_typed_def sample_nested_ready FAT_ITEM_TYPE_DIRECTORY_def by auto
qed

lemma sample_nested_chain: "part_chain sample_nested 0x6000 [[0x64], [0x61, 0x2E, 0x63]]"
proof -
  have b: "mem sample_nested (0x6000 + of_nat i) = nested_parts ! i" if "i < 44" for i
    using arg_cong [OF sample_nested_bytes(2), of "\<lambda>xs. xs ! i"] that by simp
  have w: "load32 (mem sample_nested) 0x6000 = 0x6010" "load32 (mem sample_nested) 0x6004 = 0x6020"
    "load32 (mem sample_nested) 0x6020 = 0x6028" "load32 (mem sample_nested) 0x6024 = 0"
    using b [of 0] b [of 1] b [of 2] b [of 3] b [of 4] b [of 5] b [of 6] b [of 7] b [of 32] b [of 33] b [of 34] b [of 35] b [of 36] b [of 37] b [of 38] b [of 39]
    by (simp_all add: load32_def nested_parts_def nth_append)
  have c: "cstring (mem sample_nested) 0x6010 [0x64]" "cstring (mem sample_nested) 0x6028 [0x61, 0x2E, 0x63]"
    using b [of 16] b [of 17] b [of 40] b [of 41] b [of 42] b [of 43] by (simp_all add: cstring_Cons cstring_Nil nested_parts_def nth_append)
  have "region 0x6000 44 \<inter> (heap_private sample_fat \<union> fat_locals sample_fat) = {}"
    by (auto simp: heap_private_def heap_area_def kheap_meta_def table_region_def fat_locals_def sample_fat_fields region_interval)
  moreover have "region 0x6000 44 \<inter> fat_area sample_fat = {}"
    by (auto simp: fat_area_def sample_fat_streams sample_fat_private sample_fat_fields region_interval)
  ultimately have o: "region 0x6000 44 \<inter> (heap_private sample_nested \<union> fat_locals sample_nested \<union> fat_area sample_nested) = {}"
    unfolding sample_nested_ready by blast
  have "region 0x6000 8 \<subseteq> (region 0x6000 44 :: u32 set)" "region 0x6010 2 \<subseteq> (region 0x6000 44 :: u32 set)" "region 0x6020 8 \<subseteq> (region 0x6000 44 :: u32 set)"
    "region 0x6028 4 \<subseteq> (region 0x6000 44 :: u32 set)" by (auto simp: region_interval)
  then have "x \<inter> (heap_private sample_nested \<union> fat_locals sample_nested \<union> fat_area sample_nested) = {}"
    if "x = region 0x6000 8 \<or> x = region 0x6010 2 \<or> x = region 0x6020 8 \<or> x = region 0x6028 4" for x using that o by blast
  note o' = this [of "region 0x6000 8"] this [of "region 0x6010 2"] this [of "region 0x6020 8"] this [of "region 0x6028 4"]
  show ?thesis using w c o' by (simp add: head_part_def path_fields numeral_2_eq_2 [symmetric] Int_Un_distrib Int_Un_distrib2)
qed

lemma sample_nested_walk: "walks nested_volume 1 3 [nested_item] [[0x64], [0x61, 0x2E, 0x63]] sample_item 5"
proof -
  have n: "find_name [0x64] [nested_item] = Some 0" "item_is_directory nested_item" "item_cluster nested_item = 4"
    by (simp_all add: nested_item_def fat_name_def name_matches_def tolower_def char_to_int_def word_sle_eq item_is_directory_def
        kernel_consts item_cluster_def le16_def nth_append)
  have d: "data_pos 1 3 4 0 = 2560" "cluster_bytes 1 = 512" by (simp_all add: data_pos_def cluster_bytes_def)
  have i: "disk_bytes nested_volume 2560 32 = sample_item" by (rule nth_equalityI) (simp_all add: nested_volume_def)
  have "nested_volume 2560 = 0x41" "nested_volume 2592 = 0" by (simp_all add: nested_volume_def sample_item_def)
  then have "dir_ends nested_volume 2560 (Suc 0)" "dir_count nested_volume 2560 (Suc 0) = Suc 0" by (simp_all add: dir_ends_def)
  then have "directory_items nested_volume 1 3 ([nested_item] ! 0) [sample_item]"
    unfolding directory_items_def Let_def using n(2,3) d i by (auto intro!: exI [of _ "Suc 0"])
  from walks_directory [OF n(1) this walks_file [OF sample_found(1)]] have "walks nested_volume 1 3 [nested_item] [[0x64], [0x61, 0x2E, 0x63]] sample_item (Suc (Suc (1 + 2)))"
    using sample_found(2) by (simp add: blocks_for_small)
  moreover have "Suc (Suc (1 + 2)) = (5 :: nat)" by simp
  ultimately show ?thesis by (simp only:)
qed

section \<open>Properties\<close>

text \<open>C14: opening a path follows it through the directories of the disk, from the root directory in memory on. When every name
  but the last selects a directory and the last one a file, the result is a new open file at position 0 with that
  file's directory item; every directory loaded on the way has been given back, only the three blocks of the open file are
  new. When a name is not there, or a file stands where a directory is needed, the result is \<^verbatim>\<open>-EIO\<close>, and blocks
  allocated on the way stay live for ever. Names are looked up by \<^verbatim>\<open>strcasecmp\<close> against the 8.3 names, the first one that it takes
  for equal is selected.\<close>

theorem fat16_open_follows_path:
  fixes s :: "'a fat_state_scheme"
  assumes "fat_ready img rs spc e s" and "root_items s its" and "part_chain s part css" and "kheap_cap s (k + 2)"
  shows "(\<forall>bs. walks img spc e its css bs k \<longrightarrow>
      (\<exists>desc B s'. fat16_open (primary_disk s) part FILE_MODE_READ s = Some (desc, s') \<and> open_file s' desc bs 0 B
        \<and> kheap_live s' = kheap_live s \<union> B \<and> B \<inter> kheap_live s = {} \<and> fat_ready img rs spc e s'
        \<and> same_outside (fat_locals s \<union> fat_pos s \<union> heap_private s) (mem s) (mem s')))
    \<and> (breaks img spc e its css k \<and> (0 < k \<longrightarrow> null_item_typed s) \<longrightarrow>
      (\<exists>B s'. fat16_open (primary_disk s) part FILE_MODE_READ s = Some (- EIO, s')
        \<and> kheap_live s' = kheap_live s \<union> B \<and> B \<inter> kheap_live s = {} \<and> B \<noteq> {}
        \<and> same_outside (fat_locals s \<union> fat_pos s \<union> heap_private s) (mem s) (mem s')))"
proof (intro conjI allI impI)
  fix bs assume w: "walks img spc e its css bs k"
  have cap: "kheap_cap s (Suc (k + Suc 0))" using assms(4) by simp
  obtain desc B s' where o: "fat16_open (primary_disk s) part FILE_MODE_READ s = Some (desc, s')" "open_file s' desc bs 0 B"
    "grows B (fat_locals s \<union> fat_pos s) s s'" "kheap_cap s' (Suc 0)" using open_path [OF assms(1-3) w cap] by blast
  have "fat_locals s \<inter> fat_area s = {}" using fat_ready_parts(5) [OF assms(1)] by blast
  from fat_ready_grows(1) [OF assms(1) o(3) this] have "fat_ready img rs spc e s'" using o(4) by simp
  with o(1,2) growsD(2-4) [OF o(3)] show "\<exists>desc B s'. fat16_open (primary_disk s) part FILE_MODE_READ s = Some (desc, s') \<and> open_file s' desc bs 0 B
        \<and> kheap_live s' = kheap_live s \<union> B \<and> B \<inter> kheap_live s = {} \<and> fat_ready img rs spc e s'
        \<and> same_outside (fat_locals s \<union> fat_pos s \<union> heap_private s) (mem s) (mem s')" by blast
next
  assume b: "breaks img spc e its css k \<and> (0 < k \<longrightarrow> null_item_typed s)"
  show "\<exists>B s'. fat16_open (primary_disk s) part FILE_MODE_READ s = Some (- EIO, s')
        \<and> kheap_live s' = kheap_live s \<union> B \<and> B \<inter> kheap_live s = {} \<and> B \<noteq> {}
        \<and> same_outside (fat_locals s \<union> fat_pos s \<union> heap_private s) (mem s) (mem s')"
  proof -
    have cap: "kheap_cap s (Suc (k + Suc 0))" using assms(4) by simp
    obtain B s' where o: "fat16_open (primary_disk s) part FILE_MODE_READ s = Some (- EIO, s')" "grows B (fat_locals s \<union> fat_pos s) s s'" "B \<noteq> {}"
      using open_broken [OF assms(1-3) _ _ cap] b by blast
    then show ?thesis using growsD(2-4) [OF o(2)] by blast
  qed
qed

theorem fat16_open_follows_path_witness:
  "\<exists>desc B s'. fat16_open 0x300000 0x6000 FILE_MODE_READ sample_nested = Some (desc, s') \<and> open_file s' desc sample_item 0 B
    \<and> kheap_live s' = kheap_live sample_nested \<union> B"
  using fat16_open_follows_path [OF sample_nested_ready(1) sample_nested_items(1) sample_nested_chain sample_nested_ready(7), of 5]
    sample_nested_walk sample_nested_ready(2) by fastforce

text \<open>C13: a whole session with a file at the end of a path. Opening the file, moving to position \<open>x\<close>, reading \<open>n\<close> bytes and
  closing it all succeed; what is read are the bytes of the file's chain from \<open>x\<close> up to the
  end of the cluster \<open>x\<close> lies in and then, when more are asked for, the bytes that come next on the disk (not in
  the file), at most a cluster's length in all, the size of the file not consulted; after closing the same blocks are live as before, the driver is
  ready for the next file, and nothing in use has changed but the output buffer and the driver's locals
  and stream positions.\<close>

theorem path_session:
  fixes s :: "'a fat_state_scheme"
  assumes "fat_ready img rs spc e s" and "root_items s its" and "part_chain s part css" and "walks img spc e its css bs w"
    and "kheap_cap s (w + 2)" and "x < 2 ^ 31"
    and "follow img rs (item_cluster bs) (x div cluster_bytes spc) = Some c" and "2 \<le> c" and "data_pos spc e c x + cluster_bytes spc < 2 ^ 31"
    and "0 < n" and "n < 2 ^ 31" and k: "k = min n (cluster_bytes spc)"
    and out: "region out k \<inter> (heap_private s \<union> fat_area s \<union> fat_locals s) = {}"
  shows "\<exists>desc s1 s2 s3 s4. fat16_open (primary_disk s) part FILE_MODE_READ s = Some (desc, s1)
    \<and> fat16_seek desc (of_nat x) SEEK_SET s1 = (0, s2)
    \<and> fat16_read (primary_disk s) desc (of_nat n) 1 out s2 = Some (0, s3)
    \<and> load_bytes (mem s3) out k = disk_bytes img (data_pos spc e c x) k
    \<and> (\<forall>i < k. x mod cluster_bytes spc + i < cluster_bytes spc \<longrightarrow>
        chain_byte img rs spc e (item_cluster bs) (x + i) = Some (load_bytes (mem s3) out k ! i))
    \<and> fat16_close desc s3 = Some (0, s4) \<and> load_bytes (mem s4) out k = load_bytes (mem s3) out k
    \<and> kheap_live s4 = kheap_live s \<and> fat_ready img rs spc e s4
    \<and> same_outside (region out k \<union> fat_locals s \<union> fat_pos s \<union> heap_private s) (mem s) (mem s4)"
proof -
  note fp = fat_ready_parts [OF assms(1)]
  have cap: "kheap_cap s (Suc (w + Suc 0))" using assms(5) by simp
  obtain desc B s1 where o: "fat16_open (primary_disk s) part FILE_MODE_READ s = Some (desc, s1)" "open_file s1 desc bs 0 B"
    "grows B (fat_locals s \<union> fat_pos s) s s1" "kheap_cap s1 1" using open_path [OF assms(1-4) cap] by auto
  have new: "block_bytes B \<subseteq> heap_private s" by (rule grows_new_bytes [OF o(3)])
  let ?R = "region out k \<union> fat_locals s \<union> fat_pos s"
  have R: "(region out k \<union> fat_locals s) \<inter> fat_area s = {}" using fp(5) out by blast
  have g1: "grows B ?R s s1" by (rule grows_mono [OF o(3)]) auto
  note r1 = fat_ready_grows [OF assms(1) g1 R] and l1 = grows_fat(4) [OF g1]
  obtain s2 where s2: "fat16_seek desc (of_nat x) SEEK_SET s1 = (0, s2)" "keeps (block_bytes B) s1 s2" "open_file s2 desc bs x B"
    using seek_open_file [OF r1(1) [OF o(4)] o(2)] by blast
  have g2: "grows B ?R s s2" using grows_trans [OF g1 s2(2)] new by auto
  note r2 = fat_ready_grows(1) [OF assms(1) g2 R keepsD(3) [OF s2(2) growsD(1) [OF g1] o(4)]]
  note l2 = grows_fat(4) [OF g2] and p2 = fat_ready_grows(2-) [OF assms(1) g2 R]
  have "region out k \<inter> (heap_private s2 \<union> fat_area s2 \<union> fat_locals s2 \<union> block_bytes B) = {}"
    using out growsD(5) [OF g2] new l2 p2(3) by blast
  then obtain s3 where s3: "fat16_read (primary_disk s2) desc (of_nat n) 1 out s2 = Some (0, s3)"
    "load_bytes (mem s3) out k = disk_bytes img (data_pos spc e c x) k" "keeps (region out k \<union> fat_locals s2 \<union> fat_pos s2) s2 s3"
    "open_file s3 desc bs x B"
    using read_open_file [OF r2 s2(3) assms(6-9) _ assms(10,11) k, of "of_nat n" 1 out] by auto
  have g3: "grows B ?R s s3" using grows_trans [OF g2 s3(3)] l2 p2(4) by auto
  note g3D = growsD [OF g3]
  obtain s4 where s4: "fat16_close desc s3 = Some (0, s4)" "s4 = s3\<lparr>mem := mem s4\<rparr>" "kheap_inv s4" "kheap_live s4 = kheap_live s3 - B"
    "same_outside kheap_meta (mem s3) (mem s4)" using close_open_file [OF g3D(1) s3(4)] by blast
  note g4 = grows_shrink [OF g3 s4(2-5)]
  have "region out k \<inter> kheap_meta = {}" using out by (auto simp: heap_private_def)
  then have kept: "load_bytes (mem s4) out k = load_bytes (mem s3) out k"
    using k cluster_size(3) [OF assms(1)] by (intro load_bytes_frame [OF s4(5)]) auto
  have chain: "\<forall>i < k. x mod cluster_bytes spc + i < cluster_bytes spc \<longrightarrow>
      chain_byte img rs spc e (item_cluster bs) (x + i) = Some (load_bytes (mem s3) out k ! i)"
    unfolding s3(2) using chain_byte_disk [OF assms(7)] by blast
  have rd: "fat16_read (primary_disk s) desc (of_nat n) 1 out s2 = Some (0, s3)" using s3(1) p2(5) by simp
  have rdy: "fat_ready img rs spc e s4" by (rule fat_ready_keeps(1) [OF assms(1) g4 R])
  show ?thesis
    by (rule exI [of _ desc], rule exI [of _ s1], rule exI [of _ s2], rule exI [of _ s3], rule exI [of _ s4])
      (intro conjI o(1) s2(1) rd s3(2) chain s4(1) kept keepsD(1) [OF g4] rdy growsD(4) [OF g4])
qed

theorem path_session_witness:
  "\<exists>desc s1 s2 s3 s4. fat16_open 0x300000 0x6000 FILE_MODE_READ sample_nested = Some (desc, s1)
    \<and> fat16_seek desc 512 SEEK_SET s1 = (0, s2) \<and> fat16_read 0x300000 desc 4 1 0x5000 s2 = Some (0, s3)
    \<and> load_bytes (mem s3) 0x5000 4 = [4, 4, 4, 4] \<and> fat16_close desc s3 = Some (0, s4) \<and> kheap_live s4 = kheap_live sample_nested"
proof -
  have f: "follow nested_volume 1 (item_cluster sample_item) (512 div cluster_bytes 1) = Some 3"
    by (simp add: sample_found(3) [simplified] cluster_bytes_def fat_entry_at_def le16_def sample_volume_def nested_volume_def)
  have d: "data_pos 1 3 3 512 = 2048" "disk_bytes nested_volume 2048 4 = [4, 4, 4, 4]"
    by (simp_all add: data_pos_def cluster_bytes_def disk_bytes_def sample_volume_def nested_volume_def upt_rec)
  have o: "region 0x5000 4 \<inter> (heap_private sample_nested \<union> fat_area sample_nested \<union> fat_locals sample_nested) = {}"
    using sample_output [of 4] by (simp add: sample_nested_ready)
  have k: "4 = min 4 (cluster_bytes 1)" and cap: "kheap_cap sample_nested (5 + 2)" by (simp_all add: cluster_bytes_def sample_nested_ready(7))
  from path_session [OF sample_nested_ready(1) sample_nested_items(1) sample_nested_chain sample_nested_walk cap _ f _ _ _ _ k o]
  show ?thesis using d by (auto simp: sample_nested_ready(2) cluster_bytes_def)
qed

end
