(* ===== verification/File_Session.thy ===== *)
theory File_Session
  imports File_Correct Fat16_Mount Fat16_Path
begin

text \<open>
  Files through the virtual file system, from \<^verbatim>\<open>fopen\<close> to \<^verbatim>\<open>fclose\<close>: the descriptor table of \<^verbatim>\<open>file.cpp\<close>, the calls
  through the function pointers of the registered driver, and the FAT16 driver behind them. \<open>vfs_ready\<close> is the
  invariant of the whole; \<open>open_fd\<close> an open file by its number. What a service of open files promises is the locale
  \<open>file_service\<close>; the driver and the file system above it are two instances of it.
\<close>

section \<open>The file system with its disk mounted\<close>

definition root_area :: "'a fat_state_scheme \<Rightarrow> u8 list list \<Rightarrow> u32 set" where
  "root_area s its = region (load32 (mem s) (directory_item (private_root_directory (fat_private_of s)))) (32 * length its)"

text \<open>The kernel's globals that the file system reads: the driver's function pointers and the literal \<^verbatim>\<open>"r"\<close>.\<close>

definition vfs_globals :: "'a file_state_scheme \<Rightarrow> u32 set" where
  "vfs_globals s = region (fat16_fs s) 24 \<union> region (literal_r s) 2"

definition vfs_ready :: "image \<Rightarrow> nat \<Rightarrow> nat \<Rightarrow> nat \<Rightarrow> u8 list list \<Rightarrow> 'a file_state_scheme \<Rightarrow> bool" where
  "vfs_ready img rs spc e its s \<longleftrightarrow> fat_ready img rs spc e s \<and> root_items s its \<and> fat16_fs_initialised s
     \<and> load32 (mem s) (disk_fs (primary_disk s)) = fat16_fs s \<and> fat16_fs s \<noteq> 0 \<and> primary_disk s \<noteq> 0
     \<and> cstring (mem s) (literal_r s) [0x72]
     \<and> (vfs_globals s \<union> fd_region s \<union> root_area s its) \<inter> (kheap_meta \<union> heap_area \<union> fat_locals s \<union> region (primary_disk s) 20) = {}
     \<and> fd_region s \<inter> (vfs_globals s \<union> root_area s its) = {}"

lemma vfs_readyD:
  assumes "vfs_ready img rs spc e its s"
  shows "fat_ready img rs spc e s" and "root_items s its" and "fat16_fs_initialised s"
    and "load32 (mem s) (disk_fs (primary_disk s)) = fat16_fs s" and "fat16_fs s \<noteq> 0" and "primary_disk s \<noteq> 0"
    and "cstring (mem s) (literal_r s) [0x72]"
    and "(vfs_globals s \<union> fd_region s \<union> root_area s its) \<inter> (kheap_meta \<union> heap_area \<union> fat_locals s \<union> region (primary_disk s) 20) = {}"
    and "fd_region s \<inter> (vfs_globals s \<union> root_area s its) = {}"
  using assms by (simp_all add: vfs_ready_def)

lemma vfs_ready_apart:
  fixes s :: "'a file_state_scheme"
  assumes "vfs_ready img rs spc e its s"
  shows "(vfs_globals s \<union> fd_region s \<union> root_area s its) \<inter> (heap_private s \<union> fat_area s \<union> fat_locals s) = {}"
proof -
  note v = vfs_readyD [OF assms] and fp = fat_ready_parts [OF vfs_readyD(1) [OF assms]]
  have "heap_private s \<subseteq> kheap_meta \<union> heap_area" by (auto simp: heap_private_def)
  then show ?thesis using v(8) fp(7) by blast
qed

lemma fs_fields_in: "region (fs_open f) 4 \<subseteq> region f 24" "region (fs_read f) 4 \<subseteq> region f 24" "region (fs_seek f) 4 \<subseteq> region f 24"
  "region (fs_stat f) 4 \<subseteq> region f 24" "region (fs_close f) 4 \<subseteq> region f 24" "region (fs_resolve f) 4 \<subseteq> region f 24"
  using region_mono [of 4 24 f] region_shift [of 4 4 24 f] region_shift [of 8 4 24 f] region_shift [of 12 4 24 f] region_shift [of 16 4 24 f]
    region_shift [of 20 4 24 f] by (simp_all add: file_fields)

text \<open>The addresses of the globals, the locals and the functions, which no operation changes, and the drive.\<close>

definition same_globals :: "'a file_state_scheme \<Rightarrow> 'a file_state_scheme \<Rightarrow> bool" where
  "same_globals s s' \<longleftrightarrow> device s' = device s \<and> primary_disk s' = primary_disk s \<and> filesystems s' = filesystems s
     \<and> file_descriptors s' = file_descriptors s \<and> fat16_fs s' = fat16_fs s \<and> fat16_literal s' = fat16_literal s \<and> literal_r s' = literal_r s
     \<and> item_local s' = item_local s \<and> fat_entry_local s' = fat_entry_local s \<and> filename_local s' = filename_local s
     \<and> fat16_open_address s' = fat16_open_address s \<and> fat16_read_address s' = fat16_read_address s
     \<and> fat16_seek_address s' = fat16_seek_address s \<and> fat16_stat_address s' = fat16_stat_address s
     \<and> fat16_close_address s' = fat16_close_address s \<and> fat16_resolve_address s' = fat16_resolve_address s"

lemma file_state_fields:
  fixes s :: "'a file_state_scheme"
  assumes "same_globals s s'"
  shows "fat16_fs s' = fat16_fs s" and "literal_r s' = literal_r s" and "file_descriptors s' = file_descriptors s"
    and "fat16_open_address s' = fat16_open_address s" and "fat16_read_address s' = fat16_read_address s"
    and "fat16_seek_address s' = fat16_seek_address s" and "fat16_stat_address s' = fat16_stat_address s"
    and "fat16_close_address s' = fat16_close_address s" and "fat16_resolve_address s' = fat16_resolve_address s"
    and "primary_disk s' = primary_disk s" and "device s' = device s" and "fat_locals s' = fat_locals s"
    and "fd_region s' = fd_region s" and "vfs_globals s' = vfs_globals s"
  using assms by (simp_all add: same_globals_def fat_locals_def fd_region_def vfs_globals_def)

lemma same_globalsI: "s' = s\<lparr>io_log := l, mem := m\<rparr> \<Longrightarrow> same_globals s s'"
  by (simp add: same_globals_def)

lemma grows_state: "grows B R s s' \<Longrightarrow> same_globals s s'"
  using same_globalsI unfolding grows_def by blast

lemma initialised_frame:
  fixes s :: "'a file_state_scheme"
  assumes "fat16_fs_initialised s" and "same_outside X (mem s) (mem s')" and "X \<inter> region (fat16_fs s) 24 = {}"
    and e: "same_globals s s'"
  shows "fat16_fs_initialised s'"
proof -
  have "load32 (mem s') a = load32 (mem s) a" if "region a 4 \<subseteq> region (fat16_fs s) 24" for a
    using that assms(3) by (intro load32_frame [OF assms(2)]) blast
  then show ?thesis using assms(1) fs_fields_in [of "fat16_fs s"] unfolding fat16_fs_initialised_def file_state_fields [OF e] by simp
qed

lemma root_items_frame:
  fixes s :: "'a fat_state_scheme"
  assumes "root_items s its" and f: "same_outside X (mem s) (mem s')" and "X \<inter> (region (fat_private_of s) 92 \<union> root_area s its) = {}"
    and "fat_private_of s' = fat_private_of s" and "fat_locals s' = fat_locals s"
    and "root_area s its \<inter> (heap_private s' \<union> fat_locals s) = {}"
  shows "root_items s' its" and "root_area s' its = root_area s its"
proof -
  let ?r = "private_root_directory (fat_private_of s)" and ?n = "length its"
  have "region (directory_total ?r) 4 \<subseteq> region ?r 16" "region (directory_item ?r) 4 \<subseteq> region ?r 16"
    using region_shift [of 4 4 16 ?r] region_mono [of 4 16 ?r] by (simp_all add: fat_fields)
  then have "region (directory_total ?r) 4 \<inter> X = {}" "region (directory_item ?r) 4 \<inter> X = {}"
    using root_directory_in [of "fat_private_of s"] assms(3) by blast+
  note ld = load32_frame [OF f this(1)] load32_frame [OF f this(2)]
  have ri: "load32 (mem s) (directory_total ?r) = of_nat ?n" "?n < 2 ^ 26" "dir_items (mem s) (load32 (mem s) (directory_item ?r)) ?n = its"
    using assms(1) by (simp_all add: root_items_def Let_def)
  have "region (load32 (mem s) (directory_item ?r)) (32 * ?n) \<inter> X = {}" using assms(3) by (auto simp: root_area_def)
  from dir_items_frame [OF f this ri(2)] show "root_items s' its"
    using ri assms(6) unfolding root_items_def Let_def assms(4,5) ld root_area_def by simp
  show "root_area s' its = root_area s its" by (simp add: root_area_def assms(4) ld(2))
qed

text \<open>What leaves the driver's memory, the globals and the items of the root directory alone keeps the file system ready.\<close>

lemma vfs_ready_frame:
  fixes s :: "'a file_state_scheme"
  assumes "vfs_ready img rs spc e its s" and f: "same_outside (R \<union> fat_pos s \<union> heap_private s) (mem s) (mem s')"
    and R: "R \<inter> (fat_area s \<union> vfs_globals s \<union> root_area s its) = {}" and i: "kheap_inv s'"
    and live: "\<forall>(x, k) \<in> kheap_live s. x \<in> set (fat_private_of s # fat_streams s) \<longrightarrow> (x, k) \<in> kheap_live s'"
    and st: "same_globals s s'" and "kheap_cap s' 1"
  shows "vfs_ready img rs spc e its s'" and "fat_area s' = fat_area s" and "fat_pos s' = fat_pos s" and "root_area s' its = root_area s its"
proof -
  note v = vfs_readyD [OF assms(1)] and fp = fat_ready_parts [OF vfs_readyD(1) [OF assms(1)]] and ap = vfs_ready_apart [OF assms(1)]
  note e = file_state_fields [OF st]
  let ?X = "R \<union> fat_pos s \<union> heap_private s"
  have pa: "region (fat_private_of s) 92 \<subseteq> fat_area s" "region (primary_disk s) 20 \<subseteq> fat_area s" by (auto simp: fat_area_def)
  have "region (stream_d x) 4 \<inter> ?X = {}" if x: "x \<in> set (fat_streams s)" for x
    using fp(2) R fp(6) [OF x] stream_fields_in(2) [of x] x unfolding fat_area_def by blast
  moreover have "(region (primary_disk s) 20 \<union> region (fat_private_of s) 92) \<inter> ?X = {}"
    using fp(2,4) R pa by blast
  ultimately have X: "?X \<inter> (region (primary_disk s) 20 \<union> region (fat_private_of s) 92 \<union> (\<Union>st \<in> set (fat_streams s). region (stream_d st) 4)) = {}"
    by blast
  note fr = fat_ready_frame [OF v(1) f X i live e(10-12)]
  show fa: "fat_area s' = fat_area s" "fat_pos s' = fat_pos s" by (rule fr(4), rule fr(5))
  have gl: "?X \<inter> (vfs_globals s \<union> root_area s its) = {}" using R ap fp(3) by blast
  have pr: "heap_private s' \<subseteq> kheap_meta \<union> heap_area" by (auto simp: heap_private_def)
  have "root_area s its \<inter> (heap_private s' \<union> fat_locals s) = {}" using v(8) pr by blast
  moreover have "?X \<inter> (region (fat_private_of s) 92 \<union> root_area s its) = {}" using X gl by blast
  ultimately have ri: "root_items s' its" "root_area s' its = root_area s its"
    using root_items_frame [OF v(2) f _ fr(2) e(12)] by blast+
  show "root_area s' its = root_area s its" by (rule ri(2))
  have "load32 (mem s') (disk_fs (primary_disk s)) = load32 (mem s) (disk_fs (primary_disk s))"
    using disk_fields_in(3) [of "primary_disk s"] X by (intro load32_frame [OF f]) blast
  moreover have "fat16_fs_initialised s'"
    by (rule initialised_frame [OF v(3) f _ st]) (use gl in \<open>auto simp: vfs_globals_def\<close>)
  moreover have "cstring (mem s') (literal_r s) [0x72]"
    by (rule cstring_frame [OF f _ v(7)]) (use gl in \<open>auto simp: vfs_globals_def numeral_2_eq_2\<close>)
  ultimately show "vfs_ready img rs spc e its s'"
    unfolding vfs_ready_def e ri(2) using fr(1) [OF assms(7)] ri(1) v(4-6,8,9) by simp
qed

lemma vfs_ready_grows:
  fixes s :: "'a file_state_scheme"
  assumes "vfs_ready img rs spc e its s" and g: "grows B (R \<union> fat_pos s) s s'"
    and "R \<inter> (fat_area s \<union> vfs_globals s \<union> root_area s its) = {}" and "kheap_cap s' 1"
  shows "vfs_ready img rs spc e its s'" and "fat_area s' = fat_area s" and "fat_pos s' = fat_pos s" and "root_area s' its = root_area s its"
  using vfs_ready_frame [OF assms(1) growsD(4) [OF g] assms(3) growsD(1) [OF g] _ grows_state [OF g] assms(4)] growsD(2) [OF g] by blast+

section \<open>What a service of open files promises\<close>

text \<open>A file \<open>f\<close> is open under the handle \<open>h\<close> at a position. Seeking moves the position; reading stores what the file
  gives at the position and does not move it; closing keeps what has been read. None of them disturbs
  another open file.\<close>

locale file_service =
  fixes ready :: "'s \<Rightarrow> bool"
    and opened :: "'s \<Rightarrow> u32 \<Rightarrow> 'f \<Rightarrow> nat \<Rightarrow> bool"
    and apart :: "'f \<Rightarrow> 'f \<Rightarrow> bool"
    and gives :: "'f \<Rightarrow> nat \<Rightarrow> nat \<Rightarrow> u8 list \<Rightarrow> bool"
    and buffer :: "'s \<Rightarrow> 'f \<Rightarrow> u32 \<Rightarrow> nat \<Rightarrow> bool"
    and stored :: "'s \<Rightarrow> u32 \<Rightarrow> nat \<Rightarrow> u8 list"
    and seek :: "u32 \<Rightarrow> nat \<Rightarrow> 's \<Rightarrow> (u32 \<times> 's) option"
    and read :: "u32 \<Rightarrow> nat \<Rightarrow> u32 \<Rightarrow> 's \<Rightarrow> (u32 \<times> 's) option"
    and close :: "u32 \<Rightarrow> 's \<Rightarrow> (u32 \<times> 's) option"
  assumes seek_spec: "ready s \<Longrightarrow> opened s h f x \<Longrightarrow> \<exists>s'. seek h y s = Some (0, s') \<and> ready s' \<and> opened s' h f y
      \<and> (\<forall>g out n. buffer s g out n \<longrightarrow> buffer s' g out n) \<and> (\<forall>g k z. apart f g \<and> opened s k g z \<longrightarrow> opened s' k g z)"
    and read_spec: "ready s \<Longrightarrow> opened s h f x \<Longrightarrow> gives f x n bs \<Longrightarrow> buffer s f out (length bs) \<Longrightarrow>
      \<exists>s'. read h n out s = Some (0, s') \<and> ready s' \<and> opened s' h f x \<and> stored s' out (length bs) = bs
      \<and> (\<forall>g out n. buffer s g out n \<longrightarrow> buffer s' g out n)
      \<and> (\<forall>g k z. apart f g \<and> buffer s g out (length bs) \<and> opened s k g z \<longrightarrow> opened s' k g z)"
    and close_spec: "ready s \<Longrightarrow> opened s h f x \<Longrightarrow> \<exists>s'. close h s = Some (0, s') \<and> ready s'
      \<and> (\<forall>out n. n < 2 ^ 32 \<and> buffer s f out n \<longrightarrow> stored s' out n = stored s out n) \<and> (\<forall>g k z. apart f g \<and> opened s k g z \<longrightarrow> opened s' k g z)
      \<and> (\<forall>g out n. buffer s f out n \<and> buffer s g out n \<longrightarrow> buffer s' g out n)"
begin

lemma seek_read:
  assumes "ready s" and "opened s h f x" and "gives f y n bs" and "buffer s f out (length bs)"
  obtains s1 s2 where "seek h y s = Some (0, s1)" and "read h n out s1 = Some (0, s2)" and "stored s2 out (length bs) = bs"
    and "ready s2" and "opened s2 h f y" and "buffer s2 f out (length bs)"
    and "\<forall>g k z. apart f g \<and> buffer s g out (length bs) \<and> opened s k g z \<longrightarrow> opened s2 k g z"
    and "\<forall>g out n. buffer s g out n \<longrightarrow> buffer s2 g out n"
proof -
  obtain s1 where 1: "seek h y s = Some (0, s1)" "ready s1" "opened s1 h f y" "\<forall>g out n. buffer s g out n \<longrightarrow> buffer s1 g out n"
    "\<forall>g k z. apart f g \<and> opened s k g z \<longrightarrow> opened s1 k g z" using seek_spec [OF assms(1,2), of y] by blast
  have "buffer s1 f out (length bs)" using 1(4) assms(4) by blast
  from read_spec [OF 1(2,3) assms(3) this] obtain s2 where 2: "read h n out s1 = Some (0, s2)" "ready s2" "opened s2 h f y" "stored s2 out (length bs) = bs"
    "\<forall>g out n. buffer s1 g out n \<longrightarrow> buffer s2 g out n"
    "\<forall>g k z. apart f g \<and> buffer s1 g out (length bs) \<and> opened s1 k g z \<longrightarrow> opened s2 k g z" by blast
  have b: "buffer s2 f out (length bs)" using 1(4) 2(5) assms(4) by blast
  show ?thesis by (rule that [OF 1(1) 2(1,4,2,3) b]) (use 1(4,5) 2(5,6) in blast)+
qed

text \<open>Reading twice without seeking gives the same bytes twice.\<close>

lemma read_again:
  assumes "ready s" and "opened s h f x" and "gives f x n bs" and "buffer s f out (length bs)" and "buffer s f out2 (length bs)"
  shows "\<exists>s1 s2. read h n out s = Some (0, s1) \<and> stored s1 out (length bs) = bs \<and> read h n out2 s1 = Some (0, s2) \<and> stored s2 out2 (length bs) = bs"
proof -
  obtain s1 where 1: "read h n out s = Some (0, s1)" "ready s1" "opened s1 h f x" "stored s1 out (length bs) = bs" "buffer s1 f out2 (length bs)"
    using read_spec [OF assms(1-4)] assms(5) by blast
  from read_spec [OF 1(2,3) assms(3) 1(5)] 1(1,4) show ?thesis by blast
qed

lemma session:
  assumes "ready s" and "opened s h f x" and "gives f y n bs" and "buffer s f out (length bs)" and "length bs < 2 ^ 32"
  shows "\<exists>s1 s2 s3. seek h y s = Some (0, s1) \<and> read h n out s1 = Some (0, s2) \<and> close h s2 = Some (0, s3)
    \<and> stored s3 out (length bs) = bs \<and> ready s3"
proof -
  obtain s1 s2 where 2: "seek h y s = Some (0, s1)" "read h n out s1 = Some (0, s2)" "stored s2 out (length bs) = bs" "ready s2" "opened s2 h f y"
    "buffer s2 f out (length bs)" by (rule seek_read [OF assms(1-4)])
  obtain s3 where 3: "close h s2 = Some (0, s3)" "ready s3" "\<forall>out n. n < 2 ^ 32 \<and> buffer s2 f out n \<longrightarrow> stored s3 out n = stored s2 out n"
    using close_spec [OF 2(4,5)] by blast
  have "stored s3 out (length bs) = bs" using 3(3) assms(5) 2(3,6) by simp
  with 2(1,2) 3(1,2) show ?thesis by blast
qed

text \<open>Two files at once: the first is read and closed between the seek and the read of the second.\<close>

lemma interleaved:
  assumes "ready s" and "opened s h f x" and "opened s k g z" and "apart f g" and "apart g f" and "gives f y n bs" and "gives g w m cs"
    and "buffer s f out (length bs)" and "buffer s g out (length bs)" and "buffer s f out2 (length cs)" and "buffer s g out2 (length cs)"
  shows "\<exists>s1 s2 s3 s4 s5. seek k w s = Some (0, s1) \<and> seek h y s1 = Some (0, s2) \<and> read h n out s2 = Some (0, s3)
    \<and> stored s3 out (length bs) = bs \<and> close h s3 = Some (0, s4) \<and> read k m out2 s4 = Some (0, s5) \<and> stored s5 out2 (length cs) = cs"
proof -
  obtain s1 where 1: "seek k w s = Some (0, s1)" "ready s1" "opened s1 k g w" "opened s1 h f x" "\<forall>g out n. buffer s g out n \<longrightarrow> buffer s1 g out n"
    using seek_spec [OF assms(1,3), of w] assms(2,5) by blast
  have b: "buffer s1 f out (length bs)" "buffer s1 g out (length bs)" using 1(5) assms(8,9) by blast+
  obtain s2 s3 where 3: "seek h y s1 = Some (0, s2)" "read h n out s2 = Some (0, s3)" "stored s3 out (length bs) = bs" "ready s3" "opened s3 h f y"
    "\<forall>g k z. apart f g \<and> buffer s1 g out (length bs) \<and> opened s1 k g z \<longrightarrow> opened s3 k g z" "\<forall>g out n. buffer s1 g out n \<longrightarrow> buffer s3 g out n"
    by (rule seek_read [OF 1(2,4) assms(6) b(1)])
  have g3: "opened s3 k g w" "buffer s3 f out2 (length cs)" "buffer s3 g out2 (length cs)" using 1(3,5) 3(6,7) b(2) assms(4,10,11) by blast+
  obtain s4 where 4: "close h s3 = Some (0, s4)" "ready s4" "opened s4 k g w" "buffer s4 g out2 (length cs)"
    using close_spec [OF 3(4,5)] assms(4) g3 by blast
  obtain s5 where "read k m out2 s4 = Some (0, s5)" "stored s5 out2 (length cs) = cs" using read_spec [OF 4(2,3) assms(7) 4(4)] by blast
  with 1(1) 3(1-3) 4(1) show ?thesis by blast
qed

end

section \<open>The driver as a service\<close>

lemma blocks_apart:
  assumes "kheap_inv s" and "B \<subseteq> kheap_live s" and "C \<subseteq> kheap_live s" and "B \<inter> C = {}"
  shows "block_bytes B \<inter> block_bytes C = {}"
proof -
  have "region p k \<inter> region q j = {}" if "(p, k) \<in> B" "(q, j) \<in> C" for p k q j
    using kheap_live_apart [OF assms(1), of p k q j] that assms(2-4) by blast
  then show ?thesis unfolding block_bytes_def by blast
qed

lemma open_file_blocks: "open_file s h bs x B \<Longrightarrow> B \<subseteq> kheap_live s" "open_file s h bs x B \<Longrightarrow> block_bytes B \<inter> fat_area s = {}"
  unfolding open_file_def by blast+

text \<open>What a file with the directory item \<open>bs\<close> gives at position \<open>x\<close> when \<open>n\<close> bytes are asked for: the
  bytes of the disk from the position in the cluster its chain reaches on, at most a cluster's length of them. From a
  position inside a cluster they run past its end into what follows on the disk.\<close>

definition file_gives :: "image \<Rightarrow> nat \<Rightarrow> nat \<Rightarrow> nat \<Rightarrow> u8 list \<Rightarrow> nat \<Rightarrow> nat \<Rightarrow> u8 list \<Rightarrow> bool" where
  "file_gives img rs spc e bs x n ys \<longleftrightarrow> x < 2 ^ 31 \<and> 0 < n \<and> n < 2 ^ 31 \<and>
     (\<exists>c. follow img rs (item_cluster bs) (x div cluster_bytes spc) = Some c \<and> 2 \<le> c \<and> data_pos spc e c x + cluster_bytes spc < 2 ^ 31
       \<and> ys = disk_bytes img (data_pos spc e c x) (min n (cluster_bytes spc)))"

definition file_buffer :: "'a fat_state_scheme \<Rightarrow> (u32 \<times> nat) set \<Rightarrow> u32 \<Rightarrow> nat \<Rightarrow> bool" where
  "file_buffer s B out n \<longleftrightarrow> region out n \<inter> (heap_private s \<union> fat_area s \<union> fat_locals s \<union> block_bytes B) = {}"

lemma file_buffer_meta: "file_buffer s B out n \<Longrightarrow> region out n \<inter> kheap_meta = {}"
  by (auto simp: file_buffer_def heap_private_def)

lemma file_read:
  fixes s :: "'a fat_state_scheme"
  assumes "fat_ready img rs spc e s" and "open_file s h bs x B" and "file_gives img rs spc e bs x n ys" and "file_buffer s B out (length ys)"
  shows "\<exists>s'. fat16_read (primary_disk s) h (of_nat n) 1 out s = Some (0, s') \<and> load_bytes (mem s') out (length ys) = ys
    \<and> keeps (region out (length ys) \<union> fat_locals s \<union> fat_pos s) s s' \<and> open_file s' h bs x B"
proof -
  obtain c where c: "follow img rs (item_cluster bs) (x div cluster_bytes spc) = Some c" "2 \<le> c" "data_pos spc e c x + cluster_bytes spc < 2 ^ 31"
    "ys = disk_bytes img (data_pos spc e c x) (min n (cluster_bytes spc))" "x < 2 ^ 31" "0 < n" "n < 2 ^ 31"
    using assms(3) by (auto simp: file_gives_def)
  have "length ys = min n (cluster_bytes spc)" by (simp add: c(4))
  then show ?thesis
    using read_open_file [OF assms(1,2) c(5,1-3) _ c(6,7), of "of_nat n" 1 "length ys" out] assms(4) c(4) by (auto simp: file_buffer_def)
qed

lemma file_close:
  fixes s :: "'a fat_state_scheme"
  assumes "fat_ready img rs spc e s" and "open_file s h bs x B"
  obtains s' where "fat16_close h s = Some (0, s')" and "s' = s\<lparr>mem := mem s'\<rparr>" and "kheap_inv s'" and "kheap_live s' = kheap_live s - B"
    and "same_outside kheap_meta (mem s) (mem s')" and "kheap_cap s' 1" and "heap_private s' \<subseteq> heap_private s \<union> block_bytes B"
    and "\<forall>(x, k) \<in> kheap_live s. x \<in> set (fat_private_of s # fat_streams s) \<longrightarrow> (x, k) \<in> kheap_live s'"
proof -
  have i: "kheap_inv s" and cap: "kheap_cap s 1" using assms(1) by (simp_all add: fat_ready_def disk_ready_def)
  obtain s' where s': "fat16_close h s = Some (0, s')" "s' = s\<lparr>mem := mem s'\<rparr>" "kheap_inv s'" "kheap_live s' = kheap_live s - B"
    "same_outside kheap_meta (mem s) (mem s')" using close_open_file [OF i assms(2)] by blast
  have "kheap_cap s' 1" by (rule kheap_cap_antimono [OF i s'(3) _ cap]) (use s'(4) in blast)
  moreover have "heap_private s' \<subseteq> heap_private s \<union> block_bytes B" unfolding heap_private_def s'(4) block_bytes_def by blast
  moreover have "(y, k) \<notin> B" if y: "(y, k) \<in> kheap_live s" "y \<in> set (fat_private_of s # fat_streams s)" for y k
  proof
    assume "(y, k) \<in> B"
    then have "region y k \<subseteq> block_bytes B" by (auto simp: block_bytes_def)
    moreover have "y \<in> region y k" using kheap_live_off_meta(2) [OF i y(1)] by (simp add: base_mem_region)
    moreover have "y \<in> region y 92" "y \<in> region y 8" by (simp_all add: base_mem_region)
    then have "y \<in> fat_area s" using y(2) unfolding fat_area_def set_simps by blast
    ultimately show False using open_file_blocks(2) [OF assms(2)] by blast
  qed
  ultimately show ?thesis using that [OF s'] s'(4) by blast
qed

interpretation fat: file_service "fat_ready img rs spc e" "\<lambda>s h f x. open_file s h (fst f) x (snd f)" "\<lambda>f g. snd f \<inter> snd g = {}"
  "\<lambda>f. file_gives img rs spc e (fst f)" "\<lambda>s f. file_buffer s (snd f)" "\<lambda>s. load_bytes (mem s)"
  "\<lambda>h y s. Some (fat16_seek h (of_nat y) SEEK_SET s)" "\<lambda>h n out s. fat16_read (primary_disk s) h (of_nat n) 1 out s" fat16_close
  for img rs spc e
proof (unfold_locales, goal_cases)
  case (1 s h f x y)
  let ?B = "snd f"
  have i: "kheap_inv s" by (rule fat_ready_parts(1) [OF 1(1)])
  note ob = open_file_blocks [OF 1(2)]
  obtain s' where s': "fat16_seek h (of_nat y) SEEK_SET s = (0, s')" "keeps (block_bytes ?B) s s'" "open_file s' h (fst f) y ?B"
    using seek_open_file [OF 1] by blast
  have k: "keeps (block_bytes ?B \<union> fat_pos s) s s'" by (rule grows_mono [OF s'(2)]) auto
  note r = fat_ready_keeps [OF 1(1) k ob(2)] and l = grows_fat(4) [OF k]
  have "open_file s' j (fst g) z (snd g)" if g: "?B \<inter> snd g = {}" "open_file s j (fst g) z (snd g)" for g j z
  proof (rule open_file_frame [OF g(2) growsD(4) [OF s'(2)]])
    note og = open_file_blocks [OF g(2)]
    show "block_bytes (snd g) \<inter> (block_bytes ?B \<union> heap_private s) = {}"
      using blocks_apart [OF i ob(1) og(1) g(1)] live_bytes(1) [OF i og(1)] by blast
    show "snd g \<subseteq> kheap_live s'" using og(1) keepsD(1) [OF s'(2)] by simp
  qed (rule r(4))
  then show ?case using s'(1,3) r l by (auto simp: file_buffer_def)
next
  case (2 s h f x n bs out)
  let ?B = "snd f" and ?W = "region out (length bs) \<union> fat_locals s"
  note fp = fat_ready_parts [OF 2(1)]
  obtain s' where s': "fat16_read (primary_disk s) h (of_nat n) 1 out s = Some (0, s')" "load_bytes (mem s') out (length bs) = bs"
    "keeps (?W \<union> fat_pos s) s s'" "open_file s' h (fst f) x ?B" using file_read [OF 2] by blast
  have "?W \<inter> fat_area s = {}" using 2(4) fp(5) by (auto simp: file_buffer_def)
  note r = fat_ready_keeps [OF 2(1) s'(3) this] and l = grows_fat(4) [OF s'(3)]
  have lh: "fat_locals s \<inter> heap_area = {}" using 2(1) unfolding fat_ready_def by blast
  have "open_file s' j (fst g) z (snd g)" if g: "file_buffer s (snd g) out (length bs)" "open_file s j (fst g) z (snd g)" for g j z
  proof (rule open_file_frame [OF g(2) growsD(4) [OF s'(3)]])
    note og = open_file_blocks [OF g(2)] and lb = live_bytes [OF fp(1) open_file_blocks(1) [OF g(2)]]
    show "block_bytes (snd g) \<inter> (?W \<union> fat_pos s \<union> heap_private s) = {}"
      using g(1) lb(1,2) lh og(2) fp(3) unfolding file_buffer_def by blast
    show "snd g \<subseteq> kheap_live s'" using og(1) keepsD(1) [OF s'(3)] by simp
  qed (rule r(4))
  then show ?case using s'(1,2,4) r l by (auto simp: file_buffer_def)
next
  case (3 s h f x)
  let ?B = "snd f"
  note fp = fat_ready_parts [OF 3(1)]
  obtain s' where s': "fat16_close h s = Some (0, s')" "s' = s\<lparr>mem := mem s'\<rparr>" "kheap_inv s'" "kheap_live s' = kheap_live s - ?B"
    "same_outside kheap_meta (mem s) (mem s')" "kheap_cap s' 1" "heap_private s' \<subseteq> heap_private s \<union> block_bytes ?B"
    "\<forall>(x, k) \<in> kheap_live s. x \<in> set (fat_private_of s # fat_streams s) \<longrightarrow> (x, k) \<in> kheap_live s'" by (rule file_close [OF 3])
  have e: "primary_disk s' = primary_disk s" "device s' = device s" "fat_locals s' = fat_locals s"
    by (subst s'(2), simp add: fat_locals_def)+
  have m: "kheap_meta \<subseteq> heap_private s" by (auto simp: heap_private_def)
  have "region (stream_d x) 4 \<subseteq> fat_area s" if "x \<in> set (fat_streams s)" for x
    using that stream_fields_in(2) [of x] by (auto simp: fat_area_def)
  then have X: "kheap_meta \<inter> (region (primary_disk s) 20 \<union> region (fat_private_of s) 92 \<union> (\<Union>st \<in> set (fat_streams s). region (stream_d st) 4)) = {}"
    using fp(2) m unfolding fat_area_def by blast
  note fr = fat_ready_frame [OF 3(1) s'(5) X s'(3,8) e]
  have "open_file s' j (fst g) z (snd g)" if g: "?B \<inter> snd g = {}" "open_file s j (fst g) z (snd g)" for g j z
    using open_file_blocks(1) [OF g(2)] live_bytes(3) [OF fp(1) open_file_blocks(1) [OF g(2)]] g(1)
    by (intro open_file_frame [OF g(2) s'(5)]) (simp_all add: fr(4) s'(4), blast)
  moreover have "load_bytes (mem s') out n = load_bytes (mem s) out n" if "n < 2 ^ 32" "file_buffer s ?B out n" for out n
    using that file_buffer_meta [OF that(2)] by (intro load_bytes_frame [OF s'(5)]) auto
  ultimately show ?case using s'(1,7) fr(1) [OF s'(6)] fr(4) e(3) by (auto simp: file_buffer_def)
qed

section \<open>Open files by their number\<close>

text \<open>An open file: the bytes of its directory item, the driver's blocks, the block of the \<^verbatim>\<open>file_descriptor\<close>, and the
  driver's handle stored there.\<close>

record vfs_file =
  item_bytes :: "u8 list"
  driver_blocks :: "(u32 \<times> nat) set"
  desc_block :: "u32 \<times> nat"
  driver_handle :: u32

definition desc_bytes :: "vfs_file \<Rightarrow> u32 set" where
  "desc_bytes f = region (fst (desc_block f)) (snd (desc_block f))"

definition descriptor_at :: "'a file_state_scheme \<Rightarrow> nat \<Rightarrow> vfs_file \<Rightarrow> bool" where
  "descriptor_at s j f \<longleftrightarrow> (let d = fst (desc_block f) in j < 512 \<and> fd_table s ! j = d \<and> 16 \<le> snd (desc_block f)
     \<and> desc_block f \<in> kheap_live s \<and> desc_block f \<notin> driver_blocks f \<and> desc_bytes f \<inter> fat_area s = {}
     \<and> load32 (mem s) (descriptor_fs d) = fat16_fs s \<and> load32 (mem s) (descriptor_d d) = primary_disk s
     \<and> load32 (mem s) (descriptor_private_data d) = driver_handle f)"

definition open_fd :: "'a file_state_scheme \<Rightarrow> u32 \<Rightarrow> vfs_file \<Rightarrow> nat \<Rightarrow> bool" where
  "open_fd s fd f x \<longleftrightarrow> (\<exists>j. fd = of_nat j \<and> descriptor_at s j f) \<and> open_file s (driver_handle f) (item_bytes f) x (driver_blocks f)"

text \<open>The memory that a client's buffer must keep away from.\<close>

definition vfs_buffer :: "u8 list list \<Rightarrow> 'a file_state_scheme \<Rightarrow> vfs_file \<Rightarrow> u32 \<Rightarrow> nat \<Rightarrow> bool" where
  "vfs_buffer its s f out n \<longleftrightarrow> file_buffer s (driver_blocks f) out n
     \<and> region out n \<inter> (desc_bytes f \<union> fd_region s \<union> vfs_globals s \<union> root_area s its) = {}"

lemma descriptor_fields_in: "region (descriptor_index d) 4 \<subseteq> region d 16" "region (descriptor_fs d) 4 \<subseteq> region d 16"
  "region (descriptor_private_data d) 4 \<subseteq> region d 16" "region (descriptor_d d) 4 \<subseteq> region d 16"
  using region_mono [of 4 16 d] region_shift [of 4 4 16 d] region_shift [of 8 4 16 d] region_shift [of 12 4 16 d] by (simp_all add: file_fields)

lemma desc_bytes_in: "16 \<le> snd (desc_block f) \<Longrightarrow> region (fst (desc_block f)) 16 \<subseteq> desc_bytes f"
  unfolding desc_bytes_def by (rule region_mono)

lemma descriptor_at_frame:
  fixes s :: "'a file_state_scheme"
  assumes "descriptor_at s j f" and g: "same_outside X (mem s) (mem s')" and "X \<inter> (desc_bytes f \<union> elem_region (file_descriptors s) 4 j) = {}"
    and "desc_block f \<in> kheap_live s'" and "fat_area s' = fat_area s" and st: "same_globals s s'"
  shows "descriptor_at s' j f"
proof -
  let ?d = "fst (desc_block f)"
  have a: "j < 512" "16 \<le> snd (desc_block f)" using assms(1) by (simp_all add: descriptor_at_def Let_def)
  have ld: "load32 (mem s') x = load32 (mem s) x" if "region x 4 \<subseteq> region ?d 16" for x
    using that desc_bytes_in [OF a(2)] assms(3) by (intro load32_frame [OF g]) blast
  have "elem_region (file_descriptors s) 4 j \<inter> X = {}" using assms(3) by blast
  then have "fd_table s' ! j = fd_table s ! j" using a(1) load32_frame [OF g] file_state_fields(3) [OF st] by (simp add: elem_region_def)
  then show ?thesis using assms(1,4,5) ld [OF descriptor_fields_in(2)] ld [OF descriptor_fields_in(3)] ld [OF descriptor_fields_in(4)]
    unfolding descriptor_at_def Let_def file_state_fields [OF st] by simp
qed

text \<open>What the operations do with the number of an open file: they call the driver.\<close>

lemma descriptor_dispatch:
  fixes s :: "'a file_state_scheme"
  assumes "fat16_fs_initialised s" and "kheap_inv s" and "descriptor_at s j f"
  shows "get_file_descriptor (of_nat j) s = fst (desc_block f)"
    and "fread out bs nb (of_nat j) s = (if bs = 0 \<or> nb = 0 then Some (- EINVAL, s) else fat16_read (primary_disk s) (driver_handle f) bs nb out s)"
    and "fseek (of_nat j) off whence s = Some (fat16_seek (driver_handle f) off whence s)"
    and "fstat (of_nat j) stat s = Some (fat16_stat (primary_disk s) (driver_handle f) stat s)"
    and "fclose (of_nat j) s = fat16_close (driver_handle f) s"
proof -
  let ?d = "fst (desc_block f)"
  have a: "j < 512" "fd_table s ! j = ?d" "desc_block f \<in> kheap_live s" "load32 (mem s) (descriptor_fs ?d) = fat16_fs s"
    "load32 (mem s) (descriptor_d ?d) = primary_disk s" "load32 (mem s) (descriptor_private_data ?d) = driver_handle f"
    using assms(3) by (simp_all add: descriptor_at_def Let_def)
  show g: "get_file_descriptor (of_nat j) s = ?d" unfolding get_file_descriptor_eq using a(1,2) by (simp add: sint_of_nat32 unat_of_nat32)
  have d: "?d \<noteq> 0" using live_nonzero [OF assms(2), of ?d "snd (desc_block f)"] a(3) by simp
  have n: "\<not> (of_nat j :: u32) <s 0" using sless_of_nat [of j 0] a(1) by simp
  note c = call_read_def call_seek_def call_stat_def call_close_def and i = assms(1) [unfolded fat16_fs_initialised_def]
  show "fread out bs nb (of_nat j) s = (if bs = 0 \<or> nb = 0 then Some (- EINVAL, s) else fat16_read (primary_disk s) (driver_handle f) bs nb out s)"
    using g d n a(4-6) i by (simp add: fread_def c Let_def)
  show "fseek (of_nat j) off whence s = Some (fat16_seek (driver_handle f) off whence s)"
    using g d n a(4-6) i by (simp add: fseek_def c Let_def)
  show "fstat (of_nat j) stat s = Some (fat16_stat (primary_disk s) (driver_handle f) stat s)"
    using g d n a(4-6) i by (simp add: fstat_def c Let_def)
  show "fclose (of_nat j) s = fat16_close (driver_handle f) s"
    using g d n a(4-6) i by (simp add: fclose_def c Let_def)
qed

lemma vfs_blocks_apart:
  fixes s :: "'a file_state_scheme"
  assumes "vfs_ready img rs spc e its s" and "B \<subseteq> kheap_live s"
  shows "block_bytes B \<inter> (vfs_globals s \<union> fd_region s \<union> root_area s its) = {}"
  using live_bytes(2) [OF fat_ready_parts(1) [OF vfs_readyD(1) [OF assms(1)]] assms(2)] vfs_readyD(8) [OF assms(1)] by blast

lemma descriptor_block:
  fixes s :: "'a file_state_scheme"
  assumes "vfs_ready img rs spc e its s" and "descriptor_at s j f"
  shows "desc_bytes f = block_bytes {desc_block f}" and "{desc_block f} \<subseteq> kheap_live s" and "desc_bytes f \<inter> fat_area s = {}"
    and "desc_bytes f \<inter> (heap_private s \<union> fd_region s) = {}" and "desc_bytes f \<subseteq> heap_area" and "desc_block f \<notin> driver_blocks f"
proof -
  show e: "desc_bytes f = block_bytes {desc_block f}" by (simp add: desc_bytes_def block_bytes_def case_prod_beta)
  show l: "{desc_block f} \<subseteq> kheap_live s" "desc_bytes f \<inter> fat_area s = {}" "desc_block f \<notin> driver_blocks f"
    using assms(2) by (simp_all add: descriptor_at_def Let_def)
  note lb = live_bytes [OF fat_ready_parts(1) [OF vfs_readyD(1) [OF assms(1)]] l(1)]
  show "desc_bytes f \<inter> (heap_private s \<union> fd_region s) = {}" "desc_bytes f \<subseteq> heap_area"
    using lb(1,2) vfs_blocks_apart [OF assms(1) l(1)] unfolding e by blast+
qed

lemma open_fd_keep:
  fixes s :: "'a file_state_scheme"
  assumes "open_fd s fd g z" and "open_file s' (driver_handle g) (item_bytes g) w (driver_blocks g)"
    and "same_outside X (mem s) (mem s')" and "X \<inter> (desc_bytes g \<union> fd_region s) = {}"
    and "desc_block g \<in> kheap_live s'" and "fat_area s' = fat_area s" and "same_globals s s'"
  shows "open_fd s' fd g w"
proof -
  obtain j where j: "fd = of_nat j" "descriptor_at s j g" using assms(1) unfolding open_fd_def by blast
  then have "elem_region (file_descriptors s) 4 j \<subseteq> fd_region s"
    using elem_within [of j 512 "file_descriptors s" 4] by (simp add: descriptor_at_def Let_def fd_region_def)
  then have "X \<inter> (desc_bytes g \<union> elem_region (file_descriptors s) 4 j) = {}" using assms(4) by blast
  from descriptor_at_frame [OF j(2) assms(3) this assms(5-7)] show ?thesis using j(1) assms(2) unfolding open_fd_def by blast
qed

lemma open_fdE:
  fixes s :: "'a file_state_scheme"
  assumes "vfs_ready img rs spc e its s" and "open_fd s fd f x"
  obtains j where "fd = of_nat j" and "descriptor_at s j f" and "open_file s (driver_handle f) (item_bytes f) x (driver_blocks f)"
    and "desc_bytes f \<inter> block_bytes (driver_blocks f) = {}"
proof -
  obtain j where j: "fd = of_nat j" "descriptor_at s j f" "open_file s (driver_handle f) (item_bytes f) x (driver_blocks f)"
    using assms(2) unfolding open_fd_def by blast
  note db = descriptor_block [OF assms(1) j(2)]
  have "{desc_block f} \<inter> driver_blocks f = {}" using db(6) by blast
  from blocks_apart [OF fat_ready_parts(1) [OF vfs_readyD(1) [OF assms(1)]] db(2) open_file_blocks(1) [OF j(3)] this] show ?thesis
    using that [OF j] unfolding db(1) by blast
qed

definition vfs_apart :: "vfs_file \<Rightarrow> vfs_file \<Rightarrow> bool" where
  "vfs_apart f g \<longleftrightarrow> insert (desc_block f) (driver_blocks f) \<inter> insert (desc_block g) (driver_blocks g) = {}"

text \<open>Of two files that share no block, neither's bytes meet the other's.\<close>

lemma vfs_apartD:
  fixes s :: "'a file_state_scheme"
  assumes "vfs_ready img rs spc e its s" and "open_fd s h f x" and "open_fd s k g z" and "vfs_apart f g"
  shows "block_bytes (driver_blocks f) \<inter> desc_bytes g = {}" and "driver_blocks f \<inter> driver_blocks g = {}"
    and "desc_block g \<in> kheap_live s - driver_blocks f" and "desc_bytes g \<inter> (heap_private s \<union> fd_region s \<union> fat_area s) = {}" and "desc_bytes g \<subseteq> heap_area"
proof -
  obtain j where f: "open_file s (driver_handle f) (item_bytes f) x (driver_blocks f)" by (rule open_fdE [OF assms(1,2)])
  obtain l where g: "descriptor_at s l g" by (rule open_fdE [OF assms(1,3)])
  note db = descriptor_block [OF assms(1) g]
  have "driver_blocks f \<inter> {desc_block g} = {}" using assms(4) by (auto simp: vfs_apart_def)
  from blocks_apart [OF fat_ready_parts(1) [OF vfs_readyD(1) [OF assms(1)]] open_file_blocks(1) [OF f] db(2) this]
  show "block_bytes (driver_blocks f) \<inter> desc_bytes g = {}" unfolding db(1) .
  show "driver_blocks f \<inter> driver_blocks g = {}" "desc_block g \<in> kheap_live s - driver_blocks f"
    using assms(4) db(2) by (auto simp: vfs_apart_def)
  show "desc_bytes g \<inter> (heap_private s \<union> fd_region s \<union> fat_area s) = {}" "desc_bytes g \<subseteq> heap_area" using db(3-5) by blast+
qed

lemma vfs_buffer_keep:
  fixes s :: "'a file_state_scheme"
  assumes "vfs_buffer its s g out n" and "fat_area s' = fat_area s" and "root_area s' its = root_area s its" and st: "same_globals s s'"
    and "heap_private s' \<subseteq> heap_private s \<union> Y" and "region out n \<inter> Y = {}"
  shows "vfs_buffer its s' g out n"
  using assms(1,5,6) unfolding vfs_buffer_def file_buffer_def assms(2,3) file_state_fields(12-14) [OF st] by blast

lemma vfs_seek:
  fixes s :: "'a file_state_scheme"
  assumes "vfs_ready img rs spc e its s" and "open_fd s h f x"
  shows "\<exists>s'. fseek h (of_nat y) SEEK_SET s = Some (0, s') \<and> vfs_ready img rs spc e its s' \<and> open_fd s' h f y
      \<and> (\<forall>g out n. vfs_buffer its s g out n \<longrightarrow> vfs_buffer its s' g out n) \<and> (\<forall>g k z. vfs_apart f g \<and> open_fd s k g z \<longrightarrow> open_fd s' k g z)
      \<and> keeps (block_bytes (driver_blocks f)) s s'"
proof -
  let ?B = "driver_blocks f"
  note v = vfs_readyD [OF assms(1)] and i = fat_ready_parts(1) [OF vfs_readyD(1) [OF assms(1)]]
  obtain j where j: "h = of_nat j" "descriptor_at s j f" "open_file s (driver_handle f) (item_bytes f) x ?B" "desc_bytes f \<inter> block_bytes ?B = {}"
    by (rule open_fdE [OF assms])
  note db = descriptor_block [OF assms(1) j(2)] and ob = open_file_blocks [OF j(3)]
  obtain s' where s': "fat16_seek (driver_handle f) (of_nat y) SEEK_SET s = (0, s')" "keeps (block_bytes ?B) s s'"
    "open_file s' (driver_handle f) (item_bytes f) y ?B" using seek_open_file [OF v(1) j(3)] by blast
  have kf: "\<forall>g k z. ?B \<inter> snd g = {} \<and> open_file s k (fst g) z (snd g) \<longrightarrow> open_file s' k (fst g) z (snd g)"
    using fat.seek_spec [OF v(1), of "driver_handle f" "(item_bytes f, ?B)" x y] j(3) s'(1) by auto
  have k: "keeps (block_bytes ?B \<union> fat_pos s) s s'" by (rule grows_mono [OF s'(2)]) auto
  note gl = vfs_blocks_apart [OF assms(1) ob(1)]
  have "kheap_cap s' 1" using keepsD(3) [OF k i] v(1) by (simp add: fat_ready_def)
  moreover have "block_bytes ?B \<inter> (fat_area s \<union> vfs_globals s \<union> root_area s its) = {}" using gl ob(2) by blast
  ultimately have r: "vfs_ready img rs spc e its s'" "fat_area s' = fat_area s" "root_area s' its = root_area s its"
    using vfs_ready_grows [OF assms(1) k] by blast+
  note st = grows_state [OF k] and fr = growsD(4) [OF s'(2)] and lv = keepsD(1) [OF s'(2)]
  have fd: "(block_bytes ?B \<union> heap_private s) \<inter> fd_region s = {}" using gl vfs_ready_apart [OF assms(1)] by blast
  have "(block_bytes ?B \<union> heap_private s) \<inter> (desc_bytes f \<union> fd_region s) = {}" using j(4) db(4) fd by blast
  moreover have "desc_block f \<in> kheap_live s'" using db(2) lv by simp
  ultimately have "open_fd s' h f y" by (intro open_fd_keep [OF assms(2) s'(3) fr _ _ r(2) st])
  moreover have "open_fd s' l g z" if g: "vfs_apart f g" "open_fd s l g z" for g l z
  proof (rule open_fd_keep [OF g(2) _ fr _ _ r(2) st])
    note ap = vfs_apartD [OF assms g(2,1)]
    have "open_file s (driver_handle g) (item_bytes g) z (driver_blocks g)" using g(2) by (simp add: open_fd_def)
    then show "open_file s' (driver_handle g) (item_bytes g) z (driver_blocks g)" using kf ap(2) by force
    show "(block_bytes ?B \<union> heap_private s) \<inter> (desc_bytes g \<union> fd_region s) = {}" using ap(1,4) gl vfs_ready_apart [OF assms(1)] by blast
    show "desc_block g \<in> kheap_live s'" using ap(3) lv by blast
  qed
  moreover have "vfs_buffer its s' g out n" if "vfs_buffer its s g out n" for g out n
    by (rule vfs_buffer_keep [OF that r(2,3) st, of "{}"]) (simp_all add: keepsD(2) [OF s'(2)])
  moreover have "fseek h (of_nat y) SEEK_SET s = Some (0, s')" unfolding j(1) descriptor_dispatch(3) [OF v(3) i j(2)] s'(1) by simp
  ultimately show ?thesis using r(1) s'(2) by blast
qed

lemma vfs_read:
  fixes s :: "'a file_state_scheme"
  assumes "vfs_ready img rs spc e its s" and "open_fd s h f x" and "file_gives img rs spc e (item_bytes f) x n bs"
    and "vfs_buffer its s f out (length bs)"
  shows "\<exists>s'. fread out (of_nat n) 1 h s = Some (0, s') \<and> vfs_ready img rs spc e its s' \<and> open_fd s' h f x \<and> load_bytes (mem s') out (length bs) = bs
      \<and> (\<forall>g out n. vfs_buffer its s g out n \<longrightarrow> vfs_buffer its s' g out n)
      \<and> (\<forall>g k z. vfs_apart f g \<and> vfs_buffer its s g out (length bs) \<and> open_fd s k g z \<longrightarrow> open_fd s' k g z)
      \<and> keeps (region out (length bs) \<union> fat_locals s \<union> fat_pos s) s s'"
proof -
  let ?B = "driver_blocks f" and ?W = "region out (length bs) \<union> fat_locals s"
  note v = vfs_readyD [OF assms(1)] and i = fat_ready_parts(1) [OF vfs_readyD(1) [OF assms(1)]] and fp = fat_ready_parts [OF vfs_readyD(1) [OF assms(1)]]
  obtain j where j: "h = of_nat j" "descriptor_at s j f" "open_file s (driver_handle f) (item_bytes f) x ?B" "desc_bytes f \<inter> block_bytes ?B = {}"
    by (rule open_fdE [OF assms(1,2)])
  note db = descriptor_block [OF assms(1) j(2)]
  have fb: "file_buffer s ?B out (length bs)" and ro: "region out (length bs) \<inter> (desc_bytes f \<union> fd_region s \<union> vfs_globals s \<union> root_area s its) = {}"
    using assms(4) by (simp_all add: vfs_buffer_def)
  obtain s' where s': "fat16_read (primary_disk s) (driver_handle f) (of_nat n) 1 out s = Some (0, s')" "load_bytes (mem s') out (length bs) = bs"
    "keeps (?W \<union> fat_pos s) s s'" "open_file s' (driver_handle f) (item_bytes f) x ?B" using file_read [OF v(1) j(3) assms(3) fb] by blast
  have kf: "\<forall>g k z. ?B \<inter> snd g = {} \<and> file_buffer s (snd g) out (length bs) \<and> open_file s k (fst g) z (snd g) \<longrightarrow> open_file s' k (fst g) z (snd g)"
    using fat.read_spec [OF v(1), of "driver_handle f" "(item_bytes f, ?B)" x n bs out] j(3) assms(3) fb s'(1) by auto
  have "kheap_cap s' 1" using keepsD(3) [OF s'(3) i] v(1) by (simp add: fat_ready_def)
  moreover have "?W \<inter> (fat_area s \<union> vfs_globals s \<union> root_area s its) = {}"
    using fb ro fp(5) vfs_ready_apart [OF assms(1)] unfolding file_buffer_def by blast
  ultimately have r: "vfs_ready img rs spc e its s'" "fat_area s' = fat_area s" "root_area s' its = root_area s its"
    using vfs_ready_grows [OF assms(1) s'(3)] by blast+
  note st = grows_state [OF s'(3)] and fr = growsD(4) [OF s'(3)] and lv = keepsD(1) [OF s'(3)]
  have lh: "fat_locals s \<inter> heap_area = {}" using v(1) unfolding fat_ready_def by blast
  have fd: "(?W \<union> fat_pos s \<union> heap_private s) \<inter> fd_region s = {}" using ro vfs_ready_apart [OF assms(1)] fp(3) by blast
  have "(?W \<union> fat_pos s \<union> heap_private s) \<inter> desc_bytes f = {}" using ro lh db(3-5) fp(3) by blast
  then have "(?W \<union> fat_pos s \<union> heap_private s) \<inter> (desc_bytes f \<union> fd_region s) = {}" using fd by blast
  moreover have "desc_block f \<in> kheap_live s'" using db(2) lv by simp
  ultimately have "open_fd s' h f x" by (intro open_fd_keep [OF assms(2) s'(4) fr _ _ r(2) st])
  moreover have "open_fd s' l g z" if g: "vfs_apart f g" "vfs_buffer its s g out (length bs)" "open_fd s l g z" for g l z
  proof (rule open_fd_keep [OF g(3) _ fr _ _ r(2) st])
    note ap = vfs_apartD [OF assms(1,2) g(3,1)]
    have "file_buffer s (driver_blocks g) out (length bs)" "region out (length bs) \<inter> desc_bytes g = {}" using g(2) by (auto simp: vfs_buffer_def)
    moreover have "open_file s (driver_handle g) (item_bytes g) z (driver_blocks g)" using g(3) by (simp add: open_fd_def)
    ultimately show "open_file s' (driver_handle g) (item_bytes g) z (driver_blocks g)" using kf ap(2) by force
    have "(?W \<union> fat_pos s \<union> heap_private s) \<inter> desc_bytes g = {}"
      using \<open>region out (length bs) \<inter> desc_bytes g = {}\<close> ap(4,5) lh fp(3) by blast
    then show "(?W \<union> fat_pos s \<union> heap_private s) \<inter> (desc_bytes g \<union> fd_region s) = {}" using fd by blast
    show "desc_block g \<in> kheap_live s'" using ap(3) lv by blast
  qed
  moreover have "vfs_buffer its s' g out n" if "vfs_buffer its s g out n" for g out n
    by (rule vfs_buffer_keep [OF that r(2,3) st, of "{}"]) (simp_all add: keepsD(2) [OF s'(3)])
  moreover have "fread out (of_nat n) 1 h s = Some (0, s')"
  proof -
    have "0 < n" "n < 2 ^ 32" using assms(3) by (auto simp: file_gives_def)
    then have "(of_nat n :: u32) \<noteq> 0" using of_nat32_eq [of n 0] by simp
    then show ?thesis unfolding j(1) descriptor_dispatch(2) [OF v(3) i j(2)] using s'(1) by simp
  qed
  ultimately show ?thesis using r(1) s'(2,3) by blast
qed

text \<open>Closing gives the driver's blocks back. The descriptor's block stays live, and so does the slot.\<close>

lemma vfs_close:
  fixes s :: "'a file_state_scheme"
  assumes "vfs_ready img rs spc e its s" and "open_fd s h f x"
  shows "\<exists>s'. fclose h s = Some (0, s') \<and> vfs_ready img rs spc e its s' \<and> kheap_live s' = kheap_live s - driver_blocks f \<and> fd_table s' = fd_table s
      \<and> same_outside kheap_meta (mem s) (mem s') \<and> s' = s\<lparr>mem := mem s'\<rparr> \<and> fat_area s' = fat_area s
      \<and> root_area s' its = root_area s its \<and> heap_private s' \<subseteq> heap_private s \<union> block_bytes (driver_blocks f)
      \<and> (\<forall>g k z. vfs_apart f g \<and> open_fd s k g z \<longrightarrow> open_fd s' k g z)
      \<and> (\<forall>g out n. vfs_buffer its s f out n \<and> vfs_buffer its s g out n \<longrightarrow> vfs_buffer its s' g out n)"
proof -
  let ?B = "driver_blocks f"
  note v = vfs_readyD [OF assms(1)] and fp = fat_ready_parts [OF vfs_readyD(1) [OF assms(1)]]
  obtain j where j: "h = of_nat j" "descriptor_at s j f" "open_file s (driver_handle f) (item_bytes f) x ?B" "desc_bytes f \<inter> block_bytes ?B = {}"
    by (rule open_fdE [OF assms])
  obtain s' where s': "fat16_close (driver_handle f) s = Some (0, s')" "s' = s\<lparr>mem := mem s'\<rparr>" "kheap_inv s'" "kheap_live s' = kheap_live s - ?B"
    "same_outside kheap_meta (mem s) (mem s')" "kheap_cap s' 1" "heap_private s' \<subseteq> heap_private s \<union> block_bytes ?B"
    "\<forall>(x, k) \<in> kheap_live s. x \<in> set (fat_private_of s # fat_streams s) \<longrightarrow> (x, k) \<in> kheap_live s'" by (rule file_close [OF v(1) j(3)])
  have st: "same_globals s s'" by (subst s'(2)) (simp add: same_globals_def)
  have kf: "\<forall>g k z. ?B \<inter> snd g = {} \<and> open_file s k (fst g) z (snd g) \<longrightarrow> open_file s' k (fst g) z (snd g)"
    using fat.close_spec [OF v(1), of "driver_handle f" "(item_bytes f, ?B)" x] j(3) s'(1) by auto
  have m: "kheap_meta \<subseteq> heap_private s" by (auto simp: heap_private_def)
  have fr: "same_outside ({} \<union> fat_pos s \<union> heap_private s) (mem s) (mem s')" by (rule same_outside_mono [OF s'(5)]) (use m in blast)
  note r = vfs_ready_frame [OF assms(1) fr _ s'(3,8) st s'(6), simplified]
  have tab: "fd_table s' = fd_table s"
  proof (rule nth_equalityI)
    fix i assume "i < length (fd_table s')"
    then have i: "i < 512" by simp
    have "elem_region (file_descriptors s) 4 i \<inter> kheap_meta = {}"
      using elem_within [OF i, of "file_descriptors s" 4] v(8) by (auto simp: fd_region_def)
    then show "fd_table s' ! i = fd_table s ! i" using i load32_frame [OF s'(5)] file_state_fields(3) [OF st] by (simp add: elem_region_def)
  qed simp
  have "open_fd s' l g z" if g: "vfs_apart f g" "open_fd s l g z" for g l z
  proof (rule open_fd_keep [OF g(2) _ s'(5) _ _ r(2) st])
    note ap = vfs_apartD [OF assms g(2,1)]
    have "open_file s (driver_handle g) (item_bytes g) z (driver_blocks g)" using g(2) by (simp add: open_fd_def)
    then show "open_file s' (driver_handle g) (item_bytes g) z (driver_blocks g)" using kf ap(2) by force
    show "kheap_meta \<inter> (desc_bytes g \<union> fd_region s) = {}" using ap(4) m vfs_ready_apart [OF assms(1)] by blast
    show "desc_block g \<in> kheap_live s'" using ap(3) s'(4) by blast
  qed
  moreover have "vfs_buffer its s' g out n" if "vfs_buffer its s f out n" "vfs_buffer its s g out n" for g out n
    by (rule vfs_buffer_keep [OF that(2) r(2,4) st s'(7)]) (use that(1) in \<open>auto simp: vfs_buffer_def file_buffer_def\<close>)
  moreover have "fclose h s = Some (0, s')" unfolding j(1) descriptor_dispatch(5) [OF v(3) fp(1) j(2)] by (rule s'(1))
  ultimately show ?thesis using r(1,2,4) s'(2,4,5,7) tab by blast
qed

interpretation vfs: file_service "vfs_ready img rs spc e its" open_fd vfs_apart "\<lambda>f. file_gives img rs spc e (item_bytes f)" "vfs_buffer its"
  "\<lambda>s. load_bytes (mem s)" "\<lambda>fd y. fseek fd (of_nat y) SEEK_SET" "\<lambda>fd n out. fread out (of_nat n) 1 fd" fclose
  for img rs spc e its
proof (unfold_locales, goal_cases)
  case (1 s h f x y)
  then show ?case using vfs_seek [OF 1] by blast
next
  case (2 s h f x n bs out)
  then show ?case using vfs_read [OF 2] by blast
next
  case (3 s h f x)
  obtain s' where s': "fclose h s = Some (0, s')" "vfs_ready img rs spc e its s'" "same_outside kheap_meta (mem s) (mem s')"
    "\<forall>g k z. vfs_apart f g \<and> open_fd s k g z \<longrightarrow> open_fd s' k g z"
    "\<forall>g out n. vfs_buffer its s f out n \<and> vfs_buffer its s g out n \<longrightarrow> vfs_buffer its s' g out n" using vfs_close [OF 3] by blast
  have "load_bytes (mem s') out n = load_bytes (mem s) out n" if "n < 2 ^ 32" "vfs_buffer its s f out n" for out n
    using that file_buffer_meta [of s "driver_blocks f" out n] by (intro load_bytes_frame [OF s'(3)]) (auto simp: vfs_buffer_def)
  then show ?case using s' by blast
qed

text \<open>The size of a file and what \<^verbatim>\<open>fstat\<close> reports as its flags, from its directory item. For a file that is not read-only the
  flags keep the value that was there.\<close>

definition item_size :: "u8 list \<Rightarrow> u32" where
  "item_size bs = load32 (\<lambda>a. bs ! unat a) 28"

definition item_flags :: "u8 list \<Rightarrow> u32 \<Rightarrow> u32" where
  "item_flags bs old = (if (ucast (bs ! 11) :: u32) AND FILE_STAT_READ_ONLY \<noteq> 0 then FILE_STAT_READ_ONLY else old)"

lemma stat_open_file:
  fixes s :: "'a fat_state_scheme"
  assumes "open_file s h bs x B" and "region st 8 \<inter> block_bytes B = {}"
  obtains m where "fat16_stat d h st s = (0, s\<lparr>mem := m\<rparr>)" and "same_outside (region st 8) (mem s) m"
    and "load32 m (stat_filesize st) = item_size bs" and "load32 m (stat_flags st) = item_flags bs (load32 (mem s) (stat_flags st))"
proof -
  obtain item copy k j l where o: "B = {(h, k), (item, j), (copy, l)}" "32 \<le> l" "load32 (mem s) (item_descriptor_item h) = item"
    "file_item (mem s) item copy bs" using assms(1) unfolding open_file_def by blast
  have fi: "load32 (mem s) (item_type item) = FAT_ITEM_TYPE_FILE" "load32 (mem s) (item_pointer item) = copy" "load_bytes (mem s) copy 32 = bs"
    using o(4) by (simp_all add: file_item_def)
  have b: "mem s (copy + of_nat i) = bs ! i" if "i < 32" for i using arg_cong [OF fi(3), of "\<lambda>xs. xs ! i"] that by simp
  have sz: "load32 (mem s) (item_filesize copy) = item_size bs"
    using b [of 28] b [of 29] b [of 30] b [of 31] by (simp add: load32_def item_size_def fat_fields add.assoc)
  let ?m1 = "store32 (mem s) (stat_filesize st) (item_size bs)"
  let ?m = "if (ucast (bs ! 11) :: u32) AND FILE_STAT_READ_ONLY \<noteq> 0 then store32 ?m1 (stat_flags st) FILE_STAT_READ_ONLY else ?m1"
  have st: "region (stat_filesize st) 4 \<subseteq> region st 8" "region (stat_flags st) 4 \<subseteq> region st 8" "region (stat_flags st) 4 \<inter> region (stat_filesize st) 4 = {}"
    using region_shift [of 4 4 8 st] region_mono [of 4 8 st] parts_apart [of 0 4 4 4 st] by (simp_all add: file_fields)
  have c32: "region copy 32 \<subseteq> block_bytes B" by (rule block_bytes_in [of copy l]) (use o(1,2) in auto)
  have "copy + of_nat 11 \<in> region copy 32" by (rule of_nat_offset_mem) simp_all
  then have "item_attribute copy \<notin> region (stat_filesize st) 4" using c32 st(1) assms(2) by (auto simp: fat_fields)
  then have "?m1 (item_attribute copy) = mem s (item_attribute copy)" using same_outsideD [OF store32_outside] by blast
  then have at: "?m1 (item_attribute copy) = bs ! 11" using b [of 11] by (simp add: fat_fields)
  have run: "fat16_stat d h st s = (0, s\<lparr>mem := ?m\<rparr>)" using o(3) fi(1,2) sz at by (simp add: fat16_stat_def Let_def)
  have f1: "same_outside (region st 8) (mem s) ?m1" by (rule same_outside_mono [OF store32_outside st(1)])
  have f2: "same_outside (region st 8) ?m1 (store32 ?m1 (stat_flags st) FILE_STAT_READ_ONLY)" by (rule same_outside_mono [OF store32_outside st(2)])
  have f: "same_outside (region st 8) (mem s) ?m" using f1 same_outside_trans [OF f1 f2] by simp
  have ld: "load32 ?m1 (stat_flags st) = load32 (mem s) (stat_flags st)" by (rule load32_frame [OF store32_outside st(3)])
  have lz: "load32 (store32 ?m1 (stat_flags st) FILE_STAT_READ_ONLY) (stat_filesize st) = item_size bs"
    using load32_frame [OF store32_outside, of "stat_filesize st" "stat_flags st" ?m1] st(3) by (simp add: Int_commute)
  show ?thesis by (rule that [OF run f]) (use ld lz in \<open>simp_all add: item_flags_def\<close>)
qed

section \<open>Opening\<close>

text \<open>The end of \<^verbatim>\<open>fopen\<close>, from the driver's handle on.\<close>

definition install_handle :: "u32 \<Rightarrow> u32 \<Rightarrow> 'a file_state_scheme \<Rightarrow> (u32 \<times> 'a file_state_scheme) option" where
  "install_handle d handle s = do {
     (result, desc, s) \<leftarrow> new_file_descriptor s;
     if result <s 0 then Some (result, s)
     else do {
       let s = s\<lparr>mem := store32 (mem s) (descriptor_d desc) d\<rparr>;
       let s = s\<lparr>mem := store32 (mem s) (descriptor_fs desc) (load32 (mem s) (disk_fs d))\<rparr>;
       let s = s\<lparr>mem := store32 (mem s) (descriptor_private_data desc) handle\<rparr>;
       Some (load32 (mem s) (descriptor_index desc), s)
     }
   }"

lemma fopen_install: "fopen filename mode s = do {
     (root, s) \<leftarrow> parse filename s;
     if root = 0 then Some (- EINVAL, s)
     else if load32 (mem s) (root_path root) = 0 then Some (- EINVAL, s)
     else do {
       let d = get_disk (load32 (mem s) (root_drive_number root)) s;
       if d = 0 then Some (- EIO, s)
       else if load32 (mem s) (disk_fs d) = 0 then Some (- EIO, s)
       else do {
         let filemode = str_2_filemode mode s;
         if filemode = FILE_MODE_INVALID then Some (- EINVAL, s)
         else do {
           (handle, s) \<leftarrow> call_open (load32 (mem s) (fs_open (load32 (mem s) (disk_fs d)))) d (load32 (mem s) (root_path root)) filemode s;
           if ISERR handle then Some (handle, s) else install_handle d handle s
         }
       }
     }
   }"
  unfolding fopen_def install_handle_def by (rule refl)

text \<open>The parsed path, in its blocks, as the driver takes it.\<close>

lemma parts_chain:
  fixes s :: "'a fat_state_scheme"
  assumes "fat_ready img rs spc e s" and "parts_at s part xs" and "block_bytes (set (part_blocks xs)) \<inter> fat_area s = {}"
  shows "part_chain s part (part_names xs)"
  using assms(2,3)
proof (induction xs arbitrary: part)
  case (Cons x xs)
  obtain b k r j cs where x: "x = ((b, k), (r, j), cs)" by (metis surj_pair)
  have p: "part = b" "b \<noteq> 0" "8 \<le> k" "(b, k) \<in> kheap_live s" "(r, j) \<in> kheap_live s" "length cs < j" "cstring (mem s) r cs"
    "load32 (mem s) (part_name b) = r" "parts_at s (load32 (mem s) (part_next b)) xs" using Cons.prems(1) by (simp_all add: x)
  have bs: "block_bytes (set (part_blocks (x # xs))) = region b k \<union> region r j \<union> block_bytes (set (part_blocks xs))"
    by (auto simp: block_bytes_def x)
  have l: "region b k \<inter> (heap_private s \<union> fat_locals s) = {}" if "(b, k) \<in> kheap_live s" for b k
  proof -
    have "fat_locals s \<inter> heap_area = {}" using assms(1) unfolding fat_ready_def by blast
    then show ?thesis using live_not_private [OF fat_ready_parts(1) [OF assms(1)] that] live_in_heap [OF fat_ready_parts(1) [OF assms(1)] that]
      unfolding heap_area_def by blast
  qed
  have r: "region b 8 \<subseteq> region b k" "region r (Suc (length cs)) \<subseteq> region r j" using p(3,6) by (intro region_mono; simp)+
  then have "head_part s part cs" using l [OF p(4)] l [OF p(5)] p(1,7,8) unfolding head_part_def Let_def by blast
  moreover have "(region b 8 \<union> region r (Suc (length cs))) \<inter> fat_area s = {}" using r Cons.prems(2) bs by blast
  moreover have "part_chain s (load32 (mem s) (part_next b)) (part_names xs)" by (rule Cons.IH [OF p(9)]) (use Cons.prems(2) bs in blast)
  ultimately show ?case using p(1,2,8) by (simp add: x)
qed simp

text \<open>\<^verbatim>\<open>fopen\<close> with a mode string that means reading, up to the call of the driver.\<close>

lemma fopen_parse:
  fixes s :: "'a file_state_scheme"
  assumes "vfs_ready img rs spc e its s" and "readable s p ps" and "good_path ps" and "path_drive ps = 0"
    and "readable s mode ms" and "ms \<noteq> []" and "0x72 \<le>s hd ms" and "kheap_cap s (path_need ps + Suc c)"
  obtains P part s1 where "grows P {} s s1" and "kheap_cap s1 (Suc c)" and "vfs_ready img rs spc e its s1"
    and "part_chain s1 part (path_parts (drop 3 ps))"
    and "fopen p mode s = Option.bind (fat16_open (primary_disk s1) part FILE_MODE_READ s1) (\<lambda>(handle, s2).
      if ISERR handle then Some (handle, s2) else install_handle (primary_disk s) handle s2)"
proof -
  note v = vfs_readyD [OF assms(1)] and fp = fat_ready_parts [OF vfs_readyD(1) [OF assms(1)]]
  obtain q k xs s1 where a: "parse p s = Some (q, s1)" "grows (set ((q, k) # part_blocks xs)) {} s s1" "path_at s1 q k 0 xs"
    "part_names xs = path_parts (drop 3 ps)" "kheap_cap s1 (Suc c)" using parse_ok [OF fp(1) assms(2,3,8)] assms(4) by auto
  let ?part = "load32 (mem s1) (root_path q)"
  have g: "grows (set ((q, k) # part_blocks xs)) ({} \<union> fat_pos s) s s1" by (rule grows_mono [OF a(2)]) simp
  note r = vfs_ready_grows(1,2) [OF assms(1) g _ kheap_cap_mono [OF a(5)], simplified]
  note st = file_state_fields [OF grows_state [OF a(2)]] and v1 = vfs_readyD [OF r(1)]
  have pa: "q \<noteq> 0" "load32 (mem s1) (root_drive_number q) = 0" "parts_at s1 ?part xs" using a(3) by (simp_all add: path_at_def)
  have "block_bytes (set (part_blocks xs)) \<subseteq> heap_private s" using grows_new_bytes [OF a(2)] by (auto simp: block_bytes_def)
  then have "block_bytes (set (part_blocks xs)) \<inter> fat_area s1 = {}" using fp(2) r(2) by blast
  note ch = parts_chain [OF v1(1) pa(3) this, unfolded a(4)]
  have "drop 3 ps \<noteq> []" using assms(3) by (auto simp: good_path_def)
  then have "path_parts (drop 3 ps) \<noteq> []" by (subst path_parts.simps) simp
  then have "?part \<noteq> 0" using ch by (cases "path_parts (drop 3 ps)") simp_all
  moreover have "str_2_filemode mode s1 = FILE_MODE_READ"
  proof -
    have "cstring (mem s1) mode ms" using readable_grows [OF assms(5) a(2)] by (simp add: readable_def)
    from strncmp_first [OF this v1(7)] assms(6,7) show ?thesis by (simp add: str_2_filemode_def)
  qed
  moreover have "load32 (mem s1) (fs_open (fat16_fs s1)) = fat16_open_address s1" using v1(3) by (simp add: fat16_fs_initialised_def)
  moreover have "FILE_MODE_READ \<noteq> FILE_MODE_INVALID" by (simp add: kernel_consts)
  ultimately have f: "fopen p mode s = Option.bind (fat16_open (primary_disk s1) ?part FILE_MODE_READ s1) (\<lambda>(handle, s2).
      if ISERR handle then Some (handle, s2) else install_handle (primary_disk s) handle s2)"
    using a(1) pa(1,2) v1(4-6) st(10) by (simp add: fopen_install get_disk_def call_open_def Let_def)
  show ?thesis by (rule that [OF a(2,5) r(1) ch f])
qed

lemma fd_table_frame:
  fixes s :: "'a file_state_scheme"
  assumes "same_outside X (mem s) (mem s')" and "X \<inter> fd_region s = {}" and "file_descriptors s' = file_descriptors s"
  shows "fd_table s' = fd_table s"
proof (rule nth_equalityI)
  fix i assume "i < length (fd_table s')"
  then have i: "i < 512" by simp
  have "elem_region (file_descriptors s) 4 i \<inter> X = {}"
    using elem_within [OF i, of "file_descriptors s" 4] assms(2) by (auto simp: fd_region_def)
  then show "fd_table s' ! i = fd_table s ! i" using i load32_frame [OF assms(1)] assms(3) by (simp add: elem_region_def)
qed simp

text \<open>The handle goes into the lowest empty slot.\<close>

lemma install_ok:
  fixes s :: "'a file_state_scheme"
  assumes "vfs_ready img rs spc e its s" and "open_file s handle bs x B" and "kheap_cap s (Suc (Suc c))"
    and "find (\<lambda>i. fd_table s ! i = 0) [0..<512] = Some j"
  shows "\<exists>f s'. install_handle (primary_disk s) handle s = Some (of_nat j, s') \<and> open_fd s' (of_nat j) f x \<and> item_bytes f = bs
    \<and> driver_blocks f = B \<and> driver_handle f = handle \<and> fd_table s' = (fd_table s)[j := fst (desc_block f)]
    \<and> grows {desc_block f} (elem_region (file_descriptors s) 4 j) s s' \<and> kheap_cap s' (Suc c) \<and> vfs_ready img rs spc e its s'"
proof -
  note v = vfs_readyD [OF assms(1)] and fp = fat_ready_parts [OF vfs_readyD(1) [OF assms(1)]] and ap = vfs_ready_apart [OF assms(1)]
  let ?d = "primary_disk s" and ?E = "elem_region (file_descriptors s) 4 j"
  have j: "j < 512" using assms(4) by (auto simp: find_Some_iff)
  have fd: "fd_region s \<inter> (kheap_meta \<union> heap_area) = {}" using v(8) by blast
  have E: "?E \<subseteq> fd_region s" using elem_within [OF j, of "file_descriptors s" 4] by (simp add: fd_region_def)
  obtain q k s1 where a: "fill_slot j s = Some (0, q, s1)" "q \<noteq> 0" "fd_table s1 = (fd_table s)[j := q]" "load32 (mem s1) (descriptor_index q) = of_nat j"
    "16 \<le> k" "grows {(q, k)} ?E s s1" "kheap_cap s1 (Suc c)" using fill_slot_ok [OF fp(1) assms(3) fd j] by blast
  let ?m = "store32 (store32 (store32 (mem s1) (descriptor_d q) ?d) (descriptor_fs q) (fat16_fs s)) (descriptor_private_data q) handle"
  define s2 where "s2 = s1\<lparr>mem := ?m\<rparr>"
  have q16: "region q 16 \<subseteq> region q k" by (rule region_mono [OF a(5)])
  have f: "same_outside (region q 16) (mem s1) ?m"
    by (rule same_outside_mono [OF same_outside_trans [OF same_outside_trans [OF store32_outside store32_outside] store32_outside]])
      (use descriptor_fields_in [of q] in blast)
  have g: "grows {(q, k)} ?E s s2" and cap: "kheap_cap s2 (Suc c)"
    using grows_fill [OF a(6) _ q16 f] a(7) by (simp_all add: s2_def)
  have new: "region q k \<subseteq> heap_private s" using grows_new_private [OF g] by simp
  have R: "?E \<inter> (fat_area s \<union> vfs_globals s \<union> root_area s its) = {}" using E v(9) ap by blast
  have gp: "grows {(q, k)} (?E \<union> fat_pos s) s s2" by (rule grows_mono [OF g]) auto
  have r: "vfs_ready img rs spc e its s2" "fat_area s2 = fat_area s"
    using vfs_ready_grows [OF assms(1) gp R kheap_cap_mono [OF cap]] by simp_all
  note st = file_state_fields [OF grows_state [OF g]]
  let ?f = "\<lparr>item_bytes = bs, driver_blocks = B, desc_block = (q, k), driver_handle = handle\<rparr>"
  have "file_descriptors s1 = file_descriptors s" "fd_region s1 = fd_region s" using file_state_fields(3,13) [OF grows_state [OF a(6)]] by simp_all
  moreover have "region q 16 \<inter> fd_region s = {}" using q16 new ap by blast
  ultimately have tab: "fd_table s2 = (fd_table s)[j := q]"
    using fd_table_frame [of "region q 16" s1 s2] f a(3) st(3) by (simp add: s2_def)
  have live: "(q, k) \<in> kheap_live s2" "(q, k) \<notin> B" using growsD(2,3) [OF g] open_file_blocks(1) [OF assms(2)] by auto
  have db: "desc_bytes ?f = region q k" by (simp add: desc_bytes_def)
  have "descriptor_at s2 j ?f"
    unfolding descriptor_at_def Let_def db r(2) st using j tab a(5) live new fp(2)
    by (auto simp: s2_def file_fields field_other)
  moreover have "open_file s2 handle bs x B"
  proof (rule open_file_frame [OF assms(2) growsD(4) [OF g]])
    note ob = open_file_blocks [OF assms(2)]
    show "block_bytes B \<inter> (?E \<union> heap_private s) = {}" using live_bytes(1,2) [OF fp(1) ob(1)] E fd by blast
    show "B \<subseteq> kheap_live s2" using growsD(2) [OF g] ob(1) by blast
  qed (rule r(2))
  ultimately have "open_fd s2 (of_nat j) ?f x" unfolding open_fd_def by auto
  moreover have "install_handle ?d handle s = Some (of_nat j, s2)"
  proof -
    have "new_file_descriptor s = Some (0, q, s1)"
      using new_file_descriptor_loop_eq [of 0 s] assms(4) a(1) by (simp add: new_file_descriptor_def)
    moreover have "load32 (store32 (mem s1) (descriptor_d q) ?d) (disk_fs ?d) = fat16_fs s"
    proof -
      have dm: "region (disk_fs ?d) 4 \<subseteq> fat_area s" using disk_fields_in(3) [of ?d] by (auto simp: fat_area_def)
      have "region (disk_fs ?d) 4 \<inter> (?E \<union> heap_private s) = {}" using dm fp(2) R by blast
      moreover have "region (disk_fs ?d) 4 \<inter> region (descriptor_d q) 4 = {}" using dm fp(2) new q16 descriptor_fields_in(4) [of q] by blast
      ultimately show ?thesis using grows_load32 [OF a(6)] load32_frame [OF store32_outside] v(4) by simp
    qed
    moreover have "load32 ?m (descriptor_index q) = of_nat j" using a(4) by (simp add: file_fields field_other_base)
    ultimately show ?thesis by (simp add: install_handle_def s2_def Let_def)
  qed
  ultimately show ?thesis using tab g cap r(1) by (intro exI [of _ ?f] exI [of _ s2]) simp
qed

text \<open>For a path that leads to a file the driver opens it, and all that is left is to install the handle.\<close>

lemma fopen_driver:
  fixes s :: "'a file_state_scheme"
  assumes "vfs_ready img rs spc e its s" and "readable s p ps" and "good_path ps" and "path_drive ps = 0"
    and "readable s mode ms" and "ms \<noteq> []" and "0x72 \<le>s hd ms" and "walks img spc e its (path_parts (drop 3 ps)) bs w"
    and "kheap_cap s (path_need ps + Suc (w + Suc c))"
  obtains P h B s2 where "grows (P \<union> B) (fat_locals s \<union> fat_pos s) s s2" and "P \<inter> B = {}" and "vfs_ready img rs spc e its s2" and "open_file s2 h bs 0 B"
    and "kheap_cap s2 (Suc c)" and "fd_table s2 = fd_table s" and "fopen p mode s = install_handle (primary_disk s2) h s2" and "B \<noteq> {}"
proof -
  obtain P part s1 where 1: "grows P {} s s1" "kheap_cap s1 (Suc (w + Suc c))" "vfs_ready img rs spc e its s1" "part_chain s1 part (path_parts (drop 3 ps))"
    "fopen p mode s = Option.bind (fat16_open (primary_disk s1) part FILE_MODE_READ s1) (\<lambda>(handle, s2).
      if ISERR handle then Some (handle, s2) else install_handle (primary_disk s) handle s2)"
    by (rule fopen_parse [OF assms(1-7,9)])
  note v1 = vfs_readyD [OF 1(3)] and f1 = file_state_fields [OF grows_state [OF 1(1)]]
  have g1: "grows P ({} \<union> fat_pos s) s s1" by (rule grows_mono [OF 1(1)]) simp
  note p1 = vfs_ready_grows(3) [OF assms(1) g1 _ kheap_cap_mono [OF 1(2)], simplified]
  obtain h B s2 where 2: "fat16_open (primary_disk s1) part FILE_MODE_READ s1 = Some (h, s2)" "open_file s2 h bs 0 B"
    "grows B (fat_locals s1 \<union> fat_pos s1) s1 s2" "kheap_cap s2 (Suc c)" using open_path [OF v1(1,2) 1(4) assms(8) 1(2)] by blast
  note f2 = file_state_fields [OF grows_state [OF 2(3)]]
  have "fat_locals s1 \<inter> (fat_area s1 \<union> vfs_globals s1 \<union> root_area s1 its) = {}"
    using fat_ready_parts(5) [OF v1(1)] vfs_ready_apart [OF 1(3)] by blast
  from vfs_ready_grows(1) [OF 1(3) 2(3) this kheap_cap_mono [OF 2(4)]] have r2: "vfs_ready img rs spc e its s2" by simp
  obtain k where k: "(h, k) \<in> B" using 2(2) unfolding open_file_def by blast
  then have "(h, k) \<in> kheap_live s2" using open_file_blocks(1) [OF 2(2)] by blast
  from heap_pointer_not_error [OF growsD(1) [OF 2(3)] this] have fo: "fopen p mode s = install_handle (primary_disk s2) h s2"
    using 1(5) 2(1) f1(10) f2(10) by simp
  have "fd_table s1 = fd_table s"
    by (rule fd_table_frame [OF growsD(4) [OF 1(1)] _ f1(3)]) (use vfs_ready_apart [OF assms(1)] in blast)
  moreover have "fd_table s2 = fd_table s1"
    by (rule fd_table_frame [OF growsD(4) [OF 2(3)] _ f2(3)]) (use vfs_ready_apart [OF 1(3)] fat_ready_parts(3) [OF v1(1)] in blast)
  moreover have "grows P (fat_locals s \<union> fat_pos s) s s1" by (rule grows_mono [OF 1(1)]) simp
  from grows_trans [OF this 2(3)] have "grows (P \<union> B) (fat_locals s \<union> fat_pos s) s s2" using f1(12) p1 by auto
  moreover have "P \<inter> B = {}" using growsD(2) [OF 1(1)] growsD(3) [OF 2(3)] by blast
  ultimately show ?thesis using that [OF _ _ r2 2(2,4) _ fo] k by auto
qed

lemma fopen_ok:
  fixes s :: "'a file_state_scheme"
  assumes "vfs_ready img rs spc e its s" and "readable s p ps" and "good_path ps" and "path_drive ps = 0"
    and "readable s mode ms" and "ms \<noteq> []" and "0x72 \<le>s hd ms" and "walks img spc e its (path_parts (drop 3 ps)) bs w"
    and "kheap_cap s (path_need ps + (w + 2 + Suc c))" and "find (\<lambda>i. fd_table s ! i = 0) [0..<512] = Some j"
  shows "\<exists>P f s'. fopen p mode s = Some (of_nat j, s') \<and> open_fd s' (of_nat j) f 0 \<and> item_bytes f = bs
    \<and> fd_table s' = (fd_table s)[j := fst (desc_block f)] \<and> vfs_ready img rs spc e its s' \<and> kheap_cap s' (Suc c)
    \<and> grows (P \<union> insert (desc_block f) (driver_blocks f)) (fat_locals s \<union> fat_pos s \<union> elem_region (file_descriptors s) 4 j) s s'
    \<and> P \<inter> insert (desc_block f) (driver_blocks f) = {}"
proof -
  let ?E = "elem_region (file_descriptors s) 4 j"
  have cap: "kheap_cap s (path_need ps + Suc (w + Suc (Suc c)))" using assms(9) by simp
  obtain P h B s2 where 2: "grows (P \<union> B) (fat_locals s \<union> fat_pos s) s s2" "P \<inter> B = {}" "vfs_ready img rs spc e its s2" "open_file s2 h bs 0 B"
    "kheap_cap s2 (Suc (Suc c))" "fd_table s2 = fd_table s" "fopen p mode s = install_handle (primary_disk s2) h s2"
    by (rule fopen_driver [OF assms(1-8) cap])
  obtain f s3 where 3: "install_handle (primary_disk s2) h s2 = Some (of_nat j, s3)" "open_fd s3 (of_nat j) f 0" "item_bytes f = bs"
    "driver_blocks f = B" "fd_table s3 = (fd_table s2)[j := fst (desc_block f)]" "grows {desc_block f} (elem_region (file_descriptors s2) 4 j) s2 s3"
    "kheap_cap s3 (Suc c)" "vfs_ready img rs spc e its s3"
    using install_ok [OF 2(3,4,5)] assms(10) 2(6) by auto
  have "grows (P \<union> B) (fat_locals s \<union> fat_pos s \<union> ?E) s s2" by (rule grows_mono [OF 2(1)]) auto
  moreover have "elem_region (file_descriptors s2) 4 j \<subseteq> (fat_locals s \<union> fat_pos s \<union> ?E) \<union> heap_private s"
    using file_state_fields(3) [OF grows_state [OF 2(1)]] by auto
  ultimately have "grows (P \<union> B \<union> {desc_block f}) (fat_locals s \<union> fat_pos s \<union> ?E) s s3" by (intro grows_trans [OF _ 3(6)])
  then have "grows (P \<union> insert (desc_block f) (driver_blocks f)) (fat_locals s \<union> fat_pos s \<union> ?E) s s3" using 3(4) by (simp add: insert_commute)
  moreover have "P \<inter> insert (desc_block f) (driver_blocks f) = {}"
    using 2(2) growsD(2) [OF 2(1)] growsD(3) [OF 3(6)] 3(4) by auto
  ultimately show ?thesis using 2(6,7) 3 by (intro exI [of _ P] exI [of _ f] exI [of _ s3]) simp
qed

text \<open>What \<^verbatim>\<open>fopen\<close> writes leaves the files that are open already open.\<close>

lemma fopen_keeps_open:
  fixes s :: "'a file_state_scheme"
  assumes "vfs_ready img rs spc e its s" and "open_fd s k g z" and "grows C (fat_locals s \<union> fat_pos s \<union> elem_region (file_descriptors s) 4 j) s s'"
    and "fd_table s ! j = 0" and "j < 512" and "kheap_cap s' 1"
  shows "open_fd s' k g z" and "insert (desc_block g) (driver_blocks g) \<inter> C = {}"
proof -
  let ?E = "\<lambda>i. elem_region (file_descriptors s) 4 i" and ?S = "fat_locals s \<union> fat_pos s \<union> elem_region (file_descriptors s) 4 j"
  let ?R = "fat_locals s \<union> elem_region (file_descriptors s) 4 j"
  note v = vfs_readyD [OF assms(1)] and fp = fat_ready_parts [OF vfs_readyD(1) [OF assms(1)]] and ap = vfs_ready_apart [OF assms(1)]
  obtain l where l: "k = of_nat l" "descriptor_at s l g" "open_file s (driver_handle g) (item_bytes g) z (driver_blocks g)"
    by (rule open_fdE [OF assms(1,2)])
  note db = descriptor_block [OF assms(1) l(2)] and ob = open_file_blocks [OF l(3)]
  have l5: "l < 512" "fd_table s ! l = fst (desc_block g)" using l(2) by (simp_all add: descriptor_at_def Let_def)
  have "fst (desc_block g) \<noteq> 0" using live_nonzero [OF fp(1), of "fst (desc_block g)" "snd (desc_block g)"] db(2) by simp
  then have ne: "l \<noteq> j" using l5(2) assms(4) by auto
  have E: "?E l \<subseteq> fd_region s" "?E j \<subseteq> fd_region s" "?E l \<inter> ?E j = {}"
    using elem_within [OF l5(1), of "file_descriptors s" 4] elem_within [OF assms(5), of "file_descriptors s" 4] elems_apart [OF l5(1) assms(5) ne]
    by (simp_all add: fd_region_def)
  have R: "?R \<inter> (fat_area s \<union> vfs_globals s \<union> root_area s its) = {}" using E(2) v(9) ap fp(5) by blast
  have gp: "grows C (?R \<union> fat_pos s) s s'" by (rule grows_mono [OF assms(3)]) auto
  note fa = vfs_ready_grows(2) [OF assms(1) gp R assms(6)] and g = growsD [OF assms(3)]
  have h: "(fat_locals s \<union> fd_region s) \<inter> heap_area = {}" using v(8) v(1) unfolding fat_ready_def by blast
  have hb: "x \<inter> (?S \<union> heap_private s) = {}" if "x \<subseteq> heap_area" "x \<inter> heap_private s = {}" "x \<inter> fat_area s = {}" for x using that h E(2) fp(3) by blast
  have "?E l \<inter> (?S \<union> heap_private s) = {}" using E ap fp(3) by blast
  moreover have "desc_bytes g \<inter> (?S \<union> heap_private s) = {}" using hb [OF db(5)] db(3,4) by blast
  ultimately have "(?S \<union> heap_private s) \<inter> (desc_bytes g \<union> ?E l) = {}" by blast
  moreover have "desc_block g \<in> kheap_live s'" using db(2) g(2) by blast
  ultimately have "descriptor_at s' l g" by (intro descriptor_at_frame [OF l(2) g(4) _ _ fa grows_state [OF assms(3)]])
  moreover have "open_file s' (driver_handle g) (item_bytes g) z (driver_blocks g)"
    by (rule open_file_frame [OF l(3) g(4) hb [OF live_bytes(2,1) [OF fp(1) ob(1)] ob(2)] _ fa]) (use ob(1) g(2) in blast)
  ultimately show "open_fd s' k g z" using l(1) unfolding open_fd_def by blast
  show "insert (desc_block g) (driver_blocks g) \<inter> C = {}" using db(2) ob(1) g(3) by blast
qed

text \<open>A path that breaks off, and a table that is full. When the first name is not there the driver has not used its streams.\<close>

lemma fopen_missing:
  fixes s :: "'a file_state_scheme"
  assumes "vfs_ready img rs spc e its s" and "readable s p ps" and "good_path ps" and "path_drive ps = 0" and "path_parts (drop 3 ps) = cs # rest"
    and "readable s mode ms" and "ms \<noteq> []" and "0x72 \<le>s hd ms" and "kheap_cap s (path_need ps + Suc (Suc c))" and "find_name cs its = None"
  obtains C s' where "fopen p mode s = Some (- EIO, s')" and "grows C (fat_locals s) s s'" and "C \<noteq> {}"
    and "vfs_ready img rs spc e its s'" and "kheap_cap s' (Suc c)"
proof -
  obtain P part s1 where 1: "grows P {} s s1" "kheap_cap s1 (Suc (Suc c))" "vfs_ready img rs spc e its s1" "part_chain s1 part (cs # rest)"
    "fopen p mode s = Option.bind (fat16_open (primary_disk s1) part FILE_MODE_READ s1) (\<lambda>(handle, s2).
      if ISERR handle then Some (handle, s2) else install_handle (primary_disk s) handle s2)"
    by (rule fopen_parse [OF assms(1-4,6-9), unfolded assms(5)])
  obtain d k s2 where 2: "fat16_open (primary_disk s1) part FILE_MODE_READ s1 = Some (- EIO, s2)" "grows {(d, k)} (fat_locals s1) s1 s2" "kheap_cap s2 (Suc c)"
    using open_missing [OF vfs_readyD(1,2) [OF 1(3)] chain_single(1) [OF 1(4)] 1(2) assms(10)] by blast
  have "ISERR (- EIO)" by (simp add: ISERR_def kernel_consts word_sless_alt)
  then have f: "fopen p mode s = Some (- EIO, s2)" using 1(5) 2(1) by simp
  have g: "grows (P \<union> {(d, k)}) (fat_locals s) s s2"
    using grows_trans [OF grows_mono [OF 1(1), of "fat_locals s"] 2(2)] file_state_fields(12) [OF grows_state [OF 1(1)]] by simp
  have "grows {(d, k)} (fat_locals s1 \<union> fat_pos s1) s1 s2" by (rule grows_mono [OF 2(2)]) auto
  moreover have "fat_locals s1 \<inter> (fat_area s1 \<union> vfs_globals s1 \<union> root_area s1 its) = {}"
    using fat_ready_parts(5) [OF vfs_readyD(1) [OF 1(3)]] vfs_ready_apart [OF 1(3)] by blast
  ultimately have "vfs_ready img rs spc e its s2" by (rule vfs_ready_grows(1) [OF 1(3) _ _ kheap_cap_mono [OF 2(3)]]) simp
  then show ?thesis using that [OF f g _ _ 2(3)] by simp
qed

lemma fopen_broken:
  fixes s :: "'a file_state_scheme"
  assumes "vfs_ready img rs spc e its s" and "readable s p ps" and "good_path ps" and "path_drive ps = 0"
    and "readable s mode ms" and "ms \<noteq> []" and "0x72 \<le>s hd ms" and "breaks img spc e its (path_parts (drop 3 ps)) w"
    and "0 < w \<Longrightarrow> null_item_typed s" and "kheap_cap s (path_need ps + Suc (w + Suc c))"
  obtains C s' where "fopen p mode s = Some (- EIO, s')" and "grows C (fat_locals s \<union> fat_pos s) s s'" and "C \<noteq> {}"
    and "vfs_ready img rs spc e its s'" and "kheap_cap s' (Suc c)"
proof -
  obtain P part s1 where 1: "grows P {} s s1" "kheap_cap s1 (Suc (w + Suc c))" "vfs_ready img rs spc e its s1" "part_chain s1 part (path_parts (drop 3 ps))"
    "fopen p mode s = Option.bind (fat16_open (primary_disk s1) part FILE_MODE_READ s1) (\<lambda>(handle, s2).
      if ISERR handle then Some (handle, s2) else install_handle (primary_disk s) handle s2)"
    by (rule fopen_parse [OF assms(1-7,10)])
  note v1 = vfs_readyD [OF 1(3)]
  have g1: "grows P ({} \<union> fat_pos s) s s1" "grows P (fat_locals s \<union> fat_pos s) s s1" by (rule grows_mono [OF 1(1)]; simp)+
  note p1 = vfs_ready_grows(3) [OF assms(1) g1(1) _ kheap_cap_mono [OF 1(2)], simplified]
  have nt: "null_item_typed s1" if "0 < w" by (rule null_item_grows [OF vfs_readyD(1) [OF assms(1)] assms(9) [OF that] g1(2)])
  obtain B s2 where 2: "fat16_open (primary_disk s1) part FILE_MODE_READ s1 = Some (- EIO, s2)" "grows B (fat_locals s1 \<union> fat_pos s1) s1 s2" "B \<noteq> {}"
    "kheap_cap s2 (Suc c)" using open_broken [OF v1(1,2) 1(4) assms(8) nt 1(2)] by blast
  have "ISERR (- EIO)" by (simp add: ISERR_def kernel_consts word_sless_alt)
  then have f: "fopen p mode s = Some (- EIO, s2)" using 1(5) 2(1) by simp
  have g: "grows (P \<union> B) (fat_locals s \<union> fat_pos s) s s2"
    using grows_trans [OF g1(2) 2(2)] file_state_fields(12) [OF grows_state [OF 1(1)]] p1 by auto
  have "fat_locals s1 \<inter> (fat_area s1 \<union> vfs_globals s1 \<union> root_area s1 its) = {}"
    using fat_ready_parts(5) [OF v1(1)] vfs_ready_apart [OF 1(3)] by blast
  from vfs_ready_grows(1) [OF 1(3) 2(2) this kheap_cap_mono [OF 2(4)]] have "vfs_ready img rs spc e its s2" by simp
  then show ?thesis using that [OF f g _ _ 2(4)] 2(3) by simp
qed

lemma fopen_full:
  fixes s :: "'a file_state_scheme"
  assumes "vfs_ready img rs spc e its s" and "readable s p ps" and "good_path ps" and "path_drive ps = 0"
    and "readable s mode ms" and "ms \<noteq> []" and "0x72 \<le>s hd ms" and "walks img spc e its (path_parts (drop 3 ps)) bs w"
    and "kheap_cap s (path_need ps + Suc (w + Suc c))" and "find (\<lambda>i. fd_table s ! i = 0) [0..<512] = None"
  shows "\<exists>C s'. fopen p mode s = Some (- ENOMEM, s') \<and> grows C (fat_locals s \<union> fat_pos s) s s' \<and> C \<noteq> {}
    \<and> vfs_ready img rs spc e its s'"
proof -
  obtain P h B s2 where 2: "grows (P \<union> B) (fat_locals s \<union> fat_pos s) s s2" "fd_table s2 = fd_table s" "fopen p mode s = install_handle (primary_disk s2) h s2" "B \<noteq> {}"
    "vfs_ready img rs spc e its s2"
    by (rule fopen_driver [OF assms(1-9)])
  have "new_file_descriptor s2 = Some (- ENOMEM, 0, s2)"
    using new_file_descriptor_loop_eq [of 0 s2] assms(10) by (simp add: new_file_descriptor_def 2(2))
  moreover have "- ENOMEM <s 0" by (simp add: kernel_consts word_sless_alt)
  ultimately have "fopen p mode s = Some (- ENOMEM, s2)" using 2(3) by (simp add: install_handle_def)
  then show ?thesis using 2(1,4,5) by blast
qed

end
