(* ===== verification/File_Boot.thy ===== *)
theory File_Boot
  imports File_Session
begin

text \<open>
  The file system from the start of the kernel: \<^verbatim>\<open>fs::init\<close> registers the driver, \<^verbatim>\<open>disk::search_and_initialize\<close> asks the
  registered drivers to mount the disk. The lemmas end in \<open>vfs_ready\<close>, the invariant that \<^verbatim>\<open>fopen\<close> and the operations on open
  files rest on; the properties of whole sessions follow.
\<close>

section \<open>The kernel's image\<close>

text \<open>What the linker provides: the globals and locals of the file system at places of their own, off the screen and the heap,
  the driver's function pointers and the string literals.\<close>

fun pairwise_apart :: "'a set list \<Rightarrow> bool" where
  "pairwise_apart [] \<longleftrightarrow> True"
| "pairwise_apart (x # xs) \<longleftrightarrow> list_all (\<lambda>y. x \<inter> y = {}) xs \<and> pairwise_apart xs"

definition kernel_regions :: "'a file_state_scheme \<Rightarrow> u32 set list" where
  "kernel_regions s = [region (filesystems s) 2048, fd_region s, region (fat16_fs s) 279, region (literal_r s) 2, region (fat16_literal s) 6,
     region (primary_disk s) 20, fat_locals s, screen_region, kheap_meta \<union> heap_area]"

definition driver_name :: "u8 list" where
  "driver_name = [0x46, 0x41, 0x54, 0x31, 0x36]"

lemma driver_name_length [simp]: "length driver_name = 5" "Suc 5 = (6 :: nat)"
  by (simp_all add: driver_name_def)

definition linked :: "'a file_state_scheme \<Rightarrow> bool" where
  "linked s \<longleftrightarrow> fat16_fs s \<noteq> 0 \<and> primary_disk s \<noteq> 0 \<and> filesystems s \<noteq> 0 \<and> fat16_fs_initialised s
     \<and> cstring (mem s) (literal_r s) [0x72] \<and> cstring (mem s) (fat16_literal s) driver_name
     \<and> pairwise_apart (kernel_regions s)"

lemma linkedD:
  assumes "linked s"
  shows "fat16_fs s \<noteq> 0" and "primary_disk s \<noteq> 0" and "filesystems s \<noteq> 0" and "fat16_fs_initialised s"
    and "cstring (mem s) (literal_r s) [0x72]" and "cstring (mem s) (fat16_literal s) driver_name"
  using assms by (simp_all add: linked_def)

lemma linked_apart:
  fixes s :: "'a file_state_scheme"
  assumes "linked s"
  shows "region (filesystems s) 2048 \<inter> (fd_region s \<union> region (fat16_fs s) 279 \<union> region (literal_r s) 2 \<union> region (fat16_literal s) 6
      \<union> region (primary_disk s) 20 \<union> fat_locals s \<union> screen_region \<union> kheap_meta \<union> heap_area) = {}"
    and "fd_region s \<inter> (region (fat16_fs s) 279 \<union> region (literal_r s) 2 \<union> region (fat16_literal s) 6
      \<union> region (primary_disk s) 20 \<union> fat_locals s \<union> screen_region \<union> kheap_meta \<union> heap_area) = {}"
    and "region (fat16_fs s) 279 \<inter> (region (literal_r s) 2 \<union> region (fat16_literal s) 6
      \<union> region (primary_disk s) 20 \<union> fat_locals s \<union> screen_region \<union> kheap_meta \<union> heap_area) = {}"
    and "region (literal_r s) 2 \<inter> (region (primary_disk s) 20 \<union> fat_locals s \<union> screen_region \<union> kheap_meta \<union> heap_area) = {}"
    and "region (fat16_literal s) 6 \<inter> (region (primary_disk s) 20 \<union> fat_locals s \<union> screen_region \<union> kheap_meta \<union> heap_area) = {}"
    and "region (primary_disk s) 20 \<inter> (fat_locals s \<union> screen_region \<union> kheap_meta \<union> heap_area) = {}"
    and "fat_locals s \<inter> (screen_region \<union> kheap_meta \<union> heap_area) = {}"
  using assms by (simp_all add: linked_def kernel_regions_def Int_Un_distrib)

lemma linked_frame:
  fixes s :: "'a file_state_scheme"
  assumes "linked s" and f: "same_outside X (mem s) (mem s')" and "X \<inter> (region (fat16_fs s) 24 \<union> region (literal_r s) 2 \<union> region (fat16_literal s) 6) = {}"
    and g: "same_globals s s'"
  shows "linked s'"
proof -
  note e = file_state_fields [OF g]
  have "filesystems s' = filesystems s" "fat16_literal s' = fat16_literal s" using g by (simp_all add: same_globals_def)
  moreover have "fat16_fs_initialised s'" by (rule initialised_frame [OF linkedD(4) [OF assms(1)] f _ g]) (use assms(3) in blast)
  moreover have "cstring (mem s') (literal_r s) [0x72]"
    by (rule cstring_frame [OF f _ linkedD(5) [OF assms(1)]]) (use assms(3) in \<open>auto simp: numeral_2_eq_2\<close>)
  moreover have "cstring (mem s') (fat16_literal s) driver_name"
    by (rule cstring_frame [OF f _ linkedD(6) [OF assms(1)]]) (use assms(3) in auto)
  ultimately show ?thesis using assms(1) e by (simp add: linked_def kernel_regions_def)
qed

section \<open>Registering the driver\<close>

lemma screen_off_heap: "screen_region \<inter> kheap_meta = {}" "screen_region \<inter> heap_area = {}"
  by (auto simp: screen_region_def kheap_meta_def table_region_def heap_area_def region_interval kernel_consts)

lemma memset_load32:
  assumes "region a 4 \<subseteq> region p (unat n)"
  shows "load32 (memset m p 0 n) a = 0"
proof -
  have "a + of_nat i \<in> region p (unat n)" if "i < 4" for i using of_nat_offset_mem [OF that, of a] assms by auto
  from this [of 0] this [of 1] this [of 2] this [of 3] show ?thesis by (simp add: load32_def memset_inside)
qed

lemma fs_init_ok:
  fixes s :: "'a file_state_scheme"
  assumes "linked s" and "kheap_inv s" and "tty_ok s"
  obtains s' where "fs_init s = Some s'" and "linked s'" and "same_globals s s'" and "kheap_inv s'" and "kheap_live s' = kheap_live s" and "tty_ok s'"
    and "load32 (mem s') (filesystems s) = fat16_fs s" and "\<forall>i < 4. fd_table s' ! i = 0" and "\<forall>i < 512. 4 \<le> i \<longrightarrow> fd_table s' ! i = fd_table s ! i"
    and "same_outside (region (filesystems s) 2048 \<union> fd_region s \<union> region (fs_name (fat16_fs s)) 6 \<union> screen_region) (mem s) (mem s')"
    and "\<exists>m r c l b. s' = s\<lparr>mem := m, terminal_row := r, terminal_column := c, terminal_colour := l, terminal_buffer := b\<rparr>"
    and "\<forall>i < 512. 0 < i \<longrightarrow> load32 (mem s') (elem_addr (filesystems s) 4 i) = 0"
proof -
  note l = linkedD [OF assms(1)] and ap = linked_apart [OF assms(1)]
  let ?fs = "filesystems s" and ?fd = "file_descriptors s" and ?nm = "fs_name (fat16_fs s)" and ?name = driver_name
  let ?W = "region ?fs 2048 \<union> fd_region s \<union> region ?nm 6 \<union> screen_region"
  have nm: "region ?nm 6 \<subseteq> region (fat16_fs s) 279" "region ?nm 6 \<inter> region (fat16_fs s) 24 = {}"
    using region_shift [of 24 6 279 "fat16_fs s"] parts_apart [of 0 24 24 6 "fat16_fs s"] by (auto simp: file_fields)
  have fd16: "region ?fd 16 \<subseteq> fd_region s" by (simp add: fd_region_def region_mono)
  let ?m1 = "memset (mem s) ?fd 0 16" and ?m2 = "memset (memset (mem s) ?fd 0 16) ?fs 0 2048"
  have f1: "same_outside (region ?fd 16) (mem s) ?m1" "same_outside (region ?fs 2048) ?m1 ?m2"
    using memset_outside [of ?fd 16 "mem s" 0] memset_outside [of ?fs 2048 ?m1 0] by simp_all
  have f2: "same_outside (region ?fd 16 \<union> region ?fs 2048) (mem s) ?m2" by (rule same_outside_trans [OF f1])
  have "region (fat16_literal s) (Suc (length ?name)) \<inter> (region ?fd 16 \<union> region ?fs 2048) = {}" using ap(1,2) fd16 by auto
  from cstring_frame [OF f2 this l(6)] have lit: "cstring ?m2 (fat16_literal s) ?name" .
  have "region ?nm (Suc (length ?name)) \<inter> region (fat16_literal s) (Suc (length ?name)) = {}" using nm(1) ap(3) by auto
  then obtain m3 where m3: "strcpy ?m2 ?nm (fat16_literal s) = Some (?nm, m3)" "cstring m3 ?nm ?name" "same_outside (region ?nm 6) ?m2 m3"
    using strcpy_copies [OF lit] by auto
  let ?s3 = "s\<lparr>mem := m3\<rparr>"
  have z: "load32 m3 ?fs = 0"
  proof -
    have "load32 ?m2 ?fs = 0" by (intro memset_load32 region_mono) simp
    moreover have "region ?fs 4 \<inter> region ?nm 6 = {}" using region_mono [of 4 2048 ?fs] nm(1) ap(1) by auto
    ultimately show ?thesis using load32_frame [OF m3(3)] by simp
  qed
  have free: "get_free_filesystem ?s3 = ?fs"
    using z by (simp add: get_free_filesystem_def free_filesystem_loop.simps kernel_consts)
  have "tty_ok ?s3" using assms(3) by (simp add: tty_ok_def)
  moreover have "region ?nm (Suc (length ?name)) \<inter> screen_region = {}" using nm(1) ap(3) by auto
  ultimately obtain s4 where s4: "terminal_write ?nm ?s3 = Some s4" "tty_ok s4" "same_outside screen_region m3 (mem s4)"
    using terminal_write_ok [of ?s3 ?nm ?name] m3(2) by auto
  obtain m r c k b where st: "s4 = s\<lparr>mem := m, terminal_row := r, terminal_column := c, terminal_colour := k, terminal_buffer := b\<rparr>"
    by (rule terminal_write_state [OF s4(1)]) simp
  let ?m5 = "store32 (mem s4) ?fs (fat16_fs s)"
  define s5 where "s5 = s4\<lparr>mem := ?m5\<rparr>"
  have run: "fs_init s = Some s5"
    using m3(1) free l(3) s4(1) st by (simp add: fs_init_def load_def fat16_init_def insert_filesystem_def kernel_consts Let_def s5_def)
  have f5: "same_outside ?W (mem s) (mem s5)"
  proof -
    have "same_outside (region ?fd 16 \<union> region ?fs 2048 \<union> region ?nm 6 \<union> screen_region \<union> region ?fs 4) (mem s) ?m5"
      by (rule same_outside_trans [OF same_outside_trans [OF same_outside_trans [OF f2 m3(3)] s4(3)] store32_outside])
    then have "same_outside ?W (mem s) ?m5" by (rule same_outside_mono) (use fd16 region_mono [of 4 2048 ?fs] in auto)
    then show ?thesis by (simp add: s5_def)
  qed
  have g: "same_globals s s5" by (simp add: s5_def st same_globals_def)
  have "?W \<inter> (kheap_meta \<union> heap_area) = {}" using nm(1) ap(1-3) screen_off_heap by blast
  then have wm: "?W \<inter> kheap_meta = {}" by blast
  have "kernel_heap s5 = kernel_heap s" "strategy s5 = strategy s" by (simp_all add: s5_def st)
  note kh = kheap_inv_frame [OF assms(2) f5 wm this]
  have "?W \<inter> (region (fat16_fs s) 24 \<union> region (literal_r s) 2 \<union> region (fat16_literal s) 6) = {}"
    using nm ap region_mono [of 24 279 "fat16_fs s"] by auto
  note lk = linked_frame [OF assms(1) f5 this g]
  have tab: "fd_table s5 ! i = (if i < 4 then 0 else fd_table s ! i)" if i: "i < 512" for i
  proof -
    have E: "elem_region ?fd 4 i \<subseteq> fd_region s" using elem_within [OF i, of ?fd 4] by (simp add: fd_region_def)
    have "same_outside (region ?fs 2048 \<union> region ?nm 6 \<union> screen_region \<union> region ?fs 4) ?m1 ?m5"
      by (rule same_outside_trans [OF same_outside_trans [OF same_outside_trans [OF f1(2) m3(3)] s4(3)] store32_outside])
    moreover have "elem_region ?fd 4 i \<inter> (region ?fs 2048 \<union> region ?nm 6 \<union> screen_region \<union> region ?fs 4) = {}"
      using E nm(1) ap(1-3) region_mono [of 4 2048 ?fs] by auto
    ultimately have "load32 ?m5 (elem_addr ?fd 4 i) = load32 ?m1 (elem_addr ?fd 4 i)" unfolding elem_region_def by (rule load32_frame)
    moreover have "load32 ?m1 (elem_addr ?fd 4 i) = (if i < 4 then 0 else load32 (mem s) (elem_addr ?fd 4 i))"
    proof (cases "i < 4")
      case True
      then show ?thesis using elem_within [OF True, of ?fd 4] by (simp add: memset_load32 elem_region_def)
    next
      case False
      then have "region ?fd 16 \<inter> elem_region ?fd 4 i = {}"
        using parts_apart [of 0 16 "i * 4" 4 ?fd] i by (simp add: elem_region_def elem_addr_def mult.commute)
      then show ?thesis using False load32_frame [OF f1(1)] by (simp add: elem_region_def Int_commute)
    qed
    ultimately show ?thesis using i file_state_fields(3) [OF g] by (simp add: s5_def)
  qed
  have rest: "load32 ?m5 (elem_addr ?fs 4 i) = 0" if i: "i < 512" "0 < i" for i
  proof -
    have E: "region (elem_addr ?fs 4 i) 4 \<subseteq> region ?fs 2048" using elem_within [OF i(1), of ?fs 4] by (simp add: elem_region_def)
    have "region ?fs 4 \<inter> region (elem_addr ?fs 4 i) 4 = {}"
      using parts_apart [of 0 4 "i * 4" 4 ?fs] i by (simp add: elem_addr_def mult.commute)
    moreover have "region ?fs 2048 \<inter> (region ?nm 6 \<union> screen_region) = {}" using nm(1) ap(1) by blast
    ultimately have "region (elem_addr ?fs 4 i) 4 \<inter> (region ?nm 6 \<union> screen_region \<union> region ?fs 4) = {}" using E by blast
    from load32_frame [OF same_outside_trans [OF same_outside_trans [OF m3(3) s4(3)] store32_outside] this]
    have "load32 ?m5 (elem_addr ?fs 4 i) = load32 ?m2 (elem_addr ?fs 4 i)" .
    also have "\<dots> = 0" using E by (intro memset_load32) simp
    finally show ?thesis .
  qed
  have form: "\<exists>m r c l b. s5 = s\<lparr>mem := m, terminal_row := r, terminal_column := c, terminal_colour := l, terminal_buffer := b\<rparr>"
    by (intro exI [of _ ?m5] exI [of _ r] exI [of _ c] exI [of _ k] exI [of _ b]) (simp add: s5_def st)
  have "tty_ok s5" "load32 (mem s5) ?fs = fat16_fs s" using s4(2) by (simp_all add: s5_def tty_ok_def)
  then show ?thesis by (rule that [OF run lk g kh(1,2) _ _ _ _ f5 form]) (use tab rest in \<open>simp_all add: s5_def\<close>)
qed

section \<open>Mounting the disk\<close>

text \<open>Storing the word that is there changes nothing.\<close>

lemma store32_load32: "store32 m p (load32 m p) = m"
proof -
  have "ucast (load32 m p) = m p" "ucast (drop_bit 8 (load32 m p)) = m (p + 1)" "ucast (drop_bit 16 (load32 m p)) = m (p + 2)"
    "ucast (drop_bit 24 (load32 m p)) = m (p + 3)"
    by (rule bit_word_eqI, auto simp: load32_def bit_simps dest: bit_imp_le_length)+
  then show ?thesis by (simp add: store32_def)
qed

text \<open>The geometry of a FAT16 disk: its header, its root directory of \<open>n\<close> records, and the \<open>t\<close> items in it that are in use.\<close>

definition fat_disk :: "image \<Rightarrow> nat \<Rightarrow> nat \<Rightarrow> nat \<Rightarrow> u8 list list \<Rightarrow> bool" where
  "fat_disk img rs spc e its \<longleftrightarrow> (\<exists>nf spf ne n. let sec = root_sector rs nf spf in fat_header img rs spc nf spf ne \<and> dir_ends img (sec * 512) n
     \<and> sec * 512 + 32 * n + 32 < 2 ^ 31 \<and> its = disk_items img (sec * 512) n \<and> e = data_sector rs nf spf ne) \<and> length its < 2 ^ 26"

text \<open>The items of the root directory are written to address 0 and up; nothing else may lie there.\<close>

definition low_memory_free :: "nat \<Rightarrow> 'a file_state_scheme \<Rightarrow> bool" where
  "low_memory_free t s \<longleftrightarrow> list_all (\<lambda>x. region 0 (32 * t) \<inter> x = {}) (kernel_regions s)"

lemma low_memory_freeD:
  "low_memory_free t s \<Longrightarrow> region 0 (32 * t) \<inter> (region (filesystems s) 2048 \<union> fd_region s \<union> region (fat16_fs s) 279 \<union> region (literal_r s) 2
    \<union> region (primary_disk s) 20 \<union> fat_locals s \<union> kheap_meta \<union> heap_area) = {}"
  by (simp add: low_memory_free_def kernel_regions_def Int_Un_distrib)

lemma disk_reset:
  fixes s :: "'a file_state_scheme"
  assumes "linked s" and "kheap_inv s" and "ata_drive (device s) img"
  defines "d \<equiv> primary_disk s"
  defines "s0 \<equiv> s\<lparr>mem := store32 (store32 (store32 (memset (mem s) d 0 20) (disk_type d) REAL_PHYSICAL) (disk_sector_size d) DISK_BLOCK_SIZE) (disk_id d) 0\<rparr>"
  shows "keeps (region d 20) s s0" and "disk_ready img s0" and "load32 (mem s0) (disk_id d) = 0" and "linked s0"
proof -
  note ap = linked_apart [OF assms(1)]
  let ?m = "memset (mem s) d 0 20"
  have in20: "region (disk_type d) 4 \<subseteq> region d 20" "region (disk_sector_size d) 4 \<subseteq> region d 20" "region (disk_id d) 4 \<subseteq> region d 20"
    using disk_fields_in [of d] region_mono [of 4 20 d] by (simp_all add: disk_fields)
  have f: "same_outside (region d 20) (mem s) (mem s0)"
  proof -
    have "same_outside (region d 20) (mem s) ?m" using memset_outside [of d 20 "mem s" 0] by simp
    note same_outside_trans [OF same_outside_trans [OF same_outside_trans [OF this store32_outside] store32_outside] store32_outside]
    then have "same_outside (region d 20) (mem s) (store32 (store32 (store32 ?m (disk_type d) REAL_PHYSICAL) (disk_sector_size d) DISK_BLOCK_SIZE) (disk_id d) 0)"
      by (rule same_outside_mono) (use in20 in auto)
    then show ?thesis by (simp add: s0_def)
  qed
  have off: "region d 20 \<inter> kheap_meta = {}" "region d 20 \<inter> (kheap_meta \<union> heap_area) = {}" using ap(6) by (auto simp: d_def)
  show k: "keeps (region d 20) s s0" using grows_store(1) [OF assms(2) f off(1)] by (simp add: s0_def)
  have "load32 (mem s0) (disk_sector_size d) = 512" by (simp add: s0_def disk_fields field_other kernel_consts)
  then show "disk_ready img s0" using growsD(1) [OF k] assms(3) linkedD(2) [OF assms(1)] off(2) grows_disk [OF k] by (simp add: disk_ready_def d_def)
  show "load32 (mem s0) (disk_id d) = 0" by (simp add: s0_def)
  show "linked s0"
    by (rule linked_frame [OF assms(1) f _ grows_state [OF k]]) (use ap(3-5) region_mono [of 24 279 "fat16_fs s"] in \<open>auto simp: d_def\<close>)
qed

lemma search_ok:
  fixes s :: "'a file_state_scheme"
  assumes "linked s" and "kheap_inv s" and "ata_drive (device s) img" and "load32 (mem s) (filesystems s) = fat16_fs s"
    and "fat_disk img rs spc e its" and "kheap_cap s (length its + (5 + Suc c))" and "low_memory_free (length its) s"
  shows "\<exists>B s'. search_and_initialize s = Some s' \<and> grows B (region (primary_disk s) 20 \<union> region 0 (32 * length its) \<union> fat_locals s) s s'
    \<and> kheap_cap s' (Suc c) \<and> vfs_ready img rs spc e its s' \<and> fd_table s' = fd_table s
    \<and> root_area s' its = region 0 (32 * length its) \<and> fat_area s' \<subseteq> region (primary_disk s) 20 \<union> heap_private s"
proof -
  let ?d = "primary_disk s" and ?t = "length its"
  let ?R = "region ?d 20 \<union> region 0 (32 * ?t) \<union> fat_locals s"
  note ap = linked_apart [OF assms(1)] and lm = low_memory_freeD [OF assms(7)]
  obtain nf spf ne n sec where g: "sec = root_sector rs nf spf" "fat_header img rs spc nf spf ne" "dir_ends img (sec * 512) n"
    "sec * 512 + 32 * n + 32 < 2 ^ 31" "its = disk_items img (sec * 512) n" "e = data_sector rs nf spf ne" "?t < 2 ^ 26"
    using assms(5) unfolding fat_disk_def Let_def by blast
  have t: "?t = dir_count img (sec * 512) n" by (simp add: g(5) disk_items_length)
  define s0 where "s0 = s\<lparr>mem := store32 (store32 (store32 (memset (mem s) ?d 0 20) (disk_type ?d) REAL_PHYSICAL) (disk_sector_size ?d) DISK_BLOCK_SIZE) (disk_id ?d) 0\<rparr>"
  note dr = disk_reset [OF assms(1-3), folded s0_def]
  note st = file_state_fields [OF grows_state [OF dr(1)]]
  have fss: "filesystems s0 = filesystems s" using grows_state [OF dr(1)] by (simp add: same_globals_def)
  have cap: "kheap_cap s0 (5 + (?t + Suc c))" using keepsD(3) [OF dr(1) assms(2,6)] by (simp add: ac_simps)
  have L: "(fat_locals s0 \<union> region 0 (32 * ?t)) \<inter> (kheap_meta \<union> heap_area \<union> region (primary_disk s0) 20) = {}" "region 0 (32 * ?t) \<inter> fat_locals s0 = {}"
    using lm ap(6,7) unfolding st by blast+
  obtain B s1 where s1: "fat16_resolve ?d s0 = Some (0, s1)" "grows B ?R s0 s1" "kheap_cap s1 (Suc c)" "fat_ready img rs spc e s1" "root_items s1 its"
    "load32 (mem s1) (disk_fs ?d) = fat16_fs s" "load32 (mem s1) (directory_item (private_root_directory (fat_private_of s1))) = 0"
    "fat_area s1 \<subseteq> region ?d 20 \<union> heap_private s0"
    using fat16_resolve_ok [OF dr(2) _ g(2,1,3,4) t cap g(7) L] dr(3) g(5,6) st by auto
  note gl = grows_state [OF s1(2)]
  note st1 = file_state_fields [OF gl]
  have gg: "grows B ?R s s1" using grows_trans [OF grows_mono [OF dr(1), of ?R] s1(2)] by auto
  have pr: "heap_private s \<subseteq> kheap_meta \<union> heap_area" "heap_private s0 \<subseteq> kheap_meta \<union> heap_area" by (auto simp: heap_private_def)
  have fs4: "region (filesystems s) 4 \<inter> (?R \<union> heap_private s) = {}"
    using region_mono [of 4 2048 "filesystems s"] ap(1) lm pr(1) by auto
  have ld1: "load32 (mem s1) (filesystems s) = fat16_fs s" using grows_load32 [OF gg fs4] assms(4) by simp
  have ld0: "load32 (mem s0) (filesystems s) = fat16_fs s" 
    by (subst grows_load32 [OF dr(1)]) (use fs4 assms(4) in auto)
  have a: "load32 (mem s0) (fs_resolve (fat16_fs s)) = fat16_resolve_address s0"
    using linkedD(4) [OF dr(4)] by (simp add: fat16_fs_initialised_def st)
  have "resolve ?d s0 = Some (fat16_fs s, s1)"
    using s1(1) ld0 ld1 a linkedD(1) [OF assms(1)] fss gl
    by (simp add: resolve_def resolve_loop.simps [of _ 0] call_resolve_def kernel_consts Let_def same_globals_def)
  moreover have "store32 (mem s1) (disk_fs ?d) (fat16_fs s) = mem s1" using store32_load32 [of "mem s1" "disk_fs ?d"] s1(6) by simp
  ultimately have run: "search_and_initialize s = Some s1"
    using st st1 by (simp add: search_and_initialize_def sizeof_disk_def Let_def s0_def [symmetric])
  have "fat16_fs_initialised s1 \<and> cstring (mem s1) (literal_r s1) [0x72]"
  proof -
    have "?R \<inter> (region (fat16_fs s) 24 \<union> region (literal_r s) 2) = {}" "(kheap_meta \<union> heap_area) \<inter> (region (fat16_fs s) 24 \<union> region (literal_r s) 2) = {}"
      using ap(3,4) lm region_mono [of 24 279 "fat16_fs s"] by auto
    then have o: "(?R \<union> heap_private s) \<inter> (region (fat16_fs s) 24 \<union> region (literal_r s) 2) = {}" using pr(1) by blast
    have "fat16_fs_initialised s1" by (rule initialised_frame [OF linkedD(4) [OF assms(1)] growsD(4) [OF gg] _ grows_state [OF gg]]) (use o in blast)
    moreover have "region (literal_r s) (Suc (length [0x72 :: u8])) \<inter> (?R \<union> heap_private s) = {}" using o by (auto simp: numeral_2_eq_2)
    from cstring_frame [OF growsD(4) [OF gg] this linkedD(5) [OF assms(1)]] have "cstring (mem s1) (literal_r s1) [0x72]" using st st1 by simp
    ultimately show ?thesis ..
  qed
  moreover have ra: "root_area s1 its = region 0 (32 * ?t)" using s1(7) by (simp add: root_area_def)
  moreover have "(vfs_globals s \<union> fd_region s \<union> region 0 (32 * ?t)) \<inter> (kheap_meta \<union> heap_area \<union> fat_locals s \<union> region ?d 20) = {}"
    "fd_region s \<inter> (vfs_globals s \<union> region 0 (32 * ?t)) = {}"
    using ap(2-4) lm region_mono [of 24 279 "fat16_fs s"] unfolding vfs_globals_def by auto
  ultimately have v: "vfs_ready img rs spc e its s1"
    unfolding vfs_ready_def using s1(4-6) st st1 linkedD(1,2) [OF assms(1)] by simp
  have "(?R \<union> heap_private s) \<inter> fd_region s = {}" using ap(2) lm pr(1) by blast
  from fd_table_frame [OF growsD(4) [OF gg] this] have "fd_table s1 = fd_table s" using st(3) st1(3) by simp
  moreover have "fat_area s1 \<subseteq> region ?d 20 \<union> heap_private s" using s1(8) growsD(5) [OF dr(1)] by auto
  ultimately show ?thesis using run gg s1(3) v ra by blast
qed

text \<open>A disk that no driver takes.\<close>

lemma resolve_loop_empty:
  assumes "\<forall>i < 512. n \<le> i \<longrightarrow> load32 (mem s) (elem_addr (filesystems s) 4 i) = 0" and "n \<le> 512"
  shows "resolve_loop d (of_nat n) s = Some (0, s)"
  using assms
proof (induction "512 - n" arbitrary: n)
  case 0
  then show ?case by (subst resolve_loop.simps) (simp add: kernel_consts)
next
  case (Suc k)
  then have n: "n < 512" by simp
  have "load32 (mem s) (filesystems s + 4 * of_nat n) = 0" using Suc.prems(1) n by (simp add: elem_addr_def mult.commute)
  moreover have "(of_nat n :: u32) < FS_MAX_FILESYSTEMS" using n by (simp add: word_less_nat_alt unat_of_nat32 kernel_consts)
  moreover have "resolve_loop d (of_nat (Suc n)) s = Some (0, s)" using Suc n by (intro Suc.hyps(1)) auto
  ultimately show ?case by (subst resolve_loop.simps) (simp add: add.commute)
qed

lemma search_refused:
  fixes s :: "'a file_state_scheme"
  assumes "linked s" and "kheap_inv s" and "ata_drive (device s) img" and "load32 (mem s) (filesystems s) = fat16_fs s"
    and tab: "\<forall>i < 512. 0 < i \<longrightarrow> load32 (mem s) (elem_addr (filesystems s) 4 i) = 0" and "img 38 \<noteq> FAT16_SIGNATURE" and "kheap_cap s (4 + Suc (Suc c))"
  obtains s' where "search_and_initialize s = Some s'" and "keeps (region (primary_disk s) 20) s s'" and "load32 (mem s') (disk_fs (primary_disk s)) = 0"
proof -
  let ?d = "primary_disk s" and ?fs = "filesystems s"
  define s0 where "s0 = s\<lparr>mem := store32 (store32 (store32 (memset (mem s) ?d 0 20) (disk_type ?d) REAL_PHYSICAL) (disk_sector_size ?d) DISK_BLOCK_SIZE) (disk_id ?d) 0\<rparr>"
  note dr = disk_reset [OF assms(1-3), folded s0_def] and ap = linked_apart [OF assms(1)]
  note st = file_state_fields [OF grows_state [OF dr(1)]]
  have fss: "filesystems s0 = ?fs" using grows_state [OF dr(1)] by (simp add: same_globals_def)
  have cap: "kheap_cap s0 (4 + Suc (Suc c))" by (rule keepsD(3) [OF dr(1) assms(2,7)])
  have id: "load32 (mem s0) (disk_id (primary_disk s0)) = 0" using dr(3) st by simp
  obtain s1 where s1: "fat16_resolve ?d s0 = Some (- EFSNOTPRESENT, s1)" "keeps (region ?d 20) s0 s1" "load32 (mem s1) (disk_fs ?d) = 0"
    using fat16_resolve_refused [OF dr(2) id assms(6) cap] st(10) by metis
  have g1: "keeps (region ?d 20) s s1" using grows_trans [OF dr(1) s1(2)] by auto
  note st1 = file_state_fields [OF grows_state [OF s1(2)]]
  have fss1: "filesystems s1 = ?fs" using grows_state [OF g1] by (simp add: same_globals_def)
  have pr: "heap_private s \<subseteq> kheap_meta \<union> heap_area" by (auto simp: heap_private_def)
  have off: "region ?fs 2048 \<inter> (region ?d 20 \<union> heap_private s) = {}" using ap(1) pr by blast
  have ld: "load32 (mem s1) (elem_addr ?fs 4 i) = load32 (mem s) (elem_addr ?fs 4 i)"
    "load32 (mem s0) (elem_addr ?fs 4 i) = load32 (mem s) (elem_addr ?fs 4 i)" if i: "i < 512" for i
  proof -
    have "region (elem_addr ?fs 4 i) 4 \<inter> (region ?d 20 \<union> heap_private s) = {}" using elem_within [OF i, of ?fs 4] off by (auto simp: elem_region_def)
    then show "load32 (mem s1) (elem_addr ?fs 4 i) = load32 (mem s) (elem_addr ?fs 4 i)"
      "load32 (mem s0) (elem_addr ?fs 4 i) = load32 (mem s) (elem_addr ?fs 4 i)" using grows_load32 [OF g1] grows_load32 [OF dr(1)] by blast+
  qed
  have a: "load32 (mem s0) (fs_resolve (fat16_fs s)) = fat16_resolve_address s0"
    using linkedD(4) [OF dr(4)] by (simp add: fat16_fs_initialised_def st)
  have e: "resolve_loop ?d 1 s1 = Some (0, s1)" using resolve_loop_empty [of 1 s1 ?d] tab ld(1) fss1 by simp
  have "- EFSNOTPRESENT \<noteq> (0 :: u32)" by (simp add: kernel_consts)
  then have "resolve ?d s0 = Some (0, s1)"
    using s1(1) ld(2) [of 0] assms(4) a e linkedD(1) [OF assms(1)] fss
    by (simp add: resolve_def resolve_loop.simps [of _ 0] call_resolve_def kernel_consts Let_def elem_addr_def)
  moreover have "store32 (mem s1) (disk_fs ?d) 0 = mem s1" using store32_load32 [of "mem s1" "disk_fs ?d"] s1(3) by simp
  ultimately have "search_and_initialize s = Some s1"
    using st st1 by (simp add: search_and_initialize_def sizeof_disk_def Let_def s0_def [symmetric])
  then show ?thesis using that g1 s1(3) by blast
qed

section \<open>Sessions\<close>

text \<open>A buffer outside the heap and away from the file system's own memory serves every file that is opened from now on.\<close>

definition session_buffer :: "u8 list list \<Rightarrow> 'a file_state_scheme \<Rightarrow> u32 \<Rightarrow> nat \<Rightarrow> bool" where
  "session_buffer its s out n \<longleftrightarrow> region out n \<inter> (heap_private s \<union> fat_area s \<union> fat_locals s \<union> fd_region s \<union> vfs_globals s \<union> root_area s its) = {}"

lemma session_buffer_mono: "session_buffer its s out n \<Longrightarrow> k \<le> n \<Longrightarrow> session_buffer its s out k"
  using region_mono [of k n out] unfolding session_buffer_def by blast

lemma fopen_buffer:
  fixes s :: "'a file_state_scheme"
  assumes "vfs_ready img rs spc e its s" and g: "grows (P \<union> insert (desc_block f) (driver_blocks f)) (fat_locals s \<union> fat_pos s \<union> elem_region (file_descriptors s) 4 j) s s'"
    and "j < 512" and "kheap_cap s' 1" and "session_buffer its s out n"
  shows "vfs_buffer its s' f out n" and "session_buffer its s' out n"
proof -
  note v = vfs_readyD [OF assms(1)] and ap = vfs_ready_apart [OF assms(1)] and fp = fat_ready_parts [OF vfs_readyD(1) [OF assms(1)]]
  let ?R = "fat_locals s \<union> elem_region (file_descriptors s) 4 j"
  have "elem_region (file_descriptors s) 4 j \<subseteq> fd_region s" using elem_within [OF assms(3), of "file_descriptors s" 4] by (simp add: fd_region_def)
  then have R: "?R \<inter> (fat_area s \<union> vfs_globals s \<union> root_area s its) = {}" using v(9) ap fp(5) by blast
  have gp: "grows (P \<union> insert (desc_block f) (driver_blocks f)) (?R \<union> fat_pos s) s s'" by (rule grows_mono [OF g]) auto
  note r = vfs_ready_grows(2,4) [OF assms(1) gp R assms(4)] and st = file_state_fields [OF grows_state [OF g]]
  have "block_bytes (driver_blocks f) \<subseteq> heap_private s" "desc_bytes f \<subseteq> heap_private s"
    using grows_new_bytes [OF g] grows_new_private [OF g, of "fst (desc_block f)" "snd (desc_block f)"] by (auto simp: block_bytes_def desc_bytes_def)
  then show "vfs_buffer its s' f out n" "session_buffer its s' out n"
    using assms(5) growsD(5) [OF g] unfolding vfs_buffer_def file_buffer_def session_buffer_def r st by blast+
qed

lemma file_gives_length: "file_gives img rs spc e bs x n ys \<Longrightarrow> length ys < 2 ^ 32"
  by (auto simp: file_gives_def)

section \<open>A sample machine\<close>

text \<open>An empty heap, the image of the kernel with the driver's function pointers and its literals, the path \<^verbatim>\<open>0:/a.c\<close> at
  \<open>0x7000\<close>, and the sample disk.\<close>

definition boot_mem :: mem where
  "boot_mem = zero_mem(0x500002 := 0x60, 0x500004 := 1, 0x500006 := 0x60, 0x500008 := 2, 0x50000A := 0x60, 0x50000C := 3, 0x50000E := 0x60,
     0x500010 := 4, 0x500012 := 0x60, 0x500014 := 5, 0x500016 := 0x60, 0x500200 := 0x46, 0x500201 := 0x41, 0x500202 := 0x54,
     0x500203 := 0x31, 0x500204 := 0x36, 0x200 := 0x72,
     0x7000 := 0x30, 0x7001 := 0x3A, 0x7002 := 0x2F, 0x7003 := 0x61, 0x7004 := 0x2E, 0x7005 := 0x63)"

definition sample_machine :: file_state where
  "sample_machine = (sample_files boot_mem)\<lparr>device := sample_drive sample_image\<rparr>"

lemma sample_machine_fields: "mem sample_machine = taken_mem 0 boot_mem" "device sample_machine = sample_drive sample_image"
  "primary_disk sample_machine = 0x300000" "filesystems sample_machine = 0x390000" "file_descriptors sample_machine = 0x380000"
  "fat16_fs sample_machine = 0x500000" "fat16_literal sample_machine = 0x500200" "literal_r sample_machine = 0x200"
  "item_local sample_machine = 0x400000" "fat_entry_local sample_machine = 0x400100" "filename_local sample_machine = 0x400200"
  "fat16_open_address sample_machine = 0x600000" "fat16_read_address sample_machine = 0x600001" "fat16_seek_address sample_machine = 0x600002"
  "fat16_stat_address sample_machine = 0x600003" "fat16_close_address sample_machine = 0x600004" "fat16_resolve_address sample_machine = 0x600005"
  "tty_ok sample_machine" "kernel_heap sample_machine = the_kernel_heap"
  "strategy_malloc (strategy sample_machine) = Some heap_malloc" "strategy_free (strategy sample_machine) = Some heap_free"
  by (simp_all add: sample_machine_def sample_files_def fat_state.extend_def file_state.fields_def disk_state.extend_def fat_state.fields_def
      sample_disk_def tty_ok_def kernel_consts)

lemma sample_machine_heap: "kheap_inv sample_machine" "k \<le> 25600 \<Longrightarrow> kheap_cap sample_machine k"
  using taken_heap(1,3) [OF _ sample_machine_fields(19-21,1)] by simp_all

lemma sample_machine_byte: "unat a < 0x7E00 \<or> 0x100000 \<le> unat a \<Longrightarrow> mem sample_machine a = boot_mem a"
  unfolding sample_machine_fields(1) by (subst taken_mem_outside) (auto simp: region_interval)

lemma sample_machine_strings: "cstring (mem sample_machine) 0x200 [0x72]" "cstring (mem sample_machine) 0x500200 driver_name"
  "cstring (mem sample_machine) 0x7000 [0x30, 0x3A, 0x2F, 0x61, 0x2E, 0x63]"
  by (simp_all add: cstring_Cons cstring_Nil sample_machine_byte driver_name_def) (simp_all add: boot_mem_def)

lemma sample_machine_linked: "linked sample_machine"
proof -
  have "fat16_fs_initialised sample_machine"
    by (simp add: fat16_fs_initialised_def sample_machine_fields file_fields load32_def) (simp add: sample_machine_fields(1) [symmetric] sample_machine_byte, simp add: boot_mem_def)
  moreover have "pairwise_apart (kernel_regions sample_machine)"
    by (simp add: kernel_regions_def sample_machine_fields fd_region_def fat_locals_def screen_region_def kheap_meta_def table_region_def heap_area_def kernel_consts)
      (auto simp: region_interval)
  ultimately show ?thesis using sample_machine_strings by (simp add: linked_def sample_machine_fields)
qed

lemma sample_disk_geometry: "fat_disk sample_image 1 1 3 [sample_item]"
proof -
  have "root_sector 1 1 1 = 2" "data_sector 1 1 1 16 = 3" by (simp_all add: root_sector_def data_sector_def)
  then show ?thesis using sample_image_ok unfolding fat_disk_def Let_def
    by (intro conjI exI [of _ 1] exI [of _ 16]) simp_all
qed

lemma sample_low_memory: "low_memory_free 1 sample_machine"
  by (simp add: low_memory_free_def kernel_regions_def sample_machine_fields fd_region_def fat_locals_def screen_region_def kheap_meta_def
      table_region_def heap_area_def kernel_consts) (auto simp: region_interval)

lemma sample_path_ps: "good_path [0x30, 0x3A, 0x2F, 0x61, 0x2E, 0x63]" "path_drive [0x30, 0x3A, 0x2F, 0x61, 0x2E, 0x63] = 0"
  "path_parts (drop 3 [0x30, 0x3A, 0x2F, 0x61, 0x2E, 0x63]) = [[0x61, 0x2E, 0x63]]" "path_need [0x30, 0x3A, 0x2F, 0x61, 0x2E, 0x63] = 3"
proof -
  show p: "path_parts (drop 3 [0x30, 0x3A, 0x2F, 0x61, 0x2E, 0x63]) = [[0x61, 0x2E, 0x63]]"
    using path_parts_join [of "[[0x61, 0x2E, 0x63]]"] by simp
  show "good_path [0x30, 0x3A, 0x2F, 0x61, 0x2E, 0x63]" "path_drive [0x30, 0x3A, 0x2F, 0x61, 0x2E, 0x63] = 0"
    unfolding good_path_def p by (simp_all add: path_drive_def)
  show "path_need [0x30, 0x3A, 0x2F, 0x61, 0x2E, 0x63] = 3" unfolding path_need_def p by (simp add: name_need_def blocks_for_def)
qed

text \<open>The sample machine after \<^verbatim>\<open>fs::init\<close> and \<^verbatim>\<open>search_and_initialize\<close>.\<close>

lemma sample_mounted:
  obtains s1 s2 where "fs_init sample_machine = Some s1" and "search_and_initialize s1 = Some s2" and "vfs_ready sample_image 1 1 3 [sample_item] s2"
    and "kheap_cap s2 20" and "readable s2 0x7000 [0x30, 0x3A, 0x2F, 0x61, 0x2E, 0x63]" and "readable s2 0x200 [0x72]"
    and "\<forall>i < 512. fd_table s2 ! i = 0" and "session_buffer [sample_item] s2 0x5000 16"
    and "region 0x7000 7 \<inter> (fat_locals s2 \<union> fat_pos s2 \<union> fd_region s2) = {}" and "region 0x200 2 \<inter> (fat_locals s2 \<union> fat_pos s2 \<union> fd_region s2) = {}"
proof -
  note f = sample_machine_fields
  obtain s1 where s1: "fs_init sample_machine = Some s1" "linked s1" "same_globals sample_machine s1" "kheap_inv s1" "kheap_live s1 = kheap_live sample_machine"
    "load32 (mem s1) (filesystems sample_machine) = fat16_fs sample_machine" "\<forall>i < 4. fd_table s1 ! i = 0"
    "\<forall>i < 512. 4 \<le> i \<longrightarrow> fd_table s1 ! i = fd_table sample_machine ! i"
    "same_outside (region (filesystems sample_machine) 2048 \<union> fd_region sample_machine \<union> region (fs_name (fat16_fs sample_machine)) 6 \<union> screen_region) (mem sample_machine) (mem s1)"
    by (rule fs_init_ok [OF sample_machine_linked sample_machine_heap(1) f(18)])
  note g = file_state_fields [OF s1(3)]
  have gf: "filesystems s1 = 0x390000" "device s1 = sample_drive sample_image" using s1(3) f by (simp_all add: same_globals_def)
  have fd: "fd_region s1 = region 0x380000 2048" "fat_locals s1 = region 0x400100 2 \<union> region 0x400000 32 \<union> region 0x400200 255"
    unfolding g by (simp_all add: fd_region_def fat_locals_def f)
  have cap: "kheap_cap s1 (length [sample_item] + (5 + Suc 19))"
    by (rule kheap_cap_live [OF sample_machine_heap(1) s1(4) s1(5) [symmetric]]) (simp add: sample_machine_heap(2))
  have kr: "kernel_regions s1 = kernel_regions sample_machine" using s1(3) g by (simp add: kernel_regions_def same_globals_def)
  then have low: "low_memory_free (length [sample_item]) s1" using sample_low_memory by (simp add: low_memory_free_def)
  have reg: "load32 (mem s1) (filesystems s1) = fat16_fs s1" using s1(6) gf g f by simp
  obtain B s2 where s2: "search_and_initialize s1 = Some s2"
    "grows B (region (primary_disk s1) 20 \<union> region 0 (32 * length [sample_item]) \<union> fat_locals s1) s1 s2" "kheap_cap s2 (Suc 19)"
    "vfs_ready sample_image 1 1 3 [sample_item] s2" "fd_table s2 = fd_table s1" "root_area s2 [sample_item] = region 0 (32 * length [sample_item])"
    using search_ok [OF s1(2,4) _ reg sample_disk_geometry cap low] sample_drive_ok [of sample_image] gf(2) by auto
  note h = file_state_fields [OF grows_state [OF s2(2)]]
  let ?X = "region 0x390000 2048 \<union> region 0x380000 2048 \<union> region 0x500018 6 \<union> screen_region" and ?Y = "region 0x300000 20 \<union> region 0 32 \<union> fat_locals s1 \<union> (kheap_meta \<union> heap_area)"
  have o1: "same_outside ?X (mem sample_machine) (mem s1)" using s1(9) by (simp add: f fd_region_def file_fields)
  have hp: "heap_private s2 \<subseteq> kheap_meta \<union> heap_area" "heap_private s1 \<subseteq> kheap_meta \<union> heap_area" by (auto simp: heap_private_def)
  have o2: "same_outside ?Y (mem s1) (mem s2)"
    using growsD(4) [OF s2(2)] by (rule same_outside_mono) (use hp(2) g(10) f(3) in auto)
  have rd: "readable s2 p cs" if "cstring (mem sample_machine) p cs" "region p (Suc (length cs)) \<inter> (?X \<union> ?Y) = {}" for p cs
    using cstring_frame [OF o1 _ that(1)] cstring_frame [OF o2] that(2) hp(1) unfolding readable_def by blast
  have rp: "readable s2 0x7000 [0x30, 0x3A, 0x2F, 0x61, 0x2E, 0x63]"
    by (rule rd [OF sample_machine_strings(3)])
      (auto simp: fd screen_region_def kheap_meta_def table_region_def heap_area_def kernel_consts region_interval)
  have rr: "readable s2 0x200 [0x72]"
    by (rule rd [OF sample_machine_strings(1)])
      (auto simp: fd screen_region_def kheap_meta_def table_region_def heap_area_def kernel_consts region_interval)
  have tab: "fd_table s2 ! i = 0" if i: "i < 512" for i
  proof (cases "i < 4")
    case False
    have u: "unat (elem_addr 0x380000 4 i + of_nat k) = 0x380000 + i * 4 + k" if "k < 4" for k
      using i that by (simp add: elem_addr_def unat_word_ariths unat_of_nat32)
    have "mem sample_machine (elem_addr 0x380000 4 i + of_nat k) = 0" if k: "k < 4" for k
    proof -
      have "boot_mem a = 0" if "0x300000 < unat a" "unat a < 0x500000" for a using that by (auto simp: boot_mem_def)
      then show ?thesis using u [OF k] i k by (simp add: sample_machine_byte)
    qed
    from this [of 0] this [of 1] this [of 2] this [of 3] have "load32 (mem sample_machine) (elem_addr 0x380000 4 i) = 0" by (simp add: load32_def)
    then show ?thesis using s1(8) s2(5) i False by (simp add: f)
  qed (use s1(7) s2(5) in simp)
  have fa: "fat_area s2 \<subseteq> heap_area \<union> region 0x300000 20" using fat_ready_parts(7) [OF vfs_readyD(1) [OF s2(4)]] h(10) g(10) f(3) by simp
  have u: "heap_private s2 \<union> fat_area s2 \<union> fat_locals s2 \<union> fd_region s2 \<union> vfs_globals s2 \<union> root_area s2 [sample_item]
    \<subseteq> kheap_meta \<union> heap_area \<union> region 0x300000 20 \<union> fat_locals s1 \<union> region 0x380000 2048 \<union> vfs_globals s2 \<union> region 0 32" (is "_ \<subseteq> ?Z")
    using hp(1) fa s2(6) fd(1) unfolding h(12,13) by auto
  have "region 0x5000 16 \<inter> ?Z = {}"
    unfolding h g by (auto simp: fd vfs_globals_def f fat_locals_def kheap_meta_def table_region_def heap_area_def region_interval)
  with u have sb: "session_buffer [sample_item] s2 0x5000 16" unfolding session_buffer_def by blast
  have ap: "region 0x7000 7 \<inter> (fat_locals s2 \<union> fat_pos s2 \<union> fd_region s2) = {}" "region 0x200 2 \<inter> (fat_locals s2 \<union> fat_pos s2 \<union> fd_region s2) = {}"
  proof -
    have "fat_pos s2 \<subseteq> heap_area \<union> region 0x300000 20" using fat_ready_parts(3) [OF vfs_readyD(1) [OF s2(4)]] fa by blast
    moreover have "region 0x7000 7 \<inter> (fat_locals s2 \<union> (heap_area \<union> region 0x300000 20) \<union> fd_region s2) = {}"
      "region 0x200 2 \<inter> (fat_locals s2 \<union> (heap_area \<union> region 0x300000 20) \<union> fd_region s2) = {}"
      unfolding h(12,13) fd by (auto simp: heap_area_def region_interval)
    ultimately show "region 0x7000 7 \<inter> (fat_locals s2 \<union> fat_pos s2 \<union> fd_region s2) = {}" "region 0x200 2 \<inter> (fat_locals s2 \<union> fat_pos s2 \<union> fd_region s2) = {}"
      by blast+
  qed
  show ?thesis by (rule that [OF s1(1) s2(1,4) _ rp rr _ sb ap]) (use s2(3) tab in simp_all)
qed

text \<open>A file of the sample disk is opened and read.\<close>

lemma sample_gives: "file_gives sample_image 1 1 3 sample_item 512 4 [4, 4, 4, 4]" "file_gives sample_image 1 1 3 sample_item 0 4 [3, 3, 3, 3]"
proof -
  have "follow sample_image 1 2 1 = Some 3" "follow sample_image 1 2 0 = Some 2"
    by (simp_all add: fat_entry_at_def le16_def sample_image_def sample_volume_def)
  moreover have "disk_bytes sample_image 2048 4 = [4, 4, 4, 4]" "disk_bytes sample_image 1536 4 = [3, 3, 3, 3]"
    by (simp_all add: disk_bytes_def sample_image_def sample_volume_def upt_rec)
  ultimately show "file_gives sample_image 1 1 3 sample_item 512 4 [4, 4, 4, 4]" "file_gives sample_image 1 1 3 sample_item 0 4 [3, 3, 3, 3]"
    by (simp_all add: file_gives_def sample_found(3) cluster_bytes_def data_pos_def)
qed

text \<open>The mounted sample machine with both empty slots and its buffers and strings, after zero, one and two calls of \<^verbatim>\<open>fopen\<close>.\<close>

lemma sample_ready:
  obtains s0 s where "fs_init sample_machine = Some s0" and "search_and_initialize s0 = Some s" and "vfs_ready sample_image 1 1 3 [sample_item] s"
    and "readable s 0x7000 [0x30, 0x3A, 0x2F, 0x61, 0x2E, 0x63]" and "readable s 0x200 [0x72]"
    and "kheap_cap s (path_need [0x30, 0x3A, 0x2F, 0x61, 0x2E, 0x63] + (2 + 2 + Suc (path_need [0x30, 0x3A, 0x2F, 0x61, 0x2E, 0x63] + (2 + 2 + Suc 0))))"
    and "find (\<lambda>i. fd_table s ! i = 0) [0..<512] = Some 0" and "fd_table s ! 1 = 0"
    and "session_buffer [sample_item] s 0x5000 16" and "region 0x7000 7 \<inter> (fat_locals s \<union> fat_pos s \<union> fd_region s) = {}" and "region 0x200 2 \<inter> (fat_locals s \<union> fat_pos s \<union> fd_region s) = {}"
proof -
  obtain s0 s where m: "fs_init sample_machine = Some s0" "search_and_initialize s0 = Some s" "vfs_ready sample_image 1 1 3 [sample_item] s"
    "kheap_cap s 20" "readable s 0x7000 [0x30, 0x3A, 0x2F, 0x61, 0x2E, 0x63]" "readable s 0x200 [0x72]" "\<forall>i < 512. fd_table s ! i = 0"
    "session_buffer [sample_item] s 0x5000 16" "region 0x7000 7 \<inter> (fat_locals s \<union> fat_pos s \<union> fd_region s) = {}" "region 0x200 2 \<inter> (fat_locals s \<union> fat_pos s \<union> fd_region s) = {}" by (rule sample_mounted)
  have cap: "kheap_cap s (path_need [0x30, 0x3A, 0x2F, 0x61, 0x2E, 0x63] + (2 + 2 + Suc (path_need [0x30, 0x3A, 0x2F, 0x61, 0x2E, 0x63] + (2 + 2 + Suc 0))))"
    unfolding sample_path_ps by (rule kheap_cap_mono [OF m(4)]) simp
  have slot: "find (\<lambda>i. fd_table s ! i = 0) [0..<512] = Some 0" using m(7) by (subst upt_conv_Cons) simp_all
  show ?thesis by (rule that [OF m(1-3,5,6) cap slot _ m(8-10)]) (use m(7) in simp)
qed

lemma readable_after:
  fixes s :: "'a file_state_scheme"
  assumes "readable s p cs" and "region p (Suc (length cs)) \<inter> (fat_locals s \<union> fat_pos s \<union> fd_region s) = {}"
    and "grows B (fat_locals s \<union> fat_pos s \<union> elem_region (file_descriptors s) 4 j) s s'" and "j < 512"
  shows "readable s' p cs"
proof (rule readable_grows [OF assms(1,3)])
  have "elem_region (file_descriptors s) 4 j \<subseteq> fd_region s" using elem_within [OF assms(4), of "file_descriptors s" 4] by (simp add: fd_region_def)
  then show "region p (Suc (length cs)) \<inter> (fat_locals s \<union> fat_pos s \<union> elem_region (file_descriptors s) 4 j) = {}"
    using assms(2) by blast
qed

lemma sample_walk: "walks sample_image 1 3 [sample_item] (path_parts (drop 3 [0x30, 0x3A, 0x2F, 0x61, 0x2E, 0x63])) sample_item 2"
  using walks_file [OF sample_found(1), of sample_image 1 3] sample_found(2) unfolding sample_path_ps(3) by simp

lemma sample_two_open:
  obtains s :: file_state and f g where "vfs_ready sample_image 1 1 3 [sample_item] s" and "open_fd s 0 f 0" and "open_fd s 1 g 0"
    and "vfs_apart f g" and "vfs_apart g f" and "item_bytes f = sample_item" and "item_bytes g = sample_item"
    and "vfs_buffer [sample_item] s f 0x5000 16" and "vfs_buffer [sample_item] s g 0x5000 16"
proof -
  let ?p = "[0x30, 0x3A, 0x2F, 0x61, 0x2E, 0x63] :: u8 list"
  obtain s0 s where m: "fs_init sample_machine = Some s0" "search_and_initialize s0 = Some s" "vfs_ready sample_image 1 1 3 [sample_item] s"
    "readable s 0x7000 ?p" "readable s 0x200 [0x72]" "kheap_cap s (path_need ?p + (2 + 2 + Suc (path_need ?p + (2 + 2 + Suc 0))))"
    "find (\<lambda>i. fd_table s ! i = 0) [0..<512] = Some 0" "fd_table s ! 1 = 0"
    "session_buffer [sample_item] s 0x5000 16" "region 0x7000 7 \<inter> (fat_locals s \<union> fat_pos s \<union> fd_region s) = {}" "region 0x200 2 \<inter> (fat_locals s \<union> fat_pos s \<union> fd_region s) = {}"
    by (rule sample_ready)
  have nz: "[0x72 :: u8] \<noteq> []" "0x72 \<le>s hd [0x72 :: u8]" "(0 :: nat) < 512" "(1 :: nat) < 512" by simp_all
  have l: "region 0x7000 (Suc (length ?p)) \<inter> (fat_locals s \<union> fat_pos s \<union> fd_region s) = {}" "region 0x200 (Suc (length [0x72 :: u8])) \<inter> (fat_locals s \<union> fat_pos s \<union> fd_region s) = {}"
    using m(10,11) by (simp_all add: numeral_eq_Suc)
  obtain P f s1 where 1: "open_fd s1 (of_nat 0) f 0" "item_bytes f = sample_item" "fd_table s1 = (fd_table s)[0 := fst (desc_block f)]"
    "vfs_ready sample_image 1 1 3 [sample_item] s1" "kheap_cap s1 (Suc (path_need ?p + (2 + 2 + Suc 0)))"
    "grows (P \<union> insert (desc_block f) (driver_blocks f)) (fat_locals s \<union> fat_pos s \<union> elem_region (file_descriptors s) 4 0) s s1"
    using fopen_ok [OF m(3,4) sample_path_ps(1,2) m(5) nz(1,2) sample_walk m(6) m(7)] by blast
  have c1: "kheap_cap s1 1" "kheap_cap s1 (path_need ?p + (2 + 2 + Suc 0))" by (rule kheap_cap_mono [OF 1(5)]; simp)+
  have "fst (desc_block f) \<noteq> 0"
  proof -
    obtain l where "descriptor_at s1 l f" by (rule open_fdE [OF 1(4,1)])
    then have "desc_block f \<in> kheap_live s1" by (simp add: descriptor_at_def Let_def)
    then show ?thesis using live_nonzero [OF fat_ready_parts(1) [OF vfs_readyD(1) [OF 1(4)]], of "fst (desc_block f)" "snd (desc_block f)"] by simp
  qed
  then have slot: "find (\<lambda>i. fd_table s1 ! i = 0) [0..<512] = Some 1" unfolding 1(3) using m(8) by (simp add: upt_conv_Cons)
  obtain Q g s2 where 2: "open_fd s2 (of_nat 1) g 0" "item_bytes g = sample_item" "vfs_ready sample_image 1 1 3 [sample_item] s2"
    "kheap_cap s2 (Suc 0)" "grows (Q \<union> insert (desc_block g) (driver_blocks g)) (fat_locals s1 \<union> fat_pos s1 \<union> elem_region (file_descriptors s1) 4 1) s1 s2"
    using fopen_ok [OF 1(4) readable_after [OF m(4) l(1) 1(6) nz(3)] sample_path_ps(1,2) readable_after [OF m(5) l(2) 1(6) nz(3)] nz(1,2)
        sample_walk c1(2) slot] by blast
  have c2: "kheap_cap s2 1" using 2(4) by simp
  have "fd_table s1 ! 1 = 0" using m(8) by (simp add: 1(3))
  note k = fopen_keeps_open [OF 1(4,1) 2(5) this nz(4) c2]
  have sb: "session_buffer [sample_item] s1 0x5000 16" by (rule fopen_buffer(2) [OF m(3) 1(6) nz(3) c1(1) m(9)])
  have bf: "vfs_buffer [sample_item] s1 f 0x5000 16" by (rule fopen_buffer(1) [OF m(3) 1(6) nz(3) c1(1) m(9)])
  have bg: "vfs_buffer [sample_item] s2 g 0x5000 16" "session_buffer [sample_item] s2 0x5000 16" by (rule fopen_buffer [OF 1(4) 2(5) nz(4) c2 sb])+
  have bf2: "vfs_buffer [sample_item] s2 f 0x5000 16" using bf bg(2) unfolding vfs_buffer_def file_buffer_def session_buffer_def by blast
  show ?thesis by (rule that [OF 2(3) _ _ _ _ _ _ bf2 bg(1)]) (use k 2(1,2) 1(2) in \<open>auto simp: vfs_apart_def\<close>)
qed

section \<open>Properties\<close>

text \<open>C2: a whole session through the virtual file system: \<^verbatim>\<open>fopen\<close> for reading of a path on drive 0 that leads
  through the directories of the disk to a file returns the number of the lowest empty slot, \<^verbatim>\<open>fseek\<close>, \<^verbatim>\<open>fread\<close> and \<^verbatim>\<open>fclose\<close> of that number return 0, what is read are the bytes of the disk that the
  file has at the position, and the file system is ready for the next file. Only the descriptor and the
  parsed path stay allocated, and the slot stays occupied.\<close>

theorem vfs_session:
  fixes s :: "'a file_state_scheme"
  assumes "vfs_ready img rs spc e its s" and "readable s p ps" and "good_path ps" and "path_drive ps = 0"
    and "readable s mode ms" and "ms \<noteq> []" and "0x72 \<le>s hd ms" and "walks img spc e its (path_parts (drop 3 ps)) bs w"
    and "kheap_cap s (path_need ps + w + 3)" and "find (\<lambda>i. fd_table s ! i = 0) [0..<512] = Some j"
    and "file_gives img rs spc e bs x n ys" and "session_buffer its s out (length ys)"
  shows "\<exists>s1 s2 s3 s4. fopen p mode s = Some (of_nat j, s1) \<and> fseek (of_nat j) (of_nat x) SEEK_SET s1 = Some (0, s2)
    \<and> fread out (of_nat n) 1 (of_nat j) s2 = Some (0, s3) \<and> load_bytes (mem s3) out (length ys) = ys
    \<and> fclose (of_nat j) s3 = Some (0, s4) \<and> load_bytes (mem s4) out (length ys) = ys
    \<and> vfs_ready img rs spc e its s4 \<and> fd_table s4 ! j \<noteq> 0"
proof -
  have j: "j < 512" using assms(10) by (auto simp: find_Some_iff)
  have cap: "kheap_cap s (path_need ps + (w + 2 + Suc 0))" by (rule kheap_cap_mono [OF assms(9)]) simp
  obtain P f s1 where 1: "fopen p mode s = Some (of_nat j, s1)" "open_fd s1 (of_nat j) f 0" "item_bytes f = bs"
    "vfs_ready img rs spc e its s1" "kheap_cap s1 (Suc 0)"
    "grows (P \<union> insert (desc_block f) (driver_blocks f)) (fat_locals s \<union> fat_pos s \<union> elem_region (file_descriptors s) 4 j) s s1"
    using fopen_ok [OF assms(1-8) cap assms(10)] by blast
  have b: "vfs_buffer its s1 f out (length ys)" using fopen_buffer(1) [OF assms(1) 1(6) j _ assms(12)] 1(5) by simp
  have gv: "file_gives img rs spc e (item_bytes f) x n ys" using assms(11) 1(3) by simp
  obtain s2 s3 where 3: "fseek (of_nat j) (of_nat x) SEEK_SET s1 = Some (0, s2)" "fread out (of_nat n) 1 (of_nat j) s2 = Some (0, s3)"
    "load_bytes (mem s3) out (length ys) = ys" "vfs_ready img rs spc e its s3" "open_fd s3 (of_nat j) f x" "vfs_buffer its s3 f out (length ys)"
    by (rule vfs.seek_read [OF 1(4,2) gv b])
  obtain s4 where 4: "fclose (of_nat j) s3 = Some (0, s4)" "vfs_ready img rs spc e its s4" "fd_table s4 = fd_table s3"
    "same_outside kheap_meta (mem s3) (mem s4)" using vfs_close [OF 3(4,5)] by blast
  have "load_bytes (mem s4) out (length ys) = load_bytes (mem s3) out (length ys)"
    using 3(6) file_gives_length [OF assms(11)] file_buffer_meta [of s3 "driver_blocks f" out]
    by (intro load_bytes_frame [OF 4(4)]) (auto simp: vfs_buffer_def)
  moreover have "fd_table s4 ! j \<noteq> 0"
  proof -
    obtain l where l: "(of_nat j :: u32) = of_nat l" "descriptor_at s3 l f" by (rule open_fdE [OF 3(4,5)])
    have "l = j" using l(1) of_nat32_eq [of j l] j l(2) by (simp add: descriptor_at_def Let_def)
    then have "fd_table s3 ! j = fst (desc_block f)" "desc_block f \<in> kheap_live s3" using l(2) by (simp_all add: descriptor_at_def Let_def)
    then show ?thesis using live_nonzero [OF fat_ready_parts(1) [OF vfs_readyD(1) [OF 3(4)]], of "fst (desc_block f)" "snd (desc_block f)"] 4(3) by simp
  qed
  ultimately show ?thesis using 1(1) 3(1-3) 4(1,2) by simp
qed

theorem vfs_session_witness:
  "\<exists>s0 s s1 s2 s3 s4. fs_init sample_machine = Some s0 \<and> search_and_initialize s0 = Some s \<and> fopen 0x7000 0x200 s = Some (0, s1)
    \<and> fseek 0 512 SEEK_SET s1 = Some (0, s2) \<and> fread 0x5000 4 1 0 s2 = Some (0, s3) \<and> load_bytes (mem s3) 0x5000 4 = [4, 4, 4, 4]
    \<and> fclose 0 s3 = Some (0, s4)"
proof -
  obtain s0 s where m: "fs_init sample_machine = Some s0" "search_and_initialize s0 = Some s" "vfs_ready sample_image 1 1 3 [sample_item] s"
    "readable s 0x7000 [0x30, 0x3A, 0x2F, 0x61, 0x2E, 0x63]" "readable s 0x200 [0x72]"
    "kheap_cap s (path_need [0x30, 0x3A, 0x2F, 0x61, 0x2E, 0x63] + (2 + 2 + Suc (path_need [0x30, 0x3A, 0x2F, 0x61, 0x2E, 0x63] + (2 + 2 + Suc 0))))"
    "find (\<lambda>i. fd_table s ! i = 0) [0..<512] = Some 0" "session_buffer [sample_item] s 0x5000 16" by (rule sample_ready)
  have cap: "kheap_cap s (path_need [0x30, 0x3A, 0x2F, 0x61, 0x2E, 0x63] + 2 + 3)" by (rule kheap_cap_mono [OF m(6)]) simp
  have b: "session_buffer [sample_item] s 0x5000 (length [4, 4, 4, 4 :: u8])" by (rule session_buffer_mono [OF m(8)]) simp
  have e: "length [4, 4, 4, 4 :: u8] = 4" by simp
  from vfs_session [OF m(3,4) sample_path_ps(1,2) m(5) _ _ sample_walk cap m(7) sample_gives(1) b, unfolded e]
  show ?thesis using m(1,2) by (fastforce simp: word_sle_eq)
qed

text \<open>C10: what \<^verbatim>\<open>fopen\<close> for reading does with a path. If it leads to a file and a slot is empty, the file
  is open at position 0 under the number of the lowest empty slot, and every file that was open still is, sharing
  no block with the new one. If the path breaks off, at a name that is not there or at a file where a directory is needed, the
  result is \<^verbatim>\<open>-EIO\<close>, if no slot is empty it is \<^verbatim>\<open>-ENOMEM\<close>, and in both cases blocks stay allocated that nothing points to.\<close>

theorem fopen_outcomes:
  fixes s :: "'a file_state_scheme"
  assumes "vfs_ready img rs spc e its s" and "readable s p ps" and "good_path ps" and "path_drive ps = 0"
    and "readable s mode ms" and "ms \<noteq> []" and "0x72 \<le>s hd ms" and "kheap_cap s (path_need ps + w + 3)"
    and free: "free = find (\<lambda>i. fd_table s ! i = 0) [0..<512]"
  shows "(\<forall>bs j. walks img spc e its (path_parts (drop 3 ps)) bs w \<and> free = Some j \<longrightarrow>
      (\<exists>f s'. fopen p mode s = Some (of_nat j, s') \<and> open_fd s' (of_nat j) f 0 \<and> item_bytes f = bs \<and> vfs_ready img rs spc e its s'
        \<and> fd_table s' = (fd_table s)[j := fst (desc_block f)] \<and> (\<forall>k g z. open_fd s k g z \<longrightarrow> open_fd s' k g z \<and> vfs_apart f g \<and> vfs_apart g f)))
    \<and> (breaks img spc e its (path_parts (drop 3 ps)) w \<and> (0 < w \<longrightarrow> null_item_typed s) \<longrightarrow>
      (\<exists>C s'. fopen p mode s = Some (- EIO, s') \<and> kheap_live s' = kheap_live s \<union> C \<and> C \<inter> kheap_live s = {} \<and> C \<noteq> {} \<and> vfs_ready img rs spc e its s'))
    \<and> (\<forall>bs. walks img spc e its (path_parts (drop 3 ps)) bs w \<and> free = None \<longrightarrow>
      (\<exists>C s'. fopen p mode s = Some (- ENOMEM, s') \<and> kheap_live s' = kheap_live s \<union> C \<and> C \<inter> kheap_live s = {} \<and> C \<noteq> {}))"
proof (intro conjI allI impI)
  fix bs j assume a: "walks img spc e its (path_parts (drop 3 ps)) bs w \<and> free = Some j"
  then have w: "walks img spc e its (path_parts (drop 3 ps)) bs w" and i: "find (\<lambda>i. fd_table s ! i = 0) [0..<512] = Some j" using free by simp_all
  from i have j: "fd_table s ! j = 0" "j < 512" by (auto simp: find_Some_iff)
  have cap: "kheap_cap s (path_need ps + (w + 2 + Suc 0))" by (rule kheap_cap_mono [OF assms(8)]) simp
  obtain P f s1 where 1: "fopen p mode s = Some (of_nat j, s1)" "open_fd s1 (of_nat j) f 0" "item_bytes f = bs"
    "fd_table s1 = (fd_table s)[j := fst (desc_block f)]" "vfs_ready img rs spc e its s1" "kheap_cap s1 (Suc 0)"
    "grows (P \<union> insert (desc_block f) (driver_blocks f)) (fat_locals s \<union> fat_pos s \<union> elem_region (file_descriptors s) 4 j) s s1"
    using fopen_ok [OF assms(1-7) w cap i] by blast
  have "open_fd s1 k g z \<and> vfs_apart f g \<and> vfs_apart g f" if g: "open_fd s k g z" for k g z
    using fopen_keeps_open [OF assms(1) g 1(7) j] 1(6) by (auto simp: vfs_apart_def)
  then show "\<exists>f s'. fopen p mode s = Some (of_nat j, s') \<and> open_fd s' (of_nat j) f 0 \<and> item_bytes f = bs \<and> vfs_ready img rs spc e its s'
        \<and> fd_table s' = (fd_table s)[j := fst (desc_block f)] \<and> (\<forall>k g z. open_fd s k g z \<longrightarrow> open_fd s' k g z \<and> vfs_apart f g \<and> vfs_apart g f)"
    using 1(1-5) by blast
next
  assume b: "breaks img spc e its (path_parts (drop 3 ps)) w \<and> (0 < w \<longrightarrow> null_item_typed s)"
  have cap: "kheap_cap s (path_need ps + Suc (w + Suc 0))" by (rule kheap_cap_mono [OF assms(8)]) simp
  obtain C s' where 1: "fopen p mode s = Some (- EIO, s')" "grows C (fat_locals s \<union> fat_pos s) s s'" "C \<noteq> {}" "vfs_ready img rs spc e its s'"
    by (rule fopen_broken [OF assms(1-7) _ _ cap]) (use b in blast)+
  show "\<exists>C s'. fopen p mode s = Some (- EIO, s') \<and> kheap_live s' = kheap_live s \<union> C \<and> C \<inter> kheap_live s = {} \<and> C \<noteq> {} \<and> vfs_ready img rs spc e its s'"
    using 1(1,3,4) growsD(2,3) [OF 1(2)] by blast
next
  fix bs assume a: "walks img spc e its (path_parts (drop 3 ps)) bs w \<and> free = None"
  then have w: "walks img spc e its (path_parts (drop 3 ps)) bs w" and i: "find (\<lambda>i. fd_table s ! i = 0) [0..<512] = None" using free by simp_all
  have cap: "kheap_cap s (path_need ps + Suc (w + Suc 1))" by (rule kheap_cap_mono [OF assms(8)]) simp
  obtain C s' where 1: "fopen p mode s = Some (- ENOMEM, s')" "grows C (fat_locals s \<union> fat_pos s) s s'" "C \<noteq> {}"
    using fopen_full [OF assms(1-7) w cap i] by metis
  show "\<exists>C s'. fopen p mode s = Some (- ENOMEM, s') \<and> kheap_live s' = kheap_live s \<union> C \<and> C \<inter> kheap_live s = {} \<and> C \<noteq> {}"
    using 1(1,3) growsD(2,3) [OF 1(2)] by blast
qed

theorem fopen_outcomes_witness:
  "\<exists>s0 s f s'. fs_init sample_machine = Some s0 \<and> search_and_initialize s0 = Some s \<and> fopen 0x7000 0x200 s = Some (0, s')
    \<and> open_fd s' 0 f 0 \<and> item_bytes f = sample_item"
proof -
  obtain s0 s where m: "fs_init sample_machine = Some s0" "search_and_initialize s0 = Some s" "vfs_ready sample_image 1 1 3 [sample_item] s"
    "readable s 0x7000 [0x30, 0x3A, 0x2F, 0x61, 0x2E, 0x63]" "readable s 0x200 [0x72]"
    "kheap_cap s (path_need [0x30, 0x3A, 0x2F, 0x61, 0x2E, 0x63] + (2 + 2 + Suc (path_need [0x30, 0x3A, 0x2F, 0x61, 0x2E, 0x63] + (2 + 2 + Suc 0))))"
    "find (\<lambda>i. fd_table s ! i = 0) [0..<512] = Some 0" by (rule sample_ready)
  have cap: "kheap_cap s (path_need [0x30, 0x3A, 0x2F, 0x61, 0x2E, 0x63] + 2 + 3)" by (rule kheap_cap_mono [OF m(6)]) simp
  have "[0x72 :: u8] \<noteq> []" "0x72 \<le>s hd [0x72 :: u8]" by simp_all
  note o = fopen_outcomes [OF m(3,4) sample_path_ps(1,2) m(5) this cap m(7) [symmetric], THEN conjunct1, rule_format, of _ 0]
  show ?thesis using o sample_walk m(1,2) by fastforce
qed

text \<open>C11: a disk without the FAT16 signature is refused cleanly, and nothing can be opened on it: \<^verbatim>\<open>fs::init\<close> and
  \<^verbatim>\<open>search_and_initialize\<close> return, every block the driver allocated while it looked at the disk is given back, the disk has no
  file system, and \<^verbatim>\<open>fopen\<close> of any well-formed path on drive 0, in whatever mode, is answered with \<^verbatim>\<open>-EIO\<close>. The blocks of the parsed
  path stay allocated.\<close>

theorem unformatted_disk_refused:
  fixes s :: "'a file_state_scheme"
  assumes "linked s" and "kheap_inv s" and "tty_ok s" and "ata_drive (device s) img" and "img 38 \<noteq> FAT16_SIGNATURE" and "kheap_cap s (6 + path_need ps)"
    and "good_path ps" and "path_drive ps = 0"
  shows "\<exists>s1 s2. fs_init s = Some s1 \<and> search_and_initialize s1 = Some s2 \<and> kheap_inv s2 \<and> kheap_live s2 = kheap_live s
    \<and> load32 (mem s2) (disk_fs (primary_disk s2)) = 0
    \<and> (\<forall>p mode. readable s2 p ps \<longrightarrow> (\<exists>C s3. fopen p mode s2 = Some (- EIO, s3) \<and> kheap_live s3 = kheap_live s2 \<union> C \<and> C \<inter> kheap_live s2 = {} \<and> C \<noteq> {}))"
proof -
  obtain s1 where s1: "fs_init s = Some s1" "linked s1" "same_globals s s1" "kheap_inv s1" "kheap_live s1 = kheap_live s"
    "load32 (mem s1) (filesystems s) = fat16_fs s" "\<forall>i < 512. 0 < i \<longrightarrow> load32 (mem s1) (elem_addr (filesystems s) 4 i) = 0"
    by (rule fs_init_ok [OF assms(1-3)])
  note st = file_state_fields [OF s1(3)]
  have fss: "filesystems s1 = filesystems s" using s1(3) by (simp add: same_globals_def)
  have "kheap_cap s1 (6 + path_need ps)" by (rule kheap_cap_live [OF assms(2) s1(4) s1(5) [symmetric] assms(6)])
  then have cap: "kheap_cap s1 (4 + Suc (Suc (path_need ps)))" by simp
  have drv: "ata_drive (device s1) img" and reg: "load32 (mem s1) (filesystems s1) = fat16_fs s1"
    and tab: "\<forall>i < 512. 0 < i \<longrightarrow> load32 (mem s1) (elem_addr (filesystems s1) 4 i) = 0" using assms(4) s1(6,7) st fss by simp_all
  obtain s2 where s2: "search_and_initialize s1 = Some s2" "keeps (region (primary_disk s1) 20) s1 s2" "load32 (mem s2) (disk_fs (primary_disk s1)) = 0"
    by (rule search_refused [OF s1(2,4) drv reg tab assms(5) cap])
  note g = growsD [OF s2(2)] and d = file_state_fields(10) [OF grows_state [OF s2(2)]]
  have cap2: "kheap_cap s2 (path_need ps + 0)" by (rule kheap_cap_mono [OF keepsD(3) [OF s2(2) s1(4) cap]]) simp
  have z: "primary_disk s1 \<noteq> 0" "region (primary_disk s1) 20 \<inter> (kheap_meta \<union> heap_area) = {}" using linkedD(2) [OF s1(2)] linked_apart(6) [OF s1(2)] by auto
  have "\<exists>C s3. fopen p mode s2 = Some (- EIO, s3) \<and> kheap_live s3 = kheap_live s2 \<union> C \<and> C \<inter> kheap_live s2 = {} \<and> C \<noteq> {}"
    if r: "readable s2 p ps" for p mode
  proof -
    obtain q k xs s3 where a: "parse p s2 = Some (q, s3)" "grows (set ((q, k) # part_blocks xs)) {} s2 s3" "path_at s3 q k 0 xs" "part_names xs = path_parts (drop 3 ps)"
      using parse_ok [OF g(1) r assms(7) cap2] assms(8) by auto
    have d3: "primary_disk s3 = primary_disk s1" using file_state_fields(10) [OF grows_state [OF a(2)]] d by simp
    have pa: "q \<noteq> 0" "load32 (mem s3) (root_drive_number q) = 0" "parts_at s3 (load32 (mem s3) (root_path q)) xs" using a(3) by (simp_all add: path_at_def)
    have "drop 3 ps \<noteq> []" using assms(7) by (auto simp: good_path_def)
    then have "path_parts (drop 3 ps) \<noteq> []" by (subst path_parts.simps) simp
    then have "load32 (mem s3) (root_path q) \<noteq> 0" using pa(3) a(4) by (cases xs) (auto simp: part_names_def)
    moreover have "load32 (mem s3) (disk_fs (primary_disk s1)) = 0"
    proof -
      have "heap_private s2 \<subseteq> kheap_meta \<union> heap_area" by (auto simp: heap_private_def)
      then have "region (disk_fs (primary_disk s1)) 4 \<inter> ({} \<union> heap_private s2) = {}" using disk_fields_in(3) [of "primary_disk s1"] z(2) by blast
      from grows_load32 [OF a(2) this] show ?thesis using s2(3) by simp
    qed
    ultimately have "fopen p mode s2 = Some (- EIO, s3)" using a(1) pa(1,2) d3 z(1) by (simp add: fopen_def get_disk_def Let_def)
    moreover have "set ((q, k) # part_blocks xs) \<noteq> {}" by simp
    ultimately show ?thesis using growsD(2,3) [OF a(2)] by blast
  qed
  then show ?thesis using s1(1,5) s2(1,3) g(1,2) d by simp
qed

theorem unformatted_disk_refused_witness:
  "\<exists>s1 s2. fs_init (sample_files boot_mem) = Some s1 \<and> search_and_initialize s1 = Some s2 \<and> kheap_live s2 = kheap_live (sample_files boot_mem)
    \<and> load32 (mem s2) (disk_fs (primary_disk s2)) = 0"
proof -
  let ?s = "sample_files boot_mem"
  have e: "sample_machine = ?s\<lparr>device := sample_drive sample_image\<rparr>" by (simp add: sample_machine_def)
  have l: "linked ?s"
    using sample_machine_linked unfolding e by (simp add: linked_def kernel_regions_def fat_locals_def fd_region_def fat16_fs_initialised_def)
  have h: "kheap_inv ?s" "tty_ok ?s" "kheap_cap ?s (6 + path_need [0x30, 0x3A, 0x2F, 0x61, 0x2E, 0x63])"
    using sample_machine_heap(1) sample_machine_heap(2) [of 9] sample_machine_fields(18) unfolding e sample_path_ps
    by (simp_all add: kheap_inv_def kheap_cap_def tty_ok_def)
  have d: "ata_drive (device ?s) (\<lambda>_. 0)" using sample_drive_ok [of "\<lambda>_. 0"]
    by (simp add: sample_files_def fat_state.extend_def file_state.fields_def disk_state.extend_def fat_state.fields_def sample_disk_def)
  have n: "(\<lambda>_. 0 :: u8) (38 :: nat) \<noteq> FAT16_SIGNATURE" by (simp add: kernel_consts)
  show ?thesis using unformatted_disk_refused [OF l h(1,2) d n h(3) sample_path_ps(1,2)] by blast
qed

text \<open>C9: two files open at once do not disturb each other: the second is positioned, then the first is positioned, read and
  closed, then the second is read; each read delivers the bytes of its own file at its own position.\<close>

theorem two_files_interleaved:
  fixes s :: "'a file_state_scheme"
  assumes "vfs_ready img rs spc e its s" and "open_fd s h f x" and "open_fd s k g z" and "vfs_apart f g" and "vfs_apart g f"
    and "file_gives img rs spc e (item_bytes f) y n bs" and "file_gives img rs spc e (item_bytes g) w m cs"
    and "vfs_buffer its s f out (length bs)" and "vfs_buffer its s g out (length bs)"
    and "vfs_buffer its s f out2 (length cs)" and "vfs_buffer its s g out2 (length cs)"
  shows "\<exists>s1 s2 s3 s4 s5. fseek k (of_nat w) SEEK_SET s = Some (0, s1) \<and> fseek h (of_nat y) SEEK_SET s1 = Some (0, s2)
    \<and> fread out (of_nat n) 1 h s2 = Some (0, s3) \<and> load_bytes (mem s3) out (length bs) = bs \<and> fclose h s3 = Some (0, s4)
    \<and> fread out2 (of_nat m) 1 k s4 = Some (0, s5) \<and> load_bytes (mem s5) out2 (length cs) = cs"
  by (rule vfs.interleaved [OF assms])

theorem two_files_interleaved_witness:
  "\<exists>(s :: file_state) s1 s2 s3 s4 s5. fseek 1 0 SEEK_SET s = Some (0, s1) \<and> fseek 0 512 SEEK_SET s1 = Some (0, s2)
    \<and> fread 0x5000 4 1 0 s2 = Some (0, s3) \<and> load_bytes (mem s3) 0x5000 4 = [4, 4, 4, 4] \<and> fclose 0 s3 = Some (0, s4)
    \<and> fread 0x5000 4 1 1 s4 = Some (0, s5) \<and> load_bytes (mem s5) 0x5000 4 = [3, 3, 3, 3]"
proof -
  obtain s :: file_state and f g where m: "vfs_ready sample_image 1 1 3 [sample_item] s" "open_fd s 0 f 0" "open_fd s 1 g 0" "vfs_apart f g" "vfs_apart g f"
    "item_bytes f = sample_item" "item_bytes g = sample_item" "vfs_buffer [sample_item] s f 0x5000 16" "vfs_buffer [sample_item] s g 0x5000 16"
    by (rule sample_two_open)
  have g: "file_gives sample_image 1 1 3 (item_bytes f) 512 4 [4, 4, 4, 4]" "file_gives sample_image 1 1 3 (item_bytes g) 0 4 [3, 3, 3, 3]"
    using sample_gives m(6,7) by simp_all
  have e: "length [4, 4, 4, 4 :: u8] = 4" "length [3, 3, 3, 3 :: u8] = 4" by simp_all
  have "region 0x5000 4 \<subseteq> region 0x5000 16" by (rule region_mono) simp
  then have r: "region 0x5000 4 \<inter> A = {}" if "region 0x5000 16 \<inter> A = {}" for A using that by blast
  have "vfs_buffer [sample_item] s f' 0x5000 4" if "vfs_buffer [sample_item] s f' 0x5000 16" for f'
    using that r unfolding vfs_buffer_def file_buffer_def by simp
  note b = this [OF m(8)] this [OF m(9)]
  have z: "(of_nat 0 :: u32) = 0" "(of_nat 512 :: u32) = 512" "(of_nat 4 :: u32) = 4" by simp_all
  show ?thesis using two_files_interleaved [OF m(1-5) g, unfolded e z, OF b b] by - (rule exI [of _ s])
qed

text \<open>C33: \<^verbatim>\<open>fclose\<close> gives the driver's blocks back but does not take the number away: afterwards the number still leads to
  the same descriptor and through it to the driver's handle, which is no longer a live block. So reading or closing it
  again is not refused: it runs the driver on freed memory.\<close>

theorem fclose_keeps_number:
  fixes s :: "'a file_state_scheme"
  assumes "vfs_ready img rs spc e its s" and "open_fd s fd f x"
  shows "\<exists>s'. fclose fd s = Some (0, s') \<and> kheap_live s' = kheap_live s - driver_blocks f \<and> desc_block f \<in> kheap_live s'
    \<and> get_file_descriptor fd s' = fst (desc_block f) \<and> (\<forall>k. (driver_handle f, k) \<notin> kheap_live s')
    \<and> fclose fd s' = fat16_close (driver_handle f) s'
    \<and> (\<forall>out bs nb. bs \<noteq> 0 \<and> nb \<noteq> 0 \<longrightarrow> fread out bs nb fd s' = fat16_read (primary_disk s') (driver_handle f) bs nb out s')"
proof -
  note v = vfs_readyD [OF assms(1)] and i = fat_ready_parts(1) [OF vfs_readyD(1) [OF assms(1)]]
  obtain j where j: "fd = of_nat j" "descriptor_at s j f" "open_file s (driver_handle f) (item_bytes f) x (driver_blocks f)"
    by (rule open_fdE [OF assms])
  obtain s' where s': "fclose fd s = Some (0, s')" "vfs_ready img rs spc e its s'" "kheap_live s' = kheap_live s - driver_blocks f"
    "same_outside kheap_meta (mem s) (mem s')" "s' = s\<lparr>mem := mem s'\<rparr>" "fat_area s' = fat_area s"
    using vfs_close [OF assms] by blast
  have st: "same_globals s s'" by (subst s'(5)) (simp add: same_globals_def)
  note db = descriptor_block [OF assms(1) j(2)] and v' = vfs_readyD [OF s'(2)] and i' = fat_ready_parts(1) [OF vfs_readyD(1) [OF s'(2)]]
  have m: "kheap_meta \<subseteq> heap_private s" by (auto simp: heap_private_def)
  have "elem_region (file_descriptors s) 4 j \<subseteq> fd_region s"
    using elem_within [of j 512 "file_descriptors s" 4] j(2) by (simp add: descriptor_at_def Let_def fd_region_def)
  then have "kheap_meta \<inter> (desc_bytes f \<union> elem_region (file_descriptors s) 4 j) = {}" using db(4) m vfs_ready_apart [OF assms(1)] by blast
  moreover have dl: "desc_block f \<in> kheap_live s'" using db(2,6) s'(3) by blast
  ultimately have d': "descriptor_at s' j f" by (rule descriptor_at_frame [OF j(2) s'(4) _ _ s'(6) st])
  note op = descriptor_dispatch [OF v'(3) i' d']
  have "(driver_handle f, k) \<notin> kheap_live s'" for k
  proof
    assume k: "(driver_handle f, k) \<in> kheap_live s'"
    obtain l where l: "(driver_handle f, l) \<in> driver_blocks f" using j(3) unfolding open_file_def by blast
    then have "(driver_handle f, l) \<in> kheap_live s" using open_file_blocks(1) [OF j(3)] by blast
    then have "k = l" using live_unique [OF i, of "driver_handle f" k l] k s'(3) by blast
    then show False using k l s'(3) by blast
  qed
  then show ?thesis using s'(1,3) dl op j(1) by auto
qed

theorem fclose_keeps_number_witness:
  "\<exists>(s :: file_state) s' d f. fclose 0 s = Some (0, s') \<and> get_file_descriptor 0 s' = d \<and> (\<forall>k. (driver_handle f, k) \<notin> kheap_live s')
    \<and> fclose 0 s' = fat16_close (driver_handle f) s' \<and> open_fd s 0 f 0 \<and> d \<noteq> 0"
proof -
  obtain s :: file_state and f g where m: "vfs_ready sample_image 1 1 3 [sample_item] s" "open_fd s 0 f 0" by (rule sample_two_open)
  obtain s' where s': "fclose 0 s = Some (0, s')" "desc_block f \<in> kheap_live s'" "get_file_descriptor 0 s' = fst (desc_block f)"
    "\<forall>k. (driver_handle f, k) \<notin> kheap_live s'" "fclose 0 s' = fat16_close (driver_handle f) s'" "kheap_live s' = kheap_live s - driver_blocks f"
    using fclose_keeps_number [OF m] by blast
  have "desc_block f \<in> kheap_live s" using s'(2,6) by blast
  then have "fst (desc_block f) \<noteq> 0"
    using live_nonzero [OF fat_ready_parts(1) [OF vfs_readyD(1) [OF m(1)]], of "fst (desc_block f)" "snd (desc_block f)"] by simp
  then show ?thesis using s'(1,3-5) m(2) by (intro exI [of _ s] exI [of _ s'] exI [of _ "fst (desc_block f)"] exI [of _ f]) simp
qed

end
