(* ===== verification/Kernel_Boot.thy ===== *)
theory Kernel_Boot
  imports Kernel File_Boot
begin

text \<open>
  What \<^verbatim>\<open>kernel_main\<close> has built before it touches a file: the processor's tables (\<^verbatim>\<open>boot_tables\<close>), then the heap, an identity
  mapped address space, the mounted disk and a first read from it (\<^verbatim>\<open>boot_disk\<close>). The lemmas carry each part's own facts
  through the later steps: what \<open>processor_tables\<close> says of the memory and the registers stays true because no later step
  writes there.
\<close>

section \<open>The image of the kernel\<close>

definition text_bytes :: "string \<Rightarrow> u8 list" where
  "text_bytes = map of_char"

definition welcome_text :: string where
  "welcome_text = ''Welcome to N00bOS\<newline>''"

text \<open>The globals and locals of \<^verbatim>\<open>kernel_main\<close> that these steps use lie at places of their own.\<close>

definition main_regions :: "'a kernel_state_scheme \<Rightarrow> u32 set list" where
  "main_regions s = [region (gdt_real s) 48, region (tss s) 100, region (idt_descs s) 4096, region (literal s welcome_text) 19,
     region (local_buf s ''buf'') 514]"

definition kernel_linked :: "'a kernel_state_scheme \<Rightarrow> bool" where
  "kernel_linked s \<longleftrightarrow> linked s \<and> pairwise_apart (main_regions s)
     \<and> list_all (\<lambda>x. list_all (\<lambda>y. x \<inter> y = {}) (kernel_regions s)) (main_regions s)
     \<and> cstring (mem s) (literal s welcome_text) (text_bytes welcome_text)"

text \<open>The addresses that no step changes.\<close>

definition same_main :: "'a kernel_state_scheme \<Rightarrow> 'a kernel_state_scheme \<Rightarrow> bool" where
  "same_main s s' \<longleftrightarrow> same_globals s s' \<and> gdt_real s' = gdt_real s \<and> tss s' = tss s \<and> idt_descs s' = idt_descs s
     \<and> literal s' = literal s \<and> local_buf s' = local_buf s \<and> stat_local s' = stat_local s \<and> processes s' = processes s"

lemma same_main_regions:
  assumes "same_main s s'"
  shows "main_regions s' = main_regions s" and "kernel_regions s' = kernel_regions s" and "same_globals s s'"
proof -
  show g: "same_globals s s'" using assms by (simp add: same_main_def)
  show "main_regions s' = main_regions s" using assms by (simp add: same_main_def main_regions_def)
  show "kernel_regions s' = kernel_regions s" using g file_state_fields [OF g] by (simp add: kernel_regions_def same_globals_def)
qed

text \<open>What the five regions of \<^verbatim>\<open>kernel_main\<close> keep away from.\<close>

definition file_memory :: "'a file_state_scheme \<Rightarrow> u32 set" where
  "file_memory s = \<Union> (set (kernel_regions s))"

lemma main_apart:
  fixes s :: "'a kernel_state_scheme"
  assumes "kernel_linked s"
  shows "region (gdt_real s) 48 \<inter> (region (tss s) 100 \<union> region (idt_descs s) 4096 \<union> region (literal s welcome_text) 19
      \<union> region (local_buf s ''buf'') 514 \<union> file_memory s) = {}"
    and "region (tss s) 100 \<inter> (region (idt_descs s) 4096 \<union> region (literal s welcome_text) 19 \<union> region (local_buf s ''buf'') 514 \<union> file_memory s) = {}"
    and "region (idt_descs s) 4096 \<inter> (region (literal s welcome_text) 19 \<union> region (local_buf s ''buf'') 514 \<union> file_memory s) = {}"
    and "region (literal s welcome_text) 19 \<inter> (region (local_buf s ''buf'') 514 \<union> file_memory s) = {}"
    and "region (local_buf s ''buf'') 514 \<inter> file_memory s = {}"
  using assms unfolding kernel_linked_def main_regions_def file_memory_def by (auto simp: list_all_iff)

lemma file_memory_parts:
  fixes s :: "'a file_state_scheme"
  shows "region (filesystems s) 2048 \<union> fd_region s \<union> region (fat16_fs s) 279 \<union> region (literal_r s) 2 \<union> region (fat16_literal s) 6
    \<union> region (primary_disk s) 20 \<union> fat_locals s \<union> screen_region \<union> kheap_meta \<union> heap_area \<subseteq> file_memory s"
  by (auto simp: file_memory_def kernel_regions_def)

section \<open>The processor's tables\<close>

text \<open>What the processor finds: the six segments, a gate for each of the 256 vectors, and the stack of the kernel in the task
  state segment.\<close>

definition processor_tables :: "u32 \<Rightarrow> u32 \<Rightarrow> u32 \<Rightarrow> 'a kernel_state_scheme \<Rightarrow> bool" where
  "processor_tables no_interrupt zero_handler int21h s \<longleftrightarrow>
     cpu_gdtr s = \<lparr>gdtr_size = 48, gdtr_base = gdt_real s\<rparr>
     \<and> map (\<lambda>i. descriptor (mem s) (gdt_real s + of_nat (i * 8))) [0..<6] = kernel_structured_gdt (tss s)
     \<and> cpu_idtr s = \<lparr>idtr_limit = 4095, idtr_base = idt_descs s\<rparr>
     \<and> (\<forall>v. idt_lookup s v = Some \<lparr>gate_target = (if v = 0x21 then int21h else if v = 0 then zero_handler else no_interrupt),
         gate_selector = 0x08, gate_type = 0xEE\<rparr>)
     \<and> cpu_tr s = 0x28 \<and> load32 (mem s) (tss_esp0 (tss s)) = 0x600000 \<and> load32 (mem s) (tss_ss0 (tss s)) = GDT_KERNEL_DATA_SELECTOR"

lemma descriptor_frame:
  assumes "same_outside X m m'" and "region p 8 \<inter> X = {}"
  shows "descriptor m' p = descriptor m p"
proof -
  have "m' a = m a" if "a \<in> region p 8" for a using that assms by (auto simp: same_outside_def)
  then show ?thesis using gate_region_offsets [of p] base_mem_region [of p 8]
    by (simp add: descriptor_def descriptor_base_def descriptor_limit_def descriptor_access_def)
qed

lemma tables_frame:
  fixes s :: "'a kernel_state_scheme"
  assumes "processor_tables a b c s" and "same_outside X (mem s) (mem s')" and "X \<inter> (region (gdt_real s) 48 \<union> region (tss s) 100 \<union> region (idt_descs s) 4096) = {}"
    and "gdt_real s' = gdt_real s" "tss s' = tss s" "idt_descs s' = idt_descs s" "cpu_gdtr s' = cpu_gdtr s" "cpu_idtr s' = cpu_idtr s" "cpu_tr s' = cpu_tr s"
  shows "processor_tables a b c s'"
proof -
  note f = assms(2)
  have "descriptor (mem s') (gdt_real s + of_nat (i * 8)) = descriptor (mem s) (gdt_real s + of_nat (i * 8))" if "i < 6" for i
  proof (rule descriptor_frame [OF f])
    show "region (gdt_real s + of_nat (i * 8)) 8 \<inter> X = {}"
      using elem_within [of i 6 "gdt_real s" 8] that assms(3) by (auto simp: elem_region_def elem_addr_def)
  qed
  then have "map (\<lambda>i. descriptor (mem s') (gdt_real s + of_nat (i * 8))) [0..<6] = map (\<lambda>i. descriptor (mem s) (gdt_real s + of_nat (i * 8))) [0..<6]"
    by (intro map_cong refl) simp
  also have "\<dots> = kernel_structured_gdt (tss s)" using assms(1) by (simp only: processor_tables_def)
  finally have "map (\<lambda>i. descriptor (mem s') (gdt_real s + of_nat (i * 8))) [0..<6] = kernel_structured_gdt (tss s)" .
  moreover have "idt_lookup s' v = idt_lookup s v" for v
  proof -
    have u: "unat v < 512" using unsigned_less [where 'a = nat, of v] by simp
    have "elem_region (idt_descs s) 8 (unat v) \<inter> X = {}" using elem_within [OF u, of "idt_descs s" 8] assms(3) by auto
    then have "gate_at (mem s') (elem_addr (idt_descs s) 8 (unat v)) = gate_at (mem s) (elem_addr (idt_descs s) 8 (unat v))"
      by (intro gate_at_frame [OF f]) (simp add: elem_region_def)
    moreover have "cpu_idtr s = \<lparr>idtr_limit = 4095, idtr_base = idt_descs s\<rparr>" using assms(1) by (simp add: processor_tables_def)
    ultimately show ?thesis using assms(8) by (simp add: idt_lookup_def)
  qed
  moreover have "region (tss_esp0 (tss s)) 4 \<subseteq> region (tss s) 100" "region (tss_ss0 (tss s)) 4 \<subseteq> region (tss s) 100"
    using region_shift [of 4 4 100 "tss s"] region_shift [of 8 4 100 "tss s"] by (simp_all add: tss_esp0_def tss_ss0_def)
  then have "load32 (mem s') (tss_esp0 (tss s)) = load32 (mem s) (tss_esp0 (tss s))" "load32 (mem s') (tss_ss0 (tss s)) = load32 (mem s) (tss_ss0 (tss s))"
    using assms(3) by (auto intro!: load32_frame [OF f])
  ultimately show ?thesis using assms(1) unfolding processor_tables_def assms(4-9) by simp
qed

lemma kernel_linked_frame:
  fixes s :: "'a kernel_state_scheme"
  assumes "kernel_linked s" and "same_outside X (mem s) (mem s')" and "same_main s s'"
    and "X \<inter> (region (fat16_fs s) 24 \<union> region (literal_r s) 2 \<union> region (fat16_literal s) 6 \<union> region (literal s welcome_text) 19) = {}"
  shows "kernel_linked s'"
proof -
  note r = same_main_regions [OF assms(3)]
  have "linked s" "cstring (mem s) (literal s welcome_text) (text_bytes welcome_text)" using assms(1) by (simp_all add: kernel_linked_def)
  moreover have "linked s'" by (rule linked_frame [OF calculation(1) assms(2) _ r(3)]) (use assms(4) in blast)
  moreover have "cstring (mem s') (literal s welcome_text) (text_bytes welcome_text)"
  proof (rule cstring_frame [OF assms(2) _ calculation(2)])
    have "Suc (length (text_bytes welcome_text)) = 19" by (simp add: text_bytes_def welcome_text_def)
    then show "region (literal s welcome_text) (Suc (length (text_bytes welcome_text))) \<inter> X = {}" using assms(4) by auto
  qed
  ultimately show ?thesis using assms(1,3) r(1,2) by (simp add: kernel_linked_def same_main_def)
qed

text \<open>Line 67 is the last of this part: the heap is initialised after the tables.\<close>

lemma task_segment_bytes:
  fixes t :: u32 and m :: mem
  defines "m' \<equiv> store32 (store32 (memset m t 0 sizeof_tss) (tss_esp0 t) 0x600000) (tss_ss0 t) GDT_KERNEL_DATA_SELECTOR"
  shows "load32 m' (tss_esp0 t) = 0x600000" and "load32 m' (tss_ss0 t) = GDT_KERNEL_DATA_SELECTOR" and "same_outside (region t 100) m m'"
proof -
  show "load32 m' (tss_ss0 t) = GDT_KERNEL_DATA_SELECTOR" by (simp add: m'_def)
  have "region (t + 4) 4 \<inter> region (t + 8) 4 = {}" using parts_apart [of 4 4 8 4 t] by simp
  then show "load32 m' (tss_esp0 t) = 0x600000" by (simp add: m'_def tss_esp0_def tss_ss0_def load32_frame [OF store32_outside])
  have in100: "region (tss_esp0 t) 4 \<subseteq> region t 100" "region (tss_ss0 t) 4 \<subseteq> region t 100"
    using region_shift [of 4 4 100 t] region_shift [of 8 4 100 t] by (simp_all add: tss_esp0_def tss_ss0_def)
  have "same_outside (region t 100) m (memset m t 0 sizeof_tss)" using memset_outside [of t sizeof_tss m 0] by (simp add: kernel_consts)
  from same_outside_trans [OF same_outside_trans [OF this store32_outside] store32_outside]
  show "same_outside (region t 100) m m'" unfolding m'_def by (rule same_outside_mono) (use in100 in blast)
qed

lemma terminal_setup:
  fixes s :: "'a kernel_state_scheme"
  assumes "kernel_linked s"
  obtains s' where "write_literal welcome_text (terminal_set_colour 10 (terminal_initialise s)) = Some s'" and "tty_ok s'"
    and "same_outside screen_region (mem s) (mem s')"
    and "\<exists>m r c l b. s' = s\<lparr>mem := m, terminal_row := r, terminal_column := c, terminal_colour := l, terminal_buffer := b\<rparr>"
proof -
  let ?s = "terminal_set_colour 10 (terminal_initialise s)"
  have t: "tty_ok ?s" "same_outside screen_region (mem s) (mem ?s)"
    using initialise_screen [of s] by (simp_all add: terminal_set_colour_def tty_ok_def)
  have lit: "literal ?s = literal s" by (simp add: terminal_set_colour_def initialise_eq)
  have n: "Suc (length (text_bytes welcome_text)) = 19" by (simp add: text_bytes_def welcome_text_def)
  have off: "region (literal s welcome_text) (Suc (length (text_bytes welcome_text))) \<inter> screen_region = {}"
    using main_apart(4) [OF assms] file_memory_parts [of s] unfolding n by blast
  have "cstring (mem ?s) (literal s welcome_text) (text_bytes welcome_text)"
    using cstring_frame [OF t(2) off] assms by (simp add: kernel_linked_def)
  then obtain s' where s': "terminal_write (literal s welcome_text) ?s = Some s'" "tty_ok s'" "same_outside screen_region (mem ?s) (mem s')"
    using terminal_write_ok [OF t(1) _ off] by blast
  obtain m r c l b where "s' = ?s\<lparr>mem := m, terminal_row := r, terminal_column := c, terminal_colour := l, terminal_buffer := b\<rparr>"
    by (rule terminal_write_state [OF s'(1)])
  then have "s' = s\<lparr>mem := m, terminal_row := r, terminal_column := c, terminal_colour := l, terminal_buffer := b\<rparr>"
    by (simp add: terminal_set_colour_def initialise_eq)
  then have "\<exists>m r c l b. s' = s\<lparr>mem := m, terminal_row := r, terminal_column := c, terminal_colour := l, terminal_buffer := b\<rparr>" by blast
  moreover have "same_outside screen_region (mem s) (mem s')" using same_outside_trans [OF t(2) s'(3)] by simp
  ultimately show ?thesis using that s'(1,2) lit by (simp add: write_literal_def)
qed

text \<open>Where the boot writes, with \<open>t\<close> items in the root directory of the disk.\<close>

definition boot_writes :: "nat \<Rightarrow> 'a kernel_state_scheme \<Rightarrow> u32 set" where
  "boot_writes t s = region (gdt_real s) 48 \<union> region (tss s) 100 \<union> region (idt_descs s) 4096 \<union> region (local_buf s ''buf'') 514 \<union> region 0 (32 * t)
     \<union> region (filesystems s) 2048 \<union> fd_region s \<union> region (fs_name (fat16_fs s)) 6 \<union> region (primary_disk s) 20 \<union> fat_locals s
     \<union> screen_region \<union> kheap_meta \<union> heap_area"

lemma boot_writes_same:
  assumes "same_main s s'"
  shows "boot_writes t s' = boot_writes t s"
proof -
  have "filesystems s' = filesystems s" using same_main_regions(3) [OF assms] by (simp add: same_globals_def)
  then show ?thesis using assms file_state_fields(1,10,12,13) [OF same_main_regions(3) [OF assms]] by (simp add: boot_writes_def same_main_def)
qed

lemma boot_writes_parts:
  fixes s :: "'a kernel_state_scheme"
  shows "kheap_meta \<union> heap_area \<union> screen_region \<subseteq> boot_writes t s"
    and "region (filesystems s) 2048 \<union> fd_region s \<union> region (fs_name (fat16_fs s)) 6 \<subseteq> boot_writes t s"
    and "region (primary_disk s) 20 \<union> region 0 (32 * t) \<union> fat_locals s \<union> region (local_buf s ''buf'') 514 \<subseteq> boot_writes t s"
proof -
  have u: "A \<subseteq> B \<Longrightarrow> A \<subseteq> B \<union> C" "A \<subseteq> C \<Longrightarrow> A \<subseteq> B \<union> C" for A B C :: "u32 set" by blast+
  show "kheap_meta \<union> heap_area \<union> screen_region \<subseteq> boot_writes t s"
    "region (filesystems s) 2048 \<union> fd_region s \<union> region (fs_name (fat16_fs s)) 6 \<subseteq> boot_writes t s"
    "region (primary_disk s) 20 \<union> region 0 (32 * t) \<union> fat_locals s \<union> region (local_buf s ''buf'') 514 \<subseteq> boot_writes t s"
    by (simp_all add: boot_writes_def u)
qed

lemma boot_tables_ok:
  fixes s :: "'a kernel_state_scheme"
  assumes "kernel_linked s"
  obtains s' where "boot_tables a b c s = Some s'" and "kheap_inv s'" and "\<And>k. k \<le> 25600 \<Longrightarrow> kheap_cap s' k" and "tty_ok s'"
    and "same_main s s'" and "kernel_linked s'" and "processor_tables a b c s'" and "fd_table s' = fd_table s"
    and "same_outside (boot_writes 0 s) (mem s) (mem s')"
proof -
  note ap = main_apart [OF assms] and fm = file_memory_parts [of s]
  let ?g = "gdt_real s" and ?t = "tss s" and ?i = "idt_descs s"
  obtain s1 where s1: "write_literal welcome_text (terminal_set_colour 10 (terminal_initialise s)) = Some s1" "tty_ok s1"
    "same_outside screen_region (mem s) (mem s1)"
    "\<exists>m r c l b. s1 = s\<lparr>mem := m, terminal_row := r, terminal_column := c, terminal_colour := l, terminal_buffer := b\<rparr>"
    by (rule terminal_setup [OF assms])
  have f: "gdt_real s1 = ?g" "tss s1 = ?t" "idt_descs s1 = ?i" using s1(4) by auto
  let ?m1 = "memset (mem s1) ?g 0 48"
  obtain m2 where m2: "structured_gdt_to_gdt (kernel_structured_gdt ?t) ?m1 ?g GDT_TOTAL_SEGMENTS = Some m2" "same_outside (region ?g 48) ?m1 m2"
    "map (\<lambda>i. descriptor m2 (?g + of_nat (i * 8))) [0..<6] = kernel_structured_gdt ?t" using kernel_gdt_encoded by metis
  let ?m3 = "idt_memory ?i a b c m2"
  let ?m4 = "store32 (store32 (memset ?m3 ?t 0 sizeof_tss) (tss_esp0 ?t) 0x600000) (tss_ss0 ?t) GDT_KERNEL_DATA_SELECTOR"
  note ts = task_segment_bytes [where m = ?m3 and t = ?t]
  let ?s4 = "s1\<lparr>cpu_gdtr := \<lparr>gdtr_size = 48, gdtr_base = ?g\<rparr>, idtr_desc := \<lparr>idtr_limit = 4095, idtr_base = ?i\<rparr>,
    cpu_idtr := \<lparr>idtr_limit = 4095, idtr_base = ?i\<rparr>, mem := ?m4, cpu_tr := 0x28\<rparr>"
  have f34: "same_outside (region ?i 4096 \<union> region ?t 100) m2 ?m4" by (rule same_outside_trans [OF idt_memory_frame ts(3)])
  have p4: "processor_tables a b c ?s4"
  proof -
    have "descriptor ?m4 (?g + of_nat (i * 8)) = descriptor m2 (?g + of_nat (i * 8))" if "i < 6" for i
    proof (rule descriptor_frame [OF f34])
      show "region (?g + of_nat (i * 8)) 8 \<inter> (region ?i 4096 \<union> region ?t 100) = {}"
        using elem_within [of i 6 ?g 8] that ap(1) by (auto simp: elem_region_def elem_addr_def)
    qed
    then have "map (\<lambda>i. descriptor ?m4 (?g + of_nat (i * 8))) [0..<6] = kernel_structured_gdt ?t"
      unfolding m2(3) [symmetric] by (intro map_cong refl) simp
    moreover have "gate_at ?m4 (elem_addr ?i 8 (unat v)) = \<lparr>gate_target = (if v = 0x21 then c else if v = 0 then b else a),
      gate_selector = 0x08, gate_type = 0xEE\<rparr>" for v :: u8
    proof -
      have u: "unat v < 512" using unsigned_less [where 'a = nat, of v] by simp
      have "region (elem_addr ?i 8 (unat v)) 8 \<inter> region ?t 100 = {}"
        using elem_within [OF u, of ?i 8] ap(2) by (auto simp: elem_region_def)
      note gate_at_frame [OF ts(3) this]
      moreover have "unat v = 0x21 \<longleftrightarrow> v = 0x21" "unat v = 0 \<longleftrightarrow> v = 0" by (simp_all add: word_unat_eq_iff)
      ultimately show ?thesis using idt_memory_gate [OF u] by (simp add: interrupt_gate_def idt_vector_def KERNEL_CODE_SELECTOR_def)
    qed
    moreover have "unat v * 8 + 7 \<le> unat (4095 :: u16)" for v :: u8 using unsigned_less [where 'a = nat, of v] by simp
    ultimately show ?thesis using ts(1,2) by (simp add: processor_tables_def f idt_lookup_def)
  qed
  define s5 where "s5 = ?s4\<lparr>mem := memset ?m4 HEAP_TABLE_ADDRESS 0 25600, kernel_heap := the_kernel_heap,
    kernel_heap_table := table the_kernel_heap, strategy := \<lparr>strategy_create = Some default_heap_create,
      strategy_malloc = Some heap_malloc, strategy_free = Some heap_free\<rparr>\<rparr>"
  have k: "kheap_init ?s4 = Some s5" by (simp add: kheap_init_eq s5_def)
  have h: "kheap_inv s5" "kheap_entries s5 = replicate 25600 HEAP_BLOCK_TABLE_ENTRY_FREE" "same_outside kheap_meta ?m4 (mem s5)"
    by (rule kheap_init_ok [of ?s4]; simp add: k)+
  have sm: "same_main s s5" using s1(4) by (auto simp: same_main_def same_globals_def s5_def)
  have cap: "kheap_cap s5 n" if "n \<le> 25600" for n
    using that unfolding kheap_cap_def by (intro exI [of _ 0]) (simp add: h(2) fits_iff free_entry_def get_entry_type_def kernel_consts)
  have "boot_tables a b c s = Some s5"
    using s1(1) m2(1) k by (simp add: boot_tables_def welcome_text_def [symmetric] f gdt_load_def tss_load_def idt_init_eq
        kernel_consts Let_def)
  moreover have "processor_tables a b c s5"
    by (rule tables_frame [OF p4, of kheap_meta]) (use h(3) ap(1-3) fm in \<open>auto simp: s5_def f\<close>)
  moreover have f05: "same_outside (screen_region \<union> region ?g 48 \<union> region ?g 48 \<union> (region ?i 4096 \<union> region ?t 100) \<union> kheap_meta) (mem s) (mem s5)"
  proof -
    have "same_outside (region ?g 48) (mem s1) ?m1" using memset_outside [of ?g 48 "mem s1" 0] by simp
    from same_outside_trans [OF same_outside_trans [OF same_outside_trans [OF same_outside_trans [OF s1(3) this] m2(2)] f34] h(3)]
    show ?thesis .
  qed
  moreover have "kernel_linked s5"
  proof (rule kernel_linked_frame [OF assms f05 sm])
    let ?W = "region (fat16_fs s) 24 \<union> region (literal_r s) 2 \<union> region (fat16_literal s) 6"
    note l = linked_apart [of s] and r24 = region_mono [of 24 279 "fat16_fs s"]
    have "linked s" using assms by (simp add: kernel_linked_def)
    from l(3-5) [OF this] have w1: "(screen_region \<union> kheap_meta) \<inter> ?W = {}" using r24 by auto
    have "?W \<subseteq> file_memory s" using fm r24 by auto
    then have w2: "(region ?g 48 \<union> region ?i 4096 \<union> region ?t 100) \<inter> ?W = {}" using ap(1-3) by auto
    have "screen_region \<union> kheap_meta \<subseteq> file_memory s" using fm by simp
    then have "(screen_region \<union> kheap_meta \<union> region ?g 48 \<union> region ?i 4096 \<union> region ?t 100) \<inter> region (literal s welcome_text) 19 = {}"
      using ap(1-4) by auto
    then show "(screen_region \<union> region ?g 48 \<union> region ?g 48 \<union> (region ?i 4096 \<union> region ?t 100) \<union> kheap_meta)
      \<inter> (region (fat16_fs s) 24 \<union> region (literal_r s) 2 \<union> region (fat16_literal s) 6 \<union> region (literal s welcome_text) 19) = {}"
      using w1 w2 by auto
  qed
  moreover have "tty_ok s5" using s1(2) by (simp add: s5_def tty_ok_def)
  moreover have "fd_table s5 = fd_table s"
  proof (rule fd_table_frame [OF f05])
    have "fd_region s \<inter> (screen_region \<union> kheap_meta) = {}" using assms linked_apart(2) [of s] by (auto simp: kernel_linked_def)
    moreover have "(region ?g 48 \<union> region ?i 4096 \<union> region ?t 100) \<inter> fd_region s = {}" using ap(1-3) fm by auto
    ultimately show "(screen_region \<union> region ?g 48 \<union> region ?g 48 \<union> (region ?i 4096 \<union> region ?t 100) \<union> kheap_meta) \<inter> fd_region s = {}" by auto
    show "file_descriptors s5 = file_descriptors s" using sm by (simp add: same_main_def same_globals_def)
  qed
  moreover have "same_outside (boot_writes 0 s) (mem s) (mem s5)" by (rule same_outside_mono [OF f05]) (auto simp: boot_writes_def)
  ultimately show ?thesis using that h(1) cap sm by blast
qed

section \<open>The address space and the first read\<close>

text \<open>The address space of the kernel is made of new heap blocks.\<close>

lemma walk_frame:
  assumes "page_space m dir ts" and "same_outside X m m'" and "(region dir 4096 \<union> tables_region ts) \<inter> X = {}"
  shows "page_space m' dir ts" and "page_entry m' dir va = page_entry m dir va"
    and "translate m' dir va = translate m dir va"
proof -
  have d: "load32 m' (elem_addr dir 4 i) = load32 m (elem_addr dir 4 i)" if "i < 1024" for i
  proof (rule load32_frame [OF assms(2)])
    show "region (elem_addr dir 4 i) 4 \<inter> X = {}" using elem_within [OF that, of dir 4] assms(3) by (auto simp: elem_region_def)
  qed
  then show p: "page_space m' dir ts" using assms(1) by (simp add: page_space_def)
  have i: "page_no va div 1024 < length ts"
    using page_no_bound [of va] assms(1) by (simp add: page_space_def less_mult_imp_div_less)
  have "region (slot ts (page_no va)) 4 \<subseteq> tables_region ts"
    using slot_in_table [of ts "page_no va"] nth_mem [OF i] unfolding tables_region_def by blast
  then have "load32 m' (slot ts (page_no va)) = load32 m (slot ts (page_no va))" using assms(3) by (intro load32_frame [OF assms(2)]) blast
  then show e: "page_entry m' dir va = page_entry m dir va" using page_entry_slot [OF p] page_entry_slot [OF assms(1)] by simp
  have "page_no va div 1024 < 1024" using page_no_bound [of va] by (simp add: less_mult_imp_div_less)
  from d [OF this] show "translate m' dir va = translate m dir va" by (intro translate_cong e) (simp add: page_directory_entry_elem)
qed

lemma kernel_space:
  fixes s :: "'a kheap_state_scheme"
  assumes "kheap_inv s" and "kheap_cap s (2051 + c)"
  obtains B chunk d ts m where "paging_new (PAGING_IS_WRITABLE OR PAGING_IS_PRESENT OR PAGING_ACCESS_FROM_ALL) s = Some (chunk, s\<lparr>mem := m\<rparr>)"
    and "grows B {} s (s\<lparr>mem := m\<rparr>)" and "kheap_cap (s\<lparr>mem := m\<rparr>) c" and "load32 m chunk = d" and "page_space m d ts"
    and "\<forall>va. page_entry m d va = (va AND 0xfffff000) OR 7" and "\<forall>va. translate m d va = Some (va, True, True)" and "region d 4096 \<union> tables_region ts \<subseteq> heap_private s"
    and "(region d 4096 \<union> tables_region ts) \<inter> heap_private (s\<lparr>mem := m\<rparr>) = {}" and "region d 4096 \<union> tables_region ts \<subseteq> heap_area"
proof -
  obtain cb d :: "u32 \<times> nat" and ts m
    where n: "paging_new 7 s = Some (fst cb, s\<lparr>mem := m\<rparr>)" "kheap_inv (s\<lparr>mem := m\<rparr>)" "kheap_cap (s\<lparr>mem := m\<rparr>) c" "chunk_ok (s\<lparr>mem := m\<rparr>) cb d ts"
      "kheap_live (s\<lparr>mem := m\<rparr>) = kheap_live s \<union> ({cb, d} \<union> set ts)" "({cb, d} \<union> set ts) \<inter> kheap_live s = {}"
      "\<forall>va. page_entry m (fst d) va = (va AND 0xfffff000) OR ucast (7 :: u8)" "identity_map 7 m (fst d)"
      "same_outside (blocks_region ({cb, d} \<union> set ts) \<union> kheap_meta) (mem s) m"
    using paging_new_ok [OF assms, of 7] by metis
  let ?B = "{cb, d} \<union> set ts" and ?s = "s\<lparr>mem := m\<rparr>"
  have new: "region p k \<subseteq> heap_private s \<and> region p k \<inter> heap_private ?s = {} \<and> region p k \<subseteq> heap_area" if b: "(p, k) \<in> ?B" for p k
  proof -
    have l: "(p, k) \<in> kheap_live ?s" "(p, k) \<notin> kheap_live s"
      unfolding n(5) by (rule UnI2 [OF b], rule notI) (drule IntI [OF b], simp only: n(6) empty_iff)
    have "region p k \<inter> region q j = {}" if "(q, j) \<in> kheap_live s" for q j
      using kheap_live_apart [OF n(2) l(1), of q j] that n(5) l(2) by auto
    moreover have "region p k \<subseteq> heap_area" using live_in_heap [OF n(2) l(1)] by (simp add: heap_area_def)
    ultimately show ?thesis using live_not_private [OF n(2) l(1)] unfolding heap_private_def by blast
  qed
  have "blocks_region ?B \<subseteq> heap_private s"
  proof (rule UN_least)
    fix b assume "b \<in> ?B"
    then show "(case b of (p, k) \<Rightarrow> region p k) \<subseteq> heap_private s" using new [of "fst b" "snd b"] by (simp add: case_prod_beta)
  qed
  then have f: "same_outside (heap_private s) (mem s) m"
    by (intro same_outside_mono [OF n(9)]) (auto simp: heap_private_def)
  have g: "grows ?B {} s ?s" using n(2,5,6) f by (simp add: grows_def)
  have sz: "4096 \<le> snd d" "\<And>t. t \<in> set ts \<Longrightarrow> 4096 \<le> snd t" using n(4) by (simp_all add: chunk_ok_def owned_def)
  have "region (fst b) 4096 \<subseteq> region (fst b) (snd b)" if "b = d \<or> b \<in> set ts" for b using sz that by (intro region_mono) blast
  then have sub: "region (fst b) 4096 \<subseteq> heap_private s \<and> region (fst b) 4096 \<inter> heap_private ?s = {} \<and> region (fst b) 4096 \<subseteq> heap_area"
    if "b = d \<or> b \<in> set ts" for b using new [of "fst b" "snd b"] that by (simp add: subset_iff disjoint_iff)
  have r: "region (fst d) 4096 \<union> tables_region (map fst ts) \<subseteq> heap_private s"
    "(region (fst d) 4096 \<union> tables_region (map fst ts)) \<inter> heap_private ?s = {}" "region (fst d) 4096 \<union> tables_region (map fst ts) \<subseteq> heap_area"
    using sub unfolding tables_region_def set_map by blast+
  have "PAGING_IS_WRITABLE OR PAGING_IS_PRESENT OR PAGING_ACCESS_FROM_ALL = 7" by (simp add: kernel_consts)
  moreover have "load32 m (fst cb) = fst d" using n(4) by (simp add: chunk_ok_def)
  moreover have "page_space m (fst d) (map fst ts)" using chunk_page_space [OF n(2,4)] by simp
  moreover have "\<forall>va. page_entry m (fst d) va = (va AND 0xfffff000) OR 7" using n(7) by simp
  moreover have "\<forall>va. translate m (fst d) va = Some (va, True, True)" using identity_map_translate [OF n(8)] by simp
  ultimately show ?thesis using that [of "fst cb" m ?B "fst d" "map fst ts"] n(1,3) g r by simp
qed

text \<open>Lines 78 to 82: a stream of its own is positioned and read.\<close>

lemma first_read:
  fixes s :: "'a file_state_scheme"
  assumes "vfs_ready img rs spc e its s" and "kheap_cap s (Suc (Suc c))" and "session_buffer its s out n" and "x + n < 2 ^ 31"
  obtains st m m2 s3 B where "new_stream 0 s = Some (st, s\<lparr>mem := m\<rparr>)" and "stream_seek st (of_nat x) (s\<lparr>mem := m\<rparr>) = (0, s\<lparr>mem := m2\<rparr>)"
    and "stream_read st out (of_nat n) (s\<lparr>mem := m2\<rparr>) = Some (0, s3)"
    and "load_bytes (mem s3) out n = disk_bytes img x n" and "grows B (region out n) s s3" and "vfs_ready img rs spc e its s3" and "kheap_cap s3 (Suc c)"
proof -
  have dr: "disk_ready img s" using vfs_readyD(1) [OF assms(1)] by (simp add: fat_ready_def)
  obtain st j m where 1: "new_stream 0 s = Some (st, s\<lparr>mem := m\<rparr>)" "grows {(st, j)} {} s (s\<lparr>mem := m\<rparr>)" "kheap_cap (s\<lparr>mem := m\<rparr>) (Suc c)"
    "8 \<le> j" "stream_at (s\<lparr>mem := m\<rparr>) st 0" "st \<noteq> 0" by (rule new_stream_grows [OF dr assms(2)])
  note k1 = growsD [OF 1(2)] and dr1 = disk_ready_keeps [OF dr 1(2)]
  obtain s2 where 2: "stream_seek st (of_nat x) (s\<lparr>mem := m\<rparr>) = (0, s2)" "keeps (region st 4) (s\<lparr>mem := m\<rparr>) s2" "stream_at s2 st x"
    using stream_seek_ok [OF k1(1) 1(5)] by blast
  have e2: "s2 = s\<lparr>mem := mem s2\<rparr>" using 2(1) by (auto simp: stream_seek_def)
  have new: "region st j \<subseteq> heap_private s" using grows_new_private [OF 1(2)] by simp
  have st8: "region st 8 \<subseteq> region st j" "region st 4 \<subseteq> region st j" using region_mono [of 8 j st] region_mono [of 4 j st] 1(4) by simp_all
  have hp: "heap_private s \<inter> region (primary_disk s) 20 = {}" using dr unfolding disk_ready_def heap_private_def by blast
  have "region st 4 \<inter> region (primary_disk (s\<lparr>mem := m\<rparr>)) 20 = {}" using hp new st8(2) by auto
  then have dr2: "disk_ready img s2" using disk_ready_keeps [OF dr1 2(2)] by simp
  have cap2: "kheap_cap s2 (Suc c)" using keepsD(3) [OF 2(2) k1(1) 1(3)] .
  have pr: "heap_private s2 \<subseteq> heap_private s" using growsD(5) [OF 2(2)] k1(5) by blast
  have out: "region out n \<inter> heap_private s = {}" "region out n \<inter> (fat_area s \<union> vfs_globals s \<union> root_area s its) = {}"
    using assms(3) unfolding session_buffer_def by blast+
  have "heap_private s2 \<union> region st 8 \<subseteq> heap_private s" using pr new st8(1) by auto
  then have "region out n \<inter> (heap_private s2 \<union> region st 8) = {}" using out(1) by blast
  then obtain s3 where 3: "stream_read st out (of_nat n) s2 = Some (0, s3)" "load_bytes (mem s3) out n = disk_bytes img x n"
    "keeps (region out n \<union> region st 4) s2 s3"
    using stream_read_ok [OF dr2 kheap_cap_mono [OF cap2] 2(3) assms(4)] by auto
  have cap3: "kheap_cap s3 (Suc c)" using keepsD(3) [OF 3(3) growsD(1) [OF 2(2)] cap2] .
  have sub: "region st 4 \<subseteq> region out n \<union> heap_private s" "region out n \<union> region st 4 \<subseteq> region out n \<union> heap_private s" using new st8(2) by auto
  have "grows {(st, j)} (region out n) s (s\<lparr>mem := m\<rparr>)" by (rule grows_mono [OF 1(2)]) simp
  from grows_trans [OF grows_trans [OF this 2(2) sub(1)] 3(3) sub(2)] have g: "grows {(st, j)} (region out n) s s3" by simp
  then have "grows {(st, j)} (region out n \<union> fat_pos s) s s3" by (rule grows_mono) auto
  from vfs_ready_grows(1) [OF assms(1) this out(2) kheap_cap_mono [OF cap3]] have "vfs_ready img rs spc e its s3" by simp
  then show ?thesis using that [of st m "mem s2" s3, folded e2, OF 1(1) 2(1) 3(1,2) g _ cap3] by simp
qed

section \<open>The disk\<close>

text \<open>The items of the root directory, which go to address 0 and up, meet none of the kernel's memory.\<close>

definition boot_low :: "nat \<Rightarrow> 'a kernel_state_scheme \<Rightarrow> bool" where
  "boot_low t s \<longleftrightarrow> low_memory_free t s \<and> list_all (\<lambda>x. region 0 (32 * t) \<inter> x = {}) (main_regions s)"

text \<open>What \<^verbatim>\<open>boot_disk\<close> leaves: paging on with every address mapped to itself, present, writable and open
  to the user in directory and table, the file system ready. The pages of the directory and
  its tables, \<open>A\<close>, are blocks of their own, apart from the driver's.\<close>

definition booted_on :: "image \<Rightarrow> nat \<Rightarrow> nat \<Rightarrow> nat \<Rightarrow> u8 list list \<Rightarrow> u32 set \<Rightarrow> 'a kernel_state_scheme \<Rightarrow> bool" where
  "booted_on img rs spc e its A s \<longleftrightarrow> vfs_ready img rs spc e its s \<and> paging_enabled s \<and> current_directory s = cpu_cr3 s
     \<and> (\<forall>va. page_entry (mem s) (cpu_cr3 s) va = (va AND 0xfffff000) OR 7)
     \<and> (\<forall>va. translate (mem s) (cpu_cr3 s) va = Some (va, True, True))
     \<and> (\<exists>ts. page_space (mem s) (cpu_cr3 s) ts \<and> A = region (cpu_cr3 s) 4096 \<union> tables_region ts)
     \<and> A \<subseteq> heap_area \<and> A \<inter> (heap_private s \<union> fat_area s) = {}"

definition booted :: "image \<Rightarrow> nat \<Rightarrow> nat \<Rightarrow> nat \<Rightarrow> u8 list list \<Rightarrow> 'a kernel_state_scheme \<Rightarrow> bool" where
  "booted img rs spc e its s \<longleftrightarrow> vfs_ready img rs spc e its s \<and> paging_enabled s \<and> current_directory s = cpu_cr3 s
     \<and> (\<forall>va. page_entry (mem s) (cpu_cr3 s) va = (va AND 0xfffff000) OR 7)
     \<and> (\<forall>va. translate (mem s) (cpu_cr3 s) va = Some (va, True, True))"

lemma booted_frame:
  fixes s :: "'a kernel_state_scheme"
  assumes "booted_on img rs spc e its A s" and "same_outside (R \<union> fat_pos s \<union> heap_private s) (mem s) (mem s')" and "R \<inter> A = {}"
    and "vfs_ready img rs spc e its s'" and "fat_area s' = fat_area s" and "heap_private s' \<subseteq> heap_private s \<union> P" and "A \<inter> P = {}"
    and r: "cpu_cr3 s' = cpu_cr3 s" "current_directory s' = current_directory s" "paging_enabled s' = paging_enabled s"
  shows "booted_on img rs spc e its A s'"
proof -
  obtain ts where ts: "page_space (mem s) (cpu_cr3 s) ts" "A = region (cpu_cr3 s) 4096 \<union> tables_region ts"
    and A: "A \<subseteq> heap_area" "A \<inter> (heap_private s \<union> fat_area s) = {}" using assms(1) by (auto simp: booted_on_def)
  have "fat_pos s \<subseteq> fat_area s" using assms(1) fat_ready_parts(3) vfs_readyD(1) unfolding booted_on_def by blast
  then have "(region (cpu_cr3 s) 4096 \<union> tables_region ts) \<inter> (R \<union> fat_pos s \<union> heap_private s) = {}" using ts(2) A(2) assms(3) by blast
  note w = walk_frame [OF ts(1) assms(2) this]
  have "A \<inter> (heap_private s' \<union> fat_area s') = {}" using A(2) assms(5-7) by blast
  then show ?thesis using assms(1,4) w ts(2) A(1) unfolding booted_on_def r by auto
qed

lemma booted_grows:
  fixes s :: "'a kernel_state_scheme"
  assumes "booted_on img rs spc e its A s" and g: "grows B (R \<union> fat_pos s) s s'" and "R \<inter> A = {}" and "vfs_ready img rs spc e its s'"
    and "fat_area s' = fat_area s"
  shows "booted_on img rs spc e its A s'"
proof -
  have e: "s' = s\<lparr>io_log := io_log s', mem := mem s'\<rparr>" using g by (simp add: grows_def)
  have r: "cpu_cr3 s' = cpu_cr3 s" "current_directory s' = current_directory s" "paging_enabled s' = paging_enabled s" by (subst e, simp)+
  show ?thesis by (rule booted_frame [OF assms(1) growsD(4) [OF g] assms(3-5) _ _ r, of "{}"]) (use growsD(5) [OF g] in auto)
qed

lemma paging_on:
  fixes s :: "'a kernel_state_scheme" and chunk :: u32
  defines "s' \<equiv> enable_paging (paging_switch chunk (s\<lparr>kernel_paging_chunk := chunk\<rparr>))"
  shows "s' = s\<lparr>kernel_paging_chunk := chunk, cpu_cr3 := load32 (mem s) chunk, current_directory := load32 (mem s) chunk, paging_enabled := True\<rparr>"
    and "kheap_inv s' = kheap_inv s" and "kheap_cap s' = kheap_cap s" and "kheap_live s' = kheap_live s" and "heap_private s' = heap_private s"
    and "same_main s s'" and "mem s' = mem s"
proof -
  show e: "s' = s\<lparr>kernel_paging_chunk := chunk, cpu_cr3 := load32 (mem s) chunk, current_directory := load32 (mem s) chunk, paging_enabled := True\<rparr>"
    by (simp add: s'_def enable_paging_def paging_switch_def paging_load_directory_def Let_def)
  then show "kheap_inv s' = kheap_inv s" "kheap_cap s' = kheap_cap s" "kheap_live s' = kheap_live s" "mem s' = mem s"
    by (simp_all add: kheap_inv_def kheap_cap_def fun_eq_iff kheap_live_def)
  then show "heap_private s' = heap_private s" by (simp add: heap_private_def)
  show "same_main s s'" using e by (simp add: same_main_def same_globals_def)
qed

lemma boot_buffer:
  fixes s :: "'a kernel_state_scheme"
  assumes "vfs_ready img rs spc e its s" and "root_area s its = region 0 (32 * length its)"
    and "region p n \<inter> file_memory s = {}" and "region 0 (32 * length its) \<inter> region p n = {}"
  shows "session_buffer its s p n"
proof -
  note fm = file_memory_parts [of s]
  have "heap_private s \<subseteq> kheap_meta \<union> heap_area" by (auto simp: heap_private_def)
  moreover have "fat_area s \<subseteq> heap_area \<union> region (primary_disk s) 20" using fat_ready_parts(7) [OF vfs_readyD(1) [OF assms(1)]] .
  moreover have "vfs_globals s \<subseteq> region (fat16_fs s) 279 \<union> region (literal_r s) 2"
    using region_mono [of 24 279 "fat16_fs s"] unfolding vfs_globals_def by auto
  ultimately have "heap_private s \<union> fat_area s \<union> fat_locals s \<union> fd_region s \<union> vfs_globals s \<subseteq> file_memory s" using fm by blast
  then show ?thesis using assms(2-4) unfolding session_buffer_def by blast
qed

lemma boot_disk_ok:
  fixes s :: "'a kernel_state_scheme"
  assumes "kernel_linked s" and "kheap_inv s" and "tty_ok s" and "kheap_cap s (2051 + (length its + (5 + Suc (Suc c))))" and "processor_tables a0 b0 c0 s"
    and "ata_drive (device s) img" and "fat_disk img rs spc e its" and "boot_low (length its) s"
  obtains A s' where "boot_disk s = Some s'" and "booted_on img rs spc e its A s'" and "processor_tables a0 b0 c0 s'" and "kheap_cap s' (Suc c)"
    and "load_bytes (mem s') (local_buf s ''buf'') 514 = disk_bytes img 511 514" and "same_main s s'"
    and "tty_ok s'" and "root_area s' its = region 0 (32 * length its)"
    and "\<forall>i < 512. fd_table s' ! i = (if i < 4 then 0 else fd_table s ! i)" and "same_outside (boot_writes (length its) s) (mem s) (mem s')"
proof -
  have l: "linked s" using assms(1) by (simp add: kernel_linked_def)
  note ap = main_apart [OF assms(1)] and fm = file_memory_parts [of s]
  let ?t = "length its" and ?P = "region (gdt_real s) 48 \<union> region (tss s) 100 \<union> region (idt_descs s) 4096"
  let ?b = "region (local_buf s ''buf'') 514" and ?low = "region 0 (32 * length its)"
  have pf: "?P \<inter> file_memory s = {}" "?P \<inter> ?b = {}" using ap(1-3) by auto
  obtain s1 where s1: "fs_init s = Some s1" "linked s1" "same_globals s s1" "kheap_inv s1" "kheap_live s1 = kheap_live s"
    "load32 (mem s1) (filesystems s) = fat16_fs s" "\<forall>i < 4. fd_table s1 ! i = 0" "\<forall>i < 512. 4 \<le> i \<longrightarrow> fd_table s1 ! i = fd_table s ! i"
    "same_outside (region (filesystems s) 2048 \<union> fd_region s \<union> region (fs_name (fat16_fs s)) 6 \<union> screen_region) (mem s) (mem s1)"
    "tty_ok s1"
    "\<exists>m r c l b. s1 = s\<lparr>mem := m, terminal_row := r, terminal_column := c, terminal_colour := l, terminal_buffer := b\<rparr>"
    by (rule fs_init_ok [OF l assms(2,3)])
  have cap1: "kheap_cap s1 (2051 + (?t + (5 + Suc (Suc c))))" by (rule kheap_cap_live [OF assms(2) s1(4) s1(5) [symmetric] assms(4)])
  have sm1: "same_main s s1" using s1(3,11) by (auto simp: same_main_def)
  have p1: "processor_tables a0 b0 c0 s1"
  proof (rule tables_frame [OF assms(5) s1(9)])
    have "region (fs_name (fat16_fs s)) 6 \<subseteq> region (fat16_fs s) 279" using region_shift [of 24 6 279 "fat16_fs s"] by (simp add: file_fields)
    then have "region (filesystems s) 2048 \<union> fd_region s \<union> region (fs_name (fat16_fs s)) 6 \<union> screen_region \<subseteq> file_memory s" using fm by auto
    then show "(region (filesystems s) 2048 \<union> fd_region s \<union> region (fs_name (fat16_fs s)) 6 \<union> screen_region) \<inter> ?P = {}" using pf(1) by blast
  qed (use s1(11) in auto)
  obtain B1 chunk d ts m where s2: "paging_new (PAGING_IS_WRITABLE OR PAGING_IS_PRESENT OR PAGING_ACCESS_FROM_ALL) s1 = Some (chunk, s1\<lparr>mem := m\<rparr>)"
    "grows B1 {} s1 (s1\<lparr>mem := m\<rparr>)" "kheap_cap (s1\<lparr>mem := m\<rparr>) (?t + (5 + Suc (Suc c)))" "load32 m chunk = d" "page_space m d ts"
    "\<forall>va. page_entry m d va = (va AND 0xfffff000) OR 7" "\<forall>va. translate m d va = Some (va, True, True)" "(region d 4096 \<union> tables_region ts) \<inter> heap_private (s1\<lparr>mem := m\<rparr>) = {}"
    "region d 4096 \<union> tables_region ts \<subseteq> heap_area" by (rule kernel_space [OF s1(4) cap1])
  define s3 where "s3 = enable_paging (paging_switch chunk ((s1\<lparr>mem := m\<rparr>)\<lparr>kernel_paging_chunk := chunk\<rparr>))"
  note on = paging_on [where chunk = chunk and s = "s1\<lparr>mem := m\<rparr>", folded s3_def]
  have f13: "same_outside (heap_private s1) (mem s1) (mem s3)" using growsD(4) [OF s2(2)] on(7) by simp
  have sm3: "same_main s s3" using sm1 on(1) by (simp add: same_main_def same_globals_def)
  have hp: "heap_private s1 \<subseteq> kheap_meta \<union> heap_area" "heap_private s3 \<subseteq> kheap_meta \<union> heap_area" by (auto simp: heap_private_def)
  have hf: "kheap_meta \<union> heap_area \<subseteq> file_memory s" using fm by simp
  have reg1: "gdt_real s1 = gdt_real s" "tss s1 = tss s" "idt_descs s1 = idt_descs s" using s1(11) by auto
  have "heap_private s1 \<inter> ?P = {}" using pf(1) hp(1) hf by blast
  then have p3: "processor_tables a0 b0 c0 s3" by (intro tables_frame [OF p1 f13]) (simp_all add: on(1) reg1)
  note gl = same_main_regions [OF sm3] and st = file_state_fields [OF same_main_regions(3) [OF sm3]]
  have g13: "same_globals s1 s3" using on(6) by (simp add: same_main_def same_globals_def)
  have fss: "filesystems s3 = filesystems s" using gl(3) by (simp add: same_globals_def)
  have l3: "linked s3"
  proof (rule linked_frame [OF s1(2) f13 _ g13])
    note s1f = file_state_fields [OF s1(3)] and a = linked_apart [OF l] and r24 = region_mono [of 24 279 "fat16_fs s"]
    have "fat16_literal s1 = fat16_literal s" using s1(3) by (simp add: same_globals_def)
    moreover have "(kheap_meta \<union> heap_area) \<inter> (region (fat16_fs s) 24 \<union> region (literal_r s) 2 \<union> region (fat16_literal s) 6) = {}"
      using a(3-5) r24 by auto
    ultimately show "heap_private s1 \<inter> (region (fat16_fs s1) 24 \<union> region (literal_r s1) 2 \<union> region (fat16_literal s1) 6) = {}"
      unfolding s1f using hp(1) by auto
  qed
  have "region (filesystems s) 4 \<inter> heap_private s1 = {}" using linked_apart(1) [OF l] hp(1) region_mono [of 4 2048 "filesystems s"] by auto
  then have ld: "load32 (mem s3) (filesystems s3) = fat16_fs s3" using load32_frame [OF f13] s1(6) st fss by simp
  have i3: "kheap_inv s3" using growsD(1) [OF s2(2)] on(2) by simp
  have low: "low_memory_free ?t s3" "?low \<inter> (?P \<union> ?b) = {}"
    using assms(8) gl(2) by (auto simp: boot_low_def low_memory_free_def main_regions_def)
  have cap3: "kheap_cap s3 (?t + (5 + Suc (Suc c)))" using s2(3) on(3) by simp
  have drv: "ata_drive (device s3) img" using assms(6) st by simp
  obtain B4 s4 where s4: "search_and_initialize s3 = Some s4" "grows B4 (region (primary_disk s3) 20 \<union> ?low \<union> fat_locals s3) s3 s4"
    "kheap_cap s4 (Suc (Suc c))" "vfs_ready img rs spc e its s4" "fd_table s4 = fd_table s3" "root_area s4 its = ?low"
    "fat_area s4 \<subseteq> region (primary_disk s3) 20 \<union> heap_private s3"
    using search_ok [OF l3 i3 drv ld assms(7) cap3 low(1)] by blast
  have e4: "s4 = s3\<lparr>io_log := io_log s4, mem := mem s4\<rparr>" using s4(2) by (simp add: grows_def)
  have sm4: "same_main s s4" using sm3 by (subst e4) (simp add: same_main_def same_globals_def)
  have buf: "session_buffer its s4 (local_buf s ''buf'') 514"
  proof (rule boot_buffer [OF s4(4,6)])
    show "?b \<inter> file_memory s4 = {}" using ap(5) same_main_regions(2) [OF sm4] by (simp add: file_memory_def)
  qed (use low(2) in auto)
  have x: "511 + 514 < (2 :: nat) ^ 31" by simp
  obtain st5 m5 m6 s5 B5 where s5: "new_stream 0 s4 = Some (st5, s4\<lparr>mem := m5\<rparr>)" "stream_seek st5 (of_nat 511) (s4\<lparr>mem := m5\<rparr>) = (0, s4\<lparr>mem := m6\<rparr>)"
    "stream_read st5 (local_buf s ''buf'') (of_nat 514) (s4\<lparr>mem := m6\<rparr>) = Some (0, s5)" "load_bytes (mem s5) (local_buf s ''buf'') 514 = disk_bytes img 511 514"
    "grows B5 ?b s4 s5" "vfs_ready img rs spc e its s5" "kheap_cap s5 (Suc c)" by (rule first_read [OF s4(4,3) buf x])
  have lb: "local_buf s4 = local_buf s" using sm4 by (simp add: same_main_def)
  have run: "boot_disk s = Some s5"
    using s1(1) s2(1) s4(1) s5(1-3) lb by (simp add: boot_disk_def s3_def Let_def)
  let ?X = "region (primary_disk s) 20 \<union> ?low \<union> fat_locals s \<union> ?b \<union> heap_private s3"
  have f35: "same_outside ?X (mem s3) (mem s5)"
    using same_outside_trans [OF growsD(4) [OF s4(2)] growsD(4) [OF s5(5)]]
    by (rule same_outside_mono) (use growsD(5) [OF s4(2)] st(10,12) in auto)
  have e5: "s5 = s3\<lparr>io_log := io_log s5, mem := mem s5\<rparr>"
  proof -
    have "s5 = s4\<lparr>io_log := io_log s5, mem := mem s5\<rparr>" using s5(5) by (simp add: grows_def)
    with e4 show ?thesis by (metis (no_types) mach.surjective mach.update_convs)
  qed
  have XP: "?X \<inter> ?P = {}"
  proof -
    have "region (primary_disk s) 20 \<union> fat_locals s \<union> heap_private s3 \<subseteq> file_memory s" using fm hp(2) by auto
    then show ?thesis using pf low(2) by blast
  qed
  have p5: "processor_tables a0 b0 c0 s5"
    by (rule tables_frame [OF p3 f35]; (subst e5)?) (use XP gl sm3 in \<open>simp_all add: same_main_def\<close>)
  have A: "(region d 4096 \<union> tables_region ts) \<inter> ?X = {}"
  proof -
    have "heap_area \<inter> (region (primary_disk s) 20 \<union> fat_locals s) = {}" using linked_apart(6,7) [OF l] by auto
    moreover have "heap_area \<inter> ?b = {}" using ap(5) hf by blast
    moreover have "heap_area \<inter> ?low = {}" using low_memory_freeD [OF low(1)] by blast
    moreover have "(region d 4096 \<union> tables_region ts) \<inter> heap_private s3 = {}" using s2(8) on(5) by simp
    ultimately show ?thesis using s2(9) by blast
  qed
  then have w: "page_entry (mem s5) d va = (va AND 0xfffff000) OR 7" "translate (mem s5) d va = Some (va, True, True)" for va
    using walk_frame(2,3) [of "mem s3" d ts ?X "mem s5" va] s2(5-7) f35 on(7) by simp_all
  have "booted_on img rs spc e its (region d 4096 \<union> tables_region ts) s5"
  proof -
    have r: "cpu_cr3 s5 = d" "current_directory s5 = d" "paging_enabled s5" by (subst e5, simp add: on(1) s2(4))+
    have ps: "page_space (mem s5) d ts" using walk_frame(1) [OF _ f35 A] s2(5) on(7) by simp
    have "heap_private s5 \<subseteq> heap_private s3" using growsD(5) [OF s4(2)] growsD(5) [OF s5(5)] by blast
    moreover have "fat_area s5 = fat_area s4"
    proof -
      have "grows B5 (?b \<union> fat_pos s4) s4 s5" by (rule grows_mono [OF s5(5)]) auto
      moreover have "?b \<inter> (fat_area s4 \<union> vfs_globals s4 \<union> root_area s4 its) = {}" using buf by (auto simp: session_buffer_def)
      ultimately show ?thesis by (rule vfs_ready_grows(2) [OF s4(4) _ _ kheap_cap_mono [OF s5(7)]]) simp
    qed
    moreover have "heap_area \<inter> region (primary_disk s3) 20 = {}" using linked_apart(6) [OF l3] by blast
    ultimately have "(region d 4096 \<union> tables_region ts) \<inter> (heap_private s5 \<union> fat_area s5) = {}" using s2(8,9) s4(7) unfolding on(5) by blast
    then show ?thesis using s5(6) w r(3) ps s2(9) unfolding booted_on_def r by auto
  qed
  moreover have "same_main s s5" using sm3 by (subst e5) (simp add: same_main_def same_globals_def)
  moreover have "\<forall>i < 512. fd_table s5 ! i = (if i < 4 then 0 else fd_table s ! i)"
  proof -
    have fd: "fd_region s \<inter> (kheap_meta \<union> heap_area) = {}" "fd_region s \<inter> ?b = {}" using linked_apart(2) [OF l] ap(5) fm by auto
    have "fd_table s3 = fd_table s1"
      by (rule fd_table_frame [OF f13]) (use fd(1) hp(1) file_state_fields(3,13) [OF s1(3)] st(3) in auto)
    moreover have "fd_table s5 = fd_table s4"
    proof (rule fd_table_frame [OF growsD(4) [OF s5(5)]])
      have "fd_region s4 = fd_region s" "file_descriptors s4 = file_descriptors s" using file_state_fields(3,13) [OF same_main_regions(3) [OF sm4]] by auto
      moreover have "heap_private s4 \<subseteq> kheap_meta \<union> heap_area" by (auto simp: heap_private_def)
      ultimately show "(?b \<union> heap_private s4) \<inter> fd_region s4 = {}" "file_descriptors s5 = file_descriptors s4"
        using fd file_state_fields(3) [OF grows_state [OF s5(5)]] by auto
    qed
    ultimately show ?thesis using s1(7,8) s4(5) by simp
  qed
  moreover have "same_outside (boot_writes ?t s) (mem s) (mem s5)"
  proof (rule same_outside_mono [OF same_outside_trans [OF same_outside_trans [OF s1(9) f13] f35]])
    note w = boot_writes_parts [where t = ?t and s = s]
    have a: "kheap_meta \<union> heap_area \<subseteq> boot_writes ?t s" using w(1) by simp
    from subset_trans [OF hp(1) a] subset_trans [OF hp(2) a] w
    show "region (filesystems s) 2048 \<union> fd_region s \<union> region (fs_name (fat16_fs s)) 6 \<union> screen_region \<union> heap_private s1 \<union> ?X \<subseteq> boot_writes ?t s"
      by simp
  qed
  moreover have "tty_ok s5" using s1(10) by (subst e5) (simp add: on(1) tty_ok_def)
  moreover have "root_area s5 its = ?low"
  proof -
    have "grows B5 (?b \<union> fat_pos s4) s4 s5" by (rule grows_mono [OF s5(5)]) auto
    moreover have "?b \<inter> (fat_area s4 \<union> vfs_globals s4 \<union> root_area s4 its) = {}" using buf by (auto simp: session_buffer_def)
    ultimately have "root_area s5 its = root_area s4 its" by (rule vfs_ready_grows(4) [OF s4(4) _ _ kheap_cap_mono [OF s5(7)]]) simp
    then show ?thesis using s4(6) by simp
  qed
  ultimately show ?thesis using that run p5 s5(4,7) by blast
qed

end
