(* ===== verification/Kernel_Run.thy ===== *)
theory Kernel_Run
  imports Kernel_Boot
begin

text \<open>
  The booted kernel at work. \<open>kernel_up\<close> is the invariant of \<^verbatim>\<open>kernel_main\<close> from the mounted disk on: tables, paging and file system are in
  order, and since the start memory has changed only where the kernel keeps its data. Each operation that
  \<^verbatim>\<open>kernel_main\<close> uses there keeps it; what else an operation does is told by \<open>prints\<close>: the characters it puts on the screen and
  the part of the local buffers that it writes.
\<close>

section \<open>The local buffers\<close>

definition demo_regions :: "'a kernel_state_scheme \<Rightarrow> u32 set list" where
  "demo_regions s = [region (local_buf s ''buf12'') 12, region (local_buf s ''stat'') 8, region (local_buf s ''fsizebuf'') 3,
     region (local_buf s ''fflagsbuf'') 3, region (local_buf s ''buf10'') 10, region (local_buf s ''buf2'') 8]"

definition demo_region :: "'a kernel_state_scheme \<Rightarrow> u32 set" where
  "demo_region s = \<Union> (set (demo_regions s))"

text \<open>They lie at places of their own, apart from each other, the other data of the kernel, and the \<open>t\<close> items of the root directory.\<close>

definition demo_linked :: "nat \<Rightarrow> 'a kernel_state_scheme \<Rightarrow> bool" where
  "demo_linked t s \<longleftrightarrow> kernel_linked s \<and> boot_low t s \<and> pairwise_apart (demo_regions s)
     \<and> list_all (\<lambda>x. list_all (\<lambda>y. x \<inter> y = {}) (region 0 (32 * t) # main_regions s @ kernel_regions s)) (demo_regions s)"

definition demo_writes :: "nat \<Rightarrow> 'a kernel_state_scheme \<Rightarrow> u32 set" where
  "demo_writes t s = boot_writes t s \<union> demo_region s"

text \<open>Where the kernel writes once the disk is mounted.\<close>

definition scratch :: "'a kernel_state_scheme \<Rightarrow> u32 set" where
  "scratch s = screen_region \<union> kheap_meta \<union> heap_area \<union> fat_locals s \<union> fd_region s \<union> region (primary_disk s) 20 \<union> demo_region s"

lemma demo_apart:
  fixes s :: "'a kernel_state_scheme"
  assumes "demo_linked t s"
  shows "demo_region s \<inter> file_memory s = {}" and "demo_region s \<inter> (region (gdt_real s) 48 \<union> region (tss s) 100 \<union> region (idt_descs s) 4096) = {}"
    and "demo_region s \<inter> region 0 (32 * t) = {}"
  using assms unfolding demo_linked_def demo_region_def file_memory_def main_regions_def by (auto simp: list_all_iff)

lemma same_main_demo:
  assumes "same_main s s'"
  shows "demo_regions s' = demo_regions s" and "demo_region s' = demo_region s" and "scratch s' = scratch s" and "fat_locals s' = fat_locals s"
    and "fd_region s' = fd_region s" and "primary_disk s' = primary_disk s" and "vfs_globals s' = vfs_globals s" and "file_descriptors s' = file_descriptors s"
    and "literal s' = literal s" and "local_buf s' = local_buf s" and "gdt_real s' = gdt_real s" and "tss s' = tss s" and "idt_descs s' = idt_descs s"
proof -
  note st = file_state_fields [OF same_main_regions(3) [OF assms]]
  show e: "fat_locals s' = fat_locals s" "fd_region s' = fd_region s" "primary_disk s' = primary_disk s" "vfs_globals s' = vfs_globals s"
    "file_descriptors s' = file_descriptors s" using st by simp_all
  show l: "literal s' = literal s" "local_buf s' = local_buf s" "gdt_real s' = gdt_real s" "tss s' = tss s" "idt_descs s' = idt_descs s"
    using assms by (simp_all add: same_main_def)
  show "demo_regions s' = demo_regions s" by (simp add: demo_regions_def l)
  then show "demo_region s' = demo_region s" by (simp add: demo_region_def)
  then show "scratch s' = scratch s" by (simp add: scratch_def e)
qed

lemma scratch_apart:
  fixes s :: "'a kernel_state_scheme"
  assumes "demo_linked t s"
  shows "scratch s \<inter> (region (gdt_real s) 48 \<union> region (tss s) 100 \<union> region (idt_descs s) 4096) = {}" and "scratch s \<subseteq> demo_writes t s"
proof -
  have k: "kernel_linked s" using assms by (simp add: demo_linked_def)
  note ap = main_apart [OF k] and fm = file_memory_parts [of s]
  have "screen_region \<union> kheap_meta \<union> heap_area \<union> fat_locals s \<union> fd_region s \<union> region (primary_disk s) 20 \<subseteq> file_memory s" using fm by auto
  moreover have "(region (gdt_real s) 48 \<union> region (tss s) 100 \<union> region (idt_descs s) 4096) \<inter> file_memory s = {}" using ap(1-3) by auto
  ultimately show "scratch s \<inter> (region (gdt_real s) 48 \<union> region (tss s) 100 \<union> region (idt_descs s) 4096) = {}"
    using demo_apart(2) [OF assms] unfolding scratch_def by blast
  show "scratch s \<subseteq> demo_writes t s"
    using boot_writes_parts [where t = t and s = s] unfolding scratch_def demo_writes_def by auto
qed

section \<open>The invariant\<close>

definition kernel_up :: "image \<Rightarrow> nat \<Rightarrow> nat \<Rightarrow> nat \<Rightarrow> u8 list list \<Rightarrow> u32 set \<Rightarrow> u32 \<times> u32 \<times> u32 \<Rightarrow> 'a kernel_state_scheme \<Rightarrow> 'a kernel_state_scheme \<Rightarrow> bool" where
  "kernel_up img rs spc e its A h s0 s \<longleftrightarrow> booted_on img rs spc e its A s \<and> processor_tables (fst h) (fst (snd h)) (snd (snd h)) s \<and> tty_ok s
     \<and> same_main s0 s \<and> root_area s its = region 0 (32 * length its) \<and> same_outside (demo_writes (length its) s0) (mem s0) (mem s)"

lemma kernel_upD:
  fixes s :: "'a kernel_state_scheme"
  assumes "kernel_up img rs spc e its A h s0 s"
  shows "booted_on img rs spc e its A s" and "processor_tables (fst h) (fst (snd h)) (snd (snd h)) s" and "tty_ok s" and "same_main s0 s"
    and "root_area s its = region 0 (32 * length its)" and "same_outside (demo_writes (length its) s0) (mem s0) (mem s)" and "vfs_ready img rs spc e its s"
    and "A \<subseteq> heap_area" and "A \<inter> (heap_private s \<union> fat_area s) = {}" and "kheap_inv s"
proof -
  show u: "booted_on img rs spc e its A s" "processor_tables (fst h) (fst (snd h)) (snd (snd h)) s" "tty_ok s" "same_main s0 s"
    "root_area s its = region 0 (32 * length its)" "same_outside (demo_writes (length its) s0) (mem s0) (mem s)" using assms by (simp_all add: kernel_up_def)
  show v: "vfs_ready img rs spc e its s" and "A \<subseteq> heap_area" "A \<inter> (heap_private s \<union> fat_area s) = {}" using u(1) by (simp_all add: booted_on_def)
  show "kheap_inv s" by (rule fat_ready_parts(1) [OF vfs_readyD(1) [OF v]])
qed

lemma screen_frame:
  assumes "same_outside X (mem s) (mem s')" and "X \<inter> screen_region = {}" and "tty_ok s" and "terminal_row s' = terminal_row s"
    and "terminal_column s' = terminal_column s" and "terminal_colour s' = terminal_colour s" and "terminal_buffer s' = terminal_buffer s"
  shows "screen_of s' = screen_of s"
proof -
  have "load16 (mem s') (elem_addr (terminal_buffer s) 2 i) = load16 (mem s) (elem_addr (terminal_buffer s) 2 i)" if "i < 2000" for i
  proof (rule load16_frame [OF assms(1)])
    have "elem_region (terminal_buffer s) 2 i \<subseteq> screen_region"
      using elem_within [OF that, of "terminal_buffer s" 2] assms(3) by (simp add: tty_ok_def screen_region_def)
    then show "region (elem_addr (terminal_buffer s) 2 i) 2 \<inter> X = {}" using assms(2) by (auto simp: elem_region_def)
  qed
  then show ?thesis by (simp add: screen_of_def assms(4-7))
qed

text \<open>Writes in places that the kernel has for them keep the invariant.\<close>

lemma kernel_up_frame:
  fixes s :: "'a kernel_state_scheme"
  assumes "demo_linked (length its) s0" and "kernel_up img rs spc e its A h s0 s" and f: "same_outside (R \<union> fat_pos s \<union> heap_private s) (mem s) (mem s')"
    and "R \<subseteq> scratch s0" and "R \<inter> A = {}" and "vfs_ready img rs spc e its s'" and "fat_area s' = fat_area s" and "root_area s' its = root_area s its"
    and "heap_private s' \<subseteq> heap_private s \<union> P" and "A \<inter> P = {}" and "tty_ok s'" and "same_main s s'"
    and r: "cpu_cr3 s' = cpu_cr3 s" "current_directory s' = current_directory s" "paging_enabled s' = paging_enabled s"
      "cpu_gdtr s' = cpu_gdtr s" "cpu_idtr s' = cpu_idtr s" "cpu_tr s' = cpu_tr s"
  shows "kernel_up img rs spc e its A h s0 s'"
proof -
  note u = kernel_upD [OF assms(2)] and sm = same_main_demo [OF kernel_upD(4) [OF assms(2)]] and sm' = same_main_demo [OF assms(12)]
  have "fat_pos s \<subseteq> heap_area \<union> region (primary_disk s0) 20"
    using fat_ready_parts(3,7) [OF vfs_readyD(1) [OF u(7)]] sm(6) by auto
  moreover have "heap_private s \<subseteq> kheap_meta \<union> heap_area" by (auto simp: heap_private_def)
  ultimately have X: "R \<union> fat_pos s \<union> heap_private s \<subseteq> scratch s0" using assms(4) unfolding scratch_def by blast
  have b: "booted_on img rs spc e its A s'" by (rule booted_frame [OF u(1) f assms(5-7,9,10) r(1-3)])
  have "(R \<union> fat_pos s \<union> heap_private s) \<inter> (region (gdt_real s) 48 \<union> region (tss s) 100 \<union> region (idt_descs s) 4096) = {}"
    using X scratch_apart(1) [OF assms(1)] sm(11-13) by auto
  then have t: "processor_tables (fst h) (fst (snd h)) (snd (snd h)) s'" by (rule tables_frame [OF u(2) f]) (simp_all add: sm' r)
  have "same_main s0 s'" using u(4) assms(12) by (simp add: same_main_def same_globals_def)
  moreover have "same_outside (demo_writes (length its) s0) (mem s0) (mem s')"
    by (rule same_outside_mono [OF same_outside_trans [OF u(6) f]]) (use X scratch_apart(2) [OF assms(1)] in blast)
  ultimately show ?thesis using b t assms(8,11) u(5) unfolding kernel_up_def by simp
qed

text \<open>What an operation puts on the screen, \<open>cs\<close>, and what part \<open>W\<close> of the local buffers it writes. It gives heap memory back at most.\<close>

definition prints :: "'a kernel_state_scheme \<Rightarrow> u32 set \<Rightarrow> u8 list \<Rightarrow> 'a kernel_state_scheme \<Rightarrow> 'a kernel_state_scheme \<Rightarrow> bool" where
  "prints s0 W cs s s' \<longleftrightarrow> same_outside (- demo_region s0 \<union> W) (mem s) (mem s') \<and> screen_of s' = fold put_char cs (screen_of s)
     \<and> (\<forall>n. kheap_cap s n \<longrightarrow> kheap_cap s' n) \<and> fd_table s' = fd_table s"

lemma prints_refl: "prints s0 {} [] s s"
  by (simp add: prints_def)

lemma prints_trans: "prints s0 W cs s s' \<Longrightarrow> prints s0 V ds s' s'' \<Longrightarrow> prints s0 (W \<union> V) (cs @ ds) s s''"
  unfolding prints_def using same_outside_trans [of "- demo_region s0 \<union> W" "mem s" "mem s'" "- demo_region s0 \<union> V" "mem s''"]
  by (auto simp: Un_assoc Un_left_commute elim: same_outside_mono)

lemma prints_mono: "prints s0 W cs s s' \<Longrightarrow> W \<subseteq> V \<Longrightarrow> cs = ds \<Longrightarrow> prints s0 V ds s s'"
  unfolding prints_def by (auto elim!: same_outside_mono)

lemma prints_cap: "prints s0 W cs s s' \<Longrightarrow> kheap_cap s n \<Longrightarrow> kheap_cap s' n"
  by (simp add: prints_def)

lemma prints_load:
  assumes "prints s0 W cs s s'" and "region p n \<subseteq> demo_region s0" and "region p n \<inter> W = {}" and "n \<le> 2 ^ 32"
  shows "load_bytes (mem s') p n = load_bytes (mem s) p n"
  by (rule load_bytes_frame [of "- demo_region s0 \<union> W"]) (use assms in \<open>auto simp: prints_def\<close>)

section \<open>Steps off the file system\<close>

lemma up_apart:
  fixes s :: "'a kernel_state_scheme"
  assumes "demo_linked (length its) s0" and "kernel_up img rs spc e its A h s0 s"
  shows "(screen_region \<union> demo_region s0) \<inter> (kheap_meta \<union> heap_area \<union> fat_area s \<union> fat_locals s \<union> fd_region s \<union> vfs_globals s \<union> root_area s its) = {}"
    and "screen_region \<inter> demo_region s0 = {}" and "heap_private s \<subseteq> kheap_meta \<union> heap_area"
proof -
  note u = kernel_upD [OF assms(2)] and sm = same_main_demo [OF kernel_upD(4) [OF assms(2)]]
  have l: "linked s0" "low_memory_free (length its) s0" using assms(1) by (simp_all add: demo_linked_def kernel_linked_def boot_low_def)
  note a = linked_apart [OF l(1)] and fm = file_memory_parts [of s0] and da = demo_apart [OF assms(1)]
  have fa: "fat_area s \<subseteq> heap_area \<union> region (primary_disk s0) 20" using fat_ready_parts(7) [OF vfs_readyD(1) [OF u(7)]] sm(6) by simp
  have vg: "vfs_globals s \<subseteq> region (fat16_fs s0) 279 \<union> region (literal_r s0) 2"
  proof -
    have "vfs_globals s0 \<subseteq> region (fat16_fs s0) 279 \<union> region (literal_r s0) 2"
      using region_mono [of 24 279 "fat16_fs s0"] unfolding vfs_globals_def by auto
    then show ?thesis by (simp only: sm(7))
  qed
  let ?Z = "kheap_meta \<union> heap_area \<union> region (primary_disk s0) 20 \<union> fat_locals s0 \<union> fd_region s0 \<union> (region (fat16_fs s0) 279 \<union> region (literal_r s0) 2)"
  have "screen_region \<inter> ?Z = {}" using a(2-4,6,7) screen_off_heap by auto
  moreover have "screen_region \<inter> region 0 (32 * length its) = {}" using l(2) by (auto simp: low_memory_free_def kernel_regions_def)
  ultimately have 1: "screen_region \<inter> (?Z \<union> region 0 (32 * length its)) = {}" by blast
  have "?Z \<subseteq> file_memory s0" using fm by auto
  then have 2: "demo_region s0 \<inter> (?Z \<union> region 0 (32 * length its)) = {}" using da(1,3) by blast
  have "kheap_meta \<union> heap_area \<union> fat_area s \<union> fat_locals s \<union> fd_region s \<union> vfs_globals s \<union> root_area s its \<subseteq> ?Z \<union> region 0 (32 * length its)"
    using fa vg unfolding sm(4,5) u(5) by blast
  then show "(screen_region \<union> demo_region s0) \<inter> (kheap_meta \<union> heap_area \<union> fat_area s \<union> fat_locals s \<union> fd_region s \<union> vfs_globals s \<union> root_area s its) = {}"
    using 1 2 by blast
  show "screen_region \<inter> demo_region s0 = {}" using da(1) fm by auto
  show "heap_private s \<subseteq> kheap_meta \<union> heap_area" by (auto simp: heap_private_def)
qed

lemma kernel_up_local:
  fixes s :: "'a kernel_state_scheme"
  assumes "demo_linked (length its) s0" and "kernel_up img rs spc e its A h s0 s" and W: "W \<subseteq> screen_region \<union> demo_region s0"
    and f: "same_outside W (mem s) (mem s')" and t: "tty_ok s'"
    and e: "\<exists>m r c l b. s' = s\<lparr>mem := m, terminal_row := r, terminal_column := c, terminal_colour := l, terminal_buffer := b\<rparr>"
  shows "kernel_up img rs spc e its A h s0 s'" and "kheap_cap s n \<Longrightarrow> kheap_cap s' n" and "fd_table s' = fd_table s"
    and "open_fd s fd g x \<Longrightarrow> open_fd s' fd g x"
proof -
  note u = kernel_upD [OF assms(2)] and ap = up_apart [OF assms(1,2)]
  have off: "W \<inter> (kheap_meta \<union> heap_area \<union> fat_area s \<union> fat_locals s \<union> fd_region s \<union> vfs_globals s \<union> root_area s its) = {}" using W ap(1) by blast
  have sm: "same_main s s'" using e by (auto simp: same_main_def same_globals_def)
  have "kernel_heap s' = kernel_heap s" "strategy s' = strategy s" using e by auto
  from kheap_inv_frame [OF u(10) f _ this] off have k: "kheap_inv s'" "kheap_live s' = kheap_live s" by blast+
  show cap: "kheap_cap s' n" if "kheap_cap s n" for n by (rule kheap_cap_live [OF u(10) k(1) k(2) [symmetric] that])
  have "same_outside (W \<union> fat_pos s \<union> heap_private s) (mem s) (mem s')" by (rule same_outside_mono [OF f]) auto
  moreover have c1: "kheap_cap s' 1" using cap vfs_readyD(1) [OF u(7)] by (simp add: fat_ready_def)
  moreover have "W \<inter> (fat_area s \<union> vfs_globals s \<union> root_area s its) = {}" using off by blast
  moreover have "\<forall>(x, k) \<in> kheap_live s. x \<in> set (fat_private_of s # fat_streams s) \<longrightarrow> (x, k) \<in> kheap_live s'" unfolding k(2) by blast
  ultimately have r: "vfs_ready img rs spc e its s'" "fat_area s' = fat_area s" "root_area s' its = root_area s its"
    using vfs_ready_frame(1,2,4) [OF u(7) _ _ k(1) _ same_main_regions(3) [OF sm], of W] by simp_all
  have "W \<subseteq> scratch s0" using W unfolding scratch_def by blast
  moreover have "W \<inter> A = {}" using off u(8) by blast
  ultimately show "kernel_up img rs spc e its A h s0 s'"
    by (intro kernel_up_frame [OF assms(1,2) same_outside_mono [OF f] _ _ r _ _ t sm, of W "{}"]) (use e k(2) in \<open>auto simp: heap_private_def\<close>)
  show "fd_table s' = fd_table s"
    by (rule fd_table_frame [OF f]) (use off e in auto)
  show "open_fd s' fd g x" if o: "open_fd s fd g x"
  proof -
    obtain j where j: "descriptor_at s j g" "open_file s (driver_handle g) (item_bytes g) x (driver_blocks g)" by (rule open_fdE [OF u(7) o])
    note db = descriptor_block [OF u(7) j(1)] and ob = open_file_blocks [OF j(2)]
    have "block_bytes (driver_blocks g) \<inter> W = {}" using live_bytes(2) [OF u(10) ob(1)] off by blast
    then have "open_file s' (driver_handle g) (item_bytes g) x (driver_blocks g)"
      by (rule open_file_frame [OF j(2) f]) (use ob(1) k(2) r(2) in auto)
    then show ?thesis by (rule open_fd_keep [OF o _ f _ _ r(2) same_main_regions(3) [OF sm]]) (use off db(2,5) k(2) in auto)
  qed
qed

text \<open>Writing a string to the screen.\<close>

lemma up_write:
  fixes s :: "'a kernel_state_scheme"
  assumes "demo_linked (length its) s0" and "kernel_up img rs spc e its A h s0 s" and "cstring (mem s) p cs" and "region p (Suc (length cs)) \<inter> screen_region = {}"
  obtains s' where "terminal_write p s = Some s'" and "kernel_up img rs spc e its A h s0 s'" and "prints s0 {} cs s s'"
    and "\<forall>fd g x. open_fd s fd g x \<longrightarrow> open_fd s' fd g x"
proof -
  note u = kernel_upD [OF assms(2)] and ap = up_apart [OF assms(1,2)]
  obtain s' where s': "terminal_write p s = Some s'" "screen_of s' = fold put_char cs (screen_of s)" "tty_ok s'" "same_outside screen_region (mem s) (mem s')"
    by (rule terminal_write_ok [OF u(3) assms(3,4)])
  obtain m r c l b where "s' = s\<lparr>mem := m, terminal_row := r, terminal_column := c, terminal_colour := l, terminal_buffer := b\<rparr>"
    by (rule terminal_write_state [OF s'(1)])
  then have e: "\<exists>m r c l b. s' = s\<lparr>mem := m, terminal_row := r, terminal_column := c, terminal_colour := l, terminal_buffer := b\<rparr>" by blast
  note l = kernel_up_local [OF assms(1,2) Un_upper1 s'(4,3) e]
  have "same_outside (- demo_region s0 \<union> {}) (mem s) (mem s')" by (rule same_outside_mono [OF s'(4)]) (use ap(2) in blast)
  then have "prints s0 {} cs s s'" using s'(2) l(2,3) unfolding prints_def by blast
  then show ?thesis using that [OF s'(1) l(1)] l(4) by blast
qed

text \<open>Writing to the local buffers.\<close>

lemma up_store:
  fixes s :: "'a kernel_state_scheme"
  assumes "demo_linked (length its) s0" and "kernel_up img rs spc e its A h s0 s" and "W \<subseteq> demo_region s0" and "same_outside W (mem s) m"
  shows "kernel_up img rs spc e its A h s0 (s\<lparr>mem := m\<rparr>)" and "prints s0 W [] s (s\<lparr>mem := m\<rparr>)"
    and "open_fd s fd g x \<Longrightarrow> open_fd (s\<lparr>mem := m\<rparr>) fd g x"
proof -
  note u = kernel_upD [OF assms(2)] and ap = up_apart [OF assms(1,2)]
  let ?s = "s\<lparr>mem := m\<rparr>"
  have e: "\<exists>m r c l b. ?s = s\<lparr>mem := m, terminal_row := r, terminal_column := c, terminal_colour := l, terminal_buffer := b\<rparr>"
    by (intro exI [of _ m] exI [of _ "terminal_row s"] exI [of _ "terminal_column s"] exI [of _ "terminal_colour s"] exI [of _ "terminal_buffer s"]) simp
  have W: "W \<subseteq> screen_region \<union> demo_region s0" and f: "same_outside W (mem s) (mem ?s)" and t: "tty_ok ?s"
    using assms(3,4) u(3) by (auto simp: tty_ok_def)
  note l = kernel_up_local [OF assms(1,2) W f t e]
  show "kernel_up img rs spc e its A h s0 ?s" by (rule l(1))
  show "open_fd s fd g x \<Longrightarrow> open_fd ?s fd g x" by (rule l(4))
  have "screen_of ?s = screen_of s" by (rule screen_frame [OF f _ u(3)]) (use assms(3) ap(2) in auto)
  moreover have "same_outside (- demo_region s0 \<union> W) (mem s) (mem ?s)" by (rule same_outside_mono [OF f]) blast
  ultimately show "prints s0 W [] s ?s" using l(2,3) by (simp add: prints_def)
qed

section \<open>Steps of the file system\<close>

lemma up_grows:
  fixes s :: "'a kernel_state_scheme"
  assumes "demo_linked (length its) s0" and "kernel_up img rs spc e its A h s0 s" and g: "grows B (R \<union> fat_pos s) s s'"
    and "R \<subseteq> scratch s0" and "R \<inter> (A \<union> screen_region \<union> fat_area s \<union> vfs_globals s \<union> root_area s its) = {}" and "kheap_cap s' 1"
  shows "kernel_up img rs spc e its A h s0 s'" and "screen_of s' = screen_of s" and "same_outside (- demo_region s0 \<union> R) (mem s) (mem s')"
proof -
  note u = kernel_upD [OF assms(2)] and ap = up_apart [OF assms(1,2)] and d = growsD [OF g]
  have e: "s' = s\<lparr>io_log := io_log s', mem := mem s'\<rparr>" using g by (simp add: grows_def)
  have sm: "same_main s s'" by (subst e) (simp add: same_main_def same_globals_def)
  have tt: "terminal_row s' = terminal_row s" "terminal_column s' = terminal_column s" "terminal_colour s' = terminal_colour s" "terminal_buffer s' = terminal_buffer s"
    and r: "cpu_cr3 s' = cpu_cr3 s" "current_directory s' = current_directory s" "paging_enabled s' = paging_enabled s"
      "cpu_gdtr s' = cpu_gdtr s" "cpu_idtr s' = cpu_idtr s" "cpu_tr s' = cpu_tr s" by (subst e, simp)+
  have Ra: "R \<inter> (fat_area s \<union> vfs_globals s \<union> root_area s its) = {}" "R \<inter> A = {}" "R \<inter> screen_region = {}" using assms(5) by blast+
  note v = vfs_ready_grows [OF u(7) g Ra(1) assms(6)]
  have t: "tty_ok s'" using u(3) by (simp add: tty_ok_def tt)
  have hp: "heap_private s' \<subseteq> heap_private s \<union> {}" using d(5) by simp
  show "kernel_up img rs spc e its A h s0 s'"
    by (rule kernel_up_frame [OF assms(1,2) d(4) assms(4) Ra(2) v(1,2,4) hp _ t sm r]) simp
  have fp: "fat_pos s \<subseteq> fat_area s" by (rule fat_ready_parts(3) [OF vfs_readyD(1) [OF u(7)]])
  have "(fat_pos s \<union> heap_private s) \<inter> (screen_region \<union> demo_region s0) = {}" using ap(1,3) fp by blast
  then show "screen_of s' = screen_of s" "same_outside (- demo_region s0 \<union> R) (mem s) (mem s')"
    by (intro screen_frame [OF d(4) _ u(3) tt] same_outside_mono [OF d(4)]; use Ra(3) in blast)+
qed

lemma up_keeps:
  fixes s :: "'a kernel_state_scheme"
  assumes "demo_linked (length its) s0" and "kernel_up img rs spc e its A h s0 s" and g: "keeps (R \<union> fat_pos s) s s'"
    and "R \<subseteq> scratch s0" and "R \<inter> (A \<union> screen_region \<union> fat_area s \<union> vfs_globals s \<union> root_area s its) = {}" and "R \<inter> fd_region s = {}"
    and "R \<inter> demo_region s0 \<subseteq> W"
  shows "kernel_up img rs spc e its A h s0 s'" and "prints s0 W [] s s'"
proof -
  note u = kernel_upD [OF assms(2)] and ap = up_apart [OF assms(1,2)]
  have cap: "kheap_cap s' n" if "kheap_cap s n" for n by (rule keepsD(3) [OF g u(10) that])
  have "kheap_cap s' 1" using cap vfs_readyD(1) [OF u(7)] by (simp add: fat_ready_def)
  note w = up_grows [OF assms(1,2) g assms(4,5) this]
  show "kernel_up img rs spc e its A h s0 s'" by (rule w(1))
  have "same_outside (- demo_region s0 \<union> W) (mem s) (mem s')" by (rule same_outside_mono [OF w(3)]) (use assms(7) in blast)
  moreover have "fd_table s' = fd_table s"
  proof (rule fd_table_frame [OF growsD(4) [OF g]])
    have "fat_pos s \<inter> fd_region s = {}" "heap_private s \<inter> fd_region s = {}"
      using vfs_ready_apart [OF u(7)] fat_ready_parts(3) [OF vfs_readyD(1) [OF u(7)]] by blast+
    then show "(R \<union> fat_pos s \<union> heap_private s) \<inter> fd_region s = {}" using assms(6) by blast
    show "file_descriptors s' = file_descriptors s" using file_state_fields(3) [OF grows_state [OF g]] .
  qed
  ultimately show "prints s0 W [] s s'" using w(2) cap by (simp add: prints_def)
qed

text \<open>The kernel with a file open.\<close>

definition file_up :: "image \<Rightarrow> nat \<Rightarrow> nat \<Rightarrow> nat \<Rightarrow> u8 list list \<Rightarrow> u32 set \<Rightarrow> u32 \<times> u32 \<times> u32 \<Rightarrow> 'a kernel_state_scheme \<Rightarrow> u32 \<Rightarrow> vfs_file \<Rightarrow> nat
    \<Rightarrow> 'a kernel_state_scheme \<Rightarrow> bool" where
  "file_up img rs spc e its A h s0 fd f x s \<longleftrightarrow> kernel_up img rs spc e its A h s0 s \<and> open_fd s fd f x \<and> A \<inter> block_bytes (driver_blocks f) = {}"

lemma file_upD:
  assumes "file_up img rs spc e its A h s0 fd f x s"
  shows "kernel_up img rs spc e its A h s0 s" and "open_fd s fd f x" and "A \<inter> block_bytes (driver_blocks f) = {}" and "vfs_ready img rs spc e its s"
  using assms kernel_upD(7) unfolding file_up_def by blast+

lemma up_buffer:
  fixes s :: "'a kernel_state_scheme"
  assumes "demo_linked (length its) s0" and "file_up img rs spc e its A h s0 fd f x s" and "region out n \<subseteq> demo_region s0"
  shows "vfs_buffer its s f out n"
proof -
  note F = file_upD [OF assms(2)] and ap = up_apart [OF assms(1) file_upD(1) [OF assms(2)]]
  obtain j where j: "descriptor_at s j f" "open_file s (driver_handle f) (item_bytes f) x (driver_blocks f)" by (rule open_fdE [OF F(4,2)])
  have "block_bytes (driver_blocks f) \<union> desc_bytes f \<subseteq> heap_area"
    using live_bytes(2) [OF kernel_upD(10) [OF F(1)] open_file_blocks(1) [OF j(2)]] descriptor_block(5) [OF F(4) j(1)] by blast
  then show ?thesis using assms(3) ap(1,3) unfolding vfs_buffer_def file_buffer_def by blast
qed

lemma up_seek:
  fixes s :: "'a kernel_state_scheme"
  assumes "demo_linked (length its) s0" and "file_up img rs spc e its A h s0 fd f x s"
  obtains s' where "fseek fd (of_nat y) SEEK_SET s = Some (0, s')" and "file_up img rs spc e its A h s0 fd f y s'" and "prints s0 {} [] s s'"
proof -
  note F = file_upD [OF assms(2)] and u = kernel_upD [OF file_upD(1) [OF assms(2)]] and ap = up_apart [OF assms(1) file_upD(1) [OF assms(2)]]
  let ?R = "block_bytes (driver_blocks f)"
  obtain s' where s': "fseek fd (of_nat y) SEEK_SET s = Some (0, s')" "open_fd s' fd f y" "keeps ?R s s'" using vfs_seek [OF F(4,2)] by blast
  have k: "keeps (?R \<union> fat_pos s) s s'" by (rule grows_mono [OF s'(3)]) auto
  obtain j where j: "open_file s (driver_handle f) (item_bytes f) x (driver_blocks f)" by (rule open_fdE [OF F(4,2)])
  note ob = open_file_blocks [OF j] and lb = live_bytes [OF u(10) open_file_blocks(1) [OF j]] and va = vfs_blocks_apart [OF F(4) open_file_blocks(1) [OF j]]
  have "?R \<subseteq> scratch s0" using lb(2) unfolding scratch_def by blast
  moreover have "?R \<inter> (A \<union> screen_region \<union> fat_area s \<union> vfs_globals s \<union> root_area s its) = {}" "?R \<inter> demo_region s0 \<subseteq> {}"
    using lb(2) va ob(2) F(3) ap(1) by blast+
  moreover have "?R \<inter> fd_region s = {}" using va by blast
  ultimately have "kernel_up img rs spc e its A h s0 s'" "prints s0 {} [] s s'" using up_keeps [OF assms(1) F(1) k] by blast+
  then show ?thesis using that [OF s'(1)] s'(2) F(3) by (simp add: file_up_def)
qed

lemma up_read:
  fixes s :: "'a kernel_state_scheme"
  assumes "demo_linked (length its) s0" and "file_up img rs spc e its A h s0 fd f x s" and "file_gives img rs spc e (item_bytes f) x n ys"
    and "region out (length ys) \<subseteq> demo_region s0"
  obtains s' where "fread out (of_nat n) 1 fd s = Some (0, s')" and "file_up img rs spc e its A h s0 fd f x s'" and "prints s0 (region out (length ys)) [] s s'"
    and "load_bytes (mem s') out (length ys) = ys"
proof -
  note F = file_upD [OF assms(2)] and u = kernel_upD [OF file_upD(1) [OF assms(2)]] and ap = up_apart [OF assms(1) file_upD(1) [OF assms(2)]]
  let ?R = "region out (length ys) \<union> fat_locals s"
  obtain s' where s': "fread out (of_nat n) 1 fd s = Some (0, s')" "open_fd s' fd f x" "load_bytes (mem s') out (length ys) = ys" "keeps (?R \<union> fat_pos s) s s'"
    using vfs_read [OF F(4,2) assms(3) up_buffer [OF assms(1,2,4)]] by blast
  have fl: "fat_locals s \<inter> (screen_region \<union> demo_region s0 \<union> heap_area \<union> fd_region s \<union> fat_area s \<union> vfs_globals s \<union> root_area s its) = {}"
  proof -
    have "fat_locals s \<inter> heap_area = {}" using vfs_readyD(1) [OF u(7)] unfolding fat_ready_def by blast
    then show ?thesis using ap(1) vfs_readyD(8) [OF u(7)] fat_ready_parts(5) [OF vfs_readyD(1) [OF u(7)]] by blast
  qed
  have "fat_locals s = fat_locals s0" by (rule same_main_demo(4) [OF u(4)])
  then have "?R \<subseteq> scratch s0" using assms(4) unfolding scratch_def by blast
  moreover have "?R \<inter> (A \<union> screen_region \<union> fat_area s \<union> vfs_globals s \<union> root_area s its) = {}"
    using fl assms(4) ap(1,2) u(8) by blast
  moreover have "?R \<inter> fd_region s = {}" "?R \<inter> demo_region s0 \<subseteq> region out (length ys)" using fl assms(4) ap(1) by blast+
  ultimately have "kernel_up img rs spc e its A h s0 s'" "prints s0 (region out (length ys)) [] s s'" using up_keeps [OF assms(1) F(1) s'(4)] by blast+
  then show ?thesis using that [OF s'(1)] s'(2,3) F(3) by (simp add: file_up_def)
qed

lemma up_close:
  fixes s :: "'a kernel_state_scheme"
  assumes "demo_linked (length its) s0" and "file_up img rs spc e its A h s0 fd f x s"
  obtains s' where "fclose fd s = Some (0, s')" and "kernel_up img rs spc e its A h s0 s'" and "prints s0 {} [] s s'"
proof -
  note F = file_upD [OF assms(2)] and u = kernel_upD [OF file_upD(1) [OF assms(2)]] and ap = up_apart [OF assms(1) file_upD(1) [OF assms(2)]]
  obtain s' where s': "fclose fd s = Some (0, s')" "vfs_ready img rs spc e its s'" "kheap_live s' = kheap_live s - driver_blocks f" "fd_table s' = fd_table s"
    "same_outside kheap_meta (mem s) (mem s')" "s' = s\<lparr>mem := mem s'\<rparr>" "fat_area s' = fat_area s" "root_area s' its = root_area s its"
    "heap_private s' \<subseteq> heap_private s \<union> block_bytes (driver_blocks f)" using vfs_close [OF F(4,2)] by blast
  have sm: "same_main s s'" by (subst s'(6)) (simp add: same_main_def same_globals_def)
  have tt: "terminal_row s' = terminal_row s" "terminal_column s' = terminal_column s" "terminal_colour s' = terminal_colour s" "terminal_buffer s' = terminal_buffer s"
    and r: "cpu_cr3 s' = cpu_cr3 s" "current_directory s' = current_directory s" "paging_enabled s' = paging_enabled s"
      "cpu_gdtr s' = cpu_gdtr s" "cpu_idtr s' = cpu_idtr s" "cpu_tr s' = cpu_tr s" by (subst s'(6), simp)+
  have t: "tty_ok s'" using u(3) by (simp add: tty_ok_def tt)
  have m: "kheap_meta \<subseteq> heap_private s" by (auto simp: heap_private_def)
  have f: "same_outside ({} \<union> fat_pos s \<union> heap_private s) (mem s) (mem s')" by (rule same_outside_mono [OF s'(5)]) (use m in blast)
  have K: "kernel_up img rs spc e its A h s0 s'"
    by (rule kernel_up_frame [OF assms(1) F(1) f _ _ s'(2,7,8,9) F(3) t sm r]) simp_all
  have "screen_of s' = screen_of s" by (rule screen_frame [OF s'(5) _ u(3) tt]) (use screen_off_heap in blast)
  moreover have "same_outside (- demo_region s0 \<union> {}) (mem s) (mem s')" by (rule same_outside_mono [OF s'(5)]) (use ap(1) in blast)
  moreover have "kheap_cap s' n" if "kheap_cap s n" for n
    by (rule kheap_cap_antimono [OF u(10) kernel_upD(10) [OF K] _ that]) (use s'(3) in blast)
  ultimately have "prints s0 {} [] s s'" using s'(4) by (simp add: prints_def)
  then show ?thesis by (rule that [OF s'(1) K])
qed

lemma up_stat:
  fixes s :: "'a kernel_state_scheme"
  assumes "demo_linked (length its) s0" and "file_up img rs spc e its A h s0 fd f x s" and "region st 8 \<subseteq> demo_region s0"
  obtains s' where "fstat fd st s = Some (0, s')" and "file_up img rs spc e its A h s0 fd f x s'" and "prints s0 (region st 8) [] s s'"
    and "load32 (mem s') (stat_filesize st) = item_size (item_bytes f)" and "load32 (mem s') (stat_flags st) = item_flags (item_bytes f) (load32 (mem s) (stat_flags st))"
proof -
  note F = file_upD [OF assms(2)] and u = kernel_upD [OF file_upD(1) [OF assms(2)]] and ap = up_apart [OF assms(1) file_upD(1) [OF assms(2)]]
  obtain j where j: "fd = of_nat j" "descriptor_at s j f" "open_file s (driver_handle f) (item_bytes f) x (driver_blocks f)" by (rule open_fdE [OF F(4,2)])
  have "region st 8 \<inter> block_bytes (driver_blocks f) = {}"
    using live_bytes(2) [OF u(10) open_file_blocks(1) [OF j(3)]] assms(3) ap(1) by blast
  from stat_open_file [OF j(3) this, of "primary_disk s"] obtain m where
    m: "fat16_stat (primary_disk s) (driver_handle f) st s = (0, s\<lparr>mem := m\<rparr>)" "same_outside (region st 8) (mem s) m"
    "load32 m (stat_filesize st) = item_size (item_bytes f)" "load32 m (stat_flags st) = item_flags (item_bytes f) (load32 (mem s) (stat_flags st))" by blast
  have "fstat fd st s = Some (0, s\<lparr>mem := m\<rparr>)"
    unfolding j(1) descriptor_dispatch(4) [OF vfs_readyD(3) [OF F(4)] u(10) j(2)] by (simp add: m(1))
  moreover note w = up_store [OF assms(1) F(1) assms(3) m(2)]
  ultimately show ?thesis using that [of "s\<lparr>mem := m\<rparr>"] m(3,4) w F(2,3) by (simp add: file_up_def)
qed

text \<open>Seeking from the current position.\<close>

lemma up_seek_current:
  fixes s :: "'a kernel_state_scheme"
  assumes "demo_linked (length its) s0" and "file_up img rs spc e its A h s0 fd f x s"
  obtains s' where "fseek fd (of_nat y) SEEK_CURRENT s = Some (0, s')" and "file_up img rs spc e its A h s0 fd f (x + y) s'" and "prints s0 {} [] s s'"
proof -
  note F = file_upD [OF assms(2)] and u = kernel_upD [OF file_upD(1) [OF assms(2)]]
  obtain j where j: "fd = of_nat j" "descriptor_at s j f" "open_file s (driver_handle f) (item_bytes f) x (driver_blocks f)" by (rule open_fdE [OF F(4,2)])
  note ds = descriptor_dispatch(3) [OF vfs_readyD(3) [OF F(4)] u(10) j(2)]
  have "load32 (mem s) (item_descriptor_pos (driver_handle f)) = of_nat x" using j(3) unfolding open_file_def by blast
  then have "fat16_seek (driver_handle f) (of_nat y) SEEK_CURRENT s = fat16_seek (driver_handle f) (of_nat (x + y)) SEEK_SET s"
    by (simp add: fat16_seek_def Let_def kernel_consts)
  then have "fseek fd (of_nat y) SEEK_CURRENT s = fseek fd (of_nat (x + y)) SEEK_SET s" unfolding j(1) ds by simp
  then show ?thesis using up_seek [OF assms, of "x + y"] that by metis
qed

text \<open>Opening.\<close>

lemma up_locals:
  fixes s :: "'a kernel_state_scheme"
  assumes "demo_linked (length its) s0" and "kernel_up img rs spc e its A h s0 s"
  shows "fat_locals s \<inter> (A \<union> screen_region \<union> demo_region s0 \<union> fd_region s \<union> fat_area s \<union> vfs_globals s \<union> root_area s its) = {}" and "fat_locals s \<subseteq> scratch s0"
    and "fd_region s \<inter> (A \<union> screen_region \<union> demo_region s0 \<union> fat_area s \<union> vfs_globals s \<union> root_area s its) = {}" and "fd_region s \<subseteq> scratch s0"
proof -
  note u = kernel_upD [OF assms(2)] and ap = up_apart [OF assms(1,2)] and sm = same_main_demo [OF kernel_upD(4) [OF assms(2)]]
  have lh: "fat_locals s \<inter> heap_area = {}" using vfs_readyD(1) [OF u(7)] unfolding fat_ready_def by blast
  show "fat_locals s \<inter> (A \<union> screen_region \<union> demo_region s0 \<union> fd_region s \<union> fat_area s \<union> vfs_globals s \<union> root_area s its) = {}"
    using ap(1) lh u(8) vfs_readyD(8) [OF u(7)] fat_ready_parts(5) [OF vfs_readyD(1) [OF u(7)]] by blast
  show "fd_region s \<inter> (A \<union> screen_region \<union> demo_region s0 \<union> fat_area s \<union> vfs_globals s \<union> root_area s its) = {}"
    using ap(1) u(8) vfs_readyD(8,9) [OF u(7)] vfs_ready_apart [OF u(7)] by blast
  show "fat_locals s \<subseteq> scratch s0" "fd_region s \<subseteq> scratch s0" unfolding scratch_def sm(4,5) by blast+
qed

lemma up_open:
  fixes s :: "'a kernel_state_scheme"
  assumes "demo_linked (length its) s0" and "kernel_up img rs spc e its A h s0 s" and "readable s p ps" and "good_path ps" and "path_drive ps = 0"
    and "readable s mode ms" and "ms \<noteq> []" and "0x72 \<le>s hd ms" and "walks img spc e its (path_parts (drop 3 ps)) bs w"
    and "kheap_cap s (path_need ps + (w + 2 + Suc c))" and "find (\<lambda>i. fd_table s ! i = 0) [0..<512] = Some j"
  obtains f s' where "fopen p mode s = Some (of_nat j, s')" and "file_up img rs spc e its A h s0 (of_nat j) f 0 s'" and "item_bytes f = bs"
    and "fd_table s' = (fd_table s)[j := fst (desc_block f)]" and "fst (desc_block f) \<noteq> 0" and "kheap_cap s' (Suc c)"
    and "screen_of s' = screen_of s" and "same_outside (- demo_region s0) (mem s) (mem s')"
proof -
  note u = kernel_upD [OF assms(2)] and ap = up_apart [OF assms(1,2)] and sm = same_main_demo [OF kernel_upD(4) [OF assms(2)]]
  let ?R = "fat_locals s \<union> elem_region (file_descriptors s) 4 j"
  obtain P f s' where o: "fopen p mode s = Some (of_nat j, s')" "open_fd s' (of_nat j) f 0" "item_bytes f = bs"
    "fd_table s' = (fd_table s)[j := fst (desc_block f)]" "vfs_ready img rs spc e its s'" "kheap_cap s' (Suc c)"
    "grows (P \<union> insert (desc_block f) (driver_blocks f)) (fat_locals s \<union> fat_pos s \<union> elem_region (file_descriptors s) 4 j) s s'"
    using fopen_ok [OF u(7) assms(3-11)] by blast
  have g: "grows (P \<union> insert (desc_block f) (driver_blocks f)) (?R \<union> fat_pos s) s s'" by (rule grows_mono [OF o(7)]) auto
  have j: "j < 512" using assms(11) by (auto simp: find_Some_iff)
  have E: "elem_region (file_descriptors s) 4 j \<subseteq> fd_region s" using elem_within [OF j, of "file_descriptors s" 4] by (simp add: fd_region_def)
  note lo = up_locals [OF assms(1,2)]
  have R: "?R \<inter> (A \<union> screen_region \<union> fat_area s \<union> vfs_globals s \<union> root_area s its) = {}" "?R \<subseteq> scratch s0" "?R \<inter> demo_region s0 = {}"
    using E lo by blast+
  have "kheap_cap s' 1" by (rule kheap_cap_mono [OF o(6)]) simp
  note w = up_grows [OF assms(1,2) g R(2,1) this]
  have "block_bytes (driver_blocks f) \<subseteq> heap_private s" using grows_new_bytes [OF g] by (auto simp: block_bytes_def)
  then have "A \<inter> block_bytes (driver_blocks f) = {}" using u(9) by blast
  then have F: "file_up img rs spc e its A h s0 (of_nat j) f 0 s'" using w(1) o(2) by (simp add: file_up_def)
  have "desc_block f \<in> kheap_live s'" using growsD(2) [OF g] by blast
  then have "fst (desc_block f) \<noteq> 0" using live_nonzero [OF growsD(1) [OF g], of "fst (desc_block f)" "snd (desc_block f)"] by simp
  moreover have "same_outside (- demo_region s0) (mem s) (mem s')" by (rule same_outside_mono [OF w(3)]) (use R(3) in blast)
  ultimately show ?thesis using that [OF o(1) F o(3,4) _ o(6) w(2)] by blast
qed

lemma up_broken:
  fixes s :: "'a kernel_state_scheme"
  assumes "demo_linked (length its) s0" and "kernel_up img rs spc e its A h s0 s" and "readable s p ps" and "good_path ps" and "path_drive ps = 0"
    and "readable s mode ms" and "ms \<noteq> []" and "0x72 \<le>s hd ms" and "breaks img spc e its (path_parts (drop 3 ps)) w"
    and "0 < w \<Longrightarrow> null_item_typed s" and "kheap_cap s (path_need ps + Suc (w + Suc c))"
  obtains s' where "fopen p mode s = Some (- EIO, s')" and "kernel_up img rs spc e its A h s0 s'" and "kheap_cap s' (Suc c)" and "fd_table s' = fd_table s"
    and "screen_of s' = screen_of s" and "same_outside (- demo_region s0) (mem s) (mem s')"
proof -
  note u = kernel_upD [OF assms(2)] and ap = up_apart [OF assms(1,2)] and sm = same_main_demo [OF kernel_upD(4) [OF assms(2)]]
  obtain C s' where o: "fopen p mode s = Some (- EIO, s')" "grows C (fat_locals s \<union> fat_pos s) s s'" "kheap_cap s' (Suc c)"
    by (rule fopen_broken [OF u(7) assms(3-11)])
  note lo = up_locals [OF assms(1,2)]
  have R: "fat_locals s \<inter> (A \<union> screen_region \<union> fat_area s \<union> vfs_globals s \<union> root_area s its) = {}" "fat_locals s \<inter> (demo_region s0 \<union> fd_region s) = {}" using lo(1) by blast+
  have "kheap_cap s' 1" by (rule kheap_cap_mono [OF o(3)]) simp
  note w = up_grows [OF assms(1,2) o(2) lo(2) R(1) this]
  have "same_outside (- demo_region s0) (mem s) (mem s')" by (rule same_outside_mono [OF w(3)]) (use R(2) in blast)
  moreover have "fd_table s' = fd_table s"
  proof (rule fd_table_frame [OF growsD(4) [OF o(2)]])
    show "(fat_locals s \<union> fat_pos s \<union> heap_private s) \<inter> fd_region s = {}"
      using R(2) vfs_ready_apart [OF u(7)] fat_ready_parts(3) [OF vfs_readyD(1) [OF u(7)]] by blast
    show "file_descriptors s' = file_descriptors s" using file_state_fields(3) [OF grows_state [OF o(2)]] .
  qed
  ultimately show ?thesis using that [OF o(1) w(1) o(3) _ w(2)] by blast
qed

end
