(* ===== verification/Kernel_Sample.thy ===== *)
theory Kernel_Sample
  imports Kernel_Run
begin

text \<open>
  A machine and a disk on which \<^verbatim>\<open>kernel_main\<close> finds both files that it looks for. The disk has a read-only file \<^verbatim>\<open>MY_FILE.TXT\<close> and
  a directory \<^verbatim>\<open>MY_DIR\<close> with the file \<^verbatim>\<open>MY_FILE2.TXT\<close>; the machine is that of \<open>File_Boot\<close> with the globals, local buffers
  and string constants of \<^verbatim>\<open>kernel_main\<close>.
\<close>

section \<open>The disk\<close>

definition place :: "nat \<Rightarrow> u8 list \<Rightarrow> image \<Rightarrow> image" where
  "place p bs img i = (if p \<le> i \<and> i < p + length bs then bs ! (i - p) else img i)"

lemma place_bytes: "k + n \<le> length bs \<Longrightarrow> disk_bytes (place p bs img) (p + k) n = take n (drop k bs)"
  by (rule nth_equalityI) (simp_all add: place_def disk_bytes_def)

lemma place_other: "p + n \<le> q \<or> q + length bs \<le> p \<Longrightarrow> disk_bytes (place q bs img) p n = disk_bytes img p n"
  by (auto simp: place_def disk_bytes_def)

definition demo_item :: "string \<Rightarrow> u8 \<Rightarrow> u8 \<Rightarrow> u8 \<Rightarrow> u8 list" where
  "demo_item name kind cluster sz = text_bytes name @ [kind] @ replicate 14 0 @ [cluster, 0, sz, 0, 0, 0]"

definition demo_items :: "u8 list list" where
  "demo_items = [demo_item ''MY_FILE TXT'' 1 2 11, demo_item ''MY_DIR     '' 0x10 4 0]"

definition demo_nested_item :: "u8 list" where
  "demo_nested_item = demo_item ''MY_FILE2TXT'' 0 3 12"

text \<open>One reserved sector, one table of one sector, 16 entries in the root directory: that is sector 2, cluster 2 is sector 3.\<close>

definition demo_disk :: image where
  "demo_disk = place 1024 (concat demo_items) (place 1536 (text_bytes ''Hello world'') (place 2048 (text_bytes ''0123456789ab'')
     (place 2560 demo_nested_item ((\<lambda>_. 0)(13 := 1, 14 := 1, 16 := 1, 17 := 16, 22 := 1, 38 := 0x29,
       516 := 0xFF, 517 := 0xFF, 518 := 0xFF, 519 := 0xFF, 520 := 0xFF, 521 := 0xFF)))))"

lemma demo_item_length [simp]: "length (demo_item name kind cl sz) = length name + 21"
  by (simp add: demo_item_def text_bytes_def)

lemma demo_lengths: "length (text_bytes ''Hello world'') = 11" "length (text_bytes ''0123456789ab'') = 12" "length (concat demo_items) = 64"
  "length demo_nested_item = 32"
  by (simp_all add: text_bytes_def demo_items_def demo_nested_item_def)

lemmas demo_name_simps = text_bytes_def demo_item_def fat_name_def name_matches_def tolower_def char_to_int_def word_sle_eq item_is_directory_def
  kernel_consts item_cluster_def le16_def nth_append

lemma demo_found: "find_name (text_bytes ''my_file.txt'') demo_items = Some 0" "find_name (text_bytes ''my_dir'') demo_items = Some 1"
  "find_name (text_bytes ''my_file2.txt'') [demo_nested_item] = Some 0"
  by (simp_all add: demo_items_def demo_nested_item_def demo_name_simps)

lemma demo_kinds: "\<not> item_is_directory (demo_items ! 0)" "item_is_directory (demo_items ! 1)" "\<not> item_is_directory demo_nested_item"
  "item_cluster (demo_items ! 0) = 2" "item_cluster (demo_items ! 1) = 4" "item_cluster demo_nested_item = 3"
  by (simp_all add: demo_items_def demo_nested_item_def demo_name_simps)

lemma demo_root_bytes: "disk_bytes demo_disk 1024 32 = demo_items ! 0" "disk_bytes demo_disk 1056 32 = demo_items ! 1"
  unfolding demo_disk_def using place_bytes [of 0 32 "concat demo_items" 1024] place_bytes [of 32 32 "concat demo_items" 1024]
  by (simp_all add: demo_lengths) (simp_all add: demo_items_def)

lemma demo_bytes: "disk_bytes demo_disk 1536 11 = text_bytes ''Hello world''" "disk_bytes demo_disk 2051 9 = text_bytes ''3456789ab''"
  "disk_bytes demo_disk 2052 8 = text_bytes ''456789ab''" "disk_bytes demo_disk 2560 32 = demo_nested_item"
  unfolding demo_disk_def using place_bytes [of 0 11 "text_bytes ''Hello world''" 1536] place_bytes [of 3 9 "text_bytes ''0123456789ab''" 2048]
    place_bytes [of 4 8 "text_bytes ''0123456789ab''" 2048] place_bytes [of 0 32 demo_nested_item 2560]
  by (simp_all add: place_other demo_lengths) (simp_all add: text_bytes_def)

lemma demo_disk_fields: "demo_disk 13 = 1" "demo_disk 14 = 1" "demo_disk 15 = 0" "demo_disk 16 = 1" "demo_disk 17 = 16" "demo_disk 18 = 0" "demo_disk 22 = 1"
  "demo_disk 23 = 0" "demo_disk 38 = 0x29" "demo_disk 1024 = 0x4D" "demo_disk 1056 = 0x4D" "demo_disk 1088 = 0" "demo_disk 2560 = 0x4D" "demo_disk 2592 = 0"
  by (simp_all add: demo_disk_def place_def demo_lengths)
    (simp_all add: demo_items_def demo_nested_item_def demo_item_def text_bytes_def nth_append)

lemma demo_disk_ok: "fat_disk demo_disk 1 1 3 demo_items"
proof -
  have "root_sector 1 1 1 = 2" "data_sector 1 1 1 16 = 3" by (simp_all add: root_sector_def data_sector_def)
  moreover have "fat_header demo_disk 1 1 1 1 16" by (simp add: fat_header_def demo_disk_fields le16_def)
  moreover have "dir_ends demo_disk 1024 (Suc (Suc 0))" by (auto simp: dir_ends_def demo_disk_fields less_Suc_eq)
  moreover have "disk_items demo_disk 1024 (Suc (Suc 0)) = demo_items"
    by (simp add: demo_disk_fields demo_root_bytes) (simp add: demo_items_def)
  moreover have "length demo_items = 2" by (simp add: demo_items_def)
  ultimately show ?thesis unfolding fat_disk_def Let_def
    by (intro conjI exI [of _ 1] exI [of _ 16] exI [of _ "Suc (Suc 0)"]) simp_all
qed

lemma demo_walks: "walks demo_disk 1 3 demo_items [text_bytes ''my_file.txt''] (demo_items ! 0) 2"
  "walks demo_disk 1 3 demo_items [text_bytes ''my_dir'', text_bytes ''my_file2.txt''] demo_nested_item 5"
proof -
  show "walks demo_disk 1 3 demo_items [text_bytes ''my_file.txt''] (demo_items ! 0) 2" by (rule walks_file [OF demo_found(1) demo_kinds(1)])
  have d: "data_pos 1 3 4 0 = 2560" "cluster_bytes 1 = 512" by (simp_all add: data_pos_def cluster_bytes_def)
  have "dir_ends demo_disk 2560 (Suc 0)" "dir_count demo_disk 2560 (Suc 0) = Suc 0" by (simp_all add: dir_ends_def demo_disk_fields)
  then have sub: "directory_items demo_disk 1 3 (demo_items ! 1) [demo_nested_item]"
    unfolding directory_items_def Let_def using demo_kinds(2,5) d demo_bytes(4) demo_lengths(4) by (auto intro!: exI [of _ "Suc 0"])
  have "walks demo_disk 1 3 [demo_nested_item] [text_bytes ''my_file2.txt''] demo_nested_item 2"
    using walks_file [OF demo_found(3)] demo_kinds(3) by simp
  from walks_directory [OF demo_found(2) sub this]
  have "walks demo_disk 1 3 demo_items [text_bytes ''my_dir'', text_bytes ''my_file2.txt''] demo_nested_item (Suc (Suc (1 + 2)))"
    by (simp add: blocks_for_small)
  moreover have "Suc (Suc (1 + 2)) = (5 :: nat)" by simp
  ultimately show "walks demo_disk 1 3 demo_items [text_bytes ''my_dir'', text_bytes ''my_file2.txt''] demo_nested_item 5" by (simp only:)
qed

lemma demo_gives: "file_gives demo_disk 1 1 3 (demo_items ! 0) 0 11 (text_bytes ''Hello world'')"
  "file_gives demo_disk 1 1 3 demo_nested_item 3 9 (text_bytes ''3456789ab'')" "file_gives demo_disk 1 1 3 demo_nested_item 4 8 (text_bytes ''456789ab'')"
  by (simp_all add: file_gives_def demo_kinds cluster_bytes_def data_pos_def demo_bytes)

lemma demo_sizes: "item_size (demo_items ! 0) = 11" "item_flags (demo_items ! 0) old = 1"
  by (simp_all add: item_size_def item_flags_def load32_def demo_items_def demo_item_def text_bytes_def nth_append kernel_consts)

section \<open>The machine\<close>

text \<open>The string constants lie 64 bytes apart from \<open>0x7100\<close> on.\<close>

definition kernel_texts :: "string list" where
  "kernel_texts = [welcome_text, ''0:/my_file.txt'', ''r'', ''0:/my_dir/my_file2.txt'', ''We opened a root file!\<newline>'', ''Content:'', ''\<newline>'', ''Stat: '',
     ''Successful close of root file\<newline>'', ''We opened a directory file!\<newline>'', ''Successful close of directory file\<newline>'']"

definition text_index :: "string \<Rightarrow> nat" where
  "text_index str = length (takeWhile (\<lambda>x. x \<noteq> str) kernel_texts)"

definition sample_literal :: "string \<Rightarrow> u32" where
  "sample_literal str = 0x7100 + of_nat (64 * text_index str)"

definition kernel_mem :: mem where
  "kernel_mem a = (if 0x7100 \<le> unat a \<and> unat a < 0x73C0
     then (text_bytes (kernel_texts ! ((unat a - 0x7100) div 64)) @ replicate 64 0) ! ((unat a - 0x7100) mod 64) else boot_mem a)"

definition sample_buffer :: "string \<Rightarrow> u32" where
  "sample_buffer str = (if str = ''buf12'' then 0x500900 else if str = ''stat'' then 0x500920 else if str = ''fsizebuf'' then 0x500930
     else if str = ''fflagsbuf'' then 0x500940 else if str = ''buf10'' then 0x500950 else if str = ''buf2'' then 0x500960 else 0x500600)"

definition sample_kernel :: kernel_state where
  "sample_kernel = process_state.extend (file_state.extend (sample_machine\<lparr>mem := kernel_mem, device := sample_drive demo_disk\<rparr>) (process_state.fields 0 0x3A0000 0x400400))
     (kernel_state.fields 0 0x500400 0x500300 \<lparr>gdtr_size = 0, gdtr_base = 0\<rparr> 0 False False sample_literal sample_buffer)"

lemma sample_kernel_fields: "mem sample_kernel = kernel_mem" "device sample_kernel = sample_drive demo_disk"
  "primary_disk sample_kernel = 0x300000" "filesystems sample_kernel = 0x390000" "file_descriptors sample_kernel = 0x380000"
  "fat16_fs sample_kernel = 0x500000" "fat16_literal sample_kernel = 0x500200" "literal_r sample_kernel = 0x200"
  "item_local sample_kernel = 0x400000" "fat_entry_local sample_kernel = 0x400100" "filename_local sample_kernel = 0x400200"
  "fat16_open_address sample_kernel = 0x600000" "fat16_read_address sample_kernel = 0x600001" "fat16_seek_address sample_kernel = 0x600002"
  "fat16_stat_address sample_kernel = 0x600003" "fat16_close_address sample_kernel = 0x600004" "fat16_resolve_address sample_kernel = 0x600005"
  "gdt_real sample_kernel = 0x500300" "tss sample_kernel = 0x500400" "idt_descs sample_kernel = 0x200000" "literal sample_kernel = sample_literal"
  "local_buf sample_kernel = sample_buffer"
  by (simp_all add: sample_kernel_def sample_machine_def sample_files_def fat_state.extend_def file_state.fields_def disk_state.extend_def
      fat_state.fields_def sample_disk_def process_state.extend_def kernel_state.fields_def file_state.extend_def process_state.fields_def)

lemma kernel_mem_byte: "unat a < 0x7100 \<or> 0x73C0 \<le> unat a \<Longrightarrow> kernel_mem a = boot_mem a"
  by (auto simp: kernel_mem_def)

lemma kernel_mem_text:
  assumes "k < 11" and "cs = text_bytes (kernel_texts ! k)" and "length cs < 64" and "0 \<notin> set cs"
  shows "cstring kernel_mem (0x7100 + of_nat (64 * k)) cs"
proof -
  have b: "kernel_mem (0x7100 + of_nat (64 * k) + of_nat j) = (cs @ replicate 64 0) ! j" if "j < 64" for j
  proof -
    have "(0x7100 + of_nat (64 * k) + of_nat j :: u32) = of_nat (0x7100 + 64 * k + j)" by simp
    moreover have "unat (of_nat (0x7100 + 64 * k + j) :: u32) = 0x7100 + 64 * k + j" by (rule unat_of_nat32) (use assms(1) that in simp)
    ultimately have u: "unat (0x7100 + of_nat (64 * k) + of_nat j :: u32) = 0x7100 + 64 * k + j" by (simp only:)
    show ?thesis unfolding kernel_mem_def u using assms(1,2) that by simp
  qed
  have "load_bytes kernel_mem (0x7100 + of_nat (64 * k)) (length cs) = cs"
    by (rule nth_equalityI) (use b assms(3) in \<open>simp_all add: nth_append\<close>)
  then show ?thesis using b [of "length cs"] assms(3,4) by (simp add: cstring_def nth_append)
qed

lemma sample_text:
  assumes "str \<in> set kernel_texts"
  shows "cstring kernel_mem (sample_literal str) (text_bytes str)" and "region (sample_literal str) (Suc (length str)) \<subseteq> region 0x7100 0x2C0"
proof -
  let ?k = "text_index str"
  have n: "length kernel_texts = 11" by (simp add: kernel_texts_def)
  have "length (takeWhile (\<lambda>x. x \<noteq> str) xs) < length xs" if "str \<in> set xs" for xs using that by (induction xs) auto
  from this [OF assms] have k: "?k < 11" by (simp add: text_index_def n)
  then have e: "kernel_texts ! ?k = str" using nth_length_takeWhile [of "\<lambda>x. x \<noteq> str" kernel_texts] by (simp add: text_index_def n)
  have a: "length (text_bytes str) < 64" "0 \<notin> set (text_bytes str)" "length str < 64"
    using assms by (auto simp: kernel_texts_def text_bytes_def welcome_text_def)
  show "cstring kernel_mem (sample_literal str) (text_bytes str)"
    unfolding sample_literal_def by (rule kernel_mem_text) (use k a e in simp_all)
  have "64 * ?k + Suc (length str) \<le> 0x2C0" using k a(3) by simp
  then show "region (sample_literal str) (Suc (length str)) \<subseteq> region 0x7100 0x2C0"
    unfolding sample_literal_def by (rule region_shift)
qed

lemma sample_constants_apart:
  "region 0x7100 0x2C0 \<inter> (boot_writes 2 sample_kernel \<union> demo_region sample_kernel) = {}"
proof -
  have "region 0x7100 0x2C0 \<inter> boot_writes 2 sample_kernel = {}"
    by (simp add: boot_writes_def sample_kernel_fields sample_buffer_def fd_region_def fat_locals_def screen_region_def kheap_meta_def table_region_def
        heap_area_def kernel_consts file_fields) (auto simp: region_interval)
  moreover have "region 0x7100 0x2C0 \<inter> demo_region sample_kernel = {}"
    by (simp add: demo_region_def demo_regions_def sample_kernel_fields sample_buffer_def) (auto simp: region_interval)
  ultimately show ?thesis by blast
qed

lemma sample_kernel_linked: "kernel_linked sample_kernel"
proof -
  note f = sample_kernel_fields
  have w: "sample_literal welcome_text = 0x7100" by (simp add: sample_literal_def text_index_def kernel_texts_def)
  have "fat16_fs_initialised sample_kernel"
    by (simp add: fat16_fs_initialised_def f file_fields load32_def kernel_mem_byte) (simp add: boot_mem_def)
  moreover have "pairwise_apart (kernel_regions sample_kernel)"
    by (simp add: kernel_regions_def f fd_region_def fat_locals_def screen_region_def kheap_meta_def table_region_def heap_area_def kernel_consts)
      (auto simp: region_interval)
  moreover have "cstring kernel_mem 0x200 [0x72]" "cstring kernel_mem 0x500200 driver_name"
    by (simp_all add: cstring_Cons cstring_Nil kernel_mem_byte driver_name_def) (simp_all add: boot_mem_def)
  ultimately have "linked sample_kernel" by (simp add: linked_def f)
  moreover have "pairwise_apart (main_regions sample_kernel)"
    by (simp add: main_regions_def f w sample_buffer_def) (auto simp: region_interval)
  moreover have "list_all (\<lambda>x. list_all (\<lambda>y. x \<inter> y = {}) (kernel_regions sample_kernel)) (main_regions sample_kernel)"
    by (simp add: main_regions_def kernel_regions_def f w sample_buffer_def fd_region_def fat_locals_def screen_region_def kheap_meta_def table_region_def
        heap_area_def kernel_consts) (auto simp: region_interval)
  moreover have "cstring kernel_mem 0x7100 (text_bytes welcome_text)" using sample_text(1) [of welcome_text] w by (simp add: kernel_texts_def)
  ultimately show ?thesis by (simp add: kernel_linked_def f w)
qed

lemma sample_demo_linked: "demo_linked 2 sample_kernel"
proof -
  note f = sample_kernel_fields
  have w: "sample_literal welcome_text = 0x7100" by (simp add: sample_literal_def text_index_def kernel_texts_def)
  have "boot_low 2 sample_kernel"
    by (simp add: boot_low_def low_memory_free_def main_regions_def kernel_regions_def f w sample_buffer_def fd_region_def fat_locals_def
        screen_region_def kheap_meta_def table_region_def heap_area_def kernel_consts) (auto simp: region_interval)
  moreover have "pairwise_apart (demo_regions sample_kernel)"
    by (simp add: demo_regions_def f sample_buffer_def) (auto simp: region_interval)
  moreover have "list_all (\<lambda>x. list_all (\<lambda>y. x \<inter> y = {}) (region 0 (32 * 2) # main_regions sample_kernel @ kernel_regions sample_kernel)) (demo_regions sample_kernel)"
    by (simp add: main_regions_def kernel_regions_def demo_regions_def f w sample_buffer_def fd_region_def fat_locals_def screen_region_def kheap_meta_def
        table_region_def heap_area_def kernel_consts) (auto simp: region_interval)
  ultimately show ?thesis using sample_kernel_linked unfolding demo_linked_def by blast
qed

end
