(* ===== verification/Kernel_Demo.thy ===== *)
theory Kernel_Demo
  imports Kernel_Sample
begin

text \<open>
  The end of \<^verbatim>\<open>kernel_main\<close>: the two demonstration files. \<open>root_text\<close> and \<open>nested_text\<close> are what it prints about a file that it
  could open; \<open>root_shown\<close> and \<open>nested_shown\<close> are the outcomes, depending on what the disk holds. The lemmas run the two parts
  over the invariant of \<open>Kernel_Run\<close>; the theorem is about \<^verbatim>\<open>kernel_main\<close> as a whole.
\<close>

section \<open>Strings\<close>

definition newline_text :: string where
  "newline_text = ''\<newline>''"

definition demo_strings :: "string set" where
  "demo_strings = {''0:/my_file.txt'', ''r'', ''0:/my_dir/my_file2.txt'', ''We opened a root file!\<newline>'', ''Content:'', newline_text, ''Stat: '',
     ''Successful close of root file\<newline>'', ''We opened a directory file!\<newline>'', ''Successful close of directory file\<newline>''}"

text \<open>A string among the kernel's constants: \<^verbatim>\<open>kernel_main\<close> does not write there.\<close>

definition demo_text :: "nat \<Rightarrow> 'a kernel_state_scheme \<Rightarrow> string \<Rightarrow> bool" where
  "demo_text t s str \<longleftrightarrow> cstring (mem s) (literal s str) (text_bytes str)
     \<and> region (literal s str) (Suc (length str)) \<inter> demo_writes t s = {}"

lemma text_bytes_length [simp]: "length (text_bytes str) = length str"
  by (simp add: text_bytes_def)

lemma up_text:
  fixes s :: "'a kernel_state_scheme"
  assumes "kernel_up img rs spc e its A h s0 s" and "demo_text (length its) s0 str"
  shows "cstring (mem s) (literal s str) (text_bytes str)" and "region (literal s str) (Suc (length (text_bytes str))) \<inter> screen_region = {}"
    and "readable s (literal s str) (text_bytes str)"
proof -
  have l: "literal s str = literal s0 str" using kernel_upD(4) [OF assms(1)] by (simp add: same_main_def)
  have d: "region (literal s0 str) (Suc (length (text_bytes str))) \<inter> demo_writes (length its) s0 = {}" using assms(2) by (simp add: demo_text_def)
  show c: "cstring (mem s) (literal s str) (text_bytes str)"
    unfolding l by (rule cstring_frame [OF kernel_upD(6) [OF assms(1)] d]) (use assms(2) in \<open>simp add: demo_text_def\<close>)
  have w: "kheap_meta \<union> heap_area \<union> screen_region \<subseteq> demo_writes (length its) s0"
    using boot_writes_parts(1) [where t = "length its" and s = s0] unfolding demo_writes_def by blast
  then show "region (literal s str) (Suc (length (text_bytes str))) \<inter> screen_region = {}" unfolding l using d by blast
  have "heap_private s \<subseteq> kheap_meta \<union> heap_area" by (auto simp: heap_private_def)
  then show "readable s (literal s str) (text_bytes str)" using c d w unfolding readable_def l by blast
qed

lemma up_print:
  fixes s :: "'a kernel_state_scheme"
  assumes "demo_linked (length its) s0" and "kernel_up img rs spc e its A h s0 s" and "demo_text (length its) s0 str"
  obtains s' where "write_literal str s = Some s'" and "kernel_up img rs spc e its A h s0 s'" and "prints s0 {} (text_bytes str) s s'"
    and "\<forall>fd g x. open_fd s fd g x \<longrightarrow> open_fd s' fd g x"
  unfolding write_literal_def using up_write [OF assms(1,2) up_text(1,2) [OF assms(2,3)]] by metis

text \<open>What bytes in a buffer are as a string.\<close>

definition shown :: "u8 list \<Rightarrow> u8 list" where
  "shown ys = takeWhile (\<lambda>b. b \<noteq> 0) ys"

lemma cstring_shown:
  assumes "load_bytes m p n = ys" and "m (p + of_nat n) = 0" and "n < 2 ^ 32"
  shows "cstring m p (shown ys)"
proof -
  let ?k = "length (shown ys)"
  have n: "length ys = n" using assms(1) by auto
  have k: "?k \<le> n" using length_takeWhile_le [of "\<lambda>b. b \<noteq> 0" ys] by (simp add: shown_def n)
  have b: "m (p + of_nat i) = ys ! i" if "i < n" for i using arg_cong [OF assms(1), of "\<lambda>xs. xs ! i"] that by simp
  have "load_bytes m p ?k = shown ys"
    by (rule nth_equalityI) (use k b in \<open>auto simp: shown_def takeWhile_nth\<close>)
  moreover have "m (p + of_nat ?k) = 0"
  proof (cases "?k < n")
    case True
    then have "ys ! ?k = 0" using nth_length_takeWhile [of "\<lambda>b. b \<noteq> 0" ys] n by (simp add: shown_def)
    then show ?thesis using b [OF True] by simp
  next
    case False
    then show ?thesis using k assms(2) by simp
  qed
  moreover have "0 \<notin> set (shown ys)" using set_takeWhileD [of 0 "\<lambda>b. b \<noteq> 0" ys] by (auto simp: shown_def)
  ultimately show ?thesis using k assms(3) by (simp add: cstring_def)
qed

section \<open>Printing from a buffer\<close>

text \<open>Reading from the file into a buffer, ending what was read at \<open>k\<close>, and printing it.\<close>

lemma show_content:
  fixes s :: "'a kernel_state_scheme"
  assumes L: "demo_linked (length its) s0" and T: "\<forall>str \<in> demo_strings. demo_text (length its) s0 str"
    and F: "file_up img rs spc e its A h s0 fd f x s" and "file_gives img rs spc e (item_bytes f) x n ys" and ys: "length ys \<le> N" "k \<le> length ys" "k < N" "N < 2 ^ 32"
    and out: "region out N \<subseteq> demo_region s0"
  obtains s1 s2 s3 s4 where "fread out (of_nat n) 1 fd s = Some (0, s1)" and "write_literal ''Content:'' (s1\<lparr>mem := (mem s1)(out + of_nat k := 0)\<rparr>) = Some s2"
    and "terminal_write out s2 = Some s3" and "write_literal newline_text s3 = Some s4" and "file_up img rs spc e its A h s0 fd f x s4"
    and "prints s0 (region out N) (text_bytes ''Content:'' @ shown (take k ys) @ text_bytes newline_text) s s4"
    and "same_main s0 s1" and "same_main s0 s2" and "same_main s0 s3"
proof -
  have t: "demo_text (length its) s0 ''Content:''" "demo_text (length its) s0 newline_text" using T by (simp_all add: demo_strings_def)
  have ol: "region out (length ys) \<subseteq> region out N" by (rule region_mono [OF ys(1)])
  obtain s1 where 1: "fread out (of_nat n) 1 fd s = Some (0, s1)" "file_up img rs spc e its A h s0 fd f x s1" "prints s0 (region out (length ys)) [] s s1"
    "load_bytes (mem s1) out (length ys) = ys" by (rule up_read [OF L F assms(4)]) (use ol out in blast)
  let ?m = "(mem s1)(out + of_nat k := 0)" and ?a = "out + of_nat k"
  have a: "?a \<in> region out N" using of_nat_offset_mem [of k N out] ys by simp
  have f: "same_outside {?a} (mem s1) ?m" by (simp add: same_outside_def)
  have ad: "{?a} \<subseteq> demo_region s0" using a out by blast
  note F1 = file_upD [OF 1(2)] and st = up_store [OF L file_upD(1) [OF 1(2)] ad f]
  have tk: "load_bytes ?m out k = take k ys"
  proof (rule nth_equalityI)
    fix i assume "i < length (load_bytes ?m out k)"
    then have i: "i < k" by simp
    have "(of_nat i :: u32) \<noteq> of_nat k" using of_nat32_eq [of i k] i ys by simp
    then show "load_bytes ?m out k ! i = take k ys ! i" using i ys(2) arg_cong [OF 1(4), of "\<lambda>xs. xs ! i"] by simp
  qed (use ys(2) in simp)
  obtain s2 where 2: "write_literal ''Content:'' (s1\<lparr>mem := ?m\<rparr>) = Some s2" "kernel_up img rs spc e its A h s0 s2" "prints s0 {} (text_bytes ''Content:'') (s1\<lparr>mem := ?m\<rparr>) s2"
    "\<forall>fd g x. open_fd (s1\<lparr>mem := ?m\<rparr>) fd g x \<longrightarrow> open_fd s2 fd g x" by (rule up_print [OF L st(1) t(1)])
  have "load_bytes (mem s2) out k = take k ys" using prints_load [OF 2(3), of out k] tk region_mono [of k N out] ys out by simp
  moreover have "mem s2 ?a = 0" using 2(3) ad by (auto simp: prints_def same_outside_def)
  ultimately have cs: "cstring (mem s2) out (shown (take k ys))" using ys by (intro cstring_shown [of _ _ k]) simp_all
  have "length (shown (take k ys)) \<le> k" using length_takeWhile_le [of "\<lambda>b. b \<noteq> 0" "take k ys"] by (simp add: shown_def)
  then have "region out (Suc (length (shown (take k ys)))) \<subseteq> region out N" using ys by (intro region_mono) simp
  then have off: "region out (Suc (length (shown (take k ys)))) \<inter> screen_region = {}" using out up_apart(2) [OF L 2(2)] by blast
  obtain s3 where 3: "terminal_write out s2 = Some s3" "kernel_up img rs spc e its A h s0 s3" "prints s0 {} (shown (take k ys)) s2 s3"
    "\<forall>fd g x. open_fd s2 fd g x \<longrightarrow> open_fd s3 fd g x" by (rule up_write [OF L 2(2) cs off])
  obtain s4 where 4: "write_literal newline_text s3 = Some s4" "kernel_up img rs spc e its A h s0 s4" "prints s0 {} (text_bytes newline_text) s3 s4"
    "\<forall>fd g x. open_fd s3 fd g x \<longrightarrow> open_fd s4 fd g x" by (rule up_print [OF L 3(2) t(2)])
  have "file_up img rs spc e its A h s0 fd f x s4" using 2(4) 3(4) 4(2,4) st(3) F1(2,3) by (simp add: file_up_def)
  moreover have "prints s0 (region out N) (text_bytes ''Content:'' @ shown (take k ys) @ text_bytes newline_text) s s4"
    using prints_trans [OF prints_trans [OF prints_trans [OF prints_trans [OF 1(3) st(2)] 2(3)] 3(3)] 4(3)]
    by (rule prints_mono) (use ol a in auto)
  ultimately show ?thesis using that [OF 1(1) 2(1) 3(1) 4(1)] kernel_upD(4) [OF F1(1)] kernel_upD(4) [OF 2(2)] kernel_upD(4) [OF 3(2)] by simp
qed

text \<open>Printing a number that fits into its buffer of three bytes.\<close>

lemma show_number:
  fixes s :: "'a kernel_state_scheme"
  assumes L: "demo_linked (length its) s0" and T: "\<forall>str \<in> demo_strings. demo_text (length its) s0 str"
    and F: "file_up img rs spc e its A h s0 fd f x s" and v: "0 < unat v" "unat v < 100" and out: "region buf 3 \<subseteq> demo_region s0"
  obtains m s1 s2 where "itoa (mem s) v buf 10 = (buf, m)" and "terminal_write buf (s\<lparr>mem := m\<rparr>) = Some s1" and "write_literal newline_text s1 = Some s2"
    and "file_up img rs spc e its A h s0 fd f x s2" and "prints s0 (region buf 3) (decimal (unat v) @ text_bytes newline_text) s s2" and "same_main s0 s1"
proof -
  note F' = file_upD [OF F]
  have t: "demo_text (length its) s0 newline_text" using T by (simp add: demo_strings_def)
  let ?ds = "decimal (unat v)" and ?m = "write_bytes (mem s) buf (decimal (unat v) @ [0])"
  have l2: "length ?ds \<le> 2" using v(2) by (intro decimal_length) simp
  have "nonneg v" using v by (simp add: nonneg_unat)
  moreover have "v \<noteq> 0" using v by auto
  ultimately have i: "itoa (mem s) v buf 10 = (buf, ?m)" by (rule itoa_positive)
  have r3: "region buf (length (?ds @ [0])) \<subseteq> region buf 3" using l2 by (intro region_mono) simp
  then have W: "region buf (length (?ds @ [0])) \<subseteq> demo_region s0" using out by blast
  note st = up_store [OF L F'(1) W write_bytes_outside]
  have "0 \<notin> set ?ds" using decimal_digits [of 0 "unat v"] by auto
  then have c: "cstring (mem (s\<lparr>mem := ?m\<rparr>)) buf ?ds" using cstring_write [of ?ds "mem s" buf] l2 by simp
  have "region buf (Suc (length ?ds)) \<inter> screen_region = {}" using W up_apart(2) [OF L F'(1)] by auto
  from up_write [OF L st(1) c this] obtain s1 where 1: "terminal_write buf (s\<lparr>mem := ?m\<rparr>) = Some s1" "kernel_up img rs spc e its A h s0 s1"
    "prints s0 {} ?ds (s\<lparr>mem := ?m\<rparr>) s1" "\<forall>fd g x. open_fd (s\<lparr>mem := ?m\<rparr>) fd g x \<longrightarrow> open_fd s1 fd g x" by blast
  obtain s2 where 2: "write_literal newline_text s1 = Some s2" "kernel_up img rs spc e its A h s0 s2" "prints s0 {} (text_bytes newline_text) s1 s2"
    "\<forall>fd g x. open_fd s1 fd g x \<longrightarrow> open_fd s2 fd g x" by (rule up_print [OF L 1(2) t])
  have "file_up img rs spc e its A h s0 fd f x s2" using 1(4) 2(2,4) st(3) F'(2,3) by (simp add: file_up_def)
  moreover have "prints s0 (region buf 3) (?ds @ text_bytes newline_text) s s2"
    using prints_trans [OF prints_trans [OF st(2) 1(3)] 2(3)] by (rule prints_mono) (use r3 in auto)
  ultimately show ?thesis using that [OF i 1(1) 2(1)] kernel_upD(4) [OF 1(2)] by blast
qed

text \<open>From 100 on a number does not fit: its last digit or its terminator goes beyond the buffer.\<close>

lemma number_beyond_buffer:
  assumes "nonneg v" and "100 \<le> unat v"
  shows "\<exists>m'. itoa m v buf 10 = (buf, m') \<and> load_bytes m' buf (length (decimal (unat v) @ [0])) = decimal (unat v) @ [0]
    \<and> 3 < length (decimal (unat v) @ [0])"
proof -
  have "\<not> length (decimal (unat v)) \<le> 2"
  proof
    assume l: "length (decimal (unat v)) \<le> 2"
    have "unat v < 10 ^ length (decimal (unat v))" by (rule decimal_bound)
    also have "\<dots> \<le> 10 ^ 2" by (rule power_increasing [OF l]) simp
    finally show False using assms(2) by simp
  qed
  moreover have "v \<noteq> 0" using assms(2) by auto
  moreover have "length (decimal (unat v) @ [0]) < 2 ^ 32" using decimal_length_u32 [of v] by simp
  ultimately show ?thesis using itoa_positive [OF assms(1), of m buf] load_write_bytes [of "decimal (unat v) @ [0]" m buf] by simp
qed

lemma show_text:
  fixes s :: "'a kernel_state_scheme"
  assumes "demo_linked (length its) s0" and "\<forall>str \<in> demo_strings. demo_text (length its) s0 str" and "file_up img rs spc e its A h s0 fd f x s" and "str \<in> demo_strings"
  obtains s' where "write_literal str s = Some s'" and "file_up img rs spc e its A h s0 fd f x s'" and "prints s0 {} (text_bytes str) s s'"
proof -
  note F = file_upD [OF assms(3)]
  obtain s' where s': "write_literal str s = Some s'" "kernel_up img rs spc e its A h s0 s'" "prints s0 {} (text_bytes str) s s'"
    "\<forall>fd g x. open_fd s fd g x \<longrightarrow> open_fd s' fd g x" by (rule up_print [OF assms(1) F(1) bspec [OF assms(2,4)]])
  show ?thesis by (rule that [OF s'(1) _ s'(3)]) (use s'(2,4) F(2,3) in \<open>simp add: file_up_def\<close>)
qed

text \<open>Closing, and the message about it.\<close>

lemma show_closed:
  fixes s :: "'a kernel_state_scheme"
  assumes "demo_linked (length its) s0" and "\<forall>str \<in> demo_strings. demo_text (length its) s0 str" and "file_up img rs spc e its A h s0 fd f x s" and "str \<in> demo_strings"
  obtains s1 s' where "fclose fd s = Some (0, s1)" and "write_literal str s1 = Some s'" and "kernel_up img rs spc e its A h s0 s'" and "prints s0 {} (text_bytes str) s s'"
proof -
  obtain s1 where 1: "fclose fd s = Some (0, s1)" "kernel_up img rs spc e its A h s0 s1" "prints s0 {} [] s s1" by (rule up_close [OF assms(1,3)])
  obtain s' where 2: "write_literal str s1 = Some s'" "kernel_up img rs spc e its A h s0 s'" "prints s0 {} (text_bytes str) s1 s'"
    by (rule up_print [OF assms(1) 1(2) bspec [OF assms(2,4)]]) blast
  show ?thesis by (rule that [OF 1(1) 2(1,2)]) (use prints_trans [OF 1(3) 2(3)] in simp)
qed

section \<open>The two parts\<close>

definition root_text :: "u8 list \<Rightarrow> u32 \<Rightarrow> u32 \<Rightarrow> u8 list" where
  "root_text ys sz flags = text_bytes ''We opened a root file!\<newline>'' @ text_bytes ''Content:'' @ shown ys @ text_bytes newline_text
     @ text_bytes ''Stat: '' @ decimal (unat sz) @ text_bytes newline_text @ decimal (unat flags) @ text_bytes newline_text
     @ text_bytes ''Successful close of root file\<newline>''"

definition nested_text :: "u8 list \<Rightarrow> u8 list \<Rightarrow> u8 list" where
  "nested_text ys zs = text_bytes ''We opened a directory file!\<newline>'' @ text_bytes ''Content:'' @ shown ys @ text_bytes newline_text
     @ text_bytes ''Content:'' @ shown zs @ text_bytes newline_text @ text_bytes ''Successful close of directory file\<newline>''"

lemma demo_buffers:
  fixes s :: "'a kernel_state_scheme"
  shows "region (local_buf s ''buf12'') 12 \<subseteq> demo_region s" and "region (local_buf s ''stat'') 8 \<subseteq> demo_region s"
    and "region (local_buf s ''fsizebuf'') 3 \<subseteq> demo_region s" and "region (local_buf s ''fflagsbuf'') 3 \<subseteq> demo_region s"
    and "region (local_buf s ''buf10'') 10 \<subseteq> demo_region s" and "region (local_buf s ''buf2'') 8 \<subseteq> demo_region s"
  by (auto simp: demo_region_def demo_regions_def)

lemma prints_stat:
  assumes "prints s0 W cs s s'" and "region st 8 \<subseteq> demo_region s0" and "region st 8 \<inter> W = {}"
  shows "load32 (mem s') (stat_flags st) = load32 (mem s) (stat_flags st)" and "load32 (mem s') (stat_filesize st) = load32 (mem s) (stat_filesize st)"
proof -
  have "load32 (mem s') p = load32 (mem s) p" if "region p 4 \<subseteq> region st 8" for p
    using that assms by (intro load32_frame [of "- demo_region s0 \<union> W"]) (auto simp: prints_def)
  then show "load32 (mem s') (stat_flags st) = load32 (mem s) (stat_flags st)" "load32 (mem s') (stat_filesize st) = load32 (mem s) (stat_filesize st)"
    using region_mono [of 4 8 st] region_shift [of 4 4 8 st] by (simp_all add: file_fields)
qed

lemma show_root_file_ok:
  fixes s :: "'a kernel_state_scheme"
  assumes L: "demo_linked (length its) s0" and T: "\<forall>str \<in> demo_strings. demo_text (length its) s0 str"
    and F: "file_up img rs spc e its A h s0 fd f 0 s" and g: "file_gives img rs spc e (item_bytes f) 0 11 ys" "length ys = 11"
    and sz: "0 < unat (item_size (item_bytes f))" "unat (item_size (item_bytes f)) < 100"
    and fl: "flags = item_flags (item_bytes f) (load32 (mem s) (stat_flags (local_buf s0 ''stat'')))" "0 < unat flags" "unat flags < 100"
  obtains s' where "show_root_file fd s = Some s'" and "kernel_up img rs spc e its A h s0 s'" and "prints s0 (demo_region s0) (root_text ys (item_size (item_bytes f)) flags) s s'"
proof -
  let ?b = "local_buf s0 ''buf12''" and ?st = "local_buf s0 ''stat''" and ?fs = "local_buf s0 ''fsizebuf''" and ?ff = "local_buf s0 ''fflagsbuf''"
  note db = demo_buffers [of s0]
  have ap: "region ?st 8 \<inter> region ?b 12 = {}" "region ?st 8 \<inter> region ?fs 3 = {}"
    using L unfolding demo_linked_def demo_regions_def by (auto simp: Int_commute)
  have strs: "''We opened a root file!\<newline>'' \<in> demo_strings" "''Stat: '' \<in> demo_strings" "''Successful close of root file\<newline>'' \<in> demo_strings"
    by (simp_all add: demo_strings_def)
  obtain s1 where 1: "write_literal ''We opened a root file!\<newline>'' s = Some s1" "file_up img rs spc e its A h s0 fd f 0 s1"
    "prints s0 {} (text_bytes ''We opened a root file!\<newline>'') s s1" by (rule show_text [OF L T F strs(1)])
  have len: "length ys \<le> 12" "11 \<le> length ys" "(11 :: nat) < 12" "(12 :: nat) < 2 ^ 32" using g(2) by simp_all
  obtain a1 a2 a3 s2 where 2: "fread ?b (of_nat 11) 1 fd s1 = Some (0, a1)" "write_literal ''Content:'' (a1\<lparr>mem := (mem a1)(?b + of_nat 11 := 0)\<rparr>) = Some a2"
    "terminal_write ?b a2 = Some a3" "write_literal newline_text a3 = Some s2" "file_up img rs spc e its A h s0 fd f 0 s2"
    "prints s0 (region ?b 12) (text_bytes ''Content:'' @ shown (take 11 ys) @ text_bytes newline_text) s1 s2"
    "same_main s0 a1" "same_main s0 a2" "same_main s0 a3" by (rule show_content [OF L T 1(2) g(1) len db(1)])
  obtain s3 where 3: "fstat fd ?st s2 = Some (0, s3)" "file_up img rs spc e its A h s0 fd f 0 s3" "prints s0 (region ?st 8) [] s2 s3"
    "load32 (mem s3) (stat_filesize ?st) = item_size (item_bytes f)" "load32 (mem s3) (stat_flags ?st) = item_flags (item_bytes f) (load32 (mem s2) (stat_flags ?st))"
    by (rule up_stat [OF L 2(5) db(2)])
  obtain s4 where 4: "write_literal ''Stat: '' s3 = Some s4" "file_up img rs spc e its A h s0 fd f 0 s4" "prints s0 {} (text_bytes ''Stat: '') s3 s4"
    by (rule show_text [OF L T 3(2) strs(2)])
  obtain m5 b5 s5 where 5: "itoa (mem s4) (item_size (item_bytes f)) ?fs 10 = (?fs, m5)" "terminal_write ?fs (s4\<lparr>mem := m5\<rparr>) = Some b5"
    "write_literal newline_text b5 = Some s5" "file_up img rs spc e its A h s0 fd f 0 s5"
    "prints s0 (region ?fs 3) (decimal (unat (item_size (item_bytes f))) @ text_bytes newline_text) s4 s5" "same_main s0 b5"
    by (rule show_number [OF L T 4(2) sz db(3)])
  obtain m6 b6 s6 where 6: "itoa (mem s5) flags ?ff 10 = (?ff, m6)" "terminal_write ?ff (s5\<lparr>mem := m6\<rparr>) = Some b6" "write_literal newline_text b6 = Some s6"
    "file_up img rs spc e its A h s0 fd f 0 s6" "prints s0 (region ?ff 3) (decimal (unat flags) @ text_bytes newline_text) s5 s6" "same_main s0 b6"
    by (rule show_number [OF L T 5(4) fl(2,3) db(4)])
  obtain c7 s7 where 7: "fclose fd s6 = Some (0, c7)" "write_literal ''Successful close of root file\<newline>'' c7 = Some s7" "kernel_up img rs spc e its A h s0 s7"
    "prints s0 {} (text_bytes ''Successful close of root file\<newline>'') s6 s7" by (rule show_closed [OF L T 6(4) strs(3)])
  have lb: "local_buf s1 = local_buf s0" "local_buf a1 = local_buf s0" "local_buf a2 = local_buf s0" "local_buf s2 = local_buf s0" "local_buf s4 = local_buf s0" "local_buf s5 = local_buf s0"
    using kernel_upD(4) [OF file_upD(1) [OF 1(2)]] kernel_upD(4) [OF file_upD(1) [OF 2(5)]] kernel_upD(4) [OF file_upD(1) [OF 4(2)]] kernel_upD(4) [OF file_upD(1) [OF 5(4)]] 2(7,8)
    by (simp_all add: same_main_def)
  have v4: "load32 (mem s4) (stat_filesize ?st) = item_size (item_bytes f)"
    using prints_stat(2) [OF 4(3) db(2)] 3(4) by simp
  have v5: "load32 (mem s5) (stat_flags ?st) = flags"
    using prints_stat(1) [OF 1(3) db(2)] prints_stat(1) [OF 2(6) db(2) ap(1)] prints_stat(1) [OF 4(3) db(2)] prints_stat(1) [OF 5(5) db(2) ap(2)] 3(5) fl(1)
    by simp
  have run: "show_root_file fd s = Some s7"
    using 1(1) 2(1-4) 3(1) 4(1) 5(1-3) 6(1-3) 7(1,2) v4 v5 lb by (simp add: show_root_file_def newline_text_def)
  have "prints s0 (demo_region s0) (root_text ys (item_size (item_bytes f)) flags) s s7"
    using prints_trans [OF prints_trans [OF prints_trans [OF prints_trans [OF prints_trans [OF prints_trans [OF 1(3) 2(6)] 3(3)] 4(3)] 5(5)] 6(5)] 7(4)]
    by (rule prints_mono) (use db g(2) in \<open>auto simp: root_text_def\<close>)
  then show ?thesis by (rule that [OF run 7(3)])
qed

lemma show_directory_file_ok:
  fixes s :: "'a kernel_state_scheme"
  assumes L: "demo_linked (length its) s0" and T: "\<forall>str \<in> demo_strings. demo_text (length its) s0 str"
    and F: "file_up img rs spc e its A h s0 fd f 0 s" and g: "file_gives img rs spc e (item_bytes f) 3 9 ys" "length ys = 9"
    and g2: "file_gives img rs spc e (item_bytes f) 4 8 zs" "length zs = 8"
  obtains s' where "show_directory_file fd s = Some s'" and "kernel_up img rs spc e its A h s0 s'" and "prints s0 (demo_region s0) (nested_text ys (take 7 zs)) s s'"
proof -
  let ?b = "local_buf s0 ''buf10''" and ?c = "local_buf s0 ''buf2''"
  note db = demo_buffers [of s0]
  have strs: "''We opened a directory file!\<newline>'' \<in> demo_strings" "''Successful close of directory file\<newline>'' \<in> demo_strings"
    by (simp_all add: demo_strings_def)
  obtain s1 where 1: "write_literal ''We opened a directory file!\<newline>'' s = Some s1" "file_up img rs spc e its A h s0 fd f 0 s1"
    "prints s0 {} (text_bytes ''We opened a directory file!\<newline>'') s s1" by (rule show_text [OF L T F strs(1)])
  obtain s2 where 2: "fseek fd (of_nat 3) SEEK_SET s1 = Some (0, s2)" "file_up img rs spc e its A h s0 fd f 3 s2" "prints s0 {} [] s1 s2"
    by (rule up_seek [OF L 1(2)])
  have len: "length ys \<le> 10" "9 \<le> length ys" "(9 :: nat) < 10" "(10 :: nat) < 2 ^ 32" "length zs \<le> 8" "7 \<le> length zs" "(7 :: nat) < 8" "(8 :: nat) < 2 ^ 32"
    using g(2) g2(2) by simp_all
  obtain a1 a2 a3 s3 where 3: "fread ?b (of_nat 9) 1 fd s2 = Some (0, a1)" "write_literal ''Content:'' (a1\<lparr>mem := (mem a1)(?b + of_nat 9 := 0)\<rparr>) = Some a2"
    "terminal_write ?b a2 = Some a3" "write_literal newline_text a3 = Some s3" "file_up img rs spc e its A h s0 fd f 3 s3"
    "prints s0 (region ?b 10) (text_bytes ''Content:'' @ shown (take 9 ys) @ text_bytes newline_text) s2 s3"
    "same_main s0 a1" "same_main s0 a2" "same_main s0 a3" by (rule show_content [OF L T 2(2) g(1) len(1-4) db(5)])
  obtain s4 where 4: "fseek fd (of_nat 1) SEEK_CURRENT s3 = Some (0, s4)" "file_up img rs spc e its A h s0 fd f (3 + 1) s4" "prints s0 {} [] s3 s4"
    by (rule up_seek_current [OF L 3(5)])
  have F4: "file_up img rs spc e its A h s0 fd f 4 s4" using 4(2) by simp
  obtain b1 b2 b3 s5 where 5: "fread ?c (of_nat 8) 1 fd s4 = Some (0, b1)" "write_literal ''Content:'' (b1\<lparr>mem := (mem b1)(?c + of_nat 7 := 0)\<rparr>) = Some b2"
    "terminal_write ?c b2 = Some b3" "write_literal newline_text b3 = Some s5" "file_up img rs spc e its A h s0 fd f 4 s5"
    "prints s0 (region ?c 8) (text_bytes ''Content:'' @ shown (take 7 zs) @ text_bytes newline_text) s4 s5"
    "same_main s0 b1" "same_main s0 b2" "same_main s0 b3" by (rule show_content [OF L T F4 g2(1) len(5-8) db(6)])
  obtain c6 s6 where 6: "fclose fd s5 = Some (0, c6)" "write_literal ''Successful close of directory file\<newline>'' c6 = Some s6" "kernel_up img rs spc e its A h s0 s6"
    "prints s0 {} (text_bytes ''Successful close of directory file\<newline>'') s5 s6" by (rule show_closed [OF L T 5(5) strs(2)])
  have lb: "local_buf s2 = local_buf s0" "local_buf s4 = local_buf s0" "local_buf a1 = local_buf s0" "local_buf a2 = local_buf s0" "local_buf b1 = local_buf s0" "local_buf b2 = local_buf s0"
    using kernel_upD(4) [OF file_upD(1) [OF 2(2)]] kernel_upD(4) [OF file_upD(1) [OF F4]] 3(7,8) 5(7,8) by (simp_all add: same_main_def)
  have run: "show_directory_file fd s = Some s6"
    using 1(1) 2(1) 3(1-4) 4(1) 5(1-4) 6(1,2) lb by (simp add: show_directory_file_def newline_text_def)
  have "prints s0 (demo_region s0) (nested_text ys (take 7 zs)) s s6"
    using prints_trans [OF prints_trans [OF prints_trans [OF prints_trans [OF prints_trans [OF 1(3) 2(3)] 3(6)] 4(3)] 5(6)] 6(4)]
    by (rule prints_mono) (use db g(2) in \<open>auto simp: nested_text_def\<close>)
  then show ?thesis by (rule that [OF run 6(3)])
qed

section \<open>What the disk holds\<close>

text \<open>The outcomes for the two files: the text printed and the number of files opened. The sizes and flags are those that fit into
  the buffers of three bytes; \<open>old\<close> is what the stack holds where \<^verbatim>\<open>stat.flags\<close> lies, which only a read-only file sets.\<close>

inductive root_shown :: "image \<Rightarrow> nat \<Rightarrow> nat \<Rightarrow> nat \<Rightarrow> u8 list list \<Rightarrow> u32 \<Rightarrow> u8 list \<Rightarrow> nat \<Rightarrow> bool" for img rs spc e its old where
  root_absent: "find_name (text_bytes ''my_file.txt'') its = None \<Longrightarrow> root_shown img rs spc e its old [] 0"
| root_present: "walks img spc e its [text_bytes ''my_file.txt''] bs w \<Longrightarrow> file_gives img rs spc e bs 0 11 ys \<Longrightarrow> length ys = 11
    \<Longrightarrow> 0 < unat (item_size bs) \<Longrightarrow> unat (item_size bs) < 100 \<Longrightarrow> 0 < unat (item_flags bs old) \<Longrightarrow> unat (item_flags bs old) < 100
    \<Longrightarrow> root_shown img rs spc e its old (root_text ys (item_size bs) (item_flags bs old)) 1"

inductive nested_shown :: "image \<Rightarrow> nat \<Rightarrow> nat \<Rightarrow> nat \<Rightarrow> u8 list list \<Rightarrow> u8 list \<Rightarrow> nat \<Rightarrow> bool" for img rs spc e its where
  nested_absent: "breaks img spc e its [text_bytes ''my_dir'', text_bytes ''my_file2.txt''] w \<Longrightarrow> w \<le> 1000
    \<Longrightarrow> (0 < w \<longrightarrow> its \<noteq> [] \<and> load32 (\<lambda>a. hd its ! unat a) 4 \<noteq> FAT_ITEM_TYPE_DIRECTORY) \<Longrightarrow> nested_shown img rs spc e its [] 0"
| nested_present: "walks img spc e its [text_bytes ''my_dir'', text_bytes ''my_file2.txt''] bs w \<Longrightarrow> w \<le> 1000
    \<Longrightarrow> file_gives img rs spc e bs 3 9 ys \<Longrightarrow> length ys = 9 \<Longrightarrow> file_gives img rs spc e bs 4 8 zs \<Longrightarrow> length zs = 8
    \<Longrightarrow> nested_shown img rs spc e its (nested_text ys (take 7 zs)) 1"

lemma demo_paths:
  "good_path (text_bytes ''0:/my_file.txt'')" "path_drive (text_bytes ''0:/my_file.txt'') = 0"
  "path_parts (drop 3 (text_bytes ''0:/my_file.txt'')) = [text_bytes ''my_file.txt'']" "path_need (text_bytes ''0:/my_file.txt'') = 3"
  "good_path (text_bytes ''0:/my_dir/my_file2.txt'')" "path_drive (text_bytes ''0:/my_dir/my_file2.txt'') = 0"
  "path_parts (drop 3 (text_bytes ''0:/my_dir/my_file2.txt'')) = [text_bytes ''my_dir'', text_bytes ''my_file2.txt'']"
  "path_need (text_bytes ''0:/my_dir/my_file2.txt'') = 5"
proof -
  show p: "path_parts (drop 3 (text_bytes ''0:/my_file.txt'')) = [text_bytes ''my_file.txt'']"
    using path_parts_join [of "[text_bytes ''my_file.txt'']"] by (simp add: text_bytes_def)
  show q: "path_parts (drop 3 (text_bytes ''0:/my_dir/my_file2.txt'')) = [text_bytes ''my_dir'', text_bytes ''my_file2.txt'']"
    using path_parts_join [of "[text_bytes ''my_dir'', text_bytes ''my_file2.txt'']"] by (simp add: text_bytes_def)
  show "good_path (text_bytes ''0:/my_file.txt'')" "good_path (text_bytes ''0:/my_dir/my_file2.txt'')"
    unfolding good_path_def p q by (simp_all add: text_bytes_def)
  show "path_drive (text_bytes ''0:/my_file.txt'') = 0" "path_drive (text_bytes ''0:/my_dir/my_file2.txt'') = 0"
    by (simp_all add: path_drive_def text_bytes_def)
  show "path_need (text_bytes ''0:/my_file.txt'') = 3" "path_need (text_bytes ''0:/my_dir/my_file2.txt'') = 5"
    unfolding path_need_def p q by (simp_all add: name_need_def blocks_for_def text_bytes_def)
qed

section \<open>From the calls of fopen to the end\<close>

definition slots :: "(nat \<Rightarrow> bool) \<Rightarrow> nat \<Rightarrow> 'a file_state_scheme \<Rightarrow> bool" where
  "slots P n s \<longleftrightarrow> (\<forall>i < 512. fd_table s ! i \<noteq> 0 \<longleftrightarrow> i < n \<or> 4 \<le> i \<and> P i)"

lemma slots_next:
  assumes "slots P n s" and "n < 4"
  shows "find (\<lambda>i. fd_table s ! i = 0) [0..<512] = Some n"
    and "fd_table s' = (fd_table s)[n := d] \<Longrightarrow> d \<noteq> 0 \<Longrightarrow> slots P (Suc n) s'"
proof -
  have z: "fd_table s ! n = 0" using assms(1) [unfolded slots_def, rule_format, of n] assms(2) by simp
  then show "find (\<lambda>i. fd_table s ! i = 0) [0..<512] = Some n"
    using assms(1) [unfolded slots_def, rule_format] assms(2) unfolding find_Some_iff by (intro exI [of _ n]) simp
  show "slots P (Suc n) s'" if "fd_table s' = (fd_table s)[n := d]" "d \<noteq> 0"
    using assms that unfolding slots_def by (auto simp: nth_list_update less_Suc_eq)
qed

text \<open>The word at address 4 is part of the name of the first item of the root directory.\<close>

lemma null_item_up:
  fixes s :: "'a kernel_state_scheme"
  assumes "kernel_up img rs spc e its A h s0 s" and "its \<noteq> []" and "load32 (\<lambda>a. hd its ! unat a) 4 \<noteq> FAT_ITEM_TYPE_DIRECTORY"
  shows "null_item_typed s"
proof -
  note u = kernel_upD [OF assms(1)]
  let ?q = "load32 (mem s) (directory_item (private_root_directory (fat_private_of s)))" and ?n = "32 * length its"
  have ri: "length its < 2 ^ 26" "dir_items (mem s) ?q (length its) = its" using vfs_readyD(2) [OF u(7)] by (simp_all add: root_items_def Let_def)
  have r: "region ?q ?n = region 0 ?n" using u(5) by (simp add: root_area_def)
  have n: "0 < ?n" "?n < 2 ^ 31" using assms(2) ri(1) by simp_all
  have "?q = 0"
  proof (rule ccontr)
    assume q: "?q \<noteq> 0"
    have "?q \<in> region 0 ?n" "0 \<in> region ?q ?n" using r n(1) base_mem_region [of ?q ?n] base_mem_region [of 0 ?n] by blast+
    then have l: "unat ?q < ?n" "unat (- ?q) < ?n" by (simp_all add: mem_region)
    have "(unat ?q + unat (- ?q)) mod 2 ^ 32 = unat (?q + - ?q)" by (simp only: unat_word_ariths) simp
    then have "unat ?q + unat (- ?q) = 0" using l n(2) by simp
    then show False using q by (simp add: word_unat_eq_iff)
  qed
  then have "dir_items (mem s) 0 (length its) = its" using ri(2) by simp
  moreover have "dir_items (mem s) 0 (length its) ! 0 = load_bytes (mem s) 0 32" using assms(2) by (simp add: dir_items_def)
  ultimately have "hd its = load_bytes (mem s) 0 32" using assms(2) by (simp add: hd_conv_nth)
  then have b: "mem s (of_nat i) = hd its ! i" if "i < 32" for i using that by simp
  have "load32 (mem s) 4 = load32 (\<lambda>a. hd its ! unat a) 4"
    using b [of 4] b [of 5] b [of 6] b [of 7] by (simp add: load32_def)
  moreover have "region 4 4 \<subseteq> (region 0 ?n :: u32 set)" using region_shift [of 4 4 ?n 0] assms(2) by (cases its) simp_all
  then have "region 4 4 \<inter> (fat_locals s \<union> fat_area s \<union> heap_private s) = {}" using vfs_ready_apart [OF u(7)] unfolding u(5) by blast
  ultimately show ?thesis using assms(3) by (simp add: null_item_typed_def)
qed

lemma eio_negative: "\<not> 0 \<le>s - EIO"
  by (simp add: kernel_consts word_sle_eq)

lemma number_positive: "j < 4 \<Longrightarrow> 0 \<le>s (of_nat j :: u32)"
  by (simp add: word_sle_eq sint_of_nat32)

lemma demo_root:
  fixes s :: "'a kernel_state_scheme"
  assumes L: "demo_linked (length its) s0" and T: "\<forall>str \<in> demo_strings. demo_text (length its) s0 str" and K: "kernel_up img rs spc e its A h s0 s"
    and sl: "slots P 0 s" and sh: "root_shown img rs spc e its (load32 (mem s) (stat_flags (local_buf s0 ''stat''))) txt n" and cap: "kheap_cap s (7 + Suc c)"
  obtains fd s1 s' where "fopen (literal s ''0:/my_file.txt'') (literal s ''r'') s = Some (fd, s1)" and "(if 0 \<le>s fd then show_root_file fd s1 else Some s1) = Some s'"
    and "kernel_up img rs spc e its A h s0 s'" and "screen_of s' = fold put_char txt (screen_of s)" and "kheap_cap s' (Suc c)" and "slots P n s'" and "n \<le> 1"
proof -
  have t: "demo_text (length its) s0 ''0:/my_file.txt''" "demo_text (length its) s0 ''r''" using T by (simp_all add: demo_strings_def)
  have tr: "text_bytes ''r'' = [0x72]" by (simp add: text_bytes_def)
  note rd = up_text(3) [OF K t(1)] up_text(3) [OF K t(2), unfolded tr]
  have m: "[0x72 :: u8] \<noteq> []" "0x72 \<le>s hd [0x72 :: u8]" by simp_all
  show ?thesis using sh
  proof cases
    case root_absent
    have b: "breaks img spc e its (path_parts (drop 3 (text_bytes ''0:/my_file.txt''))) 0" unfolding demo_paths(3) by (rule breaks_missing [OF root_absent(3)])
    have "kheap_cap s (path_need (text_bytes ''0:/my_file.txt'') + Suc (0 + Suc c))" unfolding demo_paths(4) by (rule kheap_cap_mono [OF cap]) simp
    from up_broken [OF L K rd(1) demo_paths(1,2) rd(2) m b _ this] obtain s' where
      o: "fopen (literal s ''0:/my_file.txt'') (literal s ''r'') s = Some (- EIO, s')" "kernel_up img rs spc e its A h s0 s'" "kheap_cap s' (Suc c)" "fd_table s' = fd_table s"
      "screen_of s' = screen_of s" by blast
    show ?thesis by (rule that [OF o(1) _ o(2) _ o(3)]) (use eio_negative o(4,5) sl root_absent in \<open>simp_all add: slots_def\<close>)
  next
    case (root_present bs w ys)
    have w2: "w = 2" using root_present(3) by (rule walks_single) simp
    have b: "walks img spc e its (path_parts (drop 3 (text_bytes ''0:/my_file.txt''))) bs 2" unfolding demo_paths(3) using root_present(3) w2 by simp
    have "kheap_cap s (path_need (text_bytes ''0:/my_file.txt'') + (2 + 2 + Suc c))" unfolding demo_paths(4) by (rule kheap_cap_mono [OF cap]) simp
    moreover have "(0 :: nat) < 4" by simp
    ultimately obtain f s1 where
      o: "fopen (literal s ''0:/my_file.txt'') (literal s ''r'') s = Some (of_nat 0, s1)" "file_up img rs spc e its A h s0 (of_nat 0) f 0 s1" "item_bytes f = bs"
      "fd_table s1 = (fd_table s)[0 := fst (desc_block f)]" "fst (desc_block f) \<noteq> 0" "kheap_cap s1 (Suc c)" "screen_of s1 = screen_of s"
      "same_outside (- demo_region s0) (mem s) (mem s1)" using up_open [OF L K rd(1) demo_paths(1,2) rd(2) m b _ slots_next(1) [OF sl]] by blast
    have st: "load32 (mem s1) (stat_flags (local_buf s0 ''stat'')) = load32 (mem s) (stat_flags (local_buf s0 ''stat''))"
    proof -
      have "region (stat_flags (local_buf s0 ''stat'')) 4 \<subseteq> demo_region s0"
        using region_mono [of 4 8 "local_buf s0 ''stat''"] demo_buffers(2) [of s0] by (auto simp: file_fields)
      then show ?thesis by (intro load32_frame [OF o(8)]) blast
    qed
    let ?fl = "item_flags bs (load32 (mem s) (stat_flags (local_buf s0 ''stat'')))"
    note ok = show_root_file_ok [where ys = ys and flags = ?fl, OF L T o(2), unfolded o(3) st, OF root_present(4-7) refl root_present(8,9)]
    obtain s' where r: "show_root_file (of_nat 0) s1 = Some s'" "kernel_up img rs spc e its A h s0 s'"
      "prints s0 (demo_region s0) (root_text ys (item_size bs) ?fl) s1 s'" by (rule ok)
    have "slots P 1 s1" using slots_next(2) [OF sl _ o(4,5)] by simp
    then have "slots P 1 s'" using r(3) by (simp add: prints_def slots_def)
    then show ?thesis using that [OF o(1) _ r(2) _ prints_cap [OF r(3) o(6)]] r(1,3) o(7) root_present(1,2) by (simp add: prints_def)
  qed
qed

lemma demo_nested:
  fixes s :: "'a kernel_state_scheme"
  assumes L: "demo_linked (length its) s0" and T: "\<forall>str \<in> demo_strings. demo_text (length its) s0 str" and K: "kernel_up img rs spc e its A h s0 s"
    and sl: "slots P k s" "k \<le> 1" and sh: "nested_shown img rs spc e its txt n" and cap: "kheap_cap s (1007 + Suc c)"
  obtains fd s1 s' where "fopen (literal s ''0:/my_dir/my_file2.txt'') (literal s ''r'') s = Some (fd, s1)" and "(if 0 \<le>s fd then show_directory_file fd s1 else Some s1) = Some s'"
    and "kernel_up img rs spc e its A h s0 s'" and "screen_of s' = fold put_char txt (screen_of s)" and "kheap_cap s' (Suc c)" and "slots P (k + n) s'"
proof -
  have t: "demo_text (length its) s0 ''0:/my_dir/my_file2.txt''" "demo_text (length its) s0 ''r''" using T by (simp_all add: demo_strings_def)
  have tr: "text_bytes ''r'' = [0x72]" by (simp add: text_bytes_def)
  note rd = up_text(3) [OF K t(1)] up_text(3) [OF K t(2), unfolded tr]
  have m: "[0x72 :: u8] \<noteq> []" "0x72 \<le>s hd [0x72 :: u8]" by simp_all
  show ?thesis using sh
  proof cases
    case (nested_absent w)
    have b: "breaks img spc e its (path_parts (drop 3 (text_bytes ''0:/my_dir/my_file2.txt''))) w" unfolding demo_paths(7) by (rule nested_absent(3))
    have nt: "null_item_typed s" if "0 < w"
      by (rule null_item_up [OF K]) (use nested_absent(5) that in simp_all)
    have "kheap_cap s (path_need (text_bytes ''0:/my_dir/my_file2.txt'') + Suc (w + Suc c))"
      unfolding demo_paths(8) by (rule kheap_cap_mono [OF cap]) (use nested_absent(4) in simp)
    from up_broken [OF L K rd(1) demo_paths(5,6) rd(2) m b nt this] obtain s' where
      o: "fopen (literal s ''0:/my_dir/my_file2.txt'') (literal s ''r'') s = Some (- EIO, s')" "kernel_up img rs spc e its A h s0 s'" "kheap_cap s' (Suc c)"
      "fd_table s' = fd_table s" "screen_of s' = screen_of s" by blast
    show ?thesis by (rule that [OF o(1) _ o(2) _ o(3)]) (use eio_negative o(4,5) sl nested_absent(1,2) in \<open>simp_all add: slots_def\<close>)
  next
    case (nested_present bs w ys zs)
    have b: "walks img spc e its (path_parts (drop 3 (text_bytes ''0:/my_dir/my_file2.txt''))) bs w" unfolding demo_paths(7) by (rule nested_present(3))
    have "kheap_cap s (path_need (text_bytes ''0:/my_dir/my_file2.txt'') + (w + 2 + Suc c))"
      unfolding demo_paths(8) by (rule kheap_cap_mono [OF cap]) (use nested_present(4) in simp)
    moreover have k: "k < 4" using sl(2) by simp
    ultimately obtain f s1 where
      o: "fopen (literal s ''0:/my_dir/my_file2.txt'') (literal s ''r'') s = Some (of_nat k, s1)" "file_up img rs spc e its A h s0 (of_nat k) f 0 s1" "item_bytes f = bs"
      "fd_table s1 = (fd_table s)[k := fst (desc_block f)]" "fst (desc_block f) \<noteq> 0" "kheap_cap s1 (Suc c)" "screen_of s1 = screen_of s"
      using up_open [OF L K rd(1) demo_paths(5,6) rd(2) m b _ slots_next(1) [OF sl(1)]] by blast
    obtain s' where r: "show_directory_file (of_nat k) s1 = Some s'" "kernel_up img rs spc e its A h s0 s'"
      "prints s0 (demo_region s0) (nested_text ys (take 7 zs)) s1 s'"
      by (rule show_directory_file_ok [OF L T o(2), unfolded o(3), OF nested_present(5-8)])
    have "slots P (Suc k) s'" using slots_next(2) [OF sl(1) k o(4,5)] r(3) by (simp add: prints_def slots_def)
    then show ?thesis using that [OF o(1) _ r(2) _ prints_cap [OF r(3) o(6)]] r(1,3) o(7) nested_present(1,2) number_positive [OF k] by (simp add: prints_def)
  qed
qed

lemma interrupts_on:
  fixes s :: "'a kernel_state_scheme"
  assumes "booted img rs spc e its s" and "processor_tables a b c s" and "kheap_cap s 1"
  shows "booted img rs spc e its (enable_interrupts s)" and "processor_tables a b c (enable_interrupts s)" and "fd_table (enable_interrupts s) = fd_table s"
proof -
  let ?s = "enable_interrupts s"
  have m: "mem ?s = mem s" "kheap_inv ?s = kheap_inv s" "kheap_live ?s = kheap_live s" "kheap_cap ?s = kheap_cap s"
    by (simp_all add: enable_interrupts_def kheap_inv_def kheap_live_def kheap_cap_def fun_eq_iff)
  have g: "same_globals s ?s" by (simp add: enable_interrupts_def same_globals_def)
  have v: "vfs_ready img rs spc e its s" using assms(1) by (simp add: booted_def)
  have "vfs_ready img rs spc e its ?s"
  proof (rule vfs_ready_frame(1) [OF v, of "{}" ?s])
    show "kheap_inv ?s" "same_globals s ?s" "kheap_cap ?s 1" using g m(2,4) assms(3) fat_ready_parts(1) [OF vfs_readyD(1) [OF v]] by simp_all
    show "\<forall>(x, k) \<in> kheap_live s. x \<in> set (fat_private_of s # fat_streams s) \<longrightarrow> (x, k) \<in> kheap_live ?s" unfolding m(3) by blast
  qed (simp_all add: m(1))
  moreover have "cpu_cr3 ?s = cpu_cr3 s" "current_directory ?s = current_directory s" "paging_enabled ?s = paging_enabled s" "heap_private ?s = heap_private s"
    using m(3) by (simp_all add: enable_interrupts_def heap_private_def)
  ultimately show "booted img rs spc e its ?s" using assms(1) m(1) unfolding booted_def by simp
  show "processor_tables a b c ?s" by (rule tables_frame [OF assms(2), of "{}"]) (simp_all add: enable_interrupts_def)
  show "fd_table ?s = fd_table s" by (rule fd_table_frame [of "{}"]) (simp_all add: enable_interrupts_def)
qed

section \<open>Properties\<close>

lemma demo_boot_apart:
  fixes s :: "'a kernel_state_scheme"
  assumes "demo_linked t s"
  shows "demo_region s \<inter> boot_writes t s = {}"
proof -
  note da = demo_apart [OF assms] and fm = file_memory_parts [of s]
  have nm: "region (fs_name (fat16_fs s)) 6 \<subseteq> region (fat16_fs s) 279" using region_shift [of 24 6 279 "fat16_fs s"] by (simp add: file_fields)
  have "demo_region s \<inter> region (local_buf s ''buf'') 514 = {}"
    using assms unfolding demo_linked_def demo_region_def main_regions_def by (auto simp: list_all_iff)
  moreover have "boot_writes t s \<subseteq> (region (gdt_real s) 48 \<union> region (tss s) 100 \<union> region (idt_descs s) 4096) \<union> region (local_buf s ''buf'') 514
    \<union> region 0 (32 * t) \<union> file_memory s" using fm nm unfolding boot_writes_def by auto
  ultimately show ?thesis using da by blast
qed

text \<open>After \<^verbatim>\<open>boot_tables\<close> and \<^verbatim>\<open>boot_disk\<close> the kernel is up.\<close>

lemma boot_up:
  fixes s :: "'a kernel_state_scheme"
  assumes "demo_linked (length its) s" and "ata_drive (device s) img" and "fat_disk img rs spc e its" and "length its \<le> 20000"
  obtains s1 A s2 where "boot_tables no_int zero_div int21 s = Some s1" and "boot_disk s1 = Some s2"
    and "kernel_up img rs spc e its A (no_int, zero_div, int21) s s2" and "kheap_cap s2 (Suc 1100)"
    and "\<forall>i < 512. fd_table s2 ! i = (if i < 4 then 0 else fd_table s ! i)" and "same_outside (boot_writes (length its) s) (mem s) (mem s2)"
proof -
  let ?t = "length its" and ?h = "(no_int, zero_div, int21)"
  have kl: "kernel_linked s" "boot_low ?t s" using assms(1) by (simp_all add: demo_linked_def)
  obtain s1 where 1: "boot_tables no_int zero_div int21 s = Some s1" "kheap_inv s1" "\<And>k. k \<le> 25600 \<Longrightarrow> kheap_cap s1 k" "tty_ok s1"
    "same_main s s1" "kernel_linked s1" "processor_tables no_int zero_div int21 s1" "fd_table s1 = fd_table s" "same_outside (boot_writes 0 s) (mem s) (mem s1)"
    by (rule boot_tables_ok [OF kl(1)]) blast
  have cap: "kheap_cap s1 (2051 + (?t + (5 + Suc (Suc 1100))))" by (rule 1(3)) (use assms(4) in simp)
  have drv: "ata_drive (device s1) img" using assms(2) file_state_fields(11) [OF same_main_regions(3) [OF 1(5)]] by simp
  have low: "boot_low ?t s1" using kl(2) same_main_regions(1,2) [OF 1(5)] by (simp add: boot_low_def low_memory_free_def)
  obtain A s2 where 2: "boot_disk s1 = Some s2" "booted_on img rs spc e its A s2" "processor_tables no_int zero_div int21 s2" "kheap_cap s2 (Suc 1100)"
    "same_main s1 s2" "tty_ok s2" "root_area s2 its = region 0 (32 * ?t)" "\<forall>i < 512. fd_table s2 ! i = (if i < 4 then 0 else fd_table s1 ! i)"
    "same_outside (boot_writes ?t s1) (mem s1) (mem s2)"
    by (rule boot_disk_ok [OF 1(6,2,4) cap 1(7) drv assms(3) low])
  have sm: "same_main s s2" using 1(5) 2(5) by (simp add: same_main_def same_globals_def)
  have "boot_writes 0 s \<subseteq> boot_writes ?t s" unfolding boot_writes_def by (intro Un_mono order_refl region_mono) simp
  then have f: "same_outside (boot_writes ?t s) (mem s) (mem s2)"
    using same_outside_trans [OF 1(9) 2(9)] unfolding boot_writes_same [OF 1(5)] by (simp add: Un_absorb1)
  have "same_outside (demo_writes ?t s) (mem s) (mem s2)" by (rule same_outside_mono [OF f]) (simp add: demo_writes_def)
  then have K: "kernel_up img rs spc e its A ?h s s2" using 2(2,3,6,7) sm by (simp add: kernel_up_def)
  show ?thesis by (rule that [OF 1(1) 2(1) K 2(4) _ f]) (use 1(8) 2(8) in simp)
qed

lemma sample_demo_texts: "\<forall>str \<in> demo_strings. demo_text 2 sample_kernel str"
proof
  fix str assume "str \<in> demo_strings"
  then have "str \<in> set kernel_texts" by (auto simp: demo_strings_def kernel_texts_def newline_text_def)
  from sample_text [OF this] sample_constants_apart show "demo_text 2 sample_kernel str"
    unfolding demo_text_def demo_writes_def sample_kernel_fields(1,21) by blast
qed

text \<open>C1: \<^verbatim>\<open>kernel_main\<close> runs to its end from every memory that holds the image of the kernel, on a FAT16 disk, whatever memory held before
  and whether or not the disk has the two files it looks for: no step panics, faults or loops. For each file that it can open it
  prints the message, what it reads (eleven bytes from the start of the first, nine bytes from position 3 and then, since reading
  does not move the position, seven from position 4 of the second), for the first file also size and flags, and that it was closed;
  for a file that is not there it prints nothing. In the end
  interrupts are on, the processor finds its six segments, 256 gates and kernel stack, paging is on and maps every address to itself,
  present, writable and open to the user, the file system is ready, and every file that was opened still has its number.\<close>

theorem kernel_main_shows:
  fixes s :: "'a kernel_state_scheme"
  assumes "demo_linked (length its) s" and "ata_drive (device s) img" and "fat_disk img rs spc e its" and "length its \<le> 20000"
    and "\<forall>str \<in> demo_strings. demo_text (length its) s str"
    and "root_shown img rs spc e its (load32 (mem s) (stat_flags (local_buf s ''stat''))) txt n" and "nested_shown img rs spc e its txt' n'"
  shows "\<exists>s2 s'. Option.bind (boot_tables no_int zero_div int21 s) boot_disk = Some s2 \<and> kernel_main no_int zero_div int21 s = Some s'
    \<and> screen_of s' = fold put_char (txt @ txt') (screen_of s2) \<and> interrupts_enabled s' \<and> processor_tables no_int zero_div int21 s'
    \<and> booted img rs spc e its s' \<and> (\<forall>i < 512. fd_table s' ! i \<noteq> 0 \<longleftrightarrow> i < n + n' \<or> 4 \<le> i \<and> fd_table s ! i \<noteq> 0)"
proof -
  let ?t = "length its" and ?h = "(no_int, zero_div, int21)"
  obtain s1 A s2 where 2: "boot_tables no_int zero_div int21 s = Some s1" "boot_disk s1 = Some s2" "kernel_up img rs spc e its A ?h s s2"
    "kheap_cap s2 (Suc 1100)" "\<forall>i < 512. fd_table s2 ! i = (if i < 4 then 0 else fd_table s ! i)" "same_outside (boot_writes ?t s) (mem s) (mem s2)"
    by (rule boot_up [OF assms(1-4)])
  note K = 2(3)
  have "region (stat_flags (local_buf s ''stat'')) 4 \<subseteq> demo_region s"
    using region_mono [of 4 8 "local_buf s ''stat''"] demo_buffers(2) [of s] by (auto simp: file_fields)
  then have st: "load32 (mem s2) (stat_flags (local_buf s ''stat'')) = load32 (mem s) (stat_flags (local_buf s ''stat''))"
    using demo_boot_apart [OF assms(1)] by (intro load32_frame [OF 2(6)]) blast
  have sl: "slots (\<lambda>i. fd_table s ! i \<noteq> 0) 0 s2" using 2(5) by (auto simp: slots_def)
  have c2: "kheap_cap s2 (7 + Suc 1090)" by (rule kheap_cap_mono [OF 2(4)]) simp
  obtain fd s3 s4 where 3: "fopen (literal s2 ''0:/my_file.txt'') (literal s2 ''r'') s2 = Some (fd, s3)" "(if 0 \<le>s fd then show_root_file fd s3 else Some s3) = Some s4"
    "kernel_up img rs spc e its A ?h s s4" "screen_of s4 = fold put_char txt (screen_of s2)" "kheap_cap s4 (Suc 1090)" "slots (\<lambda>i. fd_table s ! i \<noteq> 0) n s4" "n \<le> 1"
    by (rule demo_root [OF assms(1,5) K sl assms(6) [folded st] c2])
  have c4: "kheap_cap s4 (1007 + Suc 1)" by (rule kheap_cap_mono [OF 3(5)]) simp
  obtain fd' s5 s6 where 4: "fopen (literal s4 ''0:/my_dir/my_file2.txt'') (literal s4 ''r'') s4 = Some (fd', s5)"
    "(if 0 \<le>s fd' then show_directory_file fd' s5 else Some s5) = Some s6" "kernel_up img rs spc e its A ?h s s6"
    "screen_of s6 = fold put_char txt' (screen_of s4)" "kheap_cap s6 (Suc 1)" "slots (\<lambda>i. fd_table s ! i \<noteq> 0) (n + n') s6"
    by (rule demo_nested [OF assms(1,5) 3(3,6,7) assms(7) c4])
  have boot: "Option.bind (boot_tables no_int zero_div int21 s) boot_disk = Some s2" using 2(1,2) by simp
  have run: "kernel_main no_int zero_div int21 s = Some (enable_interrupts s6)"
    using 2(1,2) 3(1,2) 4(1,2) by (simp add: kernel_main_def)
  note u = kernel_upD [OF 4(3)]
  have "processor_tables no_int zero_div int21 s6" "booted img rs spc e its s6" using u(1,2) by (simp_all add: booted_def booted_on_def)
  note io = interrupts_on [OF this(2,1) kheap_cap_mono [OF 4(5)]]
  have "screen_of (enable_interrupts s6) = fold put_char (txt @ txt') (screen_of s2)" using 3(4) 4(4) by (simp add: enable_interrupts_def screen_of_def)
  moreover have "\<forall>i < 512. fd_table (enable_interrupts s6) ! i \<noteq> 0 \<longleftrightarrow> i < n + n' \<or> 4 \<le> i \<and> fd_table s ! i \<noteq> 0"
    using 4(6) io(3) by (simp add: slots_def)
  moreover have "interrupts_enabled (enable_interrupts s6)" by (simp add: enable_interrupts_def)
  ultimately show ?thesis using boot run io(1,2) by (intro exI [of _ s2] exI [of _ "enable_interrupts s6"]) simp
qed

theorem kernel_main_shows_witness:
  "\<exists>s2 s'. Option.bind (boot_tables 0x20000 0x20010 0x20020 sample_kernel) boot_disk = Some s2
    \<and> kernel_main 0x20000 0x20010 0x20020 sample_kernel = Some s' \<and> interrupts_enabled s' \<and> page_entry (mem s') (cpu_cr3 s') 0xB8123 = 0xB8007
    \<and> translate (mem s') (cpu_cr3 s') 0xB8123 = Some (0xB8123, True, True)
    \<and> screen_of s' = fold put_char (text_bytes ''We opened a root file!\<newline>Content:Hello world\<newline>Stat: 11\<newline>1\<newline>Successful close of root file\<newline>We opened a directory file!\<newline>Content:3456789ab\<newline>Content:456789a\<newline>Successful close of directory file\<newline>'')
        (screen_of s2)"
proof -
  let ?old = "load32 (mem sample_kernel) (stat_flags (local_buf sample_kernel ''stat''))"
  have n: "length demo_items = 2" by (simp add: demo_items_def)
  have d: "ata_drive (device sample_kernel) demo_disk" using sample_drive_ok by (simp add: sample_kernel_fields)
  have x: "\<forall>str \<in> demo_strings. demo_text (length demo_items) sample_kernel str" unfolding n using sample_demo_texts by simp
  have l: "demo_linked (length demo_items) sample_kernel" "length demo_items \<le> 20000" unfolding n using sample_demo_linked by simp_all
  have len: "length (text_bytes ''Hello world'') = 11" "length (text_bytes ''3456789ab'') = 9" "length (text_bytes ''456789ab'') = 8" by simp_all
  have sz: "0 < unat (item_size (demo_items ! 0))" "unat (item_size (demo_items ! 0)) < 100" "0 < unat (item_flags (demo_items ! 0) ?old)"
    "unat (item_flags (demo_items ! 0) ?old) < 100" unfolding demo_sizes by simp_all
  have five: "(5 :: nat) \<le> 1000" by simp
  note r = root_present [OF demo_walks(1) demo_gives(1) len(1) sz] and q = nested_present [OF demo_walks(2) five demo_gives(2) len(2) demo_gives(3) len(3)]
  obtain s2 s' where s': "Option.bind (boot_tables 0x20000 0x20010 0x20020 sample_kernel) boot_disk = Some s2"
    "kernel_main 0x20000 0x20010 0x20020 sample_kernel = Some s'"
    "screen_of s' = fold put_char (root_text (text_bytes ''Hello world'') (item_size (demo_items ! 0)) (item_flags (demo_items ! 0) ?old)
       @ nested_text (text_bytes ''3456789ab'') (take 7 (text_bytes ''456789ab''))) (screen_of s2)"
    "interrupts_enabled s'" "booted demo_disk 1 1 3 demo_items s'"
    using kernel_main_shows [OF l(1) d demo_disk_ok l(2) x r q] by blast
  have "decimal 0 = []" by (simp add: decimal.simps)
  then have one: "decimal (Suc 0) = [0x31]" by (subst decimal.simps) simp
  then have dec: "decimal 11 = [0x31, 0x31]" by (subst decimal.simps) simp
  have "root_text (text_bytes ''Hello world'') (item_size (demo_items ! 0)) (item_flags (demo_items ! 0) ?old)
       @ nested_text (text_bytes ''3456789ab'') (take 7 (text_bytes ''456789ab''))
     = text_bytes ''We opened a root file!\<newline>Content:Hello world\<newline>Stat: 11\<newline>1\<newline>Successful close of root file\<newline>We opened a directory file!\<newline>Content:3456789ab\<newline>Content:456789a\<newline>Successful close of directory file\<newline>''"
    unfolding demo_sizes by (simp add: root_text_def nested_text_def shown_def text_bytes_def newline_text_def dec one)
  moreover have "page_entry (mem s') (cpu_cr3 s') 0xB8123 = (0xB8123 AND 0xfffff000) OR 7"
    "translate (mem s') (cpu_cr3 s') 0xB8123 = Some (0xB8123, True, True)" using s'(5) by (simp_all add: booted_def)
  ultimately show ?thesis using s'(1-4) by (intro exI [of _ s2] exI [of _ s']) simp
qed

end
