(* ===== verification/Process_Load.thy ===== *)
theory Process_Load
  imports Process_Correct Kernel_Demo
begin

text \<open>
  What \<^verbatim>\<open>load_process\<close> does on a mounted disk, as a total statement: it opens the file, reads the program into a heap block
  of its own, takes the 0 of \<^verbatim>\<open>fread\<close> for a failure, closes the file, gives the process back and returns \<^verbatim>\<open>-EIO\<close>. The block with
  the program and the number of the file are lost. When the path breaks off or no number is free, the result is \<^verbatim>\<open>-EINVAL\<close>.
\<close>

section \<open>Releasing what was taken on the way\<close>

lemma grows_release:
  fixes s :: "'a kheap_state_scheme"
  assumes "grows (B \<union> D) R s t" and "B \<inter> D = {}" and "t' = t\<lparr>mem := mem t'\<rparr>" and "kheap_inv t'" and "kheap_live t' = kheap_live t - D"
    and "same_outside kheap_meta (mem t) (mem t')"
  shows "grows B R s t'"
proof -
  note g = growsD [OF assms(1)]
  have "t = s\<lparr>io_log := io_log t, mem := mem t\<rparr>" using assms(1) by (simp add: grows_def)
  then have "t' = s\<lparr>io_log := io_log t, mem := mem t\<rparr>\<lparr>mem := mem t'\<rparr>" using assms(3) by metis
  moreover have "io_log t' = io_log t" by (subst assms(3)) simp
  ultimately have "t' = s\<lparr>io_log := io_log t', mem := mem t'\<rparr>" by simp
  moreover have "same_outside (R \<union> heap_private s) (mem s) (mem t')"
    using same_outside_trans [OF g(4) assms(6)] by (rule same_outside_mono) (auto simp: heap_private_def)
  moreover have "kheap_live t' = kheap_live s \<union> B" "B \<inter> kheap_live s = {}" using assms(2,5) g(2,3) by blast+
  ultimately show ?thesis using assms(4) by (simp add: grows_def)
qed

lemma zero_word: "\<forall>a \<in> region p 4. m a = 0 \<Longrightarrow> load32 m p = 0"
  using of_nat_offset_mem [of 0 4 p] of_nat_offset_mem [of 1 4 p] of_nat_offset_mem [of 2 4 p] of_nat_offset_mem [of 3 4 p]
  by (simp add: load32_def)

text \<open>A process without task, allocations, program and stack is just its block.\<close>

lemma free_empty_process:
  assumes "\<forall>a \<in> region proc 4372. mem s a = 0"
  shows "free_process proc s = kfree proc s"
proof -
  have f: "load32 (mem s) (proc + of_nat i) = 0" if "i + 4 \<le> 4372" for i
    using region_shift [OF that, of proc] assms by (intro zero_word) blast
  have "free_allocations proc 0 s = Some s"
    using f [of 264] by (subst free_allocations.simps) (simp add: process_fields kernel_consts)
  then show ?thesis using f [of 260] f [of 4360] f [of 4368] by (simp add: free_process_def process_fields)
qed

section \<open>Loading the program\<close>

text \<open>Where the local \<^verbatim>\<open>stat\<close> of \<^verbatim>\<open>load_binary\<close> lies.\<close>

definition stat_apart :: "u8 list list \<Rightarrow> 'a process_state_scheme \<Rightarrow> bool" where
  "stat_apart its s \<longleftrightarrow> region (stat_local s) 8 \<inter> (kheap_meta \<union> heap_area \<union> fat_area s \<union> fd_region s \<union> vfs_globals s \<union> root_area s its) = {}"

lemma open_fd_grows:
  fixes s :: "'a file_state_scheme"
  assumes "vfs_ready img rs spc e its s" and "open_fd s fd f x" and g: "grows C R s s'" and "R \<inter> (heap_area \<union> fat_area s \<union> fd_region s) = {}"
    and "fat_area s' = fat_area s"
  shows "open_fd s' fd f x"
proof -
  obtain j where j: "fd = of_nat j" "descriptor_at s j f" "open_file s (driver_handle f) (item_bytes f) x (driver_blocks f)"
    by (rule open_fdE [OF assms(1,2)])
  note db = descriptor_block [OF assms(1) j(2)] and ob = open_file_blocks [OF j(3)]
  note lb = live_bytes [OF fat_ready_parts(1) [OF vfs_readyD(1) [OF assms(1)]] open_file_blocks(1) [OF j(3)]]
  show ?thesis
  proof (rule open_fd_keep [OF assms(2) _ growsD(4) [OF g] _ _ assms(5) grows_state [OF g]])
    show "open_file s' (driver_handle f) (item_bytes f) x (driver_blocks f)"
    proof (rule open_file_frame [OF j(3) growsD(4) [OF g] _ _ assms(5)])
      show "block_bytes (driver_blocks f) \<inter> (R \<union> heap_private s) = {}" using lb assms(4) by blast
      show "driver_blocks f \<subseteq> kheap_live s'" using ob(1) growsD(2) [OF g] by blast
    qed
    show "(R \<union> heap_private s) \<inter> (desc_bytes f \<union> fd_region s) = {}" using db(4,5) assms(4) vfs_ready_apart [OF assms(1)] by blast
    show "desc_block f \<in> kheap_live s'" using db(2) growsD(2) [OF g] by blast
  qed
qed

text \<open>The program a directory item gives: nothing for an empty file, otherwise what reading it from the start gives.\<close>

definition program_of :: "image \<Rightarrow> nat \<Rightarrow> nat \<Rightarrow> nat \<Rightarrow> u8 list \<Rightarrow> u8 list \<Rightarrow> bool" where
  "program_of img rs spc e bs ys \<longleftrightarrow>
     (if item_size bs = 0 then ys = [] else file_gives img rs spc e bs 0 (unat (item_size bs)) ys)"

lemma program_length:
  assumes "program_of img rs spc e bs ys"
  shows "length ys \<le> unat (item_size bs)" and "length ys < 2 ^ 31"
  using assms by (auto simp: program_of_def file_gives_def split: if_splits)

lemma load_program_file:
  fixes s :: "'a process_state_scheme"
  assumes "vfs_ready img rs spc e its s" and "open_fd s fd f 0" and "stat_apart its s"
    and "program_of img rs spc e (item_bytes f) ys" and "kheap_cap s (Suc (blocks_for (item_size (item_bytes f))))"
  obtains q k s' where "load_program fd proc s = Some (- EIO, s')" and "vfs_ready img rs spc e its s'" and "open_fd s' fd f 0"
    and "grows {(q, k)} (region (stat_local s) 8 \<union> fat_locals s \<union> fat_pos s) s s'" and "load_bytes (mem s') q (length ys) = ys" and "length ys \<le> k"
    and "fd_table s' = fd_table s" and "kheap_cap s' 1"
proof -
  let ?st = "stat_local s" and ?sz = "item_size (item_bytes f)"
  let ?S = "region ?st 8"
  note v = vfs_readyD [OF assms(1)] and fp = fat_ready_parts [OF vfs_readyD(1) [OF assms(1)]]
  have off: "?S \<inter> (kheap_meta \<union> heap_area \<union> fat_area s \<union> fd_region s \<union> vfs_globals s \<union> root_area s its) = {}" using assms(3) by (simp add: stat_apart_def)
  obtain j where j: "fd = of_nat j" "descriptor_at s j f" "open_file s (driver_handle f) (item_bytes f) 0 (driver_blocks f)" by (rule open_fdE [OF assms(1,2)])
  have "?S \<inter> block_bytes (driver_blocks f) = {}" using live_bytes(2) [OF fp(1) open_file_blocks(1) [OF j(3)]] off by blast
  from stat_open_file [OF j(3) this, of "primary_disk s"] obtain m where
    m: "fat16_stat (primary_disk s) (driver_handle f) ?st s = (0, s\<lparr>mem := m\<rparr>)" "same_outside ?S (mem s) m" "load32 m (stat_filesize ?st) = ?sz" by blast
  define s1 where "s1 = s\<lparr>mem := m\<rparr>"
  have st: "fstat fd ?st s = Some (0, s1)" unfolding j(1) descriptor_dispatch(4) [OF v(3) fp(1) j(2)] by (simp add: m(1) s1_def)
  have sm: "?S \<inter> kheap_meta = {}" using off by blast
  have g1: "grows {} ?S s s1" "kheap_cap s1 = kheap_cap s" using grows_store [OF fp(1) m(2) sm] by (simp_all add: s1_def)
  have g1': "grows {} (?S \<union> fat_pos s) s s1" by (rule grows_mono [OF g1(1)]) auto
  have "kheap_cap s1 1" unfolding g1(2) by (rule kheap_cap_mono [OF assms(5)]) simp
  moreover have "?S \<inter> (fat_area s \<union> vfs_globals s \<union> root_area s its) = {}" using off by blast
  ultimately have r1: "vfs_ready img rs spc e its s1" "fat_area s1 = fat_area s" "fat_pos s1 = fat_pos s" "root_area s1 its = root_area s its"
    using vfs_ready_grows [OF assms(1) g1'] by blast+
  have o1: "open_fd s1 fd f 0" by (rule open_fd_grows [OF assms(1,2) g1(1) _ r1(2)]) (use off in blast)
  have bs: "blocks_for ?sz \<le> Suc (blocks_for ?sz)" by simp
  obtain q k m2 where 2: "kzalloc ?sz s1 = Some (q, s1\<lparr>mem := m2\<rparr>)" "grows {(q, k)} {} s1 (s1\<lparr>mem := m2\<rparr>)"
    "kheap_cap (s1\<lparr>mem := m2\<rparr>) (Suc (blocks_for ?sz) - blocks_for ?sz)" "unat ?sz \<le> k" "region q k \<subseteq> heap_private s1"
    "\<forall>a \<in> region q k. m2 a = 0" "q \<noteq> 0" by (rule grows_alloc [OF growsD(1) [OF g1(1)] assms(5) [folded g1(2)] bs])
  define s2 where "s2 = s1\<lparr>mem := m2\<rparr>"
  have g2: "grows {(q, k)} {} s1 s2" and c2: "kheap_cap s2 1" using 2(2,3) by (simp_all add: s2_def)
  have g2': "grows {(q, k)} ({} \<union> fat_pos s1) s1 s2" by (rule grows_mono [OF g2]) auto
  note r2 = vfs_ready_grows [OF r1(1) g2' _ c2, simplified]
  have o2: "open_fd s2 fd f 0" by (rule open_fd_grows [OF r1(1) o1 g2 _ r2(2)]) simp
  have len: "length ys \<le> k" using program_length(1) [OF assms(4)] 2(4) by simp
  let ?W = "region q (length ys)"
  have W: "?W \<subseteq> region q k" by (rule region_mono [OF len])
  have q: "(q, k) \<in> kheap_live s2" using growsD(2) [OF g2] by blast
  have W2: "?W \<subseteq> heap_private s" "?W \<inter> heap_private s2 = {}" "?W \<subseteq> heap_area"
    using W 2(5) keepsD(2) [OF g1(1)] live_not_private [OF growsD(1) [OF g2] q] live_in_heap [OF growsD(1) [OF g2] q] unfolding heap_area_def by blast+
  have buf: "vfs_buffer its s2 f q (length ys)"
  proof -
    obtain l where l: "descriptor_at s1 l f" "open_file s1 (driver_handle f) (item_bytes f) 0 (driver_blocks f)" by (rule open_fdE [OF r1(1) o1])
    note pv = keepsD(2) [OF g1(1)]
    have "?W \<inter> (fat_area s \<union> fat_locals s) = {}" using W2(1) fp(2,5) by blast
    moreover have "?W \<inter> (fd_region s \<union> vfs_globals s \<union> root_area s its) = {}" using W2(1) vfs_ready_apart [OF assms(1)] by blast
    moreover have "?W \<inter> (block_bytes (driver_blocks f) \<union> desc_bytes f) = {}"
      using W2(1) live_bytes(1) [OF growsD(1) [OF g1(1)] open_file_blocks(1) [OF l(2)]] descriptor_block(4) [OF r1(1) l(1)] unfolding pv by blast
    ultimately show ?thesis using W2(2) file_state_fields(12-14) [OF grows_state [OF g1(1)]] file_state_fields(12-14) [OF grows_state [OF g2]]
      unfolding vfs_buffer_def file_buffer_def r2(2,4) r1(2,4) by auto
  qed
  obtain r s3 where 3: "fread q ?sz 1 fd s2 = Some (r, s3)" "r \<noteq> 1" "vfs_ready img rs spc e its s3" "open_fd s3 fd f 0"
    "load_bytes (mem s3) q (length ys) = ys" "keeps (?W \<union> fat_locals s2 \<union> fat_pos s2) s2 s3"
  proof (cases "?sz = 0")
    case True
    then have "fread q ?sz 1 fd s2 = Some (- EINVAL, s2)" "ys = []" using assms(4) by (simp_all add: fread_def program_of_def)
    then show ?thesis using that [of "- EINVAL" s2] r2(1) o2 grows_refl [OF growsD(1) [OF g2]] by (simp add: kernel_consts)
  next
    case False
    then have fg: "file_gives img rs spc e (item_bytes f) 0 (unat ?sz) ys" using assms(4) by (simp add: program_of_def)
    obtain s3 where "fread q (of_nat (unat ?sz)) 1 fd s2 = Some (0, s3)" "vfs_ready img rs spc e its s3" "open_fd s3 fd f 0"
      "load_bytes (mem s3) q (length ys) = ys" "keeps (?W \<union> fat_locals s2 \<union> fat_pos s2) s2 s3" using vfs_read [OF r2(1) o2 fg buf] by blast
    then show ?thesis using that [of 0 s3] by simp
  qed
  have swap: "fread q 1 ?sz fd s2 = fread q ?sz 1 fd s2" by (simp add: fread_def call_read_def fat16_read_def Let_def conj_commute)
  have fz: "load32 (mem s2) (stat_filesize ?st) = ?sz"
  proof -
    have "region (stat_filesize ?st) 4 \<subseteq> ?S" using region_shift [of 4 4 8 ?st] region_mono [of 4 8 ?st] by (simp add: file_fields)
    moreover have "heap_private s1 \<subseteq> kheap_meta \<union> heap_area" by (auto simp: heap_private_def)
    ultimately have "region (stat_filesize ?st) 4 \<inter> ({} \<union> heap_private s1) = {}" using off by blast
    from grows_load32 [OF g2 this] show ?thesis using m(3) by (simp add: s1_def)
  qed
  have sl: "stat_local s1 = ?st" "stat_local s2 = ?st" by (simp_all add: s1_def s2_def)
  have run: "load_program fd proc s = Some (- EIO, s3)"
    using st m(3) 2(1,7) 3(1,2) swap fz sl unfolding load_program_def s2_def [symmetric] by (simp add: s1_def)
  let ?R = "?S \<union> fat_locals s \<union> fat_pos s"
  have "grows ({} \<union> {(q, k)}) ?R s s2" by (rule grows_trans [OF grows_mono [OF g1(1)] g2]) auto
  from grows_trans [OF this 3(6)] have g: "grows {(q, k)} ?R s s3"
    using W2(1) file_state_fields(12) [OF grows_state [OF g1(1)]] file_state_fields(12) [OF grows_state [OF g2]] r1(3) r2(3) by auto
  have "fd_table s3 = fd_table s"
  proof (rule fd_table_frame [OF growsD(4) [OF g]])
    show "(?R \<union> heap_private s) \<inter> fd_region s = {}" using off vfs_ready_apart [OF assms(1)] fp(3) by blast
    show "file_descriptors s3 = file_descriptors s" by (rule file_state_fields(3) [OF grows_state [OF g]])
  qed
  moreover have "kheap_cap s3 1" using vfs_readyD(1) [OF 3(3)] by (simp add: fat_ready_def)
  ultimately show ?thesis using that [OF run 3(3,4) g 3(5) len] by blast
qed

lemma literal_readable:
  fixes s :: "'a file_state_scheme"
  assumes "vfs_ready img rs spc e its s"
  shows "readable s (literal_r s) [0x72]"
  using vfs_readyD(7) [OF assms] vfs_ready_apart [OF assms] by (auto simp: readable_def vfs_globals_def numeral_2_eq_2)

lemma stat_apart_grows:
  fixes s :: "'a process_state_scheme"
  assumes "stat_apart its s" and "grows B R s s'" and "fat_area s' = fat_area s" and "root_area s' its = root_area s its"
  shows "stat_apart its s'" and "stat_local s' = stat_local s" and "current_process s' = current_process s" and "processes s' = processes s"
proof -
  have e: "s' = s\<lparr>io_log := io_log s', mem := mem s'\<rparr>" using assms(2) by (simp add: grows_def)
  show "stat_local s' = stat_local s" "current_process s' = current_process s" "processes s' = processes s" by (subst e, simp)+
  then show "stat_apart its s'" using assms(1) file_state_fields(13,14) [OF grows_state [OF assms(2)]] by (simp add: stat_apart_def assms(3,4))
qed

text \<open>After \<^verbatim>\<open>fclose\<close> the descriptor still holds the handle, whose block is no longer live.\<close>

definition stale_descriptor :: "u32 \<Rightarrow> 'a kheap_state_scheme \<Rightarrow> bool" where
  "stale_descriptor d s \<longleftrightarrow> (\<forall>k. (load32 (mem s) (descriptor_private_data d), k) \<notin> kheap_live s)"

lemma closed_stale:
  fixes s :: "'a file_state_scheme"
  assumes "vfs_ready img rs spc e its s" and "open_fd s fd f x" and "kheap_live s' = kheap_live s - driver_blocks f"
    and "same_outside kheap_meta (mem s) (mem s')"
  shows "stale_descriptor (fst (desc_block f)) s'"
proof -
  note i = fat_ready_parts(1) [OF vfs_readyD(1) [OF assms(1)]]
  let ?d = "fst (desc_block f)"
  obtain j where j: "descriptor_at s j f" "open_file s (driver_handle f) (item_bytes f) x (driver_blocks f)" by (rule open_fdE [OF assms(1,2)])
  note db = descriptor_block [OF assms(1) j(1)]
  have d: "16 \<le> snd (desc_block f)" "load32 (mem s) (descriptor_private_data ?d) = driver_handle f"
    using j(1) by (simp_all add: descriptor_at_def Let_def)
  have "region (descriptor_private_data ?d) 4 \<subseteq> desc_bytes f"
    using descriptor_fields_in(3) [of ?d] region_mono [OF d(1), of ?d] unfolding desc_bytes_def by blast
  then have "load32 (mem s') (descriptor_private_data ?d) = driver_handle f"
    using db(4) d(2) by (subst load32_frame [OF assms(4)]) (auto simp: heap_private_def)
  moreover have "(driver_handle f, k) \<notin> kheap_live s'" for k
  proof
    assume k: "(driver_handle f, k) \<in> kheap_live s'"
    obtain l where l: "(driver_handle f, l) \<in> driver_blocks f" using j(2) unfolding open_file_def by blast
    then have "(driver_handle f, l) \<in> kheap_live s" using open_file_blocks(1) [OF j(2)] by blast
    then have "k = l" using live_unique [OF i, of "driver_handle f" k l] k assms(3) by blast
    then show False using k l assms(3) by blast
  qed
  ultimately show ?thesis by (simp add: stale_descriptor_def)
qed

lemma stale_descriptor_frame:
  assumes "stale_descriptor d s" and "kheap_inv s" and "(d, l) \<in> kheap_live s" and "16 \<le> l" and "same_outside kheap_meta (mem s) (mem s')"
    and "kheap_live s' \<subseteq> kheap_live s"
  shows "stale_descriptor d s'"
proof -
  have "region (descriptor_private_data d) 4 \<inter> kheap_meta = {}"
    using kheap_live_off_meta(1) [OF assms(2,3)] descriptor_fields_in(3) [of d] region_mono [OF assms(4), of d] by blast
  from load32_frame [OF assms(5) this] show ?thesis using assms(1,6) by (auto simp: stale_descriptor_def)
qed

text \<open>The file is there. What becomes live for good: blocks of \<^verbatim>\<open>fopen\<close>, the descriptor and the program.\<close>

lemma load_binary_file:
  fixes s :: "'a process_state_scheme"
  assumes "vfs_ready img rs spc e its s" and "stat_apart its s" and "readable s p ps" and "good_path ps" and "path_drive ps = 0"
    and "walks img spc e its (path_parts (drop 3 ps)) bs w" and "program_of img rs spc e bs ys"
    and "kheap_cap s (path_need ps + (w + 2 + Suc (Suc (blocks_for (item_size bs)))))" and "find (\<lambda>i. fd_table s ! i = 0) [0..<512] = Some j"
  obtains L d l q k s' where "load_binary p proc s = Some (- EIO, s')" and "vfs_ready img rs spc e its s'"
    and "grows L (region (stat_local s) 8 \<union> fat_locals s \<union> fat_pos s \<union> elem_region (file_descriptors s) 4 j) s s'" and "(q, k) \<in> L" and "(d, l) \<in> L" and "16 \<le> l" and "length ys \<le> k"
    and "load_bytes (mem s') q (length ys) = ys" and "d \<noteq> 0" and "fd_table s' = (fd_table s)[j := d]" and "stale_descriptor d s'"
proof -
  let ?E = "elem_region (file_descriptors s) 4 j" and ?S = "region (stat_local s) 8"
  let ?R = "?S \<union> fat_locals s \<union> fat_pos s \<union> ?E"
  have m: "[0x72 :: u8] \<noteq> []" "0x72 \<le>s hd [0x72 :: u8]" by simp_all
  obtain P f s1 where 1: "fopen p (literal_r s) s = Some (of_nat j, s1)" "open_fd s1 (of_nat j) f 0" "item_bytes f = bs"
    "fd_table s1 = (fd_table s)[j := fst (desc_block f)]" "vfs_ready img rs spc e its s1" "kheap_cap s1 (Suc (Suc (blocks_for (item_size bs))))"
    "grows (P \<union> insert (desc_block f) (driver_blocks f)) (fat_locals s \<union> fat_pos s \<union> ?E) s s1" "P \<inter> insert (desc_block f) (driver_blocks f) = {}"
    using fopen_ok [OF assms(1,3-5) literal_readable [OF assms(1)] m assms(6,8,9)] by blast
  have j: "j < 512" using assms(9) by (auto simp: find_Some_iff)
  have E: "?E \<subseteq> fd_region s" using elem_within [OF j, of "file_descriptors s" 4] by (simp add: fd_region_def)
  have gE: "grows (P \<union> insert (desc_block f) (driver_blocks f)) (fat_locals s \<union> ?E \<union> fat_pos s) s s1" by (rule grows_mono [OF 1(7)]) auto
  have RE: "(fat_locals s \<union> ?E) \<inter> (fat_area s \<union> vfs_globals s \<union> root_area s its) = {}"
    using E vfs_ready_apart [OF assms(1)] vfs_readyD(9) [OF assms(1)] fat_ready_parts(5) [OF vfs_readyD(1) [OF assms(1)]] by blast
  have "kheap_cap s1 1" by (rule kheap_cap_mono [OF 1(6)]) simp
  note r1 = vfs_ready_grows [OF assms(1) gE RE this]
  note sa = stat_apart_grows [OF assms(2) 1(7) r1(2,4)]
  have c1: "kheap_cap s1 (Suc (blocks_for (item_size (item_bytes f))))" by (rule kheap_cap_mono [OF 1(6)]) (simp add: 1(3))
  obtain q k s2 where 2: "load_program (of_nat j) proc s1 = Some (- EIO, s2)" "vfs_ready img rs spc e its s2" "open_fd s2 (of_nat j) f 0"
    "grows {(q, k)} (region (stat_local s1) 8 \<union> fat_locals s1 \<union> fat_pos s1) s1 s2" "load_bytes (mem s2) q (length ys) = ys" "length ys \<le> k"
    "fd_table s2 = fd_table s1" by (rule load_program_file [OF 1(5,2) sa(1) assms(7) [folded 1(3)] c1])
  obtain s3 where 3: "fclose (of_nat j) s2 = Some (0, s3)" "vfs_ready img rs spc e its s3" "kheap_live s3 = kheap_live s2 - driver_blocks f"
    "fd_table s3 = fd_table s2" "same_outside kheap_meta (mem s2) (mem s3)" "s3 = s2\<lparr>mem := mem s3\<rparr>" using vfs_close [OF 2(2,3)] by blast
  have "grows (P \<union> insert (desc_block f) (driver_blocks f)) ?R s s1" by (rule grows_mono [OF 1(7)]) auto
  from grows_trans [OF this 2(4)] have g: "grows (insert (q, k) (insert (desc_block f) P) \<union> driver_blocks f) ?R s s2"
    using sa(2) r1(3) file_state_fields(12) [OF grows_state [OF 1(7)]] by (simp add: Un_assoc Un_left_commute insert_commute) blast
  have q: "(q, k) \<in> kheap_live s2" "(q, k) \<notin> kheap_live s1" using growsD(2,3) [OF 2(4)] by blast+
  obtain l where l: "descriptor_at s1 l f" "open_file s1 (driver_handle f) (item_bytes f) 0 (driver_blocks f)" by (rule open_fdE [OF 1(5,2)])
  have "insert (q, k) (insert (desc_block f) P) \<inter> driver_blocks f = {}"
    using 1(8) q(2) open_file_blocks(1) [OF l(2)] descriptor_block(6) [OF 1(5) l(1)] by blast
  note gr = grows_release [OF g this 3(6) fat_ready_parts(1) [OF vfs_readyD(1) [OF 3(2)]] 3(3,5)]
  have "\<not> (of_nat j :: u32) <s 0" using sless_of_nat [of j 0] j by simp
  then have run: "load_binary p proc s = Some (- EIO, s3)" using 1(1) 2(1) 3(1) by (simp add: load_binary_def)
  have "region q (length ys) \<subseteq> region q k" by (rule region_mono [OF 2(6)])
  then have "region q (length ys) \<inter> kheap_meta = {}" using kheap_live_off_meta(1) [OF growsD(1) [OF 2(4)] q(1)] by blast
  then have "load_bytes (mem s3) q (length ys) = load_bytes (mem s2) q (length ys)"
    using program_length [OF assms(7)] by (intro load_bytes_frame [OF 3(5)]) auto
  then have ld: "load_bytes (mem s3) q (length ys) = ys" using 2(5) by simp
  have nz: "fst (desc_block f) \<noteq> 0"
    using live_nonzero [OF growsD(1) [OF 1(7)], of "fst (desc_block f)" "snd (desc_block f)"] growsD(2) [OF 1(7)] by simp
  have sz: "16 \<le> snd (desc_block f)" using l(1) by (simp add: descriptor_at_def Let_def)
  have fdt: "fd_table s3 = (fd_table s)[j := fst (desc_block f)]" using 2(7) 3(4) 1(4) by simp
  show ?thesis
    by (rule that [OF run 3(2) gr _ _ sz 2(6) ld nz fdt closed_stale [OF 2(2,3) 3(3,5)]]) simp_all
qed

text \<open>The path breaks off, or the table of descriptors is full: the negative number goes to \<^verbatim>\<open>fclose\<close>.\<close>

definition cannot_open :: "image \<Rightarrow> nat \<Rightarrow> nat \<Rightarrow> u8 list list \<Rightarrow> u8 list \<Rightarrow> nat \<Rightarrow> 'a file_state_scheme \<Rightarrow> bool" where
  "cannot_open img spc e its ps w s \<longleftrightarrow>
     (breaks img spc e its (path_parts (drop 3 ps)) w \<and> (0 < w \<longrightarrow> null_item_typed s))
     \<or> (\<exists>bs. walks img spc e its (path_parts (drop 3 ps)) bs w \<and> (\<forall>i < 512. fd_table s ! i \<noteq> 0))"

lemma fopen_fails:
  fixes s :: "'a file_state_scheme"
  assumes "vfs_ready img rs spc e its s" and "readable s p ps" and "good_path ps" and "path_drive ps = 0"
    and "cannot_open img spc e its ps w s" and "kheap_cap s (path_need ps + Suc (w + Suc c))"
  obtains r C s' where "fopen p (literal_r s) s = Some (r, s')" and "r \<in> {- EIO, - ENOMEM}" and "grows C (fat_locals s \<union> fat_pos s) s s'"
    and "vfs_ready img rs spc e its s'"
proof -
  have m: "[0x72 :: u8] \<noteq> []" "0x72 \<le>s hd [0x72 :: u8]" by simp_all
  note r = literal_readable [OF assms(1)]
  consider (broken) "breaks img spc e its (path_parts (drop 3 ps)) w" "0 < w \<longrightarrow> null_item_typed s"
    | (full) bs where "walks img spc e its (path_parts (drop 3 ps)) bs w" "\<forall>i < 512. fd_table s ! i \<noteq> 0"
    using assms(5) unfolding cannot_open_def by blast
  then show ?thesis
  proof cases
    case broken
    obtain C s1 where 1: "fopen p (literal_r s) s = Some (- EIO, s1)" "grows C (fat_locals s \<union> fat_pos s) s s1" "vfs_ready img rs spc e its s1"
      by (rule fopen_broken [OF assms(1-4) r m broken(1) mp [OF broken(2)] assms(6)])
    show ?thesis by (rule that [OF 1(1) _ 1(2,3)]) simp
  next
    case full
    have "find (\<lambda>i. fd_table s ! i = 0) [0..<512] = None" using full(2) by (simp add: find_None_iff)
    from fopen_full [OF assms(1-4) r m full(1) assms(6) this]
    obtain C s1 where 1: "fopen p (literal_r s) s = Some (- ENOMEM, s1)" "grows C (fat_locals s \<union> fat_pos s) s s1" "vfs_ready img rs spc e its s1"
      by blast
    show ?thesis by (rule that [OF 1(1) _ 1(2,3)]) simp
  qed
qed

lemma load_binary_missing:
  fixes s :: "'a process_state_scheme"
  assumes "vfs_ready img rs spc e its s" and "readable s p ps" and "good_path ps" and "path_drive ps = 0"
    and "cannot_open img spc e its ps w s" and "kheap_cap s (path_need ps + Suc (w + Suc c))"
  obtains L s' where "load_binary p proc s = Some (- EINVAL, s')" and "vfs_ready img rs spc e its s'"
    and "grows L (fat_locals s \<union> fat_pos s) s s'" and "fd_table s' = fd_table s"
proof -
  obtain r C s1 where 1: "fopen p (literal_r s) s = Some (r, s1)" "r \<in> {- EIO, - ENOMEM}" "grows C (fat_locals s \<union> fat_pos s) s s1"
    "vfs_ready img rs spc e its s1" by (rule fopen_fails [OF assms])
  have n: "r <s 0" using 1(2) errors_negative by auto
  then have "fclose r s1 = Some (- EINVAL, s1)" by (simp add: fclose_def)
  then have run: "load_binary p proc s = Some (- EINVAL, s1)" using 1(1) n by (simp add: load_binary_def) (simp add: kernel_consts)
  have "fd_table s1 = fd_table s"
  proof (rule fd_table_frame [OF growsD(4) [OF 1(3)]])
    show "(fat_locals s \<union> fat_pos s \<union> heap_private s) \<inter> fd_region s = {}"
      using vfs_ready_apart [OF assms(1)] fat_ready_parts(3) [OF vfs_readyD(1) [OF assms(1)]] by blast
    show "file_descriptors s1 = file_descriptors s" by (rule file_state_fields(3) [OF grows_state [OF 1(3)]])
  qed
  then show ?thesis by (rule that [OF run 1(4,3)])
qed

section \<open>The process around it\<close>

lemma new_process:
  fixes s :: "'a process_state_scheme"
  assumes "vfs_ready img rs spc e its s" and "kheap_cap s (2 + Suc c)"
  obtains tmp k s1 t where "kzalloc sizeof_process s = Some (tmp, s1)" and "tmp \<noteq> 0" and "t = s1\<lparr>mem := init_process tmp (mem s1)\<rparr>"
    and "grows {(tmp, k)} {} s t" and "4372 \<le> k" and "\<forall>a \<in> region tmp 4372. mem t a = 0" and "vfs_ready img rs spc e its t" and "kheap_cap t (Suc c)"
    and "fat_area t = fat_area s" and "root_area t its = root_area s its" and "fat_pos t = fat_pos s" and "fd_table t = fd_table s"
proof -
  note v = vfs_readyD [OF assms(1)] and fp = fat_ready_parts [OF vfs_readyD(1) [OF assms(1)]]
  have sz: "unat sizeof_process = 4372" "blocks_for sizeof_process = 2" by (simp_all add: kernel_consts blocks_for_def)
  have b: "blocks_for sizeof_process \<le> 2 + Suc c" by (simp add: sz)
  obtain tmp k m where 1: "kzalloc sizeof_process s = Some (tmp, s\<lparr>mem := m\<rparr>)" "grows {(tmp, k)} {} s (s\<lparr>mem := m\<rparr>)"
    "kheap_cap (s\<lparr>mem := m\<rparr>) (2 + Suc c - blocks_for sizeof_process)" "unat sizeof_process \<le> k" "region tmp k \<subseteq> heap_private s" "\<forall>a \<in> region tmp k. m a = 0" "tmp \<noteq> 0"
    by (rule grows_alloc [OF fp(1) assms(2) b])
  let ?m = "init_process tmp m"
  have k: "4372 \<le> k" using 1(4) sz(1) by simp
  have r: "region tmp 4372 \<subseteq> region tmp k" by (rule region_mono [OF k])
  have "(tmp, k) \<in> kheap_live (s\<lparr>mem := m\<rparr>)" using growsD(2) [OF 1(2)] by blast
  then have off: "region tmp 4372 \<inter> kheap_meta = {}" using kheap_live_off_meta(1) [OF growsD(1) [OF 1(2)]] r by blast
  have f: "same_outside (region tmp 4372) m ?m" using memset_outside [of tmp sizeof_process m 0] by (simp add: init_process_def sz)
  define t where "t = s\<lparr>mem := ?m\<rparr>"
  have f': "same_outside (region tmp 4372) (mem (s\<lparr>mem := m\<rparr>)) ?m" using f by simp
  note gs = grows_store [OF growsD(1) [OF 1(2)] f' off]
  have g2: "grows {} (region tmp 4372) (s\<lparr>mem := m\<rparr>) t" "kheap_cap t = kheap_cap (s\<lparr>mem := m\<rparr>)" using gs by (simp_all add: t_def)
  from grows_trans [OF 1(2) g2(1)] have g: "grows {(tmp, k)} {} s t" using r 1(5) by auto
  have cap: "kheap_cap t (Suc c)" using 1(3) sz(2) by (simp add: g2(2))
  have "kheap_cap t 1" by (rule kheap_cap_mono [OF cap]) simp
  moreover have "grows {(tmp, k)} ({} \<union> fat_pos s) s t" by (rule grows_mono [OF g]) auto
  ultimately have vr: "vfs_ready img rs spc e its t" "fat_area t = fat_area s" "fat_pos t = fat_pos s" "root_area t its = root_area s its"
    using vfs_ready_grows [OF assms(1), of "{(tmp, k)}" "{}" t] by simp_all
  have z: "\<forall>a \<in> region tmp 4372. mem t a = 0" using memset_inside [of _ tmp sizeof_process m 0] by (auto simp: t_def init_process_def sz)
  have "fd_table t = fd_table s"
    by (rule fd_table_frame [OF growsD(4) [OF g]]) (use vfs_ready_apart [OF assms(1)] in \<open>auto simp: t_def\<close>)
  then show ?thesis using that [OF 1(1,7) _ g k z vr(1) cap vr(2,4,3)] by (simp add: t_def)
qed

text \<open>The block that \<^verbatim>\<open>kzalloc\<close> hands out for the process in \<open>s\<close> is not live in \<open>s'\<close>.\<close>

definition process_given_back :: "'a kheap_state_scheme \<Rightarrow> 'a kheap_state_scheme \<Rightarrow> bool" where
  "process_given_back s s' \<longleftrightarrow>
     (\<exists>tmp s0. kzalloc sizeof_process s = Some (tmp, s0) \<and> tmp \<noteq> 0 \<and> (\<forall>k. (tmp, k) \<notin> kheap_live s'))"

lemma load_process_gives_up:
  fixes s :: "'a process_state_scheme"
  assumes v: "vfs_ready img rs spc e its s" and "get_process pid s = 0"
    and 1: "kzalloc sizeof_process s = Some (tmp, s1)" "tmp \<noteq> 0" "t = s1\<lparr>mem := init_process tmp (mem s1)\<rparr>"
    and t: "grows {(tmp, k)} {} s t" "4372 \<le> k" "\<forall>a \<in> region tmp 4372. mem t a = 0"
    and bin: "load_binary p tmp t = Some (r, t1)" "r <s 0" "kheap_cap t1 1" and g: "grows L (R \<union> fat_pos s) t t1" and R: "R \<inter> region tmp k = {}"
    and off: "R \<inter> (fat_area s \<union> vfs_globals s \<union> root_area s its) = {}"
  obtains s' where "load_process p proc pid s = Some (r, s')" and "vfs_ready img rs spc e its s'" and "grows L (R \<union> fat_pos s) s s'"
    and "same_outside kheap_meta (mem t1) (mem s')" and "file_descriptors s' = file_descriptors t1" and "process_given_back s s'"
proof -
  note fp = fat_ready_parts [OF vfs_readyD(1) [OF v]]
  have l: "(tmp, k) \<in> kheap_live t" using growsD(2) [OF t(1)] by blast
  have new: "(tmp, k) \<notin> L" using growsD(3) [OF g] l by blast
  have "region tmp 4372 \<subseteq> region tmp k" by (rule region_mono [OF t(2)])
  moreover have "region tmp k \<inter> heap_private t = {}" by (rule live_not_private [OF growsD(1) [OF t(1)] l])
  moreover have "region tmp k \<inter> fat_pos s = {}" using grows_new_private [OF t(1)] fp(2,3) by blast
  ultimately have "region tmp 4372 \<inter> (R \<union> fat_pos s \<union> heap_private t) = {}" using R by blast
  then have z: "\<forall>a \<in> region tmp 4372. mem t1 a = 0" using t(3) growsD(4) [OF g] by (auto simp: same_outside_def)
  have "grows ({(tmp, k)} \<union> L) (R \<union> fat_pos s) s t1" by (rule grows_trans [OF grows_mono [OF t(1)] g]) auto
  then have gi: "grows (insert (tmp, k) L) (R \<union> fat_pos s) s t1" by simp
  obtain s' where f: "kfree tmp t1 = Some s'" "grows L (R \<union> fat_pos s) s s'" "same_outside kheap_meta (mem t1) (mem s')"
    by (rule grows_free [OF gi new])
  have run: "load_process p proc pid s = Some (r, s')"
    using assms(2) 1(1,2) bin(1,2) free_empty_process [OF z] f(1) by (simp add: load_process_def load_data_def 1(3) [symmetric])
  have "kheap_live s' \<subseteq> kheap_live t1" using growsD(2) [OF f(2)] growsD(2) [OF gi] by blast
  then have "kheap_cap s' 1" by (rule kheap_cap_antimono [OF growsD(1) [OF gi] growsD(1) [OF f(2)] _ bin(3)])
  from vfs_ready_grows(1) [OF v f(2) off this] have vr: "vfs_ready img rs spc e its s'" .
  have "file_descriptors s' = file_descriptors t1"
    using file_state_fields(3) [OF grows_state [OF f(2)]] file_state_fields(3) [OF grows_state [OF gi]] by simp
  moreover have "process_given_back s s'"
  proof -
    have lt: "(tmp, k) \<in> kheap_live t1" using growsD(2) [OF gi] by simp
    have "(tmp, j) \<notin> kheap_live s'" for j
    proof
      assume j: "(tmp, j) \<in> kheap_live s'"
      then have "(tmp, j) \<in> kheap_live t1" using \<open>kheap_live s' \<subseteq> kheap_live t1\<close> by blast
      then have "j = k" by (rule live_unique [OF growsD(1) [OF gi] _ lt])
      then show False using j new growsD(2) [OF f(2)] growsD(2,3) [OF t(1)] by blast
    qed
    then show ?thesis unfolding process_given_back_def using 1(1,2) by blast
  qed
  ultimately show ?thesis by (rule that [OF run vr f(2,3)])
qed

text \<open>What stays taken when the file is there: the program in a block of its own, and the number of the file.\<close>

definition load_room :: "u8 list \<Rightarrow> nat \<Rightarrow> u32 \<Rightarrow> nat" where
  "load_room ps w sz = 2 + Suc (path_need ps + w + blocks_for sz + 3)"

lemma load_process_file:
  fixes s :: "'a process_state_scheme"
  assumes v: "vfs_ready img rs spc e its s" and sa: "stat_apart its s" and "get_process pid s = 0"
    and "readable s p ps" and "good_path ps" and "path_drive ps = 0"
    and "walks img spc e its (path_parts (drop 3 ps)) bs w" and fg: "program_of img rs spc e bs ys"
    and "kheap_cap s (load_room ps w (item_size bs))" and slot: "find (\<lambda>i. fd_table s ! i = 0) [0..<512] = Some j"
  obtains L q k d l s' where "load_process p proc pid s = Some (- EIO, s')" and "vfs_ready img rs spc e its s'"
    and "grows L (region (stat_local s) 8 \<union> fat_locals s \<union> elem_region (file_descriptors s) 4 j \<union> fat_pos s) s s'" and "(q, k) \<in> L" and "(d, l) \<in> L" and "16 \<le> l" and "length ys \<le> k"
    and "load_bytes (mem s') q (length ys) = ys" and "d \<noteq> 0" and "fd_table s' = (fd_table s)[j := d]" and "stale_descriptor d s'" and "process_given_back s s'"
proof -
  let ?E = "elem_region (file_descriptors s) 4 j" and ?S = "region (stat_local s) 8"
  let ?R = "?S \<union> fat_locals s \<union> ?E"
  note fp = fat_ready_parts [OF vfs_readyD(1) [OF v]] and ap = vfs_ready_apart [OF v]
  obtain tmp k s1 t where 1: "kzalloc sizeof_process s = Some (tmp, s1)" "tmp \<noteq> 0" "t = s1\<lparr>mem := init_process tmp (mem s1)\<rparr>"
    "grows {(tmp, k)} {} s t" "4372 \<le> k" "\<forall>a \<in> region tmp 4372. mem t a = 0" "vfs_ready img rs spc e its t" "kheap_cap t (Suc (path_need ps + w + blocks_for (item_size bs) + 3))"
    "fat_area t = fat_area s" "root_area t its = root_area s its" "fat_pos t = fat_pos s" "fd_table t = fd_table s"
    by (rule new_process [OF v assms(9) [unfolded load_room_def]])
  note st = stat_apart_grows [OF sa 1(4,9,10)] and e = file_state_fields [OF grows_state [OF 1(4)]]
  have rd: "readable t p ps" by (rule readable_grows [OF assms(4) 1(4)]) simp
  have cap: "kheap_cap t (path_need ps + (w + 2 + Suc (Suc (blocks_for (item_size bs)))))" by (rule kheap_cap_mono [OF 1(8)]) simp
  obtain L d l q i t1 where 2: "load_binary p tmp t = Some (- EIO, t1)" "vfs_ready img rs spc e its t1"
    "grows L (region (stat_local t) 8 \<union> fat_locals t \<union> fat_pos t \<union> elem_region (file_descriptors t) 4 j) t t1" "(q, i) \<in> L" "(d, l) \<in> L" "16 \<le> l" "length ys \<le> i"
    "load_bytes (mem t1) q (length ys) = ys" "d \<noteq> 0" "fd_table t1 = (fd_table t)[j := d]" "stale_descriptor d t1"
    by (rule load_binary_file [OF 1(7) st(1) rd assms(5-8) cap slot [folded 1(12)]])
  have g: "grows L (?R \<union> fat_pos s) t t1" by (rule grows_mono [OF 2(3)]) (auto simp: st(2) e 1(11))
  have j: "j < 512" using slot by (auto simp: find_Some_iff)
  have E: "?E \<subseteq> fd_region s" using elem_within [OF j, of "file_descriptors s" 4] by (simp add: fd_region_def)
  have so: "?S \<inter> (kheap_meta \<union> heap_area \<union> fat_area s \<union> fd_region s \<union> vfs_globals s \<union> root_area s its) = {}" using sa by (simp add: stat_apart_def)
  have tp: "region tmp k \<subseteq> heap_private s" by (rule grows_new_private [OF 1(4)]) simp
  moreover have "heap_private s \<subseteq> kheap_meta \<union> heap_area" by (auto simp: heap_private_def)
  ultimately have R: "?R \<inter> region tmp k = {}" using so E ap fp(5) by blast
  have off: "?R \<inter> (fat_area s \<union> vfs_globals s \<union> root_area s its) = {}" using so E ap fp(5) vfs_readyD(9) [OF v] by blast
  have c1: "kheap_cap t1 1" using vfs_readyD(1) [OF 2(2)] by (simp add: fat_ready_def)
  obtain s' where 3: "load_process p proc pid s = Some (- EIO, s')" "vfs_ready img rs spc e its s'" "grows L (?R \<union> fat_pos s) s s'"
    "same_outside kheap_meta (mem t1) (mem s')" "file_descriptors s' = file_descriptors t1" "process_given_back s s'"
    by (rule load_process_gives_up [OF v assms(3) 1(1-6) 2(1) errors_negative(1) c1 g R off])
  have "(q, i) \<in> kheap_live t1" using growsD(2) [OF g] 2(4) by blast
  moreover have "region q (length ys) \<subseteq> region q i" by (rule region_mono [OF 2(7)])
  ultimately have "region q (length ys) \<inter> kheap_meta = {}" using kheap_live_off_meta(1) [OF growsD(1) [OF g]] by blast
  then have ld: "load_bytes (mem s') q (length ys) = ys"
    using program_length [OF fg] 2(8) by (subst load_bytes_frame [OF 3(4)]) auto
  have "(d, l) \<in> kheap_live t1" using growsD(2) [OF g] 2(5) by blast
  moreover have "kheap_live s' \<subseteq> kheap_live t1" using growsD(2) [OF 3(3)] growsD(2) [OF g] growsD(2) [OF 1(4)] by blast
  ultimately have sd: "stale_descriptor d s'" by (intro stale_descriptor_frame [OF 2(11) growsD(1) [OF g] _ 2(6) 3(4)])
  have "kheap_meta \<inter> fd_region t1 = {}" using vfs_readyD(8) [OF 2(2)] by blast
  from fd_table_frame [OF 3(4) this 3(5)] have "fd_table s' = (fd_table s)[j := d]" using 2(10) 1(12) by simp
  then show ?thesis by (rule that [OF 3(1-3) 2(4-7) ld 2(9) _ sd 3(6)])
qed

lemma load_process_missing:
  fixes s :: "'a process_state_scheme"
  assumes v: "vfs_ready img rs spc e its s" and "get_process pid s = 0" and "readable s p ps" and "good_path ps" and "path_drive ps = 0"
    and co: "cannot_open img spc e its ps w s" and "kheap_cap s (load_room ps w 0)"
  obtains L s' where "load_process p proc pid s = Some (- EINVAL, s')" and "vfs_ready img rs spc e its s'"
    and "grows L (fat_locals s \<union> fat_pos s) s s'" and "fd_table s' = fd_table s" and "process_given_back s s'"
proof -
  note fp = fat_ready_parts [OF vfs_readyD(1) [OF v]] and ap = vfs_ready_apart [OF v]
  obtain tmp k s1 t where 1: "kzalloc sizeof_process s = Some (tmp, s1)" "tmp \<noteq> 0" "t = s1\<lparr>mem := init_process tmp (mem s1)\<rparr>"
    "grows {(tmp, k)} {} s t" "4372 \<le> k" "\<forall>a \<in> region tmp 4372. mem t a = 0" "vfs_ready img rs spc e its t" "kheap_cap t (Suc (path_need ps + w + blocks_for 0 + 3))"
    "fat_area t = fat_area s" "root_area t its = root_area s its" "fat_pos t = fat_pos s" "fd_table t = fd_table s"
    by (rule new_process [OF v assms(7) [unfolded load_room_def]])
  note e = file_state_fields [OF grows_state [OF 1(4)]]
  have rd: "readable t p ps" by (rule readable_grows [OF assms(3) 1(4)]) simp
  have gt: "grows {(tmp, k)} (fat_locals s \<union> fat_pos s) s t" by (rule grows_mono [OF 1(4)]) auto
  have n: "cannot_open img spc e its ps w t"
    using co null_item_grows [OF vfs_readyD(1) [OF v] _ gt] unfolding cannot_open_def 1(12) by blast
  have cap: "kheap_cap t (path_need ps + Suc (w + Suc 0))" by (rule kheap_cap_mono [OF 1(8)]) simp
  obtain L t1 where 2: "load_binary p tmp t = Some (- EINVAL, t1)" "vfs_ready img rs spc e its t1"
    "grows L (fat_locals t \<union> fat_pos t) t t1" "fd_table t1 = fd_table t"
    by (rule load_binary_missing [OF 1(7) rd assms(4,5) n cap])
  have g: "grows L (fat_locals s \<union> fat_pos s) t t1" using 2(3) by (simp add: e 1(11))
  have "region tmp k \<subseteq> heap_private s" by (rule grows_new_private [OF 1(4)]) simp
  then have R: "fat_locals s \<inter> region tmp k = {}" using fp(5) by blast
  have off: "fat_locals s \<inter> (fat_area s \<union> vfs_globals s \<union> root_area s its) = {}" using ap fp(5) by blast
  have c1: "kheap_cap t1 1" using vfs_readyD(1) [OF 2(2)] by (simp add: fat_ready_def)
  obtain s' where 3: "load_process p proc pid s = Some (- EINVAL, s')" "vfs_ready img rs spc e its s'" "grows L (fat_locals s \<union> fat_pos s) s s'"
    "same_outside kheap_meta (mem t1) (mem s')" "file_descriptors s' = file_descriptors t1" "process_given_back s s'"
    by (rule load_process_gives_up [OF v assms(2) 1(1-6) 2(1) errors_negative(2) c1 g R off])
  have "kheap_meta \<inter> fd_region t1 = {}" using vfs_readyD(8) [OF 2(2)] by blast
  from fd_table_frame [OF 3(4) this 3(5)] have "fd_table s' = fd_table s" using 2(4) 1(12) by simp
  then show ?thesis by (rule that [OF 3(1-3) _ 3(6)])
qed

section \<open>A machine that is up\<close>

lemma sample_up:
  obtains s1 A s2 where "boot_tables 0x20000 0x20010 0x20020 sample_kernel = Some s1" and "boot_disk s1 = Some s2"
    and "vfs_ready demo_disk 1 1 3 demo_items s2" and "stat_apart demo_items s2" and "get_process 3 s2 = 0"
    and "readable s2 (sample_literal ''0:/my_file.txt'') (text_bytes ''0:/my_file.txt'')"
    and "kheap_cap s2 1101" and "find (\<lambda>i. fd_table s2 ! i = 0) [0..<512] = Some 0"
proof -
  note f = sample_kernel_fields
  have n: "length demo_items = 2" by (simp add: demo_items_def)
  have d: "ata_drive (device sample_kernel) demo_disk" using sample_drive_ok by (simp add: f)
  have l: "demo_linked (length demo_items) sample_kernel" "length demo_items \<le> 20000" unfolding n using sample_demo_linked by simp_all
  obtain s1 A s2 where b: "boot_tables 0x20000 0x20010 0x20020 sample_kernel = Some s1" "boot_disk s1 = Some s2"
    "kernel_up demo_disk 1 1 3 demo_items A (0x20000, 0x20010, 0x20020) sample_kernel s2" "kheap_cap s2 (Suc 1100)"
    "\<forall>i < 512. fd_table s2 ! i = (if i < 4 then 0 else fd_table sample_kernel ! i)" by (rule boot_up [OF l(1) d demo_disk_ok l(2)])
  note u = kernel_upD [OF b(3)] and sm = same_main_demo [OF kernel_upD(4) [OF b(3)]]
  have pr: "processes s2 = 0x3A0000" "stat_local s2 = 0x400400"
    using u(4) by (simp_all add: same_main_def sample_kernel_def process_state.extend_def process_state.fields_def kernel_state.fields_def file_state.extend_def)
  have lit: "literal s2 ''0:/my_file.txt'' = sample_literal ''0:/my_file.txt''" unfolding sm(9) f ..
  have tx: "demo_text (length demo_items) sample_kernel ''0:/my_file.txt''" using sample_demo_texts unfolding n by (simp add: demo_strings_def)
  have "region 0x3A000C 4 \<inter> demo_writes 2 sample_kernel = {}"
  proof -
    have "region 0x3A000C 4 \<inter> boot_writes 2 sample_kernel = {}"
      by (simp add: boot_writes_def f sample_buffer_def fd_region_def fat_locals_def screen_region_def kheap_meta_def table_region_def heap_area_def
          kernel_consts file_fields) (auto simp: region_interval)
    moreover have "region 0x3A000C 4 \<inter> demo_region sample_kernel = {}"
      by (simp add: demo_region_def demo_regions_def f sample_buffer_def) (auto simp: region_interval)
    ultimately show ?thesis unfolding demo_writes_def by blast
  qed
  then have "load32 (mem s2) 0x3A000C = load32 kernel_mem 0x3A000C" using load32_frame [OF u(6)] unfolding n f(1) by simp
  also have "\<dots> = 0" by (simp add: load32_def kernel_mem_byte) (simp add: boot_mem_def)
  finally have g: "get_process 3 s2 = 0" by (simp add: get_process_def pr kernel_consts word_sless_alt word_sle_eq)
  have sa: "stat_apart demo_items s2"
  proof -
    have "fat_area s2 \<subseteq> heap_area \<union> region 0x300000 20" using fat_ready_parts(7) [OF vfs_readyD(1) [OF u(7)]] unfolding sm(6) f .
    moreover have "region 0x400400 8 \<inter> (kheap_meta \<union> heap_area \<union> region 0x300000 20 \<union> fd_region sample_kernel \<union> vfs_globals sample_kernel \<union> region 0 64) = {}"
      by (simp add: f fd_region_def vfs_globals_def kheap_meta_def table_region_def heap_area_def kernel_consts) (auto simp: region_interval)
    ultimately show ?thesis unfolding stat_apart_def pr sm(5,7) u(5) n by auto
  qed
  have "fd_table s2 ! 0 = 0" using b(5) by simp
  then have sl: "find (\<lambda>i. fd_table s2 ! i = 0) [0..<512] = Some 0" by (subst upt_conv_Cons) simp_all
  have "kheap_cap s2 1101" using b(4) by simp
  then show ?thesis by (rule that [OF b(1,2) u(7) sa g up_text(3) [OF b(3) tx, unfolded lit] _ sl])
qed

section \<open>Properties\<close>

text \<open>C12: \<^verbatim>\<open>load_process\<close> on a mounted disk returns with an error in each of these cases. A number that is taken or out of range
  is refused with nothing done. When the path leads to a file that is empty, or whose first cluster is on the disk, and a number is
  free, the program (of a file beyond a cluster the first cluster) is read into a new heap block and then the result is \<^verbatim>\<open>-EIO\<close>: the
  block that holds the program and the descriptor stay live, the lowest empty number stays taken, and the descriptor it leads to holds
  a handle that has been freed. When the path breaks off, or leads to a file but no number is free, the result is \<^verbatim>\<open>-EINVAL\<close> and the
  numbers are as before. In all cases but the first the block \<^verbatim>\<open>kzalloc\<close> handed out for the process has been given back and the file
  system is ready.\<close>

theorem load_process_outcomes:
  fixes s :: "'a process_state_scheme"
  assumes "vfs_ready img rs spc e its s" and "readable s p ps" and "good_path ps" and "path_drive ps = 0"
  shows "(get_process pid s \<noteq> 0 \<longrightarrow> load_process p proc pid s = Some (- EINVAL, s))
    \<and> (\<forall>bs w ys j. get_process pid s = 0 \<and> stat_apart its s \<and> walks img spc e its (path_parts (drop 3 ps)) bs w
        \<and> (if item_size bs = 0 then ys = [] else file_gives img rs spc e bs 0 (unat (item_size bs)) ys) \<and> kheap_cap s (load_room ps w (item_size bs))
        \<and> find (\<lambda>i. fd_table s ! i = 0) [0..<512] = Some j \<longrightarrow>
      (\<exists>L q k d l s'. load_process p proc pid s = Some (- EIO, s') \<and> vfs_ready img rs spc e its s' \<and> process_given_back s s'
        \<and> kheap_live s' = kheap_live s \<union> L \<and> L \<inter> kheap_live s = {} \<and> (q, k) \<in> L \<and> length ys \<le> k \<and> load_bytes (mem s') q (length ys) = ys
        \<and> (d, l) \<in> L \<and> d \<noteq> 0 \<and> fd_table s' = (fd_table s)[j := d]
        \<and> (\<forall>n. (load32 (mem s') (descriptor_private_data d), n) \<notin> kheap_live s')))
    \<and> (\<forall>w. get_process pid s = 0 \<and> kheap_cap s (load_room ps w 0)
        \<and> ((breaks img spc e its (path_parts (drop 3 ps)) w \<and> (0 < w \<longrightarrow> null_item_typed s))
          \<or> (\<exists>bs. walks img spc e its (path_parts (drop 3 ps)) bs w \<and> (\<forall>i < 512. fd_table s ! i \<noteq> 0))) \<longrightarrow>
      (\<exists>L s'. load_process p proc pid s = Some (- EINVAL, s') \<and> vfs_ready img rs spc e its s' \<and> process_given_back s s'
        \<and> kheap_live s' = kheap_live s \<union> L \<and> L \<inter> kheap_live s = {} \<and> fd_table s' = fd_table s))"
proof (intro conjI allI impI; (elim conjE)?)
  assume "get_process pid s \<noteq> 0"
  then show "load_process p proc pid s = Some (- EINVAL, s)" by (simp add: load_process_def)
next
  fix bs w ys j
  assume h: "get_process pid s = 0" "stat_apart its s" "walks img spc e its (path_parts (drop 3 ps)) bs w"
    "if item_size bs = 0 then ys = [] else file_gives img rs spc e bs 0 (unat (item_size bs)) ys"
    "kheap_cap s (load_room ps w (item_size bs))" "find (\<lambda>i. fd_table s ! i = 0) [0..<512] = Some j"
  obtain L q k d l s' where o: "load_process p proc pid s = Some (- EIO, s')"
    "vfs_ready img rs spc e its s'" "grows L (region (stat_local s) 8 \<union> fat_locals s \<union> elem_region (file_descriptors s) 4 j \<union> fat_pos s) s s'"
    "(q, k) \<in> L" "(d, l) \<in> L" "16 \<le> l" "length ys \<le> k" "load_bytes (mem s') q (length ys) = ys" "d \<noteq> 0" "fd_table s' = (fd_table s)[j := d]"
    "stale_descriptor d s'" "process_given_back s s'"
    by (rule load_process_file [OF assms(1) h(2,1) assms(2-4) h(3) h(4) [folded program_of_def] h(5,6)])
  show "\<exists>L q k d l s'. load_process p proc pid s = Some (- EIO, s') \<and> vfs_ready img rs spc e its s' \<and> process_given_back s s'
    \<and> kheap_live s' = kheap_live s \<union> L \<and> L \<inter> kheap_live s = {} \<and> (q, k) \<in> L \<and> length ys \<le> k \<and> load_bytes (mem s') q (length ys) = ys
    \<and> (d, l) \<in> L \<and> d \<noteq> 0 \<and> fd_table s' = (fd_table s)[j := d] \<and> (\<forall>n. (load32 (mem s') (descriptor_private_data d), n) \<notin> kheap_live s')"
    by (rule exI [of _ L], rule exI [of _ q], rule exI [of _ k], rule exI [of _ d], rule exI [of _ l], rule exI [of _ s'])
      (use o(1,2,4,5,7-10,12) o(11) [unfolded stale_descriptor_def] growsD(2,3) [OF o(3)] in simp)
next
  fix w
  assume h: "get_process pid s = 0" "kheap_cap s (load_room ps w 0)"
    "(breaks img spc e its (path_parts (drop 3 ps)) w \<and> (0 < w \<longrightarrow> null_item_typed s))
      \<or> (\<exists>bs. walks img spc e its (path_parts (drop 3 ps)) bs w \<and> (\<forall>i < 512. fd_table s ! i \<noteq> 0))"
  obtain L s' where o: "load_process p proc pid s = Some (- EINVAL, s')" "vfs_ready img rs spc e its s'" "grows L (fat_locals s \<union> fat_pos s) s s'"
    "fd_table s' = fd_table s" "process_given_back s s'"
    by (rule load_process_missing [OF assms(1) h(1) assms(2-4) h(3) [folded cannot_open_def] h(2)])
  show "\<exists>L s'. load_process p proc pid s = Some (- EINVAL, s') \<and> vfs_ready img rs spc e its s' \<and> process_given_back s s'
    \<and> kheap_live s' = kheap_live s \<union> L \<and> L \<inter> kheap_live s = {} \<and> fd_table s' = fd_table s"
    by (rule exI [of _ L], rule exI [of _ s']) (use o(1,2,4,5) growsD(2,3) [OF o(3)] in simp)
qed

theorem load_process_outcomes_witness:
  "\<exists>s1 s2 s' q. boot_tables 0x20000 0x20010 0x20020 sample_kernel = Some s1 \<and> boot_disk s1 = Some s2
    \<and> load_process (sample_literal ''0:/my_file.txt'') 0x6000 3 s2 = Some (- EIO, s') \<and> load_bytes (mem s') q 11 = text_bytes ''Hello world''
    \<and> (\<exists>k. (q, k) \<in> kheap_live s' \<and> (q, k) \<notin> kheap_live s2) \<and> fd_table s' ! 0 \<noteq> 0 \<and> process_given_back s2 s'"
proof -
  let ?p = "sample_literal ''0:/my_file.txt''" and ?ps = "text_bytes ''0:/my_file.txt''"
  obtain s1 A s2 where u: "boot_tables 0x20000 0x20010 0x20020 sample_kernel = Some s1" "boot_disk s1 = Some s2"
    "vfs_ready demo_disk 1 1 3 demo_items s2" "stat_apart demo_items s2" "get_process 3 s2 = 0" "readable s2 ?p ?ps"
    "kheap_cap s2 1101" "find (\<lambda>i. fd_table s2 ! i = 0) [0..<512] = Some 0" by (rule sample_up)
  have sz: "unat (item_size (demo_items ! 0)) = 11" "blocks_for (item_size (demo_items ! 0)) = 1" by (simp_all add: demo_sizes blocks_for_def)
  then have nz: "item_size (demo_items ! 0) \<noteq> 0" by auto
  have cap: "kheap_cap s2 (load_room ?ps 2 (item_size (demo_items ! 0)))"
    by (rule kheap_cap_mono [OF u(7)]) (simp add: load_room_def demo_paths(4) sz)
  have w: "walks demo_disk 1 3 demo_items (path_parts (drop 3 ?ps)) (demo_items ! 0) 2" unfolding demo_paths(3) by (rule demo_walks(1))
  have gv: "if item_size (demo_items ! 0) = 0 then text_bytes ''Hello world'' = []
      else file_gives demo_disk 1 1 3 (demo_items ! 0) 0 (unat (item_size (demo_items ! 0))) (text_bytes ''Hello world'')"
    unfolding sz(1) using demo_gives(1) nz by (simp only: if_False)
  note T = load_process_outcomes [OF u(3,6) demo_paths(1,2), of 3 "0x6000"]
  note h = conjI [OF u(5) conjI [OF u(4) conjI [OF w conjI [OF gv conjI [OF cap u(8)]]]]]
  obtain L q k d s' where o: "load_process ?p 0x6000 3 s2 = Some (- EIO, s')" "kheap_live s' = kheap_live s2 \<union> L" "L \<inter> kheap_live s2 = {}" "(q, k) \<in> L"
    "load_bytes (mem s') q (length (text_bytes ''Hello world'')) = text_bytes ''Hello world''" "d \<noteq> 0" "fd_table s' = (fd_table s2)[0 := d]"
    "process_given_back s2 s'"
    using mp [OF spec [OF spec [OF spec [OF spec [OF conjunct1 [OF conjunct2 [OF T]]]]]] h] by (elim exE conjE) (rule that)
  have "(q, k) \<in> kheap_live s'" "(q, k) \<notin> kheap_live s2" using o(2-4) by blast+
  moreover have "fd_table s' ! 0 \<noteq> 0" unfolding o(7) using o(6) by (subst nth_list_update_eq) simp_all
  moreover have "load_bytes (mem s') q 11 = text_bytes ''Hello world''" using o(5) by (simp only: demo_lengths)
  ultimately show ?thesis using u(1,2) o(1,8)
    by (intro exI [of _ s1] exI [of _ s2] exI [of _ s'] exI [of _ q]) blast
qed

end
