(* ===== verification/Spec2Isabelle.thy ===== *)
theory Spec2Isabelle
  imports Process_Load
begin

text \<open>
  N00bOS is a 32 bit x86 kernel in C++. These theories model its C++ code, \<^verbatim>\<open>src/kernel\<close>, from the string
  functions up to \<^verbatim>\<open>kernel_main\<close>, and prove what its parts do.

  \<^bold>\<open>The machine.\<close> \<^verbatim>\<open>Machine\<close> is the prelude: integers as words of 8, 16 and 32 bits, one flat byte memory
  \<open>u32 \<Rightarrow> u8\<close> in which every structure of the source lies at the offsets the i386 compiler gives it, the log
  of port operations, signed \<^verbatim>\<open>int\<close> arithmetic, the constants of \<^verbatim>\<open>config.h\<close> and \<^verbatim>\<open>status.h\<close>, and the lemmas
  on regions, loads, stores and strings that all the rest uses (\<open>region\<close>, \<open>same_outside\<close>, the collections
  \<open>kernel_consts\<close>, \<open>mem_ops\<close>, \<open>frame\<close>). A pointer is an address, a structure member a function from the
  address of the structure to that of the member, a global variable whose address matters an address in
  the state. A function that may fail to return (an endless loop, a panic, a processor fault, a call
  through a wild pointer) has an option type and is \<^term>\<open>None\<close> there; errors the code reports are values.

  \<^bold>\<open>State.\<close> Each component extends the record of the one below it, so that every operation also runs on the
  states of its callers: \<open>mach\<close> (memory, port log), \<open>tty_state\<close>, \<open>idt_state\<close>, \<open>kheap_state\<close>, \<open>paging_state\<close>,
  \<open>task_state\<close>, \<open>disk_state\<close>, \<open>fat_state\<close>, \<open>file_state\<close>, \<open>process_state\<close>, \<open>kernel_state\<close>.

  \<^bold>\<open>Components.\<close>
  \<^item> \<^verbatim>\<open>Libc_String\<close>, \<^verbatim>\<open>Libc_Stdlib\<close> (\<^verbatim>\<open>libc/string.cpp\<close>, \<^verbatim>\<open>libc/ctype.cpp\<close>, \<^verbatim>\<open>libc/stdlib.cpp\<close>): every function; the copy
    functions against byte lists, comparisons against comparisons of lists, \<^verbatim>\<open>atoi\<close> after \<^verbatim>\<open>itoa\<close>.
  \<^item> \<^verbatim>\<open>Tty\<close> (\<^verbatim>\<open>vga.h\<close>, \<^verbatim>\<open>tty.cpp\<close>): the screen; \<^verbatim>\<open>terminal_write\<close> refines writing the characters of the string.
  \<^item> \<^verbatim>\<open>Arrays\<close>: the locale \<open>array_writer\<close>, a loop that fills an array, interpreted for the screen, the segment
    table, the gate table and page tables.
  \<^item> \<^verbatim>\<open>Gdt\<close>, \<^verbatim>\<open>Idt\<close> (\<^verbatim>\<open>gdt.cpp\<close>, \<^verbatim>\<open>idt.cpp\<close>): the descriptor encoder against the decoder the processor applies,
    the boot-time table, all 256 gates, the interrupt handlers.
  \<^item> \<^verbatim>\<open>Heap\<close>, \<^verbatim>\<open>Heap_Table\<close>, \<^verbatim>\<open>Heap_Correct\<close>, \<^verbatim>\<open>Kheap\<close>, \<^verbatim>\<open>Heap_Client\<close> (\<^verbatim>\<open>mm/heap\<close>): the block heap. \<^verbatim>\<open>Heap_Table\<close> is the abstract
    first-fit step on a list of table entries, \<^verbatim>\<open>Heap_Correct\<close> shows that the code refines it, \<^verbatim>\<open>Kheap\<close> states
    the contract as the locales \<open>allocator\<close> and \<open>page_allocator\<close> and interprets them on \<^verbatim>\<open>kmalloc\<close> and \<^verbatim>\<open>kzalloc\<close>, and
    \<^verbatim>\<open>Heap_Client\<close> is the client's view, the relation \<open>grows\<close>: which blocks became live and what was written.
  \<^item> \<^verbatim>\<open>Paging\<close> (\<^verbatim>\<open>paging.cpp\<close>): two-level page tables in heap blocks against the walk the processor makes: the entry it
    finds, and the address and the rights the entries of directory and table give together (\<open>translate\<close>).
  \<^item> \<^verbatim>\<open>Task\<close> (\<^verbatim>\<open>task.cpp\<close>): the doubly linked list of tasks against a list of addresses.
  \<^item> \<^verbatim>\<open>Ata\<close>, \<^verbatim>\<open>Disk\<close> (\<^verbatim>\<open>ata.cpp\<close>, \<^verbatim>\<open>disk.cpp\<close>, \<^verbatim>\<open>disk_streamer.cpp\<close>): sector reads and streams against the image of the disk.
    The drive is not code of the repository: it is the field \<open>device\<close>, a function from the port log to the
    value read, and \<open>ata_drive\<close> states the part of the ATA protocol the driver relies on.
  \<^item> \<^verbatim>\<open>Path_Parser\<close> (\<^verbatim>\<open>path_parser.cpp\<close>): \<^verbatim>\<open>0:/a/b\<close> to a linked list of names and back to free memory.
  \<^item> \<^verbatim>\<open>File_Types\<close>, \<^verbatim>\<open>Fat16\<close>, \<^verbatim>\<open>Fat16_Correct\<close>, \<^verbatim>\<open>Fat16_Open\<close>, \<^verbatim>\<open>Fat16_Path\<close>, \<^verbatim>\<open>Fat16_Mount\<close> (\<^verbatim>\<open>file.h\<close>, \<^verbatim>\<open>fat16.cpp\<close>): the FAT16 driver
    against the disk image: cluster chains (what a read delivers is the chain's bytes only up to the end of a cluster), names, opening, reading and closing files, loading and giving back the directories on
    the way to a file (\<open>walks\<close> and \<open>breaks\<close> are the lookup of a path on the disk, as inductive relations), and mounting,
    which establishes what the other operations rely on.
  \<^item> \<^verbatim>\<open>File\<close>, \<^verbatim>\<open>File_Correct\<close> (\<^verbatim>\<open>file.cpp\<close>): the descriptor table and the calls through the driver's function pointers.
  \<^item> \<^verbatim>\<open>File_Session\<close>: what open files promise, as the locale \<open>file_service\<close> (seek moves the position, read delivers what
    \<open>file_gives\<close> has there, no operation disturbs another open file), interpreted twice, on the driver's functions and on
    \<^verbatim>\<open>fseek\<close>, \<^verbatim>\<open>fread\<close> and \<^verbatim>\<open>fclose\<close>; and \<^verbatim>\<open>fopen\<close> on each of its paths. \<open>vfs_ready\<close> is the invariant of the mounted file system.
  \<^item> \<^verbatim>\<open>File_Boot\<close>: \<^verbatim>\<open>fs::init\<close> and \<^verbatim>\<open>search_and_initialize\<close> establish \<open>vfs_ready\<close> on a FAT16 disk and refuse any other; sessions,
    interleaved files, the outcomes of \<^verbatim>\<open>fopen\<close>, use after \<^verbatim>\<open>fclose\<close>.
  \<^item> \<^verbatim>\<open>Process\<close>, \<^verbatim>\<open>Process_Correct\<close>, \<^verbatim>\<open>Process_Load\<close> (\<^verbatim>\<open>process.cpp\<close>): loading a program, from any state (it never succeeds) and on a
    mounted disk: what \<^verbatim>\<open>load_process\<close> returns and leaves behind for a path to a file, a path that breaks off and a full descriptor
    table, but not for a path that ends in a directory or a file whose first cluster is not on the disk.
  \<^item> \<^verbatim>\<open>Kernel\<close>, \<^verbatim>\<open>Kernel_Boot\<close>, \<^verbatim>\<open>Kernel_Run\<close>, \<^verbatim>\<open>Kernel_Sample\<close>, \<^verbatim>\<open>Kernel_Demo\<close> (\<^verbatim>\<open>kernel.cpp\<close>): the whole of \<^verbatim>\<open>kernel_main\<close>.
    \<^verbatim>\<open>Kernel_Boot\<close> has what it has built before it touches a file, \<^verbatim>\<open>Kernel_Run\<close> the invariant of the running kernel (\<open>kernel_up\<close>),
    kept by every operation used after that, with what each prints (\<open>prints\<close>), \<^verbatim>\<open>Kernel_Demo\<close> the two demonstration files, whether the
    disk has them or not, and the theorem about \<^verbatim>\<open>kernel_main\<close> from start to end; \<^verbatim>\<open>Kernel_Sample\<close> is a machine and a disk with both
    files. The assumption is only the image: the globals, local buffers and strings lie at places of their own (\<open>kernel_linked\<close>,
    \<open>demo_linked\<close>, \<open>demo_text\<close>), and nothing lies where the mounting driver writes the root directory (\<open>boot_low\<close>).
  \<^item> This theory holds what else spans components: writing to the screen leaves the heap alone, and the machine's paging after
    booting from any state.

  \<^bold>\<open>Loops.\<close> There is no fuel. A loop with a bound is a \<^verbatim>\<open>function\<close> with a termination proof; a loop that may run
  for ever is a \<^verbatim>\<open>partial_function (option)\<close>, and the theorems about it show that it returns.

  \<^bold>\<open>Not modelled.\<close> The boot sector and \<^verbatim>\<open>kernel.asm\<close>, which run before the C++ code. Of the other assembly files the
  single instructions C++ calls (port input and output, \<^verbatim>\<open>lgdt\<close>, \<^verbatim>\<open>lidt\<close>, \<^verbatim>\<open>ltr\<close>, loading CR3, switching paging and
  interrupts on) are assignments to processor state, and the interrupt entry stubs are addresses. The
  processor's own address translation is not applied to the memory accesses of the kernel: it runs
  identity mapped, which \<open>boot_identity_paging\<close> justifies. The theorem about
  \<^verbatim>\<open>kernel_main\<close> leaves out the disks on which the first demonstration file is empty, has 100 bytes or more or reports a flag value
  outside 1 to 99 (\<^verbatim>\<open>kernel_main\<close> then writes beyond a buffer of three bytes, \<open>number_beyond_buffer\<close>, or
  \<^verbatim>\<open>itoa\<close> leaves its result unterminated), on which a file has no valid first cluster, on which the last name
  of a path is a directory, on which the directories on the way take more than a thousand heap blocks, and on which a missing name makes the
  driver read a directory's type out of the name of the first root item.
\<close>

section \<open>Screen and heap\<close>

text \<open>Writing to the terminal never disturbs the heap: a string off the screen is written, the heap keeps
  its invariant and its live blocks, and every live block keeps its contents.\<close>

lemma terminal_keeps_heap:
  fixes s :: "'a kheap_state_scheme"
  assumes "kheap_inv s" and "tty_ok s" and "cstring (mem s) str bs" and "region str (Suc (length bs)) \<inter> screen_region = {}"
  shows "\<exists>s'. terminal_write str s = Some s' \<and> kheap_inv s' \<and> kheap_live s' = kheap_live s
    \<and> (\<forall>(p, k) \<in> kheap_live s. load_bytes (mem s') p k = load_bytes (mem s) p k)"
proof -
  obtain s' where s': "terminal_write str s = Some s'" "same_outside screen_region (mem s) (mem s')"
    by (rule terminal_write_ok [OF assms(2-4)]) metis
  have "kernel_heap s' = kernel_heap s" "strategy s' = strategy s"
    by (rule terminal_write_state [OF s'(1)]; simp)+
  note k = kheap_inv_frame [OF assms(1) s'(2) screen_off_heap(1) this]
  have "load_bytes (mem s') p k = load_bytes (mem s) p k" if "(p, k) \<in> kheap_live s" for p k
    using live_in_heap [OF assms(1) that] screen_off_heap(2) [unfolded heap_area_def] kheap_live_off_meta(3) [OF assms(1) that]
    by (intro load_bytes_frame [OF s'(2)]) blast+
  then show ?thesis using s'(1) k by blast
qed

section \<open>Boot\<close>

text \<open>C6: the memory part of \<^verbatim>\<open>kernel_main\<close> works from every machine state: \<^verbatim>\<open>kheap_init\<close>, then
  \<^verbatim>\<open>paging_new\<close> with the kernel's flags, then \<^verbatim>\<open>paging_switch\<close> succeed, and the directory loaded into
  CR3 maps every address to itself: with both levels of entries taken together the processor finds it
  present, writable and accessible from user mode.\<close>

theorem boot_identity_paging:
  fixes s :: "'a paging_state_scheme"
  shows "\<exists>s1 chunk s2. kheap_init s = Some s1
    \<and> paging_new (PAGING_IS_WRITABLE OR PAGING_IS_PRESENT OR PAGING_ACCESS_FROM_ALL) s1 = Some (chunk, s2)
    \<and> kheap_inv (paging_switch chunk s2)
    \<and> current_directory (paging_switch chunk s2) = cpu_cr3 (paging_switch chunk s2)
    \<and> (\<forall>va. page_entry (mem (paging_switch chunk s2)) (cpu_cr3 (paging_switch chunk s2)) va = (va AND 0xfffff000) OR 7)
    \<and> (\<forall>va. translate (mem (paging_switch chunk s2)) (cpu_cr3 (paging_switch chunk s2)) va = Some (va, True, True))"
proof -
  obtain s1 where s1: "kheap_init s = Some s1" "kheap_inv s1"
    "kheap_entries s1 = replicate 25600 HEAP_BLOCK_TABLE_ENTRY_FREE"
    by (rule kheap_init_ok [of s])
  have "fits (kheap_entries s1) 0 (2051 + 0)"
    by (simp add: s1(3) fits_iff free_entry_def get_entry_type_def kernel_consts)
  then have "kheap_cap s1 (2051 + 0)" unfolding kheap_cap_def by blast
  from paging_new_ok [OF s1(2) this] obtain cb d :: "u32 \<times> nat" and ts m
    where n: "paging_new 7 s1 = Some (fst cb, s1\<lparr>mem := m\<rparr>)" "kheap_inv (s1\<lparr>mem := m\<rparr>)"
      "chunk_ok (s1\<lparr>mem := m\<rparr>) cb d ts" "\<forall>va. page_entry m (fst d) va = (va AND 0xfffff000) OR ucast (7 :: u8)"
      "identity_map 7 m (fst d)"
    by metis
  have "load32 m (fst cb) = fst d" using n(3) by (simp add: chunk_ok_def)
  moreover have "translate m (fst d) va = Some (va, True, True)" for va using identity_map_translate [OF n(5)] by simp
  moreover have "PAGING_IS_WRITABLE OR PAGING_IS_PRESENT OR PAGING_ACCESS_FROM_ALL = 7" by (simp add: kernel_consts)
  ultimately show ?thesis using s1(1) n
    by (auto simp: paging_switch_def paging_load_directory_def kheap_inv_def)
qed

end
